(* ===== verification/Kernel_Prelude.thy ===== *)
theory Kernel_Prelude
  imports Main "HOL-Library.Word"
begin

text \<open>
  Shared vocabulary of the development: machine integers of the x86-64 kernel the modules
  are built for, error numbers, the outcome of code that can crash, the kernel log, and
  the lemmas on words, sums and loops that several components use.
\<close>

unbundle bit_operations_syntax

section \<open>Machine integers and error numbers\<close>

type_synonym u64 = "64 word"   \<comment> \<open>\<open>unsigned long\<close>, \<open>u64\<close>, \<open>size_t\<close>, addresses\<close>
type_synonym u32 = "32 word"   \<comment> \<open>\<open>unsigned int\<close>\<close>
type_synonym s32 = "32 word"   \<comment> \<open>\<open>int\<close>: two's complement, read with \<open>sint\<close>; the kernel is
                                  built with wrapping signed arithmetic\<close>
type_synonym errno = int       \<comment> \<open>the \<open>int\<close> a kernel function returns: 0 or a negative error number\<close>

abbreviation (input) EPERM :: int where "EPERM \<equiv> 1"
abbreviation (input) ESRCH :: int where "ESRCH \<equiv> 3"
abbreviation (input) EINTR :: int where "EINTR \<equiv> 4"
abbreviation (input) EIO :: int where "EIO \<equiv> 5"
abbreviation (input) E2BIG :: int where "E2BIG \<equiv> 7"
abbreviation (input) EAGAIN :: int where "EAGAIN \<equiv> 11"
abbreviation (input) ENOMEM :: int where "ENOMEM \<equiv> 12"
abbreviation (input) EACCES :: int where "EACCES \<equiv> 13"
abbreviation (input) EFAULT :: int where "EFAULT \<equiv> 14"
abbreviation (input) EBUSY :: int where "EBUSY \<equiv> 16"
abbreviation (input) EINVAL :: int where "EINVAL \<equiv> 22"
abbreviation (input) ERANGE :: int where "ERANGE \<equiv> 34"
abbreviation (input) ERESTARTSYS :: int where "ERESTARTSYS \<equiv> 512"

text \<open>Signed subtraction that does not overflow, and the range of a signed value.\<close>

lemma sint64_range: "- (2 ^ 63) \<le> sint (a :: u64)" "sint (a :: u64) < 2 ^ 63"
  using sint_ge [of a] sint_lt [of a] by simp_all

lemma sint64_diff:
  fixes a b :: u64
  assumes "- (2 ^ 63) \<le> sint a - sint b" "sint a - sint b < 2 ^ 63"
  shows "sint (a - b) = sint a - sint b"
  using assms by (simp add: sint_word_diff signed_take_bit_int_eq_self)

lemma sint64_add:
  fixes a b :: u64
  assumes "- (2 ^ 63) \<le> sint a + sint b" "sint a + sint b < 2 ^ 63"
  shows "sint (a + b) = sint a + sint b"
  using assms by (simp add: sint_word_add signed_take_bit_int_eq_self)

section \<open>Crashes, and code that may crash\<close>

text \<open>
  What C leaves undefined and a running kernel turns into an oops or a silent corruption
  is a value: a computation returns a value of the sum \<open>crash + 'a\<close>, \<open>Inl\<close> for the crash.
\<close>

datatype crash =
    NullDeref      \<comment> \<open>a load or store through a null pointer\<close>
  | BadPointer     \<comment> \<open>a load or store through an address where there is no object\<close>
  | OutOfBounds    \<comment> \<open>an array access outside the array\<close>
  | UseAfterFree   \<comment> \<open>an access to memory already freed, or a second free\<close>
  | Uninitialised  \<comment> \<open>a read of a local variable that was never written\<close>
  | Diverges       \<comment> \<open>a loop that never ends\<close>
  | Blocks         \<comment> \<open>the caller sleeps on a lock that nobody will release\<close>
  | Bug            \<comment> \<open>a \<open>BUG()\<close> or \<open>BUG_ON\<close> of the source fires\<close>

definition bindC :: "crash + 'a \<Rightarrow> ('a \<Rightarrow> crash + 'b) \<Rightarrow> crash + 'b" where
  "bindC x f = (case x of Inl e \<Rightarrow> Inl e | Inr a \<Rightarrow> f a)"

lemma bindC_simps [simp]:
  "bindC (Inl e) f = Inl e"
  "bindC (Inr a) f = f a"
  by (simp_all add: bindC_def)

lemma bindC_Inr_iff: "bindC x f = Inr b \<longleftrightarrow> (\<exists>a. x = Inr a \<and> f a = Inr b)"
  by (cases x) auto

lemma bindC_assoc: "bindC (bindC x f) g = bindC x (\<lambda>a. bindC (f a) g)"
  by (cases x) auto

section \<open>Conditional steps\<close>

text \<open>\<open>if (b) f();\<close> on a state. Kept folded in proofs that do not depend on \<open>b\<close>.\<close>

definition do_if :: "bool \<Rightarrow> ('s \<Rightarrow> 's) \<Rightarrow> 's \<Rightarrow> 's" where
  "do_if b f s = (if b then f s else s)"

lemma do_if_simps [simp]: "do_if True f s = f s" "do_if False f s = s"
  by (simp_all add: do_if_def)

section \<open>The kernel log\<close>

text \<open>
  \<open>printk\<close> is how most of the modules report what they computed, so its calls are part of
  their result: each is the format it is called with (up to spelling of the text) and its
  arguments.
\<close>

datatype karg = KInt int | KStr string | KAddr u64

datatype kmsg = Printk string "karg list"

section \<open>Loops over an address range, one page at a time\<close>

text \<open>
  The page walks of the modules all run
  \<^verbatim>\<open>for (i = first; i <= hi; i += 4096) body(i)\<close>
  over \<open>unsigned long\<close>. The addition wraps, so the loop need not end: the loop is a partial
  function, \<open>None\<close> when it runs forever. The body returns \<open>Inl r\<close> for a \<open>return r\<close> out of the
  loop and \<open>Inr s\<close> for the state the next round starts from.
\<close>

partial_function (option) page_loop ::
  "(u64 \<Rightarrow> 's \<Rightarrow> 'r + 's) \<Rightarrow> u64 \<Rightarrow> u64 \<Rightarrow> 's \<Rightarrow> ('r + 's) option"
where
  "page_loop body i hi s =
     (if i \<le> hi
      then (case body i s of Inl r \<Rightarrow> Some (Inl r) | Inr s' \<Rightarrow> page_loop body (i + 4096) hi s')
      else Some (Inr s))"

text \<open>The addresses such a loop visits when it ends.\<close>

definition page_count :: "u64 \<Rightarrow> u64 \<Rightarrow> nat" where
  "page_count i hi = (if i \<le> hi then Suc ((unat hi - unat i) div 4096) else 0)"

definition page_seq :: "u64 \<Rightarrow> u64 \<Rightarrow> u64 list" where
  "page_seq i hi = map (\<lambda>k. i + of_nat (4096 * k)) [0..<page_count i hi]"

fun fold_exit :: "('a \<Rightarrow> 's \<Rightarrow> 'r + 's) \<Rightarrow> 'a list \<Rightarrow> 's \<Rightarrow> 'r + 's" where
  "fold_exit body [] s = Inr s"
| "fold_exit body (x # xs) s =
     (case body x s of Inl r \<Rightarrow> Inl r | Inr s' \<Rightarrow> fold_exit body xs s')"

lemma fold_exit_append:
  "fold_exit body (xs @ ys) s =
     (case fold_exit body xs s of Inl r \<Rightarrow> Inl r | Inr s' \<Rightarrow> fold_exit body ys s')"
  by (induction xs arbitrary: s) (auto split: sum.splits)

lemma fold_exit_total: "fold_exit (\<lambda>x s. Inr (f x s)) xs s = Inr (fold f xs s)"
  by (induction xs arbitrary: s) auto

lemma page_seq_Nil [simp]: "hi < i \<Longrightarrow> page_seq i hi = []"
  by (simp add: page_seq_def page_count_def)

lemma unat_add_4096:
  fixes i hi :: u64
  assumes "unat hi + 4096 < 2 ^ 64" "i \<le> hi"
  shows "unat (i + 4096) = unat i + 4096"
proof -
  have "unat i + 4096 < 2 ^ 64"
    using assms by (simp add: word_le_nat_alt)
  then show ?thesis
    by (simp add: unat_word_ariths)
qed

lemma page_seq_Cons:
  assumes "unat hi + 4096 < 2 ^ 64" "i \<le> hi"
  shows "page_seq i hi = i # page_seq (i + 4096) hi"
proof -
  note u = unat_add_4096 [OF assms]
  have il: "unat i \<le> unat hi"
    using assms(2) by (simp add: word_le_nat_alt)
  have c: "page_count i hi = Suc (page_count (i + 4096) hi)"
  proof (cases "i + 4096 \<le> hi")
    case True
    then have "unat i + 4096 \<le> unat hi"
      by (simp add: word_le_nat_alt u)
    then have "(unat hi - unat i) div 4096 = Suc ((unat hi - (unat i + 4096)) div 4096)"
      by (metis Nat.le_diff_conv2 add.commute diff_diff_eq il le_div_geq zero_less_numeral)
    with True assms(2) show ?thesis
      by (simp add: page_count_def u)
  next
    case False
    then have "unat hi - unat i < 4096"
      using il by (simp add: word_le_nat_alt u)
    with False assms(2) show ?thesis
      by (simp add: page_count_def)
  qed
  have "page_seq i hi = map (\<lambda>k. i + of_nat (4096 * k)) (0 # map Suc [0..<page_count (i + 4096) hi])"
    by (simp only: page_seq_def c map_Suc_upt upt_conv_Cons zero_less_Suc)
  also have "\<dots> = i # page_seq (i + 4096) hi"
    by (simp add: page_seq_def add.assoc)
  finally show ?thesis .
qed

text \<open>
  Where the end of the range is at least one page below the top of the address space the
  loop ends, and it is the fold of its body over \<open>page_seq\<close>.
\<close>

lemma page_loop_fold:
  assumes "unat hi + 4096 < 2 ^ 64"
  shows "page_loop body i hi s = Some (fold_exit body (page_seq i hi) s)"
proof (induction "page_count i hi" arbitrary: i s)
  case 0
  then have "\<not> i \<le> hi"
    by (auto simp: page_count_def split: if_splits)
  then show ?case
    by (subst page_loop.simps) simp
next
  case (Suc n)
  then have le: "i \<le> hi"
    by (auto simp: page_count_def split: if_splits)
  have "Suc n = Suc (page_count (i + 4096) hi)"
    using Suc.hyps(2) page_seq_Cons [OF assms le] by (metis length_Cons length_map length_upt minus_nat.diff_0 page_seq_def)
  then have "n = page_count (i + 4096) hi" by simp
  note IH = Suc.hyps(1) [OF this]
  show ?case
    by (subst page_loop.simps, subst page_seq_Cons [OF assms le])
       (auto simp: le IH split: sum.splits)
qed

lemma length_page_seq [simp]: "length (page_seq i hi) = page_count i hi"
  by (simp add: page_seq_def)

text \<open>A function that runs one such loop: it returns, whether out of the loop or after it.\<close>

definition run_page_loop :: "(u64 \<Rightarrow> 's \<Rightarrow> 's + 's) \<Rightarrow> u64 \<Rightarrow> u64 \<Rightarrow> 's \<Rightarrow> crash + 's" where
  "run_page_loop body i hi s =
     (case page_loop body i hi s of
        None \<Rightarrow> Inl Diverges
      | Some (Inl r) \<Rightarrow> Inr r
      | Some (Inr r) \<Rightarrow> Inr r)"

lemma run_page_loop_fold:
  "unat hi + 4096 < 2 ^ 64 \<Longrightarrow>
     run_page_loop (\<lambda>i s. Inr (f i s)) i hi s = Inr (fold f (page_seq i hi) s)"
  by (simp add: run_page_loop_def page_loop_fold fold_exit_total)

section \<open>Counted rounds\<close>

text \<open>\<open>while (i++ < n) body\<close>, the body seeing the value of \<open>i\<close> the test saw.\<close>

function rounds_lt :: "nat \<Rightarrow> nat \<Rightarrow> (nat \<Rightarrow> 's \<Rightarrow> crash + 's) \<Rightarrow> 's \<Rightarrow> crash + 's" where
  "rounds_lt i n body s =
     (if i < n then bindC (body i s) (rounds_lt (Suc i) n body) else Inr s)"
  by pat_completeness auto
termination
  by (relation "measure (\<lambda>(i, n, body, s). n - i)") auto

declare rounds_lt.simps [simp del]

lemma rounds_lt_done [simp]: "n \<le> i \<Longrightarrow> rounds_lt i n body s = Inr s"
  by (simp add: rounds_lt.simps)

lemma rounds_lt_step:
  "i < n \<Longrightarrow> rounds_lt i n body s = bindC (body i s) (rounds_lt (Suc i) n body)"
  by (simp add: rounds_lt.simps)

lemma rounds_lt_fold:
  assumes "\<And>k s. i \<le> k \<Longrightarrow> k < n \<Longrightarrow> body k s = Inr (f k s)"
  shows "rounds_lt i n body s = Inr (fold f [i..<n] s)"
  using assms
proof (induction i n body s rule: rounds_lt.induct)
  case (1 i n body s)
  then show ?case
    by (cases "i < n") (simp_all add: rounds_lt_step upt_rec [of i n])
qed

section \<open>Hint collections\<close>

text \<open>
  \<open>kernel_defs\<close> collects the definitions of small accessors that proofs unfold together,
  \<open>frame\<close> the facts that an operation leaves a part of the state alone.
\<close>

named_theorems kernel_defs "definitions of accessors and constants"
named_theorems frame "parts of the state an operation leaves alone"

end
