(* ===== verification/Page_Tables.thy ===== *)
theory Page_Tables
  imports Kernel_Prelude
begin

text \<open>
  What the memory modules see of a process: its memory areas, the four-level page table
  they walk, and the page-table entries they read and write. The accessors of the page
  table (\<open>pgd_offset\<close>, \<open>pud_none\<close>, \<open>pte_present\<close> and so on) are inline functions of the
  kernel's architecture headers, which are not part of the repository: they are the fields
  of \<open>pt_api\<close>, a parameter of every definition that uses them.
\<close>

section \<open>Processes and memory areas\<close>

record vm_area_struct =
  vm_start :: u64
  vm_end :: u64

record mm_struct =
  mm_id :: nat                      \<comment> \<open>which address space: the key of \<open>pgd_offset\<close>\<close>
  mmap :: "vm_area_struct list"     \<comment> \<open>the chain \<open>mm->mmap\<close>, \<open>vma->vm_next\<close>, in order\<close>
  mm_count :: int
  start_code :: u64
  end_code :: u64
  start_data :: u64
  end_data :: u64
  start_stack :: u64

record task =
  t_pid :: int
  t_comm :: string
  t_state :: int
  t_on_cpu :: int
  t_parent_pid :: int
  t_min_flt :: int
  t_start_time :: int
  t_mm :: "mm_struct option"          \<comment> \<open>\<open>None\<close> is the null \<open>mm\<close> of a kernel thread\<close>

text \<open>\<open>pid_task (find_vpid pid, PIDTYPE_PID)\<close>: \<open>None\<close> where no such process exists.\<close>

type_synonym pid_lookup = "int \<Rightarrow> task option"

section \<open>Page tables\<close>

type_synonym pte_ptr = nat
type_synonym pte_mem = "pte_ptr \<Rightarrow> u64"   \<comment> \<open>the entries themselves, by address\<close>

record ('g, 'u, 'm) pt_api =
  pgd_offset :: "nat \<Rightarrow> u64 \<Rightarrow> 'g"
  pgd_none :: "'g \<Rightarrow> bool"
  pgd_bad :: "'g \<Rightarrow> bool"
  pud_offset :: "'g \<Rightarrow> u64 \<Rightarrow> 'u"
  pud_none :: "'u \<Rightarrow> bool"
  pud_bad :: "'u \<Rightarrow> bool"
  pmd_offset :: "'u \<Rightarrow> u64 \<Rightarrow> 'm"
  pmd_none :: "'m \<Rightarrow> bool"
  pmd_bad :: "'m \<Rightarrow> bool"
  pte_offset_map :: "'m \<Rightarrow> u64 \<Rightarrow> pte_ptr option"
  pte_offset_kernel :: "'m \<Rightarrow> u64 \<Rightarrow> pte_ptr option"
  pte_present :: "u64 \<Rightarrow> bool"
  pte_flags :: "u64 \<Rightarrow> u64"
  pte_set_flags :: "u64 \<Rightarrow> u64 \<Rightarrow> u64"
  pte_clear_flags :: "u64 \<Rightarrow> u64 \<Rightarrow> u64"
  PAGE_PRESENT :: u64
  PAGE_PROTNONE :: u64

text \<open>
  The upper three levels of the walk, as every module writes them: \<open>Inl n\<close> where the walk
  gives up at level \<open>n\<close> (1 for the page global directory), \<open>Inr\<close> the middle directory.
\<close>

definition walk_to_pmd :: "('g, 'u, 'm) pt_api \<Rightarrow> nat \<Rightarrow> u64 \<Rightarrow> nat + 'm" where
  "walk_to_pmd A mm addr =
     (let pgd = pgd_offset A mm addr in
      if pgd_none A pgd \<or> pgd_bad A pgd then Inl 1 else
      let pud = pud_offset A pgd addr in
      if pud_none A pud \<or> pud_bad A pud then Inl 2 else
      let pmd = pmd_offset A pud addr in
      if pmd_none A pmd \<or> pmd_bad A pmd then Inl 3 else Inr pmd)"

text \<open>The address of the entry for \<open>addr\<close>, if the walk reaches one.\<close>

definition pte_map_at :: "('g, 'u, 'm) pt_api \<Rightarrow> nat \<Rightarrow> u64 \<Rightarrow> pte_ptr option" where
  "pte_map_at A mm addr =
     (case walk_to_pmd A mm addr of Inl _ \<Rightarrow> None | Inr pmd \<Rightarrow> pte_offset_map A pmd addr)"

definition pte_kernel_at :: "('g, 'u, 'm) pt_api \<Rightarrow> nat \<Rightarrow> u64 \<Rightarrow> pte_ptr option" where
  "pte_kernel_at A mm addr =
     (case walk_to_pmd A mm addr of Inl _ \<Rightarrow> None | Inr pmd \<Rightarrow> pte_offset_kernel A pmd addr)"

text \<open>The address is backed by a present page.\<close>

definition resident :: "('g, 'u, 'm) pt_api \<Rightarrow> pte_mem \<Rightarrow> nat \<Rightarrow> u64 \<Rightarrow> bool" where
  "resident A M mm addr =
     (case pte_map_at A mm addr of None \<Rightarrow> False | Some p \<Rightarrow> pte_present A (M p))"

section \<open>What the flag operations of the headers do\<close>

text \<open>
  Documented behaviour of \<open>pte_set_flags\<close>, \<open>pte_clear_flags\<close>, \<open>pte_flags\<close> and the two
  flags: setting or clearing a flag changes that flag and no other, and a present entry is
  one with either flag (x86 counts a \<open>PROTNONE\<close> entry as present).
\<close>

definition pte_api_ok :: "('g, 'u, 'm) pt_api \<Rightarrow> bool" where
  "pte_api_ok A \<longleftrightarrow>
     PAGE_PRESENT A \<noteq> 0 \<and> PAGE_PROTNONE A \<noteq> 0 \<and> PAGE_PRESENT A AND PAGE_PROTNONE A = 0 \<and>
     (\<forall>e. \<forall>f \<in> {PAGE_PRESENT A, PAGE_PROTNONE A}.
        pte_flags A (pte_set_flags A e f) = pte_flags A e OR f \<and>
        pte_flags A (pte_clear_flags A e f) = pte_flags A e AND NOT f) \<and>
     (\<forall>e. pte_present A e \<longleftrightarrow> pte_flags A e AND (PAGE_PRESENT A OR PAGE_PROTNONE A) \<noteq> 0)"

text \<open>
  The instance the witnesses use: a walk that always succeeds and finds the entry of page
  \<open>addr div 4096\<close>, the flags of an entry being its low twelve bits.
\<close>

definition flat_api :: "(unit, unit, unit) pt_api" where
  "flat_api =
     \<lparr>pgd_offset = (\<lambda>_ _. ()), pgd_none = (\<lambda>_. False), pgd_bad = (\<lambda>_. False),
      pud_offset = (\<lambda>_ _. ()), pud_none = (\<lambda>_. False), pud_bad = (\<lambda>_. False),
      pmd_offset = (\<lambda>_ _. ()), pmd_none = (\<lambda>_. False), pmd_bad = (\<lambda>_. False),
      pte_offset_map = (\<lambda>_ a. Some (unat a div 4096)),
      pte_offset_kernel = (\<lambda>_ a. Some (unat a div 4096)),
      pte_present = (\<lambda>e. e AND 257 \<noteq> 0),
      pte_flags = (\<lambda>e. e AND 4095),
      pte_set_flags = (\<lambda>e f. e OR f AND 4095),
      pte_clear_flags = (\<lambda>e f. e AND NOT f),
      PAGE_PRESENT = 1, PAGE_PROTNONE = 256\<rparr>"

lemma flat_simps:
  "pte_kernel_at flat_api mm a = Some (unat a div 4096)" "pte_map_at flat_api mm a = Some (unat a div 4096)"
  "pte_flags flat_api e = e AND 4095" "pte_present flat_api e \<longleftrightarrow> e AND 257 \<noteq> 0"
  "PAGE_PRESENT flat_api = 1" "PAGE_PROTNONE flat_api = 256"
  by (simp_all add: pte_kernel_at_def pte_map_at_def walk_to_pmd_def flat_api_def)

end
