(* ===== verification/Rss_Modules.thy ===== *)
theory Rss_Modules
  imports Page_Tables
begin

text \<open>
  The resident-set modules \<^verbatim>\<open>rss.c\<close>, \<^verbatim>\<open>rss1.c\<close>, \<^verbatim>\<open>rss2.c\<close> (\<^verbatim>\<open>rss3.c\<close> is a copy of
  it), \<^verbatim>\<open>assi2.c\<close> and \<^verbatim>\<open>assi22.c\<close>: each walks the page table of one process over every
  page of every memory area and counts the pages, and those that are present. The counters
  are C \<open>int\<close>s. Between two rounds the process runs, so the page table a round sees is a
  parameter indexed by the round.
\<close>

record rss_state =
  virt_page_count :: s32
  phy_page_count :: s32
  rss_log :: "kmsg list"

abbreviation rss_init :: rss_state where
  "rss_init \<equiv> \<lparr>virt_page_count = 0, phy_page_count = 0, rss_log = []\<rparr>"

definition rss_printk :: "string \<Rightarrow> karg list \<Rightarrow> rss_state \<Rightarrow> rss_state" where
  "rss_printk fmt args st = st\<lparr>rss_log := rss_log st @ [Printk fmt args]\<rparr>"

section \<open>rss.c\<close>

text \<open>\<open>follow_pte\<close>: \<open>1\<close> present, \<open>-1\<close> mapped but not present, \<open>-2\<close> no entry.\<close>

definition rss_follow_pte :: "('g, 'u, 'm) pt_api \<Rightarrow> pte_mem \<Rightarrow> nat \<Rightarrow> u64 \<Rightarrow> int" where
  "rss_follow_pte A M mm addr =
     (let pgd = pgd_offset A mm addr in
      if pgd_none A pgd \<or> pgd_bad A pgd then -2 else
      let pud = pud_offset A pgd addr in
      if pud_none A pud \<or> pud_bad A pud then -2 else
      let pmd = pmd_offset A pud addr in
      if pmd_none A pmd \<or> pmd_bad A pmd then -2 else
      (case pte_offset_map A pmd addr of
         None \<Rightarrow> -2
       | Some pte \<Rightarrow> if pte_present A (M pte) then 1 else -1))"

definition rss_page_body :: "(u64 \<Rightarrow> int) \<Rightarrow> u64 \<Rightarrow> rss_state \<Rightarrow> rss_state" where
  "rss_page_body follow i st =
     (let st = (if follow i = 1 then st\<lparr>phy_page_count := phy_page_count st + 1\<rparr> else st)
      in st\<lparr>virt_page_count := virt_page_count st + 1\<rparr>)"

definition rss_page_walk ::
  "('g, 'u, 'm) pt_api \<Rightarrow> pte_mem \<Rightarrow> nat \<Rightarrow> u64 \<Rightarrow> u64 \<Rightarrow> rss_state \<Rightarrow> crash + rss_state"
where
  "rss_page_walk A M mm addr1 addr2 st =
     run_page_loop (\<lambda>i st. Inr (rss_page_body (rss_follow_pte A M mm) i st)) addr1 addr2 st"

fun rss_vmas ::
  "(u64 \<Rightarrow> u64 \<Rightarrow> rss_state \<Rightarrow> crash + rss_state) \<Rightarrow> vm_area_struct list \<Rightarrow> rss_state \<Rightarrow> crash + rss_state"
where
  "rss_vmas walk [] st = Inr st"
| "rss_vmas walk (vma # vmas) st =
     bindC (walk (vm_start vma) (vm_end vma) st) (rss_vmas walk vmas)"

definition rss_assi2 ::
  "('g, 'u, 'm) pt_api \<Rightarrow> pte_mem \<Rightarrow> task option \<Rightarrow> rss_state \<Rightarrow> crash + rss_state"
where
  "rss_assi2 A M ts st =
     (case ts of
        None \<Rightarrow> Inr st
      | Some t \<Rightarrow>
          (case t_mm t of
             None \<Rightarrow> Inl NullDeref
           | Some m \<Rightarrow>
               bindC (rss_vmas (rss_page_walk A M (mm_id m)) (mmap m) st) (\<lambda>st.
                 Inr (rss_printk ''RSS : %d'' [KInt (sint (phy_page_count st))]
                       (rss_printk ''Total no Virtual pages : %d'' [KInt (sint (virt_page_count st))] st)))))"

definition rss_start ::
  "('g, 'u, 'm) pt_api \<Rightarrow> (nat \<Rightarrow> pte_mem) \<Rightarrow> pid_lookup \<Rightarrow> int \<Rightarrow> rss_state \<Rightarrow> crash + rss_state"
where
  "rss_start A Ms lookup pid st =
     (case lookup pid of
        Some ts \<Rightarrow>
          if t_pid ts = pid
          then rounds_lt 0 (Suc 20) (\<lambda>i st. rss_assi2 A (Ms i) (Some ts) st)
                 (rss_printk ''process name: %s pid : %d parent pid :%d''
                    [KStr (t_comm ts), KInt (t_pid ts), KInt (t_parent_pid ts)] st)
          else Inr (rss_printk ''ERROR unable to find process'' [] st)
      | None \<Rightarrow> Inr (rss_printk ''ERROR unable to find process'' [] st))"

section \<open>rss2.c: the counters are reset in every round\<close>

definition rss2_start ::
  "('g, 'u, 'm) pt_api \<Rightarrow> (nat \<Rightarrow> pte_mem) \<Rightarrow> pid_lookup \<Rightarrow> int \<Rightarrow> rss_state \<Rightarrow> crash + rss_state"
where
  "rss2_start A Ms lookup pid st =
     (case lookup pid of
        Some ts \<Rightarrow>
          if t_pid ts = pid
          then rounds_lt 0 (Suc 20)
                 (\<lambda>i st. rss_assi2 A (Ms i) (Some ts) (st\<lparr>phy_page_count := 0, virt_page_count := 0\<rparr>))
                 (rss_printk ''process name: %s pid : %d parent pid :%d''
                    [KStr (t_comm ts), KInt (t_pid ts), KInt (t_parent_pid ts)] st)
          else Inr (rss_printk ''ERROR unable to find process'' [] st)
      | None \<Rightarrow> Inr (rss_printk ''ERROR unable to find process'' [] st))"

section \<open>assi2.c: every page is reported as well\<close>

definition assi2_page_body :: "(u64 \<Rightarrow> int) \<Rightarrow> u64 \<Rightarrow> rss_state \<Rightarrow> rss_state" where
  "assi2_page_body follow i st =
     (let st = (if follow i = 1
                then (rss_printk ''ADDRESS : 0x%lx PAGE Exist'' [KAddr i] st)
                       \<lparr>phy_page_count := phy_page_count st + 1\<rparr>
                else if follow i = -1
                then rss_printk ''ADDRESS : 0x%lx Page DOES NOT Exist'' [KAddr i] st
                else if follow i = -2
                then rss_printk ''ERROR problem in translation'' [] st
                else st)
      in st\<lparr>virt_page_count := virt_page_count st + 1\<rparr>)"

definition assi2_page_walk ::
  "('g, 'u, 'm) pt_api \<Rightarrow> pte_mem \<Rightarrow> nat \<Rightarrow> u64 \<Rightarrow> u64 \<Rightarrow> rss_state \<Rightarrow> crash + rss_state"
where
  "assi2_page_walk A M mm addr1 addr2 st =
     run_page_loop (\<lambda>i st. Inr (assi2_page_body (rss_follow_pte A M mm) i st)) addr1 addr2 st"

definition assi2_rss_assi2 ::
  "('g, 'u, 'm) pt_api \<Rightarrow> pte_mem \<Rightarrow> task option \<Rightarrow> rss_state \<Rightarrow> crash + rss_state"
where
  "assi2_rss_assi2 A M ts st =
     (case ts of
        None \<Rightarrow> Inr st
      | Some t \<Rightarrow>
          (case t_mm t of
             None \<Rightarrow> Inl NullDeref
           | Some m \<Rightarrow>
               bindC (rss_vmas (assi2_page_walk A M (mm_id m)) (mmap m) st) (\<lambda>st.
                 Inr (rss_printk ''Total no Physical pages and RSS : %d'' [KInt (sint (phy_page_count st))]
                       (rss_printk ''Total no Virtual pages : %d'' [KInt (sint (virt_page_count st))] st)))))"

text \<open>\<open>i\<close> starts at 1 here: twenty rounds, and the counters run on from one to the next.\<close>

definition assi2_start ::
  "('g, 'u, 'm) pt_api \<Rightarrow> (nat \<Rightarrow> pte_mem) \<Rightarrow> pid_lookup \<Rightarrow> int \<Rightarrow> rss_state \<Rightarrow> crash + rss_state"
where
  "assi2_start A Ms lookup pid st =
     (case lookup pid of
        Some ts \<Rightarrow>
          if t_pid ts = pid
          then rounds_lt 1 (Suc 20) (\<lambda>i st. assi2_rss_assi2 A (Ms i) (Some ts) st)
                 (rss_printk ''process name: %s pid : %d parent pid :%d''
                    [KStr (t_comm ts), KInt (t_pid ts), KInt (t_parent_pid ts)] st)
          else Inr (rss_printk ''ERROR unable to find process'' [] st)
      | None \<Rightarrow> Inr (rss_printk ''ERROR unable to find process'' [] st))"

section \<open>assi22.c: 51 rounds, reset after each\<close>

definition assi22_rss_assi2 ::
  "('g, 'u, 'm) pt_api \<Rightarrow> pte_mem \<Rightarrow> task option \<Rightarrow> rss_state \<Rightarrow> crash + rss_state"
where
  "assi22_rss_assi2 A M ts st =
     (case ts of
        None \<Rightarrow> Inr st
      | Some t \<Rightarrow>
          (case t_mm t of
             None \<Rightarrow> Inl NullDeref
           | Some m \<Rightarrow>
               bindC (rss_vmas (rss_page_walk A M (mm_id m)) (mmap m) st) (\<lambda>st.
                 Inr (rss_printk ''Total no Phy pages and RSS ==>: %d '' [KInt (sint (phy_page_count st))]
                       (rss_printk ''Total no Virtual pages --> %d'' [KInt (sint (virt_page_count st))] st)))))"

definition assi22_start ::
  "('g, 'u, 'm) pt_api \<Rightarrow> (nat \<Rightarrow> pte_mem) \<Rightarrow> pid_lookup \<Rightarrow> int \<Rightarrow> rss_state \<Rightarrow> crash + rss_state"
where
  "assi22_start A Ms lookup pid st =
     (case lookup pid of
        Some ts \<Rightarrow>
          if t_pid ts = pid
          then rounds_lt 0 (Suc 50)
                 (\<lambda>i st. bindC
                    (assi22_rss_assi2 A (Ms i) (Some ts)
                       (rss_printk ''process name: %s pid : %d parent pid :%d''
                          [KStr (t_comm ts), KInt (t_pid ts), KInt (t_parent_pid ts)] st))
                    (\<lambda>st. Inr (st\<lparr>virt_page_count := 0, phy_page_count := 0\<rparr>)))
                 st
          else Inr (rss_printk ''ERROR unable to find process'' [] st)
      | None \<Rightarrow> Inr (rss_printk ''ERROR unable to find process'' [] st))"

section \<open>What a walk computes\<close>

text \<open>The pages the walks visit, area by area: each area's end included.\<close>

definition mm_pages :: "mm_struct \<Rightarrow> u64 list" where
  "mm_pages m = concat (map (\<lambda>v. page_seq (vm_start v) (vm_end v)) (mmap m))"

text \<open>Areas whose end leaves one page below the top of the address space, as all user areas do.\<close>

definition areas_ok :: "mm_struct \<Rightarrow> bool" where
  "areas_ok m \<longleftrightarrow> (\<forall>v \<in> set (mmap m). unat (vm_end v) + 4096 < 2 ^ 64)"

text \<open>What \<open>rss_assi2\<close> needs of a \<open>follow_pte\<close>, and of a \<open>page_walk\<close> built on it.\<close>

locale pte_probe =
  fixes follow :: "u64 \<Rightarrow> int"
  assumes follow_code: "follow a = 1 \<or> follow a = -1 \<or> follow a = -2"

locale page_counter = pte_probe follow for follow +
  fixes walk :: "u64 \<Rightarrow> u64 \<Rightarrow> rss_state \<Rightarrow> crash + rss_state"
    and body :: "u64 \<Rightarrow> rss_state \<Rightarrow> rss_state"
  assumes walk_fold: "unat hi + 4096 < 2 ^ 64 \<Longrightarrow> walk lo hi st = Inr (fold body (page_seq lo hi) st)"
    and body_virt: "virt_page_count (body a st) = virt_page_count st + 1"
    and body_phy: "phy_page_count (body a st) = phy_page_count st + (if follow a = 1 then 1 else 0)"
begin

lemma fold_virt: "virt_page_count (fold body xs st) = virt_page_count st + of_nat (length xs)"
  by (induction xs arbitrary: st) (simp_all add: body_virt)

lemma fold_phy:
  "phy_page_count (fold body xs st)
     = phy_page_count st + of_nat (length (filter (\<lambda>a. follow a = 1) xs))"
  by (induction xs arbitrary: st) (simp_all add: body_phy)

lemma vmas_fold:
  assumes "\<forall>v \<in> set vmas. unat (vm_end v) + 4096 < 2 ^ 64"
  shows "rss_vmas walk vmas st
           = Inr (fold body (concat (map (\<lambda>v. page_seq (vm_start v) (vm_end v)) vmas)) st)"
  using assms by (induction vmas arbitrary: st) (simp_all add: walk_fold)

lemma mm_walk:
  "areas_ok m \<Longrightarrow> rss_vmas walk (mmap m) st = Inr (fold body (mm_pages m) st)"
  by (simp add: areas_ok_def mm_pages_def vmas_fold)

end

lemma rss_follow_pte_eq:
  "rss_follow_pte A M mm addr =
     (case pte_map_at A mm addr of None \<Rightarrow> -2 | Some p \<Rightarrow> if pte_present A (M p) then 1 else -1)"
  by (simp add: rss_follow_pte_def pte_map_at_def walk_to_pmd_def Let_def)

lemma rss_follow_pte_resident: "rss_follow_pte A M mm addr = 1 \<longleftrightarrow> resident A M mm addr"
  by (simp add: rss_follow_pte_eq resident_def split: option.split)

interpretation rss: page_counter "rss_follow_pte A M mm" "rss_page_walk A M mm"
    "rss_page_body (rss_follow_pte A M mm)" for A M mm
proof unfold_locales
  fix a show "rss_follow_pte A M mm a = 1 \<or> rss_follow_pte A M mm a = -1 \<or> rss_follow_pte A M mm a = -2"
    by (simp add: rss_follow_pte_eq split: option.split)
qed (simp add: rss_page_walk_def run_page_loop_fold, simp_all add: rss_page_body_def Let_def)

interpretation assi2: page_counter "rss_follow_pte A M mm" "assi2_page_walk A M mm"
    "assi2_page_body (rss_follow_pte A M mm)" for A M mm
  by (unfold_locales, simp add: assi2_page_walk_def run_page_loop_fold,
      simp_all add: assi2_page_body_def rss_printk_def Let_def)

lemma rss_body_log [frame]: "rss_log (fold (rss_page_body follow) xs st) = rss_log st"
  by (induction xs arbitrary: st) (simp_all add: rss_page_body_def Let_def)

lemma rss_printk_counts [simp]:
  "virt_page_count (rss_printk fmt args st) = virt_page_count st"
  "phy_page_count (rss_printk fmt args st) = phy_page_count st"
  "rss_log (rss_printk fmt args st) = rss_log st @ [Printk fmt args]"
  by (simp_all add: rss_printk_def)

definition resident_pages :: "('g, 'u, 'm) pt_api \<Rightarrow> pte_mem \<Rightarrow> mm_struct \<Rightarrow> nat" where
  "resident_pages A M m = length (filter (resident A M (mm_id m)) (mm_pages m))"

lemma resident_pages_filter:
  "length (filter (\<lambda>a. rss_follow_pte A M (mm_id m) a = 1) (mm_pages m)) = resident_pages A M m"
  by (simp add: resident_pages_def rss_follow_pte_resident)

text \<open>One call of \<open>rss_assi2\<close>: the counters grow by the pages and by the resident pages.\<close>

lemma rss_assi2_result:
  assumes "t_mm t = Some m" "areas_ok m"
  shows "rss_assi2 A M (Some t) st =
    (let v = virt_page_count st + of_nat (length (mm_pages m));
         p = phy_page_count st + of_nat (resident_pages A M m)
     in Inr \<lparr>virt_page_count = v, phy_page_count = p,
             rss_log = rss_log st @ [Printk ''Total no Virtual pages : %d'' [KInt (sint v)],
                                     Printk ''RSS : %d'' [KInt (sint p)]]\<rparr>)"
  using assms
  by (auto simp: rss_assi2_def rss.mm_walk rss.fold_virt rss.fold_phy resident_pages_filter
      rss_body_log Let_def intro!: rss_state.equality)

section \<open>What the modules report\<close>

lemma areas_page_count:
  fixes s e :: u64
  assumes "s \<le> e"
  shows "page_count s e = (unat e - unat s) div 4096 + 1"
  using assms by (simp add: page_count_def)

text \<open>C39 A walk over one memory area [start, end) returns and counts (end - start) / 4096 + 1
  virtual pages: one more than the area holds, because the loop of page_walk runs while
  i <= end although an area's end is exclusive. The resident count grows by the resident
  pages among the same addresses.\<close>

theorem rss_page_walk_counts:
  assumes "s \<le> e" "unat e + 4096 < 2 ^ 64"
  shows "\<exists>st'. rss_page_walk A M mm s e st = Inr st' \<and>
    virt_page_count st' = virt_page_count st + of_nat ((unat e - unat s) div 4096 + 1) \<and>
    phy_page_count st' = phy_page_count st
      + of_nat (length (filter (resident A M mm) (page_seq s e)))"
proof -
  have "rss_page_walk A M mm s e st
      = Inr (fold (rss_page_body (rss_follow_pte A M mm)) (page_seq s e) st)"
    by (rule rss.walk_fold [OF assms(2)])
  moreover have "length (page_seq s e) = (unat e - unat s) div 4096 + 1"
    by (simp add: areas_page_count [OF assms(1)])
  ultimately show ?thesis
    by (auto simp: rss.fold_virt rss.fold_phy rss_follow_pte_resident)
qed

theorem rss_page_walk_counts_witness:
  "\<exists>st'. rss_page_walk flat_api (\<lambda>p. of_nat (p mod 2)) 7 0x400000 0x403000 rss_init = Inr st' \<and>
    virt_page_count st' = 4 \<and> phy_page_count st' = 2"
proof -
  have pages: "page_seq (0x400000 :: u64) 0x403000 = [0x400000, 0x401000, 0x402000, 0x403000]"
    by (simp add: page_seq_def page_count_def upt_rec)
  show ?thesis
    using rss_page_walk_counts [of "0x400000" "0x403000" flat_api "\<lambda>p. of_nat (p mod 2)" 7 rss_init]
    by (simp add: pages resident_def pte_map_at_def walk_to_pmd_def flat_api_def)
qed

text \<open>The messages of one call of \<open>rss_assi2\<close>, from the counters it ends with.\<close>

definition rss_messages :: "s32 \<Rightarrow> s32 \<Rightarrow> kmsg list" where
  "rss_messages v p = [Printk ''Total no Virtual pages : %d'' [KInt (sint v)],
                       Printk ''RSS : %d'' [KInt (sint p)]]"

definition rss_banner :: "task \<Rightarrow> kmsg" where
  "rss_banner t = Printk ''process name: %s pid : %d parent pid :%d''
     [KStr (t_comm t), KInt (t_pid t), KInt (t_parent_pid t)]"

lemma fold_log_append:
  assumes "\<And>k st. rss_log (f k st) = rss_log st @ g k"
  shows "rss_log (fold f ks st) = rss_log st @ concat (map g ks)"
  by (induction ks arbitrary: st) (simp_all add: assms)

text \<open>rss2.c resets both counters in every round, so its 21 rounds report, round by round,
  exactly the pages walked and the pages resident in the page table of that round (as C ints).\<close>

theorem rss2_start_reports:
  assumes "lookup pid = Some t" "t_pid t = pid" "t_mm t = Some m" "areas_ok m"
  shows "\<exists>st'. rss2_start A Ms lookup pid st = Inr st' \<and>
    rss_log st' = rss_log st @ rss_banner t #
      concat (map (\<lambda>i. rss_messages (of_nat (length (mm_pages m))) (of_nat (resident_pages A (Ms i) m)))
        [0..<21])"
proof -
  let ?body = "\<lambda>i st. rss_assi2 A (Ms i) (Some t) (st\<lparr>phy_page_count := 0, virt_page_count := 0\<rparr>)"
  let ?msgs = "\<lambda>i. rss_messages (of_nat (length (mm_pages m))) (of_nat (resident_pages A (Ms i) m))"
  let ?f = "\<lambda>i st. case ?body i st of Inl _ \<Rightarrow> st | Inr st' \<Rightarrow> st'"
  let ?st = "rss_printk ''process name: %s pid : %d parent pid :%d''
                [KStr (t_comm t), KInt (t_pid t), KInt (t_parent_pid t)] st"
  have step: "?body i st = Inr (?f i st)" and log: "rss_log (?f i st) = rss_log st @ ?msgs i" for i st
    by (simp_all add: rss_assi2_result [OF assms(3,4)] rss_messages_def Let_def)
  have "rss2_start A Ms lookup pid st = Inr (fold ?f [0..<21] ?st)"
    using assms(1,2) rounds_lt_fold [of 0 "Suc 20" ?body ?f ?st] step
    by (simp add: rss2_start_def)
  then show ?thesis
    by (simp add: fold_log_append [where f = ?f and g = ?msgs, OF log] rss_banner_def)
qed

text \<open>The process of the witnesses: one area of two pages.\<close>

definition demo_mm :: mm_struct where
  "demo_mm = \<lparr>mm_id = 1, mmap = [\<lparr>vm_start = 0x400000, vm_end = 0x401000\<rparr>], mm_count = 1,
     start_code = 0, end_code = 0, start_data = 0, end_data = 0, start_stack = 0\<rparr>"

definition demo_task :: task where
  "demo_task = \<lparr>t_pid = 42, t_comm = ''sh'', t_state = 0, t_on_cpu = 0, t_parent_pid = 1,
     t_min_flt = 0, t_start_time = 0, t_mm = Some demo_mm\<rparr>"

lemma demo_areas: "t_mm demo_task = Some demo_mm" "t_pid demo_task = 42" "areas_ok demo_mm"
  by (simp_all add: demo_task_def demo_mm_def areas_ok_def)

lemma demo_pages: "mm_pages demo_mm = [0x400000, 0x401000]"
  by (simp add: mm_pages_def demo_mm_def page_seq_def page_count_def upt_rec)

text \<open>The page table of round \<open>i\<close> of the witnesses: everything present from round 1 on.\<close>

definition demo_tables :: "nat \<Rightarrow> pte_mem" where
  "demo_tables i = (\<lambda>p. if i = 0 then 0 else 1)"

lemma demo_resident:
  "resident_pages flat_api (demo_tables i) demo_mm = (if i = 0 then 0 else 2)"
  by (simp add: resident_pages_def demo_pages resident_def pte_map_at_def walk_to_pmd_def
      flat_api_def demo_tables_def)

theorem rss2_start_reports_witness:
  "\<exists>st'. rss2_start flat_api demo_tables (\<lambda>p. if p = 42 then Some demo_task else None) 42 rss_init = Inr st' \<and>
    rss_log st' = rss_banner demo_task # rss_messages 2 0 @ concat (replicate 20 (rss_messages 2 2))"
  using rss2_start_reports [of "\<lambda>p. if p = 42 then Some demo_task else None" 42 demo_task demo_mm
      flat_api demo_tables rss_init]
  by (simp add: demo_areas demo_pages demo_resident upt_rec numeral_nat)

text \<open>rss.c never resets its counters, so what it prints as the resident set of round i is
  the sum over the rounds 0..i of the resident pages, and the virtual total is i + 1 times the pages.\<close>

theorem rss_start_accumulates:
  assumes "lookup pid = Some t" "t_pid t = pid" "t_mm t = Some m" "areas_ok m"
  shows "\<exists>st'. rss_start A Ms lookup pid rss_init = Inr st' \<and>
    rss_log st' = rss_banner t #
      concat (map (\<lambda>i. rss_messages (of_nat ((i + 1) * length (mm_pages m)))
                         (of_nat (\<Sum>k\<le>i. resident_pages A (Ms k) m)))
        [0..<21])"
proof -
  let ?body = "\<lambda>i st. rss_assi2 A (Ms i) (Some t) st"
  let ?f = "\<lambda>i st. case ?body i st of Inl _ \<Rightarrow> st | Inr st' \<Rightarrow> st'"
  let ?st = "rss_printk ''process name: %s pid : %d parent pid :%d''
                [KStr (t_comm t), KInt (t_pid t), KInt (t_parent_pid t)] rss_init"
  let ?msgs = "\<lambda>i. rss_messages (of_nat ((i + 1) * length (mm_pages m)))
                         (of_nat (\<Sum>k\<le>i. resident_pages A (Ms k) m))"
  note body = rss_assi2_result [OF assms(3,4), unfolded Let_def]
  have step: "?body i st = Inr (?f i st)" for i st
    by (simp add: body)
  have "virt_page_count (fold ?f [0..<n] ?st) = of_nat (n * length (mm_pages m)) \<and>
      phy_page_count (fold ?f [0..<n] ?st) = of_nat (\<Sum>k<n. resident_pages A (Ms k) m) \<and>
      rss_log (fold ?f [0..<n] ?st) = rss_banner t # concat (map ?msgs [0..<n])" for n
  proof (induction n)
    case 0
    show ?case by (simp add: rss_banner_def)
  next
    case (Suc n)
    then show ?case
      by (simp add: body rss_messages_def lessThan_Suc_atMost [symmetric] algebra_simps)
  qed
  from this [of 21] show ?thesis
    using assms(1,2) rounds_lt_fold [of 0 "Suc 20" ?body ?f ?st] step
    by (simp add: rss_start_def)
qed

theorem rss_start_accumulates_witness:
  "\<exists>st'. rss_start flat_api demo_tables (\<lambda>p. if p = 42 then Some demo_task else None) 42 rss_init = Inr st' \<and>
    rss_log st' ! 6 = Printk ''RSS : %d'' [KInt 4] \<and> resident_pages flat_api (demo_tables 2) demo_mm = 2"
  using rss_start_accumulates [of "\<lambda>p. if p = 42 then Some demo_task else None" 42 demo_task demo_mm
      flat_api demo_tables]
  by (auto simp: demo_areas demo_pages demo_resident upt_rec numeral_nat rss_messages_def)

text \<open>Loaded for a kernel thread (a process without an address space) every resident-set
  module dereferences a null pointer: only the task, not its mm, is checked.\<close>

theorem rss_modules_crash_on_kernel_thread:
  assumes "lookup pid = Some t" "t_pid t = pid" "t_mm t = None"
  shows "rss_start A Ms lookup pid st = Inl NullDeref \<and>
    rss2_start A Ms lookup pid st = Inl NullDeref \<and>
    assi2_start A Ms lookup pid st = Inl NullDeref \<and>
    assi22_start A Ms lookup pid st = Inl NullDeref"
  using assms
  by (simp_all add: rss_start_def rss2_start_def assi2_start_def assi22_start_def rounds_lt_step
      rss_assi2_def assi2_rss_assi2_def assi22_rss_assi2_def)

theorem rss_modules_crash_on_kernel_thread_witness:
  "rss_start flat_api demo_tables (\<lambda>p. Some (demo_task\<lparr>t_pid := 2, t_mm := None\<rparr>)) 2 rss_init
     = Inl NullDeref"
  using rss_modules_crash_on_kernel_thread [of "\<lambda>p. Some (demo_task\<lparr>t_pid := 2, t_mm := None\<rparr>)" 2
      "demo_task\<lparr>t_pid := 2, t_mm := None\<rparr>" flat_api demo_tables rss_init]
  by simp

end
