(* ===== verification/Wss_Modules.thy ===== *)
theory Wss_Modules
  imports Rss_Modules
begin

text \<open>
  The working-set modules. They hide the present pages of a process (set \<open>PROTNONE\<close>, clear
  \<open>PRESENT\<close>) and count, in a hook called by the page-fault handler, the faults that follow:
  \<^verbatim>\<open>wss3.c\<close>, \<^verbatim>\<open>wss4.c\<close>, \<^verbatim>\<open>wss5.c\<close>, \<^verbatim>\<open>workingwss.c\<close>, \<^verbatim>\<open>wssdemo3.c\<close>, \<^verbatim>\<open>wssdemo.c\<close>, and the
  first attempts \<^verbatim>\<open>wss.c\<close> (\<^verbatim>\<open>wss1.c\<close> is a copy of it) and \<^verbatim>\<open>wss2.c\<close>, which hand the address of an
  entry back through a parameter passed by value.
\<close>

record wss_state =
  wss :: s32
  ws_mem :: pte_mem
  ws_hook :: bool             \<comment> \<open>\<open>page_fault_check\<close> is installed\<close>
  ws_log :: "kmsg list"

definition wss_printk :: "string \<Rightarrow> karg list \<Rightarrow> wss_state \<Rightarrow> wss_state" where
  "wss_printk fmt args st = st\<lparr>ws_log := ws_log st @ [Printk fmt args]\<rparr>"

definition set_pte :: "pte_ptr \<Rightarrow> u64 \<Rightarrow> wss_state \<Rightarrow> wss_state" where
  "set_pte p e st = st\<lparr>ws_mem := (ws_mem st)(p := e)\<rparr>"

section \<open>wss3.c, wss4.c, wss5.c, workingwss.c and wssdemo3.c\<close>

text \<open>The fault hook; \<open>pid\<close> is the module's parameter.\<close>

definition page_check ::
  "('g, 'u, 'm) pt_api \<Rightarrow> int \<Rightarrow> task option \<Rightarrow> u64 \<Rightarrow> wss_state \<Rightarrow> crash + wss_state"
where
  "page_check A pid ts addr st =
     (case ts of
        None \<Rightarrow> Inr st
      | Some t \<Rightarrow>
          if t_pid t = pid then
            (case t_mm t of
               None \<Rightarrow> Inl NullDeref
             | Some m \<Rightarrow>
                 (case pte_kernel_at A (mm_id m) addr of
                    None \<Rightarrow> Inr st
                  | Some pte \<Rightarrow>
                      if pte_flags A (ws_mem st pte) \<noteq> 0 then
                        let st = st\<lparr>wss := wss st + 1\<rparr>;
                            st = set_pte pte (pte_set_flags A (ws_mem st pte) (PAGE_PRESENT A)) st
                        in Inr (set_pte pte (pte_clear_flags A (ws_mem st pte) (PAGE_PROTNONE A)) st)
                      else Inr st))
          else Inr st)"

text \<open>What the marking does to an entry it finds present.\<close>

definition hide_pte :: "('g, 'u, 'm) pt_api \<Rightarrow> pte_ptr \<Rightarrow> wss_state \<Rightarrow> wss_state" where
  "hide_pte A pte st =
     (let st = set_pte pte (pte_set_flags A (ws_mem st pte) (PAGE_PROTNONE A)) st
      in set_pte pte (pte_clear_flags A (ws_mem st pte) (PAGE_PRESENT A)) st)"

text \<open>
  The body of the loop over the pages: \<open>Inl (- 2, _)\<close> is the early \<open>return - 2\<close> out of
  \<open>wss_marking\<close>, from both loops.
\<close>

definition marking_page ::
  "(pte_ptr \<Rightarrow> wss_state \<Rightarrow> wss_state) \<Rightarrow> ('g, 'u, 'm) pt_api \<Rightarrow> nat \<Rightarrow> u64 \<Rightarrow> wss_state \<Rightarrow>
     (int \<times> wss_state) + wss_state"
where
  "marking_page hide A mm page_addr st =
     (case pte_kernel_at A mm page_addr of
        None \<Rightarrow> Inl (- 2, st)
      | Some pte \<Rightarrow> Inr (if pte_present A (ws_mem st pte) then hide pte st else st))"

fun marking_vmas ::
  "(u64 \<Rightarrow> 's \<Rightarrow> (int \<times> 's) + 's) \<Rightarrow> vm_area_struct list \<Rightarrow> 's \<Rightarrow> crash + int \<times> 's"
where
  "marking_vmas body [] st = Inr (0, st)"
| "marking_vmas body (vma # vmas) st =
     (case page_loop body (vm_start vma) (vm_end vma) st of
        None \<Rightarrow> Inl Diverges
      | Some (Inl r) \<Rightarrow> Inr r
      | Some (Inr st) \<Rightarrow> marking_vmas body vmas st)"

definition marking ::
  "(nat \<Rightarrow> u64 \<Rightarrow> wss_state \<Rightarrow> (int \<times> wss_state) + wss_state) \<Rightarrow> task option \<Rightarrow> wss_state \<Rightarrow>
     crash + int \<times> wss_state"
where
  "marking body ts st =
     (case ts of
        None \<Rightarrow> Inr (0, st)
      | Some t \<Rightarrow> (case t_mm t of None \<Rightarrow> Inl NullDeref | Some m \<Rightarrow> marking_vmas (body (mm_id m)) (mmap m) st))"

definition wss_marking ::
  "('g, 'u, 'm) pt_api \<Rightarrow> task option \<Rightarrow> wss_state \<Rightarrow> crash + int \<times> wss_state"
where
  "wss_marking A ts st = marking (marking_page (hide_pte A) A) ts st"

text \<open>
  \<open>start\<close>: \<open>window i\<close> is what the rest of the system does while round \<open>i\<close> sleeps;
  \<open>reset\<close> is the assignment \<open>wss=0\<close> that only \<^verbatim>\<open>wssdemo3.c\<close> has.
\<close>

definition wss_round ::
  "(task option \<Rightarrow> wss_state \<Rightarrow> crash + int \<times> wss_state) \<Rightarrow> bool \<Rightarrow> task \<Rightarrow>
     (nat \<Rightarrow> wss_state \<Rightarrow> crash + wss_state) \<Rightarrow> nat \<Rightarrow> wss_state \<Rightarrow> crash + wss_state"
where
  "wss_round mark reset ts window i st =
     bindC (mark (Some ts) (if reset then st\<lparr>wss := 0\<rparr> else st)) (\<lambda>(_, st).
       window i (wss_printk ''second %d WSS:%d'' [KInt (int i + 1), KInt (sint (wss st))] st))"

definition wss_start ::
  "nat \<Rightarrow> bool \<Rightarrow> (task option \<Rightarrow> wss_state \<Rightarrow> crash + int \<times> wss_state) \<Rightarrow> pid_lookup \<Rightarrow> int \<Rightarrow>
     (nat \<Rightarrow> wss_state \<Rightarrow> crash + wss_state) \<Rightarrow> wss_state \<Rightarrow> crash + wss_state"
where
  "wss_start n reset mark lookup pid window st =
     (let st = st\<lparr>ws_hook := True\<rparr> in
      case lookup pid of
        Some ts \<Rightarrow>
          if t_pid ts = pid
          then rounds_lt 0 n (wss_round mark reset ts window)
                 (wss_printk ''process name: %s pid : %d parent pid :%d''
                    [KStr (t_comm ts), KInt (t_pid ts), KInt (t_parent_pid ts)] st)
          else Inr (wss_printk ''ERROR unable to find process'' [] st)
      | None \<Rightarrow> Inr (wss_printk ''ERROR unable to find process'' [] st))"

type_synonym wss_start_fun =
  "pid_lookup \<Rightarrow> int \<Rightarrow> (nat \<Rightarrow> wss_state \<Rightarrow> crash + wss_state) \<Rightarrow> wss_state \<Rightarrow> crash + wss_state"

definition wss3_start :: "('g, 'u, 'm) pt_api \<Rightarrow> wss_start_fun" where
  "wss3_start A = wss_start 40 False (wss_marking A)"

definition wss4_start :: "('g, 'u, 'm) pt_api \<Rightarrow> wss_start_fun" where
  "wss4_start A = wss_start 10 False (wss_marking A)"

definition wss5_start :: "('g, 'u, 'm) pt_api \<Rightarrow> wss_start_fun" where
  "wss5_start A = wss_start 30 False (wss_marking A)"

definition wssdemo3_start :: "('g, 'u, 'm) pt_api \<Rightarrow> wss_start_fun" where
  "wssdemo3_start A = wss_start 10 True (wss_marking A)"

definition wss_cleanup :: "wss_state \<Rightarrow> wss_state" where
  "wss_cleanup st = wss_printk ''lkm removed'' [] (st\<lparr>ws_hook := False\<rparr>)"

section \<open>wssdemo.c\<close>

definition demo_page_check ::
  "('g, 'u, 'm) pt_api \<Rightarrow> int \<Rightarrow> task option \<Rightarrow> u64 \<Rightarrow> wss_state \<Rightarrow> crash + wss_state"
where
  "demo_page_check A pid ts addr st =
     (case ts of
        None \<Rightarrow> Inr st
      | Some t \<Rightarrow>
          if t_pid t = pid then
            (case t_mm t of
               None \<Rightarrow> Inl NullDeref
             | Some m \<Rightarrow>
                 (case pte_kernel_at A (mm_id m) addr of
                    None \<Rightarrow> Inr st
                  | Some pte \<Rightarrow>
                      if pte_present A (ws_mem st pte) \<and> pte_flags A (ws_mem st pte) AND PAGE_PROTNONE A \<noteq> 0 then
                        let st = wss_printk ''inside long if condition'' [] st;
                            st = st\<lparr>wss := wss st + 1\<rparr>;
                            st = set_pte pte (pte_clear_flags A (ws_mem st pte) (PAGE_PRESENT A)) st
                        in Inr (set_pte pte (pte_set_flags A (ws_mem st pte) (PAGE_PROTNONE A)) st)
                      else Inr st))
          else Inr st)"

definition demo_hide_pte :: "('g, 'u, 'm) pt_api \<Rightarrow> pte_ptr \<Rightarrow> wss_state \<Rightarrow> wss_state" where
  "demo_hide_pte A pte st =
     (let st = set_pte pte (pte_clear_flags A (ws_mem st pte) (PAGE_PRESENT A)) st
      in set_pte pte (pte_set_flags A (ws_mem st pte) (PAGE_PROTNONE A)) st)"

definition demo_marking ::
  "('g, 'u, 'm) pt_api \<Rightarrow> task option \<Rightarrow> wss_state \<Rightarrow> crash + int \<times> wss_state"
where
  "demo_marking A ts st = marking (marking_page (demo_hide_pte A) A) ts st"

definition wssdemo_start :: "('g, 'u, 'm) pt_api \<Rightarrow> wss_start_fun" where
  "wssdemo_start A = wss_start 60 False (demo_marking A)"

section \<open>wss.c and wss2.c\<close>

text \<open>
  \<open>follow_pte\<close> assigns the entry's address to its own parameter, so the caller's
  \<open>page_entry\<close> stays the null pointer it was initialised with, and the result alone comes back.
\<close>

definition wss_follow_pte :: "('g, 'u, 'm) pt_api \<Rightarrow> pte_mem \<Rightarrow> nat \<Rightarrow> u64 \<Rightarrow> int" where
  "wss_follow_pte A M mm addr =
     (case pte_kernel_at A mm addr of None \<Rightarrow> -2 | Some pte \<Rightarrow> if pte_present A (M pte) then 1 else -1)"

definition wss_page_check ::
  "('g, 'u, 'm) pt_api \<Rightarrow> int \<Rightarrow> task option \<Rightarrow> u64 \<Rightarrow> int \<Rightarrow> wss_state \<Rightarrow> crash + wss_state"
where
  "wss_page_check A pid ts address pidd st =
     (let page_entry = (None :: pte_ptr option) in
      if pid = pidd then
        (case ts of
           None \<Rightarrow> Inl NullDeref
         | Some t \<Rightarrow>
             (case t_mm t of
                None \<Rightarrow> Inl NullDeref
              | Some m \<Rightarrow>
                  if wss_follow_pte A (ws_mem st) (mm_id m) address = 1 then
                    (case page_entry of
                       None \<Rightarrow> Inl NullDeref
                     | Some e \<Rightarrow>
                         if pte_flags A (ws_mem st e) AND PAGE_PRESENT A \<noteq> 0 \<and>
                            pte_flags A (ws_mem st e) AND PAGE_PROTNONE A = 0
                         then Inr (hide_pte A e (wss_printk ''inside hook'' [] (st\<lparr>wss := wss st + 1\<rparr>)))
                         else Inr st)
                  else Inr st))
      else Inr st)"

definition wss_mark_page ::
  "('g, 'u, 'm) pt_api \<Rightarrow> nat \<Rightarrow> u64 \<Rightarrow> wss_state \<Rightarrow> (crash + wss_state) + wss_state"
where
  "wss_mark_page A mm page_addr st =
     (let page_entry = (None :: pte_ptr option);
          st = wss_printk ''Starting address: 0x%lx'' [KAddr page_addr] st
      in if wss_follow_pte A (ws_mem st) mm page_addr = 1 then
           (case page_entry of
              None \<Rightarrow> Inl (Inl NullDeref)
            | Some e \<Rightarrow> Inr (wss_printk ''ERROR problem in translation'' []
                              (hide_pte A e (wss_printk ''PAGE Exist'' [] st))))
         else Inr (wss_printk ''ERROR problem in translation'' [] st))"

fun wss_mark_vmas ::
  "('g, 'u, 'm) pt_api \<Rightarrow> nat \<Rightarrow> vm_area_struct list \<Rightarrow> wss_state \<Rightarrow> crash + wss_state"
where
  "wss_mark_vmas A mm [] st = Inr st"
| "wss_mark_vmas A mm (vma # vmas) st =
     (case page_loop (wss_mark_page A mm) (vm_start vma) (vm_end vma) st of
        None \<Rightarrow> Inl Diverges
      | Some (Inl r) \<Rightarrow> r
      | Some (Inr st) \<Rightarrow> wss_mark_vmas A mm vmas st)"

definition wss_c_marking ::
  "('g, 'u, 'm) pt_api \<Rightarrow> task option \<Rightarrow> wss_state \<Rightarrow> crash + int \<times> wss_state"
where
  "wss_c_marking A ts st =
     (case ts of
        None \<Rightarrow> Inr (0, st)
      | Some t \<Rightarrow> (case t_mm t of None \<Rightarrow> Inl NullDeref
                 | Some m \<Rightarrow> bindC (wss_mark_vmas A (mm_id m) (mmap m) st) (\<lambda>st. Inr (0, st))))"

definition wss_c_start :: "('g, 'u, 'm) pt_api \<Rightarrow> wss_start_fun" where
  "wss_c_start A = wss_start 60 False (wss_c_marking A)"

text \<open>\<^verbatim>\<open>wss2.c\<close> looks at the first page of each area only, and changes copies of the entry.\<close>

fun wss2_vmas ::
  "('g, 'u, 'm) pt_api \<Rightarrow> nat \<Rightarrow> vm_area_struct list \<Rightarrow> wss_state \<Rightarrow> crash + wss_state"
where
  "wss2_vmas A mm [] st = Inr st"
| "wss2_vmas A mm (vma # vmas) st =
     (if rss_follow_pte A (ws_mem st) mm (vm_start vma) = 1 then Inl NullDeref
      else if rss_follow_pte A (ws_mem st) mm (vm_start vma) = - 2
      then wss2_vmas A mm vmas (wss_printk ''ERROR problem in translation'' [] st)
      else wss2_vmas A mm vmas st)"

definition wss2_start :: "('g, 'u, 'm) pt_api \<Rightarrow> pid_lookup \<Rightarrow> int \<Rightarrow> wss_state \<Rightarrow> crash + int \<times> wss_state" where
  "wss2_start A lookup pid st =
     (case lookup pid of
        Some ts \<Rightarrow>
          if t_pid ts = pid then
            (case t_mm ts of
               None \<Rightarrow> Inl NullDeref
             | Some m \<Rightarrow>
                 bindC (wss2_vmas A (mm_id m) (mmap m)
                     (wss_printk ''process name: %s pid : %d parent pid :%d''
                        [KStr (t_comm ts), KInt (t_pid ts), KInt (t_parent_pid ts)] st))
                   (\<lambda>st. Inr (0, st)))
          else Inr (0, wss_printk ''ERROR unable to find process'' [] st)
      | None \<Rightarrow> Inr (0, wss_printk ''ERROR unable to find process'' [] st))"

section \<open>workingwss.c: the list of hidden entries\<close>

text \<open>
  \<^verbatim>\<open>workingwss.c\<close> appends the value of every entry it hides to a list. At removal it walks the
  list, changing copies of the values, and starts at \<open>head\<close> without a check.
\<close>

definition working_hide_pte :: "('g, 'u, 'm) pt_api \<Rightarrow> pte_ptr \<Rightarrow> wss_state \<times> u64 list \<Rightarrow> wss_state \<times> u64 list" where
  "working_hide_pte A pte stl =
     (let st = hide_pte A pte (fst stl) in (st, snd stl @ [ws_mem st pte]))"

definition working_page ::
  "('g, 'u, 'm) pt_api \<Rightarrow> nat \<Rightarrow> u64 \<Rightarrow> wss_state \<times> u64 list \<Rightarrow>
     (int \<times> wss_state \<times> u64 list) + wss_state \<times> u64 list"
where
  "working_page A mm page_addr stl =
     (case pte_kernel_at A mm page_addr of
        None \<Rightarrow> Inl (- 2, stl)
      | Some pte \<Rightarrow> Inr (if pte_present A (ws_mem (fst stl) pte) then working_hide_pte A pte stl else stl))"

definition working_marking ::
  "('g, 'u, 'm) pt_api \<Rightarrow> task option \<Rightarrow> wss_state \<times> u64 list \<Rightarrow> crash + int \<times> wss_state \<times> u64 list"
where
  "working_marking A ts stl =
     (case ts of
        None \<Rightarrow> Inr (0, stl)
      | Some t \<Rightarrow> (case t_mm t of None \<Rightarrow> Inl NullDeref
                 | Some m \<Rightarrow> marking_vmas (working_page A (mm_id m)) (mmap m) stl))"

definition working_cleanup :: "wss_state \<times> u64 list \<Rightarrow> crash + wss_state" where
  "working_cleanup stl =
     (let st = (fst stl)\<lparr>ws_hook := False\<rparr>
      in case snd stl of [] \<Rightarrow> Inl NullDeref | _ \<Rightarrow> Inr (wss_printk ''lkm removed'' [] st))"

section \<open>What a marking does\<close>

definition visited :: "('g, 'u, 'm) pt_api \<Rightarrow> mm_struct \<Rightarrow> u64 list" where
  "visited A m = takeWhile (\<lambda>a. pte_kernel_at A (mm_id m) a \<noteq> None) (mm_pages m)"

definition visited_ptes :: "('g, 'u, 'm) pt_api \<Rightarrow> mm_struct \<Rightarrow> pte_ptr list" where
  "visited_ptes A m = map (\<lambda>a. the (pte_kernel_at A (mm_id m) a)) (visited A m)"

definition hidden_flags :: "('g, 'u, 'm) pt_api \<Rightarrow> u64 \<Rightarrow> u64" where
  "hidden_flags A f = (f OR PAGE_PROTNONE A) AND NOT (PAGE_PRESENT A)"

lemma flags_apart: "pte_api_ok A \<Longrightarrow> \<not> (bit (PAGE_PRESENT A) n \<and> bit (PAGE_PROTNONE A) n)"
  unfolding pte_api_ok_def by (metis bit_0_eq bit_and_iff bot_apply bot_bool_def)

definition hide_if ::
  "('g, 'u, 'm) pt_api \<Rightarrow> (pte_ptr \<Rightarrow> wss_state \<Rightarrow> wss_state) \<Rightarrow> pte_ptr \<Rightarrow> wss_state \<Rightarrow> wss_state"
where
  "hide_if A hide p st = (if pte_present A (ws_mem st p) then hide p st else st)"

text \<open>What the marking needs of the code that hides one entry.\<close>

locale page_hider =
  fixes A :: "('g, 'u, 'm) pt_api" and hide :: "pte_ptr \<Rightarrow> wss_state \<Rightarrow> wss_state"
  assumes hide_flags: "pte_api_ok A \<Longrightarrow>
      pte_flags A (ws_mem (hide p st) p) = hidden_flags A (pte_flags A (ws_mem st p))"
    and hide_other: "q \<noteq> p \<Longrightarrow> ws_mem (hide p st) q = ws_mem st q"
    and hide_frame: "wss (hide p st) = wss st" "ws_log (hide p st) = ws_log st" "ws_hook (hide p st) = ws_hook st"
begin

lemma pages_fold:
  "fold_exit (marking_page hide A mm) as st =
     (let vs = takeWhile (\<lambda>a. pte_kernel_at A mm a \<noteq> None) as;
          st' = fold (hide_if A hide) (map (\<lambda>a. the (pte_kernel_at A mm a)) vs) st
      in if vs = as then Inr st' else Inl (- 2, st'))"
  by (induction as arbitrary: st)
    (auto simp: marking_page_def hide_if_def Let_def simp del: takeWhile_eq_all_conv split: option.split)

lemma vmas_fold:
  assumes "\<forall>v \<in> set vmas. unat (vm_end v) + 4096 < 2 ^ 64"
  shows "marking_vmas body vmas st =
    (case fold_exit body (concat (map (\<lambda>v. page_seq (vm_start v) (vm_end v)) vmas)) st of
       Inl r \<Rightarrow> Inr r | Inr st' \<Rightarrow> Inr (0, st'))"
  using assms by (induction vmas arbitrary: st) (auto simp: page_loop_fold fold_exit_append split: sum.split)

lemma marking_fold:
  assumes "t_mm t = Some m" "areas_ok m"
  shows "marking (marking_page hide A) (Some t) st =
    Inr (if visited A m = mm_pages m then 0 else - 2, fold (hide_if A hide) (visited_ptes A m) st)"
proof -
  have "fold_exit (marking_page hide A (mm_id m)) (mm_pages m) st =
    (if visited A m = mm_pages m then Inr (fold (hide_if A hide) (visited_ptes A m) st)
     else Inl (- 2, fold (hide_if A hide) (visited_ptes A m) st))"
    unfolding pages_fold visited_def visited_ptes_def Let_def by (rule refl)
  then show ?thesis
    using assms by (simp add: marking_def areas_ok_def vmas_fold [of "mmap m"] mm_pages_def [symmetric])
qed

lemma fold_frame:
  "wss (fold (hide_if A hide) ps st) = wss st" "ws_log (fold (hide_if A hide) ps st) = ws_log st"
  "ws_hook (fold (hide_if A hide) ps st) = ws_hook st"
  by (induction ps arbitrary: st) (simp_all add: hide_if_def hide_frame)

lemma fold_untouched:
  "p \<notin> set ps \<or> \<not> pte_present A (ws_mem st p) \<Longrightarrow> ws_mem (fold (hide_if A hide) ps st) p = ws_mem st p"
proof (induction ps arbitrary: st)
  case (Cons a ps)
  have "ws_mem (hide_if A hide a st) p = ws_mem st p"
    using Cons.prems by (cases "a = p") (auto simp: hide_if_def hide_other)
  with Cons show ?case by auto
qed simp

lemma hidden_present:
  assumes "pte_api_ok A"
  shows "hidden_flags A f AND (PAGE_PRESENT A OR PAGE_PROTNONE A) \<noteq> 0"
    "hidden_flags A f AND PAGE_PRESENT A = 0" "hidden_flags A (hidden_flags A f) = hidden_flags A f"
proof -
  note apart = flags_apart [OF assms]
  obtain n where "bit (PAGE_PROTNONE A) n"
    using assms unfolding pte_api_ok_def by (metis bit_eq_iff bit_0_eq bot_apply bot_bool_def)
  with apart have "bit (hidden_flags A f AND (PAGE_PRESENT A OR PAGE_PROTNONE A)) n"
    by (auto simp: hidden_flags_def bit_simps dest: bit_imp_le_length)
  then show "hidden_flags A f AND (PAGE_PRESENT A OR PAGE_PROTNONE A) \<noteq> 0"
    by auto
  show "hidden_flags A f AND PAGE_PRESENT A = 0"
    "hidden_flags A (hidden_flags A f) = hidden_flags A f"
    by (auto simp: hidden_flags_def bit_eq_iff bit_simps)
qed

lemma hide_present: "pte_api_ok A \<Longrightarrow> pte_present A (ws_mem (hide p st) p)"
  using hidden_present(1) [of "pte_flags A (ws_mem st p)"] hide_flags [of p st]
  unfolding pte_api_ok_def by metis

lemma fold_hidden:
  assumes "pte_api_ok A" "pte_present A (ws_mem st p)"
  shows "pte_flags A (ws_mem (fold (hide_if A hide) ps st) p) =
    (if p \<in> set ps then hidden_flags A (pte_flags A (ws_mem st p)) else pte_flags A (ws_mem st p))"
  using assms(2)
proof (induction ps arbitrary: st)
  case (Cons a ps)
  have "pte_present A (ws_mem (hide_if A hide a st) p)"
    using Cons.prems hide_present [OF assms(1)] by (cases "a = p") (simp_all add: hide_if_def hide_other)
  from Cons.IH [OF this] Cons.prems show ?case
    by (cases "a = p") (auto simp: hide_if_def hide_other hide_flags [OF assms(1)] hidden_present(3) [OF assms(1)])
qed simp

end

interpretation wss5: page_hider A "hide_pte A" for A
  by unfold_locales (simp_all add: hide_pte_def set_pte_def Let_def pte_api_ok_def hidden_flags_def)

interpretation wssdemo: page_hider A "demo_hide_pte A" for A
proof unfold_locales
  fix p st assume ok: "pte_api_ok A"
  then show "pte_flags A (ws_mem (demo_hide_pte A p st) p) = hidden_flags A (pte_flags A (ws_mem st p))"
    using flags_apart [OF ok] by (auto simp: demo_hide_pte_def set_pte_def Let_def pte_api_ok_def
        hidden_flags_def bit_eq_iff bit_simps)
qed (simp_all add: demo_hide_pte_def set_pte_def Let_def)

section \<open>What the modules measure\<close>

text \<open> The marking visits the pages of the memory areas in order up to the first that has no page-table
  entry, where it gives up with \<open>- 2\<close>. Every entry it visited and found present is hidden
  (\<open>PROTNONE\<close> set, \<open>PRESENT\<close> clear, the other flags kept), and every other entry, the counter
  and the log are as before.\<close>

theorem wss_marking_result:
  assumes "pte_api_ok A" "t_mm t = Some m" "areas_ok m"
  shows "\<exists>st'. wss_marking A (Some t) st = Inr (if visited A m = mm_pages m then 0 else - 2, st') \<and>
    wss st' = wss st \<and> ws_log st' = ws_log st \<and>
    (\<forall>p. if p \<in> set (visited_ptes A m) \<and> pte_present A (ws_mem st p)
         then pte_flags A (ws_mem st' p) = hidden_flags A (pte_flags A (ws_mem st p))
         else ws_mem st' p = ws_mem st p)"
  unfolding wss_marking_def wss5.marking_fold [OF assms(2,3)]
  by (rule exI [of _ "fold (hide_if A (hide_pte A)) (visited_ptes A m) st"])
    (simp add: wss5.fold_frame wss5.fold_hidden [OF assms(1)] wss5.fold_untouched)

text \<open>
  An access of the process: the hardware faults if the entry is not \<open>PRESENT\<close>, and the
  fault handler calls the hook that is installed.
\<close>

definition hw_access ::
  "('g, 'u, 'm) pt_api \<Rightarrow> int \<Rightarrow> task \<Rightarrow> u64 \<Rightarrow> wss_state \<Rightarrow> crash + wss_state"
where
  "hw_access A pid t addr st =
     (case t_mm t of
        None \<Rightarrow> Inl NullDeref
      | Some m \<Rightarrow>
          (case pte_kernel_at A (mm_id m) addr of
             None \<Rightarrow> Inr st
           | Some pte \<Rightarrow>
               if pte_flags A (ws_mem st pte) AND PAGE_PRESENT A \<noteq> 0 then Inr st
               else if ws_hook st then page_check A pid (Some t) addr st else Inr st))"

fun hw_accesses ::
  "('g, 'u, 'm) pt_api \<Rightarrow> int \<Rightarrow> task \<Rightarrow> u64 list \<Rightarrow> wss_state \<Rightarrow> crash + wss_state"
where
  "hw_accesses A pid t [] st = Inr st"
| "hw_accesses A pid t (a # as) st = bindC (hw_access A pid t a st) (hw_accesses A pid t as)"

definition shown_flags :: "('g, 'u, 'm) pt_api \<Rightarrow> u64 \<Rightarrow> u64" where
  "shown_flags A f = (f OR PAGE_PRESENT A) AND NOT (PAGE_PROTNONE A)"

lemma shown_present:
  assumes "pte_api_ok A"
  shows "shown_flags A f AND PAGE_PRESENT A \<noteq> 0"
proof -
  have "shown_flags A f AND PAGE_PRESENT A = PAGE_PRESENT A"
    using flags_apart [OF assms] by (intro bit_eqI) (auto simp: shown_flags_def bit_simps dest: bit_imp_le_length)
  then show ?thesis using assms by (simp add: pte_api_ok_def)
qed

lemma shown_hidden:
  assumes "pte_api_ok A" "f AND PAGE_PRESENT A = PAGE_PRESENT A" "f AND PAGE_PROTNONE A = 0"
  shows "shown_flags A (hidden_flags A f) = f"
proof (rule bit_eqI)
  fix n assume "possible_bit TYPE(64 word) n"
  moreover have "bit (PAGE_PRESENT A) n \<Longrightarrow> bit f n" by (metis assms(2) bit_and_iff)
  moreover have "bit (PAGE_PROTNONE A) n \<Longrightarrow> \<not> bit f n"
    by (metis assms(3) bit_0_eq bit_and_iff bot_apply bot_bool_def)
  ultimately show "bit (shown_flags A (hidden_flags A f)) n = bit f n"
    using flags_apart [OF assms(1)] by (auto simp: shown_flags_def hidden_flags_def bit_simps)
qed

lemma access_shown:
  assumes "t_mm t = Some m" "pte_kernel_at A (mm_id m) a = Some p"
    and "pte_flags A (ws_mem st p) AND PAGE_PRESENT A \<noteq> 0"
  shows "hw_access A pid t a st = Inr st"
  using assms by (simp add: hw_access_def)

lemma access_hidden:
  assumes "pte_api_ok A" "t_pid t = pid" "t_mm t = Some m" "ws_hook st"
    and "pte_kernel_at A (mm_id m) a = Some p"
    and "pte_flags A (ws_mem st p) AND PAGE_PRESENT A = 0" "pte_flags A (ws_mem st p) \<noteq> 0"
  shows "\<exists>st'. hw_access A pid t a st = Inr st' \<and> wss st' = wss st + 1 \<and> ws_hook st' \<and>
    pte_flags A (ws_mem st' p) = shown_flags A (pte_flags A (ws_mem st p)) \<and>
    (\<forall>q. q \<noteq> p \<longrightarrow> ws_mem st' q = ws_mem st q)"
  using assms
  by (auto simp: hw_access_def page_check_def set_pte_def shown_flags_def pte_api_ok_def Let_def)

definition ptes_of :: "('g, 'u, 'm) pt_api \<Rightarrow> mm_struct \<Rightarrow> u64 list \<Rightarrow> pte_ptr set" where
  "ptes_of A m as = (\<lambda>a. the (pte_kernel_at A (mm_id m) a)) ` set as"

lemma accesses_result:
  assumes "pte_api_ok A" "t_pid t = pid" "t_mm t = Some m"
  shows "\<lbrakk>ws_hook st; \<forall>a \<in> set as. pte_kernel_at A (mm_id m) a \<noteq> None;
      \<forall>p \<in> ptes_of A m as. pte_flags A (ws_mem st p) \<noteq> 0\<rbrakk> \<Longrightarrow>
    let H = {p \<in> ptes_of A m as. pte_flags A (ws_mem st p) AND PAGE_PRESENT A = 0} in
    \<exists>st'. hw_accesses A pid t as st = Inr st' \<and> wss st' = wss st + of_nat (card H) \<and>
      (\<forall>p. if p \<in> H then pte_flags A (ws_mem st' p) = shown_flags A (pte_flags A (ws_mem st p))
           else ws_mem st' p = ws_mem st p)"
proof (induction as arbitrary: st)
  case Nil
  then show ?case by (simp add: ptes_of_def)
next
  case (Cons a as)
  let ?H = "\<lambda>as st. {p \<in> ptes_of A m as. pte_flags A (ws_mem st p) AND PAGE_PRESENT A = 0}"
  obtain p where p: "pte_kernel_at A (mm_id m) a = Some p" using Cons.prems(2) by auto
  have ptes: "ptes_of A m (a # as) = insert p (ptes_of A m as)" by (simp add: ptes_of_def p)
  have fin: "finite (ptes_of A m as)" by (simp add: ptes_of_def)
  show ?case
  proof (cases "pte_flags A (ws_mem st p) AND PAGE_PRESENT A = 0")
    case False
    then have "?H (a # as) st = ?H as st" by (auto simp: ptes)
    moreover have "hw_accesses A pid t (a # as) st = hw_accesses A pid t as st"
      by (simp add: access_shown [OF assms(3) p False])
    ultimately show ?thesis using Cons by (simp add: ptes)
  next
    case True
    obtain st1 where st1: "hw_access A pid t a st = Inr st1" "wss st1 = wss st + 1" "ws_hook st1"
      "pte_flags A (ws_mem st1 p) = shown_flags A (pte_flags A (ws_mem st p))"
      and other: "\<And>q. q \<noteq> p \<Longrightarrow> ws_mem st1 q = ws_mem st q"
      using access_hidden [OF assms Cons.prems(1) p True] Cons.prems(3) by (auto simp: ptes)
    have shown: "pte_flags A (ws_mem st1 p) AND PAGE_PRESENT A \<noteq> 0"
      using shown_present [OF assms(1)] st1(4) by simp
    have H: "?H (a # as) st = insert p (?H as st1)" "p \<notin> ?H as st1"
      using True shown by (auto simp: ptes) (metis other)+
    have "pte_flags A (ws_mem st1 q) \<noteq> 0" if "q \<in> ptes_of A m as" for q
      using Cons.prems(3) shown other that by (cases "q = p") (auto simp: ptes)
    then obtain st2 where st2: "hw_accesses A pid t as st1 = Inr st2"
      "wss st2 = wss st1 + of_nat (card (?H as st1))"
      "\<And>q. if q \<in> ?H as st1 then pte_flags A (ws_mem st2 q) = shown_flags A (pte_flags A (ws_mem st1 q))
         else ws_mem st2 q = ws_mem st1 q"
      using Cons.IH [OF st1(3)] Cons.prems(2) by (auto simp: Let_def)
    have c: "card (?H (a # as) st) = Suc (card (?H as st1))"
      unfolding H(1) using H(2) fin by (intro card_insert_disjoint) auto
    have "if q \<in> ?H (a # as) st then pte_flags A (ws_mem st2 q) = shown_flags A (pte_flags A (ws_mem st q))
        else ws_mem st2 q = ws_mem st q" for q
      using st2(3) [of q] H st1(4) other [of q] by (cases "q = p") auto
    then show ?thesis
      using st1(1,2) st2(1,2) c by (simp add: Let_def)
  qed
qed



text \<open>Both pages of the demonstration process are present; one of them is accessed twice.\<close>

definition wss_demo :: wss_state where
  "wss_demo = \<lparr>wss = 0, ws_mem = (\<lambda>_. 1), ws_hook = True, ws_log = []\<rparr>"

lemma flat_api_ok: "pte_api_ok flat_api"
proof -
  have "e AND NOT f AND 4095 = (e AND 4095) AND NOT f" for e f :: u64
    by (simp add: ac_simps)
  then show ?thesis
    by (simp add: pte_api_ok_def flat_api_def word_ao_dist and.assoc)
qed

lemma demo_visited: "visited flat_api demo_mm = [0x400000, 0x401000]"
  by (simp add: visited_def demo_pages flat_simps)


theorem wss_marking_result_witness:
  "\<exists>st'. wss_marking flat_api (Some demo_task) wss_demo = Inr (0, st') \<and>
     pte_flags flat_api (ws_mem st' 0x400) = 256"
proof -
  have v: "visited flat_api demo_mm = mm_pages demo_mm" "0x400 \<in> set (visited_ptes flat_api demo_mm)"
    by (simp_all add: demo_visited demo_pages visited_ptes_def flat_simps)
  obtain st' where "wss_marking flat_api (Some demo_task) wss_demo = Inr (0, st')"
    "\<forall>p. if p \<in> set (visited_ptes flat_api demo_mm) \<and> pte_present flat_api (ws_mem wss_demo p)
       then pte_flags flat_api (ws_mem st' p) = hidden_flags flat_api (pte_flags flat_api (ws_mem wss_demo p))
       else ws_mem st' p = ws_mem wss_demo p"
    using wss_marking_result [OF flat_api_ok demo_areas(1,3), of wss_demo] v(1) by auto
  with v(2) show ?thesis
    by (auto simp: flat_simps hidden_flags_def wss_demo_def dest!: spec [of _ "0x400"])
qed

text \<open> \<^verbatim>\<open>wssdemo3.c\<close> clears the counter, marks and reports in one go, before it sleeps: whatever
  the process does in its ten windows, every report is 0.\<close>

theorem wssdemo3_reports_zero:
  assumes "lookup pid = Some t" "t_pid t = pid" "t_mm t = Some m" "areas_ok m"
    and "\<And>i st. \<exists>st'. window i st = Inr st' \<and> ws_log st' = ws_log st"
  shows "\<exists>st'. wssdemo3_start A lookup pid window st = Inr st' \<and>
    ws_log st' = ws_log st @ rss_banner t #
      map (\<lambda>i. Printk ''second %d WSS:%d'' [KInt (int i + 1), KInt 0]) [0..<10]"
proof -
  let ?body = "wss_round (wss_marking A) True t window"
  let ?msg = "\<lambda>i. Printk ''second %d WSS:%d'' [KInt (int i + 1), KInt 0]"
  have round: "\<exists>st'. ?body i st = Inr st' \<and> ws_log st' = ws_log st @ [?msg i]" for i st
    using assms(5) [of i "wss_printk ''second %d WSS:%d'' [KInt (int i + 1), KInt 0]
        (fold (hide_if A (hide_pte A)) (visited_ptes A m) (st\<lparr>wss := 0\<rparr>))"]
    by (simp add: wss_round_def wss_marking_def wss5.marking_fold [OF assms(3,4)] wss5.fold_frame wss_printk_def)
  have "\<exists>st'. rounds_lt i n ?body st = Inr st' \<and> ws_log st' = ws_log st @ map ?msg [i..<n]" for i n st
  proof (induction i n ?body st rule: rounds_lt.induct)
    case (1 i n st)
    show ?case
    proof (cases "i < n")
      case True
      obtain st1 where st1: "?body i st = Inr st1" "ws_log st1 = ws_log st @ [?msg i]"
        using round by blast
      from 1 [OF True, of st1] st1 show ?thesis
        using True by (auto simp: rounds_lt_step upt_conv_Cons)
    qed simp
  qed
  from this [of 0 10 "wss_printk ''process name: %s pid : %d parent pid :%d''
      [KStr (t_comm t), KInt (t_pid t), KInt (t_parent_pid t)] (st\<lparr>ws_hook := True\<rparr>)"]
  show ?thesis
    using assms(1,2)
    by (simp add: wssdemo3_start_def wss_start_def wss_printk_def rss_banner_def Let_def)
qed

theorem wssdemo3_reports_zero_witness:
  "\<exists>st'. wssdemo3_start flat_api (\<lambda>p. if p = 42 then Some demo_task else None) 42
      (\<lambda>i st. Inr (st\<lparr>wss := wss st + 7\<rparr>)) wss_demo = Inr st' \<and>
     ws_log st' = rss_banner demo_task # map (\<lambda>i. Printk ''second %d WSS:%d'' [KInt (int i + 1), KInt 0]) [0..<10]"
  using wssdemo3_reports_zero [of "\<lambda>p. if p = 42 then Some demo_task else None" 42 demo_task demo_mm
      "\<lambda>i st. Inr (st\<lparr>wss := wss st + 7\<rparr>)" flat_api wss_demo]
  by (simp add: demo_areas wss_demo_def)

section \<open>The first attempts\<close>

lemma wss_mark_none:
  "\<forall>a \<in> set as. wss_follow_pte A (ws_mem st) mm a \<noteq> 1 \<Longrightarrow>
    \<exists>st'. fold_exit (wss_mark_page A mm) as st = Inr st' \<and> ws_mem st' = ws_mem st \<and> wss st' = wss st"
proof (induction as arbitrary: st)
  case (Cons a as)
  let ?st = "wss_printk ''ERROR problem in translation'' [] (wss_printk ''Starting address: 0x%lx'' [KAddr a] st)"
  have "wss_mark_page A mm a st = Inr ?st" "ws_mem ?st = ws_mem st" "wss ?st = wss st"
    using Cons.prems by (simp_all add: wss_mark_page_def wss_printk_def Let_def)
  with Cons.IH [of ?st] Cons.prems show ?case by simp
qed simp

lemma wss_mark_some:
  "\<exists>a \<in> set as. wss_follow_pte A (ws_mem st) mm a = 1 \<Longrightarrow>
    fold_exit (wss_mark_page A mm) as st = Inl (Inl NullDeref)"
proof (induction as arbitrary: st)
  case (Cons a as)
  let ?st = "wss_printk ''ERROR problem in translation'' [] (wss_printk ''Starting address: 0x%lx'' [KAddr a] st)"
  show ?case
  proof (cases "wss_follow_pte A (ws_mem st) mm a = 1")
    case False
    then have "wss_mark_page A mm a st = Inr ?st" "ws_mem ?st = ws_mem st"
      by (simp_all add: wss_mark_page_def wss_printk_def Let_def)
    with Cons.IH [of ?st] Cons.prems False show ?thesis by simp
  qed (simp add: wss_mark_page_def wss_printk_def Let_def)
qed simp

lemma wss_mark_vmas_fold:
  assumes "\<forall>v \<in> set vmas. unat (vm_end v) + 4096 < 2 ^ 64"
  shows "wss_mark_vmas A mm vmas st =
    (case fold_exit (wss_mark_page A mm) (concat (map (\<lambda>v. page_seq (vm_start v) (vm_end v)) vmas)) st of
       Inl r \<Rightarrow> r | Inr st' \<Rightarrow> Inr st')"
  using assms by (induction vmas arbitrary: st) (auto simp: page_loop_fold fold_exit_append split: sum.split)

text \<open> Because \<^verbatim>\<open>follow_pte\<close> hands the entry back through a parameter passed by value, the marking of
  \<^verbatim>\<open>wss.c\<close> never hides a page: it dereferences a null pointer as soon as a page of the process
  is present, and else leaves the page table and the counter as they were. So does its hook.\<close>

theorem wss_c_never_marks:
  assumes "t_mm t = Some m" "areas_ok m"
  shows "(if \<exists>a \<in> set (mm_pages m). wss_follow_pte A (ws_mem st) (mm_id m) a = 1
      then wss_c_marking A (Some t) st = Inl NullDeref
      else \<exists>st'. wss_c_marking A (Some t) st = Inr (0, st') \<and> ws_mem st' = ws_mem st \<and> wss st' = wss st) \<and>
    wss_page_check A pid (Some t) a pidd st =
      (if pid = pidd \<and> wss_follow_pte A (ws_mem st) (mm_id m) a = 1 then Inl NullDeref else Inr st)"
proof -
  have run: "wss_c_marking A (Some t) st =
      (case fold_exit (wss_mark_page A (mm_id m)) (mm_pages m) st of
         Inl r \<Rightarrow> bindC r (\<lambda>st. Inr (0, st)) | Inr st' \<Rightarrow> Inr (0, st'))"
    using assms unfolding areas_ok_def mm_pages_def
    by (simp add: wss_c_marking_def wss_mark_vmas_fold split: sum.split)
  have "if \<exists>a \<in> set (mm_pages m). wss_follow_pte A (ws_mem st) (mm_id m) a = 1
      then wss_c_marking A (Some t) st = Inl NullDeref
      else \<exists>st'. wss_c_marking A (Some t) st = Inr (0, st') \<and> ws_mem st' = ws_mem st \<and> wss st' = wss st"
  proof (cases "\<exists>a \<in> set (mm_pages m). wss_follow_pte A (ws_mem st) (mm_id m) a = 1")
    case True
    with wss_mark_some [OF True] show ?thesis by (simp add: run)
  next
    case False
    then obtain st' where "fold_exit (wss_mark_page A (mm_id m)) (mm_pages m) st = Inr st'"
      "ws_mem st' = ws_mem st" "wss st' = wss st"
      using wss_mark_none [of "mm_pages m" A st "mm_id m"] by blast
    with False show ?thesis by (simp add: run)
  qed
  then show ?thesis using assms(1) by (simp add: wss_page_check_def Let_def)
qed

theorem wss_c_never_marks_witness:
  "wss_c_marking flat_api (Some demo_task) wss_demo = Inl NullDeref"
proof -
  have "\<exists>a \<in> set (mm_pages demo_mm). wss_follow_pte flat_api (ws_mem wss_demo) (mm_id demo_mm) a = 1"
    by (rule bexI [of _ "0x400000"]) (simp_all add: demo_pages wss_follow_pte_def flat_simps wss_demo_def)
  with wss_c_never_marks [OF demo_areas(1,3), of flat_api wss_demo 0 0 0] show ?thesis by simp
qed

end
