(* ===== verification/Address_Demo.thy ===== *)
theory Address_Demo
  imports Page_Tables
begin

text \<open>
  The two modules of \<^verbatim>\<open>ex8\<close>: the first allocates a page by \<open>kmalloc\<close> and one by \<open>vmalloc\<close>, prints what three ways
  of translation make of their addresses and exports the pointers; the second, loaded later, does the same
  from the exported pointers. And \<^verbatim>\<open>hook.c\<close>, which puts a check into the page fault handler.
\<close>

section \<open>The first module\<close>

text \<open>\<open>pt\<close>, \<open>pointer\<close>, \<open>pointer2\<close> and the exported \<open>virt_addr\<close>, \<open>virt_addr2\<close>; the pages are never freed.\<close>

record ex8_state =
  e8_pt :: "pte_ptr option"
  e8_pointer :: "u64 option"
  e8_pointer2 :: "u64 option"
  e8_virt :: "u64 option"
  e8_virt2 :: "u64 option"

text \<open>What the kernel gives: the process that loads the module, the allocators, the translations.\<close>

record ('g, 'u, 'm) ex8_env =
  ee_pt :: "('g, 'u, 'm) pt_api"
  ee_mm :: "nat option"             \<comment> \<open>\<open>current->mm\<close>\<close>
  ee_kmalloc :: "u64 option"
  ee_vmalloc :: "u64 option"
  ee_virt_to_phys :: "u64 \<Rightarrow> u64"
  ee_pa :: "u64 \<Rightarrow> u64"

definition ex8_page_walk :: "('g, 'u, 'm) ex8_env \<Rightarrow> u64 \<Rightarrow> ex8_state \<Rightarrow> int \<times> ex8_state" where
  "ex8_page_walk E addr s =
     (case ee_mm E of None \<Rightarrow> (- 4, s)
      | Some mm \<Rightarrow>
          (case walk_to_pmd (ee_pt E) mm addr of
             Inl n \<Rightarrow> (- int n, s)
           | Inr pmd \<Rightarrow>
               (case pte_offset_kernel (ee_pt E) pmd addr of None \<Rightarrow> (- 4, s) | Some p \<Rightarrow> (1, s\<lparr>e8_pt := Some p\<rparr>))))"

definition allocate_kmalloc :: "('g, 'u, 'm) ex8_env \<Rightarrow> ex8_state \<Rightarrow> int \<times> ex8_state" where
  "allocate_kmalloc E s =
     (let s = s\<lparr>e8_pointer := ee_kmalloc E\<rparr>
      in case e8_pointer s of None \<Rightarrow> (- 1, s) | Some a \<Rightarrow> (1, s\<lparr>e8_virt := Some a\<rparr>))"

definition allocate_vmalloc :: "('g, 'u, 'm) ex8_env \<Rightarrow> ex8_state \<Rightarrow> int \<times> ex8_state" where
  "allocate_vmalloc E s =
     (let s = s\<lparr>e8_pointer2 := ee_vmalloc E\<rparr>
      in case e8_pointer2 s of None \<Rightarrow> (- 1, s) | Some a \<Rightarrow> (1, s\<lparr>e8_virt2 := Some a\<rparr>))"

text \<open>\<open>(unsigned long)pt\<close>.\<close>

definition pte_word :: "pte_ptr option \<Rightarrow> u64" where
  "pte_word p = (case p of None \<Rightarrow> 0 | Some a \<Rightarrow> of_nat a)"

definition ex8_kmalloc_demo :: "('g, 'u, 'm) ex8_env \<Rightarrow> ex8_state \<Rightarrow> kmsg list \<times> ex8_state" where
  "ex8_kmalloc_demo E s =
     (let (r, s) = allocate_kmalloc E s
      in if r = - 1 then ([Printk ''kmalloc failed to allocate memory'' []], s)
         else case e8_pointer s of None \<Rightarrow> ([], s)
         | Some a \<Rightarrow>
             let (_, s) = ex8_page_walk E a s
             in ([Printk ''allocated page using kmalloc succesfully'' [], Printk ''Virtual address : x0%lu'' [KAddr a],
                  Printk ''physical addr (using page walk) : x0%lu'' [KAddr (pte_word (e8_pt s))],
                  Printk ''Physical virt_to_phys : x0%lu'' [KAddr (ee_virt_to_phys E a)],
                  Printk ''Physical addr using __pa() : x0%lu'' [KAddr (ee_pa E a)]], s))"

definition ex8_vmalloc_demo :: "('g, 'u, 'm) ex8_env \<Rightarrow> ex8_state \<Rightarrow> kmsg list \<times> ex8_state" where
  "ex8_vmalloc_demo E s =
     (let (r, s) = allocate_vmalloc E s
      in if r = - 1 then ([Printk ''kmalloc failed to allocate memory'' []], s)
         else case e8_pointer2 s of None \<Rightarrow> ([], s)
         | Some a \<Rightarrow>
             let (_, s) = ex8_page_walk E a s
             in ([Printk ''allocated page using vmalloc succesfully'' [], Printk ''virtual address : x0%lu'' [KAddr a],
                  Printk ''physical address (using page walk) : x0%lu'' [KAddr (pte_word (e8_pt s))],
                  Printk ''Physical address virt_to_phys : x0%lu'' [KAddr (ee_virt_to_phys E a)],
                  Printk ''Physical address using __pa() macro : x0%lu'' [KAddr (ee_pa E a)]], s))"

definition ex8_init :: "('g, 'u, 'm) ex8_env \<Rightarrow> kmsg list \<times> ex8_state" where
  "ex8_init E =
     (let s = \<lparr>e8_pt = None, e8_pointer = None, e8_pointer2 = None, e8_virt = None, e8_virt2 = None\<rparr>;
          (out1, s) = ex8_kmalloc_demo E s;
          (out2, s) = ex8_vmalloc_demo E s
      in ([Printk ''MODULE 1 starting'' [], Printk ''*** Kmalloc ***'' []] @ out1 @ [Printk ''*** vmalloc ***'' []] @ out2 @
          [Printk ''inside the %s function'' [KStr ''init'']], s))"

section \<open>The second module\<close>

record ex8b_state =
  e8b_pt :: "pte_ptr option"
  e8b_pt2 :: "pte_ptr option"

text \<open>\<open>flag\<close>: \<open>KMALLOC\<close> (1) or \<open>VMALLOC\<close> (0).\<close>

definition ex8b_page_walk :: "('g, 'u, 'm) ex8_env \<Rightarrow> u64 \<Rightarrow> int \<Rightarrow> ex8b_state \<Rightarrow> int \<times> ex8b_state" where
  "ex8b_page_walk E addr flag s =
     (case ee_mm E of None \<Rightarrow> (- 4, s)
      | Some mm \<Rightarrow>
          (case walk_to_pmd (ee_pt E) mm addr of
             Inl n \<Rightarrow> (- int n, s)
           | Inr pmd \<Rightarrow>
               (case pte_offset_kernel (ee_pt E) pmd addr of None \<Rightarrow> (- 4, s)
                | Some p \<Rightarrow> (1, if flag = 0 then s\<lparr>e8b_pt2 := Some p\<rparr> else if flag = 1 then s\<lparr>e8b_pt := Some p\<rparr> else s))))"

definition ex8b_kmalloc_demo :: "('g, 'u, 'm) ex8_env \<Rightarrow> u64 option \<Rightarrow> ex8b_state \<Rightarrow> kmsg list \<times> ex8b_state" where
  "ex8b_kmalloc_demo E virt s =
     (case virt of None \<Rightarrow> ([], s)
      | Some a \<Rightarrow>
          let (_, s) = ex8b_page_walk E a 1 s
          in ([Printk ''virtual addr : x0%lu'' [KAddr a], Printk ''Physical Address : x0%lu'' [KAddr (pte_word (e8b_pt s))],
               Printk ''Physical addr virt_to_phys : x0%lu'' [KAddr (ee_virt_to_phys E a)],
               Printk ''Physical addr using __pa() : x0%lu'' [KAddr (ee_pa E a)]], s))"

definition ex8b_vmalloc_demo :: "('g, 'u, 'm) ex8_env \<Rightarrow> u64 option \<Rightarrow> ex8b_state \<Rightarrow> kmsg list \<times> ex8b_state" where
  "ex8b_vmalloc_demo E virt2 s =
     (case virt2 of None \<Rightarrow> ([], s)
      | Some a \<Rightarrow>
          let (_, s) = ex8b_page_walk E a 0 s
          in ([Printk '' virtual addresss : x0%lu'' [KAddr a], Printk ''Physical Address : x0%lu'' [KAddr (pte_word (e8b_pt2 s))],
               Printk ''Physical addr virt_to_phys : x0%lu'' [KAddr (ee_virt_to_phys E a)],
               Printk ''Physical addr using __pa() : x0%lu'' [KAddr (ee_pa E a)]], s))"

definition ex8b_init :: "('g, 'u, 'm) ex8_env \<Rightarrow> u64 option \<Rightarrow> u64 option \<Rightarrow> kmsg list \<times> ex8b_state" where
  "ex8b_init E virt virt2 =
     (let s = \<lparr>e8b_pt = None, e8b_pt2 = None\<rparr>;
          (out1, s) = ex8b_kmalloc_demo E virt s;
          (out2, s) = ex8b_vmalloc_demo E virt2 s
      in ([Printk ''MODULE 2 STARTING'' [], Printk ''******* Kmalloc *******'' []] @ out1 @ [Printk ''******* vmalloc *******'' []] @ out2 @
          [Printk ''inside the %s function'' [KStr ''init'']], s))"

section \<open>What is printed\<close>

fun msg_addrs :: "kmsg \<Rightarrow> u64 list" where
  "msg_addrs (Printk f as) = concat (map (\<lambda>a. case a of KAddr w \<Rightarrow> [w] | _ \<Rightarrow> []) as)"

definition printed :: "kmsg list \<Rightarrow> u64 list" where
  "printed out = concat (map msg_addrs out)"

definition walk_result :: "('g, 'u, 'm) ex8_env \<Rightarrow> u64 \<Rightarrow> pte_ptr option" where
  "walk_result E a = (case ee_mm E of None \<Rightarrow> None | Some mm \<Rightarrow> pte_kernel_at (ee_pt E) mm a)"

lemma ex8_page_walk_result:
  "e8_pt (snd (ex8_page_walk E a s)) = (case walk_result E a of None \<Rightarrow> e8_pt s | Some p \<Rightarrow> Some p)"
  "(fst (ex8_page_walk E a s) = 1) = (walk_result E a \<noteq> None)"
  "e8_virt (snd (ex8_page_walk E a s)) = e8_virt s" "e8_virt2 (snd (ex8_page_walk E a s)) = e8_virt2 s"
  by (auto simp: ex8_page_walk_def walk_result_def pte_kernel_at_def split: option.splits sum.splits)

lemma ex8b_page_walk_result:
  "e8b_pt (snd (ex8b_page_walk E a 1 s)) = (case walk_result E a of None \<Rightarrow> e8b_pt s | Some p \<Rightarrow> Some p)"
  "e8b_pt2 (snd (ex8b_page_walk E a 1 s)) = e8b_pt2 s"
  "e8b_pt2 (snd (ex8b_page_walk E a 0 s)) = (case walk_result E a of None \<Rightarrow> e8b_pt2 s | Some p \<Rightarrow> Some p)"
  by (auto simp: ex8b_page_walk_def walk_result_def pte_kernel_at_def split: option.splits sum.splits)

text \<open>
  With both pages allocated the second module, loaded by a process with the same tables, prints the same
  addresses as the first one, provided the walk to the \<open>vmalloc\<close> page does not fail where the other one succeeds:
  then the first module prints the entry of the \<open>kmalloc\<close> page again, which is still in \<open>pt\<close>. What both call
  the physical address is the address of the page-table entry.
\<close>

definition three_ways :: "('g, 'u, 'm) ex8_env \<Rightarrow> u64 \<Rightarrow> pte_ptr option \<Rightarrow> u64 list" where
  "three_ways E a p = [a, pte_word p, ee_virt_to_phys E a, ee_pa E a]"

lemma ex8_init_prints:
  assumes "ee_kmalloc E = Some a" "ee_vmalloc E = Some b"
  shows "printed (fst (ex8_init E)) = three_ways E a (walk_result E a) @
      three_ways E b (if walk_result E b = None then walk_result E a else walk_result E b)"
    and "e8_virt (snd (ex8_init E)) = Some a" "e8_virt2 (snd (ex8_init E)) = Some b"
  using assms
  by (auto simp: ex8_page_walk_result ex8_init_def ex8_kmalloc_demo_def ex8_vmalloc_demo_def allocate_kmalloc_def allocate_vmalloc_def Let_def
      printed_def three_ways_def split_def split: option.splits)

lemma ex8b_init_prints:
  "printed (fst (ex8b_init E (Some a) (Some b))) = three_ways E a (walk_result E a) @ three_ways E b (walk_result E b)"
  by (auto simp: ex8b_page_walk_result ex8b_init_def ex8b_kmalloc_demo_def ex8b_vmalloc_demo_def Let_def printed_def three_ways_def split_def
      split: option.splits)

theorem ex8_modules_agree:
  assumes "ee_kmalloc E = Some a" "ee_vmalloc E = Some b" "walk_result E a \<noteq> None \<longrightarrow> walk_result E b \<noteq> None"
  shows "(let s = snd (ex8_init E)
    in printed (fst (ex8b_init E (e8_virt s) (e8_virt2 s))) = printed (fst (ex8_init E)))"
  using ex8_init_prints [OF assms(1,2)] ex8b_init_prints [of E a b] assms(3) by (auto simp: Let_def)

text \<open>A page for which the walk finds no entry: the first module prints the entry of the other page for it.\<close>

definition demo_ex8 :: "(u64, u64, u64) ex8_env" where
  "demo_ex8 =
     \<lparr>ee_pt = \<lparr>pgd_offset = (\<lambda>_ a. a), pgd_none = (\<lambda>_. False), pgd_bad = (\<lambda>_. False),
        pud_offset = (\<lambda>_ a. a), pud_none = (\<lambda>_. False), pud_bad = (\<lambda>_. False),
        pmd_offset = (\<lambda>_ a. a), pmd_none = (\<lambda>a. a = 8192), pmd_bad = (\<lambda>_. False),
        pte_offset_map = (\<lambda>_ a. Some (unat a div 4096)), pte_offset_kernel = (\<lambda>_ a. Some (unat a div 4096)),
        pte_present = (\<lambda>e. e AND 257 \<noteq> 0), pte_flags = (\<lambda>e. e AND 4095), pte_set_flags = (\<lambda>e f. e OR f),
        pte_clear_flags = (\<lambda>e f. e AND NOT f), PAGE_PRESENT = 1, PAGE_PROTNONE = 256\<rparr>,
      ee_mm = Some 0, ee_kmalloc = Some 4096, ee_vmalloc = Some 8192, ee_virt_to_phys = id, ee_pa = id\<rparr>"

lemma ex8_stale_entry:
  "printed (fst (ex8_init demo_ex8)) = [4096, 1, 4096, 4096, 8192, 1, 8192, 8192]"
  "(let s = snd (ex8_init demo_ex8) in printed (fst (ex8b_init demo_ex8 (e8_virt s) (e8_virt2 s)))) =
     [4096, 1, 4096, 4096, 8192, 0, 8192, 8192]"
  using ex8_init_prints [of demo_ex8 4096 8192] ex8b_init_prints [of demo_ex8 4096 8192]
  by (simp_all add: demo_ex8_def walk_result_def pte_kernel_at_def walk_to_pmd_def three_ways_def pte_word_def Let_def)

section \<open>The hook of hook.c\<close>

text \<open>The pointer to the entry is assigned to the parameter: the caller's variable stays null.\<close>

definition hook_follow_pte :: "('g, 'u, 'm) pt_api \<Rightarrow> pte_mem \<Rightarrow> nat \<Rightarrow> u64 \<Rightarrow> int" where
  "hook_follow_pte A M mm addr =
     (case walk_to_pmd A mm addr of Inl _ \<Rightarrow> - 2
      | Inr pmd \<Rightarrow> (case pte_offset_map A pmd addr of None \<Rightarrow> - 2
                    | Some p \<Rightarrow> if pte_present A (M p) then 1 else - 1))"

text \<open>\<open>watched\<close> is the module parameter \<open>pid\<close>; the count \<open>wss_size\<close> is unchanged where it returns.\<close>

definition hook_page_check :: "('g, 'u, 'm) pt_api \<Rightarrow> pte_mem \<Rightarrow> int \<Rightarrow> nat \<Rightarrow> u64 \<Rightarrow> int \<Rightarrow> crash + int" where
  "hook_page_check A M watched mm addr pidd =
     (if watched = pidd \<and> hook_follow_pte A M mm addr = 1 then Inl NullDeref else Inr 0)"

lemma hook_page_check_crashes:
  "hook_page_check A M pid mm addr pid = Inl NullDeref \<longleftrightarrow> resident A M mm addr"
  by (auto simp: hook_page_check_def hook_follow_pte_def resident_def pte_map_at_def split: sum.splits option.splits)

end
