(* ===== verification/Kernel_Strings.thy ===== *)
theory Kernel_Strings
  imports Kernel_Prelude
begin

text \<open>
  Bytes and texts of the kernel's C library: \<open>strlen\<close>, \<open>sprintf\<close> and \<open>sscanf\<close> with
  \<open>%d\<close>, \<open>memcpy\<close>, and the round trip of the two conversions of an integer. A buffer of
  characters is a list of 8-bit words, a text that is only printed a HOL string.
\<close>

section \<open>Buffers\<close>

type_synonym byte = "8 word"

text \<open>\<open>strlen\<close> of a buffer: reading past its end is out of bounds.\<close>

fun strlen :: "byte list \<Rightarrow> crash + nat" where
  "strlen [] = Inl OutOfBounds"
| "strlen (b # bs) = (if b = 0 then Inr 0 else bindC (strlen bs) (\<lambda>n. Inr (Suc n)))"

text \<open>The bytes of a text and back.\<close>

definition bytes_of :: "string \<Rightarrow> byte list" where
  "bytes_of cs = map of_char cs"

definition text_of :: "byte list \<Rightarrow> string" where
  "text_of bs = map (\<lambda>b. char_of (unat b)) bs"

lemma length_bytes_of [simp]: "length (bytes_of cs) = length cs"
  by (simp add: bytes_of_def)

lemma unat_of_char: "unat (of_char c :: byte) = of_char c"
proof -
  have "(of_char c :: byte) = of_nat (of_char c)" by (simp only: of_nat_of_char)
  moreover have "of_char c < (2 :: nat) ^ LENGTH(8)" using nat_of_char_less_256 [of c] by simp
  ultimately show ?thesis by (simp only: unat_of_nat mod_less)
qed

lemma text_of_bytes_of [simp]: "text_of (bytes_of cs) = cs"
  by (simp add: text_of_def bytes_of_def unat_of_char map_idI)

lemma text_of_append [simp]: "text_of (xs @ ys) = text_of xs @ text_of ys"
  by (simp add: text_of_def)

lemma strlen_text: "0 \<notin> set xs \<Longrightarrow> strlen (xs @ 0 # ys) = Inr (length xs)"
  by (induction xs) auto

text \<open>The first \<open>n\<close> bytes of a string literal, which ends with one zero byte.\<close>

definition literal :: "string \<Rightarrow> nat \<Rightarrow> crash + byte list" where
  "literal txt n = (if n \<le> length txt + 1 then Inr (take n (bytes_of txt @ [0])) else Inl OutOfBounds)"

section \<open>Printing\<close>

text \<open>\<open>%d\<close>.\<close>

fun nat_str :: "nat \<Rightarrow> string" where
  "nat_str n = (if n < 10 then [''0123456789'' ! n] else nat_str (n div 10) @ [''0123456789'' ! (n mod 10)])"

declare nat_str.simps [simp del]

definition int_str :: "int \<Rightarrow> string" where
  "int_str i = (if i < 0 then ''-'' @ nat_str (nat (- i)) else nat_str (nat i))"

lemma nat_str_length: "n < 10 ^ k \<Longrightarrow> 0 < k \<Longrightarrow> length (nat_str n) \<le> k"
proof (induction n arbitrary: k rule: nat_str.induct)
  case (1 n)
  show ?case
  proof (cases "n < 10")
    case False
    have "k \<noteq> 1" using 1(2) False by auto
    then obtain j where j: "k = Suc j" "0 < j"
      using 1(3) by (cases k) auto
    then have "n div 10 < 10 ^ j" using 1 by (simp add: div_less_iff_less_mult mult.commute)
    with 1(1) [OF False _ j(2)] j False show ?thesis by (simp add: nat_str.simps [of n])
  qed (use 1 in \<open>simp add: nat_str.simps [of n]\<close>)
qed

lemma nat_str_length_ge: "10 ^ k \<le> n \<Longrightarrow> Suc k \<le> length (nat_str n)"
proof (induction n arbitrary: k rule: nat_str.induct)
  case (1 n)
  show ?case
  proof (cases k)
    case 0
    then show ?thesis by (simp add: nat_str.simps [of n])
  next
    case (Suc j)
    have "(10 :: nat) \<le> 10 ^ k" using Suc by simp
    with 1(2) have "\<not> n < 10" by linarith
    moreover have "10 ^ j \<le> n div 10" using 1(2) Suc by (auto simp: less_eq_div_iff_mult_less_eq mult.commute)
    ultimately show ?thesis using 1(1) [of j] Suc by (simp add: nat_str.simps [of n])
  qed
qed

text \<open>\<open>sprintf\<close> into a buffer of \<open>size\<close> bytes: the text and its final zero byte.\<close>

definition sprintf_to :: "nat \<Rightarrow> string \<Rightarrow> crash + string" where
  "sprintf_to bsize txt = (if length txt + 1 \<le> bsize then Inr txt else Inl OutOfBounds)"

definition nl :: string where "nl = [CHR 0x0A]"

section \<open>Reading a number\<close>

text \<open>
  \<open>sscanf(buf, "%d", &v)\<close> skips white space, takes a sign and needs a digit, else it assigns
  nothing; what follows \<open>%d\<close> in the format cannot undo the assignment. The conversion is
  modulo a power of two of the width of \<open>v\<close>, so it is an integer here and the caller
  truncates it.
\<close>

definition is_space :: "char \<Rightarrow> bool" where
  "is_space c = (c \<in> {CHR 0x20, CHR 0x09, CHR 0x0A, CHR 0x0B, CHR 0x0C, CHR 0x0D, CHR 0xA0})"

definition is_digit :: "char \<Rightarrow> bool" where
  "is_digit c = (48 \<le> (of_char c :: nat) \<and> (of_char c :: nat) \<le> 57)"

fun scan_digits :: "nat \<Rightarrow> string \<Rightarrow> nat" where
  "scan_digits n [] = n"
| "scan_digits n (c # cs) = (if is_digit c then scan_digits (10 * n + (of_char c - 48)) cs else n)"

definition scan_d :: "string \<Rightarrow> int option" where
  "scan_d buf =
     (let s = dropWhile is_space buf;
          neg = (case s of [] \<Rightarrow> False | c # _ \<Rightarrow> c = CHR ''-'');
          t = (if neg then tl s else s)
      in if t = [] \<or> \<not> is_digit (hd t) then None
         else Some ((if neg then - 1 else 1) * int (scan_digits 0 t)))"

text \<open>\<open>sscanf(buf, "%s", s)\<close>: the first word; of an empty text nothing is assigned.\<close>

definition scan_s :: "string \<Rightarrow> string option" where
  "scan_s buf = (if buf = [] then None else Some (takeWhile (\<lambda>c. \<not> is_space c) (dropWhile is_space buf)))"

lemma digit_char:
  assumes "k < 10"
  shows "is_digit (''0123456789'' ! k)" "\<not> is_space (''0123456789'' ! k)"
    "of_char (''0123456789'' ! k) - (48 :: nat) = k" "''0123456789'' ! k \<noteq> CHR ''-''"
proof -
  have "k \<in> {0, 1, 2, 3, 4, 5, 6, 7, 8, 9}" using assms by auto
  then show "is_digit (''0123456789'' ! k)" "\<not> is_space (''0123456789'' ! k)"
    "of_char (''0123456789'' ! k) - (48 :: nat) = k" "''0123456789'' ! k \<noteq> CHR ''-''"
    by (auto simp: is_digit_def is_space_def)
qed

lemma nat_str_head: "\<exists>k cs. k < 10 \<and> nat_str n = (''0123456789'' ! k) # cs"
proof (induction n rule: nat_str.induct)
  case (1 n)
  show ?case
  proof (cases "n < 10")
    case False
    with 1 obtain k cs where "k < 10" "nat_str (n div 10) = (''0123456789'' ! k) # cs" by blast
    then show ?thesis using False by (auto simp: nat_str.simps [of n])
  qed (auto simp: nat_str.simps [of n])
qed

lemma scan_digits_nat_str:
  "scan_digits m (nat_str n @ cs) = scan_digits (m * 10 ^ length (nat_str n) + n) cs"
proof (induction n arbitrary: m cs rule: nat_str.induct)
  case (1 n)
  show ?case
  proof (cases "n < 10")
    case True
    then show ?thesis by (simp add: nat_str.simps [of n] digit_char mult.commute)
  next
    case False
    let ?d = "''0123456789'' ! (n mod 10)"
    have "nat_str n = nat_str (n div 10) @ [?d]" using False by (simp add: nat_str.simps [of n])
    then show ?thesis
      using 1 [OF False, of m "?d # cs"] by (simp add: digit_char algebra_simps)
  qed
qed

text \<open>What \<open>%d\<close> prints, \<open>%d\<close> reads back, if no digit follows.\<close>

lemma scan_d_int_str:
  assumes "cs = [] \<or> \<not> is_digit (hd cs)"
  shows "scan_d (int_str i @ cs) = Some i"
proof -
  have rest: "scan_digits n cs = n" for n using assms by (cases cs) auto
  obtain k ds where k: "k < 10" "nat_str (nat \<bar>i\<bar>) = (''0123456789'' ! k) # ds" using nat_str_head by blast
  have v: "scan_digits 0 ((''0123456789'' ! k) # ds @ cs) = nat \<bar>i\<bar>"
    using scan_digits_nat_str [of 0 "nat \<bar>i\<bar>" cs] by (simp add: k(2) rest)
  have p: "int_str i = (if i < 0 then CHR ''-'' # (''0123456789'' ! k) # ds else (''0123456789'' ! k) # ds)"
    using k(2) by (auto simp: int_str_def)
  have minus: "\<not> is_space (CHR ''-'')" by (simp add: is_space_def)
  show ?thesis
    using digit_char [OF k(1)] v minus
    by (simp add: scan_d_def p del: scan_digits.simps)
qed

end
