(* ===== verification/Fifo_Modules.thy ===== *)
theory Fifo_Modules
  imports Page_Tables Kernel_Strings
begin

text \<open>
  The producer/consumer modules on a \<open>kfifo\<close>: \<^verbatim>\<open>fifo.c\<close>, \<^verbatim>\<open>fifo7.c\<close>--\<^verbatim>\<open>fifo13.c\<close> and
  \<^verbatim>\<open>prod_cons.c\<close> list the processes through a fifo of pids, \<^verbatim>\<open>intfifo.c\<close> and \<^verbatim>\<open>kfifo.c\<close> test a fifo and
  export it as a \<^verbatim>\<open>/proc\<close> file. The fifo itself is the kernel's: its operations are the fields
  of a parameter, and \<open>kfifo_ok\<close> states their documented behaviour.
\<close>

section \<open>The kernel's fifo\<close>

record ('f, 'a) kfifo_api =
  kf_put :: "'a \<Rightarrow> 'f \<Rightarrow> bool \<times> 'f"
  kf_get :: "'f \<Rightarrow> ('a \<times> 'f) option"
  kf_peek :: "'f \<Rightarrow> 'a option"
  kf_len :: "'f \<Rightarrow> nat"
  kf_in :: "'a list \<Rightarrow> 'f \<Rightarrow> nat \<times> 'f"
  kf_out :: "nat \<Rightarrow> 'f \<Rightarrow> 'a list \<times> 'f"
  kf_skip :: "'f \<Rightarrow> 'f"

text \<open>
  \<open>queue\<close> is what the fifo holds, oldest first, and \<open>cap\<close> its size: \<open>kfifo_put\<close> and \<open>kfifo_in\<close>
  store what fits and say how much that was.
\<close>

definition kfifo_ok :: "('f, 'a) kfifo_api \<Rightarrow> ('f \<Rightarrow> 'a list) \<Rightarrow> nat \<Rightarrow> bool" where
  "kfifo_ok K queue cap \<longleftrightarrow>
     (\<forall>f. length (queue f) \<le> cap) \<and>
     (\<forall>x f. fst (kf_put K x f) = (length (queue f) < cap) \<and>
        queue (snd (kf_put K x f)) = (if length (queue f) < cap then queue f @ [x] else queue f)) \<and>
     (\<forall>f. (case kf_get K f of None \<Rightarrow> queue f = [] | Some (x, f') \<Rightarrow> queue f = x # queue f')) \<and>
     (\<forall>f. kf_peek K f = (case queue f of [] \<Rightarrow> None | x # _ \<Rightarrow> Some x)) \<and>
     (\<forall>f. kf_len K f = length (queue f)) \<and>
     (\<forall>xs f. fst (kf_in K xs f) = min (length xs) (cap - length (queue f)) \<and>
        queue (snd (kf_in K xs f)) = queue f @ take (cap - length (queue f)) xs) \<and>
     (\<forall>n f. fst (kf_out K n f) = take n (queue f) \<and> queue (snd (kf_out K n f)) = drop n (queue f)) \<and>
     (\<forall>f. queue (kf_skip K f) = tl (queue f))"

lemma kfifo_put:
  assumes "kfifo_ok K queue cap"
  shows "fst (kf_put K x f) = (length (queue f) < cap)"
    "queue (snd (kf_put K x f)) = (if length (queue f) < cap then queue f @ [x] else queue f)"
  using assms by (simp_all add: kfifo_ok_def)

lemma kfifo_get:
  assumes "kfifo_ok K queue cap"
  shows "queue f = [] \<Longrightarrow> kf_get K f = None"
    "queue f = x # xs \<Longrightarrow> \<exists>f'. kf_get K f = Some (x, f') \<and> queue f' = xs"
proof -
  have "case kf_get K f of None \<Rightarrow> queue f = [] | Some (x, f') \<Rightarrow> queue f = x # queue f'"
    using assms by (simp add: kfifo_ok_def)
  then show "queue f = [] \<Longrightarrow> kf_get K f = None"
    "queue f = x # xs \<Longrightarrow> \<exists>f'. kf_get K f = Some (x, f') \<and> queue f' = xs"
    by (cases "kf_get K f"; auto)+
qed

lemma kfifo_rest:
  assumes "kfifo_ok K queue cap"
  shows "kf_peek K f = (case queue f of [] \<Rightarrow> None | x # _ \<Rightarrow> Some x)" "kf_len K f = length (queue f)"
    "length (queue f) \<le> cap"
    "fst (kf_in K xs f) = min (length xs) (cap - length (queue f))"
    "queue (snd (kf_in K xs f)) = queue f @ take (cap - length (queue f)) xs"
    "fst (kf_out K n f) = take n (queue f)" "queue (snd (kf_out K n f)) = drop n (queue f)"
    "queue (kf_skip K f) = tl (queue f)"
  using assms by (simp_all add: kfifo_ok_def)

text \<open>The fifo of the witnesses: a list no longer than the capacity.\<close>

definition list_kfifo :: "nat \<Rightarrow> ('a list, 'a) kfifo_api" where
  "list_kfifo cap =
     \<lparr>kf_put = (\<lambda>x f. if length (take cap f) < cap then (True, take cap f @ [x]) else (False, f)),
      kf_get = (\<lambda>f. case take cap f of [] \<Rightarrow> None | x # xs \<Rightarrow> Some (x, xs)),
      kf_peek = (\<lambda>f. case take cap f of [] \<Rightarrow> None | x # _ \<Rightarrow> Some x),
      kf_len = (\<lambda>f. length (take cap f)),
      kf_in = (\<lambda>xs f. (min (length xs) (cap - length (take cap f)),
                        take cap f @ take (cap - length (take cap f)) xs)),
      kf_out = (\<lambda>n f. (take n (take cap f), drop n (take cap f))),
      kf_skip = (\<lambda>f. tl (take cap f))\<rparr>"

lemma list_kfifo_ok: "kfifo_ok (list_kfifo cap) (take cap) cap"
proof -
  have fit: "take cap xs = xs" if "length xs \<le> cap" for xs :: "'a list"
    using that by simp
  have tails: "take cap (tl (take cap f)) = tl (take cap f)" "take cap (drop n (take cap f)) = drop n (take cap f)"
    for f :: "'a list" and n
    by (rule fit, simp)+
  have get: "case (case take cap f of [] \<Rightarrow> None | x # xs \<Rightarrow> Some (x, xs)) of None \<Rightarrow> take cap f = []
      | Some (x, f') \<Rightarrow> take cap f = x # take cap f'" for f :: "'a list"
    using tails(1) [of f] by (cases "take cap f") auto
  have "take cap (take cap f @ ys) = take cap f @ take (cap - length (take cap f)) ys" for f ys :: "'a list"
    by (simp add: min_def)
  then show ?thesis
    unfolding kfifo_ok_def list_kfifo_def
    using get tails by (auto simp: min_def split del: if_split split: if_splits)
qed

section \<open>Reading a fifo until it is empty\<close>

text \<open>
  \<^verbatim>\<open>while (kfifo_get(&test, &i)) body(i)\<close>. The fifo is a parameter, so the loop is partial:
  \<open>None\<close> where it never ends.
\<close>

partial_function (option) drain ::
  "('f, 'a) kfifo_api \<Rightarrow> ('a \<Rightarrow> 's \<Rightarrow> 'r + 's) \<Rightarrow> 'f \<Rightarrow> 's \<Rightarrow> ('r + 'f \<times> 's) option"
where
  "drain K body f s =
     (case kf_get K f of
        None \<Rightarrow> Some (Inr (f, s))
      | Some (x, f') \<Rightarrow> (case body x s of Inl r \<Rightarrow> Some (Inl r) | Inr s' \<Rightarrow> drain K body f' s'))"

lemma drain_fold:
  assumes "kfifo_ok K queue cap"
  shows "\<exists>r. drain K body f s = Some r \<and>
    (case r of Inl e \<Rightarrow> fold_exit body (queue f) s = Inl e
     | Inr (f', s') \<Rightarrow> fold_exit body (queue f) s = Inr s' \<and> queue f' = [])"
proof (induction "queue f" arbitrary: f s)
  case Nil
  then show ?case
    using kfifo_get(1) [OF assms, of f] by (simp add: drain.simps [of K body f])
next
  case (Cons x xs)
  obtain f' where f': "kf_get K f = Some (x, f')" "queue f' = xs"
    using kfifo_get(2) [OF assms] Cons.hyps(2) [symmetric] by blast
  show ?case
  proof (cases "body x s")
    case (Inl e)
    then show ?thesis using f' by (simp add: drain.simps [of K body f] Cons.hyps(2) [symmetric])
  next
    case (Inr s')
    have eq: "fold_exit body (queue f) s = fold_exit body (queue f') s'"
      using Inr f'(2) by (simp add: Cons.hyps(2) [symmetric])
    show ?thesis
      unfolding eq using Cons.hyps(1) [OF f'(2) [symmetric], of s'] Inr f'(1)
      by (simp add: drain.simps [of K body f])
  qed
qed

lemma drain_ok:
  assumes "kfifo_ok K queue cap" "fold_exit body (queue f) s = Inr s'"
  shows "\<exists>f'. drain K body f s = Some (Inr (f', s')) \<and> queue f' = []"
proof -
  obtain r where r: "drain K body f s = Some r" "case r of Inl e \<Rightarrow> fold_exit body (queue f) s = Inl e
     | Inr (f', s') \<Rightarrow> fold_exit body (queue f) s = Inr s' \<and> queue f' = []"
    using drain_fold [OF assms(1)] by metis
  with assms(2) show ?thesis by (cases r) auto
qed

lemma drain_exit:
  assumes "kfifo_ok K queue cap" "fold_exit body (queue f) s = Inl e"
  shows "drain K body f s = Some (Inl e)"
proof -
  obtain r where r: "drain K body f s = Some r" "case r of Inl e \<Rightarrow> fold_exit body (queue f) s = Inl e
     | Inr (f', s') \<Rightarrow> fold_exit body (queue f) s = Inr s' \<and> queue f' = []"
    using drain_fold [OF assms(1)] by metis
  with assms(2) show ?thesis by (cases r) auto
qed

text \<open>Whatever the fifo does: what each round of the loop keeps, the loop keeps.\<close>

lemma drain_keeps:
  fixes K :: "('f, 'a) kfifo_api" and body :: "'a \<Rightarrow> 's \<Rightarrow> 'r + 's"
  assumes "drain K body f s = Some (Inr (q, s'))" "\<And>x s s'. body x s = Inr s' \<Longrightarrow> g s' = g s"
  shows "g s' = g s"
proof -
  have "(\<forall>x s s'. body x s = Inr s' \<longrightarrow> g s' = g s) \<longrightarrow> (\<forall>q s'. r = Inr (q, s') \<longrightarrow> g s' = g s)"
    if "drain K body f s = Some r" for r
  proof (rule drain.raw_induct [of "\<lambda>K body f s r. (\<forall>x s s'. body x s = Inr s' \<longrightarrow> g s' = g s) \<longrightarrow>
        (\<forall>q s'. r = Inr (q, s') \<longrightarrow> g s' = g s)", OF _ that])
    fix rec :: "('f, 'a) kfifo_api \<Rightarrow> ('a \<Rightarrow> 's \<Rightarrow> 'r + 's) \<Rightarrow> 'f \<Rightarrow> 's \<Rightarrow> ('r + 'f \<times> 's) option"
      and K :: "('f, 'a) kfifo_api" and body :: "'a \<Rightarrow> 's \<Rightarrow> 'r + 's" and f s r
    assume IH: "\<And>K body f s r. rec K body f s = Some r \<Longrightarrow>
        (\<forall>x s s'. body x s = Inr s' \<longrightarrow> g s' = g s) \<longrightarrow> (\<forall>q s'. r = Inr (q, s') \<longrightarrow> g s' = g s)"
      and step: "(case kf_get K f of None \<Rightarrow> Some (Inr (f, s))
        | Some (x, f') \<Rightarrow> (case body x s of Inl r \<Rightarrow> Some (Inl r) | Inr s' \<Rightarrow> rec K body f' s')) = Some r"
    show "(\<forall>x s s'. body x s = Inr s' \<longrightarrow> g s' = g s) \<longrightarrow> (\<forall>q s'. r = Inr (q, s') \<longrightarrow> g s' = g s)"
    proof (cases "kf_get K f")
      case (Some a)
      obtain x f' where a: "a = (x, f')" by (cases a)
      show ?thesis
      proof (cases "body x s")
        case (Inr s')
        with step Some a have "rec K body f' s' = Some r" by simp
        from IH [OF this] Inr show ?thesis by metis
      qed (use step Some a in auto)
    qed (use step in auto)
  qed
  with assms show ?thesis by blast
qed

section \<open>Output\<close>

datatype out = Klog kmsg | Console string

record out_state =
  os_tty :: bool           \<comment> \<open>the loading process has a terminal\<close>
  os_out :: "out list"

definition emit :: "out \<Rightarrow> out_state \<Rightarrow> out_state" where
  "emit x st = st\<lparr>os_out := os_out st @ [x]\<rparr>"

definition console_msg :: "bool \<Rightarrow> string \<Rightarrow> out" where
  "console_msg tty txt = (if tty then Console txt else Klog (Printk ''tty is NULL '' []))"

definition console_output :: "string \<Rightarrow> out_state \<Rightarrow> out_state" where
  "console_output txt st = emit (console_msg (os_tty st) txt) st"

section \<open>Listing the processes\<close>

text \<open>
  The process list is circular; the model's list starts with \<open>init_task\<close>, which
  \<open>for_each_process\<close> leaves out.
\<close>

definition producer :: "('f, int) kfifo_api \<Rightarrow> task list \<Rightarrow> 'f \<Rightarrow> 'f" where
  "producer K ps f = fold (\<lambda>t f. snd (kf_put K (t_pid t) f)) (tl ps) f"

definition pid_body :: "nat \<Rightarrow> (int \<Rightarrow> string) \<Rightarrow> string \<Rightarrow> int \<Rightarrow> out_state \<Rightarrow> crash + out_state" where
  "pid_body bsize line fmt i st =
     (let st = emit (Klog (Printk fmt [KInt i])) st
      in bindC (sprintf_to bsize (line i)) (\<lambda>buffer. Inr (console_output buffer st)))"

definition peek_first :: "('f, int) kfifo_api \<Rightarrow> 'f \<Rightarrow> out_state \<Rightarrow> out_state" where
  "peek_first K f st = (case kf_peek K f of None \<Rightarrow> st | Some i \<Rightarrow> emit (Klog (Printk ''%d '' [KInt i])) st)"

definition fifo_consumer ::
  "('f, int) kfifo_api \<Rightarrow> nat \<Rightarrow> (int \<Rightarrow> string) \<Rightarrow> 'f \<Rightarrow> out_state \<Rightarrow> (crash + 'f \<times> out_state) option"
where
  "fifo_consumer K bsize line f st = drain K (pid_body bsize line ''pid = %d '') f (peek_first K f st)"

definition pid_line :: "int \<Rightarrow> string" where
  "pid_line i = ''pid = '' @ int_str i @ '' '' @ nl"

definition fifo_init :: "('f, int) kfifo_api \<Rightarrow> task list \<Rightarrow> 'f \<Rightarrow> out_state \<Rightarrow> (crash + 'f \<times> out_state) option" where
  "fifo_init K ps f st = fifo_consumer K 50 pid_line (producer K ps f) st"

definition fifo7_init :: "('f, int) kfifo_api \<Rightarrow> task list \<Rightarrow> 'f \<Rightarrow> out_state \<Rightarrow> (crash + 'f \<times> out_state) option" where
  "fifo7_init K ps f st = fifo_consumer K 20 (\<lambda>i. ''pid = '' @ int_str i @ '' '') (producer K ps f) st"

definition fifo8_init :: "('f, int) kfifo_api \<Rightarrow> task list \<Rightarrow> 'f \<Rightarrow> out_state \<Rightarrow> (crash + 'f \<times> out_state) option" where
  "fifo8_init K ps f st = fifo_consumer K 20 pid_line (producer K ps f) st"

section \<open>Walking the process list beside the fifo\<close>

text \<open>\<open>Wild\<close> is the address 1, which the assignments of \<^verbatim>\<open>fifo9.c\<close>, \<^verbatim>\<open>fifo10.c\<close> and \<^verbatim>\<open>fifo12.c\<close> produce.\<close>

datatype task_ptr = Null_task | Wild | Task_at nat

fun task_pid :: "task list \<Rightarrow> task_ptr \<Rightarrow> crash + int" where
  "task_pid ps (Task_at k) = Inr (t_pid (ps ! k))"
| "task_pid ps _ = Inl NullDeref"

fun next_task :: "task list \<Rightarrow> task_ptr \<Rightarrow> crash + task_ptr" where
  "next_task ps (Task_at k) = Inr (Task_at (Suc k mod length ps))"
| "next_task ps _ = Inl NullDeref"

definition task_line :: "int \<Rightarrow> string" where
  "task_line i = ''task->pid is '' @ int_str i @ nl"

definition pair_body ::
  "task list \<Rightarrow> (task_ptr \<times> nat \<Rightarrow> crash + task_ptr \<times> nat) \<Rightarrow> int \<Rightarrow> out_state \<times> task_ptr \<times> nat \<Rightarrow>
     crash + out_state \<times> task_ptr \<times> nat"
where
  "pair_body ps advance i s =
     (let (st, ts, flag) = s in
      bindC (pid_body 20 pid_line ''pid = %d   '' i st) (\<lambda>st.
      bindC (task_pid ps ts) (\<lambda>pid.
      bindC (sprintf_to 20 (task_line pid)) (\<lambda>buffer.
      bindC (advance (ts, flag)) (\<lambda>r. Inr (console_output buffer st, r))))))"

definition pair_init ::
  "('f, int) kfifo_api \<Rightarrow> task list \<Rightarrow> (int option \<Rightarrow> task_ptr) \<Rightarrow> (task_ptr \<times> nat \<Rightarrow> crash + task_ptr \<times> nat) \<Rightarrow>
     'f \<Rightarrow> out_state \<Rightarrow> (crash + 'f \<times> out_state \<times> task_ptr \<times> nat) option"
where
  "pair_init K ps first advance f st =
     (let f = producer K ps f
      in drain K (pair_body ps advance) f (peek_first K f st, first (kf_peek K f), 0))"

text \<open>\<open>ts=next_task(ts)\<close>.\<close>

definition advance_next :: "task list \<Rightarrow> task_ptr \<times> nat \<Rightarrow> crash + task_ptr \<times> nat" where
  "advance_next ps r = bindC (next_task ps (fst r)) (\<lambda>ts. Inr (ts, snd r))"

text \<open>\<open>if(tsk=next_task(ts) != &init_task) ts=tsk;\<close> where \<open>!=\<close> binds tighter than \<open>=\<close>.\<close>

definition advance_cmp :: "task list \<Rightarrow> task_ptr \<times> nat \<Rightarrow> crash + task_ptr \<times> nat" where
  "advance_cmp ps r =
     bindC (next_task ps (fst r)) (\<lambda>n.
       let tsk = (if n \<noteq> Task_at 0 then Wild else Null_task)
       in Inr (if tsk \<noteq> Null_task then tsk else fst r, snd r))"

text \<open>\<^verbatim>\<open>fifo12.c\<close> adds \<open>if(!flag_first++) ts=tsk;\<close>.\<close>

definition advance_first :: "task list \<Rightarrow> task_ptr \<times> nat \<Rightarrow> crash + task_ptr \<times> nat" where
  "advance_first ps r =
     bindC (next_task ps (fst r)) (\<lambda>n.
       let tsk = (if n \<noteq> Task_at 0 then Wild else Null_task);
           ts = (if tsk \<noteq> Null_task then tsk else fst r)
       in Inr (if snd r = 0 then tsk else ts, snd r + 1))"

fun index_of :: "int \<Rightarrow> nat \<Rightarrow> task list \<Rightarrow> task_ptr" where
  "index_of pid k [] = Null_task"
| "index_of pid k (t # ts) = (if t_pid t = pid then Task_at k else index_of pid (Suc k) ts)"

definition fifo9_init where
  "fifo9_init K ps = pair_init K ps
     (\<lambda>i. case i of None \<Rightarrow> Null_task | Some i \<Rightarrow> index_of i 0 ps) (advance_cmp ps)"

definition fifo10_init where
  "fifo10_init K ps = pair_init K ps (\<lambda>_. Task_at 0) (advance_cmp ps)"

definition fifo11_init where
  "fifo11_init K ps = pair_init K ps (\<lambda>_. Task_at 0) (advance_next ps)"

definition fifo12_init where
  "fifo12_init K ps = pair_init K ps (\<lambda>_. Task_at 0) (advance_first ps)"

definition fifo13_init where
  "fifo13_init K ps = pair_init K ps (\<lambda>_. Task_at (1 mod length ps)) (advance_next ps)"

section \<open>What the listings print\<close>

lemma int_str_length:
  assumes "0 \<le> i" "i < 2 ^ 31"
  shows "length (int_str i) \<le> 10" "length (int_str i) \<le> 5 \<longleftrightarrow> i < 100000"
proof -
  have "nat i < 10 ^ 10" using assms by simp
  then show "length (int_str i) \<le> 10" using assms(1) nat_str_length [of "nat i" 10] by (simp add: int_str_def)
  show "length (int_str i) \<le> 5 \<longleftrightarrow> i < 100000"
  proof (cases "i < 100000")
    case True
    then have "nat i < 10 ^ 5" by simp
    from nat_str_length [OF this] True assms(1) show ?thesis by (simp add: int_str_def)
  next
    case False
    then have "10 ^ 5 \<le> nat i" by simp
    from nat_str_length_ge [OF this] False assms(1) show ?thesis by (simp add: int_str_def)
  qed
qed

definition pids_ok :: "task list \<Rightarrow> bool" where
  "pids_ok ps \<longleftrightarrow> (\<forall>t \<in> set ps. 0 \<le> t_pid t \<and> t_pid t < 2 ^ 31)"

lemma line_lengths:
  assumes "0 \<le> i" "i < 2 ^ 31"
  shows "length (pid_line i) < 20" "length (task_line i) < 20 \<longleftrightarrow> i < 100000"
  using int_str_length [OF assms] by (auto simp: pid_line_def task_line_def nl_def)

lemma emit_simps [simp]:
  "os_out (emit x st) = os_out st @ [x]" "os_tty (emit x st) = os_tty st"
  "emit y (emit x st) = st\<lparr>os_out := os_out st @ [x, y]\<rparr>"
  by (simp_all add: emit_def)

definition pid_msgs :: "(int \<Rightarrow> string) \<Rightarrow> string \<Rightarrow> bool \<Rightarrow> int \<Rightarrow> out list" where
  "pid_msgs line fmt tty i = [Klog (Printk fmt [KInt i]), console_msg tty (line i)]"

lemma pid_body_ok:
  "length (line i) < bsize \<Longrightarrow>
    pid_body bsize line fmt i st = Inr (st\<lparr>os_out := os_out st @ pid_msgs line fmt (os_tty st) i\<rparr>)"
  by (simp add: pid_body_def sprintf_to_def console_output_def pid_msgs_def Let_def)

lemma pid_fold:
  assumes "\<And>i. i \<in> set xs \<Longrightarrow> length (line i) < bsize"
  shows "fold_exit (pid_body bsize line fmt) xs st =
    Inr (st\<lparr>os_out := os_out st @ concat (map (pid_msgs line fmt (os_tty st)) xs)\<rparr>)"
  using assms by (induction xs arbitrary: st) (simp_all add: pid_body_ok)

lemma fold_put:
  assumes "kfifo_ok K queue cap"
  shows "queue (fold (\<lambda>t f. snd (kf_put K (g t) f)) ts f) = queue f @ take (cap - length (queue f)) (map g ts)"
  using kfifo_rest(3) [OF assms, of f]
  by (induction ts arbitrary: f)
    (auto simp: kfifo_put [OF assms] kfifo_rest(3) [OF assms] take_Cons' Suc_diff_Suc)

lemma producer_queue:
  assumes "kfifo_ok K queue cap" "queue f = []"
  shows "queue (producer K ps f) = take cap (map t_pid (tl ps))"
  by (simp add: producer_def fold_put [OF assms(1)] assms(2))

definition first_msg :: "int list \<Rightarrow> out list" where
  "first_msg xs = (case xs of [] \<Rightarrow> [] | i # _ \<Rightarrow> [Klog (Printk ''%d '' [KInt i])])"

lemma peek_first_out:
  assumes "kfifo_ok K queue cap"
  shows "peek_first K f st = st\<lparr>os_out := os_out st @ first_msg (queue f)\<rparr>"
  by (auto simp: peek_first_def kfifo_rest(1) [OF assms] first_msg_def emit_def split: list.split)

text \<open> \<^verbatim>\<open>fifo.c\<close> ends and prints, in the order of the process list, one line for each of the first 4096
  processes (the fifo's size: later ones are dropped without a word), and leaves the fifo empty.\<close>

theorem fifo_lists_processes:
  assumes "kfifo_ok K queue 4096" "queue f = []" "pids_ok ps"
  shows "\<exists>f'. fifo_init K ps f st = Some (Inr (f', st\<lparr>os_out := os_out st @
      first_msg (take 4096 (map t_pid (tl ps))) @
      concat (map (pid_msgs pid_line ''pid = %d '' (os_tty st)) (take 4096 (map t_pid (tl ps))))\<rparr>)) \<and>
    queue f' = []"
proof -
  let ?xs = "take 4096 (map t_pid (tl ps))"
  let ?st = "st\<lparr>os_out := os_out st @ first_msg ?xs\<rparr>"
  note q = producer_queue [OF assms(1,2), of ps]
  have "length (pid_line i) < 50" if "i \<in> set ?xs" for i
  proof -
    from that obtain t where "t \<in> set ps" "i = t_pid t"
      by (auto dest!: in_set_takeD) (metis list.sel(2) list.set_sel(2))
    with assms(3) line_lengths(1) [of i] show ?thesis by (auto simp: pids_ok_def)
  qed
  from pid_fold [of ?xs pid_line 50, OF this]
  have "fold_exit (pid_body 50 pid_line ''pid = %d '') (queue (producer K ps f)) ?st =
      Inr (?st\<lparr>os_out := os_out ?st @ concat (map (pid_msgs pid_line ''pid = %d '' (os_tty ?st)) ?xs)\<rparr>)"
    unfolding q .
  from drain_ok [OF assms(1) this] show ?thesis
    by (simp add: fifo_init_def fifo_consumer_def peek_first_out [OF assms(1)] q)
qed


text \<open>Two processes and a terminal.\<close>

definition proc_list :: "task list" where
  "proc_list = map (\<lambda>p. \<lparr>t_pid = p, t_comm = ''x'', t_state = 0, t_on_cpu = 0, t_parent_pid = 0,
     t_min_flt = 0, t_start_time = 0, t_mm = None\<rparr>) [0, 1, 742]"

definition quiet_tty :: out_state where
  "quiet_tty = \<lparr>os_tty = True, os_out = []\<rparr>"

lemma proc_list_ok: "pids_ok proc_list"
  by (simp add: pids_ok_def proc_list_def)

theorem fifo_lists_processes_witness:
  "\<exists>f' st'. fifo_init (list_kfifo 4096) proc_list [] quiet_tty = Some (Inr (f', st')) \<and>
     os_out st' = [Klog (Printk ''%d '' [KInt 1]),
       Klog (Printk ''pid = %d '' [KInt 1]), Console (''pid = 1 '' @ nl),
       Klog (Printk ''pid = %d '' [KInt 742]), Console (''pid = 742 '' @ nl)]"
  using fifo_lists_processes [OF list_kfifo_ok _ proc_list_ok, of "[]" quiet_tty]
  by (auto simp: proc_list_def quiet_tty_def first_msg_def pid_msgs_def console_msg_def pid_line_def
      int_str_def nat_str.simps)

section \<open>The paired listings\<close>

definition pair_msgs :: "bool \<Rightarrow> int \<Rightarrow> int \<Rightarrow> out list" where
  "pair_msgs tty i p = pid_msgs pid_line ''pid = %d   '' tty i @ [console_msg tty (task_line p)]"

lemma sprintf_task:
  assumes "0 \<le> p" "p < 2 ^ 31"
  shows "sprintf_to 20 (task_line p) =
    (if p < 100000 then Inr (task_line p) else Inl OutOfBounds)"
  using line_lengths(2) [OF assms] unfolding sprintf_to_def by auto

lemma pair_body_next:
  assumes "0 \<le> i" "i < 2 ^ 31" "0 \<le> t_pid (ps ! k)" "t_pid (ps ! k) < 2 ^ 31"
  shows "pair_body ps (advance_next ps) i (st, Task_at k, n) =
    (if t_pid (ps ! k) < 100000
     then Inr (st\<lparr>os_out := os_out st @ pair_msgs (os_tty st) i (t_pid (ps ! k))\<rparr>, Task_at (Suc k mod length ps), n)
     else Inl OutOfBounds)"
  using line_lengths(1) [OF assms(1,2)]
  by (simp add: pair_body_def pid_body_ok sprintf_task [OF assms(3,4)] advance_next_def console_output_def
      pair_msgs_def emit_def)

lemma pair_fold:
  assumes "\<And>i. i \<in> set xs \<Longrightarrow> 0 \<le> i \<and> i < 2 ^ 31" "pids_ok ps" "k + length xs \<le> length ps"
  shows "if \<forall>j < length xs. t_pid (ps ! (k + j)) < 100000
    then \<exists>r. fold_exit (pair_body ps (advance_next ps)) xs (st, Task_at k, n) = Inr (st\<lparr>os_out := os_out st @
      concat (map (\<lambda>j. pair_msgs (os_tty st) (xs ! j) (t_pid (ps ! (k + j)))) [0..<length xs])\<rparr>, r)
    else fold_exit (pair_body ps (advance_next ps)) xs (st, Task_at k, n) = Inl OutOfBounds"
  using assms
proof (induction xs arbitrary: k st)
  case (Cons x xs)
  have k: "k < length ps" using Cons.prems(3) by simp
  then have pk: "0 \<le> t_pid (ps ! k)" "t_pid (ps ! k) < 2 ^ 31"
    using Cons.prems(2) by (auto simp: pids_ok_def)
  note step = pair_body_next [OF _ _ pk, of x st n]
  show ?case
  proof (cases "t_pid (ps ! k) < 100000")
    case False
    then show ?thesis using step Cons.prems(1) [of x] by (auto intro!: exI [of _ 0])
  next
    case True
    let ?st = "st\<lparr>os_out := os_out st @ pair_msgs (os_tty st) x (t_pid (ps ! k))\<rparr>"
    have all: "(\<forall>j < length (x # xs). t_pid (ps ! (k + j)) < 100000) \<longleftrightarrow>
        (\<forall>j < length xs. t_pid (ps ! (Suc k + j)) < 100000)"
      using True by (auto simp: All_less_Suc2)
    have out: "concat (map (\<lambda>j. pair_msgs t ((x # xs) ! j) (t_pid (ps ! (k + j)))) [0..<length (x # xs)]) =
        pair_msgs t x (t_pid (ps ! k)) @
        concat (map (\<lambda>j. pair_msgs t (xs ! j) (t_pid (ps ! (Suc k + j)))) [0..<length xs])" for t
      by (simp add: upt_conv_Cons map_Suc_upt [symmetric] o_def del: upt_Suc)
    show ?thesis
    proof (cases "xs = []")
      case True
      then show ?thesis using \<open>t_pid (ps ! k) < 100000\<close> step Cons.prems(1) [of x] by simp
    next
      case False
      then have "Suc k mod length ps = Suc k"
        using Cons.prems(3) by (cases xs) simp_all
      then have nx: "fold_exit (pair_body ps (advance_next ps)) (x # xs) (st, Task_at k, n) =
          fold_exit (pair_body ps (advance_next ps)) xs (?st, Task_at (Suc k), n)"
        using True step Cons.prems(1) [of x] by simp
      have pre: "\<And>i. i \<in> set xs \<Longrightarrow> 0 \<le> i \<and> i < 2 ^ 31" "Suc k + length xs \<le> length ps"
        using Cons.prems(1,3) by auto
      note IH = Cons.IH [OF pre(1) Cons.prems(2) pre(2), of ?st]
      show ?thesis
      proof (cases "\<forall>j < length xs. t_pid (ps ! (Suc k + j)) < 100000")
        case True
        then obtain r where "fold_exit (pair_body ps (advance_next ps)) xs (?st, Task_at (Suc k), n) =
            Inr (?st\<lparr>os_out := os_out ?st @
              concat (map (\<lambda>j. pair_msgs (os_tty ?st) (xs ! j) (t_pid (ps ! (Suc k + j)))) [0..<length xs])\<rparr>, r)"
          using IH by auto
        then show ?thesis unfolding nx all out using True by simp
      next
        case False
        with IH show ?thesis unfolding nx all by auto
      qed
    qed
  qed
qed simp


definition listed :: "nat \<Rightarrow> task list \<Rightarrow> nat" where
  "listed cap ps = min cap (length ps - 1)"

lemma pair_init_result:
  assumes "kfifo_ok K queue cap" "queue f = []" "pids_ok ps" "ps \<noteq> []" "first (kf_peek K (producer K ps f)) = Task_at k"
    and "k + listed cap ps \<le> length ps"
  shows "if \<forall>j < listed cap ps. t_pid (ps ! (k + j)) < 100000
    then \<exists>f' r. pair_init K ps first (advance_next ps) f st = Some (Inr (f', st\<lparr>os_out := os_out st @
        first_msg (take cap (map t_pid (tl ps))) @
        concat (map (\<lambda>j. pair_msgs (os_tty st) (t_pid (ps ! Suc j)) (t_pid (ps ! (k + j)))) [0..<listed cap ps])\<rparr>, r)) \<and>
      queue f' = []
    else pair_init K ps first (advance_next ps) f st = Some (Inl OutOfBounds)"
proof -
  let ?xs = "take cap (map t_pid (tl ps))"
  let ?st = "st\<lparr>os_out := os_out st @ first_msg ?xs\<rparr>"
  note q = producer_queue [OF assms(1,2), of ps]
  have len: "length ?xs = listed cap ps" by (simp add: listed_def)
  have nth: "?xs ! j = t_pid (ps ! Suc j)" if "j < listed cap ps" for j
    using that by (simp add: listed_def nth_tl)
  have rng: "0 \<le> i \<and> i < 2 ^ 31" if "i \<in> set ?xs" for i
    using that assms(3) by (auto simp: pids_ok_def dest!: in_set_takeD) (metis list.sel(2) list.set_sel(2))+
  have run: "pair_init K ps first (advance_next ps) f st =
      drain K (pair_body ps (advance_next ps)) (producer K ps f) (?st, Task_at k, 0)"
    by (simp add: pair_init_def peek_first_out [OF assms(1)] q assms(5) Let_def)
  have outs: "map (\<lambda>j. pair_msgs t (?xs ! j) (t_pid (ps ! (k + j)))) [0..<listed cap ps] =
      map (\<lambda>j. pair_msgs t (t_pid (ps ! Suc j)) (t_pid (ps ! (k + j)))) [0..<listed cap ps]" for t
    using nth by simp
  have fold: "if \<forall>j < listed cap ps. t_pid (ps ! (k + j)) < 100000
    then \<exists>r. fold_exit (pair_body ps (advance_next ps)) ?xs (?st, Task_at k, 0) = Inr (?st\<lparr>os_out := os_out ?st @
      concat (map (\<lambda>j. pair_msgs (os_tty ?st) (t_pid (ps ! Suc j)) (t_pid (ps ! (k + j)))) [0..<listed cap ps])\<rparr>, r)
    else fold_exit (pair_body ps (advance_next ps)) ?xs (?st, Task_at k, 0) = Inl OutOfBounds"
    using pair_fold [of ?xs ps k ?st 0, OF rng assms(3)] assms(6) unfolding len outs by blast
  show ?thesis
  proof (cases "\<forall>j < listed cap ps. t_pid (ps ! (k + j)) < 100000")
    case True
    with fold obtain r where "fold_exit (pair_body ps (advance_next ps)) (queue (producer K ps f)) (?st, Task_at k, 0) =
      Inr (?st\<lparr>os_out := os_out ?st @
        concat (map (\<lambda>j. pair_msgs (os_tty ?st) (t_pid (ps ! Suc j)) (t_pid (ps ! (k + j)))) [0..<listed cap ps])\<rparr>, r)"
      unfolding q by auto
    from drain_ok [OF assms(1) this] show ?thesis
      using True by (auto simp: run)
  next
    case False
    with fold have "fold_exit (pair_body ps (advance_next ps)) (queue (producer K ps f)) (?st, Task_at k, 0) = Inl OutOfBounds"
      unfolding q by auto
    from drain_exit [OF assms(1) this] False show ?thesis by (simp add: run)
  qed
qed

text \<open> \<^verbatim>\<open>fifo13.c\<close> (and its copy \<^verbatim>\<open>prod_cons.c\<close>) walks the process list beside the fifo: it ends and
  prints for each process the same pid from the fifo and from the list, unless a pid has six
  digits or more, when the text does not fit its buffer of 20 bytes. \<^verbatim>\<open>fifo11.c\<close>, which
  starts the walk at \<open>init_task\<close>, prints beside each pid that of the process before.\<close>

theorem paired_listings:
  assumes "kfifo_ok K queue cap" "queue f = []" "pids_ok ps" "1 < length ps" "0 < cap"
    and "\<forall>t \<in> set ps. t_pid t < 100000"
  shows "\<exists>f13 r13 f11 r11 head.
    fifo13_init K ps f st = Some (Inr (f13, st\<lparr>os_out := os_out st @ head @
      concat (map (\<lambda>j. pair_msgs (os_tty st) (t_pid (ps ! Suc j)) (t_pid (ps ! Suc j))) [0..<listed cap ps])\<rparr>, r13)) \<and>
    fifo11_init K ps f st = Some (Inr (f11, st\<lparr>os_out := os_out st @ head @
      concat (map (\<lambda>j. pair_msgs (os_tty st) (t_pid (ps ! Suc j)) (t_pid (ps ! j))) [0..<listed cap ps])\<rparr>, r11)) \<and>
    queue f13 = [] \<and> queue f11 = []"
proof -
  have ne: "ps \<noteq> []" and one: "1 mod length ps = 1" using assms(4) by auto
  have small: "t_pid (ps ! j) < 100000" if "j < length ps" for j using that assms(6) by auto
  have s1: "\<forall>j < listed cap ps. t_pid (ps ! (1 + j)) < 100000" and s0: "\<forall>j < listed cap ps. t_pid (ps ! (0 + j)) < 100000"
    using assms(4) by (auto simp: listed_def intro!: small)
  have l: "1 + listed cap ps \<le> length ps" "0 + listed cap ps \<le> length ps"
    using assms(4) by (auto simp: listed_def)
  have "\<exists>f' r. fifo13_init K ps f st = Some (Inr (f', st\<lparr>os_out := os_out st @ first_msg (take cap (map t_pid (tl ps))) @
      concat (map (\<lambda>j. pair_msgs (os_tty st) (t_pid (ps ! Suc j)) (t_pid (ps ! Suc j))) [0..<listed cap ps])\<rparr>, r)) \<and>
      queue f' = []"
    using pair_init_result [OF assms(1-3) ne _ l(1), of "\<lambda>_. Task_at (1 mod length ps)" st] s1 assms(4)
    by (simp add: fifo13_init_def)
  moreover have "\<exists>f' r. fifo11_init K ps f st = Some (Inr (f', st\<lparr>os_out := os_out st @ first_msg (take cap (map t_pid (tl ps))) @
      concat (map (\<lambda>j. pair_msgs (os_tty st) (t_pid (ps ! Suc j)) (t_pid (ps ! j))) [0..<listed cap ps])\<rparr>, r)) \<and>
      queue f' = []"
    using pair_init_result [OF assms(1-3) ne _ l(2), of "\<lambda>_. Task_at 0" st] s0
    by (simp add: fifo11_init_def)
  ultimately show ?thesis by blast
qed

theorem paired_listings_witness:
  "\<exists>f r st'. fifo11_init (list_kfifo 4096) proc_list [] quiet_tty = Some (Inr (f, st', r)) \<and>
     (\<exists>head. os_out st' = head @ pair_msgs True 1 0 @ pair_msgs True 742 1)"
proof -
  have h: "take 4096 ([] :: int list) = []" "1 < length proc_list" "(0::nat) < 4096"
    "\<forall>t \<in> set proc_list. t_pid t < 100000"
    by (simp_all add: proc_list_def)
  have l: "listed 4096 proc_list = 2" "t_pid (proc_list ! 0) = 0" "t_pid (proc_list ! Suc 0) = 1"
    "t_pid (proc_list ! Suc (Suc 0)) = 742"
    by (simp_all add: listed_def proc_list_def)
  from paired_listings [OF list_kfifo_ok h(1) proc_list_ok h(2-4), of quiet_tty]
  obtain f11 r11 head where "fifo11_init (list_kfifo 4096) proc_list [] quiet_tty =
      Some (Inr (f11, quiet_tty\<lparr>os_out := os_out quiet_tty @ head @
      concat (map (\<lambda>j. pair_msgs (os_tty quiet_tty) (t_pid (proc_list ! Suc j)) (t_pid (proc_list ! j)))
        [0..<listed 4096 proc_list])\<rparr>, r11))"
    by blast
  then show ?thesis
    by (auto simp: l quiet_tty_def numeral_2_eq_2)
qed

text \<open> With two processes or more, \<^verbatim>\<open>fifo10.c\<close> and \<^verbatim>\<open>fifo12.c\<close> crash at the second one: the address they
  read there is the truth value of a comparison.\<close>

theorem fifo10_fifo12_crash:
  assumes "kfifo_ok K queue cap" "queue f = []" "pids_ok ps" "2 < length ps" "2 \<le> cap"
    and "t_pid (ps ! 0) < 100000"
  shows "fifo10_init K ps f st = Some (Inl NullDeref) \<and> fifo12_init K ps f st = Some (Inl NullDeref)"
proof -
  obtain t0 t1 t2 ts where ps: "ps = t0 # t1 # t2 # ts"
    using assms(4) by (cases ps; cases "tl ps"; cases "tl (tl ps)") auto
  obtain c where c: "cap = Suc (Suc c)" using assms(5) by (metis add_2_eq_Suc le_Suc_ex)
  have q: "queue (producer K ps f) = t_pid t1 # t_pid t2 # take c (map t_pid ts)"
    by (simp add: producer_queue [OF assms(1,2)] ps c)
  have len: "length (pid_line (t_pid t1)) < 20" "length (pid_line (t_pid t2)) < 20"
    "sprintf_to 20 (task_line (t_pid t0)) = Inr (task_line (t_pid t0))"
    using assms(3,6) line_lengths(1) by (simp_all add: pids_ok_def ps sprintf_task)
  have crash: "fold_exit (pair_body ps adv) (queue (producer K ps f)) (st', Task_at 0, 0) = Inl NullDeref"
    if "\<exists>k. adv (Task_at 0, 0) = Inr (Wild, k)" for adv st'
    using that len unfolding q by (auto simp: pair_body_def pid_body_ok ps)
  have "\<exists>k. advance_cmp ps (Task_at 0, 0) = Inr (Wild, k)" "\<exists>k. advance_first ps (Task_at 0, 0) = Inr (Wild, k)"
    by (simp_all add: advance_cmp_def advance_first_def ps)
  then show ?thesis
    by (simp add: fifo10_init_def fifo12_init_def pair_init_def drain_exit [OF assms(1) crash] Let_def)
qed

theorem fifo10_fifo12_crash_witness:
  "fifo10_init (list_kfifo 4096) proc_list [] quiet_tty = Some (Inl NullDeref)"
  using fifo10_fifo12_crash [OF list_kfifo_ok _ proc_list_ok, of 4096 "[]" quiet_tty]
  by (simp add: proc_list_def)

section \<open>intfifo.c\<close>

definition expected_result :: "int list" where
  "expected_result = [3, 4, 5, 6, 7, 8, 9, 0, 1, 20, 21, 22, 23, 24, 25, 26, 27, 28, 29, 30, 31, 32, 33, 34,
     35, 36, 37, 38, 39, 40, 41, 42]"

text \<open>\<open>for (i = 20; kfifo_put(&test, i); i++);\<close>, which need not end on every fifo.\<close>

partial_function (option) fill :: "('f, int) kfifo_api \<Rightarrow> int \<Rightarrow> 'f \<Rightarrow> 'f option" where
  "fill K i f = (let (ok, f') = kf_put K i f in if ok then fill K (i + 1) f' else Some f')"

definition check_item ::
  "int \<Rightarrow> nat \<times> kmsg list \<Rightarrow> (crash + errno \<times> kmsg list) + nat \<times> kmsg list"
where
  "check_item i s =
     (let (j, l) = s; l = l @ [Printk ''item = %d'' [KInt i]] in
      if length expected_result \<le> j then Inl (Inl OutOfBounds)
      else if i \<noteq> expected_result ! j then Inl (Inr (- EIO, l @ [Printk ''value mismatch: test failed'' []]))
      else Inr (j + 1, l))"

definition intfifo_testfunc ::
  "('f, int) kfifo_api \<Rightarrow> 'f \<Rightarrow> (crash + 'f option \<times> errno \<times> kmsg list) option"
where
  "intfifo_testfunc K f =
     (let l = [Printk ''int fifo test start'' []];
          f = fold (\<lambda>i f. snd (kf_put K (int i) f)) [0..<10] f;
          l = l @ [Printk ''fifo len: %u'' [KInt (int (kf_len K f))]];
          (buf, f) = kf_out K 2 f;
          l = l @ [Printk ''ret: %d'' [KInt (int (length buf))]];
          (ret, f) = kf_in K buf f;
          l = l @ [Printk ''ret: %d'' [KInt (int ret)], Printk ''skip 1st element'' []];
          f = kf_skip K f
      in case fill K 20 f of
           None \<Rightarrow> None
         | Some f \<Rightarrow>
             let l = l @ [Printk ''queue len: %u'' [KInt (int (kf_len K f))]];
                 l = (case kf_peek K f of None \<Rightarrow> l | Some i \<Rightarrow> l @ [Printk ''%d'' [KInt i]])
             in (case drain K check_item f (0, l) of
                   None \<Rightarrow> None
                 | Some (Inl (Inl e)) \<Rightarrow> Some (Inl e)
                 | Some (Inl (Inr (err, l))) \<Rightarrow> Some (Inr (None, err, l))
                 | Some (Inr (f, j, l)) \<Rightarrow>
                     Some (if j \<noteq> length expected_result
                           then Inr (Some f, - EIO, l @ [Printk ''size mismatch: test failed'' []])
                           else Inr (Some f, 0, l @ [Printk ''test passed'' []]))))"

lemma fill_queue:
  assumes "kfifo_ok K queue cap"
  shows "\<exists>f'. fill K i f = Some f' \<and>
    queue f' = queue f @ map (\<lambda>k. i + int k) [0..<cap - length (queue f)]"
proof (induction "cap - length (queue f)" arbitrary: i f)
  case 0
  then have "\<not> length (queue f) < cap" using kfifo_rest(3) [OF assms, of f] by simp
  then show ?case
    using 0 kfifo_put [OF assms, of i f] by (subst fill.simps) (auto simp: Let_def split: prod.split)
next
  case (Suc n)
  then have room: "length (queue f) < cap" by simp
  obtain f1 where f1: "kf_put K i f = (True, f1)" "queue f1 = queue f @ [i]"
    using kfifo_put [OF assms, of i f] room by (metis prod.collapse)
  then have n: "n = cap - length (queue f1)" using Suc.hyps(2) by simp
  obtain f2 where f2: "fill K (i + 1) f1 = Some f2"
    "queue f2 = queue f1 @ map (\<lambda>k. i + 1 + int k) [0..<cap - length (queue f1)]"
    using Suc.hyps(1) [OF n] by blast
  have "[0..<cap - length (queue f)] = 0 # map Suc [0..<cap - length (queue f1)]"
    unfolding n [symmetric] Suc.hyps(2) [symmetric] by (simp add: map_Suc_upt upt_conv_Cons del: upt_Suc)
  then have "queue f2 = queue f @ map (\<lambda>k. i + int k) [0..<cap - length (queue f)]"
    using f2(2) f1(2) by (simp add: add.assoc)
  then show ?case using f1(1) f2(1) by (subst fill.simps) simp
qed

lemma check_fold:
  "expected_result = pre @ xs \<Longrightarrow>
    \<exists>l'. fold_exit check_item xs (length pre, l) = Inr (length expected_result, l')"
proof (induction xs arbitrary: pre l)
  case (Cons x xs)
  have "expected_result ! length pre = x" "length pre < length expected_result"
    unfolding Cons.prems by simp_all
  then have "check_item x (length pre, l) = Inr (length (pre @ [x]), l @ [Printk ''item = %d'' [KInt x]])"
    by (simp add: check_item_def Let_def)
  with Cons.IH [of "pre @ [x]"] Cons.prems show ?case by simp
qed simp

text \<open> On every fifo that keeps its contract and has room for 32 integers, the self test of
  \<^verbatim>\<open>intfifo.c\<close> ends, reports no mismatch, returns 0, and leaves the fifo empty.\<close>

theorem intfifo_testfunc_passes:
  assumes "kfifo_ok K queue 32" "queue f = []"
  shows "\<exists>f' l. intfifo_testfunc K f = Some (Inr (Some f', 0, l)) \<and> queue f' = []"
proof -
  define f1 where "f1 = fold (\<lambda>i f. snd (kf_put K (int i) f)) [0..<10] f"
  have q1: "queue f1 = [0, 1, 2, 3, 4, 5, 6, 7, 8, 9]"
    unfolding f1_def fold_put [OF assms(1)] assms(2) by (simp add: upt_conv_Cons)
  define f2 where "f2 = snd (kf_out K 2 f1)"
  have o2: "kf_out K 2 f1 = ([0, 1], f2)" and q2: "queue f2 = [2, 3, 4, 5, 6, 7, 8, 9]"
    using kfifo_rest(6,7) [OF assms(1), of 2 f1] q1 by (simp_all add: f2_def prod_eq_iff)
  define f3 where "f3 = snd (kf_in K [0, 1] f2)"
  have i3: "kf_in K [0, 1] f2 = (2, f3)" and q3: "queue f3 = [2, 3, 4, 5, 6, 7, 8, 9, 0, 1]"
    using kfifo_rest(4,5) [OF assms(1), of "[0, 1]" f2] q2 by (simp_all add: f3_def prod_eq_iff)
  have q4: "queue (kf_skip K f3) = [3, 4, 5, 6, 7, 8, 9, 0, 1]"
    by (simp add: kfifo_rest(8) [OF assms(1)] q3)
  obtain f5 where f5: "fill K 20 (kf_skip K f3) = Some f5" "queue f5 = expected_result"
    using fill_queue [OF assms(1), of 20 "kf_skip K f3"] by (auto simp: q4 expected_result_def upt_conv_Cons)
  have "\<exists>f' l'. drain K check_item f5 (0, l) = Some (Inr (f', length expected_result, l')) \<and> queue f' = []" for l
    using check_fold [of "[]" expected_result l] drain_ok [OF assms(1), of check_item f5 "(0, l)"] f5(2) by auto
  then obtain f' l' where "drain K check_item f5 (0, l) = Some (Inr (f' l, length expected_result, l' l))"
      "queue (f' l) = []" for l
    by metis
  then show ?thesis
    unfolding intfifo_testfunc_def Let_def f1_def [symmetric] o2 prod.case i3 f5(1) option.case
    by simp
qed

theorem intfifo_testfunc_passes_witness:
  "\<exists>f l. intfifo_testfunc (list_kfifo 32) [] = Some (Inr (Some f, 0, l))"
  using intfifo_testfunc_passes [OF list_kfifo_ok, of "[]"] by auto

section \<open>The /proc files of intfifo.c and kfifo.c\<close>

text \<open>
  \<open>fifo_write\<close> and \<open>fifo_read\<close>: \<open>locked\<close> tells whether \<open>mutex_lock_interruptible\<close> gets the
  mutex (else a signal came first); \<open>from_user\<close> and \<open>to_user\<close> are the fifo's copying operations,
  which return an error number and how much they moved.
\<close>

definition fifo_write :: "bool \<Rightarrow> ('f \<Rightarrow> (int \<times> nat) \<times> 'f) \<Rightarrow> 'f \<Rightarrow> int \<times> 'f" where
  "fifo_write locked from_user f =
     (if \<not> locked then (- ERESTARTSYS, f)
      else let ((ret, copied), f) = from_user f in (if ret \<noteq> 0 then ret else int copied, f))"

definition fifo_read :: "bool \<Rightarrow> ('f \<Rightarrow> (int \<times> nat) \<times> 'f) \<Rightarrow> 'f \<Rightarrow> int \<times> 'f" where
  "fifo_read locked to_user f =
     (if \<not> locked then (- ERESTARTSYS, f)
      else let ((ret, copied), f) = to_user f in (if ret \<noteq> 0 then ret else int copied, f))"

text \<open>\<^verbatim>\<open>kfifo.c\<close>: the bytes its test leaves the consumer.\<close>

definition kfifo_testfunc ::
  "('f, int) kfifo_api \<Rightarrow> 'f \<Rightarrow> out_state \<Rightarrow> (crash + 'f \<times> out_state) option"
where
  "kfifo_testfunc K f st =
     (let f = fold (\<lambda>i f. snd (kf_put K (int i) f)) [0..<10] f;
          f = snd (kf_in K [104, 101, 108, 108, 111] f);
          f = fold (\<lambda>i f. snd (kf_in K (replicate (i + 1) (97 + int i)) f)) [0..<10] f
      in drain K (\<lambda>i st. Inr (emit (Klog (Printk ''pid = %d'' [KInt i])) st)) f (peek_first K f st))"

definition fifo_example_init :: "(crash + 'f option \<times> errno \<times> kmsg list) \<Rightarrow> bool \<Rightarrow> crash + errno" where
  "fifo_example_init test proc_ok =
     bindC test (\<lambda>(_, err, _). Inr (if err < 0 then - EIO else if \<not> proc_ok then - ENOMEM else 0))"

end
