(* ===== verification/Char_Device.thy ===== *)
theory Char_Device
  imports Fifo_Modules
begin

text \<open>
  The character devices \<^verbatim>\<open>char.c\<close>, \<^verbatim>\<open>ttt.c\<close>, \<^verbatim>\<open>char2.c\<close> and \<^verbatim>\<open>chard.c\<close>: a semaphore that is taken
  at \<open>open\<close> and given back at \<open>release\<close>, a second one around the fifo, and the counters that a
  \<^verbatim>\<open>/proc\<close> file shows. Bytes are 8-bit words.
\<close>

section \<open>Semaphores\<close>

text \<open>
  The count of an initialised semaphore; a static one that nobody initialised has no list of
  waiters, and waiting on it follows a null pointer.
\<close>

datatype semaphore = Sema nat | Uninit_sema

text \<open>
  \<open>down_interruptible\<close>: takes the semaphore and returns 0, or, where it would have to wait, a
  signal (\<open>sig\<close>) ends the wait with an error; without one the caller sleeps.
\<close>

fun down_interruptible :: "bool \<Rightarrow> semaphore \<Rightarrow> crash + errno \<times> semaphore" where
  "down_interruptible sig (Sema (Suc n)) = Inr (0, Sema n)"
| "down_interruptible sig (Sema 0) = (if sig then Inr (- EINTR, Sema 0) else Inl Blocks)"
| "down_interruptible sig Uninit_sema = Inl NullDeref"

fun up :: "semaphore \<Rightarrow> crash + semaphore" where
  "up (Sema n) = Inr (Sema (Suc n))"
| "up Uninit_sema = Inr Uninit_sema"

text \<open>\<open>while (length-- > 0) { data[i] = buffer[i]; i++; }\<close>.\<close>

fun copy_loop :: "nat \<Rightarrow> byte list \<Rightarrow> byte list \<Rightarrow> crash + byte list" where
  "copy_loop i [] data = Inr data"
| "copy_loop i (b # bs) data =
     (if length data \<le> i then Inl OutOfBounds else copy_loop (Suc i) bs (data[i := b]))"

section \<open>char.c\<close>

record 'f char_dev =
  cd_sem :: semaphore
  cd_s :: semaphore
  cd_queue :: 'f
  cd_data :: "byte list"
  cd_read_count :: s32
  cd_write_count :: s32
  cd_queue_head :: u64
  cd_initial_head :: u64
  cd_log :: "kmsg list"

definition cd_printk :: "string \<Rightarrow> karg list \<Rightarrow> 'f char_dev \<Rightarrow> 'f char_dev" where
  "cd_printk fmt args d = d\<lparr>cd_log := cd_log d @ [Printk fmt args]\<rparr>"

definition char_open :: "bool \<Rightarrow> 'f char_dev \<Rightarrow> crash + errno \<times> 'f char_dev" where
  "char_open sig d =
     bindC (down_interruptible sig (cd_sem d)) (\<lambda>(ret, sem).
       let d = d\<lparr>cd_sem := sem\<rparr>;
           d = (if ret \<noteq> 0 then cd_printk ''ERROR: NOT ABLE TO OPEN DEVICE'' [] d else d)
       in Inr (0, cd_printk ''DEVICE OPENED SUCCESSFULY'' [] d))"

definition char_close :: "'f char_dev \<Rightarrow> crash + errno \<times> 'f char_dev" where
  "char_close d =
     bindC (up (cd_sem d)) (\<lambda>sem. Inr (0, cd_printk ''DEVICE CLOSED'' [] (d\<lparr>cd_sem := sem\<rparr>)))"

text \<open>
  The loop of \<open>consumer\<close>: one byte at a time to the user's buffer, whatever its length.
  \<open>put i\<close> is the result of the \<open>put_user\<close> at offset \<open>i\<close>; the bytes stored are collected.
\<close>

definition consumer_body ::
  "(nat \<Rightarrow> int) \<Rightarrow> byte \<Rightarrow> (nat \<times> (nat \<times> byte) list) \<times> 'f char_dev \<Rightarrow>
     crash + (nat \<times> (nat \<times> byte) list) \<times> 'f char_dev"
where
  "consumer_body put b s =
     (let ((i, user), d) = s;
          d = (if put i < 0 then cd_printk ''ERROR : unable to copy to user'' [] d else d);
          user = (if put i < 0 then user else user @ [(i, b)]);
          d = (if 4095 \<le> cd_queue_head d - cd_initial_head d
               then d\<lparr>cd_queue_head := cd_initial_head d\<rparr>
               else d\<lparr>cd_queue_head := cd_queue_head d - 1\<rparr>)
      in Inr ((i + 1, user), d))"

definition char_consumer ::
  "('f, byte) kfifo_api \<Rightarrow> bool \<Rightarrow> (nat \<Rightarrow> int) \<Rightarrow> 'f char_dev \<Rightarrow>
     (crash + (nat \<times> byte) list \<times> 'f char_dev) option"
where
  "char_consumer K sig put d =
     (case down_interruptible sig (cd_s d) of
        Inl e \<Rightarrow> Some (Inl e)
      | Inr (ret, s) \<Rightarrow>
          let d = d\<lparr>cd_s := s\<rparr>;
              d = (if ret \<noteq> 0
                   then cd_printk ''ERROR: not able to acquire lock in consumer function'' [] d else d)
          in if kf_len K (cd_queue d) = 0
             then Some (Inr ([], cd_printk ''cqueue underflow'' [] d))
             else
               (case drain K (consumer_body put) (cd_queue d) ((0, []), d) of
                  None \<Rightarrow> None
                | Some (Inl e) \<Rightarrow> Some (Inl e)
                | Some (Inr (q, (i, user), d)) \<Rightarrow>
                    Some (bindC (up (cd_s d)) (\<lambda>s. Inr (user, d\<lparr>cd_queue := q, cd_s := s\<rparr>)))))"

definition char_read ::
  "('f, byte) kfifo_api \<Rightarrow> bool \<Rightarrow> (nat \<Rightarrow> int) \<Rightarrow> 'f char_dev \<Rightarrow>
     (crash + (errno \<times> (nat \<times> byte) list) \<times> 'f char_dev) option"
where
  "char_read K sig put d =
     map_option (\<lambda>r. bindC r (\<lambda>(user, d). Inr ((0, user), d\<lparr>cd_write_count := cd_write_count d + 1\<rparr>)))
       (char_consumer K sig put (cd_printk ''READING FROM KERNEL USING CHAR DEVICE'' [] d))"

definition char_write ::
  "('f, byte) kfifo_api \<Rightarrow> bool \<Rightarrow> byte list \<Rightarrow> 'f char_dev \<Rightarrow> crash + errno \<times> 'f char_dev"
where
  "char_write K sig buffer d =
     (let d = cd_printk ''WRITING TO DEVICE'' [] (d\<lparr>cd_data := replicate 50 0\<rparr>) in
      bindC (copy_loop 0 buffer (cd_data d)) (\<lambda>data.
      let d = d\<lparr>cd_data := data\<rparr> in
      bindC (down_interruptible sig (cd_s d)) (\<lambda>(ret, s).
      let d = d\<lparr>cd_s := s\<rparr>;
          d = (if ret \<noteq> 0
               then cd_printk ''ERROR: not able to acquire lock in producer function'' [] d else d)
      in bindC (strlen data) (\<lambda>n.
      let (_, q) = kf_in K (take n data) (cd_queue d);
          d = d\<lparr>cd_queue := q, cd_read_count := cd_read_count d + 1\<rparr>;
          d = (if 4095 \<le> cd_queue_head d - cd_initial_head d
               then d\<lparr>cd_queue_head := cd_initial_head d\<rparr>
               else d\<lparr>cd_queue_head := cd_queue_head d + of_nat n\<rparr>)
      in bindC (up (cd_s d)) (\<lambda>s. Inr (0, d\<lparr>cd_s := s\<rparr>))))))"

definition char_proc_readings :: "'f char_dev \<Rightarrow> kmsg" where
  "char_proc_readings d =
     Printk ''No of Reads: %d No of Writes: %d  Queue_head x0%lu''
       [KInt (sint (cd_read_count d)), KInt (sint (cd_write_count d)), KAddr (cd_queue_head d)]"

text \<open>
  Loading and unloading. The registered majors are the kernel's; \<open>dyn\<close> is the major
  \<open>register_chrdev(0, ...)\<close> allocates or its error. The module keeps it in \<open>ret\<close>, and
  \<open>major_number\<close> stays 0.
\<close>

record chr_registry =
  cr_majors :: "int set"
  cr_procs :: "string set"
  cr_ret :: int
  cr_major_number :: int

definition char_init :: "bool \<Rightarrow> int \<Rightarrow> 'f char_dev \<Rightarrow> chr_registry \<Rightarrow> errno \<times> 'f char_dev \<times> chr_registry" where
  "char_init proc_ok dyn d R =
     (let d = d\<lparr>cd_sem := Sema 1, cd_s := Sema 1, cd_data := replicate 50 0\<rparr> in
      if \<not> proc_ok then (- 1, cd_printk ''ERROR : failed to create /proc/my_proc_file'' [] d, R)
      else
        let R = R\<lparr>cr_procs := insert ''my_proc_file'' (cr_procs R)\<rparr>;
            d = cd_printk ''proc entry created'' [] (d\<lparr>cd_read_count := 0, cd_write_count := 0\<rparr>);
            d = cd_printk ''major_number %d'' [KInt dyn] d;
            d = cd_printk ''make node using : mknod /dev/my_char_device c %d 0 for device file'' [KInt dyn] d;
            R = R\<lparr>cr_ret := dyn, cr_majors := (if dyn < 0 then cr_majors R else insert dyn (cr_majors R))\<rparr>
        in (0, d, R))"

definition char_cleanup :: "chr_registry \<Rightarrow> chr_registry" where
  "char_cleanup R = R\<lparr>cr_majors := cr_majors R - {cr_major_number R}, cr_procs := cr_procs R - {''my_proc_file''}\<rparr>"

section \<open>char2.c and chard.c\<close>

text \<open>
  \<^verbatim>\<open>char2.c\<close> has the same \<open>open\<close> and \<open>release\<close>, but its \<open>init\<close> never initialises the
  semaphores. \<^verbatim>\<open>chard.c\<close> registers a fixed major number and unregisters another.
\<close>

definition char2_init :: "int \<Rightarrow> 'f char_dev \<Rightarrow> chr_registry \<Rightarrow> errno \<times> 'f char_dev \<times> chr_registry" where
  "char2_init dyn d R =
     (let d = d\<lparr>cd_sem := Uninit_sema, cd_s := Uninit_sema\<rparr>;
          R = R\<lparr>cr_ret := dyn, cr_majors := (if dyn < 0 then cr_majors R else insert dyn (cr_majors R))\<rparr>;
          d = cd_printk ''major_number %d'' [KInt dyn] d;
          d = cd_printk ''make node using : mknod /dev/my_char_device c %d 0 for device file'' [KInt dyn] d
      in (0, d, R))"

definition char2_cleanup :: "chr_registry \<Rightarrow> chr_registry" where
  "char2_cleanup R = R\<lparr>cr_majors := cr_majors R - {cr_major_number R}\<rparr>"

definition chard_init :: "chr_registry \<Rightarrow> errno \<times> chr_registry" where
  "chard_init R = (0, R\<lparr>cr_majors := insert 240 (cr_majors R)\<rparr>)"

definition chard_exit :: "chr_registry \<Rightarrow> errno \<times> chr_registry" where
  "chard_exit R = (0, R\<lparr>cr_majors := cr_majors R - {600}\<rparr>)"

section \<open>ttt.c\<close>

text \<open>A record fifo: \<open>rec_in\<close> stores a whole record or, without room, nothing and returns 0.\<close>

record 'f rec_api =
  rec_in :: "byte list \<Rightarrow> 'f \<Rightarrow> nat \<times> 'f"
  rec_out :: "nat \<Rightarrow> 'f \<Rightarrow> byte list \<times> 'f"
  rec_empty :: "'f \<Rightarrow> bool"

record 'f ttt_dev =
  td_sem :: semaphore
  td_data :: "byte list"
  td_fifo :: 'f
  td_reads :: s32
  td_writes :: s32
  td_msg :: string
  td_len :: nat
  td_temp :: nat
  td_log :: "kmsg list"

definition td_printk :: "string \<Rightarrow> karg list \<Rightarrow> 'f ttt_dev \<Rightarrow> 'f ttt_dev" where
  "td_printk fmt args d = d\<lparr>td_log := td_log d @ [Printk fmt args]\<rparr>"

definition counter_text :: "s32 \<Rightarrow> s32 \<Rightarrow> string" where
  "counter_text reads writes =
     ''writes# '' @ int_str (sint reads) @ nl @ ''reads# '' @ int_str (sint writes) @ nl"

text \<open>The two counters are printed in the order \<open>reads, writes\<close>; \<open>reads\<close> counts the calls of \<open>dev_write\<close>.\<close>

definition ttt_read_proc :: "nat \<Rightarrow> 'f ttt_dev \<Rightarrow> (nat \<times> string) \<times> 'f ttt_dev" where
  "ttt_read_proc count d =
     (let count = (if count > td_temp d then td_temp d else count);
          d = d\<lparr>td_msg := counter_text (td_reads d) (td_writes d)\<rparr>;
          d = d\<lparr>td_temp := td_temp d - count\<rparr>;
          out = take count (td_msg d);
          d = (if count = 0 then d\<lparr>td_temp := td_len d\<rparr> else d)
      in ((count, out), d))"

definition ttt_init :: "'f \<Rightarrow> 'f ttt_dev \<Rightarrow> errno \<times> 'f ttt_dev" where
  "ttt_init empty_fifo d =
     (let d = d\<lparr>td_reads := 0, td_writes := 0\<rparr>;
          d = d\<lparr>td_msg := counter_text (td_reads d) (td_writes d)\<rparr>;
          d = d\<lparr>td_len := length (td_msg d), td_temp := length (td_msg d)\<rparr>
      in (0, d\<lparr>td_sem := Sema 1, td_data := replicate 100 0, td_fifo := empty_fifo\<rparr>))"

definition ttt_open :: "bool \<Rightarrow> 'f ttt_dev \<Rightarrow> crash + errno \<times> 'f ttt_dev" where
  "ttt_open sig d =
     (let d = td_printk ''device opened'' [] d in
      bindC (down_interruptible sig (td_sem d)) (\<lambda>(ret, sem).
        if ret \<noteq> 0
        then Inr (- 1, td_printk ''mychardevice:could not lock device during open'' [] (d\<lparr>td_sem := sem\<rparr>))
        else Inr (0, d\<lparr>td_sem := sem\<rparr>)))"

definition ttt_release :: "'f ttt_dev \<Rightarrow> crash + errno \<times> 'f ttt_dev" where
  "ttt_release d =
     bindC (up (td_sem d)) (\<lambda>sem. Inr (0, td_printk ''Device Closed'' [] (d\<lparr>td_sem := sem\<rparr>)))"

text \<open>The loop up to the first zero byte; what it finds goes to the user's buffer.\<close>

fun until_zero :: "byte list \<Rightarrow> crash + byte list" where
  "until_zero [] = Inl OutOfBounds"
| "until_zero (b # bs) = (if b = 0 then Inr [] else bindC (until_zero bs) (\<lambda>xs. Inr (b # xs)))"

definition ttt_read :: "'f rec_api \<Rightarrow> 'f ttt_dev \<Rightarrow> crash + (errno \<times> byte list) \<times> 'f ttt_dev" where
  "ttt_read K d =
     (if rec_empty K (td_fifo d) then Inr ((- 1, []), td_printk ''list empty'' [] d)
      else
        let (out, q) = rec_out K (length (td_data d)) (td_fifo d); ret = length out;
            d = d\<lparr>td_fifo := q, td_data := out @ drop ret (td_data d)\<rparr>
        in if length (td_data d) \<le> ret then Inl OutOfBounds
           else
             let d = d\<lparr>td_data := (td_data d)[ret := 0]\<rparr>
             in bindC (until_zero (td_data d)) (\<lambda>user.
                  Inr ((0, user), d\<lparr>td_writes := td_writes d + 1\<rparr>)))"

definition ttt_write :: "'f rec_api \<Rightarrow> byte list \<Rightarrow> 'f ttt_dev \<Rightarrow> crash + errno \<times> 'f ttt_dev" where
  "ttt_write K buff d =
     (let d = d\<lparr>td_data := replicate 100 0\<rparr> in
      bindC (copy_loop 0 buff (td_data d)) (\<lambda>data.
      bindC (strlen data) (\<lambda>n.
        let (_, q) = rec_in K (take n data) (td_fifo d)
        in Inr (1, d\<lparr>td_data := data, td_fifo := q, td_reads := td_reads d + 1\<rparr>))))"

section \<open>Who has the device open\<close>

text \<open>
  A run of a device whose \<open>open\<close> takes a semaphore: the state, the number of openers that
  have not closed, and the number of openers that got in without the semaphore.
\<close>

inductive dev_reach ::
  "(bool \<Rightarrow> 'd \<Rightarrow> crash + errno \<times> 'd) \<Rightarrow> ('d \<Rightarrow> crash + errno \<times> 'd) \<Rightarrow> ('d \<Rightarrow> 'd \<Rightarrow> bool) \<Rightarrow> ('d \<Rightarrow> semaphore) \<Rightarrow>
     'd \<Rightarrow> 'd \<Rightarrow> nat \<Rightarrow> nat \<Rightarrow> bool"
  for opn cls oth sem d0
where
  start: "dev_reach opn cls oth sem d0 d0 0 0"
| opened: "dev_reach opn cls oth sem d0 d n k \<Longrightarrow> opn sig d = Inr (0, d') \<Longrightarrow>
    dev_reach opn cls oth sem d0 d' (Suc n) (if sem d = Sema 0 then Suc k else k)"
| refused: "dev_reach opn cls oth sem d0 d n k \<Longrightarrow> opn sig d = Inr (r, d') \<Longrightarrow> r \<noteq> 0 \<Longrightarrow>
    dev_reach opn cls oth sem d0 d' n k"
| closed: "dev_reach opn cls oth sem d0 d (Suc n) k \<Longrightarrow> cls d = Inr (r, d') \<Longrightarrow>
    dev_reach opn cls oth sem d0 d' n k"
| other: "dev_reach opn cls oth sem d0 d n k \<Longrightarrow> oth d d' \<Longrightarrow> dev_reach opn cls oth sem d0 d' n k"

text \<open>The contract of such a device, and of one that refuses whoever did not get the semaphore.\<close>

locale sem_device =
  fixes opn :: "bool \<Rightarrow> 'd \<Rightarrow> crash + errno \<times> 'd" and cls :: "'d \<Rightarrow> crash + errno \<times> 'd"
    and oth :: "'d \<Rightarrow> 'd \<Rightarrow> bool" and sem :: "'d \<Rightarrow> semaphore"
  assumes open_free: "sem d = Sema (Suc m) \<Longrightarrow> \<exists>d'. opn sig d = Inr (0, d') \<and> sem d' = Sema m"
    and open_wait: "sem d = Sema 0 \<Longrightarrow> opn False d = Inl Blocks"
    and open_signal: "sem d = Sema 0 \<Longrightarrow> opn sig d = Inr (r, d') \<Longrightarrow> sem d' = Sema 0"
    and close_gives: "sem d = Sema m \<Longrightarrow> \<exists>r d'. cls d = Inr (r, d') \<and> sem d' = Sema (Suc m)"
    and other_keeps: "oth d d' \<Longrightarrow> sem d' = sem d"
begin

lemma reach_count:
  "dev_reach opn cls oth sem d0 d n k \<Longrightarrow> sem d0 = Sema 1 \<Longrightarrow> \<exists>m. sem d = Sema m \<and> m + n = 1 + k"
proof (induction rule: dev_reach.induct)
  case start
  then show ?case by simp
next
  case (opened d n k sig d')
  then obtain m where m: "sem d = Sema m" "m + n = 1 + k" by blast
  show ?case
  proof (cases m)
    case 0
    with m opened open_signal [of d sig 0 d'] show ?thesis by simp
  next
    case (Suc j)
    with m(1) open_free [of d j sig] opened m(2) show ?thesis by auto
  qed
next
  case (refused d n k sig r d')
  then obtain m where m: "sem d = Sema m" "m + n = 1 + k" by blast
  show ?case
  proof (cases m)
    case 0
    with m refused open_signal [of d sig r d'] show ?thesis by simp
  next
    case (Suc j)
    with m(1) open_free [of d j sig] refused show ?thesis by auto
  qed
next
  case (closed d n k r d')
  then obtain m where m: "sem d = Sema m" "m + Suc n = 1 + k" by blast
  with close_gives [of d m] closed show ?case by auto
next
  case (other d n k d')
  then show ?case using other_keeps by auto
qed

end

locale strict_device = sem_device +
  assumes open_refuses: "sem d = Sema 0 \<Longrightarrow> opn sig d = Inr (r, d') \<Longrightarrow> r \<noteq> 0"
begin

lemma reach_exclusive:
  "dev_reach opn cls oth sem d0 d n k \<Longrightarrow> sem d0 = Sema 1 \<Longrightarrow> k = 0"
proof (induction rule: dev_reach.induct)
  case (opened d n k sig d')
  then show ?case using open_refuses by auto
qed simp_all

lemma at_most_one:
  assumes "dev_reach opn cls oth sem d0 d n k" "sem d0 = Sema 1"
  shows "n \<le> 1"
  using reach_count [OF assms] reach_exclusive [OF assms] by auto

end

text \<open>What reading and writing leave alone in \<^verbatim>\<open>char.c\<close>, whatever the copies to the user return.\<close>

definition same_device :: "'f char_dev \<Rightarrow> 'f char_dev \<Rightarrow> bool" where
  "same_device d d' \<longleftrightarrow> cd_sem d' = cd_sem d \<and> cd_s d' = cd_s d \<and> cd_queue d' = cd_queue d \<and>
     cd_data d' = cd_data d \<and> cd_read_count d' = cd_read_count d \<and> cd_write_count d' = cd_write_count d"

lemma consumer_body_frame:
  "consumer_body put b ((i, user), d) = Inr ((j, user'), d') \<Longrightarrow>
    same_device d d' \<and> j = i + 1 \<and> user' = (if put i < 0 then user else user @ [(i, b)])"
  by (auto simp: consumer_body_def same_device_def cd_printk_def Let_def split: if_splits)

lemma consumer_fold:
  "\<exists>user' d'. fold_exit (consumer_body put) bs ((i, user), d) = Inr ((i + length bs, user'), d') \<and>
    same_device d d' \<and> ((\<forall>j. 0 \<le> put j) \<longrightarrow> user' = user @ enumerate i bs)"
proof (induction bs arbitrary: i user d)
  case (Cons b bs)
  obtain j user1 d1 where b: "consumer_body put b ((i, user), d) = Inr ((j, user1), d1)"
    by (auto simp: consumer_body_def Let_def)
  note f = consumer_body_frame [OF b]
  obtain user2 d2 where r: "fold_exit (consumer_body put) bs ((j, user1), d1) = Inr ((j + length bs, user2), d2)"
    "same_device d1 d2" "(\<forall>j. 0 \<le> put j) \<longrightarrow> user2 = user1 @ enumerate j bs"
    using Cons.IH by blast
  have "same_device d d2" using r(2) f by (simp add: same_device_def)
  moreover have "user2 = user @ enumerate i (b # bs)" if "\<forall>j. 0 \<le> put j"
  proof -
    have "\<not> put i < 0" using that by (simp add: not_less)
    then show ?thesis using r(3) f that by simp
  qed
  ultimately show ?case using b r(1) f by simp
qed (simp add: same_device_def)

lemma char_consumer_result:
  assumes "kfifo_ok K queue cap" "down_interruptible sig (cd_s d) = Inr (ret, s)" "queue (cd_queue d) \<noteq> []"
  shows "\<exists>user d'. char_consumer K sig put d = Some (bindC (up s) (\<lambda>s'. Inr (user, d'\<lparr>cd_s := s'\<rparr>))) \<and>
    cd_sem d' = cd_sem d \<and> cd_data d' = cd_data d \<and> queue (cd_queue d') = [] \<and>
    cd_read_count d' = cd_read_count d \<and> cd_write_count d' = cd_write_count d \<and>
    ((\<forall>j. 0 \<le> put j) \<longrightarrow> user = enumerate 0 (queue (cd_queue d)))"
proof -
  let ?d = "if ret \<noteq> 0 then cd_printk ''ERROR: not able to acquire lock in consumer function'' [] (d\<lparr>cd_s := s\<rparr>)
    else d\<lparr>cd_s := s\<rparr>"
  have d: "cd_queue ?d = cd_queue d" "cd_s ?d = s" "cd_sem ?d = cd_sem d" "cd_data ?d = cd_data d"
    "cd_read_count ?d = cd_read_count d" "cd_write_count ?d = cd_write_count d"
    by (simp_all add: cd_printk_def)
  obtain user d1 where f: "fold_exit (consumer_body put) (queue (cd_queue d)) ((0, []), ?d) =
      Inr ((0 + length (queue (cd_queue d)), user), d1)" "same_device ?d d1"
    "(\<forall>j. 0 \<le> put j) \<longrightarrow> user = [] @ enumerate 0 (queue (cd_queue d))"
    using consumer_fold [of put "queue (cd_queue d)" 0 "[]" ?d] by blast
  obtain q where q: "drain K (consumer_body put) (cd_queue d) ((0, []), ?d) =
      Some (Inr (q, (0 + length (queue (cd_queue d)), user), d1))" "queue q = []"
    using drain_ok [OF assms(1) f(1)] by blast
  have "char_consumer K sig put d = Some (bindC (up s) (\<lambda>s'. Inr (user, d1\<lparr>cd_queue := q, cd_s := s'\<rparr>)))"
    using q(1) f(2) d assms(2,3) kfifo_rest(2) [OF assms(1)]
    by (simp add: char_consumer_def Let_def same_device_def)
  then show ?thesis
    using q(2) f(2,3) d
    by (intro exI [of _ user] exI [of _ "d1\<lparr>cd_queue := q\<rparr>"]) (simp add: same_device_def)
qed

lemma copy_loop_ok:
  "i + length bs \<le> length data \<Longrightarrow>
    copy_loop i bs data = Inr (take i data @ bs @ drop (i + length bs) data)"
  by (induction bs arbitrary: i data) (auto simp: take_Suc_conv_app_nth upd_conv_take_nth_drop min_def add.commute)

lemma char_data_text:
  assumes "length xs < n"
  shows "copy_loop 0 xs (replicate n 0) = Inr (xs @ 0 # replicate (n - Suc (length xs)) 0)"
proof -
  have "n - length xs = Suc (n - Suc (length xs))" using assms by simp
  then show ?thesis using assms copy_loop_ok [of 0 xs "replicate n 0"] by (simp del: diff_Suc_Suc)
qed

text \<open> A text of fewer than 50 bytes written to the device of \<^verbatim>\<open>char.c\<close> comes back, after what the
  fifo held before, at the next read, which empties the fifo; both calls return 0, both release
  the fifo's semaphore, and the counter of reads counts the write and that of writes the read.\<close>

theorem char_write_read:
  assumes "kfifo_ok K queue cap" "length (queue (cd_queue d)) + length xs \<le> cap" "length xs < 50" "0 \<notin> set xs"
    and "xs \<noteq> []" "cd_s d = Sema (Suc m)" "\<forall>i. 0 \<le> put i"
  shows "\<exists>d1 d2. char_write K sig xs d = Inr (0, d1) \<and>
    char_read K sig' put d1 = Some (Inr ((0, enumerate 0 (queue (cd_queue d) @ xs)), d2)) \<and>
    queue (cd_queue d2) = [] \<and> cd_s d2 = Sema (Suc m) \<and>
    cd_read_count d2 = cd_read_count d + 1 \<and> cd_write_count d2 = cd_write_count d + 1"
proof -
  obtain d1 where w: "char_write K sig xs d = Inr (0, d1)" and d1: "queue (cd_queue d1) = queue (cd_queue d) @ xs"
    "cd_s d1 = Sema (Suc m)" "cd_read_count d1 = cd_read_count d + 1" "cd_write_count d1 = cd_write_count d"
  proof -
    obtain k q where "kf_in K xs (cd_queue d) = (k, q)" "queue q = queue (cd_queue d) @ xs"
      using assms(2) kfifo_rest(5) [OF assms(1), of xs "cd_queue d"] by (cases "kf_in K xs (cd_queue d)") auto
    then have "\<exists>d1. char_write K sig xs d = Inr (0, d1) \<and> queue (cd_queue d1) = queue (cd_queue d) @ xs \<and>
        cd_s d1 = Sema (Suc m) \<and> cd_read_count d1 = cd_read_count d + 1 \<and> cd_write_count d1 = cd_write_count d"
      using assms(6)
      by (simp add: char_write_def cd_printk_def char_data_text [OF assms(3)] strlen_text [OF assms(4)])
        (simp add: Let_def)
    then show thesis using that by blast
  qed
  let ?d1 = "cd_printk ''READING FROM KERNEL USING CHAR DEVICE'' [] d1"
  have q: "queue (cd_queue ?d1) = queue (cd_queue d) @ xs" and s: "down_interruptible sig' (cd_s ?d1) = Inr (0, Sema m)"
    by (simp_all add: d1 cd_printk_def)
  have ne: "queue (cd_queue ?d1) \<noteq> []" using assms(5) q by simp
  obtain user d2 where "char_consumer K sig' put ?d1 = Some (bindC (up (Sema m)) (\<lambda>s'. Inr (user, d2\<lparr>cd_s := s'\<rparr>)))"
    "queue (cd_queue d2) = []" "user = enumerate 0 (queue (cd_queue d) @ xs)"
    "cd_read_count d2 = cd_read_count ?d1" "cd_write_count d2 = cd_write_count ?d1"
    using char_consumer_result [OF assms(1) s ne, of put] assms(7) unfolding q by blast
  then show ?thesis
    using w d1 by (simp add: char_read_def cd_printk_def)
qed



section \<open>The devices keep their contracts\<close>

definition char_io :: "('f, byte) kfifo_api \<Rightarrow> 'f char_dev \<Rightarrow> 'f char_dev \<Rightarrow> bool" where
  "char_io K d d' \<longleftrightarrow> (\<exists>sig put r. char_read K sig put d = Some (Inr (r, d'))) \<or>
     (\<exists>sig xs r. char_write K sig xs d = Inr (r, d'))"

definition ttt_io :: "'f rec_api \<Rightarrow> 'f ttt_dev \<Rightarrow> 'f ttt_dev \<Rightarrow> bool" where
  "ttt_io K d d' \<longleftrightarrow> (\<exists>r. ttt_read K d = Inr (r, d')) \<or> (\<exists>xs r. ttt_write K xs d = Inr (r, d')) \<or>
     (\<exists>count r. ttt_read_proc count d = (r, d'))"

lemma char_write_sem: "char_write K sig xs d = Inr (r, d') \<Longrightarrow> cd_sem d' = cd_sem d"
  by (auto simp: char_write_def bindC_Inr_iff cd_printk_def Let_def case_prod_beta split: if_splits)

lemma char_read_sem:
  assumes "char_read K sig put d = Some (Inr (r, d'))"
  shows "cd_sem d' = cd_sem d"
proof -
  have "cd_sem (snd x') = cd_sem (snd x)" if "drain K (consumer_body put) f x = Some (Inr (q, x'))"
    for f q and x x' :: "(nat \<times> (nat \<times> byte) list) \<times> 'a char_dev"
  proof (rule drain_keeps [OF that, where g = "\<lambda>x. cd_sem (snd x)"])
    fix b and s s' :: "(nat \<times> (nat \<times> byte) list) \<times> 'a char_dev"
    assume "consumer_body put b s = Inr s'"
    then show "cd_sem (snd s') = cd_sem (snd s)"
      by (cases s; cases s') (force dest: consumer_body_frame simp: same_device_def)
  qed
  with assms show ?thesis
    by (auto simp: char_read_def char_consumer_def bindC_Inr_iff cd_printk_def Let_def
        split: option.splits sum.splits prod.splits if_splits)
qed

lemma ttt_io_sem: "ttt_io K d d' \<Longrightarrow> td_sem d' = td_sem d"
  by (auto simp: ttt_io_def ttt_read_def ttt_write_def ttt_read_proc_def bindC_Inr_iff td_printk_def Let_def
      case_prod_beta split: if_splits)

interpretation char: sem_device char_open char_close "char_io K" cd_sem for K
proof unfold_locales
  fix d d' :: "'a char_dev" assume "char_io K d d'"
  then show "cd_sem d' = cd_sem d"
    by (auto simp: char_io_def dest: char_read_sem char_write_sem)
qed (auto simp: char_open_def char_close_def cd_printk_def Let_def split: if_splits)

interpretation ttt: strict_device ttt_open ttt_release "ttt_io K" td_sem for K
  by unfold_locales (auto simp: ttt_open_def ttt_release_def td_printk_def ttt_io_sem split: if_splits)

text \<open> In every run of the device of \<^verbatim>\<open>char.c\<close> the count of the semaphore and the number of openers
  add up to one more than the number of openers whose wait was interrupted: \<open>open\<close> reports the
  failure to take the semaphore, returns 0 all the same, and \<open>release\<close> gives back what was never
  taken. So the device is exclusive as long as no wait is interrupted.\<close>

theorem char_open_count:
  assumes "dev_reach char_open char_close (char_io K) cd_sem d0 d n k" "cd_sem d0 = Sema 1"
  shows "\<exists>m. cd_sem d = Sema m \<and> m + n = 1 + k"
  using assms by (rule char.reach_count)

definition fresh_char :: "byte list char_dev" where
  "fresh_char = \<lparr>cd_sem = Sema 1, cd_s = Sema 1, cd_queue = [], cd_data = replicate 50 0, cd_read_count = 0,
     cd_write_count = 0, cd_queue_head = 0x1000, cd_initial_head = 0x1000, cd_log = []\<rparr>"

text \<open>A second opener is interrupted and gets in; then the first one closes, and the semaphore is free.\<close>

theorem char_open_count_witness:
  "\<exists>d. dev_reach char_open char_close (char_io (list_kfifo 4096)) cd_sem fresh_char d 1 1 \<and> cd_sem d = Sema 1"
proof -
  let ?reach = "dev_reach char_open char_close (char_io (list_kfifo 4096)) cd_sem fresh_char"
  obtain d1 where d1: "char_open False fresh_char = Inr (0, d1)" "cd_sem d1 = Sema 0"
    by (simp add: char_open_def fresh_char_def cd_printk_def)
  obtain d2 where d2: "char_open True d1 = Inr (0, d2)" "cd_sem d2 = Sema 0"
    using d1(2) by (simp add: char_open_def cd_printk_def Let_def)
  obtain d3 where d3: "char_close d2 = Inr (0, d3)"
    using d2(2) by (simp add: char_close_def)
  have "?reach d1 (Suc 0) (if cd_sem fresh_char = Sema 0 then Suc 0 else 0)"
    by (rule dev_reach.opened [where opn = char_open, OF _ d1(1)]) (rule dev_reach.start)
  then have "?reach d1 1 0" by (simp add: fresh_char_def)
  from dev_reach.opened [OF this d2(1)] d1(2) have "?reach d2 (Suc 1) 1" by simp
  from dev_reach.closed [OF this d3] have r: "?reach d3 1 1" .
  obtain m where "cd_sem d3 = Sema m" "m + 1 = 1 + 1"
    using char_open_count [OF r] by (auto simp: fresh_char_def)
  then show ?thesis using r by auto
qed

text \<open> The device of \<^verbatim>\<open>ttt.c\<close> refuses an opener whose wait was interrupted: in every run at most one
  process has it open.\<close>

theorem ttt_exclusive:
  assumes "dev_reach ttt_open ttt_release (ttt_io K) td_sem d0 d n k" "td_sem d0 = Sema 1"
  shows "n \<le> 1"
  using assms by (rule ttt.at_most_one)

definition fresh_ttt :: "unit ttt_dev" where
  "fresh_ttt = \<lparr>td_sem = Sema 1, td_data = [], td_fifo = (), td_reads = 0, td_writes = 0, td_msg = [],
     td_len = 0, td_temp = 0, td_log = []\<rparr>"

theorem ttt_exclusive_witness:
  "\<exists>d. dev_reach ttt_open ttt_release (ttt_io (undefined :: unit rec_api)) td_sem fresh_ttt d 1 0 \<and> (1::nat) \<le> 1"
proof -
  obtain d1 where d1: "ttt_open False fresh_ttt = Inr (0, d1)"
    by (simp add: ttt_open_def fresh_ttt_def td_printk_def)
  have r: "dev_reach ttt_open ttt_release (ttt_io (undefined :: unit rec_api)) td_sem fresh_ttt d1 1 0"
  proof -
    have "dev_reach ttt_open ttt_release (ttt_io (undefined :: unit rec_api)) td_sem fresh_ttt d1 (Suc 0)
        (if td_sem fresh_ttt = Sema 0 then Suc 0 else 0)"
      by (rule dev_reach.opened [where opn = ttt_open, OF _ d1]) (rule dev_reach.start)
    then show ?thesis by (simp add: fresh_ttt_def)
  qed
  from ttt_exclusive [OF r] r show ?thesis by (auto simp: fresh_ttt_def)
qed

theorem char_write_read_witness:
  "\<exists>d1 d2. char_write (list_kfifo 4096) False [104, 105] fresh_char = Inr (0, d1) \<and>
     char_read (list_kfifo 4096) False (\<lambda>_. 0) d1 = Some (Inr ((0, [(0, 104), (1, 105)]), d2))"
proof -
  have h: "length (take 4096 (cd_queue fresh_char)) + length [104, 105 :: byte] \<le> 4096" "length [104, 105 :: byte] < 50"
    "(0 :: byte) \<notin> set [104, 105]" "[104, 105 :: byte] \<noteq> []" "cd_s fresh_char = Sema (Suc 0)" "\<forall>i :: nat. (0 :: int) \<le> 0"
    by (simp_all add: fresh_char_def)
  from char_write_read [OF list_kfifo_ok h, of False False] show ?thesis
    by (auto simp: fresh_char_def)
qed


end
