(* ===== verification/Mmap_Device.thy ===== *)
theory Mmap_Device
  imports Kernel_Strings
begin

text \<open>
  The character devices that share a page of the kernel with the processes that map it:
  \<^verbatim>\<open>ex6.c\<close>, \<^verbatim>\<open>ex6_ver2.c\<close> (and its copies \<^verbatim>\<open>exx6.c\<close> and \<^verbatim>\<open>exx66.c\<close>). Every open allocates a
  \<open>struct mmap_info\<close> and a page, the page fault handler hands the page out, and the last close
  frees both. The allocator's answers are arguments of the operations.
\<close>

section \<open>Pages, infos and files\<close>

type_synonym page_id = nat
type_synonym info_id = nat
type_synonym file_id = nat
type_synonym area_id = nat

record page_frame =
  pg_bytes :: "byte list"
  pg_count :: nat              \<comment> \<open>the references to the page\<close>

record mmap_info =
  mi_data :: "page_id option"  \<comment> \<open>\<open>data\<close>, \<open>None\<close> for the null pointer\<close>
  mi_reference :: s32          \<comment> \<open>\<open>reference\<close>\<close>

record map_area =
  ma_info :: "info_id option"  \<comment> \<open>\<open>vm_private_data\<close>\<close>
  ma_refs :: nat               \<comment> \<open>the references to pages that its faults took\<close>

record mmap_dev =
  md_pages :: "page_id \<rightharpoonup> page_frame"
  md_infos :: "info_id \<rightharpoonup> mmap_info"
  md_private :: "file_id \<Rightarrow> info_id option"  \<comment> \<open>\<open>private_data\<close> of the open files\<close>
  md_global :: "page_id option"               \<comment> \<open>\<open>global_var\<close>\<close>
  md_areas :: "area_id \<rightharpoonup> map_area"
  md_log :: "kmsg list"

definition md_printk :: "string \<Rightarrow> karg list \<Rightarrow> mmap_dev \<Rightarrow> mmap_dev" where
  "md_printk fmt args d = d\<lparr>md_log := md_log d @ [Printk fmt args]\<rparr>"

definition upd_page :: "page_id \<Rightarrow> page_frame option \<Rightarrow> mmap_dev \<Rightarrow> mmap_dev" where
  "upd_page p f d = d\<lparr>md_pages := (md_pages d)(p := f)\<rparr>"

definition upd_info :: "info_id \<Rightarrow> mmap_info option \<Rightarrow> mmap_dev \<Rightarrow> mmap_dev" where
  "upd_info n i d = d\<lparr>md_infos := (md_infos d)(n := i)\<rparr>"

definition upd_private :: "file_id \<Rightarrow> info_id option \<Rightarrow> mmap_dev \<Rightarrow> mmap_dev" where
  "upd_private f n d = d\<lparr>md_private := (md_private d)(f := n)\<rparr>"

definition upd_area :: "area_id \<Rightarrow> map_area option \<Rightarrow> mmap_dev \<Rightarrow> mmap_dev" where
  "upd_area a v d = d\<lparr>md_areas := (md_areas d)(a := v)\<rparr>"

text \<open>Following a pointer: null, dangling, or to a page or info that is still allocated.\<close>

definition page_at :: "page_id option \<Rightarrow> mmap_dev \<Rightarrow> crash + page_id \<times> page_frame" where
  "page_at q d =
     (case q of None \<Rightarrow> Inl NullDeref
      | Some p \<Rightarrow> (case md_pages d p of None \<Rightarrow> Inl UseAfterFree | Some f \<Rightarrow> Inr (p, f)))"

definition info_at :: "info_id option \<Rightarrow> mmap_dev \<Rightarrow> crash + info_id \<times> mmap_info" where
  "info_at q d =
     (case q of None \<Rightarrow> Inl NullDeref
      | Some n \<Rightarrow> (case md_infos d n of None \<Rightarrow> Inl UseAfterFree | Some i \<Rightarrow> Inr (n, i)))"

text \<open>\<open>memcpy\<close> into a page.\<close>

definition memcpy_page :: "page_id option \<Rightarrow> nat \<Rightarrow> byte list \<Rightarrow> mmap_dev \<Rightarrow> crash + mmap_dev" where
  "memcpy_page q off bs d =
     bindC (page_at q d) (\<lambda>(p, f).
       if off + length bs \<le> length (pg_bytes f)
       then Inr (upd_page p (Some (f\<lparr>pg_bytes := take off (pg_bytes f) @ bs @ drop (off + length bs) (pg_bytes f)\<rparr>)) d)
       else Inl OutOfBounds)"

text \<open>\<open>free_page\<close> drops one reference, and the page when it was the last; of address 0 it does nothing.\<close>

definition free_page :: "page_id option \<Rightarrow> mmap_dev \<Rightarrow> crash + mmap_dev" where
  "free_page q d =
     (case q of None \<Rightarrow> Inr d
      | Some _ \<Rightarrow> bindC (page_at q d) (\<lambda>(p, f).
          Inr (upd_page p (if pg_count f \<le> 1 then None else Some (f\<lparr>pg_count := pg_count f - 1\<rparr>)) d)))"

text \<open>\<open>printk(... "%s", global_var)\<close>.\<close>

definition print_shared :: "mmap_dev \<Rightarrow> crash + mmap_dev" where
  "print_shared d =
     (case md_global d of
        None \<Rightarrow> Inr (md_printk ''Kernel rading shared memory : %s'' [KStr ''(null)''] d)
      | Some _ \<Rightarrow> bindC (page_at (md_global d) d) (\<lambda>(p, f).
          bindC (strlen (pg_bytes f)) (\<lambda>n.
            Inr (md_printk ''Kernel rading shared memory : %s'' [KStr (text_of (take n (pg_bytes f)))] d))))"

section \<open>The operations of the devices\<close>

definition mmap_open :: "info_id option \<Rightarrow> mmap_dev \<Rightarrow> crash + mmap_dev" where
  "mmap_open priv d =
     bindC (info_at priv d) (\<lambda>(n, i). Inr (upd_info n (Some (i\<lparr>mi_reference := mi_reference i + 1\<rparr>)) d))"

definition mmap_close :: "info_id option \<Rightarrow> mmap_dev \<Rightarrow> crash + mmap_dev" where
  "mmap_close priv d =
     bindC (info_at priv d) (\<lambda>(n, i). Inr (upd_info n (Some (i\<lparr>mi_reference := mi_reference i - 1\<rparr>)) d))"

text \<open>The handler of a page fault returns 0; the page it stores in \<open>vmf\<close>, if any, is the second value.\<close>

definition mmap_fault :: "info_id option \<Rightarrow> mmap_dev \<Rightarrow> crash + (errno \<times> page_id option) \<times> mmap_dev" where
  "mmap_fault priv d =
     bindC (info_at priv d) (\<lambda>(n, i).
       case mi_data i of
         None \<Rightarrow> Inr ((0, None), md_printk ''no data'' [] d)
       | Some _ \<Rightarrow> bindC (page_at (mi_data i) d) (\<lambda>(p, f).
           Inr ((0, Some p), upd_page p (Some (f\<lparr>pg_count := pg_count f + 1\<rparr>)) d)))"

text \<open>
  The two allocations at the start of \<open>char_open\<close>: \<open>info\<close> and \<open>page\<close> are what \<open>kmalloc\<close> and
  \<open>get_zeroed_page\<close> return, \<open>junk\<close> what \<open>kmalloc\<close> leaves in the field nobody initialises.
\<close>

definition open_alloc ::
  "info_id option \<Rightarrow> s32 \<Rightarrow> page_id option \<Rightarrow> mmap_dev \<Rightarrow> crash + mmap_dev"
where
  "open_alloc info junk page d =
     (case info of None \<Rightarrow> Inl NullDeref
      | Some n \<Rightarrow>
          let d = upd_info n (Some \<lparr>mi_data = page, mi_reference = junk\<rparr>) d;
              d = (case page of None \<Rightarrow> d
                   | Some p \<Rightarrow> upd_page p (Some \<lparr>pg_bytes = replicate 4096 0, pg_count = 1\<rparr>) d)
          in Inr (d\<lparr>md_global := page\<rparr>))"

definition hello6 :: "nat \<Rightarrow> string" where
  "hello6 k = (if k = 1 then ''hello from kernel on page 1: '' else ''hello from kernel on page 2: '')"

definition hello_ver2 :: string where
  "hello_ver2 = ''hello from kernel this is file: ''"

text \<open>\<open>char_open\<close> of \<^verbatim>\<open>ex6.c\<close>: two texts, the second one at the page after the one it owns.\<close>

definition ex6_open ::
  "info_id option \<Rightarrow> s32 \<Rightarrow> page_id option \<Rightarrow> file_id \<Rightarrow> byte list \<Rightarrow> mmap_dev \<Rightarrow> crash + errno \<times> mmap_dev"
where
  "ex6_open info junk page pfile name d =
     bindC (open_alloc info junk page d) (\<lambda>d.
     bindC (literal (hello6 1) 32) (\<lambda>lit.
     bindC (memcpy_page page 0 lit d) (\<lambda>d.
     bindC (memcpy_page page 32 name d) (\<lambda>d.
     bindC (literal (hello6 2) 32) (\<lambda>lit.
     bindC (memcpy_page page 4096 lit d) (\<lambda>d.
     bindC (memcpy_page page (4096 + 32) name d) (\<lambda>d.
       Inr (0, md_printk ''DEVICE OPENED SUCCESSFULY'' [] (upd_private pfile info d)))))))))"

definition ver2_open ::
  "info_id option \<Rightarrow> s32 \<Rightarrow> page_id option \<Rightarrow> file_id \<Rightarrow> byte list \<Rightarrow> mmap_dev \<Rightarrow> crash + errno \<times> mmap_dev"
where
  "ver2_open info junk page pfile name d =
     bindC (open_alloc info junk page d) (\<lambda>d.
     bindC (literal hello_ver2 32) (\<lambda>lit.
     bindC (memcpy_page page 0 lit d) (\<lambda>d.
     bindC (memcpy_page page 32 name d) (\<lambda>d.
       Inr (0, md_printk ''DEVICE OPENED SUCCESSFULY'' [] (upd_private pfile info d))))))"

text \<open>\<open>char_mmap\<close>: the area takes over the file's private data, and \<open>mmap_open\<close> counts it.\<close>

definition ex6_mmap :: "file_id \<Rightarrow> area_id \<Rightarrow> mmap_dev \<Rightarrow> crash + errno \<times> mmap_dev" where
  "ex6_mmap pfile vma d =
     (let d = upd_area vma (Some \<lparr>ma_info = md_private d pfile, ma_refs = 0\<rparr>) d
      in bindC (mmap_open (md_private d pfile) d) (\<lambda>d. Inr (0, d)))"

text \<open>\<open>char_close\<close> of the two files: \<^verbatim>\<open>ex6.c\<close> prints the shared text before it frees, \<^verbatim>\<open>ex6_ver2.c\<close> after.\<close>

definition free_info :: "info_id option \<Rightarrow> file_id \<Rightarrow> mmap_dev \<Rightarrow> crash + mmap_dev" where
  "free_info priv pfile d =
     bindC (info_at priv d) (\<lambda>(n, i).
     bindC (free_page (mi_data i) d) (\<lambda>d.
       Inr (upd_private pfile None (upd_info n None d))))"

definition ex6_close :: "file_id \<Rightarrow> mmap_dev \<Rightarrow> crash + errno \<times> mmap_dev" where
  "ex6_close pfile d =
     bindC (print_shared d) (\<lambda>d.
     bindC (free_info (md_private d pfile) pfile d) (\<lambda>d.
       Inr (0, md_printk ''DEVICE CLOSED'' [] d)))"

definition ver2_close :: "file_id \<Rightarrow> mmap_dev \<Rightarrow> crash + errno \<times> mmap_dev" where
  "ver2_close pfile d =
     bindC (free_info (md_private d pfile) pfile d) (\<lambda>d.
     bindC (print_shared d) (\<lambda>d.
       Inr (0, md_printk ''DEVICE CLOSED'' [] d)))"

text \<open>
  Loading: \<open>register_chrdev(0, ...)\<close> answers the new major number or a negative error, but the
  code takes 0 for the failure; unloading prints the shared text and unregisters the major
  number of a variable nobody assigned.
\<close>

definition mmap_init :: "int \<Rightarrow> mmap_dev \<Rightarrow> errno \<times> mmap_dev" where
  "mmap_init reg d =
     (if reg = 0 then (0, md_printk ''ERROR in registering device'' [] d)
      else (0, md_printk ''make node using : mknod /dev/my_char_device c %d 0 for device file'' [KInt reg]
                 (md_printk ''major_number %d'' [KInt reg] d)))"

definition ex6_cleanup :: "s32 \<Rightarrow> mmap_dev \<Rightarrow> crash + s32 \<times> mmap_dev" where
  "ex6_cleanup major_number d = bindC (print_shared d) (\<lambda>d. Inr (major_number, d))"

section \<open>Counting the mappings\<close>

text \<open>
  The contract of a counter of mappings: \<open>opn\<close> and \<open>cls\<close> are the \<open>open\<close> and \<open>close\<close> of the
  areas, \<open>cnt\<close> the counter, where there is one.
\<close>

locale area_counter =
  fixes opn cls :: "'s \<Rightarrow> crash + 's"
    and cnt :: "'s \<Rightarrow> s32 option"
  assumes opn_up: "cnt s = Some k \<Longrightarrow> \<exists>s'. opn s = Inr s' \<and> cnt s' = Some (k + 1)"
    and cls_down: "cnt s = Some k \<Longrightarrow> \<exists>s'. cls s = Inr s' \<and> cnt s' = Some (k - 1)"
begin

fun area_run :: "bool list \<Rightarrow> 's \<Rightarrow> crash + 's" where
  "area_run [] s = Inr s"
| "area_run (b # bs) s = bindC (if b then opn s else cls s) (area_run bs)"

text \<open>Whatever the order of opens and closes, the counter moves by their difference, modulo its width.\<close>

lemma run_counts:
  "cnt s = Some k \<Longrightarrow> \<exists>s'. area_run bs s = Inr s' \<and>
     cnt s' = Some (k + of_nat (count_list bs True) - of_nat (count_list bs False))"
proof (induction bs arbitrary: s k)
  case (Cons b bs)
  have "\<exists>s'. (if b then opn s else cls s) = Inr s' \<and> cnt s' = Some (if b then k + 1 else k - 1)"
    using opn_up [OF Cons.prems] cls_down [OF Cons.prems] by (cases b) auto
  then obtain s' where s': "(if b then opn s else cls s) = Inr s'" "cnt s' = Some (if b then k + 1 else k - 1)"
    by blast
  with Cons.IH [OF s'(2)] show ?case by (cases b) (auto simp: algebra_simps)
qed simp

end

lemmas md_simps = page_at_def info_at_def upd_page_def upd_info_def upd_private_def upd_area_def
  md_printk_def

interpretation ex6: area_counter "mmap_open (Some n)" "mmap_close (Some n)"
  "\<lambda>d. map_option mi_reference (md_infos d n)" for n
  by unfold_locales (auto simp: mmap_open_def mmap_close_def md_simps)

section \<open>Opening\<close>

text \<open>
  The text of \<^verbatim>\<open>ex6.c\<close> is shorter than what is copied, and its second copy goes past the page.
\<close>

lemma literal_ver2: "literal hello_ver2 32 = Inr (bytes_of hello_ver2)"
  by (simp add: literal_def hello_ver2_def bytes_of_def)

text \<open>What \<open>char_open\<close> of \<^verbatim>\<open>ex6_ver2.c\<close> puts into the page.\<close>

definition ver2_page :: "byte list \<Rightarrow> page_frame" where
  "ver2_page name = \<lparr>pg_bytes = bytes_of hello_ver2 @ name @ replicate (4064 - length name) 0, pg_count = 1\<rparr>"

lemma ver2_open_result:
  assumes "length name \<le> 4064"
  shows "ver2_open (Some n) junk (Some p) pfile name d =
    Inr (0, md_printk ''DEVICE OPENED SUCCESSFULY'' [] (upd_private pfile (Some n)
      (upd_page p (Some (ver2_page name)) (upd_info n (Some \<lparr>mi_data = Some p, mi_reference = junk\<rparr>)
        (d\<lparr>md_global := Some p\<rparr>)))))"
proof -
  have "length (bytes_of hello_ver2) = 32" by (simp add: hello_ver2_def)
  then show ?thesis
    using assms
    by (simp add: ver2_open_def open_alloc_def literal_ver2 memcpy_page_def md_simps ver2_page_def Let_def)
qed

section \<open>The life of the devices\<close>

text \<open>
  What the kernel does around the operations: a page fault is counted with the area; the end
  of an area gives back the references its faults took and then calls \<open>close\<close>; a fork copies
  the area and calls \<open>open\<close>; the last \<open>close\<close> of a file comes when no area of it is left, for
  an area holds its file. The allocators hand out what is free, and the names of files have
  at most 255 bytes.
\<close>

definition put_pages :: "map_area \<Rightarrow> mmap_dev \<Rightarrow> crash + mmap_dev" where
  "put_pages v d =
     (if ma_refs v = 0 then Inr d
      else bindC (info_at (ma_info v) d) (\<lambda>(n, i). bindC (page_at (mi_data i) d) (\<lambda>(p, f).
        if ma_refs v < pg_count f
        then Inr (upd_page p (Some (f\<lparr>pg_count := pg_count f - ma_refs v\<rparr>)) d) else Inl UseAfterFree)))"

definition areas_on :: "mmap_dev \<Rightarrow> info_id \<Rightarrow> area_id set" where
  "areas_on d n = {a. \<exists>v. md_areas d a = Some v \<and> ma_info v = Some n}"

definition refs_on :: "mmap_dev \<Rightarrow> info_id \<Rightarrow> nat" where
  "refs_on d n = (\<Sum>a \<in> areas_on d n. ma_refs (the (md_areas d a)))"

inductive ver2_step :: "(info_id \<Rightarrow> s32) \<Rightarrow> mmap_dev \<Rightarrow> mmap_dev \<Rightarrow> bool" for junk where
  st_open: "md_private d f = None \<Longrightarrow> md_infos d n = None \<Longrightarrow> md_pages d p = None \<Longrightarrow> length name \<le> 255 \<Longrightarrow>
     ver2_open (Some n) (junk n) (Some p) f name d = Inr (r, d') \<Longrightarrow> ver2_step junk d d'"
| st_mmap: "md_private d f \<noteq> None \<Longrightarrow> md_areas d a = None \<Longrightarrow> ex6_mmap f a d = Inr (r, d') \<Longrightarrow> ver2_step junk d d'"
| st_fork: "md_areas d a = Some v \<Longrightarrow> md_areas d b = None \<Longrightarrow>
     mmap_open (ma_info v) (upd_area b (Some (v\<lparr>ma_refs := 0\<rparr>)) d) = Inr d' \<Longrightarrow> ver2_step junk d d'"
| st_fault: "md_areas d a = Some v \<Longrightarrow> mmap_fault (ma_info v) d = Inr ((r, Some p), d') \<Longrightarrow>
     ver2_step junk d (upd_area a (Some (v\<lparr>ma_refs := ma_refs v + 1\<rparr>)) d')"
| st_store: "md_areas d a = Some v \<Longrightarrow> 0 < ma_refs v \<Longrightarrow> info_at (ma_info v) d = Inr (n, i) \<Longrightarrow>
     page_at (mi_data i) d = Inr (p, f) \<Longrightarrow> length bs = length (pg_bytes f) \<Longrightarrow>
     ver2_step junk d (upd_page p (Some (f\<lparr>pg_bytes := bs\<rparr>)) d)"
| st_unmap: "md_areas d a = Some v \<Longrightarrow> put_pages v d = Inr d1 \<Longrightarrow> mmap_close (ma_info v) d1 = Inr d2 \<Longrightarrow>
     ver2_step junk d (upd_area a None d2)"
| st_close: "md_private d f = Some n \<Longrightarrow> areas_on d n = {} \<Longrightarrow> ver2_close f d = Inr (r, d') \<Longrightarrow> ver2_step junk d d'"

definition fresh_mmap :: mmap_dev where
  "fresh_mmap = \<lparr>md_pages = Map.empty, md_infos = Map.empty, md_private = (\<lambda>_. None), md_global = None,
     md_areas = Map.empty, md_log = []\<rparr>"

inductive ver2_reach :: "(info_id \<Rightarrow> s32) \<Rightarrow> mmap_dev \<Rightarrow> bool" for junk where
  "ver2_reach junk fresh_mmap"
| "ver2_reach junk d \<Longrightarrow> ver2_step junk d d' \<Longrightarrow> ver2_reach junk d'"

text \<open>
  The invariant, per info: it is where its areas and its file point to, its page is its own and
  counts the faults, and \<open>reference\<close> counts its areas on top of what \<open>kmalloc\<close> left there.
\<close>

definition info_ok :: "(info_id \<Rightarrow> s32) \<Rightarrow> mmap_dev \<Rightarrow> info_id \<Rightarrow> mmap_info \<Rightarrow> bool" where
  "info_ok junk d n i \<longleftrightarrow>
     (\<exists>p f. mi_data i = Some p \<and> md_pages d p = Some f \<and> length (pg_bytes f) = 4096 \<and>
        pg_count f = 1 + refs_on d n) \<and>
     mi_reference i = junk n + of_nat (card (areas_on d n))"

definition mmap_inv :: "(info_id \<Rightarrow> s32) \<Rightarrow> mmap_dev \<Rightarrow> bool" where
  "mmap_inv junk d \<longleftrightarrow>
     finite (dom (md_areas d)) \<and>
     (\<forall>a v. md_areas d a = Some v \<longrightarrow> ma_info v \<in> Some ` dom (md_infos d)) \<and>
     (\<forall>f n. md_private d f = Some n \<longrightarrow> md_infos d n \<noteq> None) \<and>
     (\<forall>n i. md_infos d n = Some i \<longrightarrow> info_ok junk d n i) \<and>
     (\<forall>n m i j. md_infos d n = Some i \<longrightarrow> md_infos d m = Some j \<longrightarrow> mi_data i = mi_data j \<longrightarrow> n = m) \<and>
     (\<forall>f g n. md_private d f = Some n \<longrightarrow> md_private d g = Some n \<longrightarrow> f = g) \<and>
     (\<forall>p. md_global d = Some p \<longrightarrow> md_pages d p \<noteq> None)"

text \<open>How the areas on an info change when one area comes, goes or takes a fault.\<close>

lemma areas_on_upd_area:
  "areas_on (upd_area a w d) n =
     (if \<exists>v. w = Some v \<and> ma_info v = Some n then insert a (areas_on d n) else areas_on d n - {a})"
  by (auto simp: areas_on_def upd_area_def)

lemma areas_on_frame [simp]:
  "areas_on (upd_page p f d) n = areas_on d n" "areas_on (upd_info m i d) n = areas_on d n"
  "areas_on (upd_private g q d) n = areas_on d n" "areas_on (md_printk t xs d) n = areas_on d n"
  "areas_on (d\<lparr>md_global := q\<rparr>) n = areas_on d n"
  "refs_on (upd_page p f d) n = refs_on d n" "refs_on (upd_info m i d) n = refs_on d n"
  "refs_on (upd_private g q d) n = refs_on d n" "refs_on (md_printk t xs d) n = refs_on d n"
  "refs_on (d\<lparr>md_global := q\<rparr>) n = refs_on d n"
  by (simp_all add: areas_on_def refs_on_def upd_page_def upd_info_def upd_private_def md_printk_def)

lemma finite_areas_on: "finite (dom (md_areas d)) \<Longrightarrow> finite (areas_on d n)"
  by (rule finite_subset [of _ "dom (md_areas d)"]) (auto simp: areas_on_def)

lemma refs_on_upd_area:
  assumes "finite (areas_on d n)"
  shows "refs_on (upd_area a w d) n =
     (case w of Some v \<Rightarrow> if ma_info v = Some n then ma_refs v else 0 | None \<Rightarrow> 0) +
     (refs_on d n - (if a \<in> areas_on d n then ma_refs (the (md_areas d a)) else 0))"
proof -
  have rest: "(\<Sum>b \<in> areas_on d n - {a}. ma_refs (the (md_areas (upd_area a w d) b))) =
      refs_on d n - (if a \<in> areas_on d n then ma_refs (the (md_areas d a)) else 0)"
  proof -
    have "(\<Sum>b \<in> areas_on d n - {a}. ma_refs (the (md_areas (upd_area a w d) b))) =
        (\<Sum>b \<in> areas_on d n - {a}. ma_refs (the (md_areas d b)))"
      by (rule sum.cong) (auto simp: upd_area_def)
    then show ?thesis using assms by (simp add: refs_on_def sum_diff1_nat)
  qed
  show ?thesis
  proof (cases "\<exists>v. w = Some v \<and> ma_info v = Some n")
    case True
    then obtain v where v: "w = Some v" "ma_info v = Some n" by blast
    have "refs_on (upd_area a w d) n =
        ma_refs v + (\<Sum>b \<in> areas_on d n - {a}. ma_refs (the (md_areas (upd_area a w d) b)))"
      using assms v by (simp add: refs_on_def areas_on_upd_area sum.insert_remove) (simp add: upd_area_def)
    with rest v show ?thesis by simp
  next
    case False
    then have "refs_on (upd_area a w d) n = (\<Sum>b \<in> areas_on d n - {a}. ma_refs (the (md_areas (upd_area a w d) b)))"
      by (auto simp: refs_on_def areas_on_upd_area)
    with rest False show ?thesis by (cases w) auto
  qed
qed

lemma member_refs:
  assumes "finite (areas_on d n)" "md_areas d a = Some v" "ma_info v = Some n"
  shows "a \<in> areas_on d n" "ma_refs v \<le> refs_on d n"
proof -
  show *: "a \<in> areas_on d n" using assms by (auto simp: areas_on_def)
  show "ma_refs v \<le> refs_on d n"
    using member_le_sum [OF *, of "\<lambda>b. ma_refs (the (md_areas d b))"] assms by (simp add: refs_on_def)
qed

lemma md_proj [simp]:
  "md_pages (upd_page p f d) = (md_pages d)(p := f)" "md_infos (upd_page p f d) = md_infos d"
  "md_private (upd_page p f d) = md_private d" "md_global (upd_page p f d) = md_global d"
  "md_areas (upd_page p f d) = md_areas d"
  "md_pages (upd_info n i d) = md_pages d" "md_infos (upd_info n i d) = (md_infos d)(n := i)"
  "md_private (upd_info n i d) = md_private d" "md_global (upd_info n i d) = md_global d"
  "md_areas (upd_info n i d) = md_areas d"
  "md_pages (upd_private g q d) = md_pages d" "md_infos (upd_private g q d) = md_infos d"
  "md_private (upd_private g q d) = (md_private d)(g := q)" "md_global (upd_private g q d) = md_global d"
  "md_areas (upd_private g q d) = md_areas d"
  "md_pages (upd_area a w d) = md_pages d" "md_infos (upd_area a w d) = md_infos d"
  "md_private (upd_area a w d) = md_private d" "md_global (upd_area a w d) = md_global d"
  "md_areas (upd_area a w d) = (md_areas d)(a := w)"
  "md_pages (md_printk t xs d) = md_pages d" "md_infos (md_printk t xs d) = md_infos d"
  "md_private (md_printk t xs d) = md_private d" "md_global (md_printk t xs d) = md_global d"
  "md_areas (md_printk t xs d) = md_areas d"
  by (simp_all add: upd_page_def upd_info_def upd_private_def upd_area_def md_printk_def)

lemma mmap_invD:
  assumes "mmap_inv junk d" "md_infos d n = Some i"
  shows "\<exists>p f. mi_data i = Some p \<and> md_pages d p = Some f \<and> length (pg_bytes f) = 4096 \<and>
      pg_count f = 1 + refs_on d n" "mi_reference i = junk n + of_nat (card (areas_on d n))"
  using assms unfolding mmap_inv_def info_ok_def by blast+

lemma mmap_inv_finite: "mmap_inv junk d \<Longrightarrow> finite (areas_on d n)"
  by (simp add: mmap_inv_def finite_areas_on)

lemma mmap_inv_area:
  "mmap_inv junk d \<Longrightarrow> md_areas d a = Some v \<Longrightarrow> \<exists>n i. ma_info v = Some n \<and> md_infos d n = Some i"
  by (fastforce simp: mmap_inv_def)

lemma mmap_inv_private: "mmap_inv junk d \<Longrightarrow> md_private d g = Some n \<Longrightarrow> \<exists>i. md_infos d n = Some i"
  by (simp add: mmap_inv_def)

lemma mmap_inv_parts:
  assumes "mmap_inv junk d"
  shows "finite (dom (md_areas d))"
    and "\<And>a v. md_areas d a = Some v \<Longrightarrow> ma_info v \<in> Some ` dom (md_infos d)"
    and "\<And>g n. md_private d g = Some n \<Longrightarrow> \<exists>i. md_infos d n = Some i"
    and "\<And>n m i j. md_infos d n = Some i \<Longrightarrow> md_infos d m = Some j \<Longrightarrow> mi_data i = mi_data j \<Longrightarrow> n = m"
    and "\<And>f g n. md_private d f = Some n \<Longrightarrow> md_private d g = Some n \<Longrightarrow> f = g"
    and "\<And>p. md_global d = Some p \<Longrightarrow> \<exists>f. md_pages d p = Some f"
  using assms unfolding mmap_inv_def by blast+

lemma mmap_invI:
  assumes "finite (dom (md_areas d))"
    and "\<And>a v. md_areas d a = Some v \<Longrightarrow> ma_info v \<in> Some ` dom (md_infos d)"
    and "\<And>g n. md_private d g = Some n \<Longrightarrow> \<exists>i. md_infos d n = Some i"
    and "\<And>n i. md_infos d n = Some i \<Longrightarrow> info_ok junk d n i"
    and "\<And>n m i j. md_infos d n = Some i \<Longrightarrow> md_infos d m = Some j \<Longrightarrow> mi_data i = mi_data j \<Longrightarrow> n = m"
    and "\<And>f g n. md_private d f = Some n \<Longrightarrow> md_private d g = Some n \<Longrightarrow> f = g"
    and "\<And>p. md_global d = Some p \<Longrightarrow> \<exists>f. md_pages d p = Some f"
  shows "mmap_inv junk d"
  using assms unfolding mmap_inv_def by blast

text \<open>Two infos never share a page.\<close>

lemma mmap_inv_own:
  "mmap_inv junk d \<Longrightarrow> md_infos d n = Some i \<Longrightarrow> md_infos d m = Some j \<Longrightarrow> mi_data i = mi_data j \<Longrightarrow> n = m"
  unfolding mmap_inv_def by blast

text \<open>A new area on an info.\<close>

lemma inv_add_area:
  assumes "mmap_inv junk d" "md_infos d n = Some i" "md_areas d a = None"
  shows "mmap_inv junk (upd_info n (Some (i\<lparr>mi_reference := mi_reference i + 1\<rparr>))
    (upd_area a (Some \<lparr>ma_info = Some n, ma_refs = 0\<rparr>) d))" (is "mmap_inv junk ?d")
proof -
  have a: "a \<notin> areas_on d m" for m using assms(3) by (auto simp: areas_on_def)
  note fin = mmap_inv_finite [OF assms(1)]
  have areas: "areas_on ?d m = (if m = n then insert a (areas_on d m) else areas_on d m)" for m
    using a by (simp add: areas_on_upd_area)
  have refs: "refs_on ?d m = refs_on d m" for m
    using a by (simp add: refs_on_upd_area [OF fin])
  have "info_ok junk ?d m j" if "md_infos ?d m = Some j" for m j
  proof (cases "m = n")
    case True
    then show ?thesis
      using that mmap_invD [OF assms(1,2)] a fin
      unfolding info_ok_def areas refs by auto
  next
    case False
    then show ?thesis
      using that mmap_invD [OF assms(1), of m j] unfolding info_ok_def areas refs by simp
  qed
  then show ?thesis
    using assms unfolding mmap_inv_def by (auto split: if_splits)
qed

text \<open>A fault that takes a reference, and a store that changes the bytes of a page.\<close>

lemma inv_fault:
  assumes "mmap_inv junk d" "md_areas d a = Some v" "ma_info v = Some n" "md_infos d n = Some i"
    and "mi_data i = Some p" "md_pages d p = Some f"
  shows "mmap_inv junk (upd_area a (Some (v\<lparr>ma_refs := ma_refs v + 1\<rparr>))
    (upd_page p (Some (f\<lparr>pg_count := pg_count f + 1\<rparr>)) d))" (is "mmap_inv junk ?d")
proof -
  let ?e = "upd_page p (Some (f\<lparr>pg_count := pg_count f + 1\<rparr>)) d"
  note fin = mmap_inv_finite [OF assms(1)]
  have a: "a \<in> areas_on d m \<longleftrightarrow> m = n" for m using assms(2,3) by (auto simp: areas_on_def)
  have areas: "areas_on ?d m = areas_on d m" for m
    using assms(2,3) by (auto simp: areas_on_upd_area areas_on_def)
  have refs: "refs_on ?d m = (if m = n then refs_on d m + 1 else refs_on d m)" for m
    using refs_on_upd_area [of ?e m a] fin a assms(2,3) member_refs(2) [OF fin assms(2,3)] by auto
  have "info_ok junk ?d m j" if "md_infos ?d m = Some j" for m j
  proof (cases "m = n")
    case True
    then show ?thesis
      using that mmap_invD [OF assms(1,4)] assms(4-6) unfolding info_ok_def areas refs by auto
  next
    case False
    then have "mi_data j \<noteq> Some p"
      using that mmap_inv_own [OF assms(1,4), of m j] assms(5) by auto
    then show ?thesis
      using False that mmap_invD [OF assms(1), of m j] unfolding info_ok_def areas refs by auto
  qed
  then show ?thesis
    using assms(1-3) assms(4) unfolding mmap_inv_def by (auto split: if_splits)
qed

lemma inv_store:
  assumes "mmap_inv junk d" "md_pages d p = Some f" "length bs = length (pg_bytes f)"
  shows "mmap_inv junk (upd_page p (Some (f\<lparr>pg_bytes := bs\<rparr>)) d)" (is "mmap_inv junk ?d")
proof -
  have "info_ok junk ?d m j" if "md_infos ?d m = Some j" for m j
    using that mmap_invD [OF assms(1), of m j] assms(2,3) by (auto simp: info_ok_def)
  then show ?thesis
    using assms(1) unfolding mmap_inv_def by auto
qed

text \<open>The end of an area.\<close>

lemma inv_unmap:
  assumes "mmap_inv junk d" "md_areas d a = Some v" "ma_info v = Some n" "md_infos d n = Some i"
    and "mi_data i = Some p" "md_pages d p = Some f"
  shows "mmap_inv junk (upd_area a None (upd_info n (Some (i\<lparr>mi_reference := mi_reference i - 1\<rparr>))
    (upd_page p (Some (f\<lparr>pg_count := pg_count f - ma_refs v\<rparr>)) d)))" (is "mmap_inv junk ?d")
proof -
  let ?e = "upd_info n (Some (i\<lparr>mi_reference := mi_reference i - 1\<rparr>))
    (upd_page p (Some (f\<lparr>pg_count := pg_count f - ma_refs v\<rparr>)) d)"
  note fin = mmap_inv_finite [OF assms(1)]
  have a: "a \<in> areas_on d m \<longleftrightarrow> m = n" for m using assms(2,3) by (auto simp: areas_on_def)
  have areas: "areas_on ?d m = areas_on d m - {a}" for m
    by (simp add: areas_on_upd_area)
  have refs: "refs_on ?d m = (if m = n then refs_on d m - ma_refs v else refs_on d m)" for m
    using refs_on_upd_area [of ?e m a None] fin a assms(2) by simp
  have le: "ma_refs v \<le> refs_on d n" by (rule member_refs(2) [OF fin assms(2,3)])
  have card: "card (areas_on d n) = Suc (card (areas_on d n - {a}))"
    using a fin by (metis card_Suc_Diff1)
  have "info_ok junk ?d m j" if "md_infos ?d m = Some j" for m j
  proof (cases "m = n")
    case True
    then show ?thesis
      using that mmap_invD [OF assms(1,4)] assms(4-6) le card unfolding info_ok_def areas refs by auto
  next
    case False
    then have "mi_data j \<noteq> Some p"
      using that mmap_inv_own [OF assms(1,4), of m j] assms(5) by auto
    then show ?thesis
      using False that a mmap_invD [OF assms(1), of m j] unfolding info_ok_def areas refs by auto
  qed
  then show ?thesis
    using assms(1,4) unfolding mmap_inv_def by (auto split: if_splits)
qed

text \<open>An open with a fresh info and a fresh page, and the close of a file.\<close>

lemma inv_open:
  assumes "mmap_inv junk d" "md_infos d n = None" "md_pages d p = None" "md_private d pfile = None"
    and "length (pg_bytes f) = 4096" "pg_count f = 1"
  shows "mmap_inv junk (upd_private pfile (Some n) (upd_page p (Some f)
    (upd_info n (Some \<lparr>mi_data = Some p, mi_reference = junk n\<rparr>) (d\<lparr>md_global := Some p\<rparr>))))" (is "mmap_inv junk ?d")
proof -
  have none: "areas_on d n = {}"
    using mmap_inv_area [OF assms(1)] assms(2) by (fastforce simp: areas_on_def)
  then have zero: "refs_on d n = 0" by (simp add: refs_on_def)
  have page: "mi_data j \<noteq> Some p" if "md_infos d m = Some j" for m j
    using mmap_invD(1) [OF assms(1) that] assms(3) by auto
  have "info_ok junk ?d m j" if "md_infos ?d m = Some j" for m j
  proof (cases "m = n")
    case True
    then show ?thesis using that none zero assms(5,6) by (auto simp: info_ok_def)
  next
    case False
    then show ?thesis using that page [of m j] mmap_invD [OF assms(1), of m j] by (auto simp: info_ok_def)
  qed
  note ok = this and P = mmap_inv_parts [OF assms(1)]
  have fresh: "md_private d g \<noteq> Some n" for g using P(3) [of g n] assms(2) by auto
  show ?thesis
  proof (rule mmap_invI)
    show "ma_info v \<in> Some ` dom (md_infos ?d)" if "md_areas ?d a = Some v" for a v
      using P(2) [of a v] that by auto
    show "\<exists>i. md_infos ?d m = Some i" if "md_private ?d g = Some m" for g m
      using P(3) [of g m] that by (auto split: if_splits)
    show "m = k" if "md_infos ?d m = Some i" "md_infos ?d k = Some j" "mi_data i = mi_data j" for m k i j
      using P(4) [of m i k j] page [of m i] page [of k j] that by (auto split: if_splits)
    show "f = g" if "md_private ?d f = Some m" "md_private ?d g = Some m" for f g m
      using P(5) [of f m g] fresh that by (auto split: if_splits)
    show "\<exists>f. md_pages ?d q = Some f" if "md_global ?d = Some q" for q
      using that by auto
  qed (use P(1) ok in simp_all)
qed

lemma inv_close:
  assumes "mmap_inv junk d" "md_private d pfile = Some n" "areas_on d n = {}" "md_infos d n = Some i"
    and "mi_data i = Some p" "md_global d \<noteq> Some p"
  shows "mmap_inv junk (upd_private pfile None (upd_info n None (upd_page p None d)))" (is "mmap_inv junk ?d")
proof -
  have other: "mi_data j \<noteq> Some p" if "md_infos d m = Some j" "m \<noteq> n" for m j
    using mmap_inv_own [OF assms(1,4) that(1)] that(2) assms(5) by auto
  have areas: "ma_info v \<noteq> Some n" if "md_areas d a = Some v" for a v
    using that assms(3) by (auto simp: areas_on_def)
  have "info_ok junk ?d m j" if "md_infos ?d m = Some j" for m j
    using that other [of m j] mmap_invD [OF assms(1), of m j] by (auto simp: info_ok_def split: if_splits)
  note ok = this and P = mmap_inv_parts [OF assms(1)]
  show ?thesis
  proof (rule mmap_invI)
    show "ma_info v \<in> Some ` dom (md_infos ?d)" if "md_areas ?d a = Some v" for a v
      using P(2) [of a v] areas [of a v] that by auto
    show "\<exists>i. md_infos ?d m = Some i" if "md_private ?d g = Some m" for g m
      using P(3) [of g m] P(5) [of g m pfile] assms(2) that by (auto split: if_splits)
    show "m = k" if "md_infos ?d m = Some i" "md_infos ?d k = Some j" "mi_data i = mi_data j" for m k i j
      using P(4) [of m i k j] that by (auto split: if_splits)
    show "f = g" if "md_private ?d f = Some m" "md_private ?d g = Some m" for f g m
      using P(5) [of f m g] that by (auto split: if_splits)
    show "\<exists>f. md_pages ?d q = Some f" if "md_global ?d = Some q" for q
      using P(6) [of q] assms(6) that by auto
  qed (use P(1) ok in simp_all)
qed

lemma info_at_Some: "md_infos d n = Some i \<Longrightarrow> info_at (Some n) d = Inr (n, i)"
  by (simp add: info_at_def)

lemma page_at_Some: "md_pages d p = Some f \<Longrightarrow> page_at (Some p) d = Inr (p, f)"
  by (simp add: page_at_def)

lemma upd_page_idem: "md_pages d p = Some f \<Longrightarrow> upd_page p (Some (f\<lparr>pg_count := pg_count f - 0\<rparr>)) d = d"
  by (simp add: upd_page_def fun_upd_idem)

lemma print_shared_keeps:
  "print_shared d = Inr d' \<Longrightarrow> \<exists>t xs. d' = md_printk t xs d \<and> (\<forall>p. md_global d = Some p \<longrightarrow> md_pages d p \<noteq> None)"
  by (auto simp: print_shared_def page_at_def bindC_Inr_iff split: option.splits)

lemma inv_printk: "mmap_inv junk (md_printk t xs d) = mmap_inv junk d"
  by (simp add: mmap_inv_def info_ok_def)

text \<open>Freeing an info without areas: its page has one reference left and goes with it.\<close>

lemma free_info_result:
  assumes "mmap_inv junk d" "md_private d pfile = Some n" "areas_on d n = {}" "md_infos d n = Some i" "mi_data i = Some p"
  shows "free_info (md_private d pfile) pfile d = Inr (upd_private pfile None (upd_info n None (upd_page p None d)))"
proof -
  obtain f where "md_pages d p = Some f" "pg_count f = 1"
    using mmap_invD(1) [OF assms(1,4)] assms(3,5) by (auto simp: refs_on_def)
  then show ?thesis
    using assms(2,4,5) by (simp add: free_info_def info_at_Some free_page_def page_at_Some)
qed

lemma ver2_step_inv:
  assumes "ver2_step junk d d'" "mmap_inv junk d"
  shows "mmap_inv junk d'"
  using assms
proof (cases rule: ver2_step.cases)
  case (st_open f n p name r)
  have "length name \<le> 4064" using st_open(4) by simp
  from st_open(5) [unfolded ver2_open_result [OF this]] show ?thesis
    using inv_open [OF assms(2) st_open(2,3,1), of "ver2_page name"] st_open(4)
    by (auto simp: inv_printk ver2_page_def hello_ver2_def)
next
  case (st_mmap f a r)
  then obtain n where n: "md_private d f = Some n" by blast
  then obtain i where i: "md_infos d n = Some i" using mmap_inv_private [OF assms(2)] by blast
  show ?thesis
    using st_mmap(3) inv_add_area [OF assms(2) i st_mmap(2)] n i
    by (simp add: ex6_mmap_def mmap_open_def info_at_Some)
next
  case (st_fork a v b)
  obtain n i where i: "ma_info v = Some n" "md_infos d n = Some i" using mmap_inv_area [OF assms(2) st_fork(1)] by blast
  have eq: "v\<lparr>ma_refs := 0\<rparr> = \<lparr>ma_info = Some n, ma_refs = 0\<rparr>" using i(1) by (cases v) simp
  show ?thesis
    using st_fork(3) [unfolded eq] inv_add_area [OF assms(2) i(2) st_fork(2)] i
    by (auto simp: mmap_open_def info_at_Some)
next
  case (st_fault a v r p d1)
  obtain n i where i: "ma_info v = Some n" "md_infos d n = Some i" using mmap_inv_area [OF assms(2) st_fault(2)] by blast
  obtain q f where f: "mi_data i = Some q" "md_pages d q = Some f" using mmap_invD(1) [OF assms(2) i(2)] by blast
  show ?thesis
    using st_fault(1,3) inv_fault [OF assms(2) st_fault(2) i f] i f
    by (auto simp add: mmap_fault_def info_at_Some page_at_Some)
next
  case (st_store a v n i p f bs)
  have "md_pages d p = Some f" using st_store(5) by (auto simp: page_at_def split: option.splits)
  then show ?thesis using st_store(1) inv_store [OF assms(2) _ st_store(6)] by simp
next
  case (st_unmap a v d1 d2)
  obtain n i where i: "ma_info v = Some n" "md_infos d n = Some i" using mmap_inv_area [OF assms(2) st_unmap(2)] by blast
  obtain q f where f: "mi_data i = Some q" "md_pages d q = Some f" "pg_count f = 1 + refs_on d n"
    using mmap_invD(1) [OF assms(2) i(2)] by blast
  have "ma_refs v \<le> refs_on d n" by (rule member_refs(2) [OF mmap_inv_finite [OF assms(2)] st_unmap(2) i(1)])
  then have "d1 = upd_page q (Some (f\<lparr>pg_count := pg_count f - ma_refs v\<rparr>)) d"
    using st_unmap(3) i f upd_page_idem [OF f(2)]
    by (auto simp: put_pages_def info_at_Some page_at_Some split: if_splits)
  then show ?thesis
    using st_unmap(1,4) inv_unmap [OF assms(2) st_unmap(2) i f(1,2)] i
    by (simp add: mmap_close_def info_at_Some)
next
  case (st_close f n r)
  obtain i where i: "md_infos d n = Some i" using mmap_inv_private [OF assms(2) st_close(1)] by blast
  obtain p where p: "mi_data i = Some p" using mmap_invD(1) [OF assms(2) i] by blast
  let ?e = "upd_private f None (upd_info n None (upd_page p None d))"
  obtain d1 where d1: "print_shared ?e = Inr d1" "d' = md_printk ''DEVICE CLOSED'' [] d1"
    using st_close(3) by (auto simp: ver2_close_def free_info_result [OF assms(2) st_close(1,2) i p] bindC_Inr_iff)
  then have "md_global d \<noteq> Some p" using print_shared_keeps by fastforce
  with d1 print_shared_keeps [OF d1(1)] inv_close [OF assms(2) st_close(1,2) i p] show ?thesis
    by (auto simp: inv_printk)
qed

lemma ver2_reach_inv: "ver2_reach junk d \<Longrightarrow> mmap_inv junk d"
proof (induction rule: ver2_reach.induct)
  case 1
  show ?case by (simp add: mmap_inv_def fresh_mmap_def)
qed (rule ver2_step_inv)

text \<open>C15 In every run of the device of \<^verbatim>\<open>ex6_ver2.c\<close> a mapping never shows a page that was freed: a
  page fault in any area hands out the page of the file that the area maps, which is still
  allocated and is the page of no other file, and \<open>reference\<close> counts the areas of that file,
  on top of what the allocator left in the field, which nobody initialises.\<close>

theorem ver2_mappings_live:
  assumes "ver2_reach junk d" "md_areas d a = Some v"
  shows "\<exists>n i p f d'. ma_info v = Some n \<and> md_infos d n = Some i \<and> md_pages d p = Some f \<and>
    mmap_fault (ma_info v) d = Inr ((0, Some p), d') \<and> pg_count f = 1 + refs_on d n \<and>
    (\<forall>m j. md_infos d m = Some j \<and> mi_data j = Some p \<longrightarrow> m = n) \<and>
    mi_reference i = junk n + of_nat (card (areas_on d n))"
proof -
  note inv = ver2_reach_inv [OF assms(1)]
  obtain n i where i: "ma_info v = Some n" "md_infos d n = Some i" using mmap_inv_area [OF inv assms(2)] by blast
  obtain p f where f: "mi_data i = Some p" "md_pages d p = Some f" "pg_count f = 1 + refs_on d n"
    using mmap_invD(1) [OF inv i(2)] by blast
  have "m = n" if "md_infos d m = Some j" "mi_data j = Some p" for m j
    using mmap_inv_own [OF inv that(1) i(2)] that(2) f(1) by simp
  moreover have "mmap_fault (ma_info v) d = Inr ((0, Some p), upd_page p (Some (f\<lparr>pg_count := pg_count f + 1\<rparr>)) d)"
    using i f by (simp add: mmap_fault_def info_at_Some page_at_Some)
  ultimately show ?thesis
    using i f(2,3) mmap_invD(2) [OF inv i(2)] by blast
qed

text \<open>One file is opened and mapped twice; the second mapping faults.\<close>

definition demo_name :: "byte list" where "demo_name = bytes_of ''dev''"

definition demo_open :: mmap_dev where
  "demo_open = md_printk ''DEVICE OPENED SUCCESSFULY'' [] (upd_private 7 (Some 0)
      (upd_page 3 (Some (ver2_page demo_name)) (upd_info 0 (Some \<lparr>mi_data = Some 3, mi_reference = 40\<rparr>)
        (fresh_mmap\<lparr>md_global := Some 3\<rparr>))))"

lemma demo_open_reach: "ver2_reach (\<lambda>_. 40) demo_open"
proof -
  have "ver2_open (Some 0) 40 (Some 3) 7 demo_name fresh_mmap = Inr (0, demo_open)"
    by (simp add: ver2_open_result demo_name_def demo_open_def)
  then have "ver2_step (\<lambda>_. 40) fresh_mmap demo_open"
    by (rule st_open [where n = 0 and f = 7 and p = 3 and name = demo_name and junk = "\<lambda>_. 40", rotated -1])
       (simp_all add: fresh_mmap_def demo_name_def)
  with ver2_reach.intros show ?thesis by blast
qed

definition demo_mapped :: mmap_dev where
  "demo_mapped = upd_info 0 (Some \<lparr>mi_data = Some 3, mi_reference = 41\<rparr>)
     (upd_area 1 (Some \<lparr>ma_info = Some 0, ma_refs = 0\<rparr>) demo_open)"

lemma demo_mapped_reach: "ver2_reach (\<lambda>_. 40) demo_mapped"
proof -
  have "ex6_mmap 7 1 demo_open = Inr (0, demo_mapped)"
    by (simp add: ex6_mmap_def mmap_open_def info_at_def demo_open_def demo_mapped_def)
  moreover have "md_private demo_open 7 \<noteq> None" "md_areas demo_open 1 = None"
    by (simp_all add: demo_open_def fresh_mmap_def)
  ultimately have "ver2_step (\<lambda>_. 40) demo_open demo_mapped" by (intro st_mmap)
  with demo_open_reach show ?thesis by (rule ver2_reach.intros(2))
qed

theorem ver2_mappings_live_witness:
  "\<exists>n i. ma_info \<lparr>ma_info = Some 0, ma_refs = 0\<rparr> = Some n \<and> md_infos demo_mapped n = Some i \<and>
     mi_reference i = 40 + of_nat (card (areas_on demo_mapped n))"
  using ver2_mappings_live [OF demo_mapped_reach, of 1 "\<lparr>ma_info = Some 0, ma_refs = 0\<rparr>"]
  by (auto simp: demo_mapped_def)

text \<open>The last close of a file frees its info and its page, provided the page that
  \<open>global_var\<close> points to holds a text; in \<^verbatim>\<open>ex6.c\<close>, that is. \<^verbatim>\<open>ex6_ver2.c\<close> prints that text after
  freeing, so the close of the file that was opened last reads freed memory.\<close>

theorem ver2_close_dangling:
  assumes "ver2_reach junk d" "md_private d pfile = Some n" "areas_on d n = {}"
    and "md_global d = Some g" "md_pages d g = Some f" "0 \<in> set (pg_bytes f)"
  shows "\<exists>p d6. mi_data (the (md_infos d n)) = Some p \<and>
    ex6_close pfile d = Inr (0, d6) \<and> md_infos d6 = (md_infos d)(n := None) \<and>
    md_pages d6 = (md_pages d)(p := None) \<and>
    (if g = p then ver2_close pfile d = Inl UseAfterFree
     else \<exists>d2. ver2_close pfile d = Inr (0, d2) \<and> md_infos d2 = md_infos d6 \<and> md_pages d2 = md_pages d6)"
proof -
  note inv = ver2_reach_inv [OF assms(1)]
  obtain i where i: "md_infos d n = Some i" using mmap_inv_private [OF inv assms(2)] by blast
  obtain p where p: "mi_data i = Some p" using mmap_invD(1) [OF inv i] by blast
  obtain k where k: "strlen (pg_bytes f) = Inr k"
    using split_list_first [OF assms(6)] by (auto simp: strlen_text)
  let ?t = "md_printk ''Kernel rading shared memory : %s'' [KStr (text_of (take k (pg_bytes f)))]"
  let ?e = "upd_private pfile None (upd_info n None (upd_page p None d))"
  have free: "free_info (Some n) pfile d = Inr ?e"
    using free_info_result [OF inv assms(2,3) i p] assms(2) by simp
  have pr: "print_shared d = Inr (?t d)"
    using assms(4,5) k by (simp add: print_shared_def page_at_Some)
  have "mmap_inv junk (?t d)" "areas_on (?t d) n = {}" using inv assms(3) by (simp_all add: inv_printk)
  from free_info_result [OF this(1) _ this(2) _ p, of pfile]
  have free6: "free_info (Some n) pfile (?t d) = Inr (upd_private pfile None (upd_info n None (upd_page p None (?t d))))"
    using assms(2) i by simp
  have "ver2_close pfile d = (if g = p then Inl UseAfterFree else Inr (0, md_printk ''DEVICE CLOSED'' [] (?t ?e)))"
    using assms(2,4,5) free k by (auto simp: ver2_close_def print_shared_def page_at_def)
  with i p show ?thesis
    using assms(2) pr free6 by (auto simp: ex6_close_def)
qed

theorem ver2_close_dangling_witness:
  "ver2_close 7 demo_open = Inl UseAfterFree"
proof -
  have "md_private demo_open 7 = Some 0" "areas_on demo_open 0 = {}" "md_global demo_open = Some 3"
    "md_pages demo_open 3 = Some (ver2_page demo_name)"
    by (simp_all add: demo_open_def areas_on_def fresh_mmap_def)
  from ver2_close_dangling [OF demo_open_reach this] show ?thesis
    by (auto simp: ver2_page_def demo_open_def demo_name_def)
qed

text \<open>
  \<open>char_open\<close> of \<^verbatim>\<open>ex6.c\<close> never returns: it copies two bytes more than its text has, and even
  if it did not, its second text goes behind the page it allocated.
\<close>

lemma ex6_open_overruns:
  "ex6_open info junk page pfile name d = Inl (if info = None then NullDeref else OutOfBounds) \<and>
   (info \<noteq> None \<longrightarrow> bs \<noteq> [] \<longrightarrow>
     (\<exists>d'. open_alloc info junk (Some p) d = Inr d' \<and> memcpy_page (Some p) 4096 bs d' = Inl OutOfBounds))"
  by (cases info)
     (auto simp: ex6_open_def open_alloc_def literal_def hello6_def Let_def memcpy_page_def page_at_def)

text \<open>What the processes find in the page, and what unloading the module prints.\<close>

lemma ver2_shares_text:
  assumes "length name \<le> 255" "0 \<notin> set name"
  shows "\<exists>d'. ver2_open (Some n) junk (Some p) pfile name d = Inr (0, d') \<and>
    md_pages d' p = Some (ver2_page name) \<and>
    print_shared d' = Inr (md_printk ''Kernel rading shared memory : %s'' [KStr (hello_ver2 @ text_of name)] d')"
proof -
  have z: "0 \<notin> set (bytes_of hello_ver2 @ name)"
    using assms(2) by (auto simp: hello_ver2_def bytes_of_def)
  have "4064 - length name = Suc (4063 - length name)" using assms(1) by simp
  then have "pg_bytes (ver2_page name) = (bytes_of hello_ver2 @ name) @ 0 # replicate (4063 - length name) 0"
    by (simp add: ver2_page_def)
  with strlen_text [OF z] have "strlen (pg_bytes (ver2_page name)) = Inr (length (bytes_of hello_ver2 @ name))"
    "take (length (bytes_of hello_ver2 @ name)) (pg_bytes (ver2_page name)) = bytes_of hello_ver2 @ name"
    by simp_all
  then show ?thesis
    using assms(1) by (simp add: ver2_open_result print_shared_def page_at_def text_of_append)
qed

end
