(* ===== verification/Sysfs_Modules.thy ===== *)
theory Sysfs_Modules
  imports Mmap_Device
begin

text \<open>
  Modules with integer files under \<^verbatim>\<open>/sys\<close>: \<^verbatim>\<open>kobject-example.c\<close>, and \<^verbatim>\<open>ex77.c\<close> with
  \<^verbatim>\<open>ex7_ver2.c\<close>, whose files \<open>flag\<close> and \<open>size\<close> control a shared page and whose device has a
  lock that processes take by \<open>ioctl\<close>. A file is read and written through a text; the local
  variable that \<open>sscanf\<close> fails to assign keeps what was on the stack (\<open>junk\<close>).
\<close>

section \<open>kobject-example.c\<close>

record kobj_state =
  ko_flag :: s32
  ko_size :: s32

definition show_int :: "s32 \<Rightarrow> int \<times> string" where
  "show_int v = (let buf = int_str (sint v) @ nl in (int (length buf), buf))"

definition scan_var :: "s32 \<Rightarrow> string \<Rightarrow> s32" where
  "scan_var old buf = (case scan_d buf of None \<Rightarrow> old | Some v \<Rightarrow> word_of_int v)"

definition flag_show :: "kobj_state \<Rightarrow> int \<times> string" where
  "flag_show k = show_int (ko_flag k)"

definition flag_store :: "string \<Rightarrow> int \<Rightarrow> kobj_state \<Rightarrow> int \<times> kobj_state" where
  "flag_store buf count k = (count, k\<lparr>ko_flag := scan_var (ko_flag k) buf\<rparr>)"

definition b_show :: "string \<Rightarrow> kobj_state \<Rightarrow> int \<times> string" where
  "b_show name k = show_int (if name = ''size'' then ko_size k else ko_flag k)"

definition b_store :: "string \<Rightarrow> s32 \<Rightarrow> string \<Rightarrow> int \<Rightarrow> kobj_state \<Rightarrow> int \<times> kobj_state" where
  "b_store name junk buf count k =
     (let var = scan_var junk buf
      in (count, if name = ''size'' then k\<lparr>ko_size := var\<rparr> else k\<lparr>ko_flag := var\<rparr>))"

text \<open>
  Loading: \<open>kobj\<close> says whether the directory could be created, \<open>grp\<close> is what
  \<open>sysfs_create_group\<close> returns. The second value is the number of references held to the
  directory. (The file does not link as it is: \<open>module_init\<close> names \<open>example_init\<close>, and the
  function is called \<open>init\<close>.)
\<close>

definition kobject_init :: "bool \<Rightarrow> errno \<Rightarrow> errno \<times> nat" where
  "kobject_init kobj grp =
     (if \<not> kobj then (- ENOMEM, 0)
      else let refs = 1; refs = (if grp \<noteq> 0 then refs - 1 else refs) in (grp, refs))"

definition kobject_exit :: "nat \<Rightarrow> nat" where
  "kobject_exit refs = refs - 1"

lemma scan_var_show: "scan_var old (snd (show_int v)) = v"
  by (simp add: scan_var_def show_int_def scan_d_int_str nl_def is_digit_def)

lemma scan_var_text: "scan_var old (int_str i @ nl) = word_of_int i"
  by (simp add: scan_var_def scan_d_int_str nl_def is_digit_def)

section \<open>ex77.c and ex7_ver2.c\<close>

text \<open>
  \<open>count\<close> counts the mappings, \<open>mp_info\<close> points to the shared info, and the device part is
  that of \<^verbatim>\<open>ex6.c\<close>: pages, infos, open files and areas.
\<close>

record shared_dev =
  sh_dev :: mmap_dev
  sh_flag :: s32
  sh_size :: s32
  sh_count :: s32
  sh_info :: "info_id option"   \<comment> \<open>\<open>mp_info\<close>\<close>
  sh_locked :: bool             \<comment> \<open>the mutex \<open>lock\<close>\<close>

definition sh_printk :: "string \<Rightarrow> karg list \<Rightarrow> shared_dev \<Rightarrow> shared_dev" where
  "sh_printk fmt args s = s\<lparr>sh_dev := md_printk fmt args (sh_dev s)\<rparr>"

text \<open>
  The lock: \<open>sig\<close> tells whether a signal interrupts the wait. \<open>mutex_unlock\<close> does not ask who
  holds the mutex. \<open>STATUS\<close> copies out a local variable that was never written; \<open>copy\<close> is what
  \<open>copy_to_user\<close> returns. The second value is what the process receives.
\<close>

definition LOCK :: u32 where "LOCK = 0xC0087100"
definition UNLOCK :: u32 where "UNLOCK = 0xC0087101"
definition STATUS :: u32 where "STATUS = 0xC0087102"

definition mutex_lock_interruptible :: "bool \<Rightarrow> shared_dev \<Rightarrow> crash + errno \<times> shared_dev" where
  "mutex_lock_interruptible sig s =
     (if \<not> sh_locked s then Inr (0, s\<lparr>sh_locked := True\<rparr>)
      else if sig then Inr (- EINTR, s) else Inl Blocks)"

definition mutex_unlock :: "shared_dev \<Rightarrow> shared_dev" where
  "mutex_unlock s = s\<lparr>sh_locked := False\<rparr>"

definition dev_ioctl ::
  "bool \<Rightarrow> nat \<Rightarrow> s32 \<Rightarrow> u32 \<Rightarrow> shared_dev \<Rightarrow> crash + (errno \<times> s32 option) \<times> shared_dev"
where
  "dev_ioctl sig copy junk cmd s =
     (if cmd = LOCK then
        bindC (mutex_lock_interruptible sig s) (\<lambda>(r, s).
          if r \<noteq> 0 then Inr ((- ERESTARTSYS, None), s) else Inr ((0, None), s))
      else if cmd = UNLOCK then Inr ((0, None), mutex_unlock s)
      else if cmd = STATUS then
        (if copy \<noteq> 0 then Inr ((- EACCES, None), s) else Inr ((0, Some junk), s))
      else Inr ((- EINVAL, None), s))"

definition sh_mmap_open :: "shared_dev \<Rightarrow> shared_dev" where
  "sh_mmap_open s = (sh_printk ''inside mmap_open()'' [] s)\<lparr>sh_count := sh_count s + 1\<rparr>"

definition sh_mmap_close :: "shared_dev \<Rightarrow> shared_dev" where
  "sh_mmap_close s =
     (let s = mutex_unlock (sh_printk ''inside mmap_close()'' [] s) in s\<lparr>sh_count := sh_count s - 1\<rparr>)"

definition sh_mmap_fault :: "info_id option \<Rightarrow> shared_dev \<Rightarrow> crash + (errno \<times> page_id option) \<times> shared_dev" where
  "sh_mmap_fault priv s =
     (let s = s\<lparr>sh_info := priv\<rparr> in
      bindC (info_at (sh_info s) (sh_dev s)) (\<lambda>(n, i).
        case mi_data i of
          None \<Rightarrow> Inr ((- 1, None), sh_printk ''Error : null pointer'' [] s)
        | Some _ \<Rightarrow> bindC (page_at (mi_data i) (sh_dev s)) (\<lambda>(p, f).
            Inr ((0, Some p), s\<lparr>sh_dev := upd_page p (Some (f\<lparr>pg_count := pg_count f + 1\<rparr>)) (sh_dev s)\<rparr>))))"

definition sh_mmap :: "file_id \<Rightarrow> area_id \<Rightarrow> shared_dev \<Rightarrow> errno \<times> shared_dev" where
  "sh_mmap pfile vma s =
     (let s = sh_printk ''inside mmap_mmap()'' [] s;
          s = s\<lparr>sh_dev := upd_area vma (Some \<lparr>ma_info = md_private (sh_dev s) pfile, ma_refs = 0\<rparr>) (sh_dev s)\<rparr>;
          s = sh_mmap_open s
      in (0, sh_printk ''leaving mmap_mmap()'' [] s))"

definition sh_char_close :: "file_id \<Rightarrow> shared_dev \<Rightarrow> crash + errno \<times> shared_dev" where
  "sh_char_close pfile s =
     bindC (info_at (md_private (sh_dev s) pfile) (sh_dev s)) (\<lambda>(n, i).
     bindC (free_page (mi_data i) (sh_dev s)) (\<lambda>d.
       Inr (0, s\<lparr>sh_dev := upd_private pfile None d\<rparr>)))"

definition sh_char_open :: "file_id \<Rightarrow> shared_dev \<Rightarrow> errno \<times> shared_dev" where
  "sh_char_open pfile s = (0, s\<lparr>sh_dev := upd_private pfile (sh_info s) (sh_dev s)\<rparr>)"

text \<open>The files. Both show functions are \<open>flag_show\<close>, which looks at the name.\<close>

definition sh_flag_show :: "string \<Rightarrow> shared_dev \<Rightarrow> int \<times> string" where
  "sh_flag_show name s = show_int (if name = ''flag'' then sh_flag s else sh_size s)"

definition sh_flag_store :: "s32 \<Rightarrow> string \<Rightarrow> int \<Rightarrow> shared_dev \<Rightarrow> int \<times> shared_dev" where
  "sh_flag_store junk buf count2 s =
     (let var = scan_var junk buf;
          s = sh_printk ''inside flag_store()%s'' [KStr buf] s
      in if var = 0 then
           (if sh_count s \<noteq> 0
            then (count2, sh_printk ''%d Processes sharing memory'' [KInt (sint (sh_count s))] s)
            else (count2, s\<lparr>sh_flag := var\<rparr>))
         else (count2, s\<lparr>sh_flag := var\<rparr>))"

text \<open>
  Changing the size: the old page and info are freed, a new array of infos is allocated
  (\<open>info\<close> is the allocator's answer) and a text is copied to where its \<open>data\<close> points to. In
  \<^verbatim>\<open>ex77.c\<close> \<open>data\<close> is what the allocator left there; \<^verbatim>\<open>ex7_ver2.c\<close> allocates a page (\<open>page\<close>).
\<close>

definition drop_info :: "shared_dev \<Rightarrow> crash + shared_dev" where
  "drop_info s =
     (if 0 <s sh_size s then
        bindC (info_at (sh_info s) (sh_dev s)) (\<lambda>(n, i).
        bindC (free_page (mi_data i) (sh_dev s)) (\<lambda>d. Inr (s\<lparr>sh_dev := upd_info n None d\<rparr>)))
      else Inr s)"

definition ex77_size_store ::
  "info_id option \<Rightarrow> s32 \<Rightarrow> string \<Rightarrow> int \<Rightarrow> shared_dev \<Rightarrow> crash + int \<times> shared_dev"
where
  "ex77_size_store info junk buf count2 s =
     (let tmp = scan_var junk buf;
          s = sh_printk ''inside store() %d'' [KInt (sint tmp)] s
      in if sh_size s <s tmp \<and> sh_count s = 0 then
           bindC (drop_info s) (\<lambda>s.
             case info of None \<Rightarrow> Inl NullDeref | Some n \<Rightarrow> Inl Uninitialised)
         else Inr (count2, s))"

definition ver2_size_store ::
  "info_id option \<Rightarrow> s32 \<Rightarrow> page_id option \<Rightarrow> s32 \<Rightarrow> string \<Rightarrow> int \<Rightarrow> shared_dev \<Rightarrow> crash + int \<times> shared_dev"
where
  "ver2_size_store info ref page junk buf count2 s =
     (let tmp = scan_var junk buf;
          s = sh_printk ''inside store() %d'' [KInt (sint tmp)] s
      in if sh_size s <s tmp \<and> sh_count s = 0 then
           bindC (drop_info s) (\<lambda>s.
           let s = s\<lparr>sh_size := tmp, sh_info := info\<rparr> in
           case info of
             None \<Rightarrow> Inl NullDeref
           | Some n \<Rightarrow>
               let d = upd_info n (Some \<lparr>mi_data = page, mi_reference = ref\<rparr>) (sh_dev s);
                   d = (case page of None \<Rightarrow> d
                        | Some p \<Rightarrow> upd_page p (Some \<lparr>pg_bytes = replicate 4096 0, pg_count = 1\<rparr>) d)
               in bindC (literal ''Hello this is kernel.'' 21) (\<lambda>lit.
                  bindC (memcpy_page page 0 lit d) (\<lambda>d. Inr (count2, s\<lparr>sh_dev := d\<rparr>))))
         else Inr (count2, s))"

text \<open>
  Loading and unloading: \<open>grp\<close> and \<open>reg\<close> are what \<open>sysfs_create_group\<close> and
  \<open>register_chrdev(0, ...)\<close> return; the results are what \<open>init\<close> returns, the major number
  kept, and the number unloading unregisters, which is \<open>flag\<close>.
\<close>

definition sh_init :: "errno \<Rightarrow> int \<Rightarrow> shared_dev \<Rightarrow> (errno \<times> int) \<times> shared_dev" where
  "sh_init grp reg s =
     (let s = (if reg < 0 then sh_printk ''ERROR : Unable to register'' [] s
               else sh_printk ''mknod /dev/my_char_device c %d 0'' [KInt reg] s)
      in ((grp, reg), sh_printk ''inside init()'' [] s))"

definition sh_cleanup :: "shared_dev \<Rightarrow> s32 \<times> shared_dev" where
  "sh_cleanup s = (sh_flag s, sh_printk ''lkm removed'' [] s)"

section \<open>Round trips\<close>

text \<open>What a file of \<^verbatim>\<open>kobject-example.c\<close> shows, written back to it, restores the variable it
  stands for and no other, whatever the variable holds by then; a decimal number with a newline
  sets it modulo \<open>2 ^ 32\<close>; and a text that is no number leaves \<open>flag\<close> alone, but stores what the
  stack held when it is written to \<open>size\<close>.\<close>

theorem kobject_files:
  "flag_store (snd (flag_show k)) c k' = (c, k'\<lparr>ko_flag := ko_flag k\<rparr>) \<and>
   b_store ''size'' junk (snd (b_show ''size'' k)) c k' = (c, k'\<lparr>ko_size := ko_size k\<rparr>) \<and>
   flag_store (int_str i @ nl) c k' = (c, k'\<lparr>ko_flag := word_of_int i\<rparr>) \<and>
   b_store ''size'' junk (int_str i @ nl) c k' = (c, k'\<lparr>ko_size := word_of_int i\<rparr>) \<and>
   (if scan_d buf = None then flag_store buf c k' = (c, k') \<and>
      b_store ''size'' junk buf c k' = (c, k'\<lparr>ko_size := junk\<rparr>) else True)"
  by (simp add: flag_store_def flag_show_def b_store_def b_show_def scan_var_show scan_var_text Let_def
      scan_var_def [of _ buf])

section \<open>The runs of ex77.c\<close>

definition fresh_shared :: shared_dev where
  "fresh_shared = \<lparr>sh_dev = fresh_mmap, sh_flag = 0, sh_size = 0, sh_count = 0, sh_info = None, sh_locked = False\<rparr>"

text \<open>A fork copies an area and opens it; the end of an area closes it.\<close>

inductive ex77_step :: "shared_dev \<Rightarrow> shared_dev \<Rightarrow> bool" where
  x_flag: "ex77_step s (snd (sh_flag_store junk buf c s))"
| x_size: "ex77_size_store info junk buf c s = Inr (r, s') \<Longrightarrow> ex77_step s s'"
| x_ioctl: "dev_ioctl sig copy junk cmd s = Inr (r, s') \<Longrightarrow> ex77_step s s'"
| x_open: "ex77_step s (snd (sh_char_open f s))"
| x_close: "sh_char_close f s = Inr (r, s') \<Longrightarrow> ex77_step s s'"
| x_mmap: "md_areas (sh_dev s) a = None \<Longrightarrow> ex77_step s (snd (sh_mmap f a s))"
| x_fork: "md_areas (sh_dev s) a = Some v \<Longrightarrow> md_areas (sh_dev s) b = None \<Longrightarrow>
     ex77_step s (sh_mmap_open (s\<lparr>sh_dev := upd_area b (Some v) (sh_dev s)\<rparr>))"
| x_fault: "md_areas (sh_dev s) a = Some v \<Longrightarrow> sh_mmap_fault (ma_info v) s = Inr (r, s') \<Longrightarrow> ex77_step s s'"
| x_unmap: "md_areas (sh_dev s) a = Some v \<Longrightarrow>
     ex77_step s (let s' = sh_mmap_close s in s'\<lparr>sh_dev := upd_area a None (sh_dev s')\<rparr>)"

inductive ex77_reach :: "shared_dev \<Rightarrow> bool" where
  "ex77_reach fresh_shared"
| "ex77_reach s \<Longrightarrow> ex77_step s s' \<Longrightarrow> ex77_reach s'"

definition ex77_inv :: "shared_dev \<Rightarrow> bool" where
  "ex77_inv s \<longleftrightarrow> sh_size s = 0 \<and> sh_info s = None \<and> (\<forall>f. md_private (sh_dev s) f = None) \<and>
     (\<forall>a v. md_areas (sh_dev s) a = Some v \<longrightarrow> ma_info v = None) \<and>
     finite (dom (md_areas (sh_dev s))) \<and> sh_count s = of_nat (card (dom (md_areas (sh_dev s))))"

lemmas sh_simps = sh_printk_def mutex_unlock_def mutex_lock_interruptible_def Let_def

interpretation ex77: area_counter "\<lambda>s. Inr (sh_mmap_open s)" "\<lambda>s. Inr (sh_mmap_close s)" "\<lambda>s. Some (sh_count s)"
  by unfold_locales (simp_all add: sh_mmap_open_def sh_mmap_close_def sh_simps)

lemma ex77_size_store_inv:
  "ex77_size_store info junk buf c s = Inr (r, s') \<Longrightarrow> r = c \<and> s' = sh_printk ''inside store() %d'' [KInt (sint (scan_var junk buf))] s"
  by (auto simp: ex77_size_store_def Let_def bindC_Inr_iff split: if_splits option.splits)

lemma dev_ioctl_inv: "dev_ioctl sig copy junk cmd s = Inr (r, s') \<Longrightarrow> s'\<lparr>sh_locked := x\<rparr> = s\<lparr>sh_locked := x\<rparr>"
  by (auto simp: dev_ioctl_def sh_simps split: if_splits)

lemma ex77_inv_lock: "ex77_inv (s\<lparr>sh_locked := x\<rparr>) = ex77_inv s"
  by (simp add: ex77_inv_def)

lemma ex77_step_inv: "ex77_step s s' \<Longrightarrow> ex77_inv s \<Longrightarrow> ex77_inv s'"
proof (induction rule: ex77_step.induct)
  case (x_ioctl sig copy junk cmd s r s')
  from dev_ioctl_inv [OF x_ioctl(1), of True] x_ioctl(2) show ?case
    by (metis ex77_inv_lock)
next
  case (x_unmap s a v)
  have "a \<in> dom (md_areas (sh_dev s))" using x_unmap(1) by blast
  with x_unmap(2) have "card (dom (md_areas (sh_dev s))) = Suc (card (dom (md_areas (sh_dev s)) - {a}))"
    by (metis card_Suc_Diff1 ex77_inv_def)
  with x_unmap show ?case
    by (auto simp: ex77_inv_def sh_mmap_close_def sh_simps)
qed (auto simp: ex77_inv_def sh_simps sh_flag_store_def sh_char_open_def sh_char_close_def sh_mmap_def
    sh_mmap_open_def sh_mmap_fault_def info_at_def card_insert_if domIff dest!: ex77_size_store_inv split: if_splits)

lemma ex77_reach_inv: "ex77_reach s \<Longrightarrow> ex77_inv s"
proof (induction rule: ex77_reach.induct)
  case 1
  show ?case by (simp add: ex77_inv_def fresh_shared_def fresh_mmap_def)
qed (rule ex77_step_inv)

text \<open>\<^verbatim>\<open>ex77.c\<close> never shares a page: whatever processes do, the size stays 0, for every request
  that would raise it while nothing is mapped writes through a pointer that was never set (or is
  null); so a page fault in a mapping and the last close of a file follow a null pointer. The
  counter of mappings is right, and while there are some \<open>flag\<close> cannot be cleared.\<close>

theorem ex77_never_shares:
  assumes "ex77_reach s"
  shows "sh_size s = 0 \<and>
    (0 <s scan_var junk buf \<and> sh_count s = 0 \<longrightarrow>
       ex77_size_store info junk buf c s = Inl (if info = None then NullDeref else Uninitialised)) \<and>
    (\<forall>a v. md_areas (sh_dev s) a = Some v \<longrightarrow> sh_mmap_fault (ma_info v) s = Inl NullDeref) \<and>
    sh_char_close pfile s = Inl NullDeref \<and>
    sh_count s = of_nat (card (dom (md_areas (sh_dev s)))) \<and>
    (md_areas (sh_dev s) a = Some v \<and> card (dom (md_areas (sh_dev s))) < 2 ^ 32 \<longrightarrow>
       sh_flag (snd (sh_flag_store junk (int_str 0 @ nl) c s)) = sh_flag s)"
proof -
  note inv = ex77_reach_inv [OF assms, unfolded ex77_inv_def]
  have "sh_count s \<noteq> 0"
    if "md_areas (sh_dev s) a = Some v" "card (dom (md_areas (sh_dev s))) < 2 ^ 32"
  proof -
    have "dom (md_areas (sh_dev s)) \<noteq> {}" using that(1) by blast
    then have "0 < card (dom (md_areas (sh_dev s)))" using inv by (simp add: card_gt_0_iff)
    moreover have "unat (sh_count s) = card (dom (md_areas (sh_dev s)))"
      using inv that(2) by (simp add: unat_of_nat)
    ultimately show ?thesis by auto
  qed
  then show ?thesis
    using inv
    by (auto simp: ex77_size_store_def drop_info_def sh_simps sh_mmap_fault_def info_at_def sh_char_close_def
        sh_flag_store_def scan_var_text split: option.split)
qed

text \<open>A file is opened and mapped.\<close>

definition shared_mapped :: shared_dev where
  "shared_mapped = snd (sh_mmap 7 1 (snd (sh_char_open 7 fresh_shared)))"

lemma shared_mapped_reach: "ex77_reach shared_mapped"
proof -
  have "ex77_reach (snd (sh_char_open 7 fresh_shared))"
    using ex77_reach.intros x_open by blast
  moreover have "md_areas (sh_dev (snd (sh_char_open 7 fresh_shared))) 1 = None"
    by (simp add: sh_char_open_def fresh_shared_def fresh_mmap_def)
  ultimately show ?thesis
    unfolding shared_mapped_def using ex77_reach.intros(2) x_mmap by blast
qed

theorem ex77_never_shares_witness:
  "sh_mmap_fault None shared_mapped = Inl NullDeref \<and> sh_char_close 7 shared_mapped = Inl NullDeref \<and>
   sh_count shared_mapped = 1"
proof -
  have areas: "md_areas (sh_dev shared_mapped) = [1 \<mapsto> \<lparr>ma_info = None, ma_refs = 0\<rparr>]"
    by (simp add: shared_mapped_def sh_mmap_def sh_char_open_def sh_mmap_open_def sh_simps fresh_shared_def fresh_mmap_def)
  note th = ex77_never_shares [OF shared_mapped_reach, of 0 "[]" None 0 7 1 "\<lparr>ma_info = None, ma_refs = 0\<rparr>"]
  from th have "\<forall>a v. md_areas (sh_dev shared_mapped) a = Some v \<longrightarrow> sh_mmap_fault (ma_info v) shared_mapped = Inl NullDeref"
    by blast
  from spec [OF spec [OF this, of 1], of "\<lparr>ma_info = None, ma_refs = 0\<rparr>"] th show ?thesis by (simp add: areas)
qed

text \<open>The lock of \<^verbatim>\<open>ex77.c\<close> excludes others only until somebody unmaps: with the lock held, a
  further \<open>LOCK\<close> sleeps (or is interrupted), but after any process's mapping ends, its \<open>close\<close>
  has unlocked the mutex and the next \<open>LOCK\<close> is granted beside the one still held.\<close>

theorem ex77_lock_stolen:
  assumes "dev_ioctl sig copy junk LOCK s = Inr ((0, u), s1)"
  shows "dev_ioctl sig' copy' junk' LOCK s1 = (if sig' then Inr ((- ERESTARTSYS, None), s1) else Inl Blocks) \<and>
    (\<exists>s2. dev_ioctl sig' copy' junk' LOCK (sh_mmap_close s1) = Inr ((0, None), s2) \<and> sh_locked s2)"
proof -
  have "sh_locked s1"
    using assms by (auto simp: dev_ioctl_def mutex_lock_interruptible_def split: if_splits)
  then show ?thesis
    by (simp add: dev_ioctl_def mutex_lock_interruptible_def sh_mmap_close_def mutex_unlock_def Let_def)
qed

theorem ex77_lock_stolen_witness:
  "\<exists>s1 s2. dev_ioctl False 0 5 LOCK shared_mapped = Inr ((0, None), s1) \<and>
     dev_ioctl False 0 6 LOCK s1 = Inl Blocks \<and>
     dev_ioctl False 0 6 LOCK (sh_mmap_close s1) = Inr ((0, None), s2)"
proof -
  have l: "dev_ioctl False 0 5 LOCK shared_mapped = Inr ((0, None), shared_mapped\<lparr>sh_locked := True\<rparr>)"
    by (simp add: dev_ioctl_def mutex_lock_interruptible_def shared_mapped_def sh_mmap_def sh_char_open_def
        sh_mmap_open_def sh_simps fresh_shared_def)
  with ex77_lock_stolen [OF l, of False 0 6] show ?thesis by auto
qed

text \<open>
  \<^verbatim>\<open>ex7_ver2.c\<close> does allocate a page, once. The last close frees it and keeps the pointer, so
  raising the size again frees it a second time.
\<close>

lemma ver2_size_store_result:
  assumes "sh_size s = 0" "sh_count s = 0" "0 <s scan_var junk buf"
  shows "\<exists>s' f. ver2_size_store (Some n) ref (Some p) junk buf c s = Inr (c, s') \<and>
    sh_size s' = scan_var junk buf \<and> sh_info s' = Some n \<and> sh_count s' = 0 \<and>
    md_infos (sh_dev s') n = Some \<lparr>mi_data = Some p, mi_reference = ref\<rparr> \<and>
    md_pages (sh_dev s') p = Some f \<and> pg_count f = 1 \<and>
    take 21 (pg_bytes f) = bytes_of ''Hello this is kernel.'' \<and> length (pg_bytes f) = 4096"
  using assms
  by (simp add: ver2_size_store_def drop_info_def sh_printk_def Let_def literal_def memcpy_page_def page_at_Some)

lemma ver2_double_free:
  assumes "sh_size s = 0" "sh_count s = 0" "0 <s scan_var junk buf" "scan_var junk buf <s scan_var junk' buf'"
  shows "\<exists>s1 s2. ver2_size_store (Some n) ref (Some p) junk buf c s = Inr (c, s1) \<and>
    sh_char_close pfile (snd (sh_char_open pfile s1)) = Inr (0, s2) \<and>
    ver2_size_store info ref' page junk' buf' c s2 = Inl UseAfterFree"
proof -
  obtain s1 f where s1: "ver2_size_store (Some n) ref (Some p) junk buf c s = Inr (c, s1)"
    "sh_size s1 = scan_var junk buf" "sh_info s1 = Some n" "sh_count s1 = 0"
    "md_infos (sh_dev s1) n = Some \<lparr>mi_data = Some p, mi_reference = ref\<rparr>"
    "md_pages (sh_dev s1) p = Some f" "pg_count f = 1"
    using ver2_size_store_result [OF assms(1-3), of n ref p c] by blast
  then show ?thesis
    using assms(3,4)
    by (simp add: sh_char_close_def sh_char_open_def info_at_def free_page_def page_at_def
        ver2_size_store_def drop_info_def sh_printk_def Let_def)
qed

end
