(* ===== verification/File_Details.thy ===== *)
theory File_Details
  imports Kernel_Strings
begin

text \<open>
  \<^verbatim>\<open>ex9/exer9_ver3.c\<close>: three files under \<^verbatim>\<open>/sys/kernel\<close>. Writing a file name to \<open>filename\<close> and
  a process number to \<open>pid\<close> looks the name up among the open files of that process, and
  reading \<open>output\<close> shows what was found. The process table and the open files are data of
  the kernel; a pointer to a function is shown as an address.
\<close>

section \<open>Processes and their open files\<close>

record inode =
  i_atime :: int
  i_mtime :: int
  i_blocks :: int
  i_size :: int
  i_bytes :: int
  i_ino :: int

record kfile =
  f_path :: string
  f_inode :: inode
  f_count :: int
  f_pos :: int
  f_op_open :: u64
  f_op_release :: u64

text \<open>
  The table of open files has an entry per descriptor; \<open>None\<close> is the null pointer of a
  descriptor that is not in use. A process that is exiting has no table.
\<close>

type_synonym fd_table = "kfile option list"
type_synonym process_table = "int \<Rightarrow> fd_table option option"

record details_mod =
  dm_filename :: string
  dm_pid :: s32
  dm_output :: string
  dm_leaked :: nat        \<comment> \<open>buffers allocated and never freed\<close>
  dm_log :: "kmsg list"

definition dm_printk :: "string \<Rightarrow> karg list \<Rightarrow> details_mod \<Rightarrow> details_mod" where
  "dm_printk fmt args m = m\<lparr>dm_log := dm_log m @ [Printk fmt args]\<rparr>"

abbreviation (input) inside :: "string \<Rightarrow> details_mod \<Rightarrow> details_mod" where
  "inside fn \<equiv> dm_printk ''inside the %s function'' [KStr fn]"

section \<open>The report\<close>

definition kbasename :: "string \<Rightarrow> string" where
  "kbasename p = rev (takeWhile (\<lambda>c. c \<noteq> CHR ''/'') (rev p))"

text \<open>\<open>%p\<close>: sixteen hexadecimal digits, the null pointer as a word.\<close>

definition ptr_str :: "u64 \<Rightarrow> string" where
  "ptr_str a = (if a = 0 then ''          (null)''
     else map (\<lambda>k. ''0123456789abcdef'' ! (unat a div 16 ^ k mod 16)) (rev [0..<16]))"

definition report :: "nat \<Rightarrow> kfile \<Rightarrow> string" where
  "report i f =
     ''file fd: '' @ int_str (int i) @ nl @ '' Path : '' @ f_path f @ '' '' @ nl @
     '' Acess time '' @ int_str (i_atime (f_inode f)) @ '' '' @ nl @
     '' Modified Time '' @ int_str (i_mtime (f_inode f)) @ '' '' @ nl @
     '' blocks '' @ int_str (i_blocks (f_inode f)) @ '' '' @ nl @
     '' Size in bytes '' @ int_str (i_size (f_inode f)) @ '' '' @ nl @
     '' Consumed bytes '' @ int_str (i_bytes (f_inode f)) @ '' '' @ nl @
     '' No ofopen instances '' @ int_str (f_count f) @ '' '' @ nl @
     '' inode no '' @ int_str (i_ino (f_inode f)) @ '' '' @ nl @
     '' offset '' @ int_str (f_pos f) @ '' '' @ nl @
     '' open function address '' @ ptr_str (f_op_open f) @ '' '' @ nl @
     '' relese function address '' @ ptr_str (f_op_release f) @ '' '' @ nl"

definition report_log :: "nat \<Rightarrow> kfile \<Rightarrow> kmsg list" where
  "report_log i f =
     [Printk ''file fd %d %s'' [KInt (int i), KStr (f_path f)],
      Printk ''Acess time %ld'' [KInt (i_atime (f_inode f))],
      Printk ''MOdified time %ld'' [KInt (i_mtime (f_inode f))],
      Printk ''blocks %ld'' [KInt (i_blocks (f_inode f))],
      Printk ''size in bytes %ld'' [KInt (i_size (f_inode f))],
      Printk ''consumed bytes %ld'' [KInt (i_bytes (f_inode f))],
      Printk ''NO of open instances %ld'' [KInt (f_count f)],
      Printk ''inode no: %ld'' [KInt (i_ino (f_inode f))],
      Printk ''offset %ld'' [KInt (f_pos f)],
      Printk ''open function address %p'' [KAddr (f_op_open f)],
      Printk ''release function address %p'' [KAddr (f_op_release f)]]"

text \<open>
  \<open>d_path\<close> into a buffer of 100 bytes: an error pointer when the path does not fit, which the
  code follows.
\<close>

definition d_path :: "string \<Rightarrow> nat \<Rightarrow> crash + string" where
  "d_path p n = (if length p + 1 \<le> n then Inr p else Inl BadPointer)"

text \<open>The loop over the descriptors, which the first one that is not in use ends.\<close>

fun fd_loop :: "nat \<Rightarrow> fd_table \<Rightarrow> details_mod \<Rightarrow> crash + details_mod" where
  "fd_loop i [] m = Inl OutOfBounds"
| "fd_loop i (None # fs) m = Inr m"
| "fd_loop i (Some f # fs) m =
     bindC (d_path (f_path f) 100) (\<lambda>cwd.
       let m = dm_printk ''path %s, filename %s'' [KStr cwd, KStr (kbasename cwd)] m in
       if kbasename cwd = dm_filename m
       then bindC (sprintf_to 500 (report i f)) (\<lambda>txt.
              Inr (m\<lparr>dm_output := txt, dm_log := dm_log m @ report_log i f\<rparr>))
       else fd_loop (Suc i) fs m)"

text \<open>
  \<open>fs_details\<close>: the arguments of \<open>kmalloc\<close> are swapped, so what is asked for is \<open>GFP_KERNEL\<close>
  bytes (\<open>alloc\<close> says whether they are granted), of which 100 are cleared.
\<close>

definition GFP_KERNEL :: nat where "GFP_KERNEL = 0xD0"

definition fs_details :: "process_table \<Rightarrow> bool \<Rightarrow> int \<Rightarrow> details_mod \<Rightarrow> crash + errno \<times> details_mod" where
  "fs_details procs alloc pid m =
     (if \<not> alloc then Inl NullDeref
      else if GFP_KERNEL < 100 then Inl OutOfBounds
      else
        let m = m\<lparr>dm_leaked := dm_leaked m + 1, dm_output := []\<rparr> in
        (case procs pid of
           None \<Rightarrow> Inl NullDeref
         | Some None \<Rightarrow> Inl NullDeref
         | Some (Some fdt) \<Rightarrow> bindC (fd_loop 0 fdt m) (\<lambda>m. Inr (0, inside ''fs_details'' m))))"

section \<open>The files\<close>

definition filename_show :: "details_mod \<Rightarrow> int \<times> string" where
  "filename_show m = (let buf = dm_filename m @ nl in (int (length buf), buf))"

definition filename_store :: "string \<Rightarrow> int \<Rightarrow> details_mod \<Rightarrow> crash + int \<times> details_mod" where
  "filename_store buf count m =
     bindC (case scan_s buf of None \<Rightarrow> Inr m
            | Some w \<Rightarrow> bindC (sprintf_to 50 w) (\<lambda>w. Inr (m\<lparr>dm_filename := w\<rparr>)))
       (\<lambda>m. Inr (count, inside ''filename_store'' m))"

definition pid_show :: "details_mod \<Rightarrow> int \<times> string" where
  "pid_show m = (let buf = int_str (sint (dm_pid m)) @ nl in (int (length buf), buf))"

definition pid_store :: "process_table \<Rightarrow> bool \<Rightarrow> string \<Rightarrow> int \<Rightarrow> details_mod \<Rightarrow> crash + int \<times> details_mod" where
  "pid_store procs alloc buf count m =
     (let m = (case scan_d buf of None \<Rightarrow> m | Some v \<Rightarrow> m\<lparr>dm_pid := word_of_int v\<rparr>)
      in bindC (if sint (dm_pid m) \<noteq> - 1
                then bindC (fs_details procs alloc (sint (dm_pid m)) m) (\<lambda>(r, m). Inr m) else Inr m)
           (\<lambda>m. Inr (count, inside ''pid_store'' m)))"

definition foutput_show :: "details_mod \<Rightarrow> (int \<times> string) \<times> details_mod" where
  "foutput_show m = (let buf = dm_output m @ nl in ((int (length buf), buf), inside ''foutput_show'' m))"

definition foutput_store :: "string \<Rightarrow> int \<Rightarrow> details_mod \<Rightarrow> int \<times> details_mod" where
  "foutput_store buf count m = (count, inside ''foutput_store'' m)"

text \<open>
  Loading: two directories (\<open>kobj\<close>), two groups of files (\<open>grp\<close>); the errors of the groups are
  dropped. The result: what \<open>init\<close> returns, and the directories that are left.
\<close>

definition details_init :: "bool \<times> bool \<Rightarrow> errno \<times> errno \<Rightarrow> errno \<times> nat" where
  "details_init kobj grp =
     (if \<not> fst kobj then (- ENOMEM, 0)
      else
        let dirs = (if fst grp \<noteq> 0 then 0 else 1)
        in if \<not> snd kobj then (- ENOMEM, dirs)
           else (0, dirs + (if snd grp \<noteq> 0 then 0 else 1)))"

section \<open>What is looked up\<close>

text \<open>The reference: the first open file with the name, and its descriptor.\<close>

definition file_named :: "string \<Rightarrow> nat \<Rightarrow> kfile list \<Rightarrow> (nat \<times> kfile) option" where
  "file_named name k fs = find (\<lambda>(i, f). kbasename (f_path f) = name) (enumerate k fs)"

lemma fd_loop_result:
  assumes "\<forall>f \<in> set fs. length (f_path f) < 100" "\<forall>(i, f) \<in> set (enumerate k fs). length (report i f) < 500"
  shows "\<exists>l. fd_loop k (map Some fs @ None # rest) m =
    Inr (m\<lparr>dm_output := (case file_named (dm_filename m) k fs of None \<Rightarrow> dm_output m | Some (i, f) \<Rightarrow> report i f),
           dm_log := dm_log m @ l\<rparr>)"
  using assms
proof (induction fs arbitrary: k m)
  case Nil
  show ?case by (auto simp: file_named_def intro: exI [of _ "[]"])
next
  case (Cons f fs)
  let ?msg = "Printk ''path %s, filename %s'' [KStr (f_path f), KStr (kbasename (f_path f))]"
  show ?case
  proof (cases "kbasename (f_path f) = dm_filename m")
    case True
    then show ?thesis
      using Cons.prems
      by (auto simp: file_named_def d_path_def sprintf_to_def dm_printk_def Let_def intro!: exI [of _ "?msg # report_log k f"])
  next
    case False
    let ?m = "dm_printk ''path %s, filename %s'' [KStr (f_path f), KStr (kbasename (f_path f))] m"
    have step: "fd_loop k (map Some (f # fs) @ None # rest) m = fd_loop (Suc k) (map Some fs @ None # rest) ?m"
      using False Cons.prems by (simp add: d_path_def dm_printk_def Let_def)
    obtain l where "fd_loop (Suc k) (map Some fs @ None # rest) ?m =
      Inr (?m\<lparr>dm_output := (case file_named (dm_filename ?m) (Suc k) fs of None \<Rightarrow> dm_output ?m | Some (i, f) \<Rightarrow> report i f),
           dm_log := dm_log ?m @ l\<rparr>)"
      using Cons.IH [of "Suc k" ?m] Cons.prems by auto
    with step False show ?thesis
      by (auto simp: dm_printk_def file_named_def cong: option.case_cong intro!: exI [of _ "?msg # l"])
  qed
qed

text \<open>Writing a process number to \<open>pid\<close> leaves in \<open>output\<close> the report on the first of the
  process's open files that has the name, with its descriptor, or nothing if there is none; only
  the files below the first descriptor that is not in use are looked at. The name is kept, and a
  buffer is lost. The paths have to fit the buffer of 100 bytes and the report that of 500.\<close>

theorem pid_store_reports:
  assumes "scan_d buf = Some v" "pid = sint (word_of_int v :: s32)" "pid \<noteq> - 1"
    and "procs pid = Some (Some (map Some fs @ None # rest))"
    and "\<forall>f \<in> set fs. length (f_path f) < 100" "\<forall>(i, f) \<in> set (enumerate 0 fs). length (report i f) < 500"
  shows "\<exists>m'. pid_store procs True buf c m = Inr (c, m') \<and>
    dm_output m' = (case file_named (dm_filename m) 0 fs of None \<Rightarrow> [] | Some (i, f) \<Rightarrow> report i f) \<and>
    sint (dm_pid m') = pid \<and> dm_filename m' = dm_filename m \<and> dm_leaked m' = dm_leaked m + 1"
proof -
  let ?m = "m\<lparr>dm_pid := word_of_int v, dm_leaked := dm_leaked m + 1, dm_output := []\<rparr>"
  from fd_loop_result [OF assms(5,6), of rest ?m] obtain l where
    "fd_loop 0 (map Some fs @ None # rest) ?m =
      Inr (?m\<lparr>dm_output := (case file_named (dm_filename m) 0 fs of None \<Rightarrow> [] | Some (i, f) \<Rightarrow> report i f),
           dm_log := dm_log m @ l\<rparr>)"
    by (auto cong: option.case_cong)
  then show ?thesis
    using assms(1-4) by (simp add: pid_store_def fs_details_def GFP_KERNEL_def dm_printk_def)
qed

definition demo_inode :: inode where
  "demo_inode = \<lparr>i_atime = 1, i_mtime = 2, i_blocks = 8, i_size = 100, i_bytes = 100, i_ino = 42\<rparr>"

definition demo_file :: "string \<Rightarrow> kfile" where
  "demo_file p = \<lparr>f_path = p, f_inode = demo_inode, f_count = 1, f_pos = 0, f_op_open = 0, f_op_release = 0\<rparr>"

definition demo_procs :: process_table where
  "demo_procs pid = (if pid = 7 then Some (Some (map Some [demo_file ''/dev/tty'', demo_file ''/tmp/log''] @ None # [])) else None)"

definition demo_details :: details_mod where
  "demo_details = \<lparr>dm_filename = ''log'', dm_pid = - 1, dm_output = [], dm_leaked = 0, dm_log = []\<rparr>"

lemma demo_scan: "scan_d (int_str 7) = Some 7"
  using scan_d_int_str [of "[]" 7] by simp

lemma demo_report_length:
  "length (report 0 (demo_file ''/dev/tty'')) < 500" "length (report 1 (demo_file ''/tmp/log'')) < 500"
  by (simp_all add: report_def demo_file_def demo_inode_def int_str_def nat_str.simps ptr_str_def nl_def)

theorem pid_store_reports_witness:
  "\<exists>m'. pid_store demo_procs True (int_str 7) 1 demo_details = Inr (1, m') \<and>
     dm_output m' = report 1 (demo_file ''/tmp/log'')"
proof -
  have "file_named (dm_filename demo_details) 0 [demo_file ''/dev/tty'', demo_file ''/tmp/log''] =
      Some (1, demo_file ''/tmp/log'')"
    by (simp add: file_named_def demo_details_def demo_file_def kbasename_def)
  with pid_store_reports [OF demo_scan, of 7 demo_procs "[demo_file ''/dev/tty'', demo_file ''/tmp/log'']" "[]" 1 demo_details]
  show ?thesis using demo_report_length by (auto simp: demo_procs_def demo_file_def)
qed

text \<open>
  A number that is no process follows a null pointer, and so does every read of the process
  table that finds a process without open files; a name of 50 characters or more overruns its
  array.
\<close>

lemma pid_store_unknown:
  assumes "scan_d buf = Some v" "sint (word_of_int v :: s32) \<noteq> - 1"
    and "procs (sint (word_of_int v :: s32)) = None \<or> procs (sint (word_of_int v :: s32)) = Some None"
  shows "pid_store procs alloc buf c m = Inl NullDeref"
  using assms by (cases alloc) (auto simp: pid_store_def fs_details_def GFP_KERNEL_def Let_def)

lemma filename_store_result:
  assumes "buf = w @ nl" "\<forall>c \<in> set w. \<not> is_space c"
  shows "filename_store buf c m =
    (if length w < 50 then Inr (c, inside ''filename_store'' (m\<lparr>dm_filename := w\<rparr>)) else Inl OutOfBounds)"
proof -
  have "is_space (CHR 0x0A)" by (simp add: is_space_def)
  moreover have "dropWhile is_space w = w" using assms(2) by (cases w) auto
  ultimately have "scan_s buf = Some w"
    using assms
    by (cases w) (auto simp: scan_s_def nl_def dropWhile_append takeWhile_append)
  then show ?thesis by (simp add: filename_store_def sprintf_to_def)
qed

end
