(* ===== verification/Task_Lists.thy ===== *)
theory Task_Lists
  imports Page_Tables Kernel_Strings
begin

text \<open>
  Lists of processes built by the modules: \<^verbatim>\<open>ex5.c\<close> chains nodes of its own by hand, with
  pointers in both directions, and \<^verbatim>\<open>ex5list3.c\<close> uses the kernel's \<open>list_head\<close>. The abstract
  specification of \<^verbatim>\<open>ex5.c\<close> is a list to which a process is appended; the chain in the heap
  refines it.
\<close>

section \<open>The chain of ex5.c\<close>

type_synonym addr = nat

text \<open>\<open>name\<close> is not a copy: it points into the \<open>task_struct\<close>, here the address of the task.\<close>

record ex5_node =
  nd_state :: int
  nd_pid :: int
  nd_name :: addr
  nd_processor :: int
  nd_prev :: "addr option"
  nd_next :: "addr option"

record ex5_state =
  l5_heap :: "addr \<rightharpoonup> ex5_node"
  l5_head :: "addr option"
  l5_log :: "kmsg list"

definition upd_node :: "addr \<Rightarrow> ex5_node \<Rightarrow> ex5_state \<Rightarrow> ex5_state" where
  "upd_node a n st = st\<lparr>l5_heap := (l5_heap st)(a \<mapsto> n)\<rparr>"

text \<open>\<open>while (tmp->next != NULL) tmp = tmp->next;\<close> need not end on a chain with a cycle.\<close>

partial_function (option) last_node :: "(addr \<rightharpoonup> ex5_node) \<Rightarrow> addr \<Rightarrow> (crash + addr) option" where
  "last_node h tmp =
     (case h tmp of
        None \<Rightarrow> Some (Inl UseAfterFree)
      | Some n \<Rightarrow> (case nd_next n of None \<Rightarrow> Some (Inr tmp) | Some nx \<Rightarrow> last_node h nx))"

text \<open>\<open>add_task_data\<close>; \<open>alloc\<close> is what \<open>kmalloc\<close> returns, \<open>ts\<close> the task at address \<open>p\<close>.\<close>

definition add_task_data :: "addr option \<Rightarrow> addr \<times> task \<Rightarrow> ex5_state \<Rightarrow> (crash + ex5_state) option" where
  "add_task_data alloc pt st =
     (let (p, ts) = pt in
      case alloc of
        None \<Rightarrow> Some (Inl NullDeref)
      | Some new \<Rightarrow>
          let n = \<lparr>nd_state = t_state ts, nd_pid = t_pid ts, nd_name = p, nd_processor = t_on_cpu ts,
                   nd_prev = None, nd_next = None\<rparr>
          in (case l5_head st of
                None \<Rightarrow> Some (Inr ((upd_node new n st)\<lparr>l5_head := Some new\<rparr>))
              | Some head \<Rightarrow>
                  map_option (\<lambda>r. bindC r (\<lambda>tmp.
                      case l5_heap st tmp of
                        None \<Rightarrow> Inl UseAfterFree
                      | Some m \<Rightarrow> Inr (upd_node new (n\<lparr>nd_prev := Some tmp\<rparr>) (upd_node tmp (m\<lparr>nd_next := Some new\<rparr>) st))))
                    (last_node (l5_heap st) head)))"

text \<open>
  Loading goes through the processes, without \<open>init_task\<close>, the first of the circular list;
  \<open>alloc i\<close> is the allocator's answer in round \<open>i\<close>.
\<close>

fun ex5_loop :: "(addr option \<times> addr \<times> task) list \<Rightarrow> ex5_state \<Rightarrow> (crash + ex5_state) option" where
  "ex5_loop [] st = Some (Inr st)"
| "ex5_loop ((alloc, pt) # ps) st =
     (case add_task_data alloc pt st of
        None \<Rightarrow> None
      | Some (Inl e) \<Rightarrow> Some (Inl e)
      | Some (Inr st) \<Rightarrow> ex5_loop ps st)"

definition ex5_init :: "(nat \<Rightarrow> addr option) \<Rightarrow> (addr \<times> task) list \<Rightarrow> ex5_state \<Rightarrow> (crash + ex5_state) option" where
  "ex5_init alloc procs st = ex5_loop (map (\<lambda>(i, pt). (alloc i, pt)) (enumerate 0 (tl procs))) st"

text \<open>
  Unloading prints while there is a next node; \<open>comm p\<close> is the name of the task at \<open>p\<close> by then,
  \<open>None\<close> when the process has exited and its \<open>task_struct\<close> is gone.
\<close>

partial_function (option) print_nodes ::
  "(addr \<Rightarrow> string option) \<Rightarrow> addr option \<Rightarrow> ex5_state \<Rightarrow> (crash + ex5_state) option"
where
  "print_nodes comm ptr st =
     (case ptr of
        None \<Rightarrow> Some (Inl NullDeref)
      | Some a \<Rightarrow>
          (case l5_heap st a of
             None \<Rightarrow> Some (Inl UseAfterFree)
           | Some n \<Rightarrow>
               if nd_next n = None then Some (Inr st)
               else
                 (case comm (nd_name n) of
                    None \<Rightarrow> Some (Inl UseAfterFree)
                  | Some name \<Rightarrow> print_nodes comm (nd_next n)
                      (st\<lparr>l5_log := l5_log st @ [Printk ''PID:%d  NAME :%s ON_CPU_CORE : %d''
                         [KInt (nd_pid n), KStr name, KInt (nd_processor n)]]\<rparr>))))"

definition ex5_cleanup :: "(addr \<Rightarrow> string option) \<Rightarrow> ex5_state \<Rightarrow> (crash + ex5_state) option" where
  "ex5_cleanup comm st =
     map_option (\<lambda>r. bindC r (\<lambda>st. Inr (st\<lparr>l5_log := l5_log st @ [Printk ''lkm removed'' []]\<rparr>)))
       (print_nodes comm (l5_head st) st)"

section \<open>The list it stands for\<close>

text \<open>The chain from \<open>q\<close> on, with \<open>p\<close> before it: the addresses and what the nodes say of the tasks.\<close>

type_synonym task_data = "int \<times> int \<times> addr \<times> int"

definition node_data :: "ex5_node \<Rightarrow> task_data" where
  "node_data n = (nd_state n, nd_pid n, nd_name n, nd_processor n)"

definition task_data :: "addr \<times> task \<Rightarrow> task_data" where
  "task_data pt = (t_state (snd pt), t_pid (snd pt), fst pt, t_on_cpu (snd pt))"

fun dll :: "(addr \<rightharpoonup> ex5_node) \<Rightarrow> addr option \<Rightarrow> addr option \<Rightarrow> (addr \<times> task_data) list \<Rightarrow> bool" where
  "dll h p q [] \<longleftrightarrow> q = None"
| "dll h p q ((a, x) # xs) \<longleftrightarrow>
     q = Some a \<and> (\<exists>n. h a = Some n \<and> nd_prev n = p \<and> node_data n = x \<and> dll h (Some a) (nd_next n) xs)"

definition stands_for :: "ex5_state \<Rightarrow> (addr \<times> task_data) list \<Rightarrow> bool" where
  "stands_for st xs \<longleftrightarrow> dll (l5_heap st) None (l5_head st) xs \<and> distinct (map fst xs)"

lemma dll_dom: "dll h p q xs \<Longrightarrow> fst ` set xs \<subseteq> dom h"
proof (induction xs arbitrary: p q)
  case (Cons x xs)
  then obtain n where "h (fst x) = Some n" "dll h (Some (fst x)) (nd_next n) xs" by (cases x) auto
  with Cons.IH [of "Some (fst x)" "nd_next n"] show ?case by auto
qed simp

lemma dll_heap: "dll h p q xs \<Longrightarrow> a \<in> fst ` set xs \<Longrightarrow> h a \<noteq> None"
  using dll_dom by (metis domIff subsetD)

lemma dll_update: "dll h p q xs \<Longrightarrow> a \<notin> fst ` set xs \<Longrightarrow> dll (h(a := n)) p q xs"
  by (induction xs arbitrary: p q) auto

text \<open>The walk to the end finds the last node, and hanging a node on it appends.\<close>

lemma last_node_dll:
  "dll h p (Some a) xs \<Longrightarrow> xs \<noteq> [] \<and> last_node h a = Some (Inr (fst (last xs)))"
proof (induction xs arbitrary: p a)
  case (Cons x xs)
  then obtain n where n: "x = (a, node_data n)" "h a = Some n" "dll h (Some a) (nd_next n) xs"
    by (cases x) fastforce
  show ?case
  proof (cases "nd_next n")
    case None
    then show ?thesis using n by (cases xs) (auto simp: last_node.simps [of h a])
  next
    case (Some b)
    with Cons.IH [of "Some a" b] n show ?thesis by (auto simp: last_node.simps [of h a])
  qed
qed simp

lemma dll_snoc:
  assumes "dll h p q (xs @ [(b, x)])" "h b = Some m" "distinct (map fst (xs @ [(b, x)]))" "a \<notin> fst ` set (xs @ [(b, x)])"
    and "nd_prev n = Some b" "nd_next n = None"
  shows "dll (h(b \<mapsto> m\<lparr>nd_next := Some a\<rparr>, a \<mapsto> n)) p q (xs @ [(b, x), (a, node_data n)])"
  using assms(1,3,4)
proof (induction xs arbitrary: p q)
  case Nil
  then show ?case using assms(2,5,6) by (auto simp: node_data_def)
next
  case (Cons y xs)
  then show ?case by (cases y) auto
qed

text \<open>Adding a process appends it: the chain refines the list.\<close>

lemma add_task_data_refines:
  assumes "stands_for st xs" "l5_heap st a = None"
  shows "\<exists>st'. add_task_data (Some a) pt st = Some (Inr st') \<and> stands_for st' (xs @ [(a, task_data pt)]) \<and>
    dom (l5_heap st') = insert a (dom (l5_heap st)) \<and> l5_log st' = l5_log st"
proof -
  have a: "a \<notin> fst ` set xs" using dll_heap assms unfolding stands_for_def by blast
  show ?thesis
  proof (cases "l5_head st")
    case None
    then have "xs = []" using assms(1) by (cases xs) (auto simp: stands_for_def)
    then show ?thesis
      using None by (auto simp: add_task_data_def stands_for_def upd_node_def node_data_def task_data_def split: prod.split)
  next
    case (Some head)
    then have l: "xs \<noteq> []" "last_node (l5_heap st) head = Some (Inr (fst (last xs)))"
      using last_node_dll assms(1) unfolding stands_for_def by auto
    obtain ys b x where xs: "xs = ys @ [(b, x)]" using l(1) by (metis append_butlast_last_id surj_pair)
    obtain m where m: "l5_heap st b = Some m"
      using dll_heap [of "l5_heap st" None "l5_head st" xs b] assms(1) xs by (auto simp: stands_for_def)
    define n where "n = \<lparr>nd_state = t_state (snd pt), nd_pid = t_pid (snd pt), nd_name = fst pt,
      nd_processor = t_on_cpu (snd pt), nd_prev = Some b, nd_next = None\<rparr>"
    have add: "add_task_data (Some a) pt st = Some (Inr (upd_node a n (upd_node b (m\<lparr>nd_next := Some a\<rparr>) st)))"
      using l xs m Some by (simp add: add_task_data_def n_def split: prod.split)
    have "dll ((l5_heap st)(b \<mapsto> m\<lparr>nd_next := Some a\<rparr>, a \<mapsto> n)) None (l5_head st) (ys @ [(b, x), (a, node_data n)])"
      using assms(1) a m unfolding stands_for_def xs by (intro dll_snoc) (auto simp: n_def)
    moreover have "node_data n = task_data pt" by (simp add: n_def node_data_def task_data_def)
    ultimately show ?thesis
      using add assms(1) a m by (auto simp: stands_for_def upd_node_def xs insert_absorb domIff)
  qed
qed

lemma ex5_loop_refines:
  assumes "stands_for st xs" "distinct (map fst aps)" "fst ` set aps \<inter> dom (l5_heap st) = {}"
  shows "\<exists>st'. ex5_loop (map (\<lambda>(a, pt). (Some a, pt)) aps) st = Some (Inr st') \<and>
    stands_for st' (xs @ map (\<lambda>(a, pt). (a, task_data pt)) aps) \<and> l5_log st' = l5_log st"
  using assms
proof (induction aps arbitrary: st xs)
  case (Cons ap aps)
  obtain a pt where ap: "ap = (a, pt)" by (cases ap)
  have "l5_heap st a = None" using Cons.prems(3) by (auto simp: ap)
  from add_task_data_refines [OF Cons.prems(1) this, of pt] obtain st1 where st1:
    "add_task_data (Some a) pt st = Some (Inr st1)" "stands_for st1 (xs @ [(a, task_data pt)])"
    "dom (l5_heap st1) = insert a (dom (l5_heap st))" "l5_log st1 = l5_log st" by blast
  have "fst ` set aps \<inter> dom (l5_heap st1) = {}" "distinct (map fst aps)"
    using Cons.prems(2,3) st1(3) by (auto simp: ap image_iff)
  from Cons.IH [OF st1(2) this(2,1)] st1 show ?case by (auto simp: ap)
qed simp

text \<open>What unloading prints.\<close>

definition node_msg :: "(addr \<Rightarrow> string option) \<Rightarrow> task_data \<Rightarrow> kmsg" where
  "node_msg comm d = (let (state, pid, p, cpu) = d in
     Printk ''PID:%d  NAME :%s ON_CPU_CORE : %d'' [KInt pid, KStr (the (comm p)), KInt cpu])"

definition process_line :: "addr \<times> task \<Rightarrow> kmsg" where
  "process_line pt = Printk ''PID:%d  NAME :%s ON_CPU_CORE : %d''
     [KInt (t_pid (snd pt)), KStr (t_comm (snd pt)), KInt (t_on_cpu (snd pt))]"

lemma print_nodes_dll:
  assumes "dll (l5_heap st) p (Some a) xs" "\<forall>(b, d) \<in> set (butlast xs). comm (fst (snd (snd d))) \<noteq> None"
  shows "print_nodes comm (Some a) st =
    Some (Inr (st\<lparr>l5_log := l5_log st @ map (node_msg comm \<circ> snd) (butlast xs)\<rparr>))"
  using assms
proof (induction xs arbitrary: st p a)
  case (Cons x xs)
  then obtain n where n: "x = (a, node_data n)" "l5_heap st a = Some n" "dll (l5_heap st) (Some a) (nd_next n) xs"
    by (cases x) fastforce
  show ?case
  proof (cases "nd_next n")
    case None
    with n have "xs = []" by (cases xs) auto
    then show ?thesis using n None by (simp add: print_nodes.simps [of comm "Some a"])
  next
    case (Some b)
    then have ne: "xs \<noteq> []" using n(3) by auto
    obtain name where name: "comm (nd_name n) = Some name"
      using Cons.prems(2) n(1) ne by (auto simp: node_data_def)
    let ?st = "st\<lparr>l5_log := l5_log st @ [node_msg comm (node_data n)]\<rparr>"
    have "print_nodes comm (Some a) st = print_nodes comm (Some b) ?st"
      using n(2) Some name by (simp add: print_nodes.simps [of comm "Some a"] node_msg_def node_data_def)
    also have "\<dots> = Some (Inr (?st\<lparr>l5_log := l5_log ?st @ map (node_msg comm \<circ> snd) (butlast xs)\<rparr>))"
      using n Some Cons.prems(2) ne by (intro Cons.IH [of ?st "Some a"]) auto
    finally show ?thesis using n(1) ne by simp
  qed
qed simp

text \<open>C14 Adding a process to the chain of \<^verbatim>\<open>ex5.c\<close> refines appending it to the list the chain stands
  for: with a fresh node the walk to the end terminates, nothing is dereferenced that is not
  allocated, and afterwards the chain, read from either end, stands for the longer list.\<close>

theorem ex5_add_refines:
  assumes "stands_for st xs" "l5_heap st a = None"
  shows "\<exists>st'. add_task_data (Some a) pt st = Some (Inr st') \<and> stands_for st' (xs @ [(a, task_data pt)])"
  using add_task_data_refines [OF assms] by blast

definition demo_task5 :: "int \<Rightarrow> task" where
  "demo_task5 pid = \<lparr>t_pid = pid, t_comm = ''sh'', t_state = 0, t_on_cpu = 1, t_parent_pid = 1, t_min_flt = 0,
     t_start_time = 0, t_mm = None\<rparr>"

definition empty_chain :: ex5_state where
  "empty_chain = \<lparr>l5_heap = Map.empty, l5_head = None, l5_log = []\<rparr>"

theorem ex5_add_refines_witness:
  "\<exists>st'. add_task_data (Some 9) (5, demo_task5 12) empty_chain = Some (Inr st') \<and>
     stands_for st' [(9, (0, 12, 5, 1))]"
  using ex5_add_refines [of empty_chain "[]" 9 "(5, demo_task5 12)"]
  by (simp add: stands_for_def empty_chain_def task_data_def demo_task5_def)

text \<open>Loading \<^verbatim>\<open>ex5.c\<close> builds the chain of all processes but \<open>init_task\<close>, in the order of the
  process list; unloading it, while they all still run, prints them in this order except for the
  last one, and the chain is never freed. If there was none, unloading follows a null pointer.\<close>

theorem ex5_load_unload:
  assumes "l5_head st = None" "\<forall>i < length (tl procs). alloc i = Some (ad i)"
    and "inj_on ad {..<length (tl procs)}" "ad ` {..<length (tl procs)} \<inter> dom (l5_heap st) = {}"
    and "\<forall>(p, t) \<in> set (tl procs). comm p = Some (t_comm t)"
  shows "\<exists>st'. ex5_init alloc procs st = Some (Inr st') \<and>
    stands_for st' (map (\<lambda>(i, pt). (ad i, task_data pt)) (enumerate 0 (tl procs))) \<and>
    (if tl procs = [] then ex5_cleanup comm st' = Some (Inl NullDeref)
     else \<exists>st2. ex5_cleanup comm st' = Some (Inr st2) \<and> l5_heap st2 = l5_heap st' \<and>
       l5_log st2 = l5_log st @ map process_line (butlast (tl procs)) @ [Printk ''lkm removed'' []])"
proof -
  let ?aps = "map (\<lambda>(i, pt). (ad i, pt)) (enumerate 0 (tl procs))"
  let ?xs = "map (\<lambda>(i, pt). (ad i, task_data pt)) (enumerate 0 (tl procs))"
  have fsts: "map fst ?aps = map ad [0..<length (tl procs)]"
    by (rule nth_equalityI) (simp_all add: nth_enumerate_eq case_prod_beta)
  have "distinct (map fst ?aps)"
    unfolding fsts using assms(3) by (simp add: distinct_map lessThan_atLeast0)
  moreover have "fst ` set ?aps \<inter> dom (l5_heap st) = {}"
    using arg_cong [OF fsts, of set] assms(4) by (simp add: lessThan_atLeast0 image_image)
  moreover have "stands_for st []" using assms(1) by (simp add: stands_for_def)
  ultimately obtain st' where st': "ex5_loop (map (\<lambda>(a, pt). (Some a, pt)) ?aps) st = Some (Inr st')"
    "stands_for st' ([] @ map (\<lambda>(a, pt). (a, task_data pt)) ?aps)" "l5_log st' = l5_log st"
    using ex5_loop_refines [of st "[]" ?aps] by blast
  have eq: "map (\<lambda>(i, pt). (alloc i, pt)) (enumerate 0 (tl procs)) = map (\<lambda>(a, pt). (Some a, pt)) ?aps"
    by (rule nth_equalityI) (simp_all add: nth_enumerate_eq assms(2))
  have init: "ex5_init alloc procs st = Some (Inr st')" unfolding ex5_init_def eq by (rule st'(1))
  have rep: "stands_for st' ?xs" using st'(2) by (simp add: comp_def split_def)
  show ?thesis
  proof (cases "tl procs = []")
    case True
    with init rep show ?thesis
      by (auto simp: stands_for_def ex5_cleanup_def print_nodes.simps [of comm None])
  next
    case False
    then obtain a where a: "l5_head st' = Some a"
      using rep by (cases "tl procs") (auto simp: stands_for_def)
    have mem: "pt \<in> set (tl procs)" if "(i, pt) \<in> set (enumerate 0 (tl procs))" for i pt
      using that unfolding enumerate_eq_zip by (rule set_zip_rightD)
    have live: "\<forall>(b, d) \<in> set (butlast ?xs). comm (fst (snd (snd d))) \<noteq> None"
      using assms(5) by (fastforce simp: task_data_def dest!: in_set_butlastD mem)
    have msgs: "map (node_msg comm \<circ> snd) (butlast ?xs) = map process_line (butlast (tl procs))"
    proof (rule nth_equalityI)
      fix i assume "i < length (map (node_msg comm \<circ> snd) (butlast ?xs))"
      then have i: "i < length (tl procs) - 1" by simp
      then have "tl procs ! i \<in> set (tl procs)" by (intro nth_mem) (simp add: False)
      with assms(5) have "comm (fst (tl procs ! i)) = Some (t_comm (snd (tl procs ! i)))"
        by (auto split: prod.splits)
      then show "map (node_msg comm \<circ> snd) (butlast ?xs) ! i = map process_line (butlast (tl procs)) ! i"
        using i by (simp add: nth_butlast nth_enumerate_eq node_msg_def task_data_def process_line_def case_prod_beta)
    qed simp
    show ?thesis
      using init rep False a print_nodes_dll [of st' None a ?xs comm] live msgs st'(3)
      by (simp add: stands_for_def ex5_cleanup_def)
  qed
qed

definition demo_procs5 :: "(addr \<times> task) list" where
  "demo_procs5 = [(100, demo_task5 0), (101, demo_task5 1), (102, demo_task5 2)]"

theorem ex5_load_unload_witness:
  "\<exists>st' st2. ex5_init (\<lambda>i. Some (i + 1)) demo_procs5 empty_chain = Some (Inr st') \<and>
     ex5_cleanup (\<lambda>_. Some ''sh'') st' = Some (Inr st2) \<and>
     l5_log st2 = [Printk ''PID:%d  NAME :%s ON_CPU_CORE : %d'' [KInt 1, KStr ''sh'', KInt 1], Printk ''lkm removed'' []]"
  using ex5_load_unload [of empty_chain demo_procs5 "\<lambda>i. Some (i + 1)" "\<lambda>i. i + 1" "\<lambda>_. Some ''sh''"]
  by (fastforce simp: empty_chain_def demo_procs5_def demo_task5_def process_line_def)

section \<open>ex5list3.c\<close>

text \<open>
  The kernel's circular list of \<open>struct list_head\<close>, whose tail insertion and traversal are
  those of a list. The anchor is a local variable of \<open>init\<close>: when \<open>init\<close> returns the nodes
  are out of reach. While the module prints a node it moves \<open>ts\<close> along the list of processes.
\<close>

record mylist =
  ml_state :: int
  ml_pid :: int
  ml_processor :: int
  ml_name :: string

definition mylist_of :: "task \<Rightarrow> mylist" where
  "mylist_of t = \<lparr>ml_state = t_state t, ml_pid = t_pid t, ml_processor = t_on_cpu t, ml_name = t_comm t\<rparr>"

fun build_list :: "bool list \<Rightarrow> task list \<Rightarrow> mylist list \<Rightarrow> crash + mylist list" where
  "build_list as [] l = Inr l"
| "build_list [] (t # ts) l = Inl NullDeref"
| "build_list (a # as) (t # ts) l = (if a then build_list as ts (l @ [mylist_of t]) else Inl NullDeref)"

fun print_list :: "task list \<Rightarrow> nat \<Rightarrow> mylist list \<Rightarrow> kmsg list" where
  "print_list procs ts [] = []"
| "print_list procs ts (n # ns) =
     (let ts = Suc ts mod length procs
      in Printk ''mylist_Pid=%d task_pid=%d state=%d name=%s, on_cpu %d''
           [KInt (ml_pid n), KInt (t_pid (procs ! ts)), KInt (ml_state n), KStr (ml_name n), KInt (ml_processor n)]
         # print_list procs ts ns)"

text \<open>The result: the log, and the nodes that are lost when \<open>init\<close> returns.\<close>

definition ex5list3_init :: "bool list \<Rightarrow> task list \<Rightarrow> crash + kmsg list \<times> nat" where
  "ex5list3_init allocs procs =
     bindC (build_list allocs (tl procs) []) (\<lambda>l.
       Inr (Printk ''Traversing the list using list_for_each()'' [] # print_list procs 0 l, length l))"

lemma build_list_ok:
  "length as = length ts \<Longrightarrow> \<forall>a \<in> set as. a \<Longrightarrow> build_list as ts l = Inr (l @ map mylist_of ts)"
  by (induction as ts l rule: build_list.induct) auto

lemma print_list_pairs:
  assumes "procs = pre @ t # rest"
  shows "print_list procs (length pre) (map mylist_of rest) =
    map (\<lambda>t. Printk ''mylist_Pid=%d task_pid=%d state=%d name=%s, on_cpu %d''
      [KInt (t_pid t), KInt (t_pid t), KInt (t_state t), KStr (t_comm t), KInt (t_on_cpu t)]) rest"
  using assms
proof (induction rest arbitrary: pre t)
  case (Cons u rest)
  have "Suc (length pre) mod length procs = Suc (length pre)" using Cons.prems by simp
  moreover have "procs ! Suc (length pre) = u" using Cons.prems by (simp add: nth_append)
  ultimately show ?case
    using Cons.IH [of "pre @ [t]" u] Cons.prems by (simp add: mylist_of_def Let_def)
qed simp

text \<open>Every node is printed beside the process it was made from, and all nodes are lost.\<close>

lemma ex5list3_pairs:
  assumes "procs \<noteq> []" "length allocs = length (tl procs)" "\<forall>a \<in> set allocs. a"
  shows "ex5list3_init allocs procs = Inr (Printk ''Traversing the list using list_for_each()'' [] #
    map (\<lambda>t. Printk ''mylist_Pid=%d task_pid=%d state=%d name=%s, on_cpu %d''
      [KInt (t_pid t), KInt (t_pid t), KInt (t_state t), KStr (t_comm t), KInt (t_on_cpu t)]) (tl procs),
    length (tl procs))"
  using print_list_pairs [of procs "[]" "hd procs" "tl procs"] assms
  by (simp add: ex5list3_init_def build_list_ok)

end
