(* ===== verification/Process_Reports.thy ===== *)
theory Process_Reports
  imports Fifo_Modules
begin

text \<open>
  The small modules that print what they find in the process list: \<^verbatim>\<open>verf.c\<close>, \<^verbatim>\<open>task.c\<close>, \<^verbatim>\<open>vm.c\<close>,
  \<^verbatim>\<open>vm_all_process.c\<close>, \<^verbatim>\<open>parent_hr.c\<close> and \<^verbatim>\<open>rbtree.c\<close>; and the two timers \<^verbatim>\<open>hrtimer.c\<close> and \<^verbatim>\<open>timer.c\<close>.
  A function that only prints returns its messages beside its result.
\<close>

section \<open>One process, or each of them\<close>

definition verf_init :: "task list \<Rightarrow> kmsg list" where
  "verf_init procs = map (\<lambda>t. Printk ''task_struct->pid:%d task_struct->comm:%s, task_struct->state:%d ,task_struct->on_cpu,%d''
     [KInt (t_pid t), KStr (t_comm t), KInt (t_state t), KInt (t_on_cpu t)]) (tl procs)"

definition who_msg :: "task \<Rightarrow> kmsg" where
  "who_msg ts = Printk ''the process name is %s and pid= %d parent pid=%d''
     [KStr (t_comm ts), KInt (t_pid ts), KInt (t_parent_pid ts)]"

definition sorry_msg :: kmsg where
  "sorry_msg = Printk ''sorry the process is not found'' []"

definition task_init :: "pid_lookup \<Rightarrow> int \<Rightarrow> errno \<times> kmsg list" where
  "task_init lookup pid =
     (case lookup pid of
        Some ts \<Rightarrow>
          if t_pid ts = pid
          then (0, [who_msg ts, Printk ''State %lu ,Min Fault %lu , start time %d''
                     [KInt (t_state ts), KInt (t_min_flt ts), KInt (t_start_time ts)]])
          else (0, [sorry_msg])
      | None \<Rightarrow> (0, [sorry_msg]))"

text \<open>\<open>vm_area\<close> of \<^verbatim>\<open>vm.c\<close> and \<^verbatim>\<open>vm_all_process.c\<close>: \<open>count\<close> and the messages go along the chain.\<close>

fun vm_areas :: "vm_area_struct list \<Rightarrow> int \<Rightarrow> int \<times> kmsg list" where
  "vm_areas [] count = (count, [])"
| "vm_areas (v # vs) count =
     (let (c, l) = vm_areas vs (count + 1)
      in (c, Printk ''starting address is 0x%lx'' [KAddr (vm_start v)] #
             Printk ''ending address is 0x%lx'' [KAddr (vm_end v)] # l))"

definition vm_area :: "task option \<Rightarrow> crash + errno \<times> kmsg list" where
  "vm_area ts =
     (let l = [Printk ''entered in vm_area'' []] in
      case ts of
        None \<Rightarrow> Inr (0, l)
      | Some t \<Rightarrow>
          (case t_mm t of
             None \<Rightarrow> Inl NullDeref
           | Some mm \<Rightarrow>
               let (count, l') = vm_areas (mmap mm) 0
               in Inr (0, l @ l' @
                    [Printk ''the number of vm areas are %d and the number of areas counted are %d''
                       [KInt (mm_count mm), KInt count],
                     Printk ''Code  Segment start = 0x%lx, end = 0x%lx Data  Segment start = 0x%lx, end = 0x%lx Stack Segment start = 0x%lx''
                       [KAddr (start_code mm), KAddr (end_code mm), KAddr (start_data mm), KAddr (end_data mm),
                        KAddr (start_stack mm)]])))"

definition found :: "task \<Rightarrow> crash + errno \<times> kmsg list" where
  "found ts = bindC (vm_area (Some ts)) (\<lambda>(r, l). Inr (r, who_msg ts # l))"

definition vm_init :: "pid_lookup \<Rightarrow> int \<Rightarrow> crash + errno \<times> kmsg list" where
  "vm_init lookup pid =
     (case lookup pid of
        Some ts \<Rightarrow> if t_pid ts = pid then found ts else Inr (0, [sorry_msg])
      | None \<Rightarrow> Inr (0, [sorry_msg]))"

text \<open>
  \<^verbatim>\<open>vm_all_process.c\<close> goes through all processes for the one with number \<open>pid\<close>; its module
  parameter is commented out, so \<open>pid\<close> is the 0 of a static variable.
\<close>

fun vm_all_loop :: "int \<Rightarrow> task list \<Rightarrow> crash + errno \<times> kmsg list" where
  "vm_all_loop pid [] = Inr (0, [])"
| "vm_all_loop pid (t # ts) =
     (if t_pid t = pid then found t
      else bindC (vm_all_loop pid ts) (\<lambda>(r, l). Inr (r, sorry_msg # l)))"

definition vm_all_init :: "task list \<Rightarrow> crash + errno \<times> kmsg list" where
  "vm_all_init procs = vm_all_loop 0 (tl procs)"

text \<open>
  \<^verbatim>\<open>parent_hr.c\<close> means to follow the parents up to \<open>init_task\<close>, but its loop returns in the first
  round; \<open>None\<close> as result is the missing \<open>return\<close> after it.
\<close>

definition parent_hry :: "task \<Rightarrow> bool \<Rightarrow> errno option \<times> kmsg list" where
  "parent_hry current is_init_task =
     (let l = [Printk ''Parent herarchy:'' []]
      in if is_init_task then (None, l) else (Some 0, l @ [Printk ''%s ->'' [KStr (t_comm current)]]))"

lemma vm_areas_count: "fst (vm_areas vs count) = count + int (length vs)"
  by (induction vs arbitrary: count) (auto simp: Let_def case_prod_beta)

section \<open>rbtree.c\<close>

text \<open>
  The areas of an address space also form a red-black tree; \<open>rb_next\<close>, the kernel's, is a
  parameter. A node stands for the area it is embedded in, by its place in the chain; \<open>&vma->vm_rb\<close>
  of a null \<open>vma\<close> is not null, and the first access through it is a crash.
\<close>

type_synonym rb_api = "mm_struct \<Rightarrow> nat \<Rightarrow> nat option"

text \<open>What \<open>rb_next\<close> promises: the next node in the order of the tree, here that of the addresses.\<close>

definition rb_order :: "rb_api \<Rightarrow> mm_struct \<Rightarrow> bool" where
  "rb_order rb_next m \<longleftrightarrow>
     (\<forall>i < length (mmap m). rb_next m i = (if Suc i < length (mmap m) then Some (Suc i) else None))"

definition crlf :: string where "crlf = [CHR 0x0A, CHR 0x0D]"

definition start_line :: "u64 \<Rightarrow> string" where
  "start_line a = ''vma_start=x0'' @ int_str (sint a) @ crlf"

definition end_line :: "u64 \<Rightarrow> string" where
  "end_line a = ''vma_end=x0'' @ int_str (sint a) @ crlf"

definition rb_body :: "vm_area_struct \<Rightarrow> out_state \<Rightarrow> crash + out_state" where
  "rb_body v st =
     bindC (sprintf_to 50 (start_line (vm_start v))) (\<lambda>buffer.
     let st = console_output buffer st in
     bindC (sprintf_to 50 (end_line (vm_end v))) (\<lambda>buffer. Inr (console_output buffer st)))"

partial_function (option) rb_walk :: "rb_api \<Rightarrow> mm_struct \<Rightarrow> nat option \<Rightarrow> out_state \<Rightarrow> (crash + out_state) option" where
  "rb_walk rb_next m rnode st =
     (case rnode of
        None \<Rightarrow> Some (Inr st)
      | Some i \<Rightarrow>
          (if length (mmap m) \<le> i then Some (Inl NullDeref)
           else (case rb_body (mmap m ! i) st of
                   Inl e \<Rightarrow> Some (Inl e)
                 | Inr st \<Rightarrow> rb_walk rb_next m (rb_next m i) st)))"

fun rb_procs :: "rb_api \<Rightarrow> task list \<Rightarrow> out_state \<Rightarrow> (crash + out_state) option" where
  "rb_procs rb_next [] st = Some (Inr st)"
| "rb_procs rb_next (t # ts) st =
     (case t_mm t of
        None \<Rightarrow> rb_procs rb_next ts st
      | Some m \<Rightarrow>
          (case rb_walk rb_next m (Some 0) st of
             None \<Rightarrow> None
           | Some (Inl e) \<Rightarrow> Some (Inl e)
           | Some (Inr st) \<Rightarrow> rb_procs rb_next ts st))"

definition rbtree_init :: "rb_api \<Rightarrow> task list \<Rightarrow> out_state \<Rightarrow> (crash + errno \<times> out_state) option" where
  "rbtree_init rb_next procs st = map_option (\<lambda>r. bindC r (\<lambda>st. Inr (0, st))) (rb_procs rb_next (tl procs) st)"

text \<open>\<^verbatim>\<open>rbbtree.c\<close> takes the first node by value, and reads the area around the copy on its stack.\<close>

fun rbbtree_procs :: "task list \<Rightarrow> out_state \<Rightarrow> crash + out_state" where
  "rbbtree_procs [] st = Inr st"
| "rbbtree_procs (t # ts) st =
     (case t_mm t of
        None \<Rightarrow> rbbtree_procs ts st
      | Some m \<Rightarrow> if mmap m = [] then Inl NullDeref else Inl OutOfBounds)"

text \<open>A signed 64-bit number prints in at most 20 characters, so the lines fit the buffer.\<close>

lemma int_str_sint64: "length (int_str (sint (a :: u64))) \<le> 20"
proof (cases "sint a < 0")
  case True
  have "nat (- sint a) < 10 ^ 19" using sint64_range(1) [of a] by simp
  from nat_str_length [OF this] True show ?thesis by (simp add: int_str_def)
next
  case False
  have "nat (sint a) < 10 ^ 19" using sint64_range(2) [of a] by simp
  from nat_str_length [OF this] False show ?thesis by (simp add: int_str_def)
qed

definition area_out :: "bool \<Rightarrow> vm_area_struct \<Rightarrow> out list" where
  "area_out tty v = [console_msg tty (start_line (vm_start v)), console_msg tty (end_line (vm_end v))]"

definition process_out :: "bool \<Rightarrow> task \<Rightarrow> out list" where
  "process_out tty t = (case t_mm t of None \<Rightarrow> [] | Some m \<Rightarrow> concat (map (area_out tty) (mmap m)))"

lemma rb_body_result: "rb_body v st = Inr (st\<lparr>os_out := os_out st @ area_out (os_tty st) v\<rparr>)"
proof -
  have "length (start_line (vm_start v)) < 50" "length (end_line (vm_end v)) < 50"
    using int_str_sint64 [of "vm_start v"] int_str_sint64 [of "vm_end v"]
    by (simp_all add: start_line_def end_line_def crlf_def)
  then show ?thesis
    by (simp add: rb_body_def sprintf_to_def console_output_def emit_def area_out_def)
qed

lemma rb_walk_result:
  assumes "rb_order rb_next m" "i < length (mmap m)"
  shows "rb_walk rb_next m (Some i) st =
    Some (Inr (st\<lparr>os_out := os_out st @ concat (map (area_out (os_tty st)) (drop i (mmap m)))\<rparr>))"
  using assms(2)
proof (induction "length (mmap m) - i" arbitrary: i st)
  case (Suc k)
  let ?st = "st\<lparr>os_out := os_out st @ area_out (os_tty st) (mmap m ! i)\<rparr>"
  have d: "drop i (mmap m) = mmap m ! i # drop (Suc i) (mmap m)" using Suc.prems by (simp add: Cons_nth_drop_Suc)
  have step: "rb_walk rb_next m (Some i) st = rb_walk rb_next m (rb_next m i) ?st"
    using Suc.prems by (subst rb_walk.simps) (simp add: rb_body_result)
  show ?case
  proof (cases "Suc i < length (mmap m)")
    case True
    then have "rb_next m i = Some (Suc i)" using assms(1) Suc.prems by (simp add: rb_order_def)
    with step d Suc.hyps(1) [of "Suc i" ?st] True Suc.hyps(2) show ?thesis by simp
  next
    case False
    then have "rb_next m i = None" using assms(1) Suc.prems by (simp add: rb_order_def)
    with step d False show ?thesis by (simp add: rb_walk.simps [of rb_next m None])
  qed
qed simp

lemma rb_procs_result:
  assumes "\<forall>t \<in> set ts. \<forall>m. t_mm t = Some m \<longrightarrow> mmap m \<noteq> [] \<and> rb_order rb_next m"
  shows "rb_procs rb_next ts st = Some (Inr (st\<lparr>os_out := os_out st @
    concat (map (process_out (os_tty st)) ts)\<rparr>))"
  using assms by (induction ts arbitrary: st) (auto simp: rb_walk_result process_out_def split: option.split)

text \<open>\<^verbatim>\<open>rbtree.c\<close> prints the start and the end of every area of every process but \<open>init_task\<close>, in
  the order of the process list and of the addresses, passes over kernel threads and never
  overruns its buffer of 50 bytes, whatever the addresses are; provided the tree's successor
  function keeps its contract and every address space has an area. On an address space without
  areas it follows a null pointer.\<close>

theorem rbtree_lists_areas:
  assumes "\<forall>t \<in> set (tl procs). \<forall>m. t_mm t = Some m \<longrightarrow> rb_order rb_next m"
  shows "(\<forall>t \<in> set (tl procs). \<forall>m. t_mm t = Some m \<longrightarrow> mmap m \<noteq> []) \<and>
      rbtree_init rb_next procs st = Some (Inr (0, st\<lparr>os_out := os_out st @
        concat (map (process_out (os_tty st)) (tl procs))\<rparr>))
    \<or> (\<exists>t \<in> set (tl procs). \<exists>m. t_mm t = Some m \<and> mmap m = []) \<and>
      rbtree_init rb_next procs st = Some (Inl NullDeref)"
proof (cases "\<forall>t \<in> set (tl procs). \<forall>m. t_mm t = Some m \<longrightarrow> mmap m \<noteq> []")
  case True
  then show ?thesis
    using assms rb_procs_result [of "tl procs" rb_next st] by (simp add: rbtree_init_def)
next
  case False
  then obtain us t vs m where split: "tl procs = us @ t # vs" "t_mm t = Some m" "mmap m = []"
    and us: "\<forall>u \<in> set us. \<forall>m. t_mm u = Some m \<longrightarrow> mmap m \<noteq> []"
    using split_list_first_prop [of "tl procs" "\<lambda>t. \<exists>m. t_mm t = Some m \<and> mmap m = []"] by blast
  have "\<forall>u \<in> set us. \<forall>m. t_mm u = Some m \<longrightarrow> mmap m \<noteq> [] \<and> rb_order rb_next m"
    using us assms unfolding split by auto
  then have "rb_procs rb_next (us @ t # vs) st = Some (Inl NullDeref)"
    by (induction us arbitrary: st)
       (auto simp: split(2,3) rb_walk_result rb_walk.simps [of rb_next m "Some 0"] split: option.split)
  with split False show ?thesis by (auto simp: rbtree_init_def)
qed

definition rb_demo_next :: rb_api where
  "rb_demo_next m i = (if Suc i < length (mmap m) then Some (Suc i) else None)"

definition rb_demo_mm :: mm_struct where
  "rb_demo_mm = \<lparr>mm_id = 1, mmap = [\<lparr>vm_start = 4096, vm_end = 8192\<rparr>], mm_count = 1, start_code = 0, end_code = 0,
     start_data = 0, end_data = 0, start_stack = 0\<rparr>"

definition rb_demo_procs :: "task list" where
  "rb_demo_procs =
     (let t = \<lparr>t_pid = 1, t_comm = ''init'', t_state = 0, t_on_cpu = 0, t_parent_pid = 0, t_min_flt = 0,
               t_start_time = 0, t_mm = Some rb_demo_mm\<rparr>
      in [t\<lparr>t_pid := 0\<rparr>, t, t\<lparr>t_pid := 2, t_mm := None\<rparr>])"

theorem rbtree_lists_areas_witness:
  "rbtree_init rb_demo_next rb_demo_procs \<lparr>os_tty = True, os_out = []\<rparr> =
     Some (Inr (0, \<lparr>os_tty = True, os_out = [Console (start_line 4096), Console (end_line 8192)]\<rparr>))"
proof -
  have "\<forall>t \<in> set (tl rb_demo_procs). \<forall>m. t_mm t = Some m \<longrightarrow> rb_order rb_demo_next m"
    by (simp add: rb_order_def rb_demo_next_def)
  from rbtree_lists_areas [OF this, of "\<lparr>os_tty = True, os_out = []\<rparr>"]
  show ?thesis
    by (simp add: rb_demo_procs_def rb_demo_mm_def process_out_def area_out_def console_msg_def Let_def)
qed

section \<open>What the small reports say\<close>

text \<open>
  \<^verbatim>\<open>vm.c\<close> counts the areas of the process; a kernel thread makes it follow a null pointer.
  \<^verbatim>\<open>vm_all_process.c\<close>, whose \<open>pid\<close> is always 0, says once per process that it is not found.
\<close>

lemma vm_init_counts:
  assumes "lookup pid = Some ts" "t_pid ts = pid"
  shows "vm_init lookup pid = (case t_mm ts of None \<Rightarrow> Inl NullDeref
    | Some mm \<Rightarrow> Inr (0, [who_msg ts, Printk ''entered in vm_area'' []] @ snd (vm_areas (mmap mm) 0) @
        [Printk ''the number of vm areas are %d and the number of areas counted are %d''
           [KInt (mm_count mm), KInt (int (length (mmap mm)))],
         Printk ''Code  Segment start = 0x%lx, end = 0x%lx Data  Segment start = 0x%lx, end = 0x%lx Stack Segment start = 0x%lx''
           [KAddr (start_code mm), KAddr (end_code mm), KAddr (start_data mm), KAddr (end_data mm),
            KAddr (start_stack mm)]]))"
  using assms vm_areas_count
  by (simp add: vm_init_def found_def vm_area_def Let_def case_prod_beta split: option.split)

lemma vm_all_init_not_found:
  "\<forall>t \<in> set (tl procs). t_pid t \<noteq> 0 \<Longrightarrow> vm_all_init procs = Inr (0, replicate (length procs - 1) sorry_msg)"
proof -
  have "\<forall>t \<in> set ts. t_pid t \<noteq> 0 \<Longrightarrow> vm_all_loop 0 ts = Inr (0, replicate (length ts) sorry_msg)" for ts
    by (induction ts) auto
  then show "\<forall>t \<in> set (tl procs). t_pid t \<noteq> 0 \<Longrightarrow> ?thesis" by (simp add: vm_all_init_def)
qed

section \<open>Timers\<close>

text \<open>
  \<^verbatim>\<open>hrtimer.c\<close>: the callback arms its timer again while the counter is below 50. \<open>now k\<close> is
  the time (\<open>jiffies\<close>) at the \<open>k\<close>-th look. \<open>mod_timer\<close> returns whether the timer was pending.
\<close>

record timer_state =
  tm_counter :: s32
  tm_pending :: bool
  tm_log :: "kmsg list"

definition tm_printk :: "string \<Rightarrow> karg list \<Rightarrow> timer_state \<Rightarrow> timer_state" where
  "tm_printk fmt args s = s\<lparr>tm_log := tm_log s @ [Printk fmt args]\<rparr>"

definition mod_timer :: "timer_state \<Rightarrow> int \<times> timer_state" where
  "mod_timer s = (if tm_pending s then 1 else 0, s\<lparr>tm_pending := True\<rparr>)"

definition rearm :: "timer_state \<Rightarrow> timer_state" where
  "rearm s = (let (ret, s) = mod_timer s in if ret \<noteq> 0 then tm_printk ''Error in mod_timer'' [] s else s)"

definition my_timer_callback :: "int \<Rightarrow> timer_state \<Rightarrow> timer_state" where
  "my_timer_callback now s =
     (let s = tm_printk ''my_timer_callback called (%ld).'' [KInt now] s;
          c = tm_counter s;
          s = s\<lparr>tm_counter := c + 1\<rparr>
      in if c <s 50 then rearm s else s)"

definition timer_init :: "int \<Rightarrow> timer_state \<Rightarrow> errno \<times> timer_state" where
  "timer_init now s =
     (let s = tm_printk ''Timer module installing'' [] s;
          s = s\<lparr>tm_pending := False\<rparr>;
          s = tm_printk ''Starting timer to fire in 200ms (%ld)'' [KInt now] s
      in (0, rearm s))"

definition timer_cleanup :: "timer_state \<Rightarrow> timer_state" where
  "timer_cleanup s =
     (let ret = tm_pending s;
          s = s\<lparr>tm_pending := False\<rparr>;
          s = (if ret then tm_printk ''The timer is still in use...'' [] s else s)
      in tm_printk ''Timer module uninstalling'' [] s)"

text \<open>A pending timer fires, which makes it inactive and calls the callback, until none is pending.\<close>

partial_function (option) expiries :: "(nat \<Rightarrow> int) \<Rightarrow> nat \<Rightarrow> timer_state \<Rightarrow> (nat \<times> timer_state) option" where
  "expiries now k s =
     (if tm_pending s then expiries now (Suc k) (my_timer_callback (now k) (s\<lparr>tm_pending := False\<rparr>))
      else Some (k, s))"

lemma expiries_run:
  assumes "tm_counter s = of_nat c" "c + n = 50" "tm_pending s"
  shows "expiries now k s = Some (k + n + 1,
    s\<lparr>tm_counter := 51, tm_pending := False,
      tm_log := tm_log s @ map (\<lambda>j. Printk ''my_timer_callback called (%ld).'' [KInt (now j)]) [k..<k + n + 1]\<rparr>)"
  using assms
proof (induction n arbitrary: c k s)
  case 0
  then have "tm_counter s = 50" by simp
  then show ?case
    using 0 by (simp add: expiries.simps [of now k s] expiries.simps [of now "Suc k"] my_timer_callback_def tm_printk_def)
next
  case (Suc n)
  let ?s = "s\<lparr>tm_counter := of_nat c + 1, tm_pending := True,
    tm_log := tm_log s @ [Printk ''my_timer_callback called (%ld).'' [KInt (now k)]]\<rparr>"
  have "c < 50" using Suc.prems(2) by simp
  then have less: "(of_nat c :: s32) <s 50" by (simp add: word_sless_alt signed_of_nat signed_take_bit_int_eq_self)
  then have "my_timer_callback (now k) (s\<lparr>tm_pending := False\<rparr>) = ?s"
    by (simp add: my_timer_callback_def tm_printk_def rearm_def mod_timer_def Suc.prems(1) less del: of_nat_Suc)
  then have "expiries now k s = expiries now (Suc k) ?s"
    using Suc.prems(3) by (simp add: expiries.simps [of now k s])
  also have "\<dots> = Some (Suc k + n + 1, ?s\<lparr>tm_counter := 51, tm_pending := False,
      tm_log := tm_log ?s @ map (\<lambda>j. Printk ''my_timer_callback called (%ld).'' [KInt (now j)]) [Suc k..<Suc k + n + 1]\<rparr>)"
    using Suc.prems(2) by (intro Suc.IH [where c = "Suc c"]) (simp_all add: add.commute)
  moreover have "[k..<k + Suc n + 1] = k # [Suc k..<Suc k + n + 1]" by (simp add: upt_conv_Cons del: upt_Suc)
  ultimately show ?case by (simp del: upt_Suc)
qed

text \<open>The timer of \<^verbatim>\<open>hrtimer.c\<close> stops: loaded with the counter at 0 it fires 51 times, each time
  logging the time, never finds itself still pending, and is then inactive, so that unloading
  does not complain; all of that provided nobody unloads it earlier.\<close>

theorem hrtimer_stops:
  assumes "tm_counter s = 0"
  shows "\<exists>s'. expiries now 0 (snd (timer_init t s)) = Some (51, s') \<and> tm_counter s' = 51 \<and>
    tm_log s' = tm_log s @ [Printk ''Timer module installing'' [], Printk ''Starting timer to fire in 200ms (%ld)'' [KInt t]] @
      map (\<lambda>j. Printk ''my_timer_callback called (%ld).'' [KInt (now j)]) [0..<51] \<and>
    tm_log (timer_cleanup s') = tm_log s' @ [Printk ''Timer module uninstalling'' []]"
proof -
  have "tm_counter (snd (timer_init t s)) = of_nat 0" "tm_pending (snd (timer_init t s))"
    and l: "tm_log (snd (timer_init t s)) = tm_log s @
      [Printk ''Timer module installing'' [], Printk ''Starting timer to fire in 200ms (%ld)'' [KInt t]]"
    using assms by (simp_all add: timer_init_def tm_printk_def rearm_def mod_timer_def Let_def)
  from expiries_run [OF this(1) _ this(2), of 50 now 0] l show ?thesis
    by (simp add: timer_cleanup_def tm_printk_def Let_def del: upt_Suc)
qed

theorem hrtimer_stops_witness:
  "\<exists>s'. expiries int 0 (snd (timer_init 7 \<lparr>tm_counter = 0, tm_pending = False, tm_log = []\<rparr>)) = Some (51, s') \<and>
     tm_counter s' = 51"
  using hrtimer_stops [of "\<lparr>tm_counter = 0, tm_pending = False, tm_log = []\<rparr>" int 7] by auto

text \<open>
  \<^verbatim>\<open>timer.c\<close> queues one piece of work: \<open>queue\<close> says whether the queue could be created, \<open>queued\<close>
  what \<open>queue_delayed_work\<close> returns, which is false when the work is queued already. On that path
  the queue is left behind, the second value.
\<close>

definition delayed_init :: "bool \<Rightarrow> bool \<Rightarrow> crash + errno \<times> bool" where
  "delayed_init queue queued =
     (if \<not> queue then Inl NullDeref
      else if \<not> queued then Inr (- EBUSY, True) else Inr (0, True))"

definition dowork :: "kmsg list" where
  "dowork = [Printk ''i am doing delayed work'' []]"

end
