(* ===== verification/Shared_Area.thy ===== *)
theory Shared_Area
  imports Kernel_Strings
begin

text \<open>
  \<^verbatim>\<open>ex7.c\<close> (and its copy \<^verbatim>\<open>static_ex6_ver6.c\<close>) and \<^verbatim>\<open>new_st.c\<close>: sixteen pages carved out of one
  allocation are filled with a text each, and mapped into processes as they are. Memory is
  byte-addressed here, for the code computes addresses. The earlier attempts \<^verbatim>\<open>static_ex6.c\<close> to
  \<^verbatim>\<open>static_ex6_ver4.c\<close> are at the end.
\<close>

section \<open>Memory\<close>

type_synonym memory = "u64 \<Rightarrow> byte"

definition PAGE_SIZE :: u64 where "PAGE_SIZE = 4096"
definition PAGE_MASK :: u64 where "PAGE_MASK = NOT (PAGE_SIZE - 1)"
definition PAGES :: u64 where "PAGES = 16"

definition mem_bytes :: "memory \<Rightarrow> u64 \<Rightarrow> nat \<Rightarrow> byte list" where
  "mem_bytes mem a n = map (\<lambda>j. mem (a + of_nat j)) [0..<n]"

definition mem_write :: "u64 \<Rightarrow> byte list \<Rightarrow> memory \<Rightarrow> memory" where
  "mem_write a bs mem = (\<lambda>x. if unat (x - a) < length bs then bs ! unat (x - a) else mem x)"

record area_mod =
  am_ptr :: u64            \<comment> \<open>\<open>kmalloc_ptr\<close>\<close>
  am_size :: nat           \<comment> \<open>the bytes allocated there\<close>
  am_area :: u64           \<comment> \<open>\<open>kmalloc_area\<close>\<close>
  am_end :: u64            \<comment> \<open>\<open>end\<close>, a global variable in \<^verbatim>\<open>ex7.c\<close>\<close>
  am_major :: int
  am_mem :: memory
  am_reserved :: "u64 set" \<comment> \<open>the pages marked reserved, by address\<close>
  am_log :: "kmsg list"

definition am_printk :: "string \<Rightarrow> karg list \<Rightarrow> area_mod \<Rightarrow> area_mod" where
  "am_printk fmt args m = m\<lparr>am_log := am_log m @ [Printk fmt args]\<rparr>"

text \<open>A store of bytes and the read of a text: inside the allocation or out of bounds.\<close>

definition am_store :: "u64 \<Rightarrow> byte list \<Rightarrow> area_mod \<Rightarrow> crash + area_mod" where
  "am_store a bs m =
     (if unat (a - am_ptr m) + length bs \<le> am_size m then Inr (m\<lparr>am_mem := mem_write a bs (am_mem m)\<rparr>)
      else Inl OutOfBounds)"

definition am_text :: "u64 \<Rightarrow> area_mod \<Rightarrow> crash + string" where
  "am_text a m =
     (let bs = mem_bytes (am_mem m) a (am_size m - unat (a - am_ptr m))
      in bindC (strlen bs) (\<lambda>n. Inr (text_of (take n bs))))"

text \<open>\<open>for (i = first; i < end; i += PAGE_SIZE)\<close>.\<close>

partial_function (option) pages_below ::
  "(u64 \<Rightarrow> 's \<Rightarrow> crash + 's) \<Rightarrow> u64 \<Rightarrow> u64 \<Rightarrow> 's \<Rightarrow> (crash + 's) option"
where
  "pages_below body i hi s =
     (if i < hi
      then (case body i s of Inl e \<Rightarrow> Some (Inl e) | Inr s' \<Rightarrow> pages_below body (i + PAGE_SIZE) hi s')
      else Some (Inr s))"

section \<open>ex7.c and new_st.c\<close>

definition reserve_body :: "u64 \<Rightarrow> area_mod \<Rightarrow> crash + area_mod" where
  "reserve_body i m = Inr (m\<lparr>am_reserved := insert ((am_area m + i) AND PAGE_MASK) (am_reserved m)\<rparr>)"

text \<open>
  Filling a page: the text goes through a buffer of 50 bytes on the stack (\<open>buffer\<close> is its
  content, at first whatever was there), all of which is copied. \<^verbatim>\<open>new_st.c\<close> clears the page first
  (\<open>clear\<close>).
\<close>

definition page_text :: "int \<Rightarrow> string" where
  "page_text k = ''This is kernel : writing on page '' @ int_str k"

definition sprintf_buf :: "string \<Rightarrow> byte list \<Rightarrow> crash + byte list" where
  "sprintf_buf txt buffer =
     bindC (sprintf_to (length buffer) txt) (\<lambda>t. Inr (bytes_of t @ 0 # drop (Suc (length t)) buffer))"

definition fill_body ::
  "bool \<Rightarrow> u64 \<Rightarrow> (int \<times> byte list) \<times> area_mod \<Rightarrow> crash + (int \<times> byte list) \<times> area_mod"
where
  "fill_body clear i s =
     (let ((count, buffer), m) = s in
      bindC (sprintf_buf (page_text count) buffer) (\<lambda>buffer.
      bindC (if clear then am_store i (replicate 4096 0) m else Inr m) (\<lambda>m.
      bindC (am_store i (take 50 buffer) m) (\<lambda>m. Inr ((count + 1, buffer), m)))))"

definition area_fill :: "bool \<Rightarrow> byte list \<Rightarrow> area_mod \<Rightarrow> (crash + area_mod) option" where
  "area_fill clear stack m =
     map_option (\<lambda>r. bindC r (\<lambda>(_, m). Inr m))
       (pages_below (fill_body clear) (am_area m) (am_end m) ((1, stack), m))"

text \<open>
  Loading: \<open>alloc\<close> is what \<open>kmalloc\<close> returns (0 if it fails), \<open>reg\<close> what \<open>register_chrdev(0, ...)\<close>
  returns, \<open>stack\<close> what is in the local buffer.
\<close>

definition area_init ::
  "bool \<Rightarrow> u64 \<Rightarrow> int \<Rightarrow> byte list \<Rightarrow> area_mod \<Rightarrow> (crash + errno \<times> area_mod) option"
where
  "area_init clear alloc reg stack m =
     (let m = m\<lparr>am_ptr := alloc, am_size := 18 * 4096\<rparr> in
      if alloc = 0 then Some (Inr (- ENOMEM, m))
      else
        let m = m\<lparr>am_area := (alloc + PAGE_SIZE - 1) AND PAGE_MASK, am_major := reg\<rparr> in
        if reg = 0 then Some (Inr (0, am_printk ''ERROR in registering device'' [] m))
        else
          let m = am_printk ''make node using : mknod /dev/my_char_device c %d 0 for device file'' [KInt reg]
                    (am_printk ''major_number %d'' [KInt reg] m) in
          (case pages_below reserve_body 0 (PAGES * PAGE_SIZE) m of
             None \<Rightarrow> None
           | Some (Inl e) \<Rightarrow> Some (Inl e)
           | Some (Inr m) \<Rightarrow>
               let m = m\<lparr>am_end := am_area m + PAGES * PAGE_SIZE\<rparr>
               in map_option (\<lambda>r. bindC r (\<lambda>m. Inr (0, m))) (area_fill clear stack m)))"

definition ex7_init where "ex7_init = area_init False"
definition new_st_init where "new_st_init = area_init True"

text \<open>Mapping: at most sixteen pages; \<open>remap\<close> is what \<open>remap_pfn_range\<close> returns for the arguments.\<close>

definition area_mmap ::
  "(u64 \<Rightarrow> u64 \<Rightarrow> u64 \<Rightarrow> errno) \<Rightarrow> (u64 \<Rightarrow> u64) \<Rightarrow> u64 \<Rightarrow> u64 \<Rightarrow> area_mod \<Rightarrow> errno \<times> area_mod"
where
  "area_mmap remap virt_to_phys vstart vend m =
     (let size = vend - vstart in
      if PAGES * PAGE_SIZE < size
      then (- EIO, am_printk ''DEMAND for Allocation is out of limit'' [] m)
      else
        let ret = remap vstart (drop_bit 12 (virt_to_phys (am_area m))) size
        in if ret < 0 then (ret, m) else (0, m))"

definition print_body :: "u64 \<Rightarrow> area_mod \<Rightarrow> crash + area_mod" where
  "print_body i m = bindC (am_text i m) (\<lambda>t. Inr (am_printk ''kernel printk o/p :%s'' [KStr t] m))"

definition ex7_release :: "area_mod \<Rightarrow> (crash + errno \<times> area_mod) option" where
  "ex7_release m =
     map_option (\<lambda>r. bindC r (\<lambda>m. Inr (0, m))) (pages_below print_body (am_area m) (am_end m) m)"

text \<open>
  Unloading prints the pages, unregisters the device, marks the pages reserved once more where
  it means to clear the mark, and frees the allocation. The second value is the major number
  unregistered and the address freed.
\<close>

definition area_cleanup :: "area_mod \<Rightarrow> (crash + (int \<times> u64) \<times> area_mod) option" where
  "area_cleanup m =
     (case pages_below print_body (am_area m) (am_end m) m of
        None \<Rightarrow> None
      | Some (Inl e) \<Rightarrow> Some (Inl e)
      | Some (Inr m) \<Rightarrow>
          map_option (\<lambda>r. bindC r (\<lambda>m. Inr ((am_major m, am_ptr m), m\<lparr>am_size := 0\<rparr>)))
            (pages_below reserve_body 0 (PAGES * PAGE_SIZE) m))"

definition new_st_cleanup :: "area_mod \<Rightarrow> (crash + (int \<times> u64) \<times> area_mod) option" where
  "new_st_cleanup m = area_cleanup (m\<lparr>am_end := am_area m + PAGES * PAGE_SIZE\<rparr>)"

section \<open>Pages in memory\<close>

text \<open>A loop over \<open>n\<close> pages, given by the states it goes through.\<close>

lemma pages_below_run:
  assumes "unat i + 4096 * n < 2 ^ 64" "\<And>j. j < n \<Longrightarrow> body (i + of_nat (4096 * j)) (f j) = Inr (f (Suc j))"
  shows "pages_below body i (i + of_nat (4096 * n)) (f 0) = Some (Inr (f n))"
  using assms
proof (induction n arbitrary: i f)
  case 0
  show ?case by (simp add: pages_below.simps)
next
  case (Suc n)
  have u: "unat (i + of_nat (4096 * Suc n)) = unat i + 4096 * Suc n"
    using Suc.prems(1) by (simp add: unat_word_ariths unat_of_nat del: of_nat_mult of_nat_Suc)
  then have less: "i < i + of_nat (4096 * Suc n)" by (simp add: word_less_nat_alt)
  have u4: "unat (i + PAGE_SIZE) = unat i + 4096"
    using Suc.prems(1) by (simp add: unat_word_ariths PAGE_SIZE_def)
  have step: "body i (f 0) = Inr (f 1)" using Suc.prems(2) [of 0] by simp
  have shift: "i + of_nat (4096 * Suc j) = i + PAGE_SIZE + of_nat (4096 * j)" for j
    by (simp add: PAGE_SIZE_def algebra_simps)
  have pre: "body (i + PAGE_SIZE + of_nat (4096 * j)) (f (Suc j)) = Inr (f (Suc (Suc j)))" if "j < n" for j
    using Suc.prems(2) [of "Suc j"] that unfolding shift by simp
  have "unat (i + PAGE_SIZE) + 4096 * n < 2 ^ 64" using Suc.prems(1) u4 by simp
  from Suc.IH [OF this, of "\<lambda>j. f (Suc j)", OF pre]
  have "pages_below body (i + PAGE_SIZE) (i + PAGE_SIZE + of_nat (4096 * n)) (f 1) = Some (Inr (f (Suc n)))"
    by simp
  moreover have "pages_below body i (i + of_nat (4096 * Suc n)) (f 0) =
      pages_below body (i + PAGE_SIZE) (i + of_nat (4096 * Suc n)) (f 1)"
    by (subst pages_below.simps) (simp only: less step if_True sum.case)
  ultimately show ?case by (simp only: shift)
qed

text \<open>Page \<open>j\<close> of an area, and what a store at the start of a page does to the pages.\<close>

definition page_bytes :: "memory \<Rightarrow> u64 \<Rightarrow> nat \<Rightarrow> byte list" where
  "page_bytes mem a j = mem_bytes mem (a + of_nat (4096 * j)) 4096"

lemma length_mem_bytes [simp]: "length (mem_bytes mem a n) = n"
  by (simp add: mem_bytes_def)

lemma nth_mem_bytes [simp]: "k < n \<Longrightarrow> mem_bytes mem a n ! k = mem (a + of_nat k)"
  by (simp add: mem_bytes_def)

lemma unat_uminus_of_nat:
  assumes "0 < c" "c < 2 ^ 64"
  shows "unat (- of_nat c :: u64) = 2 ^ 64 - c"
proof -
  have "unat (of_nat c :: u64) = c" using assms(2) by (simp add: unat_of_nat)
  then show ?thesis
    using assms unat_sub_if_size [of 0 "of_nat c :: u64"] by (simp add: word_size)
qed

lemma page_offset:
  assumes "j < 16" "i < 16" "k < 4096"
  shows "unat ((a + of_nat (4096 * j) + of_nat k) - (a + of_nat (4096 * i)) :: u64) =
    (if i \<le> j then 4096 * (j - i) + k else 2 ^ 64 - (4096 * (i - j) - k))"
proof (cases "i \<le> j")
  case True
  then have "of_nat (4096 * j) = (of_nat (4096 * i) + of_nat (4096 * (j - i)) :: u64)"
    by (metis le_add_diff_inverse of_nat_add add_mult_distrib2)
  then have "(a + of_nat (4096 * j) + of_nat k) - (a + of_nat (4096 * i)) = (of_nat (4096 * (j - i) + k) :: u64)"
    by (simp del: of_nat_mult)
  moreover have "4096 * (j - i) + k < 2 ^ 64" using assms by simp
  ultimately show ?thesis using True by (simp add: unat_of_nat del: of_nat_add of_nat_mult)
next
  case False
  then have "of_nat (4096 * i) = (of_nat (4096 * j) + of_nat (4096 * (i - j)) :: u64)"
    by (metis le_add_diff_inverse nat_le_linear of_nat_add add_mult_distrib2)
  moreover have "of_nat (4096 * (i - j)) = (of_nat (4096 * (i - j) - k) + of_nat k :: u64)"
    using False assms(3) by (subst of_nat_add [symmetric]) simp
  ultimately have "(a + of_nat (4096 * j) + of_nat k) - (a + of_nat (4096 * i)) = (- of_nat (4096 * (i - j) - k) :: u64)"
    by (simp del: of_nat_mult of_nat_diff)
  moreover have "0 < 4096 * (i - j) - k" "4096 * (i - j) - k < 2 ^ 64" using False assms by auto
  ultimately show ?thesis
    using False by (simp add: unat_uminus_of_nat del: of_nat_mult of_nat_diff)
qed

lemma page_bytes_write:
  assumes "j < 16" "i < 16" "length bs \<le> 4096"
  shows "page_bytes (mem_write (a + of_nat (4096 * i)) bs mem) a j =
    (if j = i then bs @ drop (length bs) (page_bytes mem a j) else page_bytes mem a j)"
proof (rule nth_equalityI)
  show "length (page_bytes (mem_write (a + of_nat (4096 * i)) bs mem) a j) =
    length (if j = i then bs @ drop (length bs) (page_bytes mem a j) else page_bytes mem a j)"
    using assms(3) by (simp add: page_bytes_def)
  fix k assume "k < length (page_bytes (mem_write (a + of_nat (4096 * i)) bs mem) a j)"
  then have k: "k < 4096" by (simp add: page_bytes_def)
  show "page_bytes (mem_write (a + of_nat (4096 * i)) bs mem) a j ! k =
    (if j = i then bs @ drop (length bs) (page_bytes mem a j) else page_bytes mem a j) ! k"
    using k assms page_offset [OF assms(1,2) k, of a]
    by (auto simp: page_bytes_def mem_write_def nth_append simp del: of_nat_mult)
qed

section \<open>What loading leaves in the pages\<close>

text \<open>Rounding up to a page boundary.\<close>

lemma page_align:
  fixes p :: u64
  assumes "unat p + 4095 < 2 ^ 64"
  shows "unat ((p + PAGE_SIZE - 1) AND PAGE_MASK) = (unat p + 4095) div 4096 * 4096"
proof -
  let ?x = "p + 4095 :: u64"
  have x: "unat ?x = unat p + 4095" using assms by (simp add: unat_word_ariths)
  have m: "PAGE_MASK = NOT (mask 12)" by (simp add: PAGE_MASK_def PAGE_SIZE_def mask_eq_exp_minus_1)
  have "?x AND NOT (mask 12) = push_bit 12 (drop_bit 12 ?x)"
    by (rule bit_word_eqI) (auto simp: bit_simps)
  then have "unat (?x AND NOT (mask 12)) = take_bit 64 (push_bit 12 (drop_bit 12 (unat ?x)))"
    using assms x by (simp add: unsigned_push_bit_eq unsigned_drop_bit_eq take_bit_nat_eq_self)
  also have "\<dots> = (unat p + 4095) div 4096 * 4096"
  proof -
    have "(unat p + 4095) div 4096 * 4096 \<le> unat p + 4095" by (rule div_times_less_eq_dividend)
    with assms have "(unat p + 4095) div 4096 * 4096 < 2 ^ 64" by linarith
    then show ?thesis by (simp add: x take_bit_nat_eq_self push_bit_eq_mult drop_bit_eq_div)
  qed
  finally show ?thesis by (simp add: m PAGE_SIZE_def add.commute)
qed

lemma nat_str_length_mono: "m \<le> n \<Longrightarrow> length (nat_str m) \<le> length (nat_str n)"
proof (induction n arbitrary: m rule: nat_str.induct)
  case (1 n)
  then show ?case
    using 1(1) [of "m div 10"] by (auto simp: nat_str.simps [of n] nat_str.simps [of m] div_le_mono)
qed

text \<open>
  The 50 bytes copied to page \<open>k\<close>: its text, a zero byte, and then what the stack held.
\<close>

definition page_img :: "byte list \<Rightarrow> int \<Rightarrow> byte list" where
  "page_img stack k = bytes_of (page_text k) @ 0 # drop (Suc (length (page_text k))) stack"

lemma page_text_length:
  assumes "1 \<le> k" "k \<le> 16"
  shows "length (page_text k) < 50" "length (page_text k) \<le> length (page_text (k + 1))"
proof -
  have "nat k < 10 ^ 2" using assms by simp
  from nat_str_length [OF this] assms show "length (page_text k) < 50" by (simp add: page_text_def int_str_def)
  show "length (page_text k) \<le> length (page_text (k + 1))"
    using assms nat_str_length_mono [of "nat k" "nat (k + 1)"] by (simp add: page_text_def int_str_def)
qed

lemma page_img_length: "1 \<le> k \<Longrightarrow> k \<le> 16 \<Longrightarrow> length stack = 50 \<Longrightarrow> length (page_img stack k) = 50"
  using page_text_length(1) [of k] by (simp add: page_img_def)

text \<open>The buffer keeps the tail of the stack, for the texts do not get shorter.\<close>

lemma sprintf_page:
  assumes "length stack = 50" "j < 16"
  shows "sprintf_buf (page_text (int j + 1)) (if j = 0 then stack else page_img stack (int j)) =
    Inr (page_img stack (int j + 1))"
proof -
  have len: "length (page_text (int j + 1)) < 50" using page_text_length(1) [of "int j + 1"] assms(2) by simp
  show ?thesis
  proof (cases "j = 0")
    case True
    then show ?thesis using len assms(1) by (simp add: sprintf_buf_def sprintf_to_def page_img_def)
  next
    case False
    then have le: "length (page_text (int j)) \<le> length (page_text (int j + 1))"
      using page_text_length(2) [of "int j"] assms(2) by simp
    have "length (page_img stack (int j)) = 50" using False assms by (intro page_img_length) auto
    moreover have "drop (Suc (length (page_text (int j + 1)))) (page_img stack (int j)) =
        drop (Suc (length (page_text (int j + 1)))) stack"
      using le by (simp add: page_img_def drop_Cons' Suc_diff_le)
    ultimately show ?thesis
      using False len by (simp add: sprintf_buf_def sprintf_to_def page_img_def [of stack "int j + 1"])
  qed
qed

fun fill_mem :: "bool \<Rightarrow> byte list \<Rightarrow> u64 \<Rightarrow> memory \<Rightarrow> nat \<Rightarrow> memory" where
  "fill_mem clear stack a mem 0 = mem"
| "fill_mem clear stack a mem (Suc j) =
     mem_write (a + of_nat (4096 * j)) (page_img stack (int j + 1))
       (if clear then mem_write (a + of_nat (4096 * j)) (replicate 4096 0) (fill_mem clear stack a mem j)
        else fill_mem clear stack a mem j)"

lemma fill_mem_pages:
  assumes "length stack = 50" "n \<le> 16" "j < 16"
  shows "page_bytes (fill_mem clear stack a mem n) a j =
    (if j < n then page_img stack (int j + 1) @ drop 50 (if clear then replicate 4096 0 else page_bytes mem a j)
     else page_bytes mem a j)"
  using assms(2)
proof (induction n)
  case (Suc n)
  have "length (page_img stack (int n + 1)) = 50" using Suc.prems assms(1) by (intro page_img_length) auto
  then show ?case
    using Suc assms(3) by (auto simp: page_bytes_write less_Suc_eq page_bytes_def [of mem] length_mem_bytes simp del: of_nat_mult)
qed simp

text \<open>The area: page-aligned, and its sixteen pages inside the eighteen that were allocated.\<close>

definition area_of :: "u64 \<Rightarrow> u64" where
  "area_of alloc = (alloc + PAGE_SIZE - 1) AND PAGE_MASK"

lemma area_of_bounds:
  assumes "unat alloc + 18 * 4096 \<le> 2 ^ 64"
  shows "unat (area_of alloc) mod 4096 = 0" "unat alloc \<le> unat (area_of alloc)"
    "unat (area_of alloc) + 16 * 4096 < unat alloc + 18 * 4096"
  using page_align [of alloc] assms by (auto simp: area_of_def)

lemma area_page_offset:
  assumes "unat alloc + 18 * 4096 \<le> 2 ^ 64" "j < 16"
  shows "unat (area_of alloc + of_nat (4096 * j) - alloc) + 4096 \<le> 18 * 4096"
proof -
  note b = area_of_bounds [OF assms(1)]
  have "unat (area_of alloc + of_nat (4096 * j)) = unat (area_of alloc) + 4096 * j"
    using b(3) assms by (simp add: unat_word_ariths unat_of_nat del: of_nat_mult)
  then have "unat (area_of alloc + of_nat (4096 * j) - alloc) = unat (area_of alloc) + 4096 * j - unat alloc"
    using b(2) by (simp add: unat_sub_if_size del: of_nat_mult)
  then show ?thesis using b assms(2) by simp
qed

lemma area_fill_result:
  assumes "unat alloc + 18 * 4096 \<le> 2 ^ 64" "length stack = 50"
    and m: "am_ptr m = alloc" "am_size m = 18 * 4096" "am_area m = area_of alloc"
      "am_end m = area_of alloc + PAGES * PAGE_SIZE"
  shows "area_fill clear stack m = Some (Inr (m\<lparr>am_mem := fill_mem clear stack (area_of alloc) (am_mem m) 16\<rparr>))"
proof -
  let ?a = "area_of alloc"
  let ?f = "\<lambda>j. ((int j + 1, if j = 0 then stack else page_img stack (int j)),
    m\<lparr>am_mem := fill_mem clear stack ?a (am_mem m) j\<rparr>)"
  have "fill_body clear (?a + of_nat (4096 * j)) (?f j) = Inr (?f (Suc j))" if "j < 16" for j
  proof -
    have off: "unat (?a + of_nat (4096 * j) - am_ptr m) + 4096 \<le> am_size m"
      using area_page_offset [OF assms(1) that] m by simp
    have len: "length (page_img stack (int j + 1)) = 50" using that assms(2) by (intro page_img_length) auto
    show ?thesis
      using off len sprintf_page [OF assms(2) that]
      by (simp add: fill_body_def am_store_def add.commute del: of_nat_mult)
  qed
  from pages_below_run [of ?a 16 "fill_body clear" ?f, OF _ this]
  have "pages_below (fill_body clear) ?a (?a + of_nat (4096 * 16)) (?f 0) = Some (Inr (?f 16))"
    using area_of_bounds(3) [OF assms(1)] assms(1) by simp
  then show ?thesis
    using m by (simp add: area_fill_def PAGES_def PAGE_SIZE_def)
qed

lemma reserve_run:
  "\<exists>R. pages_below reserve_body 0 (PAGES * PAGE_SIZE) m = Some (Inr (m\<lparr>am_reserved := R\<rparr>))"
proof -
  let ?f = "\<lambda>j. m\<lparr>am_reserved := (\<lambda>i. (am_area m + of_nat (4096 * i)) AND PAGE_MASK) ` {..<j} \<union> am_reserved m\<rparr>"
  have "reserve_body (0 + of_nat (4096 * j)) (?f j) = Inr (?f (Suc j))" for j
    by (simp add: reserve_body_def lessThan_Suc del: of_nat_mult)
  from pages_below_run [of 0 16 reserve_body ?f, OF _ this]
  have "pages_below reserve_body 0 (PAGES * PAGE_SIZE) (?f 0) = Some (Inr (?f 16))"
    by (simp add: PAGES_def PAGE_SIZE_def)
  then show ?thesis by auto
qed

lemma area_init_fill:
  assumes "alloc \<noteq> 0" "unat alloc + 18 * 4096 \<le> 2 ^ 64" "reg \<noteq> 0" "length stack = 50"
  shows "\<exists>m'. area_init clear alloc reg stack m = Some (Inr (0, m')) \<and> am_area m' = area_of alloc \<and>
    am_end m' = area_of alloc + 16 * 4096 \<and> am_ptr m' = alloc \<and> am_size m' = 18 * 4096 \<and>
    am_mem m' = fill_mem clear stack (area_of alloc) (am_mem m) 16"
proof -
  let ?m = "am_printk ''make node using : mknod /dev/my_char_device c %d 0 for device file'' [KInt reg]
    (am_printk ''major_number %d'' [KInt reg]
      (m\<lparr>am_ptr := alloc, am_size := 18 * 4096, am_area := area_of alloc, am_major := reg\<rparr>))"
  obtain R where R: "pages_below reserve_body 0 (PAGES * PAGE_SIZE) ?m = Some (Inr (?m\<lparr>am_reserved := R\<rparr>))"
    using reserve_run [of ?m] by blast
  let ?n = "?m\<lparr>am_reserved := R, am_end := area_of alloc + PAGES * PAGE_SIZE\<rparr>"
  let ?m' = "?n\<lparr>am_mem := fill_mem clear stack (area_of alloc) (am_mem ?n) 16\<rparr>"
  have "area_fill clear stack ?n = Some (Inr ?m')"
    by (rule area_fill_result [OF assms(2,4)]) (simp_all add: am_printk_def)
  then have "area_init clear alloc reg stack m = Some (Inr (0, ?m'))"
    using assms(1,3) R by (simp add: area_init_def Let_def flip: area_of_def) (simp add: am_printk_def)
  then show ?thesis
    by (intro exI [of _ ?m']) (simp add: am_printk_def PAGES_def PAGE_SIZE_def del: fill_mem.simps)
qed

text \<open>Loading the modules of the shared area, with the memory and a major number: the area is
  page-aligned, its sixteen pages lie inside the allocation, no store leaves it, and page \<open>j\<close>
  starts with its text and a zero byte. The 50 bytes copied there reach beyond: what was on the
  kernel's stack follows the text and is what a process that maps the page can read. The rest of
  the page is cleared in \<^verbatim>\<open>new_st.c\<close> and what the allocator left there in \<^verbatim>\<open>ex7.c\<close>.\<close>

theorem area_init_pages:
  assumes "alloc \<noteq> 0" "unat alloc + 18 * 4096 \<le> 2 ^ 64" "reg \<noteq> 0" "length stack = 50"
  shows "\<exists>m'. area_init clear alloc reg stack m = Some (Inr (0, m')) \<and>
    unat (am_area m') mod 4096 = 0 \<and> unat alloc \<le> unat (am_area m') \<and>
    unat (am_area m') + 16 * 4096 \<le> unat alloc + 18 * 4096 \<and> am_end m' = am_area m' + 16 * 4096 \<and>
    am_ptr m' = alloc \<and> am_size m' = 18 * 4096 \<and>
    (\<forall>j < 16. page_bytes (am_mem m') (am_area m') j =
       page_img stack (int j + 1) @
       drop 50 (if clear then replicate 4096 0 else page_bytes (am_mem m) (am_area m') j))"
proof -
  obtain m' where m': "area_init clear alloc reg stack m = Some (Inr (0, m'))" "am_area m' = area_of alloc"
    "am_end m' = area_of alloc + 16 * 4096" "am_ptr m' = alloc" "am_size m' = 18 * 4096"
    "am_mem m' = fill_mem clear stack (area_of alloc) (am_mem m) 16"
    using area_init_fill [OF assms] by blast
  then show ?thesis
    using area_of_bounds [OF assms(2)] fill_mem_pages [OF assms(4), of 16] by simp
qed

definition blank_area :: area_mod where
  "blank_area = \<lparr>am_ptr = 0, am_size = 0, am_area = 0, am_end = 0, am_major = 0, am_mem = (\<lambda>_. 0),
     am_reserved = {}, am_log = []\<rparr>"

theorem area_init_pages_witness:
  "\<exists>m'. ex7_init 0x10010 240 (replicate 50 7) blank_area = Some (Inr (0, m')) \<and>
     take 50 (page_bytes (am_mem m') (am_area m') 2) = page_img (replicate 50 7) 3"
proof -
  have a: "(0x10010 :: u64) \<noteq> 0" "unat (0x10010 :: u64) + 18 * 4096 \<le> 2 ^ 64" by simp_all
  have "length (page_img (replicate 50 7) 3) = 50" by (rule page_img_length) simp_all
  with area_init_pages [OF a, of 240 "replicate 50 7" False blank_area]
  show ?thesis by (auto simp: ex7_init_def dest!: spec [of _ 2])
qed

section \<open>What is printed and what can be mapped\<close>

lemma nonzero_text:
  assumes "CHR 0x00 \<notin> set cs"
  shows "0 \<notin> set (bytes_of cs)"
proof
  assume "0 \<in> set (bytes_of cs)"
  then obtain c where c: "c \<in> set cs" "(of_char c :: byte) = 0" by (auto simp: bytes_of_def)
  then have "of_char c = (of_char (CHR 0x00) :: nat)" using unat_of_char [of c] by simp
  then have "c = CHR 0x00" by (simp only: of_char_eq_iff)
  with c(1) assms show False by simp
qed

lemma nat_str_digits: "c \<in> set (nat_str n) \<Longrightarrow> is_digit c"
proof (induction n rule: nat_str.induct)
  case (1 n)
  then show ?case by (auto simp: nat_str.simps [of n] digit_char split: if_splits)
qed

lemma page_text_nonzero: "CHR 0x00 \<notin> set (page_text k)"
  using nat_str_digits [of "CHR 0x00"] by (auto simp: page_text_def int_str_def is_digit_def)

text \<open>The messages: one per page, with the text of the page and nothing of the stack.\<close>

definition page_msgs :: "nat \<Rightarrow> kmsg list" where
  "page_msgs n = map (\<lambda>j. Printk ''kernel printk o/p :%s'' [KStr (page_text (int j + 1))]) [0..<n]"

lemma mem_bytes_prefix: "n \<le> k \<Longrightarrow> mem_bytes mem a k = mem_bytes mem a n @ drop n (mem_bytes mem a k)"
  by (rule nth_equalityI) (auto simp: nth_append)

lemma print_pages:
  assumes "unat alloc + 18 * 4096 \<le> 2 ^ 64" "am_ptr m = alloc" "am_size m = 18 * 4096" "am_area m = area_of alloc"
    and "am_end m = area_of alloc + 16 * 4096"
    and img: "\<forall>j < 16. \<exists>rest. page_bytes (am_mem m) (area_of alloc) j = bytes_of (page_text (int j + 1)) @ 0 # rest"
  shows "pages_below print_body (am_area m) (am_end m) m = Some (Inr (m\<lparr>am_log := am_log m @ page_msgs 16\<rparr>))"
proof -
  let ?a = "area_of alloc"
  let ?f = "\<lambda>j. m\<lparr>am_log := am_log m @ page_msgs j\<rparr>"
  have "print_body (?a + of_nat (4096 * j)) (?f j) = Inr (?f (Suc j))" if j: "j < 16" for j
  proof -
    let ?t = "page_text (int j + 1)" and ?i = "?a + of_nat (4096 * j)"
    let ?n = "am_size m - unat (?i - am_ptr m)"
    obtain rest where rest: "page_bytes (am_mem m) ?a j = bytes_of ?t @ 0 # rest" using img j by blast
    have "4096 \<le> ?n" using area_page_offset [OF assms(1) j] assms(2,3) by simp
    then have "mem_bytes (am_mem m) ?i ?n = bytes_of ?t @ 0 # rest @ drop 4096 (mem_bytes (am_mem m) ?i ?n)"
      using mem_bytes_prefix [of 4096 ?n "am_mem m" ?i] rest by (simp add: page_bytes_def)
    moreover have "0 \<notin> set (bytes_of ?t)" by (rule nonzero_text [OF page_text_nonzero])
    ultimately have "am_text ?i m = Inr ?t"
      unfolding am_text_def Let_def by (metis (no_types, lifting) append_eq_conv_conj bindC_simps(2) length_bytes_of strlen_text text_of_bytes_of)
    then have "am_text ?i (?f j) = Inr ?t" by (simp add: am_text_def)
    then show ?thesis by (simp add: print_body_def am_printk_def page_msgs_def)
  qed
  from pages_below_run [of ?a 16 print_body ?f, OF _ this]
  show ?thesis
    using area_of_bounds(3) [OF assms(1)] assms(1,4,5) by (simp add: page_msgs_def)
qed

text \<open>
  The last close of \<^verbatim>\<open>ex7.c\<close>, and unloading: the pages' texts, as long as the processes that mapped
  them left them alone; the pages stay marked reserved.
\<close>

lemma ex7_release_prints:
  assumes "alloc \<noteq> 0" "unat alloc + 18 * 4096 \<le> 2 ^ 64" "reg \<noteq> 0" "length stack = 50"
  shows "\<exists>m' m2. ex7_init alloc reg stack m = Some (Inr (0, m')) \<and> ex7_release m' = Some (Inr (0, m2)) \<and>
    am_log m2 = am_log m' @ page_msgs 16 \<and>
    (\<exists>m3. area_cleanup m' = Some (Inr ((am_major m', alloc), m3)) \<and> am_log m3 = am_log m' @ page_msgs 16 \<and> am_size m3 = 0)"
proof -
  obtain m' where m': "area_init False alloc reg stack m = Some (Inr (0, m'))" "am_area m' = area_of alloc"
    "am_end m' = area_of alloc + 16 * 4096" "am_ptr m' = alloc" "am_size m' = 18 * 4096"
    "am_mem m' = fill_mem False stack (area_of alloc) (am_mem m) 16"
    using area_init_fill [OF assms] by blast
  have p: "pages_below print_body (am_area m') (am_end m') m' = Some (Inr (m'\<lparr>am_log := am_log m' @ page_msgs 16\<rparr>))"
    using m' fill_mem_pages [OF assms(4), of 16] by (intro print_pages [OF assms(2)]) (auto simp: page_img_def)
  obtain R where R: "pages_below reserve_body 0 (PAGES * PAGE_SIZE) (m'\<lparr>am_log := am_log m' @ page_msgs 16\<rparr>) =
      Some (Inr (m'\<lparr>am_log := am_log m' @ page_msgs 16, am_reserved := R\<rparr>))"
    using reserve_run [of "m'\<lparr>am_log := am_log m' @ page_msgs 16\<rparr>"] by auto
  show ?thesis
    using m'(1,4) p R by (simp add: ex7_init_def ex7_release_def area_cleanup_def)
qed

text \<open>A mapping is refused above sixteen pages, and else is that of the area's page frames.\<close>

lemma area_mmap_bound:
  assumes "vend - vstart = n"
  shows "area_mmap remap virt_to_phys vstart vend m =
    (if unat n > 16 * 4096 then (- EIO, am_printk ''DEMAND for Allocation is out of limit'' [] m)
     else let ret = remap vstart (drop_bit 12 (virt_to_phys (am_area m))) n in (if ret < 0 then ret else 0, m))"
  using assms by (simp add: area_mmap_def PAGES_def PAGE_SIZE_def word_less_nat_alt Let_def)

section \<open>The attempts before\<close>

text \<open>
  \<^verbatim>\<open>static_ex6.c\<close> and \<^verbatim>\<open>static_ex6_ver2.c\<close> to \<^verbatim>\<open>static_ex6_ver4.c\<close> remap what the process itself has at
  the address (\<open>pfn\<close>) and then write through the address of the process. \<open>remap\<close> is what
  \<open>remap_pfn_range\<close> returns, 0 for success, and \<open>ustore\<close> what happens when the kernel stores to
  such an address. The test of the result is inverted.
\<close>

definition hello_static :: string where
  "hello_static = ''hello from kernel this is file: ''"

definition inside_msg :: "string \<Rightarrow> kmsg" where
  "inside_msg fn = Printk ''inside the %s function'' [KStr fn]"

definition static_mmap ::
  "(u64 \<Rightarrow> u64 \<Rightarrow> u64 \<Rightarrow> errno) \<Rightarrow> (u64 \<Rightarrow> byte list \<Rightarrow> crash + unit) \<Rightarrow> u64 \<Rightarrow> u64 \<Rightarrow> u64 \<Rightarrow> byte list \<Rightarrow>
     crash + errno \<times> kmsg list"
where
  "static_mmap remap ustore pfn vstart vend name =
     (let ret = remap vstart pfn (vend - vstart) in
      if ret = 0 then Inr (- EAGAIN, [])
      else
        bindC (literal hello_static 32) (\<lambda>lit.
        bindC (ustore vstart lit) (\<lambda>_.
        bindC (ustore (vstart + 32) name) (\<lambda>_. Inr (0, [inside_msg ''char_mmap''])))))"

text \<open>
  The last close: \<^verbatim>\<open>static_ex6.c\<close> frees an info that no open and no mapping ever set (\<open>priv\<close> is
  the file's private data), the later files only print.
\<close>

definition static_close :: "bool \<Rightarrow> u64 \<Rightarrow> crash + errno \<times> kmsg list" where
  "static_close frees priv =
     (if frees then (if priv = 0 then Inl NullDeref else Inl BadPointer)
      else Inr (0, [inside_msg ''char_close'', Printk ''DEVICE CLOSED'' []]))"

definition static_init :: "int \<Rightarrow> errno \<times> kmsg list" where
  "static_init reg =
     (0, inside_msg ''init'' #
        (if reg = 0 then [Printk ''ERROR in registering device'' []]
         else [Printk ''major_number %d'' [KInt reg],
               Printk ''make node using : mknod /dev/my_char_device c %d 0 for device file'' [KInt reg]]))"

text \<open>A mapping that succeeds is reported as \<open>EAGAIN\<close>, and one that is reported made was refused.\<close>

lemma static_mmap_inverted:
  "(remap vstart pfn (vend - vstart) = 0 \<longrightarrow> static_mmap remap ustore pfn vstart vend name = Inr (- EAGAIN, [])) \<and>
   (static_mmap remap ustore pfn vstart vend name = Inr (0, l) \<longrightarrow> remap vstart pfn (vend - vstart) \<noteq> 0)"
  by (auto simp: static_mmap_def)

end
