(* ===== verification/Sched_Types.thy ===== *)
theory Sched_Types
  imports Kernel_Prelude
begin

text \<open>
  The state the scheduler core (\<^verbatim>\<open>assg4/core.c\<close>) works on, and the interfaces it calls.
  Tasks and runqueues are addressed by number (a \<open>tid\<close> stands for a \<^verbatim>\<open>struct task_struct *\<close>,
  a \<open>cpu\<close> for the runqueue \<^verbatim>\<open>cpu_rq(cpu)\<close>), so that a function that takes a pointer takes
  the number and the store. Only the fields the modelled functions read or write are kept.
  The configuration modelled is an SMP kernel with group scheduling, CFS bandwidth control
  and scheduler debugging.

  The locks of the source are not state: each function modelled runs its critical section
  under the runqueue lock, so it is one step of the store.
\<close>

section \<open>Scheduling classes\<close>

type_synonym tid = nat
type_synonym cpu = nat

datatype sched_class = Stop_class | Dl_class | Rt_class | Fair_class | Idle_class

text \<open>\<open>for_each_class\<close> goes through the classes from the highest.\<close>

fun class_rank :: "sched_class \<Rightarrow> nat" where
  "class_rank Stop_class = 4"
| "class_rank Dl_class = 3"
| "class_rank Rt_class = 2"
| "class_rank Fair_class = 1"
| "class_rank Idle_class = 0"

definition all_classes :: "sched_class list" where
  "all_classes = [Stop_class, Dl_class, Rt_class, Fair_class, Idle_class]"

lemma class_rank_inj: "class_rank a = class_rank b \<Longrightarrow> a = b"
  by (cases a; cases b) simp_all

instantiation sched_class :: linorder
begin

definition less_eq_sched_class :: "sched_class \<Rightarrow> sched_class \<Rightarrow> bool" where
  "a \<le> b \<longleftrightarrow> class_rank a \<le> class_rank b"

definition less_sched_class :: "sched_class \<Rightarrow> sched_class \<Rightarrow> bool" where
  "a < b \<longleftrightarrow> class_rank a < class_rank b"

instance
  by standard (auto simp: less_eq_sched_class_def less_sched_class_def intro: class_rank_inj)

end

section \<open>Tasks\<close>

record load_weight =
  lw_weight :: u64
  lw_inv_weight :: u32

record dl_entity =
  dl_runtime :: u64
  dl_deadline :: u64
  dl_period :: u64
  dl_flags :: u64
  dl_bw :: u64
  dl_throttled :: bool
  dl_new :: bool
  dl_boosted :: bool
  dl_yielded :: bool

record task_struct =
  p_pid :: int
  p_comm :: string
  p_state :: u64
  p_flags :: u32
  p_on_rq :: int
  p_on_cpu :: bool
  p_prio :: int
  p_static_prio :: int
  p_normal_prio :: int
  p_rt_priority :: u32
  p_policy :: int
  p_class :: sched_class
  p_load :: load_weight
  p_dl :: dl_entity
  p_cpu :: cpu
  p_wake_cpu :: cpu
  p_cpus_allowed :: "cpu set"
  p_reset_on_fork :: bool
  p_contributes :: bool           \<comment> \<open>\<open>sched_contributes_to_load\<close>\<close>
  p_need_resched :: bool          \<comment> \<open>\<open>TIF_NEED_RESCHED\<close>\<close>
  p_polling :: bool               \<comment> \<open>\<open>TIF_POLLING_NRFLAG\<close>\<close>
  p_preempt_count :: s32          \<comment> \<open>\<open>task_preempt_count\<close>\<close>
  p_nvcsw :: u64
  p_nivcsw :: u64
  p_sum_exec_runtime :: u64
  p_nr_migrations :: u64
  p_mm :: "nat option"
  p_active_mm :: "nat option"
  p_uid :: nat
  p_euid :: nat

section \<open>Runqueues and root domains\<close>

record rq =
  rq_curr :: tid
  rq_idle :: tid
  rq_stop :: "tid option"
  rq_nr_running :: u32
  rq_cfs_nr :: u32                \<comment> \<open>\<open>cfs.h_nr_running\<close>\<close>
  rq_nr_switches :: u64
  rq_nr_uninterruptible :: u64
  rq_nr_iowait :: s32
  rq_cpu_load0 :: u64
  rq_clock :: u64
  rq_clock_task :: u64
  rq_skip_clock_update :: int
  rq_prev_irq_time :: u64
  rq_prev_steal_time :: u64
  rq_age_stamp :: u64
  rq_rt_avg :: u64
  rq_idle_stamp :: u64
  rq_avg_idle :: u64
  rq_max_idle_cost :: u64
  rq_wake_list :: "tid list"
  rq_prev_mm :: "nat option"
  rq_post_schedule :: bool
  rq_idle_balance :: bool
  rq_online :: bool
  rq_rd :: nat

record dl_bw =
  db_bw :: u64
  db_total_bw :: u64

record root_domain =
  rd_span :: "cpu set"
  rd_online :: "cpu set"
  rd_dl_bw :: dl_bw
  rd_refcount :: int

section \<open>The store\<close>

record 'x kstate =
  ks_tasks :: "tid \<Rightarrow> task_struct"
  ks_rqs :: "cpu \<Rightarrow> rq"
  ks_rds :: "nat \<Rightarrow> root_domain"
  ks_cpu :: cpu                   \<comment> \<open>\<open>smp_processor_id()\<close>\<close>
  ks_preempt_count :: s32
  ks_preempt_need_resched :: bool
  ks_online :: "cpu set"
  ks_active :: "cpu set"
  ks_possible :: "cpu set"
  ks_frames :: "tid \<Rightarrow> (tid \<times> cpu) option"
    \<comment> \<open>the locals \<open>next\<close> and \<open>rq\<close> on the stack of a task switched out in \<open>context_switch\<close>;
        \<open>None\<close> for a task that has not run yet\<close>
  ks_mm_count :: "nat \<Rightarrow> int"      \<comment> \<open>\<open>mm->mm_count\<close>\<close>
  ks_ipis :: "cpu list"           \<comment> \<open>reschedule interrupts sent, latest first\<close>
  ks_warnings :: "string list"    \<comment> \<open>\<open>WARN_ON\<close>s that fired, latest first\<close>
  ks_ext :: 'x                    \<comment> \<open>what the classes and other subsystems keep\<close>

definition upd_task :: "tid \<Rightarrow> (task_struct \<Rightarrow> task_struct) \<Rightarrow> 'x kstate \<Rightarrow> 'x kstate" where
  "upd_task p f s = s\<lparr>ks_tasks := (ks_tasks s)(p := f (ks_tasks s p))\<rparr>"

definition upd_rq :: "cpu \<Rightarrow> (rq \<Rightarrow> rq) \<Rightarrow> 'x kstate \<Rightarrow> 'x kstate" where
  "upd_rq c f s = s\<lparr>ks_rqs := (ks_rqs s)(c := f (ks_rqs s c))\<rparr>"

definition upd_rd :: "nat \<Rightarrow> (root_domain \<Rightarrow> root_domain) \<Rightarrow> 'x kstate \<Rightarrow> 'x kstate" where
  "upd_rd d f s = s\<lparr>ks_rds := (ks_rds s)(d := f (ks_rds s d))\<rparr>"

lemma upd_task_simps [simp]:
  "ks_tasks (upd_task p f s) = (ks_tasks s)(p := f (ks_tasks s p))"
  "ks_rqs (upd_task p f s) = ks_rqs s"
  "ks_rds (upd_task p f s) = ks_rds s"
  "ks_cpu (upd_task p f s) = ks_cpu s"
  "ks_frames (upd_task p f s) = ks_frames s"
  "ks_mm_count (upd_task p f s) = ks_mm_count s"
  "ks_preempt_count (upd_task p f s) = ks_preempt_count s"
  "ks_preempt_need_resched (upd_task p f s) = ks_preempt_need_resched s"
  "ks_online (upd_task p f s) = ks_online s"
  "ks_active (upd_task p f s) = ks_active s"
  "ks_possible (upd_task p f s) = ks_possible s"
  "ks_ipis (upd_task p f s) = ks_ipis s"
  "ks_warnings (upd_task p f s) = ks_warnings s"
  "ks_ext (upd_task p f s) = ks_ext s"
  by (simp_all add: upd_task_def)

lemma upd_rq_simps [simp]:
  "ks_tasks (upd_rq c g s) = ks_tasks s"
  "ks_rqs (upd_rq c g s) = (ks_rqs s)(c := g (ks_rqs s c))"
  "ks_rds (upd_rq c g s) = ks_rds s"
  "ks_cpu (upd_rq c g s) = ks_cpu s"
  "ks_frames (upd_rq c g s) = ks_frames s"
  "ks_mm_count (upd_rq c g s) = ks_mm_count s"
  "ks_preempt_count (upd_rq c g s) = ks_preempt_count s"
  "ks_preempt_need_resched (upd_rq c g s) = ks_preempt_need_resched s"
  "ks_online (upd_rq c g s) = ks_online s"
  "ks_active (upd_rq c g s) = ks_active s"
  "ks_possible (upd_rq c g s) = ks_possible s"
  "ks_ipis (upd_rq c g s) = ks_ipis s"
  "ks_warnings (upd_rq c g s) = ks_warnings s"
  "ks_ext (upd_rq c g s) = ks_ext s"
  by (simp_all add: upd_rq_def)

lemma upd_rd_simps [simp]:
  "ks_tasks (upd_rd d h s) = ks_tasks s"
  "ks_rqs (upd_rd d h s) = ks_rqs s"
  "ks_rds (upd_rd d h s) = (ks_rds s)(d := h (ks_rds s d))"
  "ks_cpu (upd_rd d h s) = ks_cpu s"
  "ks_frames (upd_rd d h s) = ks_frames s"
  "ks_mm_count (upd_rd d h s) = ks_mm_count s"
  "ks_preempt_count (upd_rd d h s) = ks_preempt_count s"
  "ks_preempt_need_resched (upd_rd d h s) = ks_preempt_need_resched s"
  "ks_ipis (upd_rd d h s) = ks_ipis s"
  "ks_online (upd_rd d h s) = ks_online s"
  "ks_active (upd_rd d h s) = ks_active s"
  "ks_possible (upd_rd d h s) = ks_possible s"
  "ks_warnings (upd_rd d h s) = ks_warnings s"
  "ks_ext (upd_rd d h s) = ks_ext s"
  by (simp_all add: upd_rd_def)

definition warn :: "bool \<Rightarrow> string \<Rightarrow> 'x kstate \<Rightarrow> 'x kstate" where
  "warn b what s = (if b then s\<lparr>ks_warnings := what # ks_warnings s\<rparr> else s)"

abbreviation task_cpu :: "'x kstate \<Rightarrow> tid \<Rightarrow> cpu" where
  "task_cpu s p \<equiv> p_cpu (ks_tasks s p)"

abbreviation current_task :: "'x kstate \<Rightarrow> tid" where
  "current_task s \<equiv> rq_curr (ks_rqs s (ks_cpu s))"

section \<open>Constants of the kernel headers\<close>

text \<open>Priorities (\<^verbatim>\<open>include/linux/sched/prio.h\<close>): 0..99 real-time, 100..139 nice levels.\<close>

abbreviation (input) MAX_DL_PRIO :: int where "MAX_DL_PRIO \<equiv> 0"
abbreviation (input) MAX_USER_RT_PRIO :: int where "MAX_USER_RT_PRIO \<equiv> 100"
abbreviation (input) MAX_RT_PRIO :: int where "MAX_RT_PRIO \<equiv> 100"
abbreviation (input) MAX_PRIO :: int where "MAX_PRIO \<equiv> 140"
abbreviation (input) DEFAULT_PRIO :: int where "DEFAULT_PRIO \<equiv> 120"
abbreviation (input) MIN_NICE :: int where "MIN_NICE \<equiv> -20"
abbreviation (input) MAX_NICE :: int where "MAX_NICE \<equiv> 19"
abbreviation (input) NICE_WIDTH :: int where "NICE_WIDTH \<equiv> 40"

abbreviation NICE_TO_PRIO :: "int \<Rightarrow> int" where "NICE_TO_PRIO n \<equiv> n + DEFAULT_PRIO"
abbreviation PRIO_TO_NICE :: "int \<Rightarrow> int" where "PRIO_TO_NICE p \<equiv> p - DEFAULT_PRIO"

abbreviation rt_prio :: "int \<Rightarrow> bool" where "rt_prio p \<equiv> p < MAX_RT_PRIO"
abbreviation dl_prio :: "int \<Rightarrow> bool" where "dl_prio p \<equiv> p < MAX_DL_PRIO"

text \<open>Policies (\<^verbatim>\<open>include/uapi/linux/sched.h\<close>).\<close>

abbreviation (input) SCHED_NORMAL :: int where "SCHED_NORMAL \<equiv> 0"
abbreviation (input) SCHED_FIFO :: int where "SCHED_FIFO \<equiv> 1"
abbreviation (input) SCHED_RR :: int where "SCHED_RR \<equiv> 2"
abbreviation (input) SCHED_BATCH :: int where "SCHED_BATCH \<equiv> 3"
abbreviation (input) SCHED_IDLE :: int where "SCHED_IDLE \<equiv> 5"
abbreviation (input) SCHED_DEADLINE :: int where "SCHED_DEADLINE \<equiv> 6"

definition fair_policy :: "int \<Rightarrow> bool" where
  "fair_policy q \<longleftrightarrow> q = SCHED_NORMAL \<or> q = SCHED_BATCH"

definition rt_policy :: "int \<Rightarrow> bool" where
  "rt_policy q \<longleftrightarrow> q = SCHED_FIFO \<or> q = SCHED_RR"

definition dl_policy :: "int \<Rightarrow> bool" where
  "dl_policy q \<longleftrightarrow> q = SCHED_DEADLINE"

lemmas policy_defs = fair_policy_def rt_policy_def dl_policy_def

text \<open>Task states and flags.\<close>

abbreviation (input) TASK_RUNNING :: u64 where "TASK_RUNNING \<equiv> 0"
abbreviation (input) TASK_INTERRUPTIBLE :: u64 where "TASK_INTERRUPTIBLE \<equiv> 1"
abbreviation (input) TASK_UNINTERRUPTIBLE :: u64 where "TASK_UNINTERRUPTIBLE \<equiv> 2"
abbreviation (input) TASK_NORMAL :: u64 where "TASK_NORMAL \<equiv> 3"
abbreviation (input) TASK_DEAD :: u64 where "TASK_DEAD \<equiv> 64"
abbreviation (input) TASK_WAKING :: u64 where "TASK_WAKING \<equiv> 256"

abbreviation (input) TASK_ON_RQ_QUEUED :: int where "TASK_ON_RQ_QUEUED \<equiv> 1"
abbreviation (input) TASK_ON_RQ_MIGRATING :: int where "TASK_ON_RQ_MIGRATING \<equiv> 2"

abbreviation (input) PF_WQ_WORKER :: u32 where "PF_WQ_WORKER \<equiv> 0x20"
abbreviation (input) PF_FROZEN :: u32 where "PF_FROZEN \<equiv> 0x10000"
abbreviation (input) PREEMPT_ACTIVE :: s32 where "PREEMPT_ACTIVE \<equiv> 0x200000"

abbreviation (input) ENQUEUE_WAKEUP :: int where "ENQUEUE_WAKEUP \<equiv> 1"
abbreviation (input) ENQUEUE_HEAD :: int where "ENQUEUE_HEAD \<equiv> 2"
abbreviation (input) ENQUEUE_WAKING :: int where "ENQUEUE_WAKING \<equiv> 4"
abbreviation (input) ENQUEUE_REPLENISH :: int where "ENQUEUE_REPLENISH \<equiv> 8"
abbreviation (input) DEQUEUE_SLEEP :: int where "DEQUEUE_SLEEP \<equiv> 1"

abbreviation (input) WF_FORK :: int where "WF_FORK \<equiv> 2"
abbreviation (input) WF_MIGRATED :: int where "WF_MIGRATED \<equiv> 4"
abbreviation (input) SD_BALANCE_EXEC :: int where "SD_BALANCE_EXEC \<equiv> 4"
abbreviation (input) SD_BALANCE_FORK :: int where "SD_BALANCE_FORK \<equiv> 8"
abbreviation (input) SD_BALANCE_WAKE :: int where "SD_BALANCE_WAKE \<equiv> 16"

text \<open>The inline predicates of the scheduler's own header.\<close>

abbreviation task_on_rq_queued :: "'x kstate \<Rightarrow> tid \<Rightarrow> bool" where
  "task_on_rq_queued s p \<equiv> p_on_rq (ks_tasks s p) = TASK_ON_RQ_QUEUED"

abbreviation task_current :: "'x kstate \<Rightarrow> cpu \<Rightarrow> tid \<Rightarrow> bool" where
  "task_current s c p \<equiv> rq_curr (ks_rqs s c) = p"

abbreviation task_nice :: "'x kstate \<Rightarrow> tid \<Rightarrow> int" where
  "task_nice s p \<equiv> PRIO_TO_NICE (p_static_prio (ks_tasks s p))"

definition task_contributes_to_load :: "task_struct \<Rightarrow> bool" where
  "task_contributes_to_load t \<longleftrightarrow>
     p_state t AND TASK_UNINTERRUPTIBLE \<noteq> 0 \<and> p_flags t AND PF_FROZEN = 0"

section \<open>What the core calls\<close>

datatype pick = NoTask | RetryTask | Picked tid

text \<open>The method table \<^verbatim>\<open>struct sched_class\<close> of a class, implemented in other files.\<close>

record 'x class_ops =
  co_enqueue :: "cpu \<Rightarrow> tid \<Rightarrow> int \<Rightarrow> 'x kstate \<Rightarrow> 'x kstate"
  co_dequeue :: "cpu \<Rightarrow> tid \<Rightarrow> int \<Rightarrow> 'x kstate \<Rightarrow> 'x kstate"
  co_check_preempt :: "cpu \<Rightarrow> tid \<Rightarrow> int \<Rightarrow> 'x kstate \<Rightarrow> 'x kstate"
  co_pick_next :: "cpu \<Rightarrow> tid \<Rightarrow> 'x kstate \<Rightarrow> pick \<times> 'x kstate"
  co_put_prev :: "cpu \<Rightarrow> tid \<Rightarrow> 'x kstate \<Rightarrow> 'x kstate"
  co_set_curr :: "cpu \<Rightarrow> 'x kstate \<Rightarrow> 'x kstate"
  co_select_rq :: "tid \<Rightarrow> cpu \<Rightarrow> int \<Rightarrow> int \<Rightarrow> 'x kstate \<Rightarrow> cpu"
  co_task_tick :: "cpu \<Rightarrow> tid \<Rightarrow> 'x kstate \<Rightarrow> 'x kstate"
  co_update_curr :: "cpu \<Rightarrow> 'x kstate \<Rightarrow> 'x kstate"
  co_yield :: "cpu \<Rightarrow> 'x kstate \<Rightarrow> 'x kstate"
  co_prio_changed :: "cpu \<Rightarrow> tid \<Rightarrow> int \<Rightarrow> 'x kstate \<Rightarrow> 'x kstate"
  co_switched_to :: "cpu \<Rightarrow> tid \<Rightarrow> 'x kstate \<Rightarrow> 'x kstate"
  co_switched_from :: "(cpu \<Rightarrow> tid \<Rightarrow> 'x kstate \<Rightarrow> 'x kstate) option"
  co_migrate_rq :: "(tid \<Rightarrow> cpu \<Rightarrow> 'x kstate \<Rightarrow> 'x kstate) option"
  co_task_waking :: "(tid \<Rightarrow> 'x kstate \<Rightarrow> 'x kstate) option"
  co_task_woken :: "(cpu \<Rightarrow> tid \<Rightarrow> 'x kstate \<Rightarrow> 'x kstate) option"
  co_task_fork :: "(tid \<Rightarrow> 'x kstate \<Rightarrow> 'x kstate) option"
  co_task_dead :: "(tid \<Rightarrow> 'x kstate \<Rightarrow> 'x kstate) option"
  co_post_schedule :: "(cpu \<Rightarrow> 'x kstate \<Rightarrow> 'x kstate) option"
  co_set_allowed :: "(tid \<Rightarrow> cpu set \<Rightarrow> 'x kstate \<Rightarrow> 'x kstate) option"

text \<open>Clocks, tables, privileges and the other subsystems.\<close>

record 'x env =
  cls :: "sched_class \<Rightarrow> 'x class_ops"
  sched_clock_cpu :: "cpu \<Rightarrow> 'x \<Rightarrow> u64"
  irq_time_read :: "(cpu \<Rightarrow> 'x \<Rightarrow> u64) option"     \<comment> \<open>\<open>None\<close> without IRQ time accounting\<close>
  paravirt_steal :: "(cpu \<Rightarrow> 'x \<Rightarrow> u64) option"    \<comment> \<open>\<open>None\<close> without steal time accounting\<close>
  nontask_capacity :: bool
  sched_rt_avg_update :: "cpu \<Rightarrow> u64 \<Rightarrow> 'x kstate \<Rightarrow> 'x kstate"
  sched_info_queued :: "cpu \<Rightarrow> tid \<Rightarrow> 'x kstate \<Rightarrow> 'x kstate"
  sched_info_dequeued :: "cpu \<Rightarrow> tid \<Rightarrow> 'x kstate \<Rightarrow> 'x kstate"
  prio_to_weight :: "int \<Rightarrow> u64"
  prio_to_wmult :: "int \<Rightarrow> u32"
  scale_load :: "u64 \<Rightarrow> u64"
  wq_worker_waking_up :: "tid \<Rightarrow> cpu \<Rightarrow> 'x kstate \<Rightarrow> 'x kstate"
  wq_worker_sleeping :: "tid \<Rightarrow> cpu \<Rightarrow> 'x kstate \<Rightarrow> tid option \<times> 'x kstate"
  signal_pending_state :: "u64 \<Rightarrow> tid \<Rightarrow> 'x kstate \<Rightarrow> bool"
  feat_ttwu_queue :: bool
  feat_hrtick :: bool
  sd_llc_id :: "cpu \<Rightarrow> nat"
  hrtick_clear :: "cpu \<Rightarrow> 'x kstate \<Rightarrow> 'x kstate"
  capable_sys_nice :: bool
  task_rlimit_nice :: "tid \<Rightarrow> u64"
  task_rlimit_rtprio :: "tid \<Rightarrow> u64"
  security_setnice :: "tid \<Rightarrow> int \<Rightarrow> int"
  security_setscheduler :: "tid \<Rightarrow> int"
  rt_mutex_check_prio :: "tid \<Rightarrow> int \<Rightarrow> 'x kstate \<Rightarrow> bool"
  rt_mutex_top_task :: "tid \<Rightarrow> 'x kstate \<Rightarrow> tid option"
  rt_mutex_adjust_pi :: "tid \<Rightarrow> 'x kstate \<Rightarrow> 'x kstate"
  dl_entity_preempt :: "dl_entity \<Rightarrow> dl_entity \<Rightarrow> bool"
  rt_group_runtime_zero :: "tid \<Rightarrow> 'x kstate \<Rightarrow> bool"
    \<comment> \<open>\<open>rt_bandwidth_enabled()\<close> and the task's group, not an autogroup, has no runtime\<close>
  dl_bandwidth_enabled :: bool
  cpu_to_node :: "cpu \<Rightarrow> nat option"
  cpumask_of_node :: "nat \<Rightarrow> cpu list"
  nr_cpu_ids :: nat
  cpuset_fallback :: "tid \<Rightarrow> 'x kstate \<Rightarrow> 'x kstate"

abbreviation class_of :: "'x env \<Rightarrow> 'x kstate \<Rightarrow> tid \<Rightarrow> 'x class_ops" where
  "class_of E s p \<equiv> cls E (p_class (ks_tasks s p))"

text \<open>\<open>for_each_cpu\<close>: the members of a mask in increasing order.\<close>

definition cpus_in :: "'x env \<Rightarrow> cpu set \<Rightarrow> cpu list" where
  "cpus_in E m = filter (\<lambda>c. c \<in> m) [0..<nr_cpu_ids E]"

lemma set_cpus_in: "set (cpus_in E m) = {c. c < nr_cpu_ids E \<and> c \<in> m}"
  by (auto simp: cpus_in_def)

section \<open>What the core relies on of the classes\<close>

text \<open>
  The part of a task and of a runqueue that only the core writes. A class may account run
  time, throttle a deadline task, ask for rescheduling, move tasks between runqueues and
  keep its own counters; it leaves these fields alone.
\<close>

definition core_task where
  "core_task t = (p_pid t, p_state t, p_flags t, p_on_rq t, p_on_cpu t, p_prio t, p_static_prio t,
     p_normal_prio t, p_rt_priority t, p_policy t, p_class t, p_load t, p_reset_on_fork t,
     p_contributes t, p_nvcsw t, p_nivcsw t, p_mm t, p_active_mm t, p_cpus_allowed t)"

definition core_rq where
  "core_rq r = (rq_curr r, rq_idle r, rq_stop r, rq_nr_switches r, rq_prev_mm r, rq_rd r,
     rq_wake_list r)"

definition same_core :: "'x kstate \<Rightarrow> 'x kstate \<Rightarrow> bool" where
  "same_core s t \<longleftrightarrow>
     (\<forall>p. core_task (ks_tasks t p) = core_task (ks_tasks s p)) \<and>
     (\<forall>c. core_rq (ks_rqs t c) = core_rq (ks_rqs s c)) \<and>
     ks_cpu t = ks_cpu s \<and> ks_preempt_count t = ks_preempt_count s \<and>
     ks_online t = ks_online s \<and> ks_active t = ks_active s \<and> ks_possible t = ks_possible s \<and>
     ks_frames t = ks_frames s \<and> ks_mm_count t = ks_mm_count s"

lemma same_core_refl [simp, intro!]: "same_core s s"
  by (simp add: same_core_def)

lemma same_core_trans [trans]: "same_core s t \<Longrightarrow> same_core t u \<Longrightarrow> same_core s u"
  by (simp add: same_core_def)

lemma same_core_fields:
  assumes "same_core s t"
  shows "p_state (ks_tasks t p) = p_state (ks_tasks s p)"
    "p_flags (ks_tasks t p) = p_flags (ks_tasks s p)"
    "p_on_rq (ks_tasks t p) = p_on_rq (ks_tasks s p)"
    "p_on_cpu (ks_tasks t p) = p_on_cpu (ks_tasks s p)"
    "p_prio (ks_tasks t p) = p_prio (ks_tasks s p)"
    "p_static_prio (ks_tasks t p) = p_static_prio (ks_tasks s p)"
    "p_normal_prio (ks_tasks t p) = p_normal_prio (ks_tasks s p)"
    "p_rt_priority (ks_tasks t p) = p_rt_priority (ks_tasks s p)"
    "p_policy (ks_tasks t p) = p_policy (ks_tasks s p)"
    "p_class (ks_tasks t p) = p_class (ks_tasks s p)"
    "p_load (ks_tasks t p) = p_load (ks_tasks s p)"
    "p_reset_on_fork (ks_tasks t p) = p_reset_on_fork (ks_tasks s p)"
    "p_pid (ks_tasks t p) = p_pid (ks_tasks s p)"
    "p_mm (ks_tasks t p) = p_mm (ks_tasks s p)"
    "p_active_mm (ks_tasks t p) = p_active_mm (ks_tasks s p)"
    "p_nvcsw (ks_tasks t p) = p_nvcsw (ks_tasks s p)"
    "p_nivcsw (ks_tasks t p) = p_nivcsw (ks_tasks s p)"
    "p_contributes (ks_tasks t p) = p_contributes (ks_tasks s p)"
    "rq_curr (ks_rqs t c) = rq_curr (ks_rqs s c)"
    "rq_idle (ks_rqs t c) = rq_idle (ks_rqs s c)"
    "rq_stop (ks_rqs t c) = rq_stop (ks_rqs s c)"
    "rq_nr_switches (ks_rqs t c) = rq_nr_switches (ks_rqs s c)"
    "rq_prev_mm (ks_rqs t c) = rq_prev_mm (ks_rqs s c)"
    "rq_rd (ks_rqs t c) = rq_rd (ks_rqs s c)"
    "ks_cpu t = ks_cpu s" "ks_preempt_count t = ks_preempt_count s"
    "ks_online t = ks_online s" "ks_active t = ks_active s" "ks_possible t = ks_possible s"
    "p_cpus_allowed (ks_tasks t p) = p_cpus_allowed (ks_tasks s p)"
    "rq_wake_list (ks_rqs t c) = rq_wake_list (ks_rqs s c)"
    "ks_frames t = ks_frames s" "ks_mm_count t = ks_mm_count s"
  using assms by (simp_all add: same_core_def core_task_def core_rq_def)

text \<open>An operation on the store that leaves the core's fields alone.\<close>

definition quiet :: "('x kstate \<Rightarrow> 'x kstate) \<Rightarrow> bool" where
  "quiet f \<longleftrightarrow> (\<forall>s. same_core s (f s))"

lemma quiet_same_core: "quiet f \<Longrightarrow> same_core s (f s)"
  by (simp add: quiet_def)

text \<open>A method a class may leave out: the core calls it if it is there.\<close>

definition call_opt :: "('x kstate \<Rightarrow> 'x kstate) option \<Rightarrow> 'x kstate \<Rightarrow> 'x kstate" where
  "call_opt f s = (case f of None \<Rightarrow> s | Some g \<Rightarrow> g s)"

definition quiet_opt :: "('x kstate \<Rightarrow> 'x kstate) option \<Rightarrow> bool" where
  "quiet_opt f \<longleftrightarrow> (case f of None \<Rightarrow> True | Some g \<Rightarrow> quiet g)"

text \<open>What the classes promise the core.\<close>

definition class_ok :: "'x class_ops \<Rightarrow> bool" where
  "class_ok k \<longleftrightarrow>
     (\<forall>c p fl. quiet (co_enqueue k c p fl)) \<and> (\<forall>c p fl. quiet (co_dequeue k c p fl)) \<and>
     (\<forall>c p fl. quiet (co_check_preempt k c p fl)) \<and> (\<forall>c p. quiet (\<lambda>s. snd (co_pick_next k c p s))) \<and>
     (\<forall>c p. quiet (co_put_prev k c p)) \<and> (\<forall>c. quiet (co_set_curr k c)) \<and>
     (\<forall>c p. quiet (co_task_tick k c p)) \<and> (\<forall>c. quiet (co_update_curr k c)) \<and> (\<forall>c. quiet (co_yield k c)) \<and>
     (\<forall>c p o1. quiet (co_prio_changed k c p o1)) \<and> (\<forall>c p. quiet (co_switched_to k c p)) \<and>
     (\<forall>c p. quiet_opt (map_option (\<lambda>f. f c p) (co_switched_from k))) \<and>
     (\<forall>p c. quiet_opt (map_option (\<lambda>f. f p c) (co_migrate_rq k))) \<and>
     (\<forall>p. quiet_opt (map_option (\<lambda>f. f p) (co_task_waking k))) \<and>
     (\<forall>c p. quiet_opt (map_option (\<lambda>f. f c p) (co_task_woken k))) \<and>
     (\<forall>p. quiet_opt (map_option (\<lambda>f. f p) (co_task_fork k))) \<and>
     (\<forall>p. quiet_opt (map_option (\<lambda>f. f p) (co_task_dead k))) \<and>
     (\<forall>c. quiet_opt (map_option (\<lambda>f. f c) (co_post_schedule k))) \<and>
     (\<forall>p m. quiet_opt (map_option (\<lambda>f. f p m) (co_set_allowed k)))"

definition env_ok :: "'x env \<Rightarrow> bool" where
  "env_ok E \<longleftrightarrow> (\<forall>k. class_ok (cls E k)) \<and>
     (\<forall>c d. quiet (sched_rt_avg_update E c d)) \<and>
     (\<forall>c p. quiet (sched_info_queued E c p)) \<and> (\<forall>c p. quiet (sched_info_dequeued E c p)) \<and>
     (\<forall>p c. quiet (wq_worker_waking_up E p c)) \<and> (\<forall>p c. quiet (\<lambda>s. snd (wq_worker_sleeping E p c s))) \<and>
     (\<forall>c. quiet (hrtick_clear E c)) \<and> (\<forall>p. quiet (rt_mutex_adjust_pi E p)) \<and>
     (\<forall>p s. \<exists>m. same_core (upd_task p (\<lambda>t. t\<lparr>p_cpus_allowed := m\<rparr>) s) (cpuset_fallback E p s))"

text \<open>
  The lemmas that carry the frame proofs: an operation that is quiet, or an update of a
  field outside the core's, can be dropped from the right of \<open>same_core\<close>.
\<close>

lemma same_core_sym: "same_core s t \<longleftrightarrow> same_core t s"
  by (auto simp: same_core_def)

lemma same_core_eq: "same_core s t \<Longrightarrow> same_core a t \<longleftrightarrow> same_core a s"
  using same_core_trans same_core_sym by blast

lemma quiet_iff: "quiet f \<Longrightarrow> same_core a (f s) \<longleftrightarrow> same_core a s"
  by (simp add: quiet_def same_core_eq)

lemma quiet_opt_iff: "quiet_opt f \<Longrightarrow> same_core a (call_opt f s) \<longleftrightarrow> same_core a s"
  by (simp add: quiet_opt_def call_opt_def quiet_iff split: option.splits)

lemma do_if_iff:
  "(\<And>s. same_core a (f s) \<longleftrightarrow> same_core a s) \<Longrightarrow> same_core a (do_if b f s) \<longleftrightarrow> same_core a s"
  by (simp add: do_if_def)

lemma same_core_upd_rq:
  "(\<And>r. core_rq (f r) = core_rq r) \<Longrightarrow> same_core a (upd_rq c f s) \<longleftrightarrow> same_core a s"
  by (rule same_core_eq) (simp add: same_core_def)

lemma same_core_upd_task:
  "(\<And>t. core_task (f t) = core_task t) \<Longrightarrow> same_core a (upd_task p f s) \<longleftrightarrow> same_core a s"
  by (rule same_core_eq) (simp add: same_core_def)

lemma same_core_other:
  "same_core a (s\<lparr>ks_ipis := i\<rparr>) \<longleftrightarrow> same_core a s"
  "same_core a (s\<lparr>ks_preempt_need_resched := b\<rparr>) \<longleftrightarrow> same_core a s"
  "same_core a (s\<lparr>ks_warnings := w\<rparr>) \<longleftrightarrow> same_core a s"
  "same_core a (s\<lparr>ks_ext := x\<rparr>) \<longleftrightarrow> same_core a s"
  "same_core a (upd_rd d g s) \<longleftrightarrow> same_core a s"
  "same_core a (warn b what s) \<longleftrightarrow> same_core a s"
  by (simp_all add: same_core_def warn_def)

lemma class_quiet:
  assumes "class_ok k"
  shows "quiet (co_enqueue k c p fl)" "quiet (co_dequeue k c p fl)"
    "quiet (co_check_preempt k c p fl)" "quiet (\<lambda>s. snd (co_pick_next k c p s))"
    "quiet (co_put_prev k c p)" "quiet (co_set_curr k c)" "quiet (co_task_tick k c p)"
    "quiet (co_update_curr k c)" "quiet (co_yield k c)" "quiet (co_prio_changed k c p fl)"
    "quiet (co_switched_to k c p)"
    "quiet_opt (map_option (\<lambda>f. f c p) (co_switched_from k))"
    "quiet_opt (map_option (\<lambda>f. f p c) (co_migrate_rq k))"
    "quiet_opt (map_option (\<lambda>f. f p) (co_task_waking k))"
    "quiet_opt (map_option (\<lambda>f. f c p) (co_task_woken k))"
    "quiet_opt (map_option (\<lambda>f. f p) (co_task_fork k))"
    "quiet_opt (map_option (\<lambda>f. f p) (co_task_dead k))"
    "quiet_opt (map_option (\<lambda>f. f c) (co_post_schedule k))"
    "quiet_opt (map_option (\<lambda>f. f p m) (co_set_allowed k))"
  using assms by (simp_all add: class_ok_def)

lemma env_quiet:
  assumes "env_ok E"
  shows "class_ok (cls E k)" "quiet (sched_rt_avg_update E c d)"
    "quiet (sched_info_queued E c p)" "quiet (sched_info_dequeued E c p)"
    "quiet (wq_worker_waking_up E p c)" "quiet (\<lambda>s. snd (wq_worker_sleeping E p c s))"
    "quiet (hrtick_clear E c)" "quiet (rt_mutex_adjust_pi E p)"
  using assms by (simp_all add: env_ok_def)

lemmas core_frame = same_core_upd_rq same_core_upd_task same_core_other
  quiet_iff quiet_opt_iff do_if_iff class_quiet env_quiet core_rq_def core_task_def

section \<open>The instance the witnesses use\<close>

text \<open>
  One first-come first-served queue per CPU for every class, a clock that stands at 1000,
  the weights 1024 everywhere, and a user without privileges.
\<close>

type_synonym demo_ext = "cpu \<Rightarrow> tid list"

definition demo_class :: "demo_ext class_ops" where
  "demo_class =
     \<lparr>co_enqueue = (\<lambda>c p fl s. upd_rq c (\<lambda>r. r\<lparr>rq_nr_running := rq_nr_running r + 1\<rparr>)
        (s\<lparr>ks_ext := (ks_ext s)(c := ks_ext s c @ [p])\<rparr>)),
      co_dequeue = (\<lambda>c p fl s. upd_rq c (\<lambda>r. r\<lparr>rq_nr_running := rq_nr_running r - 1\<rparr>)
        (s\<lparr>ks_ext := (ks_ext s)(c := remove1 p (ks_ext s c))\<rparr>)),
      co_check_preempt = (\<lambda>_ _ _ s. s),
      co_pick_next = (\<lambda>c p s. (case ks_ext s c of [] \<Rightarrow> NoTask | q # _ \<Rightarrow> Picked q, s)),
      co_put_prev = (\<lambda>_ _ s. s), co_set_curr = (\<lambda>_ s. s),
      co_select_rq = (\<lambda>_ c _ _ _. c), co_task_tick = (\<lambda>_ _ s. s), co_update_curr = (\<lambda>_ s. s),
      co_yield = (\<lambda>_ s. s),
      co_prio_changed = (\<lambda>_ _ _ s. s), co_switched_to = (\<lambda>_ _ s. s),
      co_switched_from = None, co_migrate_rq = None, co_task_waking = None, co_task_woken = None,
      co_task_fork = None, co_task_dead = None, co_post_schedule = None, co_set_allowed = None\<rparr>"

text \<open>The idle class of the instance always has the idle task to run.\<close>

definition demo_idle_class :: "demo_ext class_ops" where
  "demo_idle_class = demo_class\<lparr>co_pick_next := (\<lambda>c p s. (Picked (rq_idle (ks_rqs s c)), s))\<rparr>"

definition demo_env :: "demo_ext env" where
  "demo_env =
     \<lparr>cls = (\<lambda>k. if k = Idle_class then demo_idle_class else demo_class),
      sched_clock_cpu = (\<lambda>_ _. 1000), irq_time_read = None, paravirt_steal = None,
      nontask_capacity = False, sched_rt_avg_update = (\<lambda>_ _ s. s),
      sched_info_queued = (\<lambda>_ _ s. s), sched_info_dequeued = (\<lambda>_ _ s. s),
      prio_to_weight = (\<lambda>_. 1024), prio_to_wmult = (\<lambda>_. 4194304), scale_load = (\<lambda>w. w),
      wq_worker_waking_up = (\<lambda>_ _ s. s), wq_worker_sleeping = (\<lambda>_ _ s. (None, s)),
      signal_pending_state = (\<lambda>_ _ _. False), feat_ttwu_queue = False, feat_hrtick = False,
      sd_llc_id = (\<lambda>_. 0), hrtick_clear = (\<lambda>_ s. s), capable_sys_nice = False,
      task_rlimit_nice = (\<lambda>_. 0), task_rlimit_rtprio = (\<lambda>_. 0),
      security_setnice = (\<lambda>_ _. 0), security_setscheduler = (\<lambda>_. 0),
      rt_mutex_check_prio = (\<lambda>_ _ _. False), rt_mutex_top_task = (\<lambda>_ _. None),
      rt_mutex_adjust_pi = (\<lambda>_ s. s), dl_entity_preempt = (\<lambda>_ _. False),
      rt_group_runtime_zero = (\<lambda>_ _. False), dl_bandwidth_enabled = True,
      cpu_to_node = (\<lambda>_. Some 0), cpumask_of_node = (\<lambda>_. [0, 1]), nr_cpu_ids = 2,
      cpuset_fallback = (\<lambda>_ s. s)\<rparr>"

definition demo_tsk :: "int \<Rightarrow> task_struct" where
  "demo_tsk i =
     \<lparr>p_pid = i, p_comm = ''task'', p_state = 0, p_flags = 0, p_on_rq = 1, p_on_cpu = False,
      p_prio = 120, p_static_prio = 120, p_normal_prio = 120, p_rt_priority = 0, p_policy = 0,
      p_class = Fair_class, p_load = \<lparr>lw_weight = 1024, lw_inv_weight = 4194304\<rparr>,
      p_dl = \<lparr>dl_runtime = 0, dl_deadline = 0, dl_period = 0, dl_flags = 0, dl_bw = 0,
              dl_throttled = False, dl_new = False, dl_boosted = False, dl_yielded = False\<rparr>,
      p_cpu = 0, p_wake_cpu = 0, p_cpus_allowed = {0, 1}, p_reset_on_fork = False,
      p_contributes = False, p_need_resched = False, p_polling = False, p_preempt_count = 0, p_nvcsw = 0, p_nivcsw = 0,
      p_sum_exec_runtime = 0, p_nr_migrations = 0, p_mm = Some 1, p_active_mm = Some 1,
      p_uid = 0, p_euid = 0\<rparr>"

definition demo_rq :: "tid \<Rightarrow> rq" where
  "demo_rq t =
     \<lparr>rq_curr = t, rq_idle = 0, rq_stop = None, rq_nr_running = 1, rq_cfs_nr = 1, rq_nr_switches = 0,
      rq_nr_uninterruptible = 0, rq_nr_iowait = 0, rq_cpu_load0 = 0, rq_clock = 900,
      rq_clock_task = 800, rq_skip_clock_update = 0, rq_prev_irq_time = 0, rq_prev_steal_time = 0,
      rq_age_stamp = 0, rq_rt_avg = 0, rq_idle_stamp = 0, rq_avg_idle = 0, rq_max_idle_cost = 0,
      rq_wake_list = [], rq_prev_mm = None, rq_post_schedule = False, rq_idle_balance = False,
      rq_online = True, rq_rd = 0\<rparr>"

text \<open>Two CPUs; task 1 runs on CPU 0 with task 2 queued behind it, task 0 is the idle task.\<close>

definition demo_state :: "demo_ext kstate" where
  "demo_state =
     \<lparr>ks_tasks = (\<lambda>p. demo_tsk (int p)),
      ks_rqs = (\<lambda>c. demo_rq (if c = 0 then 1 else 0)),
      ks_rds = (\<lambda>_. \<lparr>rd_span = {0, 1}, rd_online = {0, 1},
                     rd_dl_bw = \<lparr>db_bw = 996147, db_total_bw = 0\<rparr>, rd_refcount = 2\<rparr>),
      ks_cpu = 0, ks_preempt_count = 0, ks_preempt_need_resched = False,
      ks_online = {0, 1}, ks_active = {0, 1}, ks_possible = {0, 1},
      ks_frames = (\<lambda>p. if p = 2 then Some (1, 0) else None), ks_mm_count = (\<lambda>_. 1), ks_ipis = [], ks_warnings = [],
      ks_ext = (\<lambda>c. if c = 0 then [1, 2] else [])\<rparr>"

lemmas demo_defs = demo_env_def demo_class_def demo_idle_class_def demo_tsk_def demo_rq_def
  demo_state_def

lemma demo_class_ok: "class_ok demo_class"
  by (simp add: class_ok_def demo_class_def quiet_def quiet_opt_def same_core_def core_task_def
      core_rq_def)

lemma demo_idle_class_ok: "class_ok demo_idle_class"
  using demo_class_ok by (simp add: class_ok_def demo_idle_class_def quiet_def)

lemma demo_env_ok: "env_ok demo_env"
  by (simp add: env_ok_def demo_env_def demo_class_ok demo_idle_class_ok quiet_def same_core_def
      core_task_def exI [of _ "{0, 1 :: nat}"])

end
