(* ===== verification/Sched_Clock.thy ===== *)
theory Sched_Clock
  imports Sched_Types
begin

text \<open>
  The runqueue clocks of \<^verbatim>\<open>core.c\<close>: \<open>update_rq_clock\<close> advances \<open>rq->clock\<close> to the CPU's
  scheduler clock, \<open>update_rq_clock_task\<close> advances \<open>clock_task\<close> by what interrupts and the
  hypervisor did not take, \<open>sched_avg_update\<close> ages the real-time average, \<open>update_avg\<close> is
  the moving average of idle times. \<open>s64\<close> values are 64-bit words read with \<open>sint\<close>.
\<close>

definition update_rq_clock_task :: "'x env \<Rightarrow> cpu \<Rightarrow> u64 \<Rightarrow> 'x kstate \<Rightarrow> 'x kstate" where
  "update_rq_clock_task E c delta s =
     (let (irq_delta, delta, s) =
        (case irq_time_read E of
           None \<Rightarrow> (0, delta, s)
         | Some irq \<Rightarrow>
             let d = irq c (ks_ext s) - rq_prev_irq_time (ks_rqs s c);
                 d = (if sint d > sint delta then delta else d)
             in (d, delta - d,
                 upd_rq c (\<lambda>r. r\<lparr>rq_prev_irq_time := rq_prev_irq_time r + d\<rparr>) s));
        (steal, delta, s) =
        (case paravirt_steal E of
           None \<Rightarrow> (0, delta, s)
         | Some clock \<Rightarrow>
             let d = clock c (ks_ext s) - rq_prev_steal_time (ks_rqs s c);
                 d = (if sint d > sint delta then delta else d)
             in (d, delta - d,
                 upd_rq c (\<lambda>r. r\<lparr>rq_prev_steal_time := rq_prev_steal_time r + d\<rparr>) s));
        s = upd_rq c (\<lambda>r. r\<lparr>rq_clock_task := rq_clock_task r + delta\<rparr>) s
      in if irq_delta + steal \<noteq> 0 \<and> nontask_capacity E
         then sched_rt_avg_update E c (irq_delta + steal) s else s)"

definition update_rq_clock :: "'x env \<Rightarrow> cpu \<Rightarrow> 'x kstate \<Rightarrow> 'x kstate" where
  "update_rq_clock E c s =
     (if rq_skip_clock_update (ks_rqs s c) > 0 then s
      else
        let delta = sched_clock_cpu E c (ks_ext s) - rq_clock (ks_rqs s c)
        in if sint delta < 0 then s
           else update_rq_clock_task E c delta
                  (upd_rq c (\<lambda>r. r\<lparr>rq_clock := rq_clock r + delta\<rparr>) s))"

text \<open>
  \<open>while ((s64)(rq_clock(rq) - rq->age_stamp) > period) \<dots>\<close>, on the two fields it changes.
  \<open>period\<close> is half the averaging interval, a sysctl: with a period of 0 the loop can run forever.
\<close>

partial_function (option) age_rt_avg :: "u64 \<Rightarrow> u64 \<Rightarrow> u64 \<Rightarrow> u64 \<Rightarrow> (u64 \<times> u64) option" where
  "age_rt_avg period clock stamp avg =
     (if sint (clock - stamp) > sint period
      then age_rt_avg period clock (stamp + period) (avg div 2)
      else Some (stamp, avg))"

definition sched_avg_update :: "u64 \<Rightarrow> cpu \<Rightarrow> 'x kstate \<Rightarrow> 'x kstate option" where
  "sched_avg_update period c s =
     (let r = ks_rqs s c in
      map_option (\<lambda>(stamp, avg). upd_rq c (\<lambda>r. r\<lparr>rq_age_stamp := stamp, rq_rt_avg := avg\<rparr>) s)
        (age_rt_avg period (rq_clock r) (rq_age_stamp r) (rq_rt_avg r)))"

definition update_avg :: "u64 \<Rightarrow> u64 \<Rightarrow> u64" where
  "update_avg avg sample = (let diff = sample - avg in avg + signed_drop_bit 3 diff)"

section \<open>The clocks only move forward\<close>

text \<open>The header's \<open>sched_rt_avg_update\<close> adds to \<open>rt_avg\<close> and touches neither clock.\<close>

definition rt_avg_update_ok :: "'x env \<Rightarrow> bool" where
  "rt_avg_update_ok E \<longleftrightarrow>
     (\<forall>c c' d s. rq_clock (ks_rqs (sched_rt_avg_update E c d s) c') = rq_clock (ks_rqs s c') \<and>
        rq_clock_task (ks_rqs (sched_rt_avg_update E c d s) c') = rq_clock_task (ks_rqs s c'))"

text \<open>Interrupt and steal time are monotone: what was accounted for never exceeds what there is.\<close>

definition stolen_forward :: "'x env \<Rightarrow> cpu \<Rightarrow> 'x kstate \<Rightarrow> bool" where
  "stolen_forward E c s \<longleftrightarrow>
     (case irq_time_read E of None \<Rightarrow> True
      | Some f \<Rightarrow> sint (f c (ks_ext s) - rq_prev_irq_time (ks_rqs s c)) \<ge> 0) \<and>
     (case paravirt_steal E of None \<Rightarrow> True
      | Some f \<Rightarrow> sint (f c (ks_ext s) - rq_prev_steal_time (ks_rqs s c)) \<ge> 0)"

lemma sint_diff_bounds:
  fixes a d :: u64
  assumes "0 \<le> sint d" "sint d \<le> sint a"
  shows "0 \<le> sint (a - d)" "sint (a - d) \<le> sint a"
proof -
  have "sint (a - d) = sint a - sint d"
    using assms sint64_range [of a] by (intro sint64_diff) simp_all
  with assms show "0 \<le> sint (a - d)" "sint (a - d) \<le> sint a"
    by simp_all
qed

lemma clamp_bounds:
  fixes a d :: u64
  assumes "0 \<le> sint a" "0 \<le> sint d"
  shows "0 \<le> sint (if sint d > sint a then a else d)"
    and "sint (if sint d > sint a then a else d) \<le> sint a"
  using assms by simp_all

lemma update_rq_clock_task_advance:
  assumes "rt_avg_update_ok E" "stolen_forward E c s" "0 \<le> sint delta"
  shows "\<exists>d. rq_clock_task (ks_rqs (update_rq_clock_task E c delta s) c)
             = rq_clock_task (ks_rqs s c) + d \<and> 0 \<le> sint d \<and> sint d \<le> sint delta"
proof -
  define clampd where "clampd d a = (if sint d > sint a then a else d)" for d a :: u64
  have cl: "0 \<le> sint (clampd d a)" "sint (clampd d a) \<le> sint a"
    if "0 \<le> sint a" "0 \<le> sint d" for d a
    using that by (simp_all add: clampd_def)
  define i where "i = (case irq_time_read E of None \<Rightarrow> 0
     | Some f \<Rightarrow> clampd (f c (ks_ext s) - rq_prev_irq_time (ks_rqs s c)) delta)"
  define s1 where "s1 = (case irq_time_read E of None \<Rightarrow> s
     | Some f \<Rightarrow> upd_rq c (\<lambda>r. r\<lparr>rq_prev_irq_time := rq_prev_irq_time r + i\<rparr>) s)"
  define t where "t = (case paravirt_steal E of None \<Rightarrow> 0
     | Some f \<Rightarrow> clampd (f c (ks_ext s) - rq_prev_steal_time (ks_rqs s c)) (delta - i))"
  have i: "0 \<le> sint i" "sint i \<le> sint delta"
    using assms cl by (auto simp: i_def stolen_forward_def split: option.split)
  note di = sint_diff_bounds [OF i]
  have t: "0 \<le> sint t" "sint t \<le> sint (delta - i)"
    using assms cl di by (auto simp: t_def stolen_forward_def split: option.split)
  note dt = sint_diff_bounds [OF t]
  have "rq_clock_task (ks_rqs (update_rq_clock_task E c delta s) c)
      = rq_clock_task (ks_rqs s c) + (delta - i - t)"
    using assms(1)
    by (auto simp: update_rq_clock_task_def Let_def i_def t_def s1_def clampd_def
        rt_avg_update_ok_def split: option.split)
  with dt di show ?thesis
    by (intro exI [of _ "delta - i - t"]) auto
qed

lemma update_rq_clock_task_clock:
  "rt_avg_update_ok E \<Longrightarrow>
     rq_clock (ks_rqs (update_rq_clock_task E c delta s) c) = rq_clock (ks_rqs s c)"
  by (auto simp: update_rq_clock_task_def Let_def rt_avg_update_ok_def split: option.split)

text \<open>Updating a runqueue's clock never moves it back, and the task clock advances by at least
  nothing and at most as much as the clock: interrupt and steal time are only ever taken off.\<close>

theorem update_rq_clock_monotone:
  assumes "rt_avg_update_ok E" "stolen_forward E c s"
  shows "\<exists>d dt. rq_clock (ks_rqs (update_rq_clock E c s) c) = rq_clock (ks_rqs s c) + d \<and>
    rq_clock_task (ks_rqs (update_rq_clock E c s) c) = rq_clock_task (ks_rqs s c) + dt \<and>
    0 \<le> sint dt \<and> sint dt \<le> sint d"
proof (cases "rq_skip_clock_update (ks_rqs s c) > 0
    \<or> sint (sched_clock_cpu E c (ks_ext s) - rq_clock (ks_rqs s c)) < 0")
  case True
  then show ?thesis
    by (auto simp: update_rq_clock_def Let_def intro!: exI [of _ "0 :: u64"])
next
  case False
  let ?d = "sched_clock_cpu E c (ks_ext s) - rq_clock (ks_rqs s c)"
  let ?s1 = "upd_rq c (\<lambda>r. r\<lparr>rq_clock := rq_clock r + ?d\<rparr>) s"
  have eq: "update_rq_clock E c s = update_rq_clock_task E c ?d ?s1"
    using False by (simp add: update_rq_clock_def Let_def)
  have fw: "stolen_forward E c ?s1"
    using assms(2) by (auto simp: stolen_forward_def split: option.splits)
  obtain dt where dt: "rq_clock_task (ks_rqs (update_rq_clock_task E c ?d ?s1) c)
      = rq_clock_task (ks_rqs ?s1 c) + dt" "0 \<le> sint dt" "sint dt \<le> sint ?d"
    using update_rq_clock_task_advance [OF assms(1) fw, of ?d] False by auto
  have "rq_clock (ks_rqs (update_rq_clock E c s) c) = rq_clock (ks_rqs s c) + ?d"
    using update_rq_clock_task_clock [OF assms(1), of c ?d ?s1] eq by simp
  with dt eq show ?thesis
    by (intro exI [of _ ?d] exI [of _ dt]) simp
qed

section \<open>Ageing the real-time average\<close>

text \<open>Where one period is positive the loop ends, with less than a period left to account for.\<close>

lemma age_rt_avg_total:
  assumes "0 < sint period"
  shows "\<exists>k stamp'. age_rt_avg period clock stamp avg = Some (stamp', drop_bit k avg) \<and>
    stamp' = stamp + of_nat k * period \<and> sint (clock - stamp') \<le> sint period"
proof (induction "nat (sint (clock - stamp))" arbitrary: stamp avg rule: less_induct)
  case less
  show ?case
  proof (cases "sint (clock - stamp) > sint period")
    case False
    then show ?thesis
      by (auto simp: age_rt_avg.simps intro!: exI [of _ 0])
  next
    case True
    have d: "sint (clock - (stamp + period)) = sint (clock - stamp) - sint period"
    proof -
      have "sint (clock - stamp - period) = sint (clock - stamp) - sint period"
        using True assms sint64_range [of "clock - stamp"] by (intro sint64_diff) simp_all
      then show ?thesis by (simp add: diff_diff_eq)
    qed
    with True assms have "nat (sint (clock - (stamp + period))) < nat (sint (clock - stamp))"
      by simp
    from less [OF this, of "avg div 2"] obtain k where
      k: "age_rt_avg period clock (stamp + period) (avg div 2)
            = Some (stamp + period + of_nat k * period, drop_bit k (avg div 2))"
        "sint (clock - (stamp + period + of_nat k * period)) \<le> sint period"
      by auto
    have "drop_bit k (avg div 2) = drop_bit (Suc k) avg"
      by (simp add: drop_bit_Suc)
    with k True show ?thesis
      by (auto simp: age_rt_avg.simps [of _ _ stamp] algebra_simps intro!: exI [of _ "Suc k"])
  qed
qed

text \<open>With a positive averaging period the ageing loop of sched_avg_update ends: it halves the
  real-time average once per elapsed period, moves the stamp by as many periods, and leaves less
  than or exactly one period unaccounted for.\<close>

theorem sched_avg_update_total:
  assumes "0 < sint period"
  shows "\<exists>t k. sched_avg_update period c s = Some t \<and>
    rq_rt_avg (ks_rqs t c) = drop_bit k (rq_rt_avg (ks_rqs s c)) \<and>
    rq_age_stamp (ks_rqs t c) = rq_age_stamp (ks_rqs s c) + of_nat k * period \<and>
    sint (rq_clock (ks_rqs t c) - rq_age_stamp (ks_rqs t c)) \<le> sint period"
  using age_rt_avg_total [OF assms, of "rq_clock (ks_rqs s c)" "rq_age_stamp (ks_rqs s c)"
      "rq_rt_avg (ks_rqs s c)"]
  by (auto simp: sched_avg_update_def Let_def)

theorem sched_avg_update_total_witness:
  "\<exists>t k. sched_avg_update 400 0 demo_state = Some t \<and>
    rq_rt_avg (ks_rqs t 0) = drop_bit k (rq_rt_avg (ks_rqs demo_state 0)) \<and>
    sint (rq_clock (ks_rqs t 0) - rq_age_stamp (ks_rqs t 0)) \<le> 400"
  using sched_avg_update_total [of 400 0 demo_state] by auto

theorem update_rq_clock_monotone_witness:
  "\<exists>d dt. rq_clock (ks_rqs (update_rq_clock demo_env 0 demo_state) 0) = 900 + d \<and>
    rq_clock_task (ks_rqs (update_rq_clock demo_env 0 demo_state) 0) = 800 + dt \<and>
    0 \<le> sint dt \<and> sint dt \<le> sint d"
  using update_rq_clock_monotone [of demo_env 0 demo_state]
  by (simp add: rt_avg_update_ok_def stolen_forward_def demo_defs)

section \<open>Nothing else moves\<close>

lemma update_rq_clock_task_quiet:
  "env_ok E \<Longrightarrow> same_core a (update_rq_clock_task E c delta s) \<longleftrightarrow> same_core a s"
  by (simp add: update_rq_clock_task_def Let_def core_frame split: option.split)

lemma update_rq_clock_quiet [frame]:
  "env_ok E \<Longrightarrow> same_core a (update_rq_clock E c s) \<longleftrightarrow> same_core a s"
  by (simp add: update_rq_clock_def Let_def core_frame update_rq_clock_task_quiet)

end
