(* ===== verification/Sched_Queue.thy ===== *)
theory Sched_Queue
  imports Sched_Clock
begin

text \<open>
  Queueing and rescheduling primitives of \<^verbatim>\<open>core.c\<close>: marking a CPU's current task for
  rescheduling (with the interrupt to a remote CPU), putting tasks on and off runqueues
  with the load accounting, telling the classes about a change, wakeup preemption, and the
  idle tests.
\<close>

section \<open>Rescheduling\<close>

text \<open>\<open>set_nr_and_not_polling\<close>: the atomic \<open>fetch_or\<close> of \<open>TIF_NEED_RESCHED\<close>; true if nobody polls.\<close>

definition set_nr_and_not_polling :: "tid \<Rightarrow> 'x kstate \<Rightarrow> bool \<times> 'x kstate" where
  "set_nr_and_not_polling p s =
     (\<not> p_polling (ks_tasks s p), upd_task p (\<lambda>t. t\<lparr>p_need_resched := True\<rparr>) s)"

definition set_nr_if_polling :: "tid \<Rightarrow> 'x kstate \<Rightarrow> bool \<times> 'x kstate" where
  "set_nr_if_polling p s =
     (if \<not> p_polling (ks_tasks s p) then (False, s)
      else if p_need_resched (ks_tasks s p) then (True, s)
      else (True, upd_task p (\<lambda>t. t\<lparr>p_need_resched := True\<rparr>) s))"

text \<open>\<open>smp_send_reschedule\<close>.\<close>

definition send_ipi :: "cpu \<Rightarrow> 'x kstate \<Rightarrow> 'x kstate" where
  "send_ipi c s = s\<lparr>ks_ipis := c # ks_ipis s\<rparr>"

definition resched_curr :: "cpu \<Rightarrow> 'x kstate \<Rightarrow> 'x kstate" where
  "resched_curr c s =
     (let curr = rq_curr (ks_rqs s c) in
      if p_need_resched (ks_tasks s curr) then s
      else if c = ks_cpu s
      then (upd_task curr (\<lambda>t. t\<lparr>p_need_resched := True\<rparr>) s)\<lparr>ks_preempt_need_resched := True\<rparr>
      else let (b, s) = set_nr_and_not_polling curr s in if b then send_ipi c s else s)"

text \<open>\<open>got\<close>: whether the try-lock of the runqueue succeeded.\<close>

definition resched_cpu :: "bool \<Rightarrow> cpu \<Rightarrow> 'x kstate \<Rightarrow> 'x kstate" where
  "resched_cpu got c s = (if \<not> got then s else resched_curr c s)"

definition idle_cpu :: "'x kstate \<Rightarrow> cpu \<Rightarrow> bool" where
  "idle_cpu s c =
     (let r = ks_rqs s c in
      if rq_curr r \<noteq> rq_idle r then False
      else if rq_nr_running r \<noteq> 0 then False
      else if rq_wake_list r \<noteq> [] then False
      else True)"

definition idle_task :: "'x kstate \<Rightarrow> cpu \<Rightarrow> tid" where
  "idle_task s c = rq_idle (ks_rqs s c)"

definition task_curr :: "'x kstate \<Rightarrow> tid \<Rightarrow> bool" where
  "task_curr s p \<longleftrightarrow> rq_curr (ks_rqs s (task_cpu s p)) = p"

definition kick_process :: "tid \<Rightarrow> 'x kstate \<Rightarrow> 'x kstate" where
  "kick_process p s =
     (let c = task_cpu s p in
      if c \<noteq> ks_cpu s \<and> task_curr s p then send_ipi c s else s)"

definition wake_up_idle_cpu :: "cpu \<Rightarrow> 'x kstate \<Rightarrow> 'x kstate" where
  "wake_up_idle_cpu c s =
     (if c = ks_cpu s then s
      else let (b, s) = set_nr_and_not_polling (rq_idle (ks_rqs s c)) s
           in if b then send_ipi c s else s)"

text \<open>
  The timer target: \<open>domains c\<close> are the spans of the scheduling domains of \<open>c\<close>, innermost
  first; \<open>migration\<close> is the sysctl that allows timers to move.
\<close>

definition get_nohz_timer_target ::
  "'x env \<Rightarrow> (cpu \<Rightarrow> cpu set list) \<Rightarrow> bool \<Rightarrow> bool \<Rightarrow> 'x kstate \<Rightarrow> cpu"
where
  "get_nohz_timer_target E domains migration pinned s =
     (let c = ks_cpu s in
      if pinned \<or> \<not> migration \<or> \<not> idle_cpu s c then c
      else case find (\<lambda>i. \<not> idle_cpu s i) (concat (map (cpus_in E) (domains c))) of
             Some i \<Rightarrow> i
           | None \<Rightarrow> c)"

text \<open>
  \<open>wake_up_full_nohz_cpu\<close>, with the tick subsystem's answers and its kick as parameters.
\<close>

definition wake_up_full_nohz_cpu ::
  "(cpu \<Rightarrow> bool) \<Rightarrow> bool \<Rightarrow> (cpu \<Rightarrow> 'x kstate \<Rightarrow> 'x kstate) \<Rightarrow> cpu \<Rightarrow> 'x kstate \<Rightarrow> bool \<times> 'x kstate"
where
  "wake_up_full_nohz_cpu full tick_stopped kick c s =
     (if full c
      then (True, if c \<noteq> ks_cpu s \<or> tick_stopped then kick c s else s)
      else (False, s))"

definition wake_up_nohz_cpu ::
  "(cpu \<Rightarrow> bool) \<Rightarrow> bool \<Rightarrow> (cpu \<Rightarrow> 'x kstate \<Rightarrow> 'x kstate) \<Rightarrow> cpu \<Rightarrow> 'x kstate \<Rightarrow> 'x kstate"
where
  "wake_up_nohz_cpu full tick_stopped kick c s =
     (let (b, s) = wake_up_full_nohz_cpu full tick_stopped kick c s
      in if \<not> b then wake_up_idle_cpu c s else s)"

text \<open>\<open>kicked\<close> is the CPU's \<open>NOHZ_BALANCE_KICK\<close> bit; the result gives its new value.\<close>

definition got_nohz_idle_kick :: "bool \<Rightarrow> 'x kstate \<Rightarrow> bool \<times> bool" where
  "got_nohz_idle_kick kicked s =
     (if \<not> kicked then (False, kicked)
      else if idle_cpu s (ks_cpu s) \<and> \<not> p_need_resched (ks_tasks s (current_task s))
      then (True, kicked)
      else (False, False))"

definition sched_can_stop_tick :: "'x kstate \<Rightarrow> bool" where
  "sched_can_stop_tick s = (if rq_nr_running (ks_rqs s (ks_cpu s)) > 1 then False else True)"

section \<open>On and off the runqueue\<close>

definition enqueue_task :: "'x env \<Rightarrow> cpu \<Rightarrow> tid \<Rightarrow> int \<Rightarrow> 'x kstate \<Rightarrow> 'x kstate" where
  "enqueue_task E c p flags s =
     (let s = update_rq_clock E c s; s = sched_info_queued E c p s
      in co_enqueue (class_of E s p) c p flags s)"

definition dequeue_task :: "'x env \<Rightarrow> cpu \<Rightarrow> tid \<Rightarrow> int \<Rightarrow> 'x kstate \<Rightarrow> 'x kstate" where
  "dequeue_task E c p flags s =
     (let s = update_rq_clock E c s; s = sched_info_dequeued E c p s
      in co_dequeue (class_of E s p) c p flags s)"

definition activate_task :: "'x env \<Rightarrow> cpu \<Rightarrow> tid \<Rightarrow> int \<Rightarrow> 'x kstate \<Rightarrow> 'x kstate" where
  "activate_task E c p flags s =
     (let s = (if task_contributes_to_load (ks_tasks s p)
               then upd_rq c (\<lambda>r. r\<lparr>rq_nr_uninterruptible := rq_nr_uninterruptible r - 1\<rparr>) s else s)
      in enqueue_task E c p flags s)"

definition deactivate_task :: "'x env \<Rightarrow> cpu \<Rightarrow> tid \<Rightarrow> int \<Rightarrow> 'x kstate \<Rightarrow> 'x kstate" where
  "deactivate_task E c p flags s =
     (let s = (if task_contributes_to_load (ks_tasks s p)
               then upd_rq c (\<lambda>r. r\<lparr>rq_nr_uninterruptible := rq_nr_uninterruptible r + 1\<rparr>) s else s)
      in dequeue_task E c p flags s)"

section \<open>Telling the classes\<close>

definition check_class_changed ::
  "'x env \<Rightarrow> cpu \<Rightarrow> tid \<Rightarrow> sched_class \<Rightarrow> int \<Rightarrow> 'x kstate \<Rightarrow> 'x kstate"
where
  "check_class_changed E c p prev_class oldprio s =
     (if prev_class \<noteq> p_class (ks_tasks s p)
      then let s = call_opt (map_option (\<lambda>f. f c p) (co_switched_from (cls E prev_class))) s
           in co_switched_to (class_of E s p) c p s
      else if oldprio \<noteq> p_prio (ks_tasks s p) \<or> dl_prio (p_prio (ks_tasks s p))
      then co_prio_changed (class_of E s p) c p oldprio s
      else s)"

text \<open>The \<open>for_each_class\<close> scan of \<open>check_preempt_curr\<close>: which of the two classes comes first.\<close>

fun scan_classes :: "sched_class list \<Rightarrow> sched_class \<Rightarrow> sched_class \<Rightarrow> bool" where
  "scan_classes [] cur new = False"
| "scan_classes (k # ks) cur new =
     (if k = cur then False else if k = new then True else scan_classes ks cur new)"

definition check_preempt_curr :: "'x env \<Rightarrow> cpu \<Rightarrow> tid \<Rightarrow> int \<Rightarrow> 'x kstate \<Rightarrow> 'x kstate" where
  "check_preempt_curr E c p flags s =
     (let curr = rq_curr (ks_rqs s c);
          s = (if p_class (ks_tasks s p) = p_class (ks_tasks s curr)
               then co_check_preempt (class_of E s curr) c p flags s
               else if scan_classes all_classes (p_class (ks_tasks s curr)) (p_class (ks_tasks s p))
               then resched_curr c s else s);
          curr = rq_curr (ks_rqs s c)
      in if task_on_rq_queued s curr \<and> p_need_resched (ks_tasks s curr)
         then upd_rq c (\<lambda>r. r\<lparr>rq_skip_clock_update := 1\<rparr>) s else s)"

section \<open>What they leave alone\<close>

lemma resched_curr_frame [frame]: "same_core a (resched_curr c s) \<longleftrightarrow> same_core a s"
  by (simp add: resched_curr_def set_nr_and_not_polling_def send_ipi_def Let_def core_frame)

lemma set_nr_if_polling_frame [frame]:
  "same_core a (snd (set_nr_if_polling p s)) \<longleftrightarrow> same_core a s"
  by (simp add: set_nr_if_polling_def core_frame)

lemma enqueue_task_frame [frame]:
  "env_ok E \<Longrightarrow> same_core a (enqueue_task E c p fl s) \<longleftrightarrow> same_core a s"
  by (simp add: enqueue_task_def Let_def frame core_frame)

lemma dequeue_task_frame [frame]:
  "env_ok E \<Longrightarrow> same_core a (dequeue_task E c p fl s) \<longleftrightarrow> same_core a s"
  by (simp add: dequeue_task_def Let_def frame core_frame)

lemma activate_task_frame [frame]:
  "env_ok E \<Longrightarrow> same_core a (activate_task E c p fl s) \<longleftrightarrow> same_core a s"
  by (simp add: activate_task_def Let_def frame core_frame)

lemma deactivate_task_frame [frame]:
  "env_ok E \<Longrightarrow> same_core a (deactivate_task E c p fl s) \<longleftrightarrow> same_core a s"
  by (simp add: deactivate_task_def Let_def frame core_frame)

lemma check_class_changed_frame [frame]:
  "env_ok E \<Longrightarrow> same_core a (check_class_changed E c p k o1 s) \<longleftrightarrow> same_core a s"
  by (simp add: check_class_changed_def Let_def frame core_frame)

lemma check_preempt_curr_frame [frame]:
  "env_ok E \<Longrightarrow> same_core a (check_preempt_curr E c p fl s) \<longleftrightarrow> same_core a s"
  by (simp add: check_preempt_curr_def Let_def frame core_frame)

section \<open>Preemption by class\<close>

lemma scan_all_classes: "scan_classes all_classes cur new \<longleftrightarrow> cur < new"
  by (cases cur; cases new) (simp_all add: all_classes_def less_sched_class_def)

lemma resched_curr_marks:
  "p_need_resched (ks_tasks (resched_curr c s) (rq_curr (ks_rqs s c)))"
  by (simp add: resched_curr_def set_nr_and_not_polling_def send_ipi_def Let_def)

lemma resched_curr_ipi:
  "ks_ipis (resched_curr c s) =
     (if \<not> p_need_resched (ks_tasks s (rq_curr (ks_rqs s c))) \<and> c \<noteq> ks_cpu s
         \<and> \<not> p_polling (ks_tasks s (rq_curr (ks_rqs s c)))
      then c # ks_ipis s else ks_ipis s)"
  by (simp add: resched_curr_def set_nr_and_not_polling_def send_ipi_def Let_def)

lemma resched_curr_tasks:
  "ks_tasks (resched_curr c s) p =
     (if p = rq_curr (ks_rqs s c) then (ks_tasks s p)\<lparr>p_need_resched := True\<rparr> else ks_tasks s p)"
  by (auto simp: resched_curr_def set_nr_and_not_polling_def send_ipi_def Let_def
      intro!: task_struct.equality)

lemma resched_curr_rqs [simp]: "ks_rqs (resched_curr c s) = ks_rqs s"
  by (simp add: resched_curr_def set_nr_and_not_polling_def send_ipi_def Let_def)

text \<open>A wakeup of a task of another class preempts by class order alone: the CPU's current task
  is marked for rescheduling if the new task's class is higher, and left as it was if it is lower.\<close>

theorem check_preempt_curr_by_class:
  assumes "p_class (ks_tasks s p) \<noteq> p_class (ks_tasks s (rq_curr (ks_rqs s c)))"
  shows "p_need_resched (ks_tasks (check_preempt_curr E c p fl s) (rq_curr (ks_rqs s c))) \<longleftrightarrow>
    p_need_resched (ks_tasks s (rq_curr (ks_rqs s c))) \<or>
    p_class (ks_tasks s (rq_curr (ks_rqs s c))) < p_class (ks_tasks s p)"
  using assms
  by (simp add: check_preempt_curr_def Let_def scan_all_classes resched_curr_tasks)

theorem check_preempt_curr_by_class_witness:
  "p_need_resched (ks_tasks (check_preempt_curr demo_env 0 2 0
     (upd_task 2 (\<lambda>t. t\<lparr>p_class := Rt_class\<rparr>) demo_state)) 1)"
  using check_preempt_curr_by_class [of "upd_task 2 (\<lambda>t. t\<lparr>p_class := Rt_class\<rparr>) demo_state" 2 0
      demo_env 0]
  by (simp add: demo_state_def demo_rq_def demo_tsk_def less_sched_class_def)

lemma find_concat_Some:
  "find P xs = Some x \<Longrightarrow> P x \<and> x \<in> set xs"
  by (auto simp: find_Some_iff in_set_conv_nth)

text \<open>The timer target of an idle CPU is a busy CPU of one of its domains, or the CPU itself when
  it has none (or must not move the timer).\<close>

theorem get_nohz_timer_target_busy:
  "get_nohz_timer_target E domains migration pinned s = ks_cpu s \<or>
   (\<not> idle_cpu s (get_nohz_timer_target E domains migration pinned s) \<and>
    (\<exists>d \<in> set (domains (ks_cpu s)). get_nohz_timer_target E domains migration pinned s \<in> d))"
proof (cases "find (\<lambda>i. \<not> idle_cpu s i) (concat (map (cpus_in E) (domains (ks_cpu s))))")
  case None
  then show ?thesis by (simp add: get_nohz_timer_target_def Let_def)
next
  case (Some i)
  from find_concat_Some [OF this] show ?thesis
    by (auto simp: get_nohz_timer_target_def Let_def Some set_cpus_in)
qed

end
