(* ===== verification/Sched_Prio.thy ===== *)
theory Sched_Prio
  imports Sched_Queue
begin

text \<open>
  Priorities in \<^verbatim>\<open>core.c\<close>: the load weight of a nice level, the normal and the effective
  priority, \<open>set_user_nice\<close> and the \<open>nice\<close> system call, and the boosting of a mutex owner in
  \<open>rt_mutex_setprio\<close>. The invariant of the component ties a task's class to its priority.
\<close>

section \<open>Definitions\<close>

definition set_load_weight :: "'x env \<Rightarrow> tid \<Rightarrow> 'x kstate \<Rightarrow> 'x kstate" where
  "set_load_weight E p s =
     (let t = ks_tasks s p; prio = p_static_prio t - MAX_RT_PRIO in
      if p_policy t = SCHED_IDLE
      then upd_task p (\<lambda>t. t\<lparr>p_load := \<lparr>lw_weight = scale_load E 3, lw_inv_weight = 1431655765\<rparr>\<rparr>) s
      else upd_task p (\<lambda>t. t\<lparr>p_load := \<lparr>lw_weight = scale_load E (prio_to_weight E prio),
                                      lw_inv_weight = prio_to_wmult E prio\<rparr>\<rparr>) s)"

definition normal_prio0 :: "task_struct \<Rightarrow> int" where   \<comment> \<open>\<open>__normal_prio\<close>\<close>
  "normal_prio0 t = p_static_prio t"

definition normal_prio :: "task_struct \<Rightarrow> int" where
  "normal_prio t =
     (if dl_policy (p_policy t) then MAX_DL_PRIO - 1
      else if rt_policy (p_policy t) then sint (99 - p_rt_priority t)
      else normal_prio0 t)"

definition effective_prio :: "tid \<Rightarrow> 'x kstate \<Rightarrow> int \<times> 'x kstate" where
  "effective_prio p s =
     (let s = upd_task p (\<lambda>t. t\<lparr>p_normal_prio := normal_prio t\<rparr>) s; t = ks_tasks s p in
      if \<not> rt_prio (p_prio t) then (p_normal_prio t, s) else (p_prio t, s))"

definition set_user_nice :: "'x env \<Rightarrow> tid \<Rightarrow> int \<Rightarrow> 'x kstate \<Rightarrow> 'x kstate" where
  "set_user_nice E p nice s =
     (if task_nice s p = nice \<or> nice < MIN_NICE \<or> nice > MAX_NICE then s
      else
        let c = task_cpu s p in
        if dl_policy (p_policy (ks_tasks s p)) \<or> rt_policy (p_policy (ks_tasks s p))
        then upd_task p (\<lambda>t. t\<lparr>p_static_prio := NICE_TO_PRIO nice\<rparr>) s
        else
          let queued = task_on_rq_queued s p;
              s = do_if queued (dequeue_task E c p 0) s;
              s = upd_task p (\<lambda>t. t\<lparr>p_static_prio := NICE_TO_PRIO nice\<rparr>) s;
              s = set_load_weight E p s;
              old_prio = p_prio (ks_tasks s p);
              (prio, s) = effective_prio p s;
              s = upd_task p (\<lambda>t. t\<lparr>p_prio := prio\<rparr>) s;
              delta = prio - old_prio
          in do_if queued
               (\<lambda>s. let s = enqueue_task E c p 0 s
                    in do_if (delta < 0 \<or> (delta > 0 \<and> p_on_cpu (ks_tasks s p))) (resched_curr c) s) s)"

definition can_nice :: "'x env \<Rightarrow> tid \<Rightarrow> int \<Rightarrow> bool" where
  "can_nice E p nice \<longleftrightarrow> of_int (MAX_NICE - nice + 1) \<le> task_rlimit_nice E p \<or> capable_sys_nice E"

definition sys_nice :: "'x env \<Rightarrow> int \<Rightarrow> 'x kstate \<Rightarrow> errno \<times> 'x kstate" where
  "sys_nice E increment s =
     (let p = current_task s;
          increment = max (- NICE_WIDTH) (min NICE_WIDTH increment);
          nice = task_nice s p + increment;
          nice = max MIN_NICE (min MAX_NICE nice)
      in if increment < 0 \<and> \<not> can_nice E p nice then (- EPERM, s)
         else let retval = security_setnice E p nice
              in if retval \<noteq> 0 then (retval, s) else (0, set_user_nice E p nice s))"

definition task_prio :: "'x kstate \<Rightarrow> tid \<Rightarrow> int" where
  "task_prio s p = p_prio (ks_tasks s p) - MAX_RT_PRIO"

text \<open>
  The middle of \<open>rt_mutex_setprio\<close>: the class that goes with the new priority and, for a
  deadline priority, whether the task is boosted; the result is the flag to enqueue with.
\<close>

definition boost_class :: "'x env \<Rightarrow> tid \<Rightarrow> int \<Rightarrow> int \<Rightarrow> 'x kstate \<Rightarrow> int \<times> 'x kstate" where
  "boost_class E p prio oldprio s =
     (if dl_prio prio
      then if \<not> dl_prio (p_normal_prio (ks_tasks s p)) \<or>
              (case rt_mutex_top_task E p s of
                 None \<Rightarrow> False
               | Some q \<Rightarrow> dl_entity_preempt E (p_dl (ks_tasks s q)) (p_dl (ks_tasks s p)))
           then (ENQUEUE_REPLENISH,
                 upd_task p (\<lambda>t. t\<lparr>p_dl := (p_dl t)\<lparr>dl_boosted := True, dl_throttled := False\<rparr>,
                                 p_class := Dl_class\<rparr>) s)
           else (0,
                 upd_task p (\<lambda>t. t\<lparr>p_dl := (p_dl t)\<lparr>dl_boosted := False\<rparr>, p_class := Dl_class\<rparr>) s)
      else
        let s = do_if (dl_prio oldprio)
                  (upd_task p (\<lambda>t. t\<lparr>p_dl := (p_dl t)\<lparr>dl_boosted := False\<rparr>\<rparr>)) s
        in if rt_prio prio
           then (if oldprio < prio then ENQUEUE_HEAD else 0, upd_task p (\<lambda>t. t\<lparr>p_class := Rt_class\<rparr>) s)
           else (0, upd_task p (\<lambda>t. t\<lparr>p_class := Fair_class\<rparr>) s))"

text \<open>
  \<open>rt_mutex_setprio\<close>; \<open>pi_blocked\<close> is \<open>p->pi_blocked_on\<close>. A priority above \<open>MAX_PRIO\<close> is a
  \<open>BUG_ON\<close>, a request to boost the idle task is ignored.
\<close>

definition rt_mutex_setprio ::
  "'x env \<Rightarrow> bool \<Rightarrow> tid \<Rightarrow> int \<Rightarrow> 'x kstate \<Rightarrow> crash + 'x kstate"
where
  "rt_mutex_setprio E pi_blocked p prio s =
     (if prio > MAX_PRIO then Inl Bug
      else
        let c = task_cpu s p in
        if p = rq_idle (ks_rqs s c)
        then Inr (warn pi_blocked ''p->pi_blocked_on'' (warn (p \<noteq> rq_curr (ks_rqs s c)) ''p != rq->curr'' s))
        else
          let oldprio = p_prio (ks_tasks s p);
              prev_class = p_class (ks_tasks s p);
              queued = task_on_rq_queued s p;
              running = task_current s c p;
              s = do_if queued (dequeue_task E c p 0) s;
              s = do_if running (\<lambda>s. co_put_prev (class_of E s p) c p s) s;
              (enqueue_flag, s) = boost_class E p prio oldprio s;
              s = upd_task p (\<lambda>t. t\<lparr>p_prio := prio\<rparr>) s;
              s = do_if running (\<lambda>s. co_set_curr (class_of E s p) c s) s;
              s = do_if queued (enqueue_task E c p enqueue_flag) s
          in Inr (check_class_changed E c p prev_class oldprio s))"

section \<open>Coherence of class and priority\<close>

text \<open>The class the core gives a task of a priority.\<close>

definition class_for :: "int \<Rightarrow> sched_class" where
  "class_for prio = (if dl_prio prio then Dl_class else if rt_prio prio then Rt_class else Fair_class)"

text \<open>
  A task is coherent if its class fits its priority (the stop and idle tasks apart), and its
  static priority is that of a nice level.
\<close>

definition coherent :: "task_struct \<Rightarrow> bool" where
  "coherent t \<longleftrightarrow>
     (p_class t \<in> {Stop_class, Idle_class} \<or> p_class t = class_for (p_prio t)) \<and>
     MAX_RT_PRIO \<le> p_static_prio t \<and> p_static_prio t < MAX_PRIO"

lemma coherent_core:
  "core_task t = core_task u \<Longrightarrow> coherent t \<longleftrightarrow> coherent u"
  by (simp add: coherent_def core_task_def)

lemma same_core_coherent:
  "same_core s t \<Longrightarrow> coherent (ks_tasks t p) \<longleftrightarrow> coherent (ks_tasks s p)"
  by (rule coherent_core) (simp add: same_core_def)

text \<open>
  The state after an operation that, for the core, only rewrites one task: what the core
  sees of it is \<open>f\<close> applied to the task.
\<close>

definition task_update :: "tid \<Rightarrow> (task_struct \<Rightarrow> task_struct) \<Rightarrow> 'x kstate \<Rightarrow> 'x kstate \<Rightarrow> bool" where
  "task_update p f s t \<longleftrightarrow> same_core (upd_task p f s) t"

lemma same_core_upd_cong:
  assumes "same_core s t" "\<And>a b. core_task a = core_task b \<Longrightarrow> core_task (f a) = core_task (f b)"
  shows "same_core (upd_task p f s) (upd_task p f t)"
  using assms(1) assms(2) [of "ks_tasks t p" "ks_tasks s p"] by (simp add: same_core_def)

lemma task_update_other:
  "task_update p f s t \<Longrightarrow> q \<noteq> p \<Longrightarrow> core_task (ks_tasks t q) = core_task (ks_tasks s q)"
  by (simp add: task_update_def same_core_def)

lemma task_update_self:
  "task_update p f s t \<Longrightarrow> core_task (ks_tasks t p) = core_task (f (ks_tasks s p))"
  by (simp add: task_update_def same_core_def)

lemma task_update_coherent:
  assumes "task_update p f s t" "\<And>q. coherent (ks_tasks s q)" "coherent (f (ks_tasks s p))"
  shows "coherent (ks_tasks t q)"
proof (cases "q = p")
  case True
  then show ?thesis
    using coherent_core [OF task_update_self [OF assms(1)]] assms(3) by simp
next
  case False
  then show ?thesis
    using coherent_core [OF task_update_other [OF assms(1)]] assms(2) by simp
qed

section \<open>Nice levels\<close>

text \<open>What \<open>set_user_nice\<close> makes of a task that is neither real-time nor deadline.\<close>

definition renice :: "'x env \<Rightarrow> int \<Rightarrow> task_struct \<Rightarrow> task_struct" where
  "renice E nice t =
     t\<lparr>p_static_prio := NICE_TO_PRIO nice, p_normal_prio := NICE_TO_PRIO nice,
       p_prio := (if rt_prio (p_prio t) then p_prio t else NICE_TO_PRIO nice),
       p_load := (if p_policy t = SCHED_IDLE
                  then \<lparr>lw_weight = scale_load E 3, lw_inv_weight = 1431655765\<rparr>
                  else \<lparr>lw_weight = scale_load E (prio_to_weight E (nice + 20)),
                        lw_inv_weight = prio_to_wmult E (nice + 20)\<rparr>)\<rparr>"

lemma renice_cong: "core_task a = core_task b \<Longrightarrow> core_task (renice E n a) = core_task (renice E n b)"
  by (simp add: core_task_def renice_def)

lemma set_user_nice_steps:
  assumes "\<not> dl_policy (p_policy (ks_tasks s p))" "\<not> rt_policy (p_policy (ks_tasks s p))"
  shows "upd_task p (\<lambda>t. t\<lparr>p_prio := fst (effective_prio p (set_load_weight E p
            (upd_task p (\<lambda>t. t\<lparr>p_static_prio := NICE_TO_PRIO n\<rparr>) s)))\<rparr>)
           (snd (effective_prio p (set_load_weight E p
            (upd_task p (\<lambda>t. t\<lparr>p_static_prio := NICE_TO_PRIO n\<rparr>) s))))
       = upd_task p (renice E n) s"
  using assms
  by (cases "ks_tasks s p")
     (auto simp: effective_prio_def set_load_weight_def renice_def normal_prio_def normal_prio0_def
      upd_task_def Let_def add.commute)

lemma set_user_nice_update:
  assumes "env_ok E" "task_nice s p \<noteq> nice" "MIN_NICE \<le> nice" "nice \<le> MAX_NICE"
    and pol: "\<not> dl_policy (p_policy (ks_tasks s p))" "\<not> rt_policy (p_policy (ks_tasks s p))"
  shows "task_update p (renice E nice) s (set_user_nice E p nice s)"
proof -
  define s1 where "s1 = do_if (task_on_rq_queued s p) (dequeue_task E (task_cpu s p) p 0) s"
  have s1: "same_core s s1"
    using assms(1) by (simp add: s1_def frame core_frame)
  have pol1: "\<not> dl_policy (p_policy (ks_tasks s1 p))" "\<not> rt_policy (p_policy (ks_tasks s1 p))"
    using pol same_core_fields(9) [OF s1, of p] by simp_all
  note steps = set_user_nice_steps [OF pol1, of E nice]
  have "same_core (upd_task p (renice E nice) s1) (set_user_nice E p nice s)"
    using assms(1-4) pol
    by (simp add: set_user_nice_def Let_def case_prod_beta s1_def [symmetric] steps frame do_if_iff)
  from same_core_trans [OF same_core_upd_cong [OF s1 renice_cong] this] show ?thesis
    by (simp add: task_update_def)
qed

text \<open>set_user_nice on a task that is neither real-time nor deadline sets its static and normal
  priority to the nice level, its load weight to the table's entry, its priority to the nice level
  unless the task is boosted, and changes nothing else the core owns, in this or any other task.\<close>

theorem set_user_nice_result:
  assumes "env_ok E" "task_nice s p \<noteq> nice" "MIN_NICE \<le> nice" "nice \<le> MAX_NICE"
    "\<not> dl_policy (p_policy (ks_tasks s p))" "\<not> rt_policy (p_policy (ks_tasks s p))"
  shows "core_task (ks_tasks (set_user_nice E p nice s) p) = core_task (renice E nice (ks_tasks s p)) \<and>
    (\<forall>q. q \<noteq> p \<longrightarrow> core_task (ks_tasks (set_user_nice E p nice s) q) = core_task (ks_tasks s q)) \<and>
    (\<forall>c. core_rq (ks_rqs (set_user_nice E p nice s) c) = core_rq (ks_rqs s c))"
  using set_user_nice_update [OF assms] task_update_self task_update_other
  by (fastforce simp: task_update_def same_core_def)

theorem set_user_nice_result_witness:
  "core_task (ks_tasks (set_user_nice demo_env 1 5 demo_state) 1) = core_task (renice demo_env 5 (demo_tsk 1)) \<and>
   p_prio (renice demo_env 5 (demo_tsk 1)) = 125"
  using set_user_nice_result [OF demo_env_ok, of demo_state 1 5]
  by (simp add: demo_state_def demo_tsk_def policy_defs renice_def)

text \<open>The nice level of the calling task stays in -20..19 through the nice system call, whatever
  the increment; a call that is refused changes nothing; and an unprivileged task whose limit does
  not allow it cannot raise its priority.\<close>

theorem sys_nice_bounds:
  assumes "env_ok E" "MIN_NICE \<le> task_nice s (current_task s)" "task_nice s (current_task s) \<le> MAX_NICE"
  shows "case sys_nice E inc s of (r, t) \<Rightarrow>
    MIN_NICE \<le> task_nice t (current_task s) \<and> task_nice t (current_task s) \<le> MAX_NICE \<and>
    (r \<noteq> 0 \<longrightarrow> t = s) \<and>
    (inc < 0 \<and> \<not> capable_sys_nice E \<and> task_rlimit_nice E (current_task s) = 0 \<longrightarrow> r = - EPERM)"
proof -
  let ?p = "current_task s"
  define n where "n = max MIN_NICE (min MAX_NICE
     (task_nice s ?p + max (- NICE_WIDTH) (min NICE_WIDTH inc)))"
  have n: "MIN_NICE \<le> n" "n \<le> MAX_NICE" by (simp_all add: n_def)
  have range: "MIN_NICE \<le> task_nice (set_user_nice E ?p n s) ?p"
    "task_nice (set_user_nice E ?p n s) ?p \<le> MAX_NICE"
  proof -
    have "p_static_prio (ks_tasks (set_user_nice E ?p n s) ?p) \<in> {p_static_prio (ks_tasks s ?p), n + 120}"
    proof (cases "task_nice s ?p = n \<or> dl_policy (p_policy (ks_tasks s ?p)) \<or> rt_policy (p_policy (ks_tasks s ?p))")
      case True
      then show ?thesis by (auto simp: set_user_nice_def Let_def)
    next
      case False
      then have "core_task (ks_tasks (set_user_nice E ?p n s) ?p) = core_task (renice E n (ks_tasks s ?p))"
        using set_user_nice_result [OF assms(1) _ n, of s ?p] by blast
      then show ?thesis by (simp add: core_task_def renice_def)
    qed
    then show "MIN_NICE \<le> task_nice (set_user_nice E ?p n s) ?p"
      "task_nice (set_user_nice E ?p n s) ?p \<le> MAX_NICE"
      using assms(2,3) n by auto
  qed
  have "\<not> can_nice E ?p n" if "\<not> capable_sys_nice E" "task_rlimit_nice E ?p = 0"
  proof -
    have "uint (of_int (19 - n + 1) :: u64) = 19 - n + 1"
      using n by (subst uint_word_of_int) (simp add: take_bit_int_eq_self)
    with n have "(of_int (19 - n + 1) :: u64) \<noteq> 0"
      by (intro notI) (simp only: unsigned_0)
    with that show ?thesis by (simp add: can_nice_def)
  qed
  then show ?thesis
    using assms range by (auto simp: sys_nice_def Let_def n_def [symmetric])
qed

theorem sys_nice_bounds_witness:
  "fst (sys_nice demo_env (-3) demo_state) = - EPERM"
  using sys_nice_bounds [OF demo_env_ok, of demo_state "-3"]
  by (simp add: demo_defs case_prod_beta)

section \<open>Boosting\<close>

lemma boost_class_core:
  "same_core (upd_task p (\<lambda>t. t\<lparr>p_class := class_for prio\<rparr>) s) (snd (boost_class E p prio o1 s))"
  by (simp add: boost_class_def Let_def class_for_def same_core_def core_task_def do_if_def)

lemma renice_coherent:
  "coherent t \<Longrightarrow> MIN_NICE \<le> n \<Longrightarrow> n \<le> MAX_NICE \<Longrightarrow> coherent (renice E n t)"
  by (auto simp: coherent_def renice_def class_for_def)

lemma set_user_nice_coherent:
  assumes "env_ok E" "\<And>q. coherent (ks_tasks s q)"
  shows "coherent (ks_tasks (set_user_nice E p nice s) q)"
proof (cases "task_nice s p = nice \<or> nice < MIN_NICE \<or> nice > MAX_NICE
    \<or> dl_policy (p_policy (ks_tasks s p)) \<or> rt_policy (p_policy (ks_tasks s p))")
  case True
  then show ?thesis
    using assms(2) [of q] assms(2) [of p] by (auto simp: set_user_nice_def Let_def coherent_def)
next
  case False
  then have "task_update p (renice E nice) s (set_user_nice E p nice s)"
    using assms(1) by (intro set_user_nice_update) auto
  then show ?thesis
    by (rule task_update_coherent) (use assms False in \<open>auto intro!: renice_coherent\<close>)
qed

lemma rt_mutex_setprio_update:
  assumes "env_ok E" "prio \<le> MAX_PRIO" "p \<noteq> rq_idle (ks_rqs s (task_cpu s p))"
  obtains t where "rt_mutex_setprio E pi_blocked p prio s = Inr t"
    "task_update p (\<lambda>t. t\<lparr>p_prio := prio, p_class := class_for prio\<rparr>) s t"
proof -
  let ?c = "task_cpu s p" and ?o = "p_prio (ks_tasks s p)"
  define s2 where "s2 = do_if (task_current s ?c p) (\<lambda>s. co_put_prev (class_of E s p) ?c p s)
     (do_if (task_on_rq_queued s p) (dequeue_task E ?c p 0) s)"
  have s2: "same_core s s2"
    using assms(1) by (simp add: s2_def frame core_frame)
  obtain fl s3 where b: "boost_class E p prio ?o s2 = (fl, s3)"
    by fastforce
  have s3: "same_core (upd_task p (\<lambda>t. t\<lparr>p_class := class_for prio\<rparr>) s2) s3"
    using boost_class_core [of p prio s2 E ?o] b by simp
  define s4 where "s4 = upd_task p (\<lambda>t. t\<lparr>p_prio := prio\<rparr>) s3"
  obtain t where t: "rt_mutex_setprio E pi_blocked p prio s = Inr t"
    and c: "same_core s4 t"
    using assms by (simp add: rt_mutex_setprio_def Let_def s2_def [symmetric] b s4_def [symmetric]
        frame core_frame)
  have "same_core (upd_task p (\<lambda>t. t\<lparr>p_prio := prio\<rparr>)
      (upd_task p (\<lambda>t. t\<lparr>p_class := class_for prio\<rparr>) s2)) s4"
    unfolding s4_def by (rule same_core_upd_cong [OF s3]) (simp add: core_task_def)
  note same_core_trans [OF this c]
  then have "task_update p (\<lambda>t. t\<lparr>p_prio := prio, p_class := class_for prio\<rparr>) s t"
    using s2 by (simp add: task_update_def same_core_def core_task_def)
  with t show ?thesis by (rule that)
qed

text \<open>rt_mutex_setprio gives a task that is not the idle task exactly the priority asked for and
  the scheduling class that goes with it, and of all other tasks and runqueues changes nothing the
  core owns, whether the task is queued, running or neither.\<close>

theorem rt_mutex_setprio_result:
  assumes "env_ok E" "prio \<le> MAX_PRIO" "p \<noteq> rq_idle (ks_rqs s (task_cpu s p))"
  shows "\<exists>t. rt_mutex_setprio E pi_blocked p prio s = Inr t \<and>
    core_task (ks_tasks t p) = core_task ((ks_tasks s p)\<lparr>p_prio := prio, p_class := class_for prio\<rparr>) \<and>
    (\<forall>q. q \<noteq> p \<longrightarrow> core_task (ks_tasks t q) = core_task (ks_tasks s q)) \<and>
    (\<forall>c. core_rq (ks_rqs t c) = core_rq (ks_rqs s c))"
proof -
  obtain t where "rt_mutex_setprio E pi_blocked p prio s = Inr t"
    "task_update p (\<lambda>t. t\<lparr>p_prio := prio, p_class := class_for prio\<rparr>) s t"
    using rt_mutex_setprio_update [OF assms] by blast
  then show ?thesis
    by (auto simp: task_update_def same_core_def)
qed

theorem rt_mutex_setprio_result_witness:
  "\<exists>t. rt_mutex_setprio demo_env False 1 50 demo_state = Inr t \<and>
    p_prio (ks_tasks t 1) = 50 \<and> p_class (ks_tasks t 1) = Rt_class"
  using rt_mutex_setprio_result [OF demo_env_ok, of 50 1 demo_state False]
  by (auto simp: demo_state_def demo_rq_def demo_tsk_def core_task_def class_for_def)

text \<open>C32 Renicing and boosting keep every task coherent: its class is the one of its priority and
  its static priority that of a nice level.\<close>

theorem prio_changes_coherent:
  assumes "env_ok E" "\<And>q. coherent (ks_tasks s q)"
  shows "coherent (ks_tasks (set_user_nice E p nice s) q) \<and>
    (case rt_mutex_setprio E pi_blocked p prio s of
       Inl e \<Rightarrow> e = Bug \<and> prio > MAX_PRIO | Inr t \<Rightarrow> coherent (ks_tasks t q))"
proof -
  have "case rt_mutex_setprio E pi_blocked p prio s of
       Inl e \<Rightarrow> e = Bug \<and> prio > MAX_PRIO | Inr t \<Rightarrow> coherent (ks_tasks t q)"
  proof (cases "prio > MAX_PRIO \<or> p = rq_idle (ks_rqs s (task_cpu s p))")
    case True
    then show ?thesis
      using assms(2) by (auto simp: rt_mutex_setprio_def Let_def warn_def)
  next
    case False
    then obtain t where t: "rt_mutex_setprio E pi_blocked p prio s = Inr t"
      "task_update p (\<lambda>t. t\<lparr>p_prio := prio, p_class := class_for prio\<rparr>) s t"
      using rt_mutex_setprio_update [OF assms(1), of prio p s pi_blocked] by auto
    have "coherent ((ks_tasks s p)\<lparr>p_prio := prio, p_class := class_for prio\<rparr>)"
      using assms(2) [of p] by (simp add: coherent_def)
    from task_update_coherent [OF t(2) assms(2) this] t(1) show ?thesis by simp
  qed
  then show ?thesis using set_user_nice_coherent [OF assms] by simp
qed

theorem prio_changes_coherent_witness:
  "coherent (ks_tasks (set_user_nice demo_env 1 7 demo_state) 1)"
  using prio_changes_coherent [OF demo_env_ok, of demo_state 1 7 1]
  by (simp add: demo_state_def demo_tsk_def coherent_def class_for_def)

end
