(* ===== verification/Sched_Wakeup.thy ===== *)
theory Sched_Wakeup
  imports Sched_Prio
begin

text \<open>
  Migration and wakeup in \<^verbatim>\<open>core.c\<close>: moving a task to another CPU, choosing a CPU for a task
  (with the fallback that breaks affinity), the local and the remote wakeup, the pending
  list and the reschedule interrupt. One call is one sequence of steps of the store; the
  loop that spins until another CPU has switched the task out does not end in a store that
  says it has not, which is the outcome \<open>Diverges\<close>.
\<close>

section \<open>Moving a task\<close>

text \<open>\<open>__set_task_cpu\<close> of the scheduler's header.\<close>

definition assign_task_cpu :: "tid \<Rightarrow> cpu \<Rightarrow> 'x kstate \<Rightarrow> 'x kstate" where
  "assign_task_cpu p c s = upd_task p (\<lambda>t. t\<lparr>p_cpu := c, p_wake_cpu := c\<rparr>) s"

definition set_task_cpu :: "'x env \<Rightarrow> tid \<Rightarrow> cpu \<Rightarrow> 'x kstate \<Rightarrow> 'x kstate" where
  "set_task_cpu E p new_cpu s =
     (let t = ks_tasks s p;
          s = warn (p_state t \<noteq> TASK_RUNNING \<and> p_state t \<noteq> TASK_WAKING \<and>
                    p_preempt_count t AND PREEMPT_ACTIVE = 0) ''set_task_cpu'' s;
          s = do_if (task_cpu s p \<noteq> new_cpu)
                (\<lambda>s. upd_task p (\<lambda>t. t\<lparr>p_nr_migrations := p_nr_migrations t + 1\<rparr>)
                   (call_opt (map_option (\<lambda>f. f p new_cpu) (co_migrate_rq (class_of E s p))) s)) s
      in assign_task_cpu p new_cpu s)"

definition migrate_swap_task :: "'x env \<Rightarrow> tid \<Rightarrow> cpu \<Rightarrow> 'x kstate \<Rightarrow> 'x kstate" where
  "migrate_swap_task E p c s =     \<comment> \<open>\<open>__migrate_swap_task\<close>\<close>
     (if task_on_rq_queued s p
      then let src = task_cpu s p;
               s = deactivate_task E src p 0 s;
               s = set_task_cpu E p c s;
               s = activate_task E c p 0 s
           in check_preempt_curr E c p 0 s
      else upd_task p (\<lambda>t. t\<lparr>p_wake_cpu := c\<rparr>) s)"

record migration_swap_arg =
  src_task :: tid
  dst_task :: tid
  src_cpu :: cpu
  dst_cpu :: cpu

definition migrate_swap_stop ::
  "'x env \<Rightarrow> migration_swap_arg \<Rightarrow> 'x kstate \<Rightarrow> errno \<times> 'x kstate"
where
  "migrate_swap_stop E arg s =
     (if task_cpu s (dst_task arg) \<noteq> dst_cpu arg then (- EAGAIN, s)
      else if task_cpu s (src_task arg) \<noteq> src_cpu arg then (- EAGAIN, s)
      else if dst_cpu arg \<notin> p_cpus_allowed (ks_tasks s (src_task arg)) then (- EAGAIN, s)
      else if src_cpu arg \<notin> p_cpus_allowed (ks_tasks s (dst_task arg)) then (- EAGAIN, s)
      else let s = migrate_swap_task E (src_task arg) (dst_cpu arg) s;
               s = migrate_swap_task E (dst_task arg) (src_cpu arg) s
           in (0, s))"

text \<open>
  \<open>stop_two\<close> is \<open>stop_two_cpus\<close>: it runs the function it is given on a stopped pair of CPUs,
  possibly after others have run.
\<close>

definition migrate_swap ::
  "'x env \<Rightarrow> (cpu \<Rightarrow> cpu \<Rightarrow> ('x kstate \<Rightarrow> errno \<times> 'x kstate) \<Rightarrow> 'x kstate \<Rightarrow> errno \<times> 'x kstate) \<Rightarrow>
     tid \<Rightarrow> tid \<Rightarrow> 'x kstate \<Rightarrow> errno \<times> 'x kstate"
where
  "migrate_swap E stop_two cur p s =
     (let arg = \<lparr>src_task = cur, dst_task = p, src_cpu = task_cpu s cur, dst_cpu = task_cpu s p\<rparr> in
      if src_cpu arg = dst_cpu arg then (- EINVAL, s)
      else if src_cpu arg \<notin> ks_active s \<or> dst_cpu arg \<notin> ks_active s then (- EINVAL, s)
      else if dst_cpu arg \<notin> p_cpus_allowed (ks_tasks s cur) then (- EINVAL, s)
      else if src_cpu arg \<notin> p_cpus_allowed (ks_tasks s p) then (- EINVAL, s)
      else stop_two (dst_cpu arg) (src_cpu arg) (migrate_swap_stop E arg) s)"

section \<open>Waiting for a task to be off its CPU\<close>

text \<open>
  \<open>wait_task_inactive\<close> watches a task other CPUs run: each observation is what one of its
  reads finds, in order. \<open>Spin\<close> is the lockless test of the inner loop, \<open>Locked\<close> the reads
  under the runqueue lock. \<open>None\<close>: the observations end before the function returns.
\<close>

datatype observation =
    Spin (sp_running: bool) (sp_state: u64)
  | Locked (ob_running: bool) (ob_queued: bool) (ob_state: u64) (ob_nvcsw: u64)

fun wait_task_inactive :: "u64 \<Rightarrow> observation list \<Rightarrow> u64 option" where
  "wait_task_inactive match_state [] = None"
| "wait_task_inactive match_state (Spin running st # obs) =
     (if running \<and> match_state \<noteq> 0 \<and> st \<noteq> match_state then Some 0
      else wait_task_inactive match_state obs)"
| "wait_task_inactive match_state (Locked running queued st nvcsw # obs) =
     (let ncsw = (if match_state = 0 \<or> st = match_state then nvcsw OR 0x8000000000000000 else 0) in
      if ncsw = 0 then Some 0
      else if running then wait_task_inactive match_state obs
      else if queued then wait_task_inactive match_state obs
      else Some ncsw)"

section \<open>Choosing a CPU\<close>

definition do_set_cpus_allowed :: "'x env \<Rightarrow> tid \<Rightarrow> cpu set \<Rightarrow> 'x kstate \<Rightarrow> 'x kstate" where
  "do_set_cpus_allowed E p m s =
     upd_task p (\<lambda>t. t\<lparr>p_cpus_allowed := m\<rparr>)
       (call_opt (map_option (\<lambda>f. f p m) (co_set_allowed (class_of E s p))) s)"

datatype fallback = Cpuset | Possible | Fail

fun fallback_rank :: "fallback \<Rightarrow> nat" where
  "fallback_rank Cpuset = 2"
| "fallback_rank Possible = 1"
| "fallback_rank Fail = 0"

text \<open>The endless loop of \<open>select_fallback_rq\<close>: its three states make it end.\<close>

function fallback_loop :: "'x env \<Rightarrow> tid \<Rightarrow> fallback \<Rightarrow> 'x kstate \<Rightarrow> crash + cpu \<times> fallback \<times> 'x kstate" where
  "fallback_loop E p st s =
     (case find (\<lambda>c. c \<in> ks_online s \<and> c \<in> ks_active s) (cpus_in E (p_cpus_allowed (ks_tasks s p))) of
        Some c \<Rightarrow> Inr (c, st, s)
      | None \<Rightarrow>
          (case st of
             Cpuset \<Rightarrow> fallback_loop E p Possible (cpuset_fallback E p s)
           | Possible \<Rightarrow> fallback_loop E p Fail (do_set_cpus_allowed E p (ks_possible s) s)
           | Fail \<Rightarrow> Inl Bug))"
  by pat_completeness auto
termination
  by (relation "measure (\<lambda>(E, p, st, s). fallback_rank st)") auto

declare fallback_loop.simps [simp del]

text \<open>The message (where the rate limit lets it through) is recorded with the warnings.\<close>

definition select_fallback_rq :: "'x env \<Rightarrow> cpu \<Rightarrow> tid \<Rightarrow> 'x kstate \<Rightarrow> crash + cpu \<times> 'x kstate" where
  "select_fallback_rq E c p s =
     (let here = (case cpu_to_node E c of
                    None \<Rightarrow> None
                  | Some nid \<Rightarrow> find (\<lambda>d. d \<in> ks_online s \<and> d \<in> ks_active s \<and>
                                        d \<in> p_cpus_allowed (ks_tasks s p)) (cpumask_of_node E nid))
      in case here of
           Some d \<Rightarrow> Inr (d, s)
         | None \<Rightarrow>
             bindC (fallback_loop E p Cpuset s) (\<lambda>(d, st, s).
               Inr (d, warn (st \<noteq> Cpuset \<and> p_mm (ks_tasks s p) \<noteq> None) ''no longer affine'' s)))"

definition select_task_rq ::
  "'x env \<Rightarrow> tid \<Rightarrow> cpu \<Rightarrow> int \<Rightarrow> int \<Rightarrow> 'x kstate \<Rightarrow> crash + cpu \<times> 'x kstate"
where
  "select_task_rq E p c sd_flags wake_flags s =
     (let c = co_select_rq (class_of E s p) p c sd_flags wake_flags s in
      if c \<notin> p_cpus_allowed (ks_tasks s p) \<or> c \<notin> ks_online s
      then select_fallback_rq E (task_cpu s p) p s
      else Inr (c, s))"

section \<open>Wakeup\<close>

definition ttwu_activate :: "'x env \<Rightarrow> cpu \<Rightarrow> tid \<Rightarrow> int \<Rightarrow> 'x kstate \<Rightarrow> 'x kstate" where
  "ttwu_activate E c p en_flags s =
     (let s = activate_task E c p en_flags s;
          s = upd_task p (\<lambda>t. t\<lparr>p_on_rq := TASK_ON_RQ_QUEUED\<rparr>) s
      in do_if (p_flags (ks_tasks s p) AND PF_WQ_WORKER \<noteq> 0) (wq_worker_waking_up E p c) s)"

definition ttwu_do_wakeup :: "'x env \<Rightarrow> cpu \<Rightarrow> tid \<Rightarrow> int \<Rightarrow> 'x kstate \<Rightarrow> 'x kstate" where
  "ttwu_do_wakeup E c p wake_flags s =
     (let s = check_preempt_curr E c p wake_flags s;
          s = upd_task p (\<lambda>t. t\<lparr>p_state := TASK_RUNNING\<rparr>) s;
          s = call_opt (map_option (\<lambda>f. f c p) (co_task_woken (class_of E s p))) s
      in do_if (rq_idle_stamp (ks_rqs s c) \<noteq> 0)
           (upd_rq c (\<lambda>r.
              let delta = rq_clock r - rq_idle_stamp r; mx = 2 * rq_max_idle_cost r;
                  avg = update_avg (rq_avg_idle r) delta
              in r\<lparr>rq_avg_idle := (if avg > mx then mx else avg), rq_idle_stamp := 0\<rparr>)) s)"

definition ttwu_do_activate :: "'x env \<Rightarrow> cpu \<Rightarrow> tid \<Rightarrow> int \<Rightarrow> 'x kstate \<Rightarrow> 'x kstate" where
  "ttwu_do_activate E c p wake_flags s =
     (let s = do_if (p_contributes (ks_tasks s p))
                (upd_rq c (\<lambda>r. r\<lparr>rq_nr_uninterruptible := rq_nr_uninterruptible r - 1\<rparr>)) s;
          s = ttwu_activate E c p (ENQUEUE_WAKEUP + ENQUEUE_WAKING) s
      in ttwu_do_wakeup E c p wake_flags s)"

definition ttwu_remote :: "'x env \<Rightarrow> tid \<Rightarrow> int \<Rightarrow> 'x kstate \<Rightarrow> bool \<times> 'x kstate" where
  "ttwu_remote E p wake_flags s =
     (if task_on_rq_queued s p
      then (True, ttwu_do_wakeup E (task_cpu s p) p wake_flags (update_rq_clock E (task_cpu s p) s))
      else (False, s))"

definition sched_ttwu_pending :: "'x env \<Rightarrow> 'x kstate \<Rightarrow> 'x kstate" where
  "sched_ttwu_pending E s =
     (let c = ks_cpu s; llist = rq_wake_list (ks_rqs s c);
          s = upd_rq c (\<lambda>r. r\<lparr>rq_wake_list := []\<rparr>) s
      in if llist = [] then s
         else fold (\<lambda>p s. ttwu_do_activate E c p 0 s) llist s)"

text \<open>\<open>preempt_fold_need_resched\<close> of the header.\<close>

definition preempt_fold_need_resched :: "'x kstate \<Rightarrow> 'x kstate" where
  "preempt_fold_need_resched s =
     (if p_need_resched (ks_tasks s (current_task s)) then s\<lparr>ks_preempt_need_resched := True\<rparr> else s)"

text \<open>\<open>kicked\<close> is the CPU's \<open>NOHZ_BALANCE_KICK\<close> bit, before and after.\<close>

definition scheduler_ipi :: "'x env \<Rightarrow> bool \<Rightarrow> 'x kstate \<Rightarrow> bool \<times> 'x kstate" where
  "scheduler_ipi E kicked s =
     (let s = preempt_fold_need_resched s;
          empty = (rq_wake_list (ks_rqs s (ks_cpu s)) = []);
          (got, kicked) = (if empty then got_nohz_idle_kick kicked s else (True, kicked))
      in if empty \<and> \<not> got then (kicked, s)
         else
           let s = sched_ttwu_pending E s;
               (got, kicked) = got_nohz_idle_kick kicked s
           in (kicked, do_if got (upd_rq (ks_cpu s) (\<lambda>r. r\<lparr>rq_idle_balance := True\<rparr>)) s))"

definition ttwu_queue_remote :: "tid \<Rightarrow> cpu \<Rightarrow> 'x kstate \<Rightarrow> 'x kstate" where
  "ttwu_queue_remote p c s =
     (let was_empty = (rq_wake_list (ks_rqs s c) = []);
          s = upd_rq c (\<lambda>r. r\<lparr>rq_wake_list := p # rq_wake_list r\<rparr>) s
      in if was_empty
         then let (polling, s) = set_nr_if_polling (rq_idle (ks_rqs s c)) s
              in if \<not> polling then send_ipi c s else s
         else s)"

text \<open>\<open>is_idle_task\<close> is a test for process id 0.\<close>

definition wake_up_if_idle :: "cpu \<Rightarrow> 'x kstate \<Rightarrow> 'x kstate" where
  "wake_up_if_idle c s =
     (let r = ks_rqs s c in
      if p_pid (ks_tasks s (rq_curr r)) \<noteq> 0 then s
      else let (polling, s) = set_nr_if_polling (rq_idle r) s
           in if polling then s
              else if p_pid (ks_tasks s (rq_curr (ks_rqs s c))) = 0 then send_ipi c s
              else s)"

definition cpus_share_cache :: "'x env \<Rightarrow> cpu \<Rightarrow> cpu \<Rightarrow> bool" where
  "cpus_share_cache E this that \<longleftrightarrow> sd_llc_id E this = sd_llc_id E that"

definition ttwu_queue :: "'x env \<Rightarrow> tid \<Rightarrow> cpu \<Rightarrow> 'x kstate \<Rightarrow> 'x kstate" where
  "ttwu_queue E p c s =
     (if feat_ttwu_queue E \<and> \<not> cpus_share_cache E (ks_cpu s) c
      then ttwu_queue_remote p c s
      else ttwu_do_activate E c p 0 s)"

definition try_to_wake_up ::
  "'x env \<Rightarrow> tid \<Rightarrow> u64 \<Rightarrow> int \<Rightarrow> 'x kstate \<Rightarrow> crash + bool \<times> 'x kstate"
where
  "try_to_wake_up E p state wake_flags s =
     (if p_state (ks_tasks s p) AND state = 0 then Inr (False, s)
      else
        let (woken, s') = (if p_on_rq (ks_tasks s p) \<noteq> 0 then ttwu_remote E p wake_flags s else (False, s))
        in if woken then Inr (True, s')
           else if p_on_cpu (ks_tasks s' p) then Inl Diverges
           else
             let s = upd_task p (\<lambda>t. t\<lparr>p_contributes := task_contributes_to_load t,
                                      p_state := TASK_WAKING\<rparr>) s';
                 s = call_opt (map_option (\<lambda>f. f p) (co_task_waking (class_of E s p))) s
             in bindC (select_task_rq E p (p_wake_cpu (ks_tasks s p)) SD_BALANCE_WAKE wake_flags s)
                  (\<lambda>(c, s). Inr (True, ttwu_queue E p c
                      (do_if (task_cpu s p \<noteq> c) (set_task_cpu E p c) s))))"

definition try_to_wake_up_local :: "'x env \<Rightarrow> tid \<Rightarrow> 'x kstate \<Rightarrow> 'x kstate" where
  "try_to_wake_up_local E p s =
     (let c = task_cpu s p in
      if c \<noteq> ks_cpu s then warn True ''rq != this_rq()'' s
      else if p = current_task s then warn True ''p == current'' s
      else if p_state (ks_tasks s p) AND TASK_NORMAL = 0 then s
      else ttwu_do_wakeup E c p 0
             (do_if (\<not> task_on_rq_queued s p) (ttwu_activate E c p ENQUEUE_WAKEUP) s))"

text \<open>\<open>stopped\<close> is \<open>task_is_stopped_or_traced(p)\<close>.\<close>

definition wake_up_process :: "'x env \<Rightarrow> bool \<Rightarrow> tid \<Rightarrow> 'x kstate \<Rightarrow> crash + bool \<times> 'x kstate" where
  "wake_up_process E stopped p s = try_to_wake_up E p TASK_NORMAL 0 (warn stopped ''stopped or traced'' s)"

definition wake_up_state :: "'x env \<Rightarrow> tid \<Rightarrow> u64 \<Rightarrow> 'x kstate \<Rightarrow> crash + bool \<times> 'x kstate" where
  "wake_up_state E p state s = try_to_wake_up E p state 0 s"

section \<open>What these leave alone, and what they change\<close>

lemma task_update_quiet:
  "task_update p f s t \<Longrightarrow> same_core t u \<Longrightarrow> task_update p f s u"
  unfolding task_update_def by (rule same_core_trans)

lemma task_update_after:
  assumes "same_core s t" "task_update p f t u"
    and "\<And>a b. core_task a = core_task b \<Longrightarrow> core_task (f a) = core_task (f b)"
  shows "task_update p f s u"
  using same_core_trans [OF same_core_upd_cong [OF assms(1,3)]] assms(2)
  by (simp add: task_update_def)

lemma task_update_upd:
  assumes "same_core s t"
    and "\<And>a b. core_task a = core_task b \<Longrightarrow> core_task (f a) = core_task (f b)"
  shows "task_update p f s (upd_task p f t)"
  unfolding task_update_def by (rule same_core_upd_cong [OF assms])

lemma task_update_comp:
  assumes "task_update p f s t" "task_update p g t u"
    and "\<And>a b. core_task a = core_task b \<Longrightarrow> core_task (g a) = core_task (g b)"
    and "\<And>a. core_task (h a) = core_task (g (f a))"
  shows "task_update p h s u"
proof -
  have "same_core (upd_task p g (upd_task p f s)) u"
    using same_core_trans [OF same_core_upd_cong [OF assms(1) [unfolded task_update_def] assms(3)]]
      assms(2) by (simp add: task_update_def)
  then show ?thesis
    using assms(4) by (simp add: task_update_def same_core_def)
qed

lemma task_update_iff: "task_update p f s t \<Longrightarrow> same_core t u \<longleftrightarrow> same_core (upd_task p f s) u"
  unfolding task_update_def using same_core_eq same_core_sym by blast

lemma set_task_cpu_frame [frame]:
  "env_ok E \<Longrightarrow> same_core a (set_task_cpu E p c s) \<longleftrightarrow> same_core a s"
  by (simp add: set_task_cpu_def assign_task_cpu_def Let_def core_frame)

lemma migrate_swap_task_frame [frame]:
  "env_ok E \<Longrightarrow> same_core a (migrate_swap_task E p c s) \<longleftrightarrow> same_core a s"
  by (simp add: migrate_swap_task_def Let_def frame core_frame)

lemma set_task_cpu_cpu [simp]: "task_cpu (set_task_cpu E p c s) p = c"
  by (simp add: set_task_cpu_def assign_task_cpu_def Let_def)

lemma ttwu_activate_update:
  "env_ok E \<Longrightarrow> task_update p (\<lambda>t. t\<lparr>p_on_rq := TASK_ON_RQ_QUEUED\<rparr>) s (ttwu_activate E c p fl s)"
  by (rule task_update_quiet [OF task_update_upd [where t = "activate_task E c p fl s"]])
     (simp_all add: ttwu_activate_def Let_def frame core_frame)

lemma ttwu_do_wakeup_update:
  "env_ok E \<Longrightarrow> task_update p (\<lambda>t. t\<lparr>p_state := TASK_RUNNING\<rparr>) s (ttwu_do_wakeup E c p fl s)"
  by (rule task_update_quiet [OF task_update_upd [where t = "check_preempt_curr E c p fl s"]])
     (simp_all add: ttwu_do_wakeup_def Let_def frame core_frame)

lemma ttwu_do_activate_update:
  assumes "env_ok E"
  shows "task_update p (\<lambda>t. t\<lparr>p_on_rq := TASK_ON_RQ_QUEUED, p_state := TASK_RUNNING\<rparr>) s
    (ttwu_do_activate E c p fl s)"
proof -
  let ?s = "do_if (p_contributes (ks_tasks s p))
    (upd_rq c (\<lambda>r. r\<lparr>rq_nr_uninterruptible := rq_nr_uninterruptible r - 1\<rparr>)) s"
  have "task_update p (\<lambda>t. t\<lparr>p_on_rq := TASK_ON_RQ_QUEUED\<rparr>) s (ttwu_activate E c p (ENQUEUE_WAKEUP + ENQUEUE_WAKING) ?s)"
    by (rule task_update_after [OF _ ttwu_activate_update [OF assms]])
       (simp_all add: core_frame)
  then show ?thesis
    unfolding ttwu_do_activate_def Let_def
    by (rule task_update_comp [OF _ ttwu_do_wakeup_update [OF assms]])
       (simp_all add: core_task_def)
qed

section \<open>Choosing an online CPU\<close>

lemma find_in_mask:
  "find P (cpus_in E m) = Some c \<Longrightarrow> P c \<and> c \<in> m"
  using find_concat_Some [of P "cpus_in E m" c] by (auto simp: set_cpus_in)

lemma task_update_refl: "(\<And>t. core_task (f t) = core_task t) \<Longrightarrow> task_update p f s s"
  by (simp add: task_update_def same_core_def)

text \<open>The state after \<open>p\<close>'s mask may have changed.\<close>

definition remasked :: "tid \<Rightarrow> 'x kstate \<Rightarrow> 'x kstate \<Rightarrow> bool" where
  "remasked p s t \<longleftrightarrow> (\<exists>m. task_update p (\<lambda>t. t\<lparr>p_cpus_allowed := m\<rparr>) s t)"

lemma remasked_refl [simp]: "remasked p s s"
  unfolding remasked_def
  by (intro exI [of _ "p_cpus_allowed (ks_tasks s p)"]) (simp add: task_update_def same_core_def)

lemma remasked_trans: "remasked p s t \<Longrightarrow> remasked p t u \<Longrightarrow> remasked p s u"
  unfolding remasked_def
  by (elim exE, rule exI, erule (1) task_update_comp) (simp_all add: core_task_def)

lemma remasked_quiet: "remasked p s t \<Longrightarrow> same_core t u \<Longrightarrow> remasked p s u"
  unfolding remasked_def using task_update_quiet by blast

lemma remasked_masks:
  "remasked p s t \<Longrightarrow> ks_online t = ks_online s \<and> ks_active t = ks_active s \<and> ks_possible t = ks_possible s"
  by (auto simp: remasked_def task_update_def same_core_def)

lemma do_set_cpus_allowed_update:
  "env_ok E \<Longrightarrow> task_update p (\<lambda>t. t\<lparr>p_cpus_allowed := m\<rparr>) s (do_set_cpus_allowed E p m s)"
  unfolding do_set_cpus_allowed_def
  by (rule task_update_upd) (simp_all add: core_frame)

lemma fallback_loop_result:
  assumes "env_ok E" "d < nr_cpu_ids E" "d \<in> ks_possible s" "d \<in> ks_online s" "d \<in> ks_active s"
  shows "\<exists>c st' t. fallback_loop E p st s = Inr (c, st', t) \<and> remasked p s t \<and>
    c \<in> ks_online t \<and> c \<in> ks_active t \<and> c \<in> p_cpus_allowed (ks_tasks t p) \<or>
    st = Fail \<and> \<not> ks_possible s \<subseteq> p_cpus_allowed (ks_tasks s p)"
  using assms
proof (induction E p st s rule: fallback_loop.induct)
  case (1 E p st s)
  show ?case
  proof (cases "find (\<lambda>c. c \<in> ks_online s \<and> c \<in> ks_active s) (cpus_in E (p_cpus_allowed (ks_tasks s p)))")
    case (Some c)
    with find_in_mask [OF Some] show ?thesis
      by (auto simp: fallback_loop.simps [of E p st s])
  next
    case None
    then have out: "d \<notin> p_cpus_allowed (ks_tasks s p)"
      using 1 by (auto simp: find_None_iff set_cpus_in)
    show ?thesis
    proof (cases st)
      case Cpuset
      have r: "remasked p s (cpuset_fallback E p s)"
        using 1(3) by (auto simp: remasked_def task_update_def env_ok_def)
      note m = remasked_masks [OF r]
      have "d \<in> ks_possible (cpuset_fallback E p s)" "d \<in> ks_online (cpuset_fallback E p s)"
        "d \<in> ks_active (cpuset_fallback E p s)"
        using 1 m by simp_all
      from 1(1) [OF None Cpuset 1(3,4) this] obtain c st' t where
        "fallback_loop E p Possible (cpuset_fallback E p s) = Inr (c, st', t)"
        "remasked p (cpuset_fallback E p s) t"
        "c \<in> ks_online t" "c \<in> ks_active t" "c \<in> p_cpus_allowed (ks_tasks t p)"
        by blast
      then show ?thesis
        using remasked_trans [OF r] by (simp add: fallback_loop.simps [of E p Cpuset s] None Cpuset)
    next
      case Possible
      let ?t = "do_set_cpus_allowed E p (ks_possible s) s"
      have r: "remasked p s ?t"
        using do_set_cpus_allowed_update [OF 1(3)] by (auto simp: remasked_def)
      have "p_cpus_allowed (ks_tasks ?t p) = ks_possible s"
        by (simp add: do_set_cpus_allowed_def)
      note al = this and m = remasked_masks [OF r]
      have "d \<in> ks_possible ?t" "d \<in> ks_online ?t" "d \<in> ks_active ?t"
        using 1 m by simp_all
      from 1(2) [OF None Possible 1(3,4) this] m al obtain c st' t where
        "fallback_loop E p Fail ?t = Inr (c, st', t)" "remasked p ?t t"
        "c \<in> ks_online t" "c \<in> ks_active t" "c \<in> p_cpus_allowed (ks_tasks t p)"
        by auto
      then show ?thesis
        using remasked_trans [OF r] by (simp add: fallback_loop.simps [of E p Possible s] None Possible)
    next
      case Fail
      with out 1 show ?thesis by auto
    qed
  qed
qed

lemma select_fallback_rq_result:
  assumes "env_ok E" "d < nr_cpu_ids E" "d \<in> ks_possible s" "d \<in> ks_online s" "d \<in> ks_active s"
  shows "\<exists>c' t. select_fallback_rq E c p s = Inr (c', t) \<and> remasked p s t \<and>
    c' \<in> ks_online t \<and> c' \<in> p_cpus_allowed (ks_tasks t p)"
proof -
  obtain c1 st t where f: "fallback_loop E p Cpuset s = Inr (c1, st, t)" "remasked p s t"
    "c1 \<in> ks_online t" "c1 \<in> p_cpus_allowed (ks_tasks t p)"
    using fallback_loop_result [OF assms, of p Cpuset] by auto
  have w: "remasked p s (warn b m t)" for b m
    by (rule remasked_quiet [OF f(2)]) (simp add: core_frame)
  show ?thesis
  proof (cases "case cpu_to_node E c of None \<Rightarrow> None
      | Some nid \<Rightarrow> find (\<lambda>d. d \<in> ks_online s \<and> d \<in> ks_active s \<and>
                            d \<in> p_cpus_allowed (ks_tasks s p)) (cpumask_of_node E nid)")
    case None
    with w f(3,4) show ?thesis
      by (simp add: select_fallback_rq_def f(1) warn_def)
  next
    case (Some d)
    then have "d \<in> ks_online s \<and> d \<in> p_cpus_allowed (ks_tasks s p)"
      by (auto split: option.splits dest!: find_concat_Some)
    with Some show ?thesis
      by (simp add: select_fallback_rq_def)
  qed
qed

text \<open>C2 While some possible CPU is online and active the choice of a CPU for a task ends without a
  BUG, in an online CPU of the task's mask, and at most that mask has changed.\<close>

theorem select_task_rq_valid:
  assumes "env_ok E" "d < nr_cpu_ids E" "d \<in> ks_possible s" "d \<in> ks_online s" "d \<in> ks_active s"
  shows "\<exists>c' t. select_task_rq E p c sd_flags wake_flags s = Inr (c', t) \<and>
    c' \<in> ks_online s \<and> c' \<in> p_cpus_allowed (ks_tasks t p) \<and> remasked p s t"
  using select_fallback_rq_result [OF assms, of "task_cpu s p" p] remasked_masks
  by (fastforce simp: select_task_rq_def Let_def)

theorem select_task_rq_valid_witness:
  "\<exists>c' t. select_task_rq demo_env 1 7 SD_BALANCE_WAKE 0 demo_state = Inr (c', t) \<and> c' \<in> {0, 1}"
  using select_task_rq_valid [OF demo_env_ok, of 0 demo_state 1 7 SD_BALANCE_WAKE 0]
  by (fastforce simp: demo_env_def demo_state_def)

section \<open>What a wakeup does\<close>

lemma ttwu_queue_remote_core:
  "ks_tasks (ttwu_queue_remote p c s) q =
     (if q = rq_idle (ks_rqs s c) \<and> rq_wake_list (ks_rqs s c) = [] \<and> p_polling (ks_tasks s q)
      then (ks_tasks s q)\<lparr>p_need_resched := True\<rparr> else ks_tasks s q)"
  "rq_wake_list (ks_rqs (ttwu_queue_remote p c s) c) = p # rq_wake_list (ks_rqs s c)"
  by (auto simp: ttwu_queue_remote_def set_nr_if_polling_def send_ipi_def Let_def
      intro!: task_struct.equality)

text \<open>A remote wakeup sends the interrupt exactly when it puts the first task on the list and the
  idle task of that CPU does not poll; otherwise an interrupt or a poll is already due.\<close>

theorem ttwu_queue_remote_ipi:
  "ks_ipis (ttwu_queue_remote p c s) =
     (if rq_wake_list (ks_rqs s c) = [] \<and> \<not> p_polling (ks_tasks s (rq_idle (ks_rqs s c)))
      then c # ks_ipis s else ks_ipis s) \<and>
   p_need_resched (ks_tasks (ttwu_queue_remote p c s) (rq_idle (ks_rqs s c))) =
     (p_need_resched (ks_tasks s (rq_idle (ks_rqs s c))) \<or>
      rq_wake_list (ks_rqs s c) = [] \<and> p_polling (ks_tasks s (rq_idle (ks_rqs s c)))) \<and>
   rq_wake_list (ks_rqs (ttwu_queue_remote p c s) c) = p # rq_wake_list (ks_rqs s c)"
  by (auto simp: ttwu_queue_remote_def set_nr_if_polling_def send_ipi_def Let_def)

lemma ttwu_queue_result:
  assumes "env_ok E"
  shows "(p_state (ks_tasks (ttwu_queue E p c s) p) = TASK_RUNNING \<and> task_on_rq_queued (ttwu_queue E p c s) p \<or>
     core_task (ks_tasks (ttwu_queue E p c s) p) = core_task (ks_tasks s p) \<and>
       p \<in> set (rq_wake_list (ks_rqs (ttwu_queue E p c s) c))) \<and>
    (\<forall>q. q \<noteq> p \<longrightarrow> core_task (ks_tasks (ttwu_queue E p c s) q) = core_task (ks_tasks s q))"
  using task_update_self [OF ttwu_do_activate_update [OF assms, of p s c 0]]
    task_update_other [OF ttwu_do_activate_update [OF assms, of p s c 0]]
  by (auto simp: ttwu_queue_def ttwu_queue_remote_core core_task_def)

text \<open>A wakeup that the task's state does not match, and one that has to wait for the task's CPU.\<close>

lemma try_to_wake_up_no_match:
  "p_state (ks_tasks s p) AND state = 0 \<Longrightarrow> try_to_wake_up E p state fl s = Inr (False, s)"
  by (simp add: try_to_wake_up_def)

lemma ttwu_remote_woken:
  "env_ok E \<Longrightarrow> task_on_rq_queued s p \<Longrightarrow>
     task_update p (\<lambda>t. t\<lparr>p_state := TASK_RUNNING\<rparr>) s (snd (ttwu_remote E p fl s))"
  by (simp add: ttwu_remote_def)
     (rule task_update_after [OF _ ttwu_do_wakeup_update], simp_all add: frame core_task_def)

lemma try_to_wake_up_queued:
  assumes "env_ok E" "p_state (ks_tasks s p) AND state \<noteq> 0" "task_on_rq_queued s p"
  shows "\<exists>t. try_to_wake_up E p state fl s = Inr (True, t) \<and>
    task_update p (\<lambda>t. t\<lparr>p_state := TASK_RUNNING\<rparr>) s t"
  using assms ttwu_remote_woken [OF assms(1,3), of fl]
  by (auto simp: try_to_wake_up_def Let_def ttwu_remote_def)

text \<open>C1 try_to_wake_up of a task whose state matches, while some possible CPU is online and active:
  it spins exactly if the task is off the runqueue and its CPU still has it; else it reports
  success, with the task running on a runqueue or waking on the pending list of an online CPU its
  mask allows, and no other task touched.\<close>

theorem try_to_wake_up_runnable:
  assumes "env_ok E" "d < nr_cpu_ids E" "d \<in> ks_possible s" "d \<in> ks_online s" "d \<in> ks_active s"
    and "p_state (ks_tasks s p) AND state \<noteq> 0"
  shows "if \<not> task_on_rq_queued s p \<and> p_on_cpu (ks_tasks s p)
    then try_to_wake_up E p state fl s = Inl Diverges
    else \<exists>t c. try_to_wake_up E p state fl s = Inr (True, t) \<and>
      (p_state (ks_tasks t p) = TASK_RUNNING \<and> task_on_rq_queued t p \<or>
       p_state (ks_tasks t p) = TASK_WAKING \<and> p \<in> set (rq_wake_list (ks_rqs t c)) \<and>
         c \<in> ks_online s \<and> c \<in> p_cpus_allowed (ks_tasks t p)) \<and>
      (\<forall>q. q \<noteq> p \<longrightarrow> core_task (ks_tasks t q) = core_task (ks_tasks s q))"
proof (cases "task_on_rq_queued s p")
  case True
  obtain t where t: "try_to_wake_up E p state fl s = Inr (True, t)"
    "task_update p (\<lambda>t. t\<lparr>p_state := TASK_RUNNING\<rparr>) s t"
    using try_to_wake_up_queued [OF assms(1,6) True] by blast
  then show ?thesis
    using True task_update_self [OF t(2)] task_update_other [OF t(2)]
    by (auto simp: core_task_def)
next
  case False
  then have rem: "ttwu_remote E p fl s = (False, s)"
    by (simp add: ttwu_remote_def)
  show ?thesis
  proof (cases "p_on_cpu (ks_tasks s p)")
    case True
    with False rem assms(6) show ?thesis
      by (simp add: try_to_wake_up_def)
  next
    case off: False
    define s1 where "s1 = upd_task p (\<lambda>t. t\<lparr>p_contributes := task_contributes_to_load t,
      p_state := TASK_WAKING\<rparr>) s"
    define s2 where "s2 = call_opt (map_option (\<lambda>f. f p) (co_task_waking (class_of E s1 p))) s1"
    have s2: "same_core s1 s2"
      using assms(1) by (simp add: s2_def core_frame)
    have "d \<in> ks_possible s2" "d \<in> ks_online s2" "d \<in> ks_active s2" "ks_online s2 = ks_online s"
      using assms(3-5) s2 by (simp_all add: same_core_def s1_def)
    note d = this
    obtain c t where sel: "select_task_rq E p (p_wake_cpu (ks_tasks s2 p)) SD_BALANCE_WAKE fl s2 = Inr (c, t)"
      "c \<in> ks_online s" "c \<in> p_cpus_allowed (ks_tasks t p)" "remasked p s2 t"
      using select_task_rq_valid [OF assms(1,2) d(1-3)] d(4) by metis
    define u where "u = do_if (task_cpu t p \<noteq> c) (set_task_cpu E p c) t"
    have u: "same_core t u"
      using assms(1) by (simp add: u_def frame core_frame)
    have run: "try_to_wake_up E p state fl s = Inr (True, ttwu_queue E p c u)"
      using assms(6) rem off sel(1)
      by (simp add: try_to_wake_up_def s1_def [symmetric] s2_def [symmetric] u_def [symmetric])
    obtain m where m: "task_update p (\<lambda>t. t\<lparr>p_cpus_allowed := m\<rparr>) s2 t"
      using sel(4) by (auto simp: remasked_def)
    have "p_state (ks_tasks u p) = TASK_WAKING" "p_cpus_allowed (ks_tasks u p) = p_cpus_allowed (ks_tasks t p)"
      using u s2 task_update_self [OF m] by (simp_all add: same_core_def core_task_def s1_def)
    moreover have "core_task (ks_tasks u q) = core_task (ks_tasks s q)" if "q \<noteq> p" for q
      using u s2 task_update_other [OF m that] that by (simp add: same_core_def s1_def)
    ultimately show ?thesis
      using ttwu_queue_result [OF assms(1), of p c u] run sel(2,3) off
      by (intro if_not_P [THEN iffD2]) (auto simp: core_task_def)
  qed
qed

text \<open>Task 2 sleeps interruptibly, off the runqueue, and is woken.\<close>

definition demo_sleeper :: "demo_ext kstate" where
  "demo_sleeper = upd_task 2 (\<lambda>t. t\<lparr>p_on_rq := 0, p_state := TASK_INTERRUPTIBLE\<rparr>)
     (demo_state\<lparr>ks_ext := (\<lambda>c. if c = 0 then [1] else [])\<rparr>)"

theorem try_to_wake_up_runnable_witness:
  "\<exists>t c. try_to_wake_up demo_env 2 TASK_NORMAL 0 demo_sleeper = Inr (True, t) \<and>
     (p_state (ks_tasks t 2) = TASK_RUNNING \<and> task_on_rq_queued t 2 \<or>
      p_state (ks_tasks t 2) = TASK_WAKING \<and> 2 \<in> set (rq_wake_list (ks_rqs t c)))"
  using try_to_wake_up_runnable [OF demo_env_ok, of 0 demo_sleeper 2 TASK_NORMAL 0]
  by (fastforce simp: demo_sleeper_def demo_env_def demo_state_def demo_tsk_def)

section \<open>The pending list\<close>

lemma ttwu_pending_fold:
  assumes "env_ok E"
  shows "core_task (ks_tasks (fold (\<lambda>p s. ttwu_do_activate E c p 0 s) ps s) q) =
     (if q \<in> set ps
      then core_task ((ks_tasks s q)\<lparr>p_on_rq := TASK_ON_RQ_QUEUED, p_state := TASK_RUNNING\<rparr>)
      else core_task (ks_tasks s q)) \<and>
   core_rq (ks_rqs (fold (\<lambda>p s. ttwu_do_activate E c p 0 s) ps s) d) = core_rq (ks_rqs s d)"
proof (induction ps arbitrary: s)
  case Nil
  show ?case by simp
next
  case (Cons p ps)
  note u = ttwu_do_activate_update [OF assms, of p s c 0]
  show ?case
    using Cons.IH [of "ttwu_do_activate E c p 0 s"] u task_update_self [OF u] task_update_other [OF u, of q]
    by (auto simp: core_task_def task_update_def same_core_def)
qed

text \<open>The handler of the pending list empties it and makes every task that was on it, and no
  other, runnable and queued.\<close>

theorem sched_ttwu_pending_drains:
  assumes "env_ok E"
  shows "rq_wake_list (ks_rqs (sched_ttwu_pending E s) (ks_cpu s)) = [] \<and>
    (\<forall>q. if q \<in> set (rq_wake_list (ks_rqs s (ks_cpu s)))
      then p_state (ks_tasks (sched_ttwu_pending E s) q) = TASK_RUNNING \<and>
           task_on_rq_queued (sched_ttwu_pending E s) q
      else core_task (ks_tasks (sched_ttwu_pending E s) q) = core_task (ks_tasks s q))"
proof -
  define s1 where "s1 = upd_rq (ks_cpu s) (\<lambda>r. r\<lparr>rq_wake_list := []\<rparr>) s"
  have eq: "sched_ttwu_pending E s = fold (\<lambda>p s. ttwu_do_activate E (ks_cpu s1) p 0 s)
      (rq_wake_list (ks_rqs s (ks_cpu s))) s1"
    by (simp add: sched_ttwu_pending_def Let_def s1_def)
  note f = ttwu_pending_fold [OF assms, of "ks_cpu s1" "rq_wake_list (ks_rqs s (ks_cpu s))" s1,
      folded eq]
  have "core_rq (ks_rqs (sched_ttwu_pending E s) (ks_cpu s)) = core_rq (ks_rqs s1 (ks_cpu s))"
    using f by blast
  then have "rq_wake_list (ks_rqs (sched_ttwu_pending E s) (ks_cpu s)) = []"
    by (simp add: core_rq_def s1_def)
  moreover have "if q \<in> set (rq_wake_list (ks_rqs s (ks_cpu s)))
      then p_state (ks_tasks (sched_ttwu_pending E s) q) = TASK_RUNNING \<and>
           task_on_rq_queued (sched_ttwu_pending E s) q
      else core_task (ks_tasks (sched_ttwu_pending E s) q) = core_task (ks_tasks s q)" for q
    using f [of q] by (cases "q \<in> set (rq_wake_list (ks_rqs s (ks_cpu s)))")
      (simp_all add: s1_def core_task_def)
  ultimately show ?thesis by blast
qed

theorem sched_ttwu_pending_drains_witness:
  "task_on_rq_queued (sched_ttwu_pending demo_env
     (upd_rq 0 (\<lambda>r. r\<lparr>rq_wake_list := [2]\<rparr>) demo_sleeper)) 2"
proof -
  have "ks_cpu demo_sleeper = 0"
    by (simp add: demo_sleeper_def demo_state_def)
  then show ?thesis
    using sched_ttwu_pending_drains [OF demo_env_ok, of "upd_rq 0 (\<lambda>r. r\<lparr>rq_wake_list := [2]\<rparr>) demo_sleeper",
        THEN conjunct2, THEN spec, of 2]
    by simp
qed

section \<open>Waiting and swapping\<close>

text \<open>wait_task_inactive reports success only if its last look found the task neither on a CPU
  nor on a runqueue and in the state asked for; it reports failure only after it saw another state.\<close>

theorem wait_task_inactive_sound:
  assumes "wait_task_inactive m obs = Some r"
  shows "(r \<noteq> 0 \<longrightarrow> (\<exists>st n. Locked False False st n \<in> set obs \<and> (m = 0 \<or> st = m) \<and>
            r = (n OR 0x8000000000000000))) \<and>
    (r = 0 \<longrightarrow> m \<noteq> 0 \<and> (\<exists>ob \<in> set obs. case ob of Spin run st \<Rightarrow> run \<and> st \<noteq> m
                                           | Locked run que st n \<Rightarrow> st \<noteq> m))"
proof -
  have msb: "n OR 0x8000000000000000 \<noteq> (0 :: u64)" for n
  proof
    assume "n OR 0x8000000000000000 = (0 :: u64)"
    then have "bit (n OR 0x8000000000000000) 63 = bit (0 :: u64) 63" by simp
    then show False by (simp add: bit_simps)
  qed
  show ?thesis
    using assms
    by (induction m obs rule: wait_task_inactive.induct)
       (auto simp: Let_def msb split: if_splits)
qed

theorem wait_task_inactive_sound_witness:
  "wait_task_inactive 1 [Spin True 1, Locked True True 1 5, Locked False True 1 5, Locked False False 1 6]
     = Some 0x8000000000000006 \<and>
   (\<exists>st n. Locked False False st n \<in> set [Spin True 1, Locked True True 1 5, Locked False True 1 5, Locked False False 1 6])"
  using wait_task_inactive_sound [of 1 "[Spin True 1, Locked True True 1 5, Locked False True 1 5, Locked False False 1 6]"
      "0x8000000000000006"]
  by simp

lemma migrate_swap_stop_refused:
  "fst (migrate_swap_stop E arg s) \<noteq> 0 \<Longrightarrow> migrate_swap_stop E arg s = (- EAGAIN, s)"
  by (auto simp: migrate_swap_stop_def Let_def split: if_splits)

lemma migrate_swap_stop_done:
  "fst (migrate_swap_stop E arg s) = 0 \<Longrightarrow>
     task_cpu s (src_task arg) = src_cpu arg \<and> task_cpu s (dst_task arg) = dst_cpu arg \<and>
     dst_cpu arg \<in> p_cpus_allowed (ks_tasks s (src_task arg)) \<and>
     src_cpu arg \<in> p_cpus_allowed (ks_tasks s (dst_task arg))"
  by (auto simp: migrate_swap_stop_def Let_def split: if_splits)

end
