(* ===== verification/Sched_Deadline.thy ===== *)
theory Sched_Deadline
  imports Sched_Types
begin

text \<open>
  Deadline bandwidth in \<^verbatim>\<open>core.c\<close>: the fixed-point ratio of runtime to period, the CPUs of a
  root domain, and the admission test \<open>dl_overflow\<close> with its account of the bandwidth
  handed out. All arithmetic is on 64-bit words and wraps as in the code.
\<close>

section \<open>Definitions\<close>

abbreviation RUNTIME_INF :: u64 where "RUNTIME_INF \<equiv> - 1"

definition to_ratio :: "u64 \<Rightarrow> u64 \<Rightarrow> u64" where
  "to_ratio period runtime =
     (if runtime = RUNTIME_INF then push_bit 20 1
      else if period = 0 then 0
      else push_bit 20 runtime div period)"

text \<open>\<open>dl_bw_of(i)\<close> is the bandwidth of the root domain of CPU \<open>i\<close>.\<close>

definition dl_bw_of :: "'x kstate \<Rightarrow> cpu \<Rightarrow> dl_bw" where
  "dl_bw_of s i = rd_dl_bw (ks_rds s (rq_rd (ks_rqs s i)))"

definition upd_dl_bw :: "cpu \<Rightarrow> (dl_bw \<Rightarrow> dl_bw) \<Rightarrow> 'x kstate \<Rightarrow> 'x kstate" where
  "upd_dl_bw i f s = upd_rd (rq_rd (ks_rqs s i)) (\<lambda>d. d\<lparr>rd_dl_bw := f (rd_dl_bw d)\<rparr>) s"

definition dl_bw_cpus :: "'x env \<Rightarrow> 'x kstate \<Rightarrow> cpu \<Rightarrow> nat" where
  "dl_bw_cpus E s i = length (cpus_in E (rd_span (ks_rds s (rq_rd (ks_rqs s i))) \<inter> ks_active s))"

definition dl_clear :: "u64 \<Rightarrow> dl_bw \<Rightarrow> dl_bw" where      \<comment> \<open>\<open>__dl_clear\<close>\<close>
  "dl_clear tsk_bw b = b\<lparr>db_total_bw := db_total_bw b - tsk_bw\<rparr>"

definition dl_add :: "u64 \<Rightarrow> dl_bw \<Rightarrow> dl_bw" where        \<comment> \<open>\<open>__dl_add\<close>\<close>
  "dl_add tsk_bw b = b\<lparr>db_total_bw := db_total_bw b + tsk_bw\<rparr>"

definition dl_bw_exceeded :: "dl_bw \<Rightarrow> nat \<Rightarrow> u64 \<Rightarrow> u64 \<Rightarrow> bool" where     \<comment> \<open>\<open>__dl_overflow\<close>\<close>
  "dl_bw_exceeded b cpus old_bw new_bw \<longleftrightarrow>
     db_bw b \<noteq> - 1 \<and> db_bw b * of_nat cpus < db_total_bw b - old_bw + new_bw"

record sched_attr =
  sa_size :: u32
  sa_policy :: int
  sa_flags :: u64
  sa_nice :: int
  sa_priority :: u32
  sa_runtime :: u64
  sa_deadline :: u64
  sa_period :: u64

abbreviation task_has_dl_policy :: "'x kstate \<Rightarrow> tid \<Rightarrow> bool" where
  "task_has_dl_policy s p \<equiv> dl_policy (p_policy (ks_tasks s p))"

abbreviation task_has_rt_policy :: "'x kstate \<Rightarrow> tid \<Rightarrow> bool" where
  "task_has_rt_policy s p \<equiv> rt_policy (p_policy (ks_tasks s p))"

definition dl_overflow :: "'x env \<Rightarrow> tid \<Rightarrow> int \<Rightarrow> sched_attr \<Rightarrow> 'x kstate \<Rightarrow> errno \<times> 'x kstate" where
  "dl_overflow E p policy attr s =
     (let i = task_cpu s p;
          dl_b = dl_bw_of s i;
          period = (if sa_period attr \<noteq> 0 then sa_period attr else sa_deadline attr);
          runtime = sa_runtime attr;
          new_bw = (if dl_policy policy then to_ratio period runtime else 0);
          old_bw = dl_bw (p_dl (ks_tasks s p))
      in if new_bw = old_bw then (0, s)
         else
           let cpus = dl_bw_cpus E s i in
           if dl_policy policy \<and> \<not> task_has_dl_policy s p \<and> \<not> dl_bw_exceeded dl_b cpus 0 new_bw
           then (0, upd_dl_bw i (dl_add new_bw) s)
           else if dl_policy policy \<and> task_has_dl_policy s p \<and> \<not> dl_bw_exceeded dl_b cpus old_bw new_bw
           then (0, upd_dl_bw i (dl_add new_bw \<circ> dl_clear old_bw) s)
           else if \<not> dl_policy policy \<and> task_has_dl_policy s p
           then (0, upd_dl_bw i (dl_clear old_bw) s)
           else (- 1, s))"

section \<open>The ratio\<close>

text \<open>Where the runtime is below \<open>2^44\<close> ns nothing wraps: the ratio is the exact quotient.\<close>

lemma to_ratio_exact:
  assumes "unat runtime < 2 ^ 44" "period \<noteq> 0"
  shows "unat (to_ratio period runtime) = unat runtime * 2 ^ 20 div unat period"
proof -
  have "runtime \<noteq> RUNTIME_INF"
    using assms(1) by (intro notI) (simp add: unsigned_minus_1_eq_mask mask_eq_exp_minus_1)
  moreover have "unat (push_bit 20 runtime) = unat runtime * 2 ^ 20"
    using assms(1) by (simp add: push_bit_eq_mult unat_word_ariths)
  ultimately show ?thesis
    using assms(2) by (simp add: to_ratio_def unat_div)
qed

text \<open>A task whose runtime is at most its period takes at most one whole CPU, \<open>2^20\<close>.\<close>

lemma to_ratio_at_most_one:
  assumes "unat runtime < 2 ^ 44" "runtime \<le> period"
  shows "unat (to_ratio period runtime) \<le> 2 ^ 20"
proof (cases "period = 0")
  case True
  with assms show ?thesis by (simp add: to_ratio_def)
next
  case False
  then have "unat runtime * 2 ^ 20 div unat period \<le> unat period * 2 ^ 20 div unat period"
    using assms(2) by (intro div_le_mono) (simp add: word_le_nat_alt)
  with False show ?thesis
    by (simp add: to_ratio_exact [OF assms(1)] unat_eq_0)
qed

section \<open>Admission\<close>

text \<open>The bandwidth a task has been handed: that of its entity while its policy is deadline.\<close>

definition task_dl_share :: "task_struct \<Rightarrow> u64" where
  "task_dl_share t = (if dl_policy (p_policy t) then dl_bw (p_dl t) else 0)"

definition new_dl_share :: "int \<Rightarrow> sched_attr \<Rightarrow> u64" where
  "new_dl_share policy attr =
     (if dl_policy policy
      then to_ratio (if sa_period attr \<noteq> 0 then sa_period attr else sa_deadline attr) (sa_runtime attr)
      else 0)"

text \<open>
  A task outside the deadline class has no bandwidth left in its entity (it is cleared on fork,
  and by the deadline class when the task leaves it).
\<close>

definition share_cleared :: "task_struct \<Rightarrow> bool" where
  "share_cleared t \<longleftrightarrow> (\<not> dl_policy (p_policy t) \<longrightarrow> dl_bw (p_dl t) = 0)"

lemma dl_overflow_alt:
  "dl_overflow E p policy attr s =
     (let i = task_cpu s p; dl_b = dl_bw_of s i; n = new_dl_share policy attr;
          old_bw = dl_bw (p_dl (ks_tasks s p)); cpus = dl_bw_cpus E s i
      in if n = old_bw then (0, s)
         else if dl_policy policy \<and> \<not> task_has_dl_policy s p \<and> \<not> dl_bw_exceeded dl_b cpus 0 n
         then (0, upd_dl_bw i (dl_add n) s)
         else if dl_policy policy \<and> task_has_dl_policy s p \<and> \<not> dl_bw_exceeded dl_b cpus old_bw n
         then (0, upd_dl_bw i (dl_add n \<circ> dl_clear old_bw) s)
         else if \<not> dl_policy policy \<and> task_has_dl_policy s p
         then (0, upd_dl_bw i (dl_clear old_bw) s)
         else (- 1, s))"
  unfolding dl_overflow_def new_dl_share_def Let_def ..

lemma new_dl_share_0: "\<not> dl_policy policy \<Longrightarrow> new_dl_share policy attr = 0"
  by (simp add: new_dl_share_def)

text \<open>C16 The account of deadline bandwidth is exact: an admitted change of a task moves the total of
  its root domain from the task's old share to its new one and touches nothing else; what is
  refused changes nothing; and a domain with a limit is never filled beyond it by an admission.\<close>

theorem dl_overflow_account:
  assumes "share_cleared (ks_tasks s p)" "dl_overflow E p policy attr s = (err, t)"
  shows "if err = 0
    then db_total_bw (dl_bw_of t (task_cpu s p)) =
           db_total_bw (dl_bw_of s (task_cpu s p)) - task_dl_share (ks_tasks s p) + new_dl_share policy attr \<and>
         db_bw (dl_bw_of t (task_cpu s p)) = db_bw (dl_bw_of s (task_cpu s p)) \<and>
         ks_tasks t = ks_tasks s \<and> ks_rqs t = ks_rqs s \<and>
         (\<forall>d. d \<noteq> rq_rd (ks_rqs s (task_cpu s p)) \<longrightarrow> ks_rds t d = ks_rds s d) \<and>
         (dl_policy policy \<and> new_dl_share policy attr \<noteq> task_dl_share (ks_tasks s p) \<and>
          db_bw (dl_bw_of s (task_cpu s p)) \<noteq> - 1 \<longrightarrow>
            db_total_bw (dl_bw_of t (task_cpu s p)) \<le>
            db_bw (dl_bw_of s (task_cpu s p)) * of_nat (dl_bw_cpus E s (task_cpu s p)))
    else err = - 1 \<and> t = s"
  using assms
  by (auto simp: dl_overflow_alt Let_def upd_dl_bw_def dl_bw_of_def new_dl_share_0
      dl_add_def dl_clear_def task_dl_share_def share_cleared_def dl_bw_exceeded_def not_less
      split: if_splits)

text \<open>A tenth of a CPU (100000 ns in a period of 1000000) asked for on the two CPUs of the instance.\<close>

definition demo_attr :: sched_attr where
  "demo_attr = \<lparr>sa_size = 48, sa_policy = SCHED_DEADLINE, sa_flags = 0, sa_nice = 0, sa_priority = 0,
     sa_runtime = 100000, sa_deadline = 1000000, sa_period = 1000000\<rparr>"

theorem dl_overflow_account_witness:
  "dl_overflow demo_env 2 SCHED_DEADLINE demo_attr demo_state =
     (0, upd_rd 0 (\<lambda>d. d\<lparr>rd_dl_bw := \<lparr>db_bw = 996147, db_total_bw = 104857\<rparr>\<rparr>) demo_state) \<and>
   db_total_bw (dl_bw_of (snd (dl_overflow demo_env 2 SCHED_DEADLINE demo_attr demo_state)) 0)
     = new_dl_share SCHED_DEADLINE demo_attr"
proof -
  have run: "dl_overflow demo_env 2 SCHED_DEADLINE demo_attr demo_state =
     (0, upd_rd 0 (\<lambda>d. d\<lparr>rd_dl_bw := \<lparr>db_bw = 996147, db_total_bw = 104857\<rparr>\<rparr>) demo_state)"
    by (simp add: dl_overflow_def Let_def demo_attr_def policy_defs to_ratio_def dl_bw_cpus_def
        cpus_in_def dl_bw_of_def dl_bw_exceeded_def upd_dl_bw_def dl_add_def demo_defs upd_rd_def
        upt_rec)
  show ?thesis
    using run dl_overflow_account [OF _ run]
    by (simp add: demo_state_def demo_tsk_def demo_rq_def task_dl_share_def share_cleared_def dl_bw_of_def
        policy_defs)
qed

end
