(* ===== verification/Sched_Fork.thy ===== *)
theory Sched_Fork
  imports Sched_Wakeup Sched_Deadline
begin

text \<open>
  Task creation in \<^verbatim>\<open>core.c\<close>: the reset of a new task's scheduler state, \<open>sched_fork\<close>, the
  first wakeup, and the list of preemption notifiers.
\<close>

section \<open>Definitions\<close>

definition dl_clear_params :: "task_struct \<Rightarrow> task_struct" where      \<comment> \<open>\<open>__dl_clear_params\<close>\<close>
  "dl_clear_params t =
     t\<lparr>p_dl := (p_dl t)\<lparr>dl_runtime := 0, dl_deadline := 0, dl_period := 0, dl_flags := 0, dl_bw := 0\<rparr>\<rparr>"

definition basic_fork :: "tid \<Rightarrow> 'x kstate \<Rightarrow> 'x kstate" where      \<comment> \<open>\<open>__sched_fork\<close>\<close>
  "basic_fork p s =
     upd_task p (\<lambda>t. dl_clear_params
       (t\<lparr>p_on_rq := 0, p_sum_exec_runtime := 0, p_nr_migrations := 0\<rparr>)) s"

text \<open>\<open>PREEMPT_DISABLED\<close>: a count of one (the need-resched bit x86 keeps beside it is
  \<open>ks_preempt_need_resched\<close>).\<close>

abbreviation (input) PREEMPT_DISABLED :: s32 where "PREEMPT_DISABLED \<equiv> 1"

text \<open>The reversion to default priority and policy that a parent can ask for.\<close>

definition fork_reset :: "'x env \<Rightarrow> tid \<Rightarrow> 'x kstate \<Rightarrow> 'x kstate" where
  "fork_reset E p s =
     (let s = upd_task p (\<lambda>t.
            if dl_policy (p_policy t) \<or> rt_policy (p_policy t)
            then t\<lparr>p_policy := SCHED_NORMAL, p_static_prio := NICE_TO_PRIO 0, p_rt_priority := 0\<rparr>
            else if PRIO_TO_NICE (p_static_prio t) < 0 then t\<lparr>p_static_prio := NICE_TO_PRIO 0\<rparr>
            else t) s;
          s = upd_task p (\<lambda>t. t\<lparr>p_prio := normal_prio0 t, p_normal_prio := normal_prio0 t\<rparr>) s;
          s = set_load_weight E p s
      in upd_task p (\<lambda>t. t\<lparr>p_reset_on_fork := False\<rparr>) s)"

definition sched_fork :: "'x env \<Rightarrow> tid \<Rightarrow> 'x kstate \<Rightarrow> errno \<times> 'x kstate" where
  "sched_fork E p s =
     (let c = ks_cpu s;
          s = basic_fork p s;
          s = upd_task p (\<lambda>t. t\<lparr>p_state := TASK_RUNNING\<rparr>) s;
          s = upd_task p (\<lambda>t. t\<lparr>p_prio := p_normal_prio (ks_tasks s (current_task s))\<rparr>) s;
          s = (if p_reset_on_fork (ks_tasks s p) then fork_reset E p s else s)
      in if dl_prio (p_prio (ks_tasks s p)) then (- EAGAIN, s)
         else
           let s = (if rt_prio (p_prio (ks_tasks s p))
                    then upd_task p (\<lambda>t. t\<lparr>p_class := Rt_class\<rparr>) s
                    else upd_task p (\<lambda>t. t\<lparr>p_class := Fair_class\<rparr>) s);
               s = call_opt (map_option (\<lambda>f. f p) (co_task_fork (class_of E s p))) s;
               s = set_task_cpu E p c s
           in (0, upd_task p (\<lambda>t. t\<lparr>p_on_cpu := False, p_preempt_count := PREEMPT_DISABLED\<rparr>) s))"

text \<open>\<open>init_avg\<close> is \<open>init_task_runnable_average\<close> of the fair class.\<close>

definition wake_up_new_task ::
  "'x env \<Rightarrow> (tid \<Rightarrow> 'x kstate \<Rightarrow> 'x kstate) \<Rightarrow> tid \<Rightarrow> 'x kstate \<Rightarrow> crash + 'x kstate"
where
  "wake_up_new_task E init_avg p s =
     bindC (select_task_rq E p (task_cpu s p) SD_BALANCE_FORK 0 s) (\<lambda>(c, s).
       let s = set_task_cpu E p c s;
           s = init_avg p s;
           c = task_cpu s p;
           s = activate_task E c p 0 s;
           s = upd_task p (\<lambda>t. t\<lparr>p_on_rq := TASK_ON_RQ_QUEUED\<rparr>) s;
           s = check_preempt_curr E c p WF_FORK s
       in Inr (call_opt (map_option (\<lambda>f. f c p) (co_task_woken (class_of E s p))) s))"

text \<open>
  Preemption notifiers: the list of a task, newest first; a notifier is its two callbacks.
\<close>

record 'x preempt_notifier =
  pn_id :: nat
  pn_sched_in :: "cpu \<Rightarrow> 'x kstate \<Rightarrow> 'x kstate"
  pn_sched_out :: "tid \<Rightarrow> 'x kstate \<Rightarrow> 'x kstate"

definition preempt_notifier_register ::
  "'x preempt_notifier \<Rightarrow> 'x preempt_notifier list \<Rightarrow> 'x preempt_notifier list"
where
  "preempt_notifier_register n ns = n # ns"

definition preempt_notifier_unregister ::
  "'x preempt_notifier \<Rightarrow> 'x preempt_notifier list \<Rightarrow> 'x preempt_notifier list"
where
  "preempt_notifier_unregister n ns = filter (\<lambda>m. pn_id m \<noteq> pn_id n) ns"

definition fire_sched_in_preempt_notifiers ::
  "'x preempt_notifier list \<Rightarrow> 'x kstate \<Rightarrow> 'x kstate"
where
  "fire_sched_in_preempt_notifiers ns s = fold (\<lambda>n s. pn_sched_in n (ks_cpu s) s) ns s"

definition fire_sched_out_preempt_notifiers ::
  "'x preempt_notifier list \<Rightarrow> tid \<Rightarrow> 'x kstate \<Rightarrow> 'x kstate"
where
  "fire_sched_out_preempt_notifiers ns nxt s = fold (\<lambda>n s. pn_sched_out n nxt s) ns s"

section \<open>What a fork gives the child\<close>

lemma preempt_notifier_unregister_register:
  "\<forall>m \<in> set ns. pn_id m \<noteq> pn_id n \<Longrightarrow>
     preempt_notifier_unregister n (preempt_notifier_register n ns) = ns"
  by (simp add: preempt_notifier_unregister_def preempt_notifier_register_def)

text \<open>Steps that rewrite one task compose.\<close>

lemma upd_task_upd_task [simp]: "upd_task p f (upd_task p g s) = upd_task p (\<lambda>t. f (g t)) s"
  by (simp add: upd_task_def)

definition load_task :: "'x env \<Rightarrow> task_struct \<Rightarrow> task_struct" where
  "load_task E t =
     t\<lparr>p_load := (if p_policy t = SCHED_IDLE
        then \<lparr>lw_weight = scale_load E 3, lw_inv_weight = 1431655765\<rparr>
        else \<lparr>lw_weight = scale_load E (prio_to_weight E (p_static_prio t - 100)),
              lw_inv_weight = prio_to_wmult E (p_static_prio t - 100)\<rparr>)\<rparr>"

lemma set_load_weight_task: "set_load_weight E p s = upd_task p (load_task E) s"
  by (simp add: set_load_weight_def load_task_def upd_task_def Let_def)

definition reset_task :: "'x env \<Rightarrow> task_struct \<Rightarrow> task_struct" where
  "reset_task E t =
     (let t = (if dl_policy (p_policy t) \<or> rt_policy (p_policy t)
               then t\<lparr>p_policy := SCHED_NORMAL, p_static_prio := NICE_TO_PRIO 0, p_rt_priority := 0\<rparr>
               else if PRIO_TO_NICE (p_static_prio t) < 0 then t\<lparr>p_static_prio := NICE_TO_PRIO 0\<rparr>
               else t)
      in (load_task E (t\<lparr>p_prio := normal_prio0 t, p_normal_prio := normal_prio0 t\<rparr>))\<lparr>p_reset_on_fork := False\<rparr>)"

lemma fork_reset_task: "fork_reset E p s = upd_task p (reset_task E) s"
  by (simp add: fork_reset_def Let_def set_load_weight_task reset_task_def)

text \<open>The child before its class is told about it.\<close>

definition forked :: "'x env \<Rightarrow> int \<Rightarrow> task_struct \<Rightarrow> task_struct" where
  "forked E parent_prio t =
     (let t = (dl_clear_params (t\<lparr>p_on_rq := 0, p_sum_exec_runtime := 0, p_nr_migrations := 0\<rparr>))
                \<lparr>p_state := TASK_RUNNING, p_prio := parent_prio\<rparr>
      in if p_reset_on_fork t then reset_task E t else t)"

lemma forked_reset:
  "p_reset_on_fork t \<Longrightarrow>
     p_prio (forked E n t) = p_static_prio (forked E n t) \<and> 120 \<le> p_static_prio (forked E n t) \<and>
     \<not> dl_policy (p_policy (forked E n t)) \<and> \<not> rt_policy (p_policy (forked E n t))"
  by (auto simp: forked_def reset_task_def load_task_def normal_prio0_def Let_def dl_clear_params_def
      policy_defs)

lemma forked_fields:
  "p_on_rq (forked E n t) = 0" "p_state (forked E n t) = TASK_RUNNING"
  "\<not> p_reset_on_fork (forked E n t)"
  "\<not> p_reset_on_fork t \<Longrightarrow> p_prio (forked E n t) = n"
  by (auto simp: forked_def reset_task_def load_task_def Let_def dl_clear_params_def)

definition fork_class :: "task_struct \<Rightarrow> task_struct" where
  "fork_class t = t\<lparr>p_class := (if rt_prio (p_prio t) then Rt_class else Fair_class)\<rparr>"

lemma sched_fork_steps:
  assumes "p \<noteq> current_task s"
  shows "sched_fork E p s =
    (let f = forked E (p_normal_prio (ks_tasks s (current_task s))); u = upd_task p f s in
     if dl_prio (p_prio (f (ks_tasks s p))) then (- EAGAIN, u)
     else
       let u = upd_task p fork_class u;
           u = call_opt (map_option (\<lambda>f. f p) (co_task_fork (class_of E u p))) u;
           u = set_task_cpu E p (ks_cpu s) u
       in (0, upd_task p (\<lambda>t. t\<lparr>p_on_cpu := False, p_preempt_count := PREEMPT_DISABLED\<rparr>) u))"
proof -
  let ?n = "p_normal_prio (ks_tasks s (current_task s))"
  let ?s1 = "upd_task p (\<lambda>t. t\<lparr>p_prio := ?n\<rparr>) (upd_task p (\<lambda>t. t\<lparr>p_state := TASK_RUNNING\<rparr>) (basic_fork p s))"
  have s1: "(if p_reset_on_fork (ks_tasks ?s1 p) then fork_reset E p ?s1 else ?s1)
      = upd_task p (forked E ?n) s"
    by (simp add: fork_reset_task basic_fork_def upd_task_def forked_def dl_clear_params_def)
  have cur: "ks_tasks (upd_task p (\<lambda>t. t\<lparr>p_state := TASK_RUNNING\<rparr>) (basic_fork p s))
      (current_task (upd_task p (\<lambda>t. t\<lparr>p_state := TASK_RUNNING\<rparr>) (basic_fork p s)))
      = ks_tasks s (current_task s)"
    using assms by (simp add: basic_fork_def)
  have cls: "(if rt_prio (p_prio (ks_tasks u p)) then upd_task p (\<lambda>t. t\<lparr>p_class := Rt_class\<rparr>) u
      else upd_task p (\<lambda>t. t\<lparr>p_class := Fair_class\<rparr>) u) = upd_task p fork_class u" for u :: "'x kstate"
    by (simp add: fork_class_def upd_task_def)
  have "sched_fork E p s =
    (let u = (if p_reset_on_fork (ks_tasks ?s1 p) then fork_reset E p ?s1 else ?s1) in
     if dl_prio (p_prio (ks_tasks u p)) then (- EAGAIN, u)
     else
       let u = (if rt_prio (p_prio (ks_tasks u p)) then upd_task p (\<lambda>t. t\<lparr>p_class := Rt_class\<rparr>) u
                else upd_task p (\<lambda>t. t\<lparr>p_class := Fair_class\<rparr>) u);
           u = call_opt (map_option (\<lambda>f. f p) (co_task_fork (class_of E u p))) u;
           u = set_task_cpu E p (ks_cpu s) u
       in (0, upd_task p (\<lambda>t. t\<lparr>p_on_cpu := False, p_preempt_count := PREEMPT_DISABLED\<rparr>) u))"
    unfolding sched_fork_def Let_def cur ..
  then show ?thesis
    unfolding s1 cls by (simp only: Let_def upd_task_simps fun_upd_same)
qed

text \<open>A fork refuses only the child of a deadline parent that did not ask for the reset. Else the
  child is runnable but on no runqueue and no CPU, in the class of its priority, real-time or
  fair; without the reset its priority is the parent's normal one (a boost is not inherited), with
  it the child has a nice level of at least 0 and no real-time or deadline policy.\<close>

theorem sched_fork_child:
  assumes "env_ok E" "p \<noteq> current_task s" "sched_fork E p s = (r, t)"
  shows "r = (if \<not> p_reset_on_fork (ks_tasks s p) \<and> dl_prio (p_normal_prio (ks_tasks s (current_task s)))
              then - EAGAIN else 0) \<and>
    (r = 0 \<longrightarrow>
      p_state (ks_tasks t p) = TASK_RUNNING \<and> p_on_rq (ks_tasks t p) = 0 \<and>
      \<not> p_on_cpu (ks_tasks t p) \<and> task_cpu t p = ks_cpu s \<and> \<not> p_reset_on_fork (ks_tasks t p) \<and>
      p_class (ks_tasks t p) = class_for (p_prio (ks_tasks t p)) \<and>
      p_class (ks_tasks t p) \<noteq> Dl_class \<and>
      (if p_reset_on_fork (ks_tasks s p)
       then p_prio (ks_tasks t p) = p_static_prio (ks_tasks t p) \<and> 0 \<le> task_nice t p \<and>
         \<not> task_has_dl_policy t p \<and> \<not> task_has_rt_policy t p
       else p_prio (ks_tasks t p) = p_normal_prio (ks_tasks s (current_task s)))) \<and>
    (\<forall>q. q \<noteq> p \<longrightarrow> core_task (ks_tasks t q) = core_task (ks_tasks s q))"
proof -
  let ?f = "forked E (p_normal_prio (ks_tasks s (current_task s)))"
  let ?t0 = "?f (ks_tasks s p)"
  let ?n = "p_normal_prio (ks_tasks s (current_task s))"
  note ff = forked_fields [where E = E and n = ?n and t = "ks_tasks s p"]
    forked_reset [where E = E and n = ?n and t = "ks_tasks s p"]
  show ?thesis
  proof (cases "dl_prio (p_prio ?t0)")
    case True
    with ff assms(3) show ?thesis
      by (cases "p_reset_on_fork (ks_tasks s p)") (auto simp: sched_fork_steps [OF assms(2)] Let_def)
  next
    case False
    define u where "u = upd_task p fork_class (upd_task p ?f s)"
    define v where "v = set_task_cpu E p (ks_cpu s) (call_opt (map_option (\<lambda>f. f p) (co_task_fork (class_of E u p))) u)"
    have uv: "same_core u v"
      using assms(1) by (simp add: v_def frame core_frame)
    have rt: "r = 0" "t = upd_task p (\<lambda>t. t\<lparr>p_on_cpu := False, p_preempt_count := PREEMPT_DISABLED\<rparr>) v"
      using assms(3) False by (simp_all add: sched_fork_steps [OF assms(2)] Let_def u_def v_def)
    have core: "core_task (ks_tasks t p) = core_task ((fork_class ?t0)\<lparr>p_on_cpu := False\<rparr>)"
      using uv by (simp add: rt u_def same_core_def core_task_def)
    have "core_task (ks_tasks t q) = core_task (ks_tasks s q)" if "q \<noteq> p" for q
      using uv that by (simp add: rt u_def same_core_def)
    moreover have "task_cpu t p = ks_cpu s"
      by (simp add: rt v_def)
    ultimately show ?thesis
      using core ff False rt(1)
      by (cases "p_reset_on_fork (ks_tasks s p)")
         (auto simp: core_task_def fork_class_def class_for_def)
  qed
qed

theorem sched_fork_child_witness:
  "fst (sched_fork demo_env 2 demo_state) = 0 \<and>
   p_class (ks_tasks (snd (sched_fork demo_env 2 demo_state)) 2) = Fair_class"
  using sched_fork_child [OF demo_env_ok, of 2 demo_state "fst (sched_fork demo_env 2 demo_state)"
      "snd (sched_fork demo_env 2 demo_state)"]
  by (simp add: demo_state_def demo_rq_def demo_tsk_def class_for_def)

end
