(* ===== verification/Sched_Switch.thy ===== *)
theory Sched_Switch
  imports Sched_Fork
begin

text \<open>
  The scheduler proper, \<open>__schedule\<close> of \<^verbatim>\<open>core.c\<close>, with the context switch, the choice of the
  next task, and the four hook pointers the repository adds for a module to fill in.

  A context switch changes the stack under the code. \<open>context_switch\<close> is called by the task
  switched out; what follows \<open>switch_to\<close> runs on the stack of the task switched in, with the
  locals that task had when it was itself switched out (\<open>ks_frames\<close>), only \<open>prev\<close> being
  handed over. A task that never ran starts in \<open>schedule_tail\<close> instead.
\<close>

section \<open>The hooks and what else a switch calls\<close>

record 'x hooks =
  hook_context_counter :: "(tid \<Rightarrow> tid \<Rightarrow> cpu \<Rightarrow> u64 \<Rightarrow> 'x kstate \<Rightarrow> crash + 'x kstate) option"
  hook_rq_size :: "(cpu \<Rightarrow> u32 \<Rightarrow> u64 \<Rightarrow> 'x kstate \<Rightarrow> crash + 'x kstate) option"
  hook_per_pid_stats :: "(tid \<Rightarrow> 'x kstate \<Rightarrow> crash + 'x kstate) option"
  hook_current_pc :: "(u64 \<Rightarrow> 'x kstate \<Rightarrow> crash + 'x kstate) option"

definition no_hooks :: "'x hooks" where
  "no_hooks = \<lparr>hook_context_counter = None, hook_rq_size = None, hook_per_pid_stats = None,
               hook_current_pc = None\<rparr>"

definition call_hook :: "('x kstate \<Rightarrow> crash + 'x kstate) option \<Rightarrow> 'x kstate \<Rightarrow> crash + 'x kstate" where
  "call_hook h s = (case h of None \<Rightarrow> Inr s | Some f \<Rightarrow> f s)"

text \<open>
  \<open>sw_info\<close>: the statistics and performance counters; \<open>sw_notifiers\<close>: a task's preemption
  notifiers; \<open>sw_reap\<close>: the last put of a dead task; \<open>sw_pc\<close>: the address \<open>current_text_addr\<close>.
\<close>

record 'x switch_ops =
  sw_info :: "cpu \<Rightarrow> tid \<Rightarrow> tid \<Rightarrow> 'x kstate \<Rightarrow> 'x kstate"
  sw_notifiers :: "tid \<Rightarrow> 'x preempt_notifier list"
  sw_reap :: "tid \<Rightarrow> 'x kstate \<Rightarrow> 'x kstate"
  sw_pc :: u64

section \<open>The preempt count\<close>

definition preempt_count_inc :: "s32 \<Rightarrow> 'x kstate \<Rightarrow> 'x kstate" where
  "preempt_count_inc v s = s\<lparr>ks_preempt_count := ks_preempt_count s + v\<rparr>"

abbreviation (input) PREEMPT_MASK :: s32 where "PREEMPT_MASK \<equiv> 0xff"

definition preempt_count_add :: "s32 \<Rightarrow> 'x kstate \<Rightarrow> 'x kstate" where
  "preempt_count_add val s =
     (if sint (ks_preempt_count s) < 0 then warn True ''preempt_count() < 0'' s
      else let s = preempt_count_inc val s
           in warn (sint (ks_preempt_count s AND PREEMPT_MASK) \<ge> sint (PREEMPT_MASK - 10))
                ''preempt count overflowing'' s)"

definition preempt_count_sub :: "s32 \<Rightarrow> 'x kstate \<Rightarrow> 'x kstate" where
  "preempt_count_sub val s =
     (if sint val > sint (ks_preempt_count s) then warn True ''val > preempt_count()'' s
      else if sint val < sint PREEMPT_MASK \<and> ks_preempt_count s AND PREEMPT_MASK = 0
      then warn True ''preempt count underflowing'' s
      else preempt_count_inc (- val) s)"

section \<open>The context switch\<close>

definition prepare_task_switch :: "'x switch_ops \<Rightarrow> cpu \<Rightarrow> tid \<Rightarrow> tid \<Rightarrow> 'x kstate \<Rightarrow> 'x kstate" where
  "prepare_task_switch A c prev nxt s =
     (let s = sw_info A c prev nxt s;
          s = fire_sched_out_preempt_notifiers (sw_notifiers A prev) nxt s
      in upd_task nxt (\<lambda>t. t\<lparr>p_on_cpu := True\<rparr>) s)"

definition finish_task_switch :: "'x env \<Rightarrow> 'x switch_ops \<Rightarrow> cpu \<Rightarrow> tid \<Rightarrow> 'x kstate \<Rightarrow> 'x kstate" where
  "finish_task_switch E A c prev s =
     (let mm = rq_prev_mm (ks_rqs s c);
          s = upd_rq c (\<lambda>r. r\<lparr>rq_prev_mm := None\<rparr>) s;
          prev_state = p_state (ks_tasks s prev);
          s = upd_task prev (\<lambda>t. t\<lparr>p_on_cpu := False\<rparr>) s;
          s = fire_sched_in_preempt_notifiers (sw_notifiers A (current_task s)) s;
          s = (case mm of None \<Rightarrow> s
               | Some m \<Rightarrow> s\<lparr>ks_mm_count := (ks_mm_count s)(m := ks_mm_count s m - 1)\<rparr>)
      in if prev_state = TASK_DEAD
         then sw_reap A prev (call_opt (map_option (\<lambda>f. f prev) (co_task_dead (class_of E s prev))) s)
         else s)"

definition post_schedule :: "'x env \<Rightarrow> cpu \<Rightarrow> 'x kstate \<Rightarrow> 'x kstate" where
  "post_schedule E c s =
     (if rq_post_schedule (ks_rqs s c)
      then upd_rq c (\<lambda>r. r\<lparr>rq_post_schedule := False\<rparr>)
             (call_opt (map_option (\<lambda>f. f c) (co_post_schedule (class_of E s (rq_curr (ks_rqs s c))))) s)
      else s)"

text \<open>
  \<open>schedule_tail\<close>. The count a new task starts with stands for the runqueue lock, which
  \<open>finish_lock_switch\<close> releases. (The child's \<open>set_child_tid\<close> store is to user memory.)
\<close>

definition schedule_tail :: "'x env \<Rightarrow> 'x switch_ops \<Rightarrow> tid \<Rightarrow> 'x kstate \<Rightarrow> 'x kstate" where
  "schedule_tail E A prev s =
     (let c = ks_cpu s;
          s = preempt_count_inc (- 1) (finish_task_switch E A c prev s)
      in post_schedule E c s)"

text \<open>The memory side of \<open>context_switch\<close>: a task without memory borrows the previous one's.\<close>

definition switch_memory :: "cpu \<Rightarrow> tid \<Rightarrow> tid \<Rightarrow> 'x kstate \<Rightarrow> crash + 'x kstate" where
  "switch_memory c prev nxt s =
     (let oldmm = p_active_mm (ks_tasks s prev) in
      bindC (if p_mm (ks_tasks s nxt) = None
             then (case oldmm of None \<Rightarrow> Inl NullDeref
                   | Some m \<Rightarrow> Inr ((upd_task nxt (\<lambda>t. t\<lparr>p_active_mm := oldmm\<rparr>) s)
                                     \<lparr>ks_mm_count := (ks_mm_count s)(m := ks_mm_count s m + 1)\<rparr>))
             else Inr s)
        (\<lambda>s. Inr (if p_mm (ks_tasks s prev) = None
                   then upd_rq c (\<lambda>r. r\<lparr>rq_prev_mm := oldmm\<rparr>)
                          (upd_task prev (\<lambda>t. t\<lparr>p_active_mm := None\<rparr>) s)
                   else s)))"

text \<open>
  \<open>switch_to\<close>: \<open>prev\<close>'s locals stay on its stack, the preempt count is exchanged for \<open>nxt\<close>'s.
\<close>

definition switch_stacks :: "cpu \<Rightarrow> tid \<Rightarrow> tid \<Rightarrow> 'x kstate \<Rightarrow> 'x kstate" where
  "switch_stacks c prev nxt s =
     (upd_task prev (\<lambda>t. t\<lparr>p_preempt_count := ks_preempt_count s\<rparr>) s)
       \<lparr>ks_frames := (ks_frames s)(prev := Some (nxt, c)),
        ks_preempt_count := p_preempt_count (ks_tasks s nxt)\<rparr>"

text \<open>What runs after \<open>switch_to\<close>, with the locals \<open>nxt\<close> and \<open>rq\<close> of the resumed frame.\<close>

definition context_switch_resume ::
  "'x env \<Rightarrow> 'x hooks \<Rightarrow> 'x switch_ops \<Rightarrow> tid \<Rightarrow> tid \<Rightarrow> cpu \<Rightarrow> 'x kstate \<Rightarrow> crash + 'x kstate"
where
  "context_switch_resume E H A prev nxt rq s =
     bindC (call_hook (map_option (\<lambda>f. f prev nxt rq (rq_nr_switches (ks_rqs s rq))) (hook_context_counter H)) s)
       (\<lambda>s. bindC (call_hook (map_option (\<lambda>f. f (sw_pc A)) (hook_current_pc H)) s)
         (\<lambda>s. Inr (finish_task_switch E A (ks_cpu s) prev s)))"

text \<open>One switch as its CPU runs it: out of \<open>prev\<close>, into \<open>nxt\<close>.\<close>

definition context_switch ::
  "'x env \<Rightarrow> 'x hooks \<Rightarrow> 'x switch_ops \<Rightarrow> cpu \<Rightarrow> tid \<Rightarrow> tid \<Rightarrow> 'x kstate \<Rightarrow> crash + 'x kstate"
where
  "context_switch E H A c prev nxt s =
     bindC (switch_memory c prev nxt (prepare_task_switch A c prev nxt s)) (\<lambda>s.
       let s' = switch_stacks c prev nxt s in
       case ks_frames s nxt of
         None \<Rightarrow> Inr (schedule_tail E A prev s')
       | Some (nxt', rq') \<Rightarrow> context_switch_resume E H A prev nxt' rq' s')"

section \<open>Choosing the next task\<close>

fun pick_scan :: "'x env \<Rightarrow> cpu \<Rightarrow> tid \<Rightarrow> sched_class list \<Rightarrow> 'x kstate \<Rightarrow> pick \<times> 'x kstate" where
  "pick_scan E c prev [] s = (NoTask, s)"
| "pick_scan E c prev (k # ks) s =
     (case co_pick_next (cls E k) c prev s of
        (NoTask, s) \<Rightarrow> pick_scan E c prev ks s
      | (r, s) \<Rightarrow> (r, s))"

text \<open>The scan from \<open>again\<close>: it starts over while a class answers \<open>RETRY_TASK\<close>.\<close>

partial_function (option) pick_again ::
  "'x env \<Rightarrow> cpu \<Rightarrow> tid \<Rightarrow> 'x kstate \<Rightarrow> (crash + tid \<times> 'x kstate) option"
where
  "pick_again E c prev s =
     (case pick_scan E c prev all_classes s of
        (NoTask, s) \<Rightarrow> Some (Inl Bug)
      | (RetryTask, s) \<Rightarrow> pick_again E c prev s
      | (Picked p, s) \<Rightarrow> Some (Inr (p, s)))"

text \<open>
  On the fast path the answer of the idle class is returned unchecked; one that is no task is
  dereferenced by the caller.
\<close>

definition pick_next_task ::
  "'x env \<Rightarrow> cpu \<Rightarrow> tid \<Rightarrow> 'x kstate \<Rightarrow> (crash + tid \<times> 'x kstate) option"
where
  "pick_next_task E c prev s =
     (if p_class (ks_tasks s prev) = Fair_class \<and> rq_nr_running (ks_rqs s c) = rq_cfs_nr (ks_rqs s c)
      then (case co_pick_next (cls E Fair_class) c prev s of
              (RetryTask, s) \<Rightarrow> pick_again E c prev s
            | (Picked p, s) \<Rightarrow> Some (Inr (p, s))
            | (NoTask, s) \<Rightarrow>
                (case co_pick_next (cls E Idle_class) c prev s of
                   (Picked p, s) \<Rightarrow> Some (Inr (p, s))
                 | _ \<Rightarrow> Some (Inl NullDeref)))
      else pick_again E c prev s)"

section \<open>The scheduler\<close>

text \<open>\<open>schedule_debug\<close> with the report of \<open>__schedule_bug\<close>.\<close>

definition schedule_debug :: "tid \<Rightarrow> 'x kstate \<Rightarrow> 'x kstate" where
  "schedule_debug prev s =
     warn (ks_preempt_count s AND NOT PREEMPT_ACTIVE \<noteq> 1 \<and> p_state (ks_tasks s prev) \<noteq> TASK_DEAD)
       ''BUG: scheduling while atomic'' s"

text \<open>The part of \<open>__schedule\<close> that takes a blocking task off the queue; true if it was a voluntary switch.\<close>

definition schedule_block :: "'x env \<Rightarrow> cpu \<Rightarrow> tid \<Rightarrow> 'x kstate \<Rightarrow> bool \<times> 'x kstate" where
  "schedule_block E c prev s =
     (if p_state (ks_tasks s prev) \<noteq> 0 \<and> ks_preempt_count s AND PREEMPT_ACTIVE = 0
      then
        if signal_pending_state E (p_state (ks_tasks s prev)) prev s
        then (True, upd_task prev (\<lambda>t. t\<lparr>p_state := TASK_RUNNING\<rparr>) s)
        else
          let s = deactivate_task E c prev DEQUEUE_SLEEP s;
              s = upd_task prev (\<lambda>t. t\<lparr>p_on_rq := 0\<rparr>) s
          in (True,
              if p_flags (ks_tasks s prev) AND PF_WQ_WORKER \<noteq> 0
              then (case wq_worker_sleeping E prev c s of
                      (None, s) \<Rightarrow> s
                    | (Some q, s) \<Rightarrow> try_to_wake_up_local E q s)
              else s)
      else (False, s))"

definition schedule_pick :: "'x env \<Rightarrow> cpu \<Rightarrow> tid \<Rightarrow> 'x kstate \<Rightarrow> (crash + tid \<times> 'x kstate) option" where
  "schedule_pick E c prev s =
     (let s = do_if (task_on_rq_queued s prev \<or> rq_skip_clock_update (ks_rqs s c) < 0) (update_rq_clock E c) s in
      map_option (map_sum id (map_prod id (\<lambda>s.
          upd_rq c (\<lambda>r. r\<lparr>rq_skip_clock_update := 0\<rparr>)
            ((upd_task prev (\<lambda>t. t\<lparr>p_need_resched := False\<rparr>) s)\<lparr>ks_preempt_need_resched := False\<rparr>))))
        (pick_next_task E c prev s))"

definition count_switch :: "cpu \<Rightarrow> tid \<Rightarrow> tid \<Rightarrow> bool \<Rightarrow> 'x kstate \<Rightarrow> 'x kstate" where
  "count_switch c prev nxt voluntary s =
     upd_task prev (\<lambda>t. if voluntary then t\<lparr>p_nvcsw := p_nvcsw t + 1\<rparr> else t\<lparr>p_nivcsw := p_nivcsw t + 1\<rparr>)
       (upd_rq c (\<lambda>r. r\<lparr>rq_nr_switches := rq_nr_switches r + 1, rq_curr := nxt\<rparr>) s)"

text \<open>The hooks and checks on entry.\<close>

definition schedule_entry :: "'x env \<Rightarrow> 'x hooks \<Rightarrow> cpu \<Rightarrow> tid \<Rightarrow> 'x kstate \<Rightarrow> crash + 'x kstate" where
  "schedule_entry E H c prev s =
     bindC (call_hook (map_option (\<lambda>f. f c (rq_nr_running (ks_rqs s c)) (rq_nr_switches (ks_rqs s c)))
                        (hook_rq_size H)) s)
       (\<lambda>s. bindC (call_hook (map_option (\<lambda>f. f prev) (hook_per_pid_stats H)) s)
         (\<lambda>s. Inr (do_if (feat_hrtick E) (hrtick_clear E c) (schedule_debug prev s))))"

text \<open>From the choice of \<open>nxt\<close> to the test of \<open>need_resched()\<close>, which is the result.\<close>

definition schedule_switch ::
  "'x env \<Rightarrow> 'x hooks \<Rightarrow> 'x switch_ops \<Rightarrow> cpu \<Rightarrow> tid \<Rightarrow> bool \<Rightarrow> tid \<Rightarrow> 'x kstate \<Rightarrow> crash + bool \<times> 'x kstate"
where
  "schedule_switch E H A c prev voluntary nxt s =
     bindC (if prev \<noteq> nxt then context_switch E H A c prev nxt (count_switch c prev nxt voluntary s) else Inr s)
       (\<lambda>s. let s = preempt_count_inc (- 1) (post_schedule E (ks_cpu s) s)
            in Inr (p_need_resched (ks_tasks s (current_task s)), s))"

text \<open>One round of \<open>__schedule\<close>; the result says whether \<open>need_resched()\<close> asks for another.\<close>

definition schedule_round ::
  "'x env \<Rightarrow> 'x hooks \<Rightarrow> 'x switch_ops \<Rightarrow> 'x kstate \<Rightarrow> (crash + bool \<times> 'x kstate) option"
where
  "schedule_round E H A s =
     (let s = preempt_count_inc 1 s; c = ks_cpu s; prev = rq_curr (ks_rqs s c) in
      case schedule_entry E H c prev s of
        Inl e \<Rightarrow> Some (Inl e)
      | Inr s \<Rightarrow>
          let (voluntary, s) = schedule_block E c prev s
          in map_option (\<lambda>r. bindC r (\<lambda>(nxt, s). schedule_switch E H A c prev voluntary nxt s))
               (schedule_pick E c prev s))"

partial_function (option) schedule_loop ::
  "'x env \<Rightarrow> 'x hooks \<Rightarrow> 'x switch_ops \<Rightarrow> 'x kstate \<Rightarrow> (crash + 'x kstate) option"
where
  "schedule_loop E H A s =
     (case schedule_round E H A s of
        None \<Rightarrow> None
      | Some (Inl e) \<Rightarrow> Some (Inl e)
      | Some (Inr (again, s)) \<Rightarrow> if again then schedule_loop E H A s else Some (Inr s))"

text \<open>\<open>flush\<close>: \<open>blk_schedule_flush_plug\<close> where the task has a plug; \<open>pi\<close>: \<open>tsk_is_pi_blocked\<close>.\<close>

definition sched_submit_work ::
  "(tid \<Rightarrow> 'x kstate \<Rightarrow> 'x kstate) option \<Rightarrow> (tid \<Rightarrow> bool) \<Rightarrow> tid \<Rightarrow> 'x kstate \<Rightarrow> 'x kstate"
where
  "sched_submit_work flush pi p s =
     (if p_state (ks_tasks s p) = 0 \<or> pi p then s
      else (case flush of None \<Rightarrow> s | Some f \<Rightarrow> f p s))"

text \<open>
  What a call of \<open>__schedule\<close> leads to on its CPU. The task that runs when it is over returns to
  its own caller: one that was preempted, which its \<open>PREEMPT_ACTIVE\<close> bit shows, goes on in the
  \<open>do \<dots> while (need_resched())\<close> of \<open>preempt_schedule\<close> or \<open>preempt_schedule_irq\<close>; any other is
  back from \<open>schedule\<close>.
\<close>

partial_function (option) run_schedule ::
  "'x env \<Rightarrow> 'x hooks \<Rightarrow> 'x switch_ops \<Rightarrow> 'x kstate \<Rightarrow> (crash + 'x kstate) option"
where
  "run_schedule E H A s =
     (case schedule_loop E H A s of
        None \<Rightarrow> None
      | Some (Inl e) \<Rightarrow> Some (Inl e)
      | Some (Inr s) \<Rightarrow>
          if ks_preempt_count s AND PREEMPT_ACTIVE = 0 then Some (Inr s)
          else let s = preempt_count_inc (- PREEMPT_ACTIVE) s
               in if p_need_resched (ks_tasks s (current_task s))
                  then run_schedule E H A (preempt_count_inc PREEMPT_ACTIVE s)
                  else Some (Inr s))"

definition schedule ::
  "'x env \<Rightarrow> 'x hooks \<Rightarrow> 'x switch_ops \<Rightarrow> (tid \<Rightarrow> 'x kstate \<Rightarrow> 'x kstate) option \<Rightarrow> (tid \<Rightarrow> bool) \<Rightarrow>
     'x kstate \<Rightarrow> (crash + 'x kstate) option"
where
  "schedule E H A flush pi s =
     run_schedule E H A (sched_submit_work flush pi (current_task s) s)"

definition preempt_schedule ::
  "'x env \<Rightarrow> 'x hooks \<Rightarrow> 'x switch_ops \<Rightarrow> bool \<Rightarrow> 'x kstate \<Rightarrow> (crash + 'x kstate) option"
where
  "preempt_schedule E H A irqs_off s =
     (if \<not> (ks_preempt_count s = 0 \<and> \<not> irqs_off) then Some (Inr s)
      else run_schedule E H A (preempt_count_inc PREEMPT_ACTIVE s))"

definition preempt_schedule_irq ::
  "'x env \<Rightarrow> 'x hooks \<Rightarrow> 'x switch_ops \<Rightarrow> bool \<Rightarrow> 'x kstate \<Rightarrow> (crash + 'x kstate) option"
where
  "preempt_schedule_irq E H A irqs_off s =
     (if ks_preempt_count s \<noteq> 0 \<or> \<not> irqs_off then Some (Inl Bug)
      else run_schedule E H A (preempt_count_inc PREEMPT_ACTIVE s))"

definition default_wake_function ::
  "'x env \<Rightarrow> tid \<Rightarrow> u64 \<Rightarrow> int \<Rightarrow> 'x kstate \<Rightarrow> crash + bool \<times> 'x kstate"
where
  "default_wake_function E p mode wake_flags s = try_to_wake_up E p mode wake_flags s"

section \<open>The preempt count balances\<close>

lemma sint_small: "0 \<le> sint n \<Longrightarrow> uint n = sint n" for n :: s32
proof -
  assume "0 \<le> sint n"
  then have "take_bit 32 (sint n) = sint n"
    using sint_lt [of n] by (simp add: take_bit_int_eq_self)
  then show ?thesis by (subst uint_sint) simp
qed

lemma small_and_ff:
  fixes n :: s32
  assumes "0 \<le> sint n" "sint n < 256"
  shows "n AND PREEMPT_MASK = n"
proof -
  have "take_bit 8 n = n"
    using assms sint_small [OF assms(1)]
    by (simp add: word_uint_eq_iff unsigned_take_bit_eq take_bit_int_eq_self)
  then show ?thesis by (simp add: take_bit_eq_mask mask_eq_exp_minus_1)
qed

text \<open>Raising the preempt count and lowering it again by the same amount brings it back without a
  warning, as long as the count is not negative and stays clear of the overflow mark.\<close>

theorem preempt_count_roundtrip:
  assumes "0 \<le> sint (ks_preempt_count s)" "0 < sint v" "sint v < 255"
    and "sint (ks_preempt_count s) + sint v < 245"
  shows "preempt_count_sub v (preempt_count_add v s) = s"
proof -
  let ?n = "ks_preempt_count s + v"
  have n: "sint ?n = sint (ks_preempt_count s) + sint v"
    using assms by (simp add: sint_word_add signed_take_bit_int_eq_self)
  then have m: "?n AND 255 = ?n"
    using assms small_and_ff [of ?n] by simp
  have "?n \<noteq> 0"
    using n assms by (intro notI) simp
  with n m assms show ?thesis
    by (simp add: preempt_count_add_def preempt_count_sub_def preempt_count_inc_def warn_def Let_def)
qed

theorem preempt_count_roundtrip_witness:
  "preempt_count_sub 1 (preempt_count_add 1 demo_state) = demo_state"
  using preempt_count_roundtrip [of demo_state 1] by (simp add: demo_state_def)

section \<open>What a switch accounts for\<close>

text \<open>The counters of switches and the current tasks.\<close>

definition switch_counts :: "task_struct \<Rightarrow> u64 \<times> u64" where
  "switch_counts t = (p_nvcsw t, p_nivcsw t)"

definition acct :: "'x kstate \<Rightarrow> (cpu \<Rightarrow> tid \<times> u64) \<times> (tid \<Rightarrow> u64 \<times> u64) \<times> cpu" where
  "acct s = ((\<lambda>c. (rq_curr (ks_rqs s c), rq_nr_switches (ks_rqs s c))),
             (\<lambda>p. switch_counts (ks_tasks s p)), ks_cpu s)"

lemma acct_same_core: "same_core s t \<Longrightarrow> acct t = acct s"
  by (simp add: acct_def switch_counts_def same_core_fields)

lemma acct_quiet: "quiet f \<Longrightarrow> acct (f s) = acct s"
  by (rule acct_same_core) (simp add: quiet_def)

lemma acct_upd_task [simp]:
  "(\<And>t. switch_counts (f t) = switch_counts t) \<Longrightarrow> acct (upd_task p f s) = acct s"
  by (auto simp: acct_def)

lemma acct_upd_rq [simp]:
  "(\<And>r. rq_curr (f r) = rq_curr r \<and> rq_nr_switches (f r) = rq_nr_switches r) \<Longrightarrow>
     acct (upd_rq c f s) = acct s"
  by (auto simp: acct_def)

lemma acct_other [simp]:
  "acct (s\<lparr>ks_preempt_count := n\<rparr>) = acct s" "acct (s\<lparr>ks_frames := fr\<rparr>) = acct s"
  "acct (s\<lparr>ks_mm_count := m\<rparr>) = acct s" "acct (s\<lparr>ks_preempt_need_resched := b\<rparr>) = acct s"
  "acct (warn b w s) = acct s" "acct (preempt_count_inc v s) = acct s"
  by (simp_all add: acct_def warn_def preempt_count_inc_def)

lemma acct_task_update:
  "task_update p f s t \<Longrightarrow> (\<And>t. switch_counts (f t) = switch_counts t) \<Longrightarrow> acct t = acct s"
  unfolding task_update_def by (frule acct_same_core) simp

text \<open>What the core relies on of the rest of a switch.\<close>

definition switch_ok :: "'x switch_ops \<Rightarrow> bool" where
  "switch_ok A \<longleftrightarrow> (\<forall>c p q. quiet (sw_info A c p q)) \<and> (\<forall>p. quiet (sw_reap A p)) \<and>
     (\<forall>p. \<forall>n \<in> set (sw_notifiers A p). (\<forall>c. quiet (pn_sched_in n c)) \<and> (\<forall>q. quiet (pn_sched_out n q)))"

lemma quiet_id [simp]: "quiet (\<lambda>s. s)"
  by (simp add: quiet_def)

lemma notifiers_quiet:
  assumes "switch_ok A"
  shows "quiet (fire_sched_in_preempt_notifiers (sw_notifiers A p))"
    and "quiet (fire_sched_out_preempt_notifiers (sw_notifiers A p) q)"
proof -
  have f: "(\<And>n. n \<in> set ns \<Longrightarrow> \<forall>s. same_core s (f n s)) \<Longrightarrow> same_core s (fold f ns s)"
    for f :: "'a preempt_notifier \<Rightarrow> 'a kstate \<Rightarrow> 'a kstate" and ns s
    by (induction ns arbitrary: s) (auto intro: same_core_trans)
  show "quiet (fire_sched_in_preempt_notifiers (sw_notifiers A p))"
    "quiet (fire_sched_out_preempt_notifiers (sw_notifiers A p) q)"
    using assms by (auto simp: quiet_def fire_sched_in_preempt_notifiers_def
        fire_sched_out_preempt_notifiers_def switch_ok_def intro!: f)
qed

lemma switch_quiet:
  assumes "switch_ok A"
  shows "quiet (sw_info A c p q)" "quiet (sw_reap A p)"
  using assms by (simp_all add: switch_ok_def)

text \<open>\<open>finish_task_switch\<close> for the core: \<open>prev\<close> is off the CPU, the delayed reference dropped.\<close>

definition finished :: "cpu \<Rightarrow> tid \<Rightarrow> 'x kstate \<Rightarrow> 'x kstate" where
  "finished c prev s =
     (upd_task prev (\<lambda>t. t\<lparr>p_on_cpu := False\<rparr>) (upd_rq c (\<lambda>r. r\<lparr>rq_prev_mm := None\<rparr>) s))
       \<lparr>ks_mm_count := (case rq_prev_mm (ks_rqs s c) of None \<Rightarrow> ks_mm_count s
                        | Some m \<Rightarrow> (ks_mm_count s)(m := ks_mm_count s m - 1))\<rparr>"

lemma same_core_mm_count:
  "same_core s t \<Longrightarrow> same_core (s\<lparr>ks_mm_count := m\<rparr>) (t\<lparr>ks_mm_count := m\<rparr>)"
  by (simp add: same_core_def)

lemma finish_task_switch_core:
  assumes "env_ok E" "switch_ok A"
  shows "same_core (finished c prev s) (finish_task_switch E A c prev s)"
proof -
  let ?s1 = "upd_task prev (\<lambda>t. t\<lparr>p_on_cpu := False\<rparr>) (upd_rq c (\<lambda>r. r\<lparr>rq_prev_mm := None\<rparr>) s)"
  define s2 where "s2 = fire_sched_in_preempt_notifiers (sw_notifiers A (current_task ?s1)) ?s1"
  have s2: "same_core ?s1 s2"
    using notifiers_quiet(1) [OF assms(2)] by (simp add: s2_def quiet_def)
  define s3 where "s3 = (case rq_prev_mm (ks_rqs s c) of None \<Rightarrow> s2
      | Some m \<Rightarrow> s2\<lparr>ks_mm_count := (ks_mm_count s2)(m := ks_mm_count s2 m - 1)\<rparr>)"
  have s3: "same_core (finished c prev s) s3"
  proof (cases "rq_prev_mm (ks_rqs s c)")
    case None
    with s2 show ?thesis by (simp add: finished_def s3_def same_core_def)
  next
    case (Some m)
    with s2 show ?thesis by (simp add: finished_def s3_def same_core_def)
  qed
  have "finish_task_switch E A c prev s = (if p_state (ks_tasks (upd_rq c (\<lambda>r. r\<lparr>rq_prev_mm := None\<rparr>) s) prev) = TASK_DEAD
      then sw_reap A prev (call_opt (map_option (\<lambda>f. f prev) (co_task_dead (class_of E s3 prev))) s3)
      else s3)"
    unfolding finish_task_switch_def Let_def s3_def s2_def ..
  then show ?thesis
    using s3 assms(1) switch_quiet [OF assms(2)] by (simp add: core_frame)
qed

lemma finish_task_switch_acct:
  "env_ok E \<Longrightarrow> switch_ok A \<Longrightarrow> acct (finish_task_switch E A c prev s) = acct s"
  using acct_same_core [OF finish_task_switch_core, of E A c prev s]
  by (simp add: finished_def switch_counts_def)

lemma quiet_opt_acct: "quiet_opt f \<Longrightarrow> acct (call_opt f s) = acct s"
  by (rule acct_same_core) (simp add: quiet_opt_iff)

lemma post_schedule_acct: "env_ok E \<Longrightarrow> acct (post_schedule E c s) = acct s"
  by (simp add: post_schedule_def quiet_opt_acct class_quiet env_quiet)

lemma schedule_tail_acct: "env_ok E \<Longrightarrow> switch_ok A \<Longrightarrow> acct (schedule_tail E A prev s) = acct s"
  by (simp add: schedule_tail_def Let_def post_schedule_acct finish_task_switch_acct)

lemma prepare_task_switch_core:
  assumes "switch_ok A"
  shows "same_core (upd_task nxt (\<lambda>t. t\<lparr>p_on_cpu := True\<rparr>) s) (prepare_task_switch A c prev nxt s)"
proof -
  have "same_core s (fire_sched_out_preempt_notifiers (sw_notifiers A prev) nxt (sw_info A c prev nxt s))"
    using notifiers_quiet(2) [OF assms] switch_quiet [OF assms] by (simp add: quiet_iff)
  then show ?thesis
    unfolding prepare_task_switch_def Let_def
    by (rule same_core_upd_cong) (simp add: core_task_def)
qed

lemma prepare_task_switch_acct: "switch_ok A \<Longrightarrow> acct (prepare_task_switch A c prev nxt s) = acct s"
  by (drule acct_same_core [OF prepare_task_switch_core]) (simp add: switch_counts_def)

lemma switch_memory_acct: "switch_memory c prev nxt s = Inr t \<Longrightarrow> acct t = acct s"
  by (auto simp: switch_memory_def Let_def bindC_Inr_iff switch_counts_def split: if_splits option.splits)

lemma switch_stacks_acct: "acct (switch_stacks c prev nxt s) = acct s"
  by (simp add: switch_stacks_def switch_counts_def)

text \<open>Picking leaves the core alone.\<close>

lemma pick_scan_core: "env_ok E \<Longrightarrow> same_core s (snd (pick_scan E c prev ks s))"
proof (induction E c prev ks s rule: pick_scan.induct)
  case (1 E c prev s)
  then show ?case by simp
next
  case (2 E c prev k ks s)
  have q: "same_core s (snd (co_pick_next (cls E k) c prev s))"
    using class_quiet(4) [OF env_quiet(1) [OF 2(2)]] by (auto simp: quiet_def)
  obtain r t where r: "co_pick_next (cls E k) c prev s = (r, t)"
    by fastforce
  show ?case
    using 2 q r by (cases r) (auto intro: same_core_trans)
qed

lemma pick_again_core:
  assumes "pick_again E c prev s = Some (Inr (p, t))" "env_ok E"
  shows "same_core s t"
proof -
  have "env_ok E \<longrightarrow> (\<forall>p t. r = Inr (p, t) \<longrightarrow> same_core s t)" if "pick_again E c prev s = Some r" for r
  proof (rule pick_again.raw_induct [of "\<lambda>E c prev s r. env_ok E \<longrightarrow> (\<forall>p t. r = Inr (p, t) \<longrightarrow> same_core s t)", OF _ that])
    fix f :: "'a env \<Rightarrow> cpu \<Rightarrow> tid \<Rightarrow> 'a kstate \<Rightarrow> (crash + tid \<times> 'a kstate) option"
      and E :: "'a env" and c prev and s :: "'a kstate" and r
    assume IH: "\<And>E c prev s r. f E c prev s = Some r \<Longrightarrow>
        env_ok E \<longrightarrow> (\<forall>p t. r = Inr (p, t) \<longrightarrow> same_core s t)"
      and step: "(case pick_scan E c prev all_classes s of
          (NoTask, s) \<Rightarrow> Some (Inl Bug) | (RetryTask, s) \<Rightarrow> f E c prev s
        | (Picked p, s) \<Rightarrow> Some (Inr (p, s))) = Some r"
    obtain k u where k: "pick_scan E c prev all_classes s = (k, u)"
      by fastforce
    show "env_ok E \<longrightarrow> (\<forall>p t. r = Inr (p, t) \<longrightarrow> same_core s t)"
      using step IH pick_scan_core [of E s c prev all_classes]
      by (cases k) (auto simp: k intro: same_core_trans)
  qed
  with assms show ?thesis by blast
qed

lemma pick_next_task_core:
  assumes "pick_next_task E c prev s = Some (Inr (p, t))" "env_ok E"
  shows "same_core s t"
proof -
  have q: "same_core u (snd (co_pick_next (cls E k) c prev u))" for k u
    using class_quiet(4) [OF env_quiet(1) [OF assms(2)]] by (auto simp: quiet_def)
  show ?thesis
    using assms q [of s Fair_class] q [of "snd (co_pick_next (cls E Fair_class) c prev s)" Idle_class]
    by (auto simp: pick_next_task_def split: if_splits prod.splits pick.splits
        intro: same_core_trans pick_again_core)
qed

lemma schedule_pick_core:
  assumes "schedule_pick E c prev s = Some (Inr (p, t))" "env_ok E"
  shows "same_core s t"
proof -
  let ?s = "do_if (task_on_rq_queued s prev \<or> rq_skip_clock_update (ks_rqs s c) < 0) (update_rq_clock E c) s"
  have s: "same_core s ?s"
    using assms(2) by (simp add: frame core_frame)
  obtain u where u: "pick_next_task E c prev ?s = Some (Inr (p, u))"
    and t: "t = upd_rq c (\<lambda>r. r\<lparr>rq_skip_clock_update := 0\<rparr>)
            ((upd_task prev (\<lambda>t. t\<lparr>p_need_resched := False\<rparr>) u)\<lparr>ks_preempt_need_resched := False\<rparr>)"
    using assms(1) unfolding schedule_pick_def Let_def
    by (cases "pick_next_task E c prev ?s"; cases "the (pick_next_task E c prev ?s)") auto
  have "same_core ?s u"
    using pick_next_task_core [OF u assms(2)] .
  with s have "same_core s u" by (rule same_core_trans)
  then show ?thesis
    by (simp add: t core_frame)
qed

lemma warn_frames [simp]: "ks_frames (warn b w s) = ks_frames s"
  by (simp add: warn_def)

lemma task_update_frames: "task_update p f s t \<Longrightarrow> ks_frames t = ks_frames s"
  by (simp add: task_update_def same_core_def)

lemma try_to_wake_up_local_acct:
  assumes "env_ok E"
  shows "acct (try_to_wake_up_local E p s) = acct s \<and>
    ks_frames (try_to_wake_up_local E p s) = ks_frames s"
proof -
  have a: "acct (ttwu_activate E c p fl s) = acct s" "ks_frames (ttwu_activate E c p fl s) = ks_frames s"
    for c fl and s :: "'a kstate"
    using acct_task_update [OF ttwu_activate_update [OF assms, of p s c fl]]
      task_update_frames [OF ttwu_activate_update [OF assms, of p s c fl]]
    by (simp_all add: switch_counts_def)
  have w: "acct (ttwu_do_wakeup E c p fl s) = acct s" "ks_frames (ttwu_do_wakeup E c p fl s) = ks_frames s"
    for c fl and s :: "'a kstate"
    using acct_task_update [OF ttwu_do_wakeup_update [OF assms, of p s c fl]]
      task_update_frames [OF ttwu_do_wakeup_update [OF assms, of p s c fl]]
    by (simp_all add: switch_counts_def)
  show ?thesis
    by (simp add: try_to_wake_up_local_def Let_def a w do_if_def)
qed

lemma schedule_block_acct:
  assumes "env_ok E"
  shows "acct (snd (schedule_block E c prev s)) = acct s \<and>
    ks_frames (snd (schedule_block E c prev s)) = ks_frames s"
proof -
  let ?d = "deactivate_task E c prev DEQUEUE_SLEEP s"
  have "same_core s ?d"
    using assms by (simp add: frame)
  then have d: "acct ?d = acct s" "ks_frames ?d = ks_frames s"
    by (simp_all add: acct_same_core same_core_fields)
  have w: "acct (snd (wq_worker_sleeping E prev c u)) = acct u"
    "ks_frames (snd (wq_worker_sleeping E prev c u)) = ks_frames u" for u
    using acct_quiet [OF env_quiet(6) [OF assms, of prev c]] env_quiet(6) [OF assms, of prev c]
    by (simp_all add: quiet_def same_core_def)
  obtain q u where wq: "wq_worker_sleeping E prev c (upd_task prev (\<lambda>t. t\<lparr>p_on_rq := 0\<rparr>) ?d) = (q, u)"
    by fastforce
  show ?thesis
    using w [of "upd_task prev (\<lambda>t. t\<lparr>p_on_rq := 0\<rparr>) ?d"] wq d try_to_wake_up_local_acct [OF assms]
    by (cases q) (simp_all add: schedule_block_def Let_def switch_counts_def)
qed

lemma count_switch_fields:
  "rq_curr (ks_rqs (count_switch c prev nxt v s) d) = (if d = c then nxt else rq_curr (ks_rqs s d))"
  "rq_nr_switches (ks_rqs (count_switch c prev nxt v s) d) =
     rq_nr_switches (ks_rqs s d) + (if d = c then 1 else 0)"
  "p_nvcsw (ks_tasks (count_switch c prev nxt v s) p) =
     p_nvcsw (ks_tasks s p) + (if p = prev \<and> v then 1 else 0)"
  "p_nivcsw (ks_tasks (count_switch c prev nxt v s) p) =
     p_nivcsw (ks_tasks s p) + (if p = prev \<and> \<not> v then 1 else 0)"
  "ks_cpu (count_switch c prev nxt v s) = ks_cpu s"
  "ks_frames (count_switch c prev nxt v s) = ks_frames s"
  by (simp_all add: count_switch_def)

section \<open>The contract of the hooks\<close>

text \<open>
  What the scheduler needs of a set of hooks on the CPUs \<open>cpus\<close>: called for one of them, a
  hook returns, and it leaves the scheduler's own state alone.
\<close>

locale sched_hooks =
  fixes H :: "'x hooks" and cpus :: "cpu set"
  assumes counter_returns:
      "hook_context_counter H = Some f \<Longrightarrow> c \<in> cpus \<Longrightarrow> \<exists>t. f p q c n s = Inr t \<and> same_core s t"
    and rq_size_returns:
      "hook_rq_size H = Some g \<Longrightarrow> c \<in> cpus \<Longrightarrow> \<exists>t. g c k n s = Inr t \<and> same_core s t"
    and per_pid_returns:
      "hook_per_pid_stats H = Some h \<Longrightarrow> \<exists>t. h p s = Inr t \<and> same_core s t"
    and current_pc_returns:
      "hook_current_pc H = Some j \<Longrightarrow> \<exists>t. j pc s = Inr t \<and> same_core s t"
begin

lemma call_counter:
  "c \<in> cpus \<Longrightarrow> \<exists>t. call_hook (map_option (\<lambda>f. f p q c n) (hook_context_counter H)) s = Inr t \<and> same_core s t"
  by (cases "hook_context_counter H") (auto simp: call_hook_def dest: counter_returns)

lemma call_rq_size:
  "c \<in> cpus \<Longrightarrow> \<exists>t. call_hook (map_option (\<lambda>f. f c k n) (hook_rq_size H)) s = Inr t \<and> same_core s t"
  by (cases "hook_rq_size H") (auto simp: call_hook_def dest: rq_size_returns)

lemma call_per_pid:
  "\<exists>t. call_hook (map_option (\<lambda>f. f p) (hook_per_pid_stats H)) s = Inr t \<and> same_core s t"
  by (cases "hook_per_pid_stats H") (auto simp: call_hook_def dest: per_pid_returns)

lemma call_current_pc:
  "\<exists>t. call_hook (map_option (\<lambda>f. f pc) (hook_current_pc H)) s = Inr t \<and> same_core s t"
  by (cases "hook_current_pc H") (auto simp: call_hook_def dest: current_pc_returns)

lemma resume_finishes:
  assumes "env_ok E" "switch_ok A" "rq' \<in> cpus"
  shows "\<exists>t. context_switch_resume E H A prev nxt rq' s = Inr t \<and>
    same_core (finished (ks_cpu s) prev s) t"
proof -
  obtain u where u: "call_hook (map_option (\<lambda>f. f prev nxt rq' (rq_nr_switches (ks_rqs s rq')))
      (hook_context_counter H)) s = Inr u" "same_core s u"
    using call_counter [OF assms(3)] by blast
  obtain v where v: "call_hook (map_option (\<lambda>f. f (sw_pc A)) (hook_current_pc H)) u = Inr v" "same_core u v"
    using call_current_pc by blast
  have sv: "same_core s v"
    using u(2) v(2) by (rule same_core_trans)
  have "same_core (finished (ks_cpu s) prev s) (finished (ks_cpu v) prev v)"
    using sv by (simp add: finished_def same_core_def core_task_def core_rq_def split: option.split)
  also have "same_core (finished (ks_cpu v) prev v) (finish_task_switch E A (ks_cpu v) prev v)"
    by (rule finish_task_switch_core [OF assms(1,2)])
  finally show ?thesis
    using u(1) v(1) by (simp add: context_switch_resume_def)
qed

text \<open>A switch between tasks that were switched out on known CPUs never crashes in a hook.\<close>

lemma context_switch_acct:
  assumes "env_ok E" "switch_ok A" "\<And>p q d. ks_frames s p = Some (q, d) \<Longrightarrow> d \<in> cpus"
  shows "case context_switch E H A c prev nxt s of Inl e \<Rightarrow> e = NullDeref | Inr t \<Rightarrow> acct t = acct s"
proof -
  let ?p = "prepare_task_switch A c prev nxt s"
  have p: "acct ?p = acct s" "ks_frames ?p = ks_frames s"
    using prepare_task_switch_acct [OF assms(2)] prepare_task_switch_core [OF assms(2), of nxt s c prev]
    by (simp_all add: same_core_def)
  show ?thesis
  proof (cases "switch_memory c prev nxt ?p")
    case (Inl e)
    then show ?thesis
      by (auto simp: context_switch_def switch_memory_def Let_def split: if_splits option.splits)
  next
    case (Inr m)
    have m: "acct m = acct s" "ks_frames m = ks_frames s"
      using switch_memory_acct [OF Inr] p Inr
      by (auto simp: switch_memory_def Let_def bindC_Inr_iff split: if_splits option.splits)
    show ?thesis
    proof (cases "ks_frames m nxt")
      case None
      with Inr m show ?thesis
        using assms(1,2) by (simp add: context_switch_def schedule_tail_acct switch_stacks_acct)
    next
      case (Some fr)
      obtain q d where fr: "fr = (q, d)" by fastforce
      then have "d \<in> cpus"
        using assms(3) Some m(2) by metis
      from resume_finishes [OF assms(1,2) this, of prev q "switch_stacks c prev nxt m"]
      obtain t where t: "context_switch_resume E H A prev q d (switch_stacks c prev nxt m) = Inr t"
        "same_core (finished (ks_cpu (switch_stacks c prev nxt m)) prev (switch_stacks c prev nxt m)) t"
        by blast
      have "acct t = acct s"
        using acct_same_core [OF t(2)] m(1) by (simp add: finished_def switch_stacks_acct switch_counts_def)
      with Inr Some fr t(1) show ?thesis
        by (simp add: context_switch_def Let_def)
    qed
  qed
qed

end

section \<open>One round of the scheduler\<close>

definition blocks :: "tid \<Rightarrow> 'x kstate \<Rightarrow> bool" where
  "blocks prev s \<longleftrightarrow> p_state (ks_tasks s prev) \<noteq> 0 \<and> (ks_preempt_count s + 1) AND PREEMPT_ACTIVE = 0"

lemma schedule_block_voluntary:
  "fst (schedule_block E c prev s) \<longleftrightarrow> p_state (ks_tasks s prev) \<noteq> 0 \<and> ks_preempt_count s AND PREEMPT_ACTIVE = 0"
  by (simp add: schedule_block_def Let_def)

lemma pick_again_crash:
  assumes "pick_again E c prev s = Some (Inl e)"
  shows "e = Bug"
proof -
  have "\<forall>e. r = Inl e \<longrightarrow> e = Bug" if "pick_again E c prev s = Some r" for r
    by (rule pick_again.raw_induct [OF _ that])
       (auto split: prod.splits pick.splits)
  with assms show ?thesis by blast
qed

lemma pick_next_task_crash:
  "pick_next_task E c prev s = Some (Inl e) \<Longrightarrow> e = Bug \<or> e = NullDeref"
  by (auto simp: pick_next_task_def dest: pick_again_crash split: if_splits prod.splits pick.splits)

lemma schedule_pick_crash:
  assumes "schedule_pick E c prev s = Some (Inl e)"
  shows "e = Bug \<or> e = NullDeref"
proof -
  let ?s = "do_if (task_on_rq_queued s prev \<or> rq_skip_clock_update (ks_rqs s c) < 0) (update_rq_clock E c) s"
  obtain r where r: "pick_next_task E c prev ?s = Some r"
    using assms unfolding schedule_pick_def Let_def by (cases "pick_next_task E c prev ?s") auto
  with assms have "r = Inl e"
    unfolding schedule_pick_def Let_def by (cases r) auto
  with r show ?thesis by (auto dest: pick_next_task_crash)
qed

text \<open>The switch counters after a round, in terms of the state before it.\<close>

definition accounted :: "'x kstate \<Rightarrow> 'x kstate \<Rightarrow> bool" where
  "accounted s t \<longleftrightarrow>
     (let c = ks_cpu s; prev = rq_curr (ks_rqs s c); nxt = rq_curr (ks_rqs t c);
          one = (if nxt \<noteq> prev then 1 else 0) in
      ks_cpu t = c \<and>
      rq_nr_switches (ks_rqs t c) = rq_nr_switches (ks_rqs s c) + one \<and>
      p_nvcsw (ks_tasks t prev) = p_nvcsw (ks_tasks s prev) + (if blocks prev s then one else 0) \<and>
      p_nivcsw (ks_tasks t prev) = p_nivcsw (ks_tasks s prev) + (if blocks prev s then 0 else one) \<and>
      (\<forall>d. d \<noteq> c \<longrightarrow> rq_curr (ks_rqs t d) = rq_curr (ks_rqs s d) \<and>
                    rq_nr_switches (ks_rqs t d) = rq_nr_switches (ks_rqs s d)) \<and>
      (\<forall>q. q \<noteq> prev \<longrightarrow> switch_counts (ks_tasks t q) = switch_counts (ks_tasks s q)))"

lemma acct_fields:
  assumes "acct t = acct s"
  shows "rq_curr (ks_rqs t c) = rq_curr (ks_rqs s c)" "rq_nr_switches (ks_rqs t c) = rq_nr_switches (ks_rqs s c)"
    "switch_counts (ks_tasks t p) = switch_counts (ks_tasks s p)"
    "p_nvcsw (ks_tasks t p) = p_nvcsw (ks_tasks s p)" "p_nivcsw (ks_tasks t p) = p_nivcsw (ks_tasks s p)"
    "ks_cpu t = ks_cpu s"
  using assms by (auto simp: acct_def switch_counts_def fun_eq_iff)

lemma accounted_intro:
  assumes "acct u = acct s" "prev = rq_curr (ks_rqs s (ks_cpu s))" "v = blocks prev s"
    and "acct t = acct (if prev \<noteq> nxt then count_switch (ks_cpu s) prev nxt v u else u)"
  shows "accounted s t \<and> rq_curr (ks_rqs t (ks_cpu s)) = nxt"
  using acct_fields [OF assms(4)] acct_fields [OF assms(1)] assms(2,3)
  by (cases "prev = nxt") (auto simp: accounted_def Let_def count_switch_fields switch_counts_def)

context sched_hooks
begin

lemma entry_returns:
  assumes "env_ok E" "ks_cpu s \<in> cpus"
  shows "\<exists>t. schedule_entry E H (ks_cpu s) prev s = Inr t \<and> same_core s t"
proof -
  obtain u where u: "call_hook (map_option (\<lambda>f. f (ks_cpu s) (rq_nr_running (ks_rqs s (ks_cpu s)))
      (rq_nr_switches (ks_rqs s (ks_cpu s)))) (hook_rq_size H)) s = Inr u" "same_core s u"
    using call_rq_size [OF assms(2)] by blast
  obtain v where v: "call_hook (map_option (\<lambda>f. f prev) (hook_per_pid_stats H)) u = Inr v" "same_core u v"
    using call_per_pid by blast
  have "same_core s v"
    using u(2) v(2) by (rule same_core_trans)
  then show ?thesis
    using u(1) v(1) env_quiet(7) [OF assms(1)] by (simp add: schedule_entry_def schedule_debug_def core_frame)
qed

lemma switch_accounts:
  assumes "env_ok E" "switch_ok A" "\<And>p q d. ks_frames u p = Some (q, d) \<Longrightarrow> d \<in> cpus"
    and "acct u = acct s" "prev = rq_curr (ks_rqs s (ks_cpu s))" "v = blocks prev s"
  shows "case schedule_switch E H A (ks_cpu s) prev v nxt u of
    Inl e \<Rightarrow> e = NullDeref | Inr (again, t) \<Rightarrow> accounted s t \<and> rq_curr (ks_rqs t (ks_cpu s)) = nxt"
proof -
  let ?u = "if prev \<noteq> nxt then count_switch (ks_cpu s) prev nxt v u else u"
  define y where "y = (if prev \<noteq> nxt then context_switch E H A (ks_cpu s) prev nxt ?u else Inr u)"
  have "ks_frames ?u p = Some (q, d) \<Longrightarrow> d \<in> cpus" for p q d
    using assms(3) by (auto simp: count_switch_fields split: if_splits)
  then have y: "case y of Inl e \<Rightarrow> e = NullDeref | Inr t \<Rightarrow> acct t = acct ?u"
    using context_switch_acct [OF assms(1,2), of ?u "ks_cpu s" prev nxt] by (auto simp: y_def split: if_splits)
  have r: "schedule_switch E H A (ks_cpu s) prev v nxt u = bindC y (\<lambda>s.
      let s = preempt_count_inc (- 1) (post_schedule E (ks_cpu s) s)
      in Inr (p_need_resched (ks_tasks s (current_task s)), s))"
    by (simp add: schedule_switch_def y_def)
  show ?thesis
  proof (cases y)
    case (Inl e)
    with y r show ?thesis by simp
  next
    case (Inr t)
    let ?t = "preempt_count_inc (- 1) (post_schedule E (ks_cpu t) t)"
    have "acct ?t = acct ?u"
      using y Inr post_schedule_acct [OF assms(1)] by simp
    from accounted_intro [OF assms(4-6) this] Inr r show ?thesis
      by (simp add: Let_def)
  qed
qed

lemma schedule_round_accounts:
  assumes "env_ok E" "switch_ok A" "ks_cpu s \<in> cpus"
    and fr: "\<And>p q d. ks_frames s p = Some (q, d) \<Longrightarrow> d \<in> cpus"
    and run: "schedule_round E H A s = Some r"
  shows "case r of Inl e \<Rightarrow> e = Bug \<or> e = NullDeref | Inr (again, t) \<Rightarrow> accounted s t"
proof -
  let ?c = "ks_cpu s" and ?prev = "rq_curr (ks_rqs s (ks_cpu s))"
  define s0 where "s0 = preempt_count_inc 1 s"
  have s0: "ks_cpu s0 = ?c" "rq_curr (ks_rqs s0 ?c) = ?prev" "ks_frames s0 = ks_frames s"
    "acct s0 = acct s" "ks_preempt_count s0 = ks_preempt_count s + 1" "ks_tasks s0 = ks_tasks s"
    by (simp_all add: s0_def preempt_count_inc_def acct_def)
  have "ks_cpu s0 \<in> cpus"
    using s0 assms(3) by simp
  from entry_returns [OF assms(1) this, of ?prev] obtain s2 where
    s2: "schedule_entry E H ?c ?prev s0 = Inr s2" "same_core s0 s2"
    using s0(1) by auto
  obtain v s3 where s3: "schedule_block E ?c ?prev s2 = (v, s3)"
    by fastforce
  have v: "v = blocks ?prev s"
    using schedule_block_voluntary [of E ?c ?prev s2] s3 s0 same_core_fields [OF s2(2)]
    by (simp add: blocks_def)
  have a3: "acct s3 = acct s" "ks_frames s3 = ks_frames s"
    using schedule_block_acct [OF assms(1), of ?c ?prev s2] s3 s0 acct_same_core [OF s2(2)]
      same_core_fields(32) [OF s2(2)] by auto
  have round: "map_option (\<lambda>r. bindC r (\<lambda>(nxt, s). schedule_switch E H A ?c ?prev v nxt s))
      (schedule_pick E ?c ?prev s3) = Some r"
    using run s2(1) s3 s0(1,2) unfolding schedule_round_def s0_def [symmetric] Let_def by simp
  then obtain r4 where r4: "schedule_pick E ?c ?prev s3 = Some r4"
    by auto
  show ?thesis
  proof (cases r4)
    case (Inl e)
    with round r4 schedule_pick_crash [of E ?c ?prev s3 e] show ?thesis by auto
  next
    case (Inr x)
    obtain nxt s4 where x: "x = (nxt, s4)" by fastforce
    have s4: "same_core s3 s4"
      using schedule_pick_core r4 Inr x assms(1) by blast
    have fr4: "ks_frames s4 p = Some (q, d) \<Longrightarrow> d \<in> cpus" for p q d
      using fr a3 same_core_fields(32) [OF s4] by simp
    have a4: "acct s4 = acct s"
      using acct_same_core [OF s4] a3 by simp
    have "r = schedule_switch E H A ?c ?prev v nxt s4"
      using round r4 Inr x by simp
    moreover have "case schedule_switch E H A ?c ?prev v nxt s4 of
        Inl e \<Rightarrow> e = NullDeref | Inr (again, t) \<Rightarrow> accounted s t \<and> rq_curr (ks_rqs t ?c) = nxt"
      by (rule switch_accounts [OF assms(1,2) _ a4 refl v]) (rule fr4)
    ultimately show ?thesis
      by (auto split: sum.splits)
  qed
qed

end

section \<open>References to memory descriptors\<close>

definition mem :: "'x kstate \<Rightarrow> (tid \<Rightarrow> nat option \<times> nat option) \<times> (cpu \<Rightarrow> nat option) \<times> (nat \<Rightarrow> int) \<times> cpu" where
  "mem s = ((\<lambda>p. (p_mm (ks_tasks s p), p_active_mm (ks_tasks s p))), (\<lambda>c. rq_prev_mm (ks_rqs s c)),
            ks_mm_count s, ks_cpu s)"

lemma mem_same_core: "same_core s t \<Longrightarrow> mem t = mem s"
  by (simp add: mem_def same_core_fields)

text \<open>
  The account of a switch from \<open>prev\<close>, whose active memory is \<open>m\<close>, to \<open>nxt\<close>: a kernel thread
  switched in takes a reference to what it borrows, one switched out has given its up.
\<close>

definition mem_switched :: "tid \<Rightarrow> tid \<Rightarrow> nat \<Rightarrow> 'x kstate \<Rightarrow> 'x kstate \<Rightarrow> bool" where
  "mem_switched prev nxt m s t \<longleftrightarrow>
     (let kernel = (\<lambda>p. p_mm (ks_tasks s p) = None) in
      (\<forall>p. p_mm (ks_tasks t p) = p_mm (ks_tasks s p)) \<and>
      (\<forall>p. p_active_mm (ks_tasks t p) =
         (if p = prev \<and> kernel p then None
          else if p = nxt \<and> kernel p then Some m
          else p_active_mm (ks_tasks s p))) \<and>
      (\<forall>n. ks_mm_count t n = ks_mm_count s n +
         (if n = m \<and> kernel nxt then 1 else 0) - (if n = m \<and> kernel prev then 1 else 0)) \<and>
      (\<forall>c. rq_prev_mm (ks_rqs t c) = rq_prev_mm (ks_rqs s c)))"

lemma mem_other [simp]:
  "mem (preempt_count_inc v s) = mem s"
  "mem (upd_rq c (\<lambda>r. r\<lparr>rq_post_schedule := b\<rparr>) s) = mem s"
  by (auto simp: mem_def preempt_count_inc_def)

lemma post_schedule_mem: "env_ok E \<Longrightarrow> mem (post_schedule E c s) = mem s"
  by (simp add: post_schedule_def mem_same_core quiet_opt_iff class_quiet env_quiet)

lemma mem_finished:
  "mem (finished c prev u) = (fst (mem u), (fst (snd (mem u)))(c := None),
     (case fst (snd (mem u)) c of None \<Rightarrow> fst (snd (snd (mem u)))
      | Some n \<Rightarrow> (fst (snd (snd (mem u))))(n := fst (snd (snd (mem u))) n - 1)), snd (snd (snd (mem u))))"
  by (auto simp: mem_def finished_def fun_eq_iff split: option.split)

lemma finished_mem:
  assumes "mem u = mem (switch_stacks c prev nxt w)" "mem p = mem s" "ks_cpu s = c"
    and "switch_memory c prev nxt p = Inr w" "prev \<noteq> nxt" "p_active_mm (ks_tasks s prev) = Some m"
    and "rq_prev_mm (ks_rqs s c) = None"
    and "mem t = mem (finished c prev u)"
  shows "mem_switched prev nxt m s t"
proof -
  have w: "mem w = ((\<lambda>q. (p_mm (ks_tasks s q),
        if q = prev \<and> p_mm (ks_tasks s q) = None then None
        else if q = nxt \<and> p_mm (ks_tasks s q) = None then Some m else p_active_mm (ks_tasks s q))),
      (\<lambda>d. if d = c \<and> p_mm (ks_tasks s prev) = None then Some m else rq_prev_mm (ks_rqs s d)),
      (\<lambda>n. ks_mm_count s n + (if n = m \<and> p_mm (ks_tasks s nxt) = None then 1 else 0)), c)"
    using assms(2-7) by (auto simp: mem_def switch_memory_def Let_def bindC_Inr_iff fun_eq_iff split: if_splits)
  have "mem u = mem w"
    using assms(1) by (auto simp: mem_def switch_stacks_def fun_eq_iff)
  then have "mem t = ((\<lambda>q. (p_mm (ks_tasks s q),
        if q = prev \<and> p_mm (ks_tasks s q) = None then None
        else if q = nxt \<and> p_mm (ks_tasks s q) = None then Some m else p_active_mm (ks_tasks s q))),
      (\<lambda>d. rq_prev_mm (ks_rqs s d)),
      (\<lambda>n. ks_mm_count s n + (if n = m \<and> p_mm (ks_tasks s nxt) = None then 1 else 0)
         - (if n = m \<and> p_mm (ks_tasks s prev) = None then 1 else 0)), c)"
    using assms(7) by (simp add: assms(8) mem_finished w fun_eq_iff)
  then show ?thesis
    by (simp add: mem_def mem_switched_def fun_eq_iff)
qed

context sched_hooks
begin

lemma context_switch_memory:
  assumes "env_ok E" "switch_ok A" "\<And>p q d. ks_frames s p = Some (q, d) \<Longrightarrow> d \<in> cpus"
    and "context_switch E H A c prev nxt s = Inr t" "prev \<noteq> nxt" "ks_cpu s = c"
    and "p_active_mm (ks_tasks s prev) = Some m" "rq_prev_mm (ks_rqs s c) = None"
  shows "mem_switched prev nxt m s t"
proof -
  let ?p = "prepare_task_switch A c prev nxt s"
  note pc = prepare_task_switch_core [OF assms(2), of nxt s c prev]
  have p: "mem ?p = mem s" "ks_frames ?p = ks_frames s"
    using mem_same_core [OF pc] same_core_fields(32) [OF pc] by (auto simp: mem_def)
  obtain w where w: "switch_memory c prev nxt ?p = Inr w"
    using assms(4) by (cases "switch_memory c prev nxt ?p") (auto simp: context_switch_def)
  have fr: "ks_frames w = ks_frames s"
    using w p(2) by (auto simp: switch_memory_def Let_def bindC_Inr_iff split: if_splits option.splits)
  let ?w = "switch_stacks c prev nxt w"
  have cpu: "ks_cpu ?w = c"
    using w assms(6) p(1)
    by (auto simp: switch_memory_def Let_def bindC_Inr_iff switch_stacks_def mem_def split: if_splits option.splits)
  have "mem t = mem (finished c prev ?w)"
  proof (cases "ks_frames w nxt")
    case None
    then have "t = schedule_tail E A prev ?w"
      using assms(4) w by (simp add: context_switch_def Let_def)
    then show ?thesis
      using mem_same_core [OF finish_task_switch_core [OF assms(1,2), of c prev ?w]]
        post_schedule_mem [OF assms(1)] by (simp add: schedule_tail_def Let_def cpu)
  next
    case (Some x)
    obtain q d where x: "x = (q, d)" by fastforce
    then have "d \<in> cpus"
      using assms(3) Some fr by metis
    from resume_finishes [OF assms(1,2) this, of prev q ?w] show ?thesis
      using assms(4) w Some x cpu by (auto simp: context_switch_def Let_def dest: mem_same_core)
  qed
  from finished_mem [OF refl p(1) assms(6) w assms(5,7,8) this] show ?thesis .
qed

end

section \<open>The fast path of the choice\<close>


text \<open>The instance with nothing above the fair class.\<close>

definition demo_fair_env :: "demo_ext env" where
  "demo_fair_env = demo_env\<lparr>cls := (\<lambda>k. if k = Fair_class then demo_class
     else if k = Idle_class then demo_idle_class
     else demo_class\<lparr>co_pick_next := (\<lambda>c p s. (NoTask, s))\<rparr>)\<rparr>"


section \<open>The kernel without a module\<close>

interpretation unhooked: sched_hooks no_hooks UNIV
  by unfold_locales (simp_all add: no_hooks_def)

end
