(* ===== verification/Hook_Module.thy ===== *)
theory Hook_Module
  imports Sched_Switch
begin

text \<open>
  The module \<^verbatim>\<open>assg4/assg4.c\<close>: the three hooks it installs in the scheduler (and the fourth it
  does not), the two proc files that report what they counted, loading and unloading. The
  module's variables are the first component of the store's \<open>ks_ext\<close>.
\<close>

section \<open>State\<close>

record hook_mod =
  hm_pid :: int
  hm_curr_cpu :: int
  hm_pcvalue :: u64
  hm_sched_counter :: "nat \<Rightarrow> u64"
  hm_per_pid_switch_counter :: "nat \<Rightarrow> u64"
  hm_total_time :: u64
  hm_grqsize :: "nat \<Rightarrow> u64"
  hm_gcpu :: int
  hm_prio1 :: int
  hm_prio2 :: int
  hm_prio3 :: int
  hm_prio4 :: int
  hm_migration :: u64
  hm_tot :: u64
  hm_switches :: "nat \<Rightarrow> u64"

text \<open>The variables of a module just loaded to watch process \<open>pid\<close>.\<close>

definition hook_mod_zero :: "int \<Rightarrow> hook_mod" where
  "hook_mod_zero pid =
     \<lparr>hm_pid = pid, hm_curr_cpu = 0, hm_pcvalue = 0, hm_sched_counter = (\<lambda>_. 0),
      hm_per_pid_switch_counter = (\<lambda>_. 0), hm_total_time = 0, hm_grqsize = (\<lambda>_. 0),
      hm_gcpu = 0, hm_prio1 = 0, hm_prio2 = 0, hm_prio3 = 0, hm_prio4 = 0, hm_migration = 0,
      hm_tot = 0, hm_switches = (\<lambda>_. 0)\<rparr>"

type_synonym 'y hstate = "(hook_mod \<times> 'y) kstate"

abbreviation hm :: "'y hstate \<Rightarrow> hook_mod" where
  "hm s \<equiv> fst (ks_ext s)"

definition upd_hm :: "(hook_mod \<Rightarrow> hook_mod) \<Rightarrow> 'y hstate \<Rightarrow> 'y hstate" where
  "upd_hm f s = s\<lparr>ks_ext := (f (fst (ks_ext s)), snd (ks_ext s))\<rparr>"

text \<open>The arrays have four elements; an index outside is an access outside the array.\<close>

definition bump :: "cpu \<Rightarrow> (nat \<Rightarrow> u64) \<Rightarrow> crash + (nat \<Rightarrow> u64)" where
  "bump c xs = (if c < 4 then Inr (xs(c := xs c + 1)) else Inl OutOfBounds)"

definition store_at :: "cpu \<Rightarrow> u64 \<Rightarrow> (nat \<Rightarrow> u64) \<Rightarrow> crash + (nat \<Rightarrow> u64)" where
  "store_at c v xs = (if c < 4 then Inr (xs(c := v)) else Inl OutOfBounds)"

section \<open>The hooks\<close>

definition hk_context_counter :: "tid \<Rightarrow> tid \<Rightarrow> cpu \<Rightarrow> u64 \<Rightarrow> 'y hstate \<Rightarrow> crash + 'y hstate" where
  "hk_context_counter nxt prev c switchh s =
     bindC (bump c (hm_sched_counter (hm s))) (\<lambda>sc.
       let s = upd_hm (\<lambda>h. h\<lparr>hm_sched_counter := sc\<rparr>) s in
       if p_pid (ks_tasks s nxt) = hm_pid (hm s)
       then bindC (bump c (hm_per_pid_switch_counter (hm s))) (\<lambda>pc.
              Inr (upd_hm (\<lambda>h. h\<lparr>hm_per_pid_switch_counter := pc, hm_curr_cpu := int c\<rparr>) s))
       else Inr s)"

definition hk_current_pc :: "u64 \<Rightarrow> 'y hstate \<Rightarrow> crash + 'y hstate" where
  "hk_current_pc pc s =
     (if p_pid (ks_tasks s (current_task s)) = hm_pid (hm s)
      then Inr (upd_hm (\<lambda>h. h\<lparr>hm_pcvalue := pc\<rparr>) s) else Inr s)"

definition hk_rq_size :: "cpu \<Rightarrow> u32 \<Rightarrow> u64 \<Rightarrow> 'y hstate \<Rightarrow> crash + 'y hstate" where
  "hk_rq_size c rqsize nr_switches s =
     (let s = upd_hm (\<lambda>h. h\<lparr>hm_gcpu := int c\<rparr>) s in
      bindC (store_at c (ucast rqsize) (hm_grqsize (hm s))) (\<lambda>g.
        bindC (store_at c nr_switches (hm_switches (hm s))) (\<lambda>w.
          Inr (upd_hm (\<lambda>h. h\<lparr>hm_grqsize := g, hm_switches := w\<rparr>) s))))"

definition hk_per_pid_stats :: "tid \<Rightarrow> 'y hstate \<Rightarrow> crash + 'y hstate" where
  "hk_per_pid_stats prev s =
     (let t = ks_tasks s prev in
      if p_pid t = hm_pid (hm s)
      then Inr (upd_hm (\<lambda>h. h\<lparr>hm_tot := p_sum_exec_runtime t, hm_migration := p_nr_migrations t,
             hm_prio1 := p_prio t, hm_prio2 := p_static_prio t, hm_prio3 := p_normal_prio t,
             hm_prio4 := uint (p_rt_priority t), hm_total_time := p_sum_exec_runtime t\<rparr>) s)
      else Inr s)"

section \<open>The proc files\<close>

definition proc_readings :: "hook_mod \<Rightarrow> kmsg list" where
  "proc_readings h = [Printk ''pc value %p'' [KAddr (hm_pcvalue h)]]"

definition cpu_line :: "string \<Rightarrow> (nat \<Rightarrow> u64) \<Rightarrow> kmsg" where
  "cpu_line fmt xs = Printk fmt [KInt (sint (xs 0)), KInt (sint (xs 1)), KInt (sint (xs 2)), KInt (sint (xs 3))]"

definition proc_readings2 :: "hook_mod \<Rightarrow> kmsg list" where
  "proc_readings2 h =
     [cpu_line ''#: No of CS: cpu0 %ld cpu1 %ld cpu %ld cpu %ld'' (hm_switches h),
      cpu_line ''&: No of CS: cpu0 %ld cpu1 %ld cpu %ld cpu %ld'' (hm_sched_counter h),
      cpu_line ''*: Length of RQ: cpu0 %ld cpu1 %ld cpu2 %ld cpu3 %ld'' (hm_grqsize h),
      Printk ''@@ NO_of_migration %ld'' [KInt (sint (hm_migration h))]]"

section \<open>Loading and unloading\<close>

text \<open>What the module has in the kernel: the hook pointers and its proc entries.\<close>

record 'y module_links =
  ml_hooks :: "(hook_mod \<times> 'y) hooks"
  ml_procs :: "string list"
  ml_log :: "kmsg list"

text \<open>
  \<open>made1\<close>, \<open>made2\<close>: whether each \<open>proc_create\<close> succeeds. On its failure the module calls
  \<open>proc_remove\<close> with the null pointer it got, which does nothing.
\<close>

definition hook_init :: "bool \<Rightarrow> bool \<Rightarrow> 'y module_links \<Rightarrow> errno \<times> 'y module_links" where
  "hook_init made1 made2 l =
     (if \<not> made1 then (- 1, l\<lparr>ml_log := Printk ''ERROR : failed to create /proc/my_proc_file'' [] # ml_log l\<rparr>)
      else let l = l\<lparr>ml_procs := ''my_proc_file'' # ml_procs l\<rparr> in
        if \<not> made2 then (- 1, l\<lparr>ml_log := Printk ''ERROR : failed to create /proc/my_proc_file2'' [] # ml_log l\<rparr>)
        else let l = l\<lparr>ml_procs := ''my_proc_file2'' # ml_procs l\<rparr>;
                 l = l\<lparr>ml_log := Printk ''proc entry created'' [] # ml_log l\<rparr>;
                 l = l\<lparr>ml_hooks := (ml_hooks l)\<lparr>hook_context_counter := Some hk_context_counter,
                        hook_rq_size := Some hk_rq_size, hook_per_pid_stats := Some hk_per_pid_stats\<rparr>\<rparr>;
                 l = l\<lparr>ml_log := Printk ''inside the %s function'' [KStr ''init''] # ml_log l\<rparr>
             in (0, l))"

definition hook_cleanup :: "'y module_links \<Rightarrow> 'y module_links" where
  "hook_cleanup l =
     (let l = l\<lparr>ml_hooks := (ml_hooks l)\<lparr>hook_rq_size := None, hook_context_counter := None,
                  hook_per_pid_stats := None\<rparr>\<rparr>;
          l = l\<lparr>ml_procs := remove1 ''my_proc_file'' (ml_procs l)\<rparr>;
          l = l\<lparr>ml_procs := remove1 ''my_proc_file2'' (ml_procs l)\<rparr>
      in l\<lparr>ml_log := Printk ''lkm removed'' [] # ml_log l\<rparr>)"

text \<open>The hooks of a kernel with the module loaded.\<close>

definition hk_hooks :: "(hook_mod \<times> 'y) hooks" where
  "hk_hooks = \<lparr>hook_context_counter = Some hk_context_counter, hook_rq_size = Some hk_rq_size,
               hook_per_pid_stats = Some hk_per_pid_stats, hook_current_pc = None\<rparr>"

definition unlinked :: "'y module_links" where
  "unlinked = \<lparr>ml_hooks = no_hooks, ml_procs = [], ml_log = []\<rparr>"

text \<open>Loading installs the three hooks and both files, and unloading takes away exactly what loading
  put in; a load that fails at the second file leaves the first behind with no module.\<close>

theorem hook_module_load_unload:
  "fst (hook_init True True unlinked) = 0 \<and>
   ml_hooks (snd (hook_init True True unlinked)) = hk_hooks \<and>
   ml_hooks (hook_cleanup (snd (hook_init True True unlinked))) = no_hooks \<and>
   ml_procs (hook_cleanup (snd (hook_init True True unlinked))) = [] \<and>
   (\<forall>m. fst (hook_init False m unlinked) = - 1 \<and> ml_procs (snd (hook_init False m unlinked)) = []) \<and>
   fst (hook_init True False unlinked) = - 1 \<and>
   ml_procs (snd (hook_init True False unlinked)) = [''my_proc_file''] \<and>
   ml_hooks (snd (hook_init True False unlinked)) = no_hooks"
  by (simp add: hook_init_def hook_cleanup_def unlinked_def no_hooks_def hk_hooks_def Let_def)

section \<open>The module keeps the scheduler's contract, on four CPUs\<close>

lemma upd_hm_core: "same_core a (upd_hm f s) \<longleftrightarrow> same_core a s"
  by (simp add: upd_hm_def core_frame)

interpretation hk: sched_hooks hk_hooks "{..<4}"
  by unfold_locales
    (auto simp: hk_hooks_def hk_context_counter_def hk_rq_size_def hk_per_pid_stats_def bump_def
      store_at_def Let_def upd_hm_core)

text \<open>Every task that was switched out was so on one of the first \<open>n\<close> CPUs.\<close>

definition frames_within :: "nat \<Rightarrow> 'x kstate \<Rightarrow> bool" where
  "frames_within n s \<longleftrightarrow> (\<forall>p q d. ks_frames s p = Some (q, d) \<longrightarrow> d < n)"

text \<open>C38 With the module loaded, on at most four CPUs, one round of the scheduler accounts for its
  switch exactly: the CPU's switch count and one of the outgoing task's two counters go up by one
  if another task runs next, by nothing if not, voluntary counting when the task blocked; no other
  counter moves, and no hook crashes.\<close>

theorem schedule_round_with_module:
  assumes "env_ok E" "switch_ok A" "ks_cpu s < 4"
    and "frames_within 4 s"
    and "schedule_round E hk_hooks A s = Some r"
  shows "case r of Inl e \<Rightarrow> e = Bug \<or> e = NullDeref | Inr (again, t) \<Rightarrow> accounted s t"
proof (rule hk.schedule_round_accounts [OF assms(1,2) _ _ assms(5)])
  show "ks_cpu s \<in> {..<4}" using assms(3) by simp
  show "\<And>p q d. ks_frames s p = Some (q, d) \<Longrightarrow> d \<in> {..<4}"
    using assms(4) by (auto simp: frames_within_def)
qed

text \<open>C36 A context switch keeps the account of memory references: a kernel thread switched in holds one
  reference to the memory it borrows, one switched out has returned its own, the delayed drop is
  done, and no other count moves.\<close>

theorem context_switch_references:
  assumes "env_ok E" "switch_ok A" "frames_within 4 s"
    and "context_switch E hk_hooks A c prev nxt s = Inr t" "prev \<noteq> nxt" "ks_cpu s = c"
    and "p_active_mm (ks_tasks s prev) = Some m" "rq_prev_mm (ks_rqs s c) = None"
  shows "mem_switched prev nxt m s t"
proof (rule hk.context_switch_memory [OF assms(1,2) _ assms(4-8)])
  show "\<And>p q d. ks_frames s p = Some (q, d) \<Longrightarrow> d \<in> {..<4}"
    using assms(3) by (auto simp: frames_within_def)
qed

section \<open>What the counters count\<close>

text \<open>The effect of the counting hook called for \<open>prev\<close> first, as \<open>context_switch\<close> does.\<close>

definition counted :: "tid \<Rightarrow> cpu \<Rightarrow> 'y hstate \<Rightarrow> 'y hstate" where
  "counted out c s =
     upd_hm (\<lambda>h. let h = h\<lparr>hm_sched_counter := (hm_sched_counter h)(c := hm_sched_counter h c + 1)\<rparr> in
        if p_pid (ks_tasks s out) = hm_pid h
        then h\<lparr>hm_per_pid_switch_counter :=
               (hm_per_pid_switch_counter h)(c := hm_per_pid_switch_counter h c + 1), hm_curr_cpu := int c\<rparr>
        else h) s"

lemma hk_context_counter_counted:
  "d < 4 \<Longrightarrow> hk_context_counter out into d n s = Inr (counted out d s)"
  by (simp add: hk_context_counter_def bump_def counted_def upd_hm_def Let_def)


section \<open>The instance of the witnesses\<close>

text \<open>Classes that keep nothing and always pick task 2; the module watches process 1.\<close>

definition flat_class :: "'x class_ops" where
  "flat_class =
     \<lparr>co_enqueue = (\<lambda>_ _ _ s. s), co_dequeue = (\<lambda>_ _ _ s. s), co_check_preempt = (\<lambda>_ _ _ s. s),
      co_pick_next = (\<lambda>_ _ s. (Picked 2, s)), co_put_prev = (\<lambda>_ _ s. s), co_set_curr = (\<lambda>_ s. s),
      co_select_rq = (\<lambda>_ c _ _ _. c), co_task_tick = (\<lambda>_ _ s. s), co_update_curr = (\<lambda>_ s. s),
      co_yield = (\<lambda>_ s. s), co_prio_changed = (\<lambda>_ _ _ s. s), co_switched_to = (\<lambda>_ _ s. s),
      co_switched_from = None, co_migrate_rq = None, co_task_waking = None, co_task_woken = None,
      co_task_fork = None, co_task_dead = None, co_post_schedule = None, co_set_allowed = None\<rparr>"

definition flat_env :: "'x env" where
  "flat_env =
     \<lparr>cls = (\<lambda>_. flat_class),
      sched_clock_cpu = (\<lambda>_ _. 1000), irq_time_read = None, paravirt_steal = None,
      nontask_capacity = False, sched_rt_avg_update = (\<lambda>_ _ s. s),
      sched_info_queued = (\<lambda>_ _ s. s), sched_info_dequeued = (\<lambda>_ _ s. s),
      prio_to_weight = (\<lambda>_. 1024), prio_to_wmult = (\<lambda>_. 4194304), scale_load = (\<lambda>w. w),
      wq_worker_waking_up = (\<lambda>_ _ s. s), wq_worker_sleeping = (\<lambda>_ _ s. (None, s)),
      signal_pending_state = (\<lambda>_ _ _. False), feat_ttwu_queue = False, feat_hrtick = False,
      sd_llc_id = (\<lambda>_. 0), hrtick_clear = (\<lambda>_ s. s), capable_sys_nice = False,
      task_rlimit_nice = (\<lambda>_. 0), task_rlimit_rtprio = (\<lambda>_. 0),
      security_setnice = (\<lambda>_ _. 0), security_setscheduler = (\<lambda>_. 0),
      rt_mutex_check_prio = (\<lambda>_ _ _. False), rt_mutex_top_task = (\<lambda>_ _. None),
      rt_mutex_adjust_pi = (\<lambda>_ s. s), dl_entity_preempt = (\<lambda>_ _. False),
      rt_group_runtime_zero = (\<lambda>_ _. False), dl_bandwidth_enabled = True,
      cpu_to_node = (\<lambda>_. Some 0), cpumask_of_node = (\<lambda>_. [0, 1]), nr_cpu_ids = 2,
      cpuset_fallback = (\<lambda>_ s. s)\<rparr>"

definition flat_switch :: "'x switch_ops" where
  "flat_switch = \<lparr>sw_info = (\<lambda>_ _ _ s. s), sw_notifiers = (\<lambda>_. []), sw_reap = (\<lambda>_ s. s), sw_pc = 0\<rparr>"

definition hooked_state :: "unit hstate" where
  "hooked_state =
     \<lparr>ks_tasks = ks_tasks demo_state, ks_rqs = ks_rqs demo_state, ks_rds = ks_rds demo_state, ks_cpu = 0,
      ks_preempt_count = 0, ks_preempt_need_resched = False, ks_online = {0, 1}, ks_active = {0, 1},
      ks_possible = {0, 1}, ks_frames = ks_frames demo_state, ks_mm_count = ks_mm_count demo_state,
      ks_ipis = [], ks_warnings = [], ks_ext = (hook_mod_zero 1, ())\<rparr>"

lemma flat_env_ok: "env_ok flat_env"
proof -
  have "class_ok flat_class"
    by (simp add: class_ok_def flat_class_def quiet_opt_def quiet_def)
  moreover have "\<exists>m. same_core (upd_task p (\<lambda>t. t\<lparr>p_cpus_allowed := m\<rparr>) s) s" for p and s :: "'a kstate"
    by (intro exI [of _ "p_cpus_allowed (ks_tasks s p)"]) (simp add: same_core_def)
  ultimately show ?thesis
    by (simp add: env_ok_def flat_env_def quiet_def)
qed

lemma flat_switch_ok: "switch_ok flat_switch"
  by (simp add: switch_ok_def flat_switch_def quiet_def)

lemma hooked_frames: "frames_within 4 hooked_state"
  by (simp add: frames_within_def hooked_state_def demo_state_def)

lemma flat_pick: "schedule_pick flat_env c prev s \<noteq> None"
  by (simp add: schedule_pick_def Let_def pick_next_task_def pick_again.simps all_classes_def
      flat_env_def flat_class_def)

lemma flat_round: "\<exists>r. schedule_round flat_env H A s = Some r"
  using flat_pick by (auto simp: schedule_round_def Let_def split: sum.split prod.split)

theorem schedule_round_with_module_witness:
  "\<exists>r. schedule_round flat_env hk_hooks flat_switch hooked_state = Some r \<and>
     (case r of Inl e \<Rightarrow> e = Bug \<or> e = NullDeref | Inr (again, t) \<Rightarrow> accounted hooked_state t)"
proof -
  obtain r where r: "schedule_round flat_env hk_hooks flat_switch hooked_state = Some r"
    using flat_round by blast
  have "ks_cpu hooked_state < 4"
    by (simp add: hooked_state_def)
  from schedule_round_with_module [OF flat_env_ok flat_switch_ok this hooked_frames r] r
  show ?thesis by blast
qed

lemma hooked_memory:
  "\<exists>w. switch_memory 0 1 2 (prepare_task_switch flat_switch 0 1 2 hooked_state) = Inr w \<and>
     ks_frames w 2 = Some (1, 0)"
  by (simp add: switch_memory_def prepare_task_switch_def flat_switch_def hooked_state_def
      demo_state_def demo_tsk_def fire_sched_out_preempt_notifiers_def)


theorem context_switch_references_witness:
  "\<exists>t. context_switch flat_env hk_hooks flat_switch 0 1 2 hooked_state = Inr t \<and>
     mem_switched 1 2 1 hooked_state t"
proof -
  obtain w where "switch_memory 0 1 2 (prepare_task_switch flat_switch 0 1 2 hooked_state) = Inr w"
    "ks_frames w 2 = Some (1, 0)"
    using hooked_memory by blast
  then have t: "\<exists>t. context_switch flat_env hk_hooks flat_switch 0 1 2 hooked_state = Inr t"
    by (simp add: context_switch_def context_switch_resume_def Let_def call_hook_def hk_hooks_def
        hk_context_counter_counted)
  have "ks_cpu hooked_state = 0" "p_active_mm (ks_tasks hooked_state 1) = Some 1"
    "rq_prev_mm (ks_rqs hooked_state 0) = None"
    by (simp_all add: hooked_state_def demo_state_def demo_tsk_def demo_rq_def)
  then show ?thesis
    using t context_switch_references [OF flat_env_ok flat_switch_ok hooked_frames, of 0 1 2 _ 1]
    by auto
qed

end
