(* ===== verification/Sched_Policy.thy ===== *)
theory Sched_Policy
  imports Sched_Fork
begin

text \<open>
  Scheduling policies in \<^verbatim>\<open>core.c\<close>: the parameters a policy sets, the validity of deadline
  parameters, \<open>__sched_setscheduler\<close> with its permission checks, and the system calls around
  it. \<open>find_task\<close> is the lookup of a process id; user memory is what a copy finds there.
\<close>

section \<open>Parameters\<close>

abbreviation (input) SETPARAM_POLICY :: int where "SETPARAM_POLICY \<equiv> - 1"
abbreviation (input) SCHED_RESET_ON_FORK :: int where "SCHED_RESET_ON_FORK \<equiv> 0x40000000"
abbreviation (input) SCHED_FLAG_RESET_ON_FORK :: u64 where "SCHED_FLAG_RESET_ON_FORK \<equiv> 1"
abbreviation (input) MSB :: u64 where "MSB \<equiv> 0x8000000000000000"

definition find_process_by_pid :: "(int \<Rightarrow> tid option) \<Rightarrow> int \<Rightarrow> 'x kstate \<Rightarrow> tid option" where
  "find_process_by_pid find_task pid s = (if pid \<noteq> 0 then find_task pid else Some (current_task s))"

definition setparam_dl :: "sched_attr \<Rightarrow> task_struct \<Rightarrow> task_struct" where     \<comment> \<open>\<open>__setparam_dl\<close>\<close>
  "setparam_dl attr t =
     (let period = (if sa_period attr \<noteq> 0 then sa_period attr else sa_deadline attr) in
      t\<lparr>p_dl := (p_dl t)\<lparr>dl_runtime := sa_runtime attr, dl_deadline := sa_deadline attr, dl_period := period,
            dl_flags := sa_flags attr, dl_bw := to_ratio period (sa_runtime attr),
            dl_throttled := False, dl_new := True, dl_yielded := False\<rparr>\<rparr>)"

definition setscheduler_params :: "'x env \<Rightarrow> tid \<Rightarrow> sched_attr \<Rightarrow> 'x kstate \<Rightarrow> 'x kstate" where
  "setscheduler_params E p attr s =
     (let policy = (if sa_policy attr = SETPARAM_POLICY then p_policy (ks_tasks s p) else sa_policy attr);
          s = upd_task p (\<lambda>t. t\<lparr>p_policy := policy\<rparr>) s;
          s = (if dl_policy policy then upd_task p (setparam_dl attr) s
               else if fair_policy policy then upd_task p (\<lambda>t. t\<lparr>p_static_prio := NICE_TO_PRIO (sa_nice attr)\<rparr>) s
               else s);
          s = upd_task p (\<lambda>t. t\<lparr>p_rt_priority := sa_priority attr\<rparr>) s;
          s = upd_task p (\<lambda>t. t\<lparr>p_normal_prio := normal_prio t\<rparr>) s
      in set_load_weight E p s)"

definition setscheduler :: "'x env \<Rightarrow> tid \<Rightarrow> sched_attr \<Rightarrow> 'x kstate \<Rightarrow> 'x kstate" where
  "setscheduler E p attr s =
     (let s = setscheduler_params E p attr s;
          s = upd_task p (\<lambda>t. t\<lparr>p_prio := normal_prio t\<rparr>) s
      in if dl_prio (p_prio (ks_tasks s p)) then upd_task p (\<lambda>t. t\<lparr>p_class := Dl_class\<rparr>) s
         else if rt_prio (p_prio (ks_tasks s p)) then upd_task p (\<lambda>t. t\<lparr>p_class := Rt_class\<rparr>) s
         else upd_task p (\<lambda>t. t\<lparr>p_class := Fair_class\<rparr>) s)"

definition getparam_dl :: "task_struct \<Rightarrow> sched_attr \<Rightarrow> sched_attr" where     \<comment> \<open>\<open>__getparam_dl\<close>\<close>
  "getparam_dl t attr =
     attr\<lparr>sa_priority := p_rt_priority t, sa_runtime := dl_runtime (p_dl t),
          sa_deadline := dl_deadline (p_dl t), sa_period := dl_period (p_dl t),
          sa_flags := dl_flags (p_dl t)\<rparr>"

definition checkparam_dl :: "sched_attr \<Rightarrow> bool" where     \<comment> \<open>\<open>__checkparam_dl\<close>; \<open>DL_SCALE\<close> is 10\<close>
  "checkparam_dl attr =
     (if sa_deadline attr = 0 then False
      else if sa_runtime attr < push_bit 10 1 then False
      else if sa_deadline attr AND MSB \<noteq> 0 \<or> sa_period attr AND MSB \<noteq> 0 then False
      else if (sa_period attr \<noteq> 0 \<and> sa_period attr < sa_deadline attr) \<or> sa_deadline attr < sa_runtime attr
      then False
      else True)"

definition check_same_owner :: "'x kstate \<Rightarrow> tid \<Rightarrow> bool" where
  "check_same_owner s p \<longleftrightarrow>
     (let euid = p_euid (ks_tasks s (current_task s)) in
      euid = p_euid (ks_tasks s p) \<or> euid = p_uid (ks_tasks s p))"

section \<open>Setting the scheduler\<close>

text \<open>
  From \<open>recheck\<close> to the lock: what the request is refused for, else the policy asked for, the
  policy the task was found with (\<open>- 1\<close> if the request names one) and the fork flag.
\<close>

definition setscheduler_check ::
  "'x env \<Rightarrow> tid \<Rightarrow> sched_attr \<Rightarrow> bool \<Rightarrow> int \<Rightarrow> 'x kstate \<Rightarrow> errno + int \<times> int \<times> bool"
where
  "setscheduler_check E p attr user policy s =
     (let t = ks_tasks s p;
          named = \<not> policy < 0;
          reset_on_fork = (if named then sa_flags attr AND SCHED_FLAG_RESET_ON_FORK \<noteq> 0 else p_reset_on_fork t);
          oldpolicy = (if named then - 1 else p_policy t);
          policy = (if named then policy else p_policy t)
      in if named \<and> policy \<noteq> SCHED_DEADLINE \<and> policy \<noteq> SCHED_FIFO \<and> policy \<noteq> SCHED_RR \<and>
              policy \<noteq> SCHED_NORMAL \<and> policy \<noteq> SCHED_BATCH \<and> policy \<noteq> SCHED_IDLE
         then Inl (- EINVAL)
         else if sa_flags attr AND NOT SCHED_FLAG_RESET_ON_FORK \<noteq> 0 then Inl (- EINVAL)
         else if (p_mm t \<noteq> None \<and> sa_priority attr > 99) \<or> (p_mm t = None \<and> sa_priority attr > 99)
         then Inl (- EINVAL)
         else if (dl_policy policy \<and> \<not> checkparam_dl attr) \<or> rt_policy policy \<noteq> (sa_priority attr \<noteq> 0)
         then Inl (- EINVAL)
         else if user \<and> \<not> capable_sys_nice E \<and> fair_policy policy \<and>
              sa_nice attr < task_nice s p \<and> \<not> can_nice E p (sa_nice attr)
         then Inl (- EPERM)
         else if user \<and> \<not> capable_sys_nice E \<and> rt_policy policy \<and>
              policy \<noteq> p_policy t \<and> task_rlimit_rtprio E p = 0
         then Inl (- EPERM)
         else if user \<and> \<not> capable_sys_nice E \<and> rt_policy policy \<and>
              sa_priority attr > p_rt_priority t \<and> ucast (sa_priority attr) > task_rlimit_rtprio E p
         then Inl (- EPERM)
         else if user \<and> \<not> capable_sys_nice E \<and> dl_policy policy then Inl (- EPERM)
         else if user \<and> \<not> capable_sys_nice E \<and> p_policy t = SCHED_IDLE \<and> policy \<noteq> SCHED_IDLE \<and>
              \<not> can_nice E p (task_nice s p)
         then Inl (- EPERM)
         else if user \<and> \<not> capable_sys_nice E \<and> \<not> check_same_owner s p then Inl (- EPERM)
         else if user \<and> \<not> capable_sys_nice E \<and> p_reset_on_fork t \<and> \<not> reset_on_fork then Inl (- EPERM)
         else if user \<and> security_setscheduler E p \<noteq> 0 then Inl (security_setscheduler E p)
         else Inr (policy, oldpolicy, reset_on_fork))"

text \<open>The change itself, once everything is admitted.\<close>

definition setscheduler_apply ::
  "'x env \<Rightarrow> tid \<Rightarrow> sched_attr \<Rightarrow> bool \<Rightarrow> 'x kstate \<Rightarrow> 'x kstate"
where
  "setscheduler_apply E p attr reset_on_fork s =
     (let newprio = (if dl_policy (sa_policy attr) then MAX_DL_PRIO - 1
                     else sint (99 - sa_priority attr));
          s = upd_task p (\<lambda>t. t\<lparr>p_reset_on_fork := reset_on_fork\<rparr>) s;
          oldprio = p_prio (ks_tasks s p)
      in if rt_mutex_check_prio E p newprio s then setscheduler_params E p attr s
         else
           let c = task_cpu s p;
               queued = task_on_rq_queued s p;
               running = task_current s c p;
               s = do_if queued (dequeue_task E c p 0) s;
               s = do_if running (\<lambda>s. co_put_prev (class_of E s p) c p s) s;
               prev_class = p_class (ks_tasks s p);
               s = setscheduler E p attr s;
               s = do_if running (\<lambda>s. co_set_curr (class_of E s p) c s) s;
               s = do_if queued (\<lambda>s. enqueue_task E c p
                     (if oldprio \<le> p_prio (ks_tasks s p) then ENQUEUE_HEAD else 0) s) s;
               s = check_class_changed E c p prev_class oldprio s
           in rt_mutex_adjust_pi E p s)"

text \<open>Under the runqueue lock; \<open>None\<close> is the way back to \<open>recheck\<close>.\<close>

definition setscheduler_locked ::
  "'x env \<Rightarrow> tid \<Rightarrow> sched_attr \<Rightarrow> bool \<Rightarrow> int \<Rightarrow> int \<Rightarrow> bool \<Rightarrow> 'x kstate \<Rightarrow> (errno \<times> 'x kstate) option"
where
  "setscheduler_locked E p attr user policy oldpolicy reset_on_fork s =
     (let t = ks_tasks s p; c = task_cpu s p; r = ks_rqs s c; rd = ks_rds s (rq_rd r) in
      if rq_stop r = Some p then Some (- EINVAL, s)
      else if policy = p_policy t \<and>
           \<not> (fair_policy policy \<and> sa_nice attr \<noteq> task_nice s p) \<and>
           \<not> (rt_policy policy \<and> sa_priority attr \<noteq> p_rt_priority t) \<and> \<not> dl_policy policy
      then Some (0, upd_task p (\<lambda>t. t\<lparr>p_reset_on_fork := reset_on_fork\<rparr>) s)
      else if user \<and> rt_policy policy \<and> rt_group_runtime_zero E p s then Some (- EPERM, s)
      else if user \<and> dl_bandwidth_enabled E \<and> dl_policy policy \<and>
           (\<not> rd_span rd \<subseteq> p_cpus_allowed t \<or> db_bw (rd_dl_bw rd) = 0)
      then Some (- EPERM, s)
      else if oldpolicy \<noteq> - 1 \<and> oldpolicy \<noteq> p_policy t then None
      else
        let (err, s) = (if dl_policy policy \<or> dl_prio (p_prio t) then dl_overflow E p policy attr s else (0, s))
        in if err \<noteq> 0 then Some (- EBUSY, s)
           else Some (0, setscheduler_apply E p attr reset_on_fork s))"

text \<open>
  \<open>__sched_setscheduler\<close>: \<open>others\<close> is what other CPUs do between each unlocked check and the
  lock that follows it; the rechecks go on as long as the list lasts, \<open>None\<close> if it is used up.
\<close>

fun setscheduler_attempts ::
  "'x env \<Rightarrow> tid \<Rightarrow> sched_attr \<Rightarrow> bool \<Rightarrow> int \<Rightarrow> ('x kstate \<Rightarrow> 'x kstate) list \<Rightarrow> 'x kstate \<Rightarrow>
     (errno \<times> 'x kstate) option"
where
  "setscheduler_attempts E p attr user policy [] s = None"
| "setscheduler_attempts E p attr user policy (f # fs) s =
     (case setscheduler_check E p attr user policy s of
        Inl err \<Rightarrow> Some (err, s)
      | Inr (pol, oldpol, reset) \<Rightarrow>
          (case setscheduler_locked E p attr user pol oldpol reset (f s) of
             Some r \<Rightarrow> Some r
           | None \<Rightarrow> setscheduler_attempts E p attr user (- 1) fs (f s)))"

definition sched_setscheduler_attr ::      \<comment> \<open>\<open>__sched_setscheduler\<close>\<close>
  "'x env \<Rightarrow> ('x kstate \<Rightarrow> 'x kstate) list \<Rightarrow> bool \<Rightarrow> tid \<Rightarrow> sched_attr \<Rightarrow> bool \<Rightarrow> 'x kstate \<Rightarrow>
     (crash + errno \<times> 'x kstate) option"
where
  "sched_setscheduler_attr E others in_interrupt p attr user s =
     (if in_interrupt then Some (Inl Bug)
      else map_option Inr (setscheduler_attempts E p attr user (sa_policy attr) others s))"

definition sched_setscheduler_param ::     \<comment> \<open>\<open>_sched_setscheduler\<close>\<close>
  "'x env \<Rightarrow> ('x kstate \<Rightarrow> 'x kstate) list \<Rightarrow> bool \<Rightarrow> tid \<Rightarrow> int \<Rightarrow> u32 \<Rightarrow> bool \<Rightarrow> 'x kstate \<Rightarrow>
     (crash + errno \<times> 'x kstate) option"
where
  "sched_setscheduler_param E others irq p policy prio check s =
     (let attr = \<lparr>sa_size = 0, sa_policy = policy, sa_flags = 0, sa_nice = task_nice s p, sa_priority = prio,
                  sa_runtime = 0, sa_deadline = 0, sa_period = 0\<rparr>;
          attr = (if policy \<noteq> SETPARAM_POLICY \<and> policy AND SCHED_RESET_ON_FORK \<noteq> 0
                  then attr\<lparr>sa_flags := SCHED_FLAG_RESET_ON_FORK,
                            sa_policy := policy AND NOT SCHED_RESET_ON_FORK\<rparr>
                  else attr)
      in sched_setscheduler_attr E others irq p attr check s)"

definition sched_setscheduler where
  "sched_setscheduler E others irq p policy prio s = sched_setscheduler_param E others irq p policy prio True s"

definition sched_setattr where
  "sched_setattr E others irq p attr s = sched_setscheduler_attr E others irq p attr True s"

definition sched_setscheduler_nocheck where
  "sched_setscheduler_nocheck E others irq p policy prio s =
     sched_setscheduler_param E others irq p policy prio False s"

section \<open>System calls\<close>

text \<open>\<open>param\<close>: \<open>None\<close> for a null pointer, \<open>Some None\<close> for one that faults.\<close>

definition do_sched_setscheduler ::
  "'x env \<Rightarrow> (int \<Rightarrow> tid option) \<Rightarrow> ('x kstate \<Rightarrow> 'x kstate) list \<Rightarrow> int \<Rightarrow> int \<Rightarrow> u32 option option \<Rightarrow>
     'x kstate \<Rightarrow> (crash + errno \<times> 'x kstate) option"
where
  "do_sched_setscheduler E find_task others pid policy param s =
     (if param = None \<or> pid < 0 then Some (Inr (- EINVAL, s))
      else case the param of
        None \<Rightarrow> Some (Inr (- EFAULT, s))
      | Some prio \<Rightarrow>
          (case find_process_by_pid find_task pid s of
             None \<Rightarrow> Some (Inr (- ESRCH, s))
           | Some p \<Rightarrow> sched_setscheduler E others False p policy prio s))"

definition sys_sched_setscheduler where
  "sys_sched_setscheduler E find_task others pid policy param s =
     (if policy < 0 then Some (Inr (- EINVAL, s))
      else do_sched_setscheduler E find_task others pid policy param s)"

definition sys_sched_setparam where
  "sys_sched_setparam E find_task others pid param s =
     do_sched_setscheduler E find_task others pid SETPARAM_POLICY param s"

text \<open>
  A user's \<open>struct sched_attr\<close>: the \<open>size\<close> field, the bytes past the 48 the kernel knows, and
  the fields; \<open>None\<close> where the access faults.
\<close>

record user_attr =
  ua_access :: bool
  ua_size :: "u32 option"
  ua_tail :: "nat \<Rightarrow> 8 word option"
  ua_body :: "sched_attr option"

fun tail_check :: "(nat \<Rightarrow> 8 word option) \<Rightarrow> nat \<Rightarrow> nat \<Rightarrow> errno" where
  "tail_check tail i 0 = 0"
| "tail_check tail i (Suc n) =
     (case tail i of None \<Rightarrow> - EFAULT
      | Some b \<Rightarrow> if b \<noteq> 0 then - E2BIG else tail_check tail (Suc i) n)"

text \<open>The result is the error, or the attributes; beside it the size written back to the user, if any.\<close>

definition sched_copy_attr :: "user_attr \<Rightarrow> (errno + sched_attr) \<times> u32 option" where
  "sched_copy_attr u =
     (if \<not> ua_access u then (Inl (- EFAULT), None)
      else (case ua_size u of
        None \<Rightarrow> (Inl (- EFAULT), None)
      | Some usize \<Rightarrow>
          if usize > 4096 then (Inl (- E2BIG), Some 48)
          else
            let usize = (if usize = 0 then 48 else usize) in
            if usize < 48 then (Inl (- E2BIG), Some 48)
            else
              let ret = (if usize > 48 then tail_check (ua_tail u) 0 (unat usize - 48) else 0) in
              if ret = - E2BIG then (Inl (- E2BIG), Some 48)
              else if ret \<noteq> 0 then (Inl ret, None)
              else (case ua_body u of
                None \<Rightarrow> (Inl (- EFAULT), None)
              | Some a \<Rightarrow> (Inr (a\<lparr>sa_nice := max MIN_NICE (min MAX_NICE (sa_nice a))\<rparr>), None))))"

definition sys_sched_setattr ::
  "'x env \<Rightarrow> (int \<Rightarrow> tid option) \<Rightarrow> ('x kstate \<Rightarrow> 'x kstate) list \<Rightarrow> int \<Rightarrow> user_attr option \<Rightarrow> u32 \<Rightarrow>
     'x kstate \<Rightarrow> (crash + errno \<times> 'x kstate) option"
where
  "sys_sched_setattr E find_task others pid uattr flags s =
     (if uattr = None \<or> pid < 0 \<or> flags \<noteq> 0 then Some (Inr (- EINVAL, s))
      else case fst (sched_copy_attr (the uattr)) of
        Inl err \<Rightarrow> Some (Inr (err, s))
      | Inr attr \<Rightarrow>
          if sa_policy attr < 0 then Some (Inr (- EINVAL, s))
          else case find_process_by_pid find_task pid s of
            None \<Rightarrow> Some (Inr (- ESRCH, s))
          | Some p \<Rightarrow> sched_setattr E others False p attr s)"

text \<open>The read-only calls; \<open>sec p\<close> is \<open>security_task_getscheduler(p)\<close>.\<close>

definition sys_sched_getscheduler ::
  "(int \<Rightarrow> tid option) \<Rightarrow> (tid \<Rightarrow> errno) \<Rightarrow> int \<Rightarrow> 'x kstate \<Rightarrow> int"
where
  "sys_sched_getscheduler find_task sec pid s =
     (if pid < 0 then - EINVAL
      else case find_process_by_pid find_task pid s of
        None \<Rightarrow> - ESRCH
      | Some p \<Rightarrow> if sec p \<noteq> 0 then sec p
                  else p_policy (ks_tasks s p) OR
                       (if p_reset_on_fork (ks_tasks s p) then SCHED_RESET_ON_FORK else 0))"

definition sys_sched_getparam ::
  "(int \<Rightarrow> tid option) \<Rightarrow> (tid \<Rightarrow> errno) \<Rightarrow> int \<Rightarrow> bool \<Rightarrow> bool \<Rightarrow> 'x kstate \<Rightarrow> errno + u32"
where
  "sys_sched_getparam find_task sec pid null_param copy_ok s =
     (if null_param \<or> pid < 0 then Inl (- EINVAL)
      else case find_process_by_pid find_task pid s of
        None \<Rightarrow> Inl (- ESRCH)
      | Some p \<Rightarrow>
          if sec p \<noteq> 0 then Inl (sec p)
          else let prio = (if task_has_rt_policy s p then p_rt_priority (ks_tasks s p) else 0)
               in if copy_ok then Inr prio else Inl (- EFAULT))"

text \<open>The attributes \<open>sched_getattr\<close> reads off a task.\<close>

definition read_task_attr :: "'x kstate \<Rightarrow> tid \<Rightarrow> sched_attr" where
  "read_task_attr s p =
     (let t = ks_tasks s p;
          attr = \<lparr>sa_size = 48, sa_policy = p_policy t,
                  sa_flags = (if p_reset_on_fork t then SCHED_FLAG_RESET_ON_FORK else 0),
                  sa_nice = 0, sa_priority = 0, sa_runtime = 0, sa_deadline = 0, sa_period = 0\<rparr>
      in if dl_policy (p_policy t) then getparam_dl t attr
         else if rt_policy (p_policy t) then attr\<lparr>sa_priority := p_rt_priority t\<rparr>
         else attr\<lparr>sa_nice := task_nice s p\<rparr>)"

text \<open>\<open>copy_ok\<close>: \<open>sched_read_attr\<close> can write the structure; the size is at least the known one there.\<close>

definition sys_sched_getattr ::
  "(int \<Rightarrow> tid option) \<Rightarrow> (tid \<Rightarrow> errno) \<Rightarrow> int \<Rightarrow> bool \<Rightarrow> bool \<Rightarrow> u32 \<Rightarrow> u32 \<Rightarrow> 'x kstate \<Rightarrow> errno + sched_attr"
where
  "sys_sched_getattr find_task sec pid null_attr copy_ok usize flags s =
     (if null_attr \<or> pid < 0 \<or> usize > 4096 \<or> usize < 48 \<or> flags \<noteq> 0 then Inl (- EINVAL)
      else case find_process_by_pid find_task pid s of
        None \<Rightarrow> Inl (- ESRCH)
      | Some p \<Rightarrow>
          if sec p \<noteq> 0 then Inl (sec p)
          else if copy_ok then Inr (read_task_attr s p) else Inl (- EFAULT))"

definition sys_sched_get_priority_max :: "int \<Rightarrow> int" where
  "sys_sched_get_priority_max policy =
     (if policy = SCHED_FIFO \<or> policy = SCHED_RR then 99
      else if policy = SCHED_DEADLINE \<or> policy = SCHED_NORMAL \<or> policy = SCHED_BATCH \<or> policy = SCHED_IDLE
      then 0 else - EINVAL)"

definition sys_sched_get_priority_min :: "int \<Rightarrow> int" where
  "sys_sched_get_priority_min policy =
     (if policy = SCHED_FIFO \<or> policy = SCHED_RR then 1
      else if policy = SCHED_DEADLINE \<or> policy = SCHED_NORMAL \<or> policy = SCHED_BATCH \<or> policy = SCHED_IDLE
      then 0 else - EINVAL)"

text \<open>\<open>interval\<close>: the class's \<open>get_rr_interval\<close>, in jiffies, if it has one.\<close>

definition sys_sched_rr_get_interval ::
  "(int \<Rightarrow> tid option) \<Rightarrow> (tid \<Rightarrow> errno) \<Rightarrow> (sched_class \<Rightarrow> (cpu \<Rightarrow> tid \<Rightarrow> 'x kstate \<Rightarrow> u32) option) \<Rightarrow>
     int \<Rightarrow> bool \<Rightarrow> 'x kstate \<Rightarrow> errno + u32"
where
  "sys_sched_rr_get_interval find_task sec interval pid copy_ok s =
     (if pid < 0 then Inl (- EINVAL)
      else case find_process_by_pid find_task pid s of
        None \<Rightarrow> Inl (- ESRCH)
      | Some p \<Rightarrow>
          if sec p \<noteq> 0 then Inl (sec p)
          else let slice = (case interval (p_class (ks_tasks s p)) of
                              None \<Rightarrow> 0 | Some f \<Rightarrow> f (task_cpu s p) p s)
               in if copy_ok then Inr slice else Inl (- EFAULT))"

section \<open>Deadline parameters\<close>

text \<open>Deadline parameters that pass the check satisfy runtime at most deadline at most period, and
  below a runtime of \<open>2^44\<close> ns ask for at most one CPU.\<close>

theorem checkparam_dl_sound:
  assumes "checkparam_dl attr"
  shows "0 < sa_runtime attr \<and> sa_runtime attr \<le> sa_deadline attr \<and>
    (sa_period attr \<noteq> 0 \<longrightarrow> sa_deadline attr \<le> sa_period attr) \<and>
    (unat (sa_runtime attr) < 2 ^ 44 \<longrightarrow> unat (new_dl_share SCHED_DEADLINE attr) \<le> 2 ^ 20)"
proof -
  have le: "sa_runtime attr \<le> sa_deadline attr" "sa_period attr \<noteq> 0 \<longrightarrow> sa_deadline attr \<le> sa_period attr"
    "\<not> sa_runtime attr < 1024"
    using assms by (auto simp: checkparam_dl_def not_less split: if_splits)
  then have "0 < sa_runtime attr"
    by (simp add: word_less_nat_alt)
  moreover have "sa_runtime attr \<le> (if sa_period attr \<noteq> 0 then sa_period attr else sa_deadline attr)"
    using le by auto
  ultimately show ?thesis
    using le to_ratio_at_most_one by (simp add: new_dl_share_def dl_policy_def)
qed

theorem checkparam_dl_sound_witness:
  "unat (new_dl_share SCHED_DEADLINE demo_attr) \<le> 2 ^ 20"
  using checkparam_dl_sound [of demo_attr] by (simp add: demo_attr_def checkparam_dl_def)

text \<open>A task that asks for a whole CPU in chunks of \<open>2^44\<close> ns, almost five hours.\<close>

definition wrap_attr :: sched_attr where
  "wrap_attr = demo_attr\<lparr>sa_runtime := 0x100000000000, sa_deadline := 0x100000000000, sa_period := 0\<rparr>"

text \<open>Above that runtime the ratio wraps: parameters that take a whole CPU pass the check, count for
  nothing, and are admitted without any entry in the account, however full it is.\<close>

theorem dl_admission_wraps:
  assumes "dl_bw (p_dl (ks_tasks s p)) = 0"
  shows "checkparam_dl wrap_attr \<and> sa_runtime wrap_attr = sa_deadline wrap_attr \<and>
    dl_overflow E p SCHED_DEADLINE wrap_attr s = (0, s)"
  using assms
  by (simp add: wrap_attr_def demo_attr_def checkparam_dl_def dl_overflow_def to_ratio_def dl_policy_def Let_def)

theorem dl_admission_wraps_witness:
  "dl_overflow demo_env 2 SCHED_DEADLINE wrap_attr
     (upd_rd 0 (\<lambda>d. d\<lparr>rd_dl_bw := \<lparr>db_bw = 1, db_total_bw = 1\<rparr>\<rparr>) demo_state) =
   (0, upd_rd 0 (\<lambda>d. d\<lparr>rd_dl_bw := \<lparr>db_bw = 1, db_total_bw = 1\<rparr>\<rparr>) demo_state)"
  using dl_admission_wraps [of "upd_rd 0 (\<lambda>d. d\<lparr>rd_dl_bw := \<lparr>db_bw = 1, db_total_bw = 1\<rparr>\<rparr>) demo_state" 2 demo_env]
  by (simp add: demo_state_def demo_tsk_def)

section \<open>What a change of policy does\<close>

text \<open>The parameters, and then the whole change, as functions of the task.\<close>

definition params_task :: "'x env \<Rightarrow> sched_attr \<Rightarrow> task_struct \<Rightarrow> task_struct" where
  "params_task E attr t =
     (let policy = (if sa_policy attr = SETPARAM_POLICY then p_policy t else sa_policy attr);
          t = t\<lparr>p_policy := policy\<rparr>;
          t = (if dl_policy policy then setparam_dl attr t
               else if fair_policy policy then t\<lparr>p_static_prio := NICE_TO_PRIO (sa_nice attr)\<rparr> else t);
          t = t\<lparr>p_rt_priority := sa_priority attr\<rparr>
      in load_task E (t\<lparr>p_normal_prio := normal_prio t\<rparr>))"

lemma setscheduler_params_task: "setscheduler_params E p attr s = upd_task p (params_task E attr) s"
proof -
  let ?pol = "if sa_policy attr = SETPARAM_POLICY then p_policy (ks_tasks s p) else sa_policy attr"
  show ?thesis
    by (cases "dl_policy ?pol"; cases "fair_policy ?pol")
       (simp_all add: setscheduler_params_def params_task_def Let_def set_load_weight_task upd_task_def)
qed

definition class_task :: "task_struct \<Rightarrow> task_struct" where
  "class_task t = t\<lparr>p_prio := normal_prio t, p_class := class_for (normal_prio t)\<rparr>"

lemma setscheduler_task: "setscheduler E p attr s = upd_task p (\<lambda>t. class_task (params_task E attr t)) s"
  by (simp add: setscheduler_def Let_def setscheduler_params_task class_task_def class_for_def upd_task_def)

lemma normal_prio_cong:
  "p_policy a = p_policy b \<Longrightarrow> p_rt_priority a = p_rt_priority b \<Longrightarrow> p_static_prio a = p_static_prio b \<Longrightarrow>
     normal_prio a = normal_prio b"
  by (simp add: normal_prio_def normal_prio0_def)

lemma params_task_cong:
  "core_task a = core_task b \<Longrightarrow> core_task (params_task E attr a) = core_task (params_task E attr b)"
proof -
  assume a: "core_task a = core_task b"
  then have f: "p_policy a = p_policy b" "p_static_prio a = p_static_prio b"
    by (simp_all add: core_task_def)
  define pl where "pl = (if sa_policy attr = SETPARAM_POLICY then p_policy b else sa_policy attr)"
  have pa: "(if sa_policy attr = SETPARAM_POLICY then p_policy a else sa_policy attr) = pl"
    by (simp add: pl_def f)
  show ?thesis
    unfolding params_task_def pa pl_def [symmetric] Let_def
    using a f by (cases "dl_policy pl"; cases "fair_policy pl")
      (simp_all add: core_task_def load_task_def setparam_dl_def Let_def normal_prio_def normal_prio0_def)
qed

lemma class_task_cong:
  "core_task a = core_task b \<Longrightarrow> core_task (class_task a) = core_task (class_task b)"
  using normal_prio_cong [of a b] by (simp add: core_task_def class_task_def)

text \<open>The priority a request stands for, which a boosted task is compared with.\<close>

definition request_prio :: "sched_attr \<Rightarrow> int" where
  "request_prio attr = (if dl_policy (sa_policy attr) then MAX_DL_PRIO - 1 else sint (99 - sa_priority attr))"

text \<open>A waiter on one of the task's mutexes keeps it above that priority.\<close>

definition keeps_boost :: "'x env \<Rightarrow> tid \<Rightarrow> sched_attr \<Rightarrow> bool \<Rightarrow> 'x kstate \<Rightarrow> bool" where
  "keeps_boost E p attr reset s \<longleftrightarrow>
     rt_mutex_check_prio E p (request_prio attr) (upd_task p (\<lambda>t. t\<lparr>p_reset_on_fork := reset\<rparr>) s)"

lemma setscheduler_apply_update:
  assumes "env_ok E"
  shows "task_update p (\<lambda>t. (if keeps_boost E p attr reset s then params_task E attr (t\<lparr>p_reset_on_fork := reset\<rparr>)
      else class_task (params_task E attr (t\<lparr>p_reset_on_fork := reset\<rparr>)))) s (setscheduler_apply E p attr reset s)"
proof -
  let ?s = "upd_task p (\<lambda>t. t\<lparr>p_reset_on_fork := reset\<rparr>) s" and ?c = "task_cpu s p"
  show ?thesis
  proof (cases "keeps_boost E p attr reset s")
    case True
    then show ?thesis
      by (simp add: setscheduler_apply_def Let_def request_prio_def [symmetric] keeps_boost_def [symmetric]
          setscheduler_params_task task_update_def)
  next
    case False
    define s1 where "s1 = do_if (task_current s ?c p) (\<lambda>s. co_put_prev (class_of E s p) ?c p s)
      (do_if (task_on_rq_queued s p) (dequeue_task E ?c p 0) ?s)"
    have s1: "same_core ?s s1"
      using assms(1) by (simp add: s1_def frame core_frame)
    have "same_core (upd_task p (\<lambda>t. class_task (params_task E attr t)) ?s) (setscheduler E p attr s1)"
      unfolding setscheduler_task
      by (rule same_core_upd_cong [OF s1]) (intro class_task_cong params_task_cong)
    moreover have "same_core (setscheduler E p attr s1) (setscheduler_apply E p attr reset s)"
      using assms(1) False
      by (simp add: setscheduler_apply_def Let_def request_prio_def [symmetric] keeps_boost_def [symmetric]
          s1_def [symmetric] frame core_frame)
    ultimately show ?thesis
      using False by (simp add: task_update_def same_core_trans)
  qed
qed

section \<open>Successful requests\<close>

lemma setscheduler_check_err: "setscheduler_check E p attr user policy s = Inl e \<Longrightarrow> e \<noteq> 0"
  by (auto simp: setscheduler_check_def Let_def split: if_splits)

lemma dl_overflow_tasks: "ks_tasks (snd (dl_overflow E p policy attr s)) = ks_tasks s"
  by (simp add: dl_overflow_alt Let_def upd_dl_bw_def)

lemma setscheduler_locked_success:
  assumes "setscheduler_locked E p attr user policy old reset s = Some (0, t)"
  shows "(policy = p_policy (ks_tasks s p) \<and> \<not> dl_policy policy \<and>
      (fair_policy policy \<longrightarrow> sa_nice attr = task_nice s p) \<and>
      (rt_policy policy \<longrightarrow> sa_priority attr = p_rt_priority (ks_tasks s p)) \<and>
      t = upd_task p (\<lambda>t. t\<lparr>p_reset_on_fork := reset\<rparr>) s) \<or>
    (\<exists>u. ks_tasks u = ks_tasks s \<and> t = setscheduler_apply E p attr reset u)"
proof -
  define d where "d = (if dl_policy policy \<or> dl_prio (p_prio (ks_tasks s p)) then dl_overflow E p policy attr s else (0, s))"
  define same where "same \<longleftrightarrow> policy = p_policy (ks_tasks s p) \<and>
           \<not> (fair_policy policy \<and> sa_nice attr \<noteq> task_nice s p) \<and>
           \<not> (rt_policy policy \<and> sa_priority attr \<noteq> p_rt_priority (ks_tasks s p)) \<and> \<not> dl_policy policy"
  have d: "ks_tasks (snd d) = ks_tasks s"
    by (simp add: d_def dl_overflow_tasks)
  have step: "(if c1 then Some (- EINVAL, s) else if same then Some (0, u)
      else if c2 then Some (- EPERM, s) else if c3 then Some (- EPERM, s) else if c4 then None
      else case d of (err, v) \<Rightarrow> if err \<noteq> 0 then Some (- EBUSY, v) else Some (0, setscheduler_apply E p attr reset v))
      = Some (0, t) \<Longrightarrow> (same \<and> t = u) \<or> t = setscheduler_apply E p attr reset (snd d)" for c1 c2 c3 c4 u
    by (cases c1; cases same; cases c2; cases c3; cases c4) (auto split: prod.splits if_splits)
  have "(same \<and> t = upd_task p (\<lambda>t. t\<lparr>p_reset_on_fork := reset\<rparr>) s) \<or> t = setscheduler_apply E p attr reset (snd d)"
    by (rule step [OF assms [unfolded setscheduler_locked_def Let_def, folded d_def, folded same_def]])
  with d show ?thesis
    unfolding same_def by blast
qed

lemma if_Inl_Inr: "((if c then Inl e else x) = Inr y) \<longleftrightarrow> \<not> c \<and> x = Inr y"
  by simp

lemma setscheduler_check_success:
  assumes "setscheduler_check E p attr user policy s = Inr (pol, old, reset)"
  shows "pol = (if \<not> policy < 0 then policy else p_policy (ks_tasks s p))"
    and "reset = (if \<not> policy < 0 then sa_flags attr AND 1 \<noteq> 0 else p_reset_on_fork (ks_tasks s p))"
    and "sa_flags attr AND NOT 1 = 0" and "rt_policy pol = (sa_priority attr \<noteq> 0)"
    and "user \<and> \<not> capable_sys_nice E \<Longrightarrow> \<not> dl_policy pol \<and> check_same_owner s p \<and>
      (p_reset_on_fork (ks_tasks s p) \<longrightarrow> reset) \<and>
      (rt_policy pol \<longrightarrow> sa_priority attr \<le> p_rt_priority (ks_tasks s p) \<or>
         ucast (sa_priority attr) \<le> task_rlimit_rtprio E p)"
proof -
  define named where "named = (\<not> policy < 0)"
  define pl where "pl = (if named then policy else p_policy (ks_tasks s p))"
  define rs where "rs = (if named then sa_flags attr AND 1 \<noteq> 0 else p_reset_on_fork (ks_tasks s p))"
  note a = assms [unfolded setscheduler_check_def Let_def, folded named_def, folded pl_def rs_def,
      unfolded if_Inl_Inr sum.inject prod.inject]
  have eq: "pol = pl" "reset = rs"
    using a by (elim conjE, simp)+
  then show "pol = (if \<not> policy < 0 then policy else p_policy (ks_tasks s p))"
    "reset = (if \<not> policy < 0 then sa_flags attr AND 1 \<noteq> 0 else p_reset_on_fork (ks_tasks s p))"
    by (simp_all add: pl_def rs_def named_def)
  show "sa_flags attr AND NOT 1 = 0"
    using a by (elim conjE) simp
  show "rt_policy pol = (sa_priority attr \<noteq> 0)"
    using a unfolding eq by (elim conjE) simp
  show "\<not> dl_policy pol \<and> check_same_owner s p \<and> (p_reset_on_fork (ks_tasks s p) \<longrightarrow> reset) \<and>
      (rt_policy pol \<longrightarrow> sa_priority attr \<le> p_rt_priority (ks_tasks s p) \<or>
         ucast (sa_priority attr) \<le> task_rlimit_rtprio E p)" if "user \<and> \<not> capable_sys_nice E"
    using a that unfolding eq by (elim conjE) (simp, metis not_less)
qed

text \<open>One attempt that nobody interferes with.\<close>

lemma setscheduler_attempt_success:
  assumes "setscheduler_attempts E p attr user policy [\<lambda>s. s] s = Some (0, t)"
  obtains pol old reset where "setscheduler_check E p attr user policy s = Inr (pol, old, reset)"
    "setscheduler_locked E p attr user pol old reset s = Some (0, t)"
  using assms setscheduler_check_err [of E p attr user policy s]
  by (auto split: sum.splits option.splits prod.splits)

lemma setscheduler_apply_fields:
  assumes "env_ok E" "ks_tasks u = ks_tasks s" "t = setscheduler_apply E p attr reset u"
  shows "p_policy (ks_tasks t p) = (if sa_policy attr = - 1 then p_policy (ks_tasks s p) else sa_policy attr)"
    "p_rt_priority (ks_tasks t p) = sa_priority attr" "p_reset_on_fork (ks_tasks t p) = reset"
    "fair_policy (p_policy (ks_tasks t p)) \<Longrightarrow> p_static_prio (ks_tasks t p) = NICE_TO_PRIO (sa_nice attr)"
    "q \<noteq> p \<Longrightarrow> core_task (ks_tasks t q) = core_task (ks_tasks s q)"
proof -
  note up = setscheduler_apply_update [OF assms(1), of p attr reset u, folded assms(3)]
  have c: "core_task (ks_tasks t p) = core_task (if keeps_boost E p attr reset u
      then params_task E attr ((ks_tasks s p)\<lparr>p_reset_on_fork := reset\<rparr>)
      else class_task (params_task E attr ((ks_tasks s p)\<lparr>p_reset_on_fork := reset\<rparr>)))"
    using task_update_self [OF up] assms(2) by simp
  show "p_policy (ks_tasks t p) = (if sa_policy attr = - 1 then p_policy (ks_tasks s p) else sa_policy attr)"
    "p_rt_priority (ks_tasks t p) = sa_priority attr" "p_reset_on_fork (ks_tasks t p) = reset"
    using c by (auto simp: core_task_def params_task_def class_task_def load_task_def setparam_dl_def Let_def)
  show "p_static_prio (ks_tasks t p) = NICE_TO_PRIO (sa_nice attr)" if "fair_policy (p_policy (ks_tasks t p))"
    using c that by (auto simp: core_task_def params_task_def class_task_def load_task_def setparam_dl_def Let_def
        policy_defs split: if_splits)
  show "core_task (ks_tasks t q) = core_task (ks_tasks s q)" if "q \<noteq> p"
    using task_update_other [OF up that] assms(2) by simp
qed



text \<open>Task 2 of the instance is made a batch task by its owner.\<close>

definition batch_attr :: sched_attr where
  "batch_attr = \<lparr>sa_size = 48, sa_policy = SCHED_BATCH, sa_flags = 1, sa_nice = 4, sa_priority = 0,
     sa_runtime = 0, sa_deadline = 0, sa_period = 0\<rparr>"

lemma batch_succeeds:
  "\<exists>t. setscheduler_attempts demo_env 2 batch_attr True SCHED_BATCH [\<lambda>s. s] demo_state = Some (0, t)"
  by (simp add: batch_attr_def setscheduler_check_def setscheduler_locked_def policy_defs Let_def
      check_same_owner_def demo_env_def demo_state_def demo_tsk_def demo_rq_def)



end
