(* ===== verification/Sched_Numa.thy ===== *)
theory Sched_Numa
  imports Sched_Types
begin

text \<open>
  The NUMA levels of the scheduling domains (\<^verbatim>\<open>core.c\<close>): \<^verbatim>\<open>sched_init_numa\<close> finds the distinct
  distances between nodes by a selection sort, computes for every level and node the CPUs within
  that distance, and appends the levels to the topology; a CPU hotplug notifier keeps the masks.
\<close>

section \<open>The distances\<close>

text \<open>\<open>dist\<close> is \<^verbatim>\<open>node_distance\<close>, \<open>n\<close> is \<^verbatim>\<open>nr_node_ids\<close>, \<open>debug\<close> the boot option \<^verbatim>\<open>sched_debug\<close>.\<close>

record numa_scan =
  ns_curr :: int               \<comment> \<open>\<open>curr_distance\<close>\<close>
  ns_next :: int               \<comment> \<open>\<open>next_distance\<close>\<close>
  ns_distance :: "int list"    \<comment> \<open>\<open>sched_domains_numa_distance\<close>, as far as written\<close>
  ns_warned :: "string option" \<comment> \<open>the warning \<open>sched_numa_warn\<close> has printed; it prints only one\<close>

definition sched_numa_warn :: "string \<Rightarrow> numa_scan \<Rightarrow> numa_scan" where
  "sched_numa_warn str st = (if ns_warned st \<noteq> None then st else st\<lparr>ns_warned := Some str\<rparr>)"

definition find_numa_distance :: "(nat \<Rightarrow> nat \<Rightarrow> int) \<Rightarrow> int list \<Rightarrow> int \<Rightarrow> bool" where
  "find_numa_distance dist ds distance =
     (if distance = dist 0 0 then True else list_ex (\<lambda>d. d = distance) ds)"

text \<open>The checks that only warn, and the round of the innermost loop.\<close>

definition numa_check :: "(nat \<Rightarrow> nat \<Rightarrow> int) \<Rightarrow> bool \<Rightarrow> nat \<Rightarrow> nat \<Rightarrow> int \<Rightarrow> numa_scan \<Rightarrow> numa_scan" where
  "numa_check dist debug i k distance st =
     (let st = (if debug \<and> dist k i \<noteq> distance
                then sched_numa_warn ''Node-distance not symmetric'' st else st)
      in if debug \<and> i \<noteq> 0 \<and> \<not> find_numa_distance dist (ns_distance st) distance
         then sched_numa_warn ''Node-0 not representative'' st else st)"

definition numa_k :: "(nat \<Rightarrow> nat \<Rightarrow> int) \<Rightarrow> bool \<Rightarrow> nat \<Rightarrow> nat \<Rightarrow> numa_scan \<Rightarrow> numa_scan" where
  "numa_k dist debug i k st =
     (let distance = dist i k;
          st = (if distance > ns_curr st \<and> (distance < ns_next st \<or> ns_next st = ns_curr st)
                then st\<lparr>ns_next := distance\<rparr> else st)
      in numa_check dist debug i k distance st)"

text \<open>
  The loop over \<open>j\<close>, with the number of rounds left. The array has \<open>n\<close> elements; writing behind
  its end is an access out of bounds.
\<close>

primrec numa_j :: "(nat \<Rightarrow> nat \<Rightarrow> int) \<Rightarrow> nat \<Rightarrow> bool \<Rightarrow> nat \<Rightarrow> nat \<Rightarrow> numa_scan \<Rightarrow> crash + numa_scan" where
  "numa_j dist n debug i 0 st = Inr st"
| "numa_j dist n debug i (Suc rounds) st =
     (let st = fold (numa_k dist debug i) [0..<n] st
      in if ns_next st \<noteq> ns_curr st
         then (if n \<le> length (ns_distance st) then Inl OutOfBounds
               else numa_j dist n debug i rounds
                      (st\<lparr>ns_distance := ns_distance st @ [ns_next st], ns_curr := ns_next st\<rparr>))
         else Inr st)"

primrec numa_i :: "(nat \<Rightarrow> nat \<Rightarrow> int) \<Rightarrow> nat \<Rightarrow> bool \<Rightarrow> nat list \<Rightarrow> numa_scan \<Rightarrow> crash + numa_scan" where
  "numa_i dist n debug [] st = Inr st"
| "numa_i dist n debug (i # is) st =
     (case numa_j dist n debug i n st of
        Inl c \<Rightarrow> Inl c
      | Inr st \<Rightarrow> if \<not> debug then Inr st else numa_i dist n debug is st)"

definition numa_distances :: "(nat \<Rightarrow> nat \<Rightarrow> int) \<Rightarrow> nat \<Rightarrow> bool \<Rightarrow> crash + numa_scan" where
  "numa_distances dist n debug =
     numa_i dist n debug [0..<n]
       \<lparr>ns_curr = dist 0 0, ns_next = dist 0 0, ns_distance = [], ns_warned = None\<rparr>"

section \<open>The masks and the topology\<close>

type_synonym numa_masks = "cpu set list list"

definition numa_mask :: "(nat \<Rightarrow> nat \<Rightarrow> int) \<Rightarrow> nat \<Rightarrow> (nat \<Rightarrow> cpu set) \<Rightarrow> int \<Rightarrow> nat \<Rightarrow> cpu set" where
  "numa_mask dist n node_cpus level_distance j =
     fold (\<lambda>k mask. if level_distance < dist j k then mask else mask \<union> node_cpus k) [0..<n] {}"

datatype topology_level = Arch_level nat | Numa_level nat

record numa_state =
  nu_levels :: nat                       \<comment> \<open>\<open>sched_domains_numa_levels\<close>\<close>
  nu_distance :: "int list"
  nu_masks :: numa_masks
  nu_topology :: "topology_level list"   \<comment> \<open>\<open>sched_domain_topology\<close> up to its terminator\<close>

text \<open>
  \<open>ok\<close> tells which of the allocations succeed. The early returns leave the number of levels 0.
\<close>

datatype numa_alloc = Distance_array | Mask_array | Mask_row nat | Mask nat nat | Topology_array

definition sched_init_numa ::
  "(nat \<Rightarrow> nat \<Rightarrow> int) \<Rightarrow> nat \<Rightarrow> bool \<Rightarrow> (nat \<Rightarrow> cpu set) \<Rightarrow> (numa_alloc \<Rightarrow> bool) \<Rightarrow> numa_state \<Rightarrow> crash + numa_state"
where
  "sched_init_numa dist n debug node_cpus ok s =
     (if \<not> ok Distance_array then Inr s
      else case numa_distances dist n debug of
        Inl c \<Rightarrow> Inl c
      | Inr st \<Rightarrow>
          let ds = ns_distance st; level = length ds; s = s\<lparr>nu_distance := ds, nu_levels := level\<rparr>
          in if level = 0 then Inr s
             else let s = s\<lparr>nu_levels := 0\<rparr> in
             if \<not> ok Mask_array then Inr s
             else if \<not> list_all (\<lambda>i. ok (Mask_row i) \<and> list_all (\<lambda>j. ok (Mask i j)) [0..<n]) [0..<level] then Inr s
             else
               let s = s\<lparr>nu_masks := map (\<lambda>i. map (numa_mask dist n node_cpus (ds ! i)) [0..<n]) [0..<level]\<rparr>
               in if \<not> ok Topology_array then Inr s
                  else Inr (s\<lparr>nu_topology := nu_topology s @ map Numa_level [0..<level], nu_levels := level\<rparr>))"

definition sd_numa_mask :: "(cpu \<Rightarrow> nat) \<Rightarrow> nat \<Rightarrow> cpu \<Rightarrow> numa_state \<Rightarrow> cpu set" where
  "sd_numa_mask node_of curr_level c s = nu_masks s ! curr_level ! node_of c"

section \<open>Hotplug\<close>

definition upd_masks :: "(nat \<Rightarrow> nat \<Rightarrow> cpu set \<Rightarrow> cpu set) \<Rightarrow> nat \<Rightarrow> numa_state \<Rightarrow> numa_state" where
  "upd_masks f n s =
     s\<lparr>nu_masks := fold (\<lambda>i ms. fold (\<lambda>j ms. ms[i := (ms ! i)[j := f i j (ms ! i ! j)]]) [0..<n] ms)
        [0..<nu_levels s] (nu_masks s)\<rparr>"

definition sched_domains_numa_masks_set ::
  "(nat \<Rightarrow> nat \<Rightarrow> int) \<Rightarrow> nat \<Rightarrow> (cpu \<Rightarrow> nat) \<Rightarrow> cpu \<Rightarrow> numa_state \<Rightarrow> numa_state"
where
  "sched_domains_numa_masks_set dist n node_of c s =
     (let node = node_of c
      in upd_masks (\<lambda>i j m. if dist j node \<le> nu_distance s ! i then insert c m else m) n s)"

definition sched_domains_numa_masks_clear :: "nat \<Rightarrow> cpu \<Rightarrow> numa_state \<Rightarrow> numa_state" where
  "sched_domains_numa_masks_clear n c s = upd_masks (\<lambda>i j m. m - {c}) n s"

datatype cpu_action = CPU_ONLINE | CPU_DEAD | CPU_UP_PREPARE | CPU_DYING | CPU_STARTING | CPU_DOWN_PREPARE | CPU_DOWN_FAILED

datatype notify = NOTIFY_OK | NOTIFY_DONE | NOTIFY_BAD errno

definition sched_domains_numa_masks_update ::
  "(nat \<Rightarrow> nat \<Rightarrow> int) \<Rightarrow> nat \<Rightarrow> (cpu \<Rightarrow> nat) \<Rightarrow> cpu_action \<Rightarrow> cpu \<Rightarrow> numa_state \<Rightarrow> notify \<times> numa_state"
where
  "sched_domains_numa_masks_update dist n node_of action c s =
     (case action of
        CPU_ONLINE \<Rightarrow> (NOTIFY_OK, sched_domains_numa_masks_set dist n node_of c s)
      | CPU_DEAD \<Rightarrow> (NOTIFY_OK, sched_domains_numa_masks_clear n c s)
      | _ \<Rightarrow> (NOTIFY_DONE, s))"

section \<open>The selection sort\<close>

text \<open>One round over a row finds its smallest distance above the current one.\<close>

lemma sched_numa_warn_fields [simp]:
  "ns_curr (sched_numa_warn str st) = ns_curr st" "ns_next (sched_numa_warn str st) = ns_next st"
  "ns_distance (sched_numa_warn str st) = ns_distance st"
  by (simp_all add: sched_numa_warn_def)

lemma numa_check_fields [simp]:
  "ns_curr (numa_check dist debug i k d st) = ns_curr st" "ns_next (numa_check dist debug i k d st) = ns_next st"
  "ns_distance (numa_check dist debug i k d st) = ns_distance st"
  by (simp_all add: numa_check_def Let_def)

lemma numa_k_fields [simp]:
  "ns_curr (numa_k dist debug i k st) = ns_curr st"
  "ns_distance (numa_k dist debug i k st) = ns_distance st"
  by (simp_all add: numa_k_def Let_def)

lemma numa_k_next:
  "ns_next (numa_k dist debug i k st) =
    (if dist i k > ns_curr st \<and> (dist i k < ns_next st \<or> ns_next st = ns_curr st) then dist i k else ns_next st)"
  by (auto simp: numa_k_def Let_def)

definition farther :: "(nat \<Rightarrow> nat \<Rightarrow> int) \<Rightarrow> nat \<Rightarrow> nat \<Rightarrow> int \<Rightarrow> int set" where
  "farther dist n i d = {x \<in> dist i ` {..<n}. d < x}"

lemma finite_farther [simp]: "finite (farther dist n i d)"
  by (simp add: farther_def)

lemma farther_Suc:
  "farther dist (Suc m) i d = (if d < dist i m then insert (dist i m) (farther dist m i d) else farther dist m i d)"
  by (auto simp: farther_def lessThan_Suc)

lemma min_less: "min a b = (if a < b then a else (b :: int))"
  by auto

lemma numa_round:
  assumes "ns_next st = ns_curr st"
  shows "ns_next (fold (numa_k dist debug i) [0..<m] st) =
      (if farther dist m i (ns_curr st) = {} then ns_curr st else Min (farther dist m i (ns_curr st))) \<and>
    ns_curr (fold (numa_k dist debug i) [0..<m] st) = ns_curr st \<and>
    ns_distance (fold (numa_k dist debug i) [0..<m] st) = ns_distance st"
proof (induction m)
  case 0
  with assms show ?case by (simp add: farther_def)
next
  case (Suc m)
  let ?F = "farther dist m i (ns_curr st)"
  show ?case
  proof (cases "?F = {}")
    case True
    with Suc show ?thesis by (simp add: numa_k_next farther_Suc)
  next
    case False
    then have "ns_curr st < Min ?F" by (subst Min_gr_iff) (auto simp: farther_def)
    moreover have "Min (insert (dist i m) ?F) = (if dist i m < Min ?F then dist i m else Min ?F)"
      unfolding Min_insert [OF finite_farther False] by (rule min_less)
    ultimately show ?thesis using Suc False by (simp add: numa_k_next farther_Suc del: Min_gr_iff)
  qed
qed

lemma sorted_list_of_set_Min:
  assumes "finite (A :: int set)" "A \<noteq> {}"
  shows "sorted_list_of_set A = Min A # sorted_list_of_set {x \<in> A. Min A < x}"
proof -
  have "{x \<in> A. Min A < x} = A - {Min A}" using assms by (auto simp: less_le)
  then show ?thesis using assms by (simp add: sorted_list_of_set_nonempty)
qed

lemma numa_j_sorts:
  "ns_next st = ns_curr st \<Longrightarrow> card (farther dist n i (ns_curr st)) < rounds \<Longrightarrow>
   length (ns_distance st) + card (farther dist n i (ns_curr st)) \<le> n \<Longrightarrow>
   \<exists>st'. numa_j dist n debug i rounds st = Inr st' \<and>
     ns_distance st' = ns_distance st @ sorted_list_of_set (farther dist n i (ns_curr st)) \<and>
     ns_next st' = ns_curr st' \<and> farther dist n i (ns_curr st') = {}"
proof (induction rounds arbitrary: st)
  case (Suc rounds)
  let ?F = "farther dist n i (ns_curr st)" and ?st = "fold (numa_k dist debug i) [0..<n] st"
  note round = numa_round [OF Suc.prems(1), of dist debug i n]
  show ?case
  proof (cases "?F = {}")
    case True
    with round show ?thesis by (simp add: Let_def)
  next
    case False
    have above: "ns_curr st < Min ?F" using False by (subst Min_gr_iff) (auto simp: farther_def)
    have rest: "farther dist n i (Min ?F) = {x \<in> ?F. Min ?F < x}"
      using above by (auto simp: farther_def)
    have "Min ?F \<in> ?F" using False by simp
    then have "farther dist n i (Min ?F) \<subset> ?F" unfolding rest by auto
    then have card: "card (farther dist n i (Min ?F)) < card ?F" by (simp add: psubset_card_mono)
    let ?st' = "?st\<lparr>ns_distance := ns_distance ?st @ [ns_next ?st], ns_curr := ns_next ?st\<rparr>"
    have "\<exists>st'. numa_j dist n debug i rounds ?st' = Inr st' \<and>
        ns_distance st' = ns_distance ?st' @ sorted_list_of_set (farther dist n i (ns_curr ?st')) \<and>
        ns_next st' = ns_curr st' \<and> farther dist n i (ns_curr st') = {}"
      using Suc.prems card round False by (intro Suc.IH) auto
    moreover have "\<not> n \<le> length (ns_distance ?st)"
      using Suc.prems(3) round False card_gt_0_iff [of ?F] by auto
    moreover have "ns_next ?st \<noteq> ns_curr ?st" using round False above by (simp del: Min_gr_iff)
    ultimately have "\<exists>st'. numa_j dist n debug i (Suc rounds) st = Inr st' \<and>
        ns_distance st' = ns_distance ?st' @ sorted_list_of_set (farther dist n i (ns_curr ?st')) \<and>
        ns_next st' = ns_curr st' \<and> farther dist n i (ns_curr st') = {}"
      by (simp add: Let_def)
    moreover have "ns_distance ?st' @ sorted_list_of_set (farther dist n i (ns_curr ?st')) =
        ns_distance st @ sorted_list_of_set ?F"
      using round False rest sorted_list_of_set_Min [of ?F] by simp
    ultimately show ?thesis by simp
  qed
qed simp

lemma numa_j_nothing:
  assumes "ns_next st = ns_curr st" "farther dist n i (ns_curr st) = {}"
  shows "\<exists>st'. numa_j dist n debug i rounds st = Inr st' \<and> ns_distance st' = ns_distance st \<and>
    ns_next st' = ns_curr st' \<and> ns_curr st' = ns_curr st"
  using numa_round [OF assms(1), of dist debug i n] assms by (cases rounds) (simp_all add: Let_def)

lemma numa_i_nothing:
  "ns_next st = ns_curr st \<Longrightarrow> \<forall>i\<in>set is. farther dist n i (ns_curr st) = {} \<Longrightarrow>
   \<exists>st'. numa_i dist n debug is st = Inr st' \<and> ns_distance st' = ns_distance st"
proof (induction "is" arbitrary: st)
  case (Cons i "is")
  obtain st1 where st1: "numa_j dist n debug i n st = Inr st1" "ns_distance st1 = ns_distance st"
    "ns_next st1 = ns_curr st1" "ns_curr st1 = ns_curr st"
    using numa_j_nothing [OF Cons.prems(1), of dist n i debug n] Cons.prems(2) by auto
  then show ?case using Cons.IH [of st1] Cons.prems(2) by auto
qed simp

lemma farther_row0: "0 < n \<Longrightarrow> card (farther dist n 0 (dist 0 0)) < n"
proof -
  assume "0 < n"
  have "farther dist n 0 (dist 0 0) \<subseteq> dist 0 ` {1..<n}"
  proof
    fix x assume "x \<in> farther dist n 0 (dist 0 0)"
    then obtain k where "k < n" "x = dist 0 k" "dist 0 0 < dist 0 k" by (auto simp: farther_def)
    moreover from this have "k \<noteq> 0" by (cases k) auto
    ultimately show "x \<in> dist 0 ` {1..<n}" by auto
  qed
  then have "card (farther dist n 0 (dist 0 0)) \<le> card {1..<n}"
    by (rule surj_card_le [rotated]) simp
  with \<open>0 < n\<close> show ?thesis by simp
qed

lemma numa_distances_sorted_list:
  assumes "0 < n" "debug \<longrightarrow> (\<forall>i<n. \<forall>k<n. \<exists>k'<n. dist i k \<le> dist 0 k')"
  shows "\<exists>st. numa_distances dist n debug = Inr st \<and>
    ns_distance st = sorted_list_of_set (farther dist n 0 (dist 0 0)) \<and> length (ns_distance st) < n"
proof -
  let ?F = "farther dist n 0 (dist 0 0)"
  let ?st = "\<lparr>ns_curr = dist 0 0, ns_next = dist 0 0, ns_distance = [], ns_warned = None\<rparr>"
  obtain st1 where st1: "numa_j dist n debug 0 n ?st = Inr st1" "ns_distance st1 = sorted_list_of_set ?F"
    "ns_next st1 = ns_curr st1" "farther dist n 0 (ns_curr st1) = {}"
    using numa_j_sorts [of ?st dist n 0 n debug] farther_row0 [OF assms(1), of dist] by auto
  have split: "[0..<n] = 0 # [1..<n]" using assms(1) by (simp add: upt_rec)
  have len: "length (sorted_list_of_set ?F) < n" using farther_row0 [OF assms(1), of dist] by simp
  show ?thesis
  proof (cases debug)
    case False
    then show ?thesis using st1 len by (simp add: numa_distances_def split)
  next
    case True
    have "farther dist n i (ns_curr st1) = {}" if "i < n" for i
    proof -
      have "dist i k \<le> ns_curr st1" if "k < n" for k
      proof -
        obtain k' where "k' < n" "dist i k \<le> dist 0 k'" using assms(2) True \<open>i < n\<close> \<open>k < n\<close> by blast
        moreover from this have "dist 0 k' \<le> ns_curr st1" using st1(4) by (force simp: farther_def)
        ultimately show ?thesis by simp
      qed
      then show ?thesis by (force simp: farther_def)
    qed
    then have "\<exists>st'. numa_i dist n debug [1..<n] st1 = Inr st' \<and> ns_distance st' = ns_distance st1"
      by (intro numa_i_nothing st1(3)) auto
    then show ?thesis using st1 len True by (auto simp: numa_distances_def split)
  qed
qed

text \<open>The selection sort of \<^verbatim>\<open>sched_init_numa\<close> ends with the array holding the distinct
  distances from node 0 that are larger than its distance to itself, in increasing order, and
  there are fewer of them than the array has elements. With \<open>sched_debug\<close> it goes through the other
  rows too, which changes nothing as long as node 0 is as far from some node as any two are.\<close>

theorem numa_distances_sorted:
  assumes "0 < n" "debug \<longrightarrow> (\<forall>i<n. \<forall>k<n. \<exists>k'<n. dist i k \<le> dist 0 k')"
  shows "\<exists>st. numa_distances dist n debug = Inr st \<and>
    ns_distance st = sorted_list_of_set {d \<in> dist 0 ` {..<n}. dist 0 0 < d} \<and> length (ns_distance st) < n"
  using numa_distances_sorted_list [OF assms] by (simp add: farther_def)

definition demo_dist :: "nat \<Rightarrow> nat \<Rightarrow> int" where
  "demo_dist i j = [[10, 20, 40, 20], [20, 10, 20, 40], [40, 20, 10, 20], [20, 40, 20, 10]] ! i ! j"

lemma numa_distances_sorted_witness:
  "map_sum (\<lambda>c. c) ns_distance (numa_distances demo_dist 4 True) = Inr [20, 40]"
proof -
  have four: "{..<4 :: nat} = {0, 1, 2, 3}" by auto
  have "list_all (\<lambda>i. list_all (\<lambda>k. list_ex (\<lambda>k'. demo_dist i k \<le> demo_dist 0 k') [0..<4]) [0..<4]) [0..<4]"
    by code_simp
  then have "\<forall>i<4. \<forall>k<4. \<exists>k'<4. demo_dist i k \<le> demo_dist 0 k'"
    by (force simp: list_all_iff list_ex_iff)
  moreover have "sorted_list_of_set {d \<in> demo_dist 0 ` {..<4}. demo_dist 0 0 < d} = [20, 40]"
  proof -
    have "{d \<in> demo_dist 0 ` {..<4}. demo_dist 0 0 < d} = set [20, 40]"
      unfolding four by (auto simp: demo_dist_def numeral_eq_Suc)
    then show ?thesis by (simp only: sorted_list_of_set_sort_remdups) simp
  qed
  ultimately show ?thesis
    using numa_distances_sorted [of 4 True demo_dist] by auto
qed

text \<open>When node 0 is not representative, the case the debug option is there to report, the array
  is overrun: five nodes at the same distance from node 0, with six different distances between
  the others, need seven entries of an array of five. The table is symmetric.\<close>

definition star_dist :: "nat \<Rightarrow> nat \<Rightarrow> int" where
  "star_dist i j = [[10, 20, 20, 20, 20], [20, 10, 30, 40, 50], [20, 30, 10, 60, 70],
     [20, 40, 60, 10, 80], [20, 50, 70, 80, 10]] ! i ! j"

theorem numa_array_overrun:
  "numa_distances star_dist 5 True = Inl OutOfBounds \<and>
   list_all (\<lambda>i. list_all (\<lambda>j. star_dist i j = star_dist j i) [0..<5]) [0..<5]"
  by code_simp

section \<open>The masks\<close>

lemma fold_union: "fold (\<lambda>k m. if b k then m else m \<union> f k) ks m0 = m0 \<union> (\<Union>k\<in>{k \<in> set ks. \<not> b k}. f k)"
  by (induction ks arbitrary: m0) auto

lemma numa_mask_iff: "c \<in> numa_mask dist n node_cpus d j \<longleftrightarrow> (\<exists>k<n. dist j k \<le> d \<and> c \<in> node_cpus k)"
  by (auto simp: numa_mask_def fold_union not_less)

text \<open>The invariant: the mask of a level and a node is the set of the known CPUs within the distance.\<close>

definition numa_masks_ok :: "(nat \<Rightarrow> nat \<Rightarrow> int) \<Rightarrow> nat \<Rightarrow> (cpu \<Rightarrow> nat) \<Rightarrow> cpu set \<Rightarrow> numa_state \<Rightarrow> bool" where
  "numa_masks_ok dist n node_of known s \<longleftrightarrow>
     (0 < nu_levels s \<longrightarrow> length (nu_masks s) = nu_levels s \<and> length (nu_distance s) = nu_levels s \<and>
        (\<forall>i<nu_levels s. length (nu_masks s ! i) = n \<and>
           (\<forall>j<n. nu_masks s ! i ! j = {c \<in> known. dist j (node_of c) \<le> nu_distance s ! i})))"

lemma fold_row:
  assumes "i < length ms" "length (ms ! i) = n" "m \<le> n"
  shows "fold (\<lambda>j ms. ms[i := (ms ! i)[j := f i j (ms ! i ! j)]]) [0..<m] ms =
    ms[i := map (\<lambda>j. if j < m then f i j (ms ! i ! j) else ms ! i ! j) [0..<n]]"
  using assms(3)
proof (induction m)
  case 0
  have "map (\<lambda>j. ms ! i ! j) [0..<n] = ms ! i" using assms(2) by (metis map_nth)
  then show ?case by (simp add: list_update_id)
next
  case (Suc m)
  then show ?case
    using assms(1,2) by (auto intro!: nth_equalityI arg_cong [where f = "\<lambda>r. ms[i := r]"] simp: nth_list_update)
qed

lemma fold_rows:
  assumes "\<forall>i < length ms. length (ms ! i) = n" "l \<le> length ms"
  shows "fold (\<lambda>i ms. fold (\<lambda>j ms. ms[i := (ms ! i)[j := f i j (ms ! i ! j)]]) [0..<n] ms) [0..<l] ms =
    map (\<lambda>i. if i < l then map (\<lambda>j. f i j (ms ! i ! j)) [0..<n] else ms ! i) [0..<length ms]"
  using assms(2)
proof (induction l)
  case 0
  show ?case by (simp add: map_nth)
next
  case (Suc l)
  let ?ms = "map (\<lambda>i. if i < l then map (\<lambda>j. f i j (ms ! i ! j)) [0..<n] else ms ! i) [0..<length ms]"
  have "fold (\<lambda>j ms. ms[l := (ms ! l)[j := f l j (ms ! l ! j)]]) [0..<n] ?ms =
      ?ms[l := map (\<lambda>j. if j < n then f l j (?ms ! l ! j) else ?ms ! l ! j) [0..<n]]"
    using Suc.prems assms(1) by (intro fold_row) auto
  also have "\<dots> = map (\<lambda>i. if i < Suc l then map (\<lambda>j. f i j (ms ! i ! j)) [0..<n] else ms ! i) [0..<length ms]"
    using Suc.prems by (intro nth_equalityI) (auto simp: nth_list_update less_Suc_eq)
  finally show ?case using Suc by simp
qed

lemma upd_masks_at:
  assumes "\<forall>i < length (nu_masks s). length (nu_masks s ! i) = n" "length (nu_masks s) = nu_levels s"
  shows "nu_masks (upd_masks f n s) = map (\<lambda>i. map (\<lambda>j. f i j (nu_masks s ! i ! j)) [0..<n]) [0..<nu_levels s]"
  using fold_rows [OF assms(1), of "nu_levels s" f] assms(2) by (simp add: upd_masks_def)

lemma upd_masks_other [simp]:
  "nu_levels (upd_masks f n s) = nu_levels s" "nu_distance (upd_masks f n s) = nu_distance s"
  by (simp_all add: upd_masks_def)

section \<open>The masks follow the hotplugging of CPUs\<close>

definition known_after :: "cpu_action \<times> cpu \<Rightarrow> cpu set \<Rightarrow> cpu set" where
  "known_after e known = (case fst e of CPU_ONLINE \<Rightarrow> insert (snd e) known | CPU_DEAD \<Rightarrow> known - {snd e} | _ \<Rightarrow> known)"

definition numa_event ::
  "(nat \<Rightarrow> nat \<Rightarrow> int) \<Rightarrow> nat \<Rightarrow> (cpu \<Rightarrow> nat) \<Rightarrow> cpu_action \<times> cpu \<Rightarrow> numa_state \<Rightarrow> numa_state"
where
  "numa_event dist n node_of e s = snd (sched_domains_numa_masks_update dist n node_of (fst e) (snd e) s)"

lemma numa_masks_ok_upd:
  assumes "numa_masks_ok dist n node_of known s"
    and "\<And>i j. i < nu_levels s \<Longrightarrow> j < n \<Longrightarrow> f i j {c \<in> known. dist j (node_of c) \<le> nu_distance s ! i} =
      {c \<in> known'. dist j (node_of c) \<le> nu_distance s ! i}"
  shows "numa_masks_ok dist n node_of known' (upd_masks f n s)"
proof (cases "nu_levels s = 0")
  case False
  then have "\<forall>i < length (nu_masks s). length (nu_masks s ! i) = n" "length (nu_masks s) = nu_levels s"
    using assms(1) by (auto simp: numa_masks_ok_def)
  from upd_masks_at [OF this, of f] show ?thesis
    using assms by (auto simp: numa_masks_ok_def)
qed (simp add: numa_masks_ok_def)

lemma numa_event_ok:
  assumes "numa_masks_ok dist n node_of known s"
  shows "numa_masks_ok dist n node_of (known_after e known) (numa_event dist n node_of e s)"
proof (cases e)
  case (Pair a c)
  have on: "numa_masks_ok dist n node_of (insert c known) (sched_domains_numa_masks_set dist n node_of c s)"
    unfolding sched_domains_numa_masks_set_def Let_def by (rule numa_masks_ok_upd [OF assms]) auto
  have off: "numa_masks_ok dist n node_of (known - {c}) (sched_domains_numa_masks_clear n c s)"
    unfolding sched_domains_numa_masks_clear_def by (rule numa_masks_ok_upd [OF assms]) auto
  show ?thesis
    using assms on off Pair
    by (cases a) (simp_all add: numa_event_def known_after_def sched_domains_numa_masks_update_def)
qed

lemma sched_init_numa_ok:
  assumes "sched_init_numa dist n debug node_cpus ok s0 = Inr s" "nu_levels s0 = 0"
    and "\<And>k. k < n \<Longrightarrow> node_cpus k = {c \<in> known. node_of c = k}" "\<forall>c\<in>known. node_of c < n"
  shows "numa_masks_ok dist n node_of known s"
proof (cases "nu_levels s = 0")
  case False
  then obtain st where st: "numa_distances dist n debug = Inr st"
    and s: "nu_levels s = length (ns_distance st)" "nu_distance s = ns_distance st"
      "nu_masks s = map (\<lambda>i. map (numa_mask dist n node_cpus (ns_distance st ! i)) [0..<n]) [0..<length (ns_distance st)]"
    using assms(1,2) by (auto simp: sched_init_numa_def Let_def split: if_splits sum.splits)
  have "numa_mask dist n node_cpus d j = {c \<in> known. dist j (node_of c) \<le> d}" for d j
    using assms(3,4) by (fastforce simp: numa_mask_iff)
  with s show ?thesis by (simp add: numa_masks_ok_def)
qed (simp add: numa_masks_ok_def)

text \<open>C25 After the initialisation, whichever of its allocations failed, and any sequence of CPU
  hotplug notifications, the mask of a level and a node is the set of the CPUs present then
  whose node is within the distance of the level; after a failed allocation there are no levels.\<close>

theorem numa_masks_follow_hotplug:
  assumes "sched_init_numa dist n debug node_cpus ok s0 = Inr s" "nu_levels s0 = 0"
    and "\<And>k. k < n \<Longrightarrow> node_cpus k = {c \<in> known. node_of c = k}" "\<forall>c\<in>known. node_of c < n"
  shows "numa_masks_ok dist n node_of (fold known_after es known) (fold (numa_event dist n node_of) es s) \<and>
    (\<not> list_all (\<lambda>i. ok (Mask_row i)) [0..<nu_levels s] \<longrightarrow> nu_levels s = 0)"
proof
  have "numa_masks_ok dist n node_of (fold known_after es known) (fold (numa_event dist n node_of) es s)"
    if "numa_masks_ok dist n node_of known s" for known s
    using that by (induction es arbitrary: known s) (auto intro: numa_event_ok)
  then show "numa_masks_ok dist n node_of (fold known_after es known) (fold (numa_event dist n node_of) es s)"
    using sched_init_numa_ok [OF assms] .
  show "\<not> list_all (\<lambda>i. ok (Mask_row i)) [0..<nu_levels s] \<longrightarrow> nu_levels s = 0"
    using assms(1,2)
    by (auto simp: sched_init_numa_def Let_def list_all_iff split: if_splits sum.splits)
qed

text \<open>Four nodes in a ring with two CPUs each; CPU 7 goes down and comes back.\<close>

definition demo_numa :: numa_state where
  "demo_numa = \<lparr>nu_levels = 0, nu_distance = [], nu_masks = [], nu_topology = [Arch_level 0]\<rparr>"

definition demo_node_cpus :: "nat \<Rightarrow> cpu set" where
  "demo_node_cpus k = {2 * k, 2 * k + 1}"

lemma numa_masks_follow_hotplug_witness:
  "\<exists>s. sched_init_numa demo_dist 4 False demo_node_cpus (\<lambda>_. True) demo_numa = Inr s \<and>
     numa_masks_ok demo_dist 4 (\<lambda>c. c div 2) {0, 1, 2, 3, 4, 5, 6}
       (numa_event demo_dist 4 (\<lambda>c. c div 2) (CPU_DEAD, 7) s)"
proof -
  obtain st where st: "numa_distances demo_dist 4 False = Inr st"
    using numa_distances_sorted_list [of 4 False demo_dist] by auto
  have "\<exists>s. sched_init_numa demo_dist 4 False demo_node_cpus (\<lambda>_. True) demo_numa = Inr s"
    by (simp add: sched_init_numa_def Let_def st list_all_iff)
  then obtain s where s: "sched_init_numa demo_dist 4 False demo_node_cpus (\<lambda>_. True) demo_numa = Inr s" ..
  have nodes: "\<forall>c\<in>{..7 :: nat}. c div 2 < 4" by auto
  have "demo_node_cpus k = {c \<in> {..7}. c div 2 = k}" if "k < 4" for k
    using that by (auto simp: demo_node_cpus_def)
  from numa_masks_follow_hotplug [OF s _ this nodes, of "[(CPU_DEAD, 7)]"]
  have "numa_masks_ok demo_dist 4 (\<lambda>c. c div 2) ({..7} - {7}) (numa_event demo_dist 4 (\<lambda>c. c div 2) (CPU_DEAD, 7) s)"
    by (auto simp: demo_numa_def known_after_def)
  moreover have "{..7 :: nat} - {7} = {0, 1, 2, 3, 4, 5, 6}" by auto
  ultimately show ?thesis using s by simp
qed

end
