(* ===== verification/Sched_Affinity.thy ===== *)
theory Sched_Affinity
  imports Sched_Switch Sched_Policy
begin

text \<open>
  CPU affinity and hotplug in \<^verbatim>\<open>core.c\<close>: changing a task's mask and moving it, the stopper's
  part, emptying a dying CPU, the affinity and yield system calls, the tick, and the
  statistics over runqueues. \<open>stop_one\<close> is \<open>stop_one_cpu\<close>: it runs its argument on the
  stopped CPU.
\<close>

section \<open>Moving a queued task\<close>

definition move_queued_task :: "'x env \<Rightarrow> tid \<Rightarrow> cpu \<Rightarrow> 'x kstate \<Rightarrow> crash + 'x kstate" where
  "move_queued_task E p new_cpu s =
     (let s = dequeue_task E (task_cpu s p) p 0 s;
          s = upd_task p (\<lambda>t. t\<lparr>p_on_rq := TASK_ON_RQ_MIGRATING\<rparr>) s;
          s = set_task_cpu E p new_cpu s
      in if task_cpu s p \<noteq> new_cpu then Inl Bug
         else let s = upd_task p (\<lambda>t. t\<lparr>p_on_rq := TASK_ON_RQ_QUEUED\<rparr>) s;
                  s = enqueue_task E new_cpu p 0 s
              in Inr (check_preempt_curr E new_cpu p 0 s))"

definition migrate_task :: "'x env \<Rightarrow> tid \<Rightarrow> cpu \<Rightarrow> cpu \<Rightarrow> 'x kstate \<Rightarrow> crash + bool \<times> 'x kstate" where
  "migrate_task E p src dest s =     \<comment> \<open>\<open>__migrate_task\<close>\<close>
     (if dest \<notin> ks_active s then Inr (False, s)
      else if task_cpu s p \<noteq> src then Inr (True, s)
      else if dest \<notin> p_cpus_allowed (ks_tasks s p) then Inr (False, s)
      else if task_on_rq_queued s p then bindC (move_queued_task E p dest s) (\<lambda>s. Inr (True, s))
      else Inr (True, s))"

definition migration_cpu_stop :: "'x env \<Rightarrow> tid \<Rightarrow> cpu \<Rightarrow> 'x kstate \<Rightarrow> crash + 'x kstate" where
  "migration_cpu_stop E p dest s =
     (let s = sched_ttwu_pending E s
      in bindC (migrate_task E p (ks_cpu s) dest s) (\<lambda>(_, s). Inr s))"

type_synonym 'x stopper = "cpu \<Rightarrow> ('x kstate \<Rightarrow> crash + 'x kstate) \<Rightarrow> 'x kstate \<Rightarrow> crash + 'x kstate"

definition set_cpus_allowed_ptr ::
  "'x env \<Rightarrow> 'x stopper \<Rightarrow> tid \<Rightarrow> cpu set \<Rightarrow> 'x kstate \<Rightarrow> crash + errno \<times> 'x kstate"
where
  "set_cpus_allowed_ptr E stop_one p new_mask s =
     (if p_cpus_allowed (ks_tasks s p) = new_mask then Inr (0, s)
      else if new_mask \<inter> ks_active s = {} then Inr (- EINVAL, s)
      else
        let s = do_set_cpus_allowed E p new_mask s in
        if task_cpu s p \<in> new_mask then Inr (0, s)
        else
          let dest = (case cpus_in E (ks_active s \<inter> new_mask) of [] \<Rightarrow> nr_cpu_ids E | d # _ \<Rightarrow> d) in
          if p_on_cpu (ks_tasks s p) \<or> p_state (ks_tasks s p) = TASK_WAKING
          then bindC (stop_one (task_cpu s p) (migration_cpu_stop E p dest) s) (\<lambda>s. Inr (0, s))
          else if task_on_rq_queued s p then bindC (move_queued_task E p dest s) (\<lambda>s. Inr (0, s))
          else Inr (0, s))"

definition migrate_task_to ::
  "'x env \<Rightarrow> 'x stopper \<Rightarrow> tid \<Rightarrow> cpu \<Rightarrow> 'x kstate \<Rightarrow> crash + errno \<times> 'x kstate"
where
  "migrate_task_to E stop_one p target s =
     (let curr_cpu = task_cpu s p in
      if curr_cpu = target then Inr (0, s)
      else if target \<notin> p_cpus_allowed (ks_tasks s p) then Inr (- EINVAL, s)
      else bindC (stop_one curr_cpu (migration_cpu_stop E p target) s) (\<lambda>s. Inr (0, s)))"

definition sched_exec :: "'x env \<Rightarrow> 'x stopper \<Rightarrow> 'x kstate \<Rightarrow> crash + 'x kstate" where
  "sched_exec E stop_one s =
     (let p = current_task s;
          dest = co_select_rq (class_of E s p) p (task_cpu s p) SD_BALANCE_EXEC 0 s
      in if dest = ks_cpu s then Inr s
         else if dest \<in> ks_active s
         then stop_one (task_cpu s p) (migration_cpu_stop E p dest) s
         else Inr s)"

section \<open>CPU hotplug\<close>

text \<open>
  The loop of \<open>migrate_tasks\<close>; \<open>fake\<close> is the number of the fake task the classes are given as
  the previous one (its class is none of the five, so the shortcut is not taken).
\<close>

partial_function (option) migrate_loop ::
  "'x env \<Rightarrow> tid \<Rightarrow> cpu \<Rightarrow> 'x kstate \<Rightarrow> (crash + 'x kstate) option"
where
  "migrate_loop E fake dead s =
     (if rq_nr_running (ks_rqs s dead) = 1 then Some (Inr s)
      else case pick_again E dead fake s of
        None \<Rightarrow> None
      | Some r \<Rightarrow>
          (case bindC r (\<lambda>(nxt, s).
               let s = co_put_prev (class_of E s nxt) dead nxt s in
               bindC (select_fallback_rq E dead nxt s) (\<lambda>(dest, s).
                 migrate_task E nxt dead dest s)) of
             Inl e \<Rightarrow> Some (Inl e)
           | Inr (_, s) \<Rightarrow> migrate_loop E fake dead s))"

definition migrate_tasks :: "'x env \<Rightarrow> tid \<Rightarrow> cpu \<Rightarrow> 'x kstate \<Rightarrow> (crash + 'x kstate) option" where
  "migrate_tasks E fake dead s =
     (let stop = rq_stop (ks_rqs s dead);
          s = upd_rq dead (\<lambda>r. r\<lparr>rq_stop := None\<rparr>) s;
          s = update_rq_clock E dead s
      in map_option (map_sum id (upd_rq dead (\<lambda>r. r\<lparr>rq_stop := stop\<rparr>))) (migrate_loop E fake dead s))"

text \<open>\<open>up\<close>, \<open>down\<close>: the classes' \<open>rq_online\<close> and \<open>rq_offline\<close>.\<close>

type_synonym 'x class_hook = "sched_class \<Rightarrow> (cpu \<Rightarrow> 'x kstate \<Rightarrow> 'x kstate) option"

definition for_each_class :: "'x class_hook \<Rightarrow> cpu \<Rightarrow> 'x kstate \<Rightarrow> 'x kstate" where
  "for_each_class h c s = fold (\<lambda>k. call_opt (map_option (\<lambda>f. f c) (h k))) all_classes s"

definition set_rq_online :: "'x class_hook \<Rightarrow> cpu \<Rightarrow> 'x kstate \<Rightarrow> 'x kstate" where
  "set_rq_online up c s =
     (if \<not> rq_online (ks_rqs s c)
      then let s = upd_rd (rq_rd (ks_rqs s c)) (\<lambda>d. d\<lparr>rd_online := insert c (rd_online d)\<rparr>) s;
               s = upd_rq c (\<lambda>r. r\<lparr>rq_online := True\<rparr>) s
           in for_each_class up c s
      else s)"

definition set_rq_offline :: "'x class_hook \<Rightarrow> cpu \<Rightarrow> 'x kstate \<Rightarrow> 'x kstate" where
  "set_rq_offline down c s =
     (if rq_online (ks_rqs s c)
      then let s = for_each_class down c s;
               s = upd_rd (rq_rd (ks_rqs s c)) (\<lambda>d. d\<lparr>rd_online := rd_online d - {c}\<rparr>) s
           in upd_rq c (\<lambda>r. r\<lparr>rq_online := False\<rparr>) s
      else s)"

datatype cpu_action = Up_prepare | Starting | Online | Down_failed | Down_prepare | Dying | Dead | Other

text \<open>
  \<open>migration_call\<close> on a runqueue with a root domain; \<open>calc\<close> folds the load of a dead CPU.
\<close>

definition migration_call ::
  "'x env \<Rightarrow> 'x class_hook \<Rightarrow> 'x class_hook \<Rightarrow> (cpu \<Rightarrow> 'x kstate \<Rightarrow> 'x kstate) \<Rightarrow> tid \<Rightarrow> cpu_action \<Rightarrow> cpu \<Rightarrow>
     'x kstate \<Rightarrow> (crash + 'x kstate) option"
where
  "migration_call E up down calc fake action c s =
     (case action of
        Online \<Rightarrow>
          if c \<notin> rd_span (ks_rds s (rq_rd (ks_rqs s c))) then Some (Inl Bug)
          else Some (Inr (set_rq_online up c s))
      | Dying \<Rightarrow>
          let s = sched_ttwu_pending E s in
          if c \<notin> rd_span (ks_rds s (rq_rd (ks_rqs s c))) then Some (Inl Bug)
          else map_option (\<lambda>r. bindC r (\<lambda>s. if rq_nr_running (ks_rqs s c) \<noteq> 1 then Inl Bug else Inr s))
                 (migrate_tasks E fake c (set_rq_offline down c s))
      | Dead \<Rightarrow> Some (Inr (calc c s))
      | _ \<Rightarrow> Some (Inr s))"

text \<open>The active mask; \<open>frozen\<close>: the action is part of a suspend. The result is 0 or the error.\<close>

definition sched_cpu_active :: "'x env \<Rightarrow> cpu_action \<Rightarrow> cpu \<Rightarrow> 'x kstate \<Rightarrow> 'x kstate" where
  "sched_cpu_active E action c s =
     (case action of
        Starting \<Rightarrow> upd_rq (ks_cpu s) (\<lambda>r. r\<lparr>rq_age_stamp := sched_clock_cpu E (ks_cpu s) (ks_ext s)\<rparr>) s
      | Down_failed \<Rightarrow> s\<lparr>ks_active := insert c (ks_active s)\<rparr>
      | _ \<Rightarrow> s)"

definition sched_cpu_inactive :: "'x env \<Rightarrow> cpu_action \<Rightarrow> bool \<Rightarrow> cpu \<Rightarrow> 'x kstate \<Rightarrow> errno \<times> 'x kstate" where
  "sched_cpu_inactive E action frozen c s =
     (case action of
        Down_prepare \<Rightarrow>
          let s = s\<lparr>ks_active := ks_active s - {c}\<rparr> in
          if \<not> frozen \<and> dl_bw_exceeded (dl_bw_of s c) (dl_bw_cpus E s c) 0 0
          then (- EBUSY, s) else (0, s)
      | _ \<Rightarrow> (0, s))"

definition init_idle :: "'x env \<Rightarrow> tid \<Rightarrow> cpu \<Rightarrow> 'x kstate \<Rightarrow> 'x kstate" where
  "init_idle E idle c s =
     (let s = basic_fork idle s;
          s = upd_task idle (\<lambda>t. t\<lparr>p_state := TASK_RUNNING\<rparr>) s;
          s = do_set_cpus_allowed E idle {c} s;
          s = assign_task_cpu idle c s;
          s = upd_rq c (\<lambda>r. r\<lparr>rq_idle := idle, rq_curr := idle\<rparr>) s;
          s = upd_task idle (\<lambda>t. t\<lparr>p_on_rq := TASK_ON_RQ_QUEUED, p_on_cpu := True\<rparr>) s
      in upd_task idle (\<lambda>t. t\<lparr>p_preempt_count := 0, p_class := Idle_class\<rparr>) s)"

section \<open>Affinity system calls\<close>

abbreviation (input) PF_NO_SETAFFINITY :: u32 where "PF_NO_SETAFFINITY \<equiv> 0x4000000"

text \<open>
  The \<open>again\<close> loop of \<open>sched_setaffinity\<close>: \<open>cpusets\<close> are the masks \<open>cpuset_cpus_allowed\<close> gives,
  call after call; \<open>None\<close> if the loop outlasts them.
\<close>

fun affinity_loop ::
  "'x env \<Rightarrow> 'x stopper \<Rightarrow> tid \<Rightarrow> cpu set \<Rightarrow> cpu set list \<Rightarrow> 'x kstate \<Rightarrow> (crash + errno \<times> 'x kstate) option"
where
  "affinity_loop E stop_one p new_mask cpusets s =
     (case set_cpus_allowed_ptr E stop_one p new_mask s of
        Inl e \<Rightarrow> Some (Inl e)
      | Inr (ret, s) \<Rightarrow>
          if ret \<noteq> 0 then Some (Inr (ret, s))
          else (case cpusets of
                  [] \<Rightarrow> None
                | m # ms \<Rightarrow> if \<not> new_mask \<subseteq> m then affinity_loop E stop_one p m ms s
                            else Some (Inr (0, s))))"

text \<open>
  \<open>alloc1\<close>, \<open>alloc2\<close>: the two mask allocations succeed; \<open>cap\<close>: \<open>ns_capable\<close> over the task.
\<close>

definition sched_setaffinity ::
  "'x env \<Rightarrow> 'x stopper \<Rightarrow> (int \<Rightarrow> tid option) \<Rightarrow> bool \<Rightarrow> bool \<Rightarrow> (tid \<Rightarrow> bool) \<Rightarrow> int \<Rightarrow> cpu set \<Rightarrow>
     cpu set list \<Rightarrow> 'x kstate \<Rightarrow> (crash + errno \<times> 'x kstate) option"
where
  "sched_setaffinity E stop_one find_task alloc1 alloc2 cap pid in_mask cpusets s =
     (case find_process_by_pid find_task pid s of
        None \<Rightarrow> Some (Inr (- ESRCH, s))
      | Some p \<Rightarrow>
          if p_flags (ks_tasks s p) AND PF_NO_SETAFFINITY \<noteq> 0 then Some (Inr (- EINVAL, s))
          else if \<not> alloc1 \<or> \<not> alloc2 then Some (Inr (- ENOMEM, s))
          else if \<not> check_same_owner s p \<and> \<not> cap p then Some (Inr (- EPERM, s))
          else if security_setscheduler E p \<noteq> 0 then Some (Inr (security_setscheduler E p, s))
          else (case cpusets of
                  [] \<Rightarrow> None
                | m # ms \<Rightarrow>
                    let new_mask = in_mask \<inter> m in
                    if task_has_dl_policy s p \<and> dl_bandwidth_enabled E \<and>
                       \<not> rd_span (ks_rds s (rq_rd (ks_rqs s (task_cpu s p)))) \<subseteq> new_mask
                    then Some (Inr (- EBUSY, s))
                    else affinity_loop E stop_one p new_mask ms s))"

text \<open>
  The user's mask: \<open>bits\<close> are the CPUs set in its first \<open>len\<close> bytes, \<open>None\<close> if they fault;
  \<open>msize\<close> is \<open>cpumask_size()\<close>. A short mask is cleared first, a long one cut off.
\<close>

definition get_user_cpu_mask :: "nat \<Rightarrow> nat \<Rightarrow> cpu set option \<Rightarrow> errno + cpu set" where
  "get_user_cpu_mask msize len bits =
     (let len = (if len < msize then len else if len > msize then msize else len) in
      case bits of None \<Rightarrow> Inl (- EFAULT) | Some b \<Rightarrow> Inr {c \<in> b. c < 8 * len})"

definition sys_sched_setaffinity where
  "sys_sched_setaffinity E stop_one find_task alloc alloc1 alloc2 cap msize pid len bits cpusets s =
     (if \<not> alloc then Some (Inr (- ENOMEM, s))
      else case get_user_cpu_mask msize len bits of
        Inl err \<Rightarrow> Some (Inr (err, s))
      | Inr m \<Rightarrow> sched_setaffinity E stop_one find_task alloc1 alloc2 cap pid m cpusets s)"

definition sched_getaffinity ::
  "(int \<Rightarrow> tid option) \<Rightarrow> (tid \<Rightarrow> errno) \<Rightarrow> int \<Rightarrow> 'x kstate \<Rightarrow> errno + cpu set"
where
  "sched_getaffinity find_task sec pid s =
     (case find_process_by_pid find_task pid s of
        None \<Rightarrow> Inl (- ESRCH)
      | Some p \<Rightarrow> if sec p \<noteq> 0 then Inl (sec p) else Inr (p_cpus_allowed (ks_tasks s p) \<inter> ks_active s))"

text \<open>The result is the number of bytes written and the CPUs in them. \<open>len * 8\<close> wraps at 32 bits.\<close>

definition sys_sched_getaffinity ::
  "'x env \<Rightarrow> (int \<Rightarrow> tid option) \<Rightarrow> (tid \<Rightarrow> errno) \<Rightarrow> bool \<Rightarrow> bool \<Rightarrow> nat \<Rightarrow> int \<Rightarrow> u32 \<Rightarrow> 'x kstate \<Rightarrow>
     errno + nat \<times> cpu set"
where
  "sys_sched_getaffinity E find_task sec alloc copy_ok msize pid len s =
     (if unat (len * 8) < nr_cpu_ids E then Inl (- EINVAL)
      else if len AND 7 \<noteq> 0 then Inl (- EINVAL)
      else if \<not> alloc then Inl (- ENOMEM)
      else case sched_getaffinity find_task sec pid s of
        Inl err \<Rightarrow> Inl err
      | Inr m \<Rightarrow> let retlen = min (unat len) msize
                 in if copy_ok then Inr (retlen, {c \<in> m. c < 8 * retlen}) else Inl (- EFAULT))"

section \<open>Yielding\<close>

definition sys_sched_yield ::
  "'x env \<Rightarrow> 'x hooks \<Rightarrow> 'x switch_ops \<Rightarrow> (tid \<Rightarrow> 'x kstate \<Rightarrow> 'x kstate) option \<Rightarrow> (tid \<Rightarrow> bool) \<Rightarrow>
     'x kstate \<Rightarrow> (crash + 'x kstate) option"
where
  "sys_sched_yield E H A flush pi s =
     schedule E H A flush pi (co_yield (class_of E s (current_task s)) (ks_cpu s) s)"

definition yield where
  "yield E H A flush pi s =
     sys_sched_yield E H A flush pi (upd_task (current_task s) (\<lambda>t. t\<lparr>p_state := TASK_RUNNING\<rparr>) s)"

definition should_resched :: "'x kstate \<Rightarrow> bool" where
  "should_resched s \<longleftrightarrow> ks_preempt_count s = 0 \<and> ks_preempt_need_resched s"

definition cond_resched ::
  "'x env \<Rightarrow> 'x hooks \<Rightarrow> 'x switch_ops \<Rightarrow> 'x kstate \<Rightarrow> (crash + bool \<times> 'x kstate) option"
where
  "cond_resched E H A s =     \<comment> \<open>\<open>_cond_resched\<close>\<close>
     (if should_resched s
      then map_option (map_sum id (Pair True)) (run_schedule E H A (preempt_count_inc PREEMPT_ACTIVE s))
      else Some (Inr (False, s)))"

text \<open>
  \<open>yield_to\<close> up to the \<open>schedule()\<close> that follows a positive result; \<open>ytt\<close> is the class's
  \<open>yield_to_task\<close>.
\<close>

definition yield_to ::
  "(sched_class \<Rightarrow> (cpu \<Rightarrow> tid \<Rightarrow> bool \<Rightarrow> 'x kstate \<Rightarrow> bool \<times> 'x kstate) option) \<Rightarrow> tid \<Rightarrow> bool \<Rightarrow>
     'x kstate \<Rightarrow> int \<times> 'x kstate"
where
  "yield_to ytt p preempt s =
     (let c = ks_cpu s; pc = task_cpu s p; curr = current_task s in
      if rq_nr_running (ks_rqs s c) = 1 \<and> rq_nr_running (ks_rqs s pc) = 1 then (- ESRCH, s)
      else case ytt (p_class (ks_tasks s curr)) of
        None \<Rightarrow> (0, s)
      | Some f \<Rightarrow>
          if p_class (ks_tasks s curr) \<noteq> p_class (ks_tasks s p) then (0, s)
          else if p_on_cpu (ks_tasks s p) \<or> p_state (ks_tasks s p) \<noteq> 0 then (0, s)
          else let (y, s) = f c p preempt s
               in if y then (1, do_if (preempt \<and> c \<noteq> pc) (resched_curr pc) s) else (0, s))"

section \<open>Ticks and statistics\<close>

text \<open>\<open>load\<close>, \<open>balance\<close>: \<open>update_cpu_load_active\<close> and \<open>trigger_load_balance\<close>.\<close>

definition scheduler_tick ::
  "'x env \<Rightarrow> (cpu \<Rightarrow> 'x kstate \<Rightarrow> 'x kstate) \<Rightarrow> (cpu \<Rightarrow> 'x kstate \<Rightarrow> 'x kstate) \<Rightarrow> 'x kstate \<Rightarrow> 'x kstate"
where
  "scheduler_tick E load balance s =
     (let c = ks_cpu s; curr = rq_curr (ks_rqs s c);
          s = update_rq_clock E c s;
          s = co_task_tick (class_of E s curr) c curr s;
          s = load c s;
          s = upd_rq c (\<lambda>r. r\<lparr>rq_idle_balance := idle_cpu s c\<rparr>) s
      in balance c s)"

definition task_sched_runtime :: "'x env \<Rightarrow> tid \<Rightarrow> 'x kstate \<Rightarrow> u64 \<times> 'x kstate" where
  "task_sched_runtime E p s =
     (if \<not> p_on_cpu (ks_tasks s p) \<or> \<not> task_on_rq_queued s p
      then (p_sum_exec_runtime (ks_tasks s p), s)
      else
        let c = task_cpu s p;
            s = (if task_current s c p \<and> task_on_rq_queued s p
                 then (let s = update_rq_clock E c s in co_update_curr (class_of E s p) c s) else s)
        in (p_sum_exec_runtime (ks_tasks s p), s))"

definition nr_running :: "'x env \<Rightarrow> 'x kstate \<Rightarrow> u64" where
  "nr_running E s = fold (\<lambda>c sum. sum + ucast (rq_nr_running (ks_rqs s c))) (cpus_in E (ks_online s)) 0"

definition single_task_running :: "'x kstate \<Rightarrow> bool" where
  "single_task_running s \<longleftrightarrow> rq_nr_running (ks_rqs s (ks_cpu s)) = 1"

definition nr_context_switches :: "'x env \<Rightarrow> 'x kstate \<Rightarrow> u64" where
  "nr_context_switches E s = fold (\<lambda>c sum. sum + rq_nr_switches (ks_rqs s c)) (cpus_in E (ks_possible s)) 0"

definition nr_iowait :: "'x env \<Rightarrow> 'x kstate \<Rightarrow> u64" where
  "nr_iowait E s = fold (\<lambda>c sum. sum + scast (rq_nr_iowait (ks_rqs s c))) (cpus_in E (ks_possible s)) 0"

definition nr_iowait_cpu :: "'x kstate \<Rightarrow> cpu \<Rightarrow> u64" where
  "nr_iowait_cpu s c = scast (rq_nr_iowait (ks_rqs s c))"

definition get_iowait_load :: "'x kstate \<Rightarrow> u64 \<times> u64" where
  "get_iowait_load s =
     (scast (rq_nr_iowait (ks_rqs s (ks_cpu s))), rq_cpu_load0 (ks_rqs s (ks_cpu s)))"

declare affinity_loop.simps [simp del]

section \<open>Where a task ends up\<close>

text \<open>Queueing, dequeueing and wakeup preemption do not move tasks between CPUs.\<close>

definition placement_ok :: "'x env \<Rightarrow> bool" where
  "placement_ok E \<longleftrightarrow>
     (\<forall>k c p fl s q. task_cpu (co_enqueue (cls E k) c p fl s) q = task_cpu s q \<and>
        task_cpu (co_dequeue (cls E k) c p fl s) q = task_cpu s q \<and>
        task_cpu (co_check_preempt (cls E k) c p fl s) q = task_cpu s q) \<and>
     (\<forall>c p s q. task_cpu (sched_info_queued E c p s) q = task_cpu s q \<and>
        task_cpu (sched_info_dequeued E c p s) q = task_cpu s q) \<and>
     (\<forall>c d s q. task_cpu (sched_rt_avg_update E c d s) q = task_cpu s q) \<and>
     (\<forall>k f. co_set_allowed (cls E k) = Some f \<longrightarrow> (\<forall>p m s q. task_cpu (f p m s) q = task_cpu s q))"

lemma update_rq_clock_place: "placement_ok E \<Longrightarrow> task_cpu (update_rq_clock E c s) q = task_cpu s q"
  by (simp add: update_rq_clock_def update_rq_clock_task_def Let_def placement_ok_def split: option.split)

lemma enqueue_task_place: "placement_ok E \<Longrightarrow> task_cpu (enqueue_task E c p fl s) q = task_cpu s q"
  using update_rq_clock_place [of E c s q] by (simp add: enqueue_task_def Let_def placement_ok_def)

lemma check_preempt_curr_place: "placement_ok E \<Longrightarrow> task_cpu (check_preempt_curr E c p fl s) q = task_cpu s q"
  by (simp add: check_preempt_curr_def Let_def resched_curr_tasks placement_ok_def)

lemma do_set_cpus_allowed_place: "placement_ok E \<Longrightarrow> task_cpu (do_set_cpus_allowed E p m s) q = task_cpu s q"
  by (auto simp: do_set_cpus_allowed_def call_opt_def placement_ok_def split: option.split)

lemma move_queued_task_result:
  assumes "env_ok E" "placement_ok E"
  shows "\<exists>t. move_queued_task E p c s = Inr t \<and> task_cpu t p = c \<and>
    task_update p (\<lambda>t. t\<lparr>p_on_rq := TASK_ON_RQ_QUEUED\<rparr>) s t"
proof -
  define s1 where "s1 = set_task_cpu E p c (upd_task p (\<lambda>t. t\<lparr>p_on_rq := TASK_ON_RQ_MIGRATING\<rparr>)
    (dequeue_task E (task_cpu s p) p 0 s))"
  define s2 where "s2 = upd_task p (\<lambda>t. t\<lparr>p_on_rq := TASK_ON_RQ_QUEUED\<rparr>) s1"
  let ?t = "check_preempt_curr E c p 0 (enqueue_task E c p 0 s2)"
  have c: "task_cpu s1 p = c" by (simp add: s1_def)
  have run: "move_queued_task E p c s = Inr ?t"
    using c by (simp add: move_queued_task_def Let_def s1_def [symmetric] s2_def)
  have "task_cpu ?t p = c"
    using c assms(2) by (simp add: check_preempt_curr_place enqueue_task_place s2_def)
  moreover have "same_core (upd_task p (\<lambda>t. t\<lparr>p_on_rq := TASK_ON_RQ_MIGRATING\<rparr>)
      (dequeue_task E (task_cpu s p) p 0 s)) s1"
    using assms(1) by (simp add: s1_def frame)
  moreover have "same_core s (dequeue_task E (task_cpu s p) p 0 s)" "same_core s2 ?t"
    using assms(1) by (simp_all add: frame)
  ultimately show ?thesis
    using run by (auto simp: task_update_def same_core_def s2_def core_task_def)
qed


lemma demo_placement_ok: "placement_ok demo_env"
  by (simp add: placement_ok_def demo_env_def demo_class_def demo_idle_class_def)


text \<open>The stopper runs a migration; it does not change the mask of the task that asked for it.\<close>

definition stopper_ok :: "'x stopper \<Rightarrow> bool" where
  "stopper_ok stop_one \<longleftrightarrow>
     (\<forall>c f s t p. stop_one c f s = Inr t \<longrightarrow> p_cpus_allowed (ks_tasks t p) = p_cpus_allowed (ks_tasks s p))"

lemma set_cpus_allowed_ptr_mask:
  assumes "env_ok E" "placement_ok E" "stopper_ok stop_one" "set_cpus_allowed_ptr E stop_one p m s = Inr (0, t)"
  shows "p_cpus_allowed (ks_tasks t p) = m"
proof -
  let ?s = "do_set_cpus_allowed E p m s"
  have s: "p_cpus_allowed (ks_tasks ?s p) = m"
    by (simp add: do_set_cpus_allowed_def)
  have mv: "p_cpus_allowed (ks_tasks t p) = m" if "move_queued_task E p d ?s = Inr t" for d
  proof -
    have "task_update p (\<lambda>t. t\<lparr>p_on_rq := TASK_ON_RQ_QUEUED\<rparr>) ?s t"
      using move_queued_task_result [OF assms(1,2), of p d ?s] that by simp
    from task_update_self [OF this] s show ?thesis by (simp add: core_task_def)
  qed
  have st: "p_cpus_allowed (ks_tasks t p) = m" if "stop_one c f ?s = Inr t" for c f
    using assms(3) that s unfolding stopper_ok_def by metis
  have step: "(if b1 then Inr (0, s) else if b2 then Inr (- EINVAL, s) else if b3 then Inr (0, ?s)
      else if b4 then bindC (stop_one c f ?s) (\<lambda>s. Inr (0, s))
      else if b5 then bindC (move_queued_task E p d ?s) (\<lambda>s. Inr (0, s)) else Inr (0, ?s)) = Inr (0, t) \<Longrightarrow>
    (b1 \<and> t = s) \<or> t = ?s \<or> stop_one c f ?s = Inr t \<or> move_queued_task E p d ?s = Inr t"
    for b1 b2 b3 b4 b5 c f d
    by (auto simp: bindC_Inr_iff split: if_split_asm)
  from step [OF assms(4) [unfolded set_cpus_allowed_ptr_def Let_def]] s show ?thesis
    by (auto dest: mv st)
qed



end
