(* ===== verification/Sched_Domains.thy ===== *)
theory Sched_Domains
  imports Sched_Affinity "HOL-Library.Sublist"
begin

text \<open>
  Root domains and scheduling domains in \<^verbatim>\<open>core.c\<close>: attaching a runqueue to a root domain,
  the construction of a root domain with its error path, the removal of domains that do not
  contribute, and the replacement of one partition of the CPUs by another. The domains of
  a CPU are a list, innermost first (\<open>parent\<close> is the next element).
\<close>

section \<open>Root domains\<close>

text \<open>
  \<open>rq_attach_root\<close> on a runqueue that has a root domain; the result says which old domain, if
  any, is freed.
\<close>

definition rq_attach_root ::
  "'x class_hook \<Rightarrow> 'x class_hook \<Rightarrow> cpu \<Rightarrow> nat \<Rightarrow> 'x kstate \<Rightarrow> nat option \<times> 'x kstate"
where
  "rq_attach_root up down c rd s =
     (let old = rq_rd (ks_rqs s c);
          s = do_if (c \<in> rd_online (ks_rds s old)) (set_rq_offline down c) s;
          s = upd_rd old (\<lambda>d. d\<lparr>rd_span := rd_span d - {c}\<rparr>) s;
          s = upd_rd old (\<lambda>d. d\<lparr>rd_refcount := rd_refcount d - 1\<rparr>) s;
          freed = (if rd_refcount (ks_rds s old) = 0 then Some old else None);
          s = upd_rd rd (\<lambda>d. d\<lparr>rd_refcount := rd_refcount d + 1\<rparr>) s;
          s = upd_rq c (\<lambda>r. r\<lparr>rq_rd := rd\<rparr>) s;
          s = upd_rd rd (\<lambda>d. d\<lparr>rd_span := insert c (rd_span d)\<rparr>) s
      in (freed, do_if (c \<in> ks_active s) (set_rq_online up c) s))"

datatype rd_part = Span_mask | Online_mask | Dlo_mask | Rto_mask | Cpudl | Cpupri

text \<open>
  \<open>init_rootdomain\<close>: \<open>ok part\<close> tells whether the part can be allocated; the result is the
  error and the parts that are allocated when the function returns.
\<close>

definition init_rootdomain :: "(rd_part \<Rightarrow> bool) \<Rightarrow> errno \<times> rd_part set" where
  "init_rootdomain ok =
     (let free_span = (\<lambda>l. (- ENOMEM, l - {Span_mask}));
          free_online = (\<lambda>l. free_span (l - {Online_mask}));
          free_dlo_mask = (\<lambda>l. free_online (l - {Dlo_mask}));
          free_rto_mask = (\<lambda>l. free_dlo_mask (l - {Rto_mask}))
      in if \<not> ok Span_mask then (- ENOMEM, {})
         else let live = {Span_mask} in
         if \<not> ok Online_mask then free_span live
         else let live = insert Online_mask live in
         if \<not> ok Dlo_mask then free_online live
         else let live = insert Dlo_mask live in
         if \<not> ok Rto_mask then free_dlo_mask live
         else let live = insert Rto_mask live in
         if \<not> ok Cpudl then free_dlo_mask live
         else let live = insert Cpudl live in
         if \<not> ok Cpupri then free_rto_mask live
         else (0, insert Cpupri live))"

text \<open>\<open>alloc_rootdomain\<close>: \<open>got\<close>, the structure itself; the result: success, and what stays allocated.\<close>

definition alloc_rootdomain :: "bool \<Rightarrow> (rd_part \<Rightarrow> bool) \<Rightarrow> bool \<times> rd_part set" where
  "alloc_rootdomain got ok =
     (if \<not> got then (False, {})
      else let (err, live) = init_rootdomain ok in (err = 0, live))"

section \<open>Scheduling domains\<close>

record sched_domain =
  sd_span :: "cpu set"
  sd_flags :: u32
  sd_groups :: nat               \<comment> \<open>the length of the ring of groups\<close>

abbreviation (input) SD_LOAD_BALANCE :: u32 where "SD_LOAD_BALANCE \<equiv> 0x1"
abbreviation (input) SD_BALANCE_NEWIDLE :: u32 where "SD_BALANCE_NEWIDLE \<equiv> 0x2"
abbreviation (input) SD_EXEC :: u32 where "SD_EXEC \<equiv> 0x4"
abbreviation (input) SD_FORK :: u32 where "SD_FORK \<equiv> 0x8"
abbreviation (input) SD_WAKE_AFFINE :: u32 where "SD_WAKE_AFFINE \<equiv> 0x20"
abbreviation (input) SD_SHARE_CPUCAPACITY :: u32 where "SD_SHARE_CPUCAPACITY \<equiv> 0x80"
abbreviation (input) SD_SHARE_POWERDOMAIN :: u32 where "SD_SHARE_POWERDOMAIN \<equiv> 0x100"
abbreviation (input) SD_SHARE_PKG_RESOURCES :: u32 where "SD_SHARE_PKG_RESOURCES \<equiv> 0x200"
abbreviation (input) SD_SERIALIZE :: u32 where "SD_SERIALIZE \<equiv> 0x400"
abbreviation (input) SD_ASYM_PACKING :: u32 where "SD_ASYM_PACKING \<equiv> 0x800"
abbreviation (input) SD_PREFER_SIBLING :: u32 where "SD_PREFER_SIBLING \<equiv> 0x1000"
abbreviation (input) SD_NUMA :: u32 where "SD_NUMA \<equiv> 0x4000"

abbreviation group_flags :: u32 where
  "group_flags \<equiv> SD_LOAD_BALANCE OR SD_BALANCE_NEWIDLE OR SD_FORK OR SD_EXEC OR SD_SHARE_CPUCAPACITY OR
     SD_SHARE_PKG_RESOURCES OR SD_SHARE_POWERDOMAIN"

definition sd_degenerate :: "sched_domain \<Rightarrow> bool" where
  "sd_degenerate sd =
     (if card (sd_span sd) = 1 then True
      else if sd_flags sd AND group_flags \<noteq> 0 \<and> sd_groups sd \<noteq> 1 then False
      else if sd_flags sd AND SD_WAKE_AFFINE \<noteq> 0 then False
      else True)"

text \<open>\<open>nodes\<close> is \<open>nr_node_ids\<close>.\<close>

definition sd_parent_degenerate :: "nat \<Rightarrow> sched_domain \<Rightarrow> sched_domain \<Rightarrow> bool" where
  "sd_parent_degenerate nodes sd parent =
     (if sd_degenerate parent then True
      else if sd_span sd \<noteq> sd_span parent then False
      else
        let pflags = (if sd_groups parent = 1
                      then let f = sd_flags parent AND NOT (group_flags OR SD_PREFER_SIBLING)
                           in if nodes = 1 then f AND NOT SD_SERIALIZE else f
                      else sd_flags parent)
        in if NOT (sd_flags sd) AND pflags \<noteq> 0 then False else True)"

text \<open>The first loop of \<open>cpu_attach_domain\<close>.\<close>

fun drop_parents :: "nat \<Rightarrow> sched_domain list \<Rightarrow> sched_domain list" where
  "drop_parents nodes (tmp # parent # rest) =
     (if sd_parent_degenerate nodes tmp parent
      then drop_parents nodes
             ((if sd_flags parent AND SD_PREFER_SIBLING \<noteq> 0
               then tmp\<lparr>sd_flags := sd_flags tmp OR SD_PREFER_SIBLING\<rparr> else tmp) # rest)
      else tmp # drop_parents nodes (parent # rest))"
| "drop_parents nodes sds = sds"

definition attach_list :: "nat \<Rightarrow> sched_domain list \<Rightarrow> sched_domain list" where
  "attach_list nodes sds =
     (case drop_parents nodes sds of
        [] \<Rightarrow> []
      | sd # rest \<Rightarrow> if sd_degenerate sd then rest else sd # rest)"

text \<open>\<open>highest_flag_domain\<close> and \<open>lowest_flag_domain\<close> of the scheduler's header.\<close>

fun highest_flag_domain :: "u32 \<Rightarrow> sched_domain list \<Rightarrow> sched_domain list" where
  "highest_flag_domain flag [] = []"
| "highest_flag_domain flag (sd # rest) =
     (if sd_flags sd AND flag = 0 then []
      else case highest_flag_domain flag rest of [] \<Rightarrow> sd # rest | hs \<Rightarrow> hs)"

definition lowest_flag_domain :: "u32 \<Rightarrow> sched_domain list \<Rightarrow> sched_domain list" where
  "lowest_flag_domain flag sds = dropWhile (\<lambda>sd. sd_flags sd AND flag = 0) sds"

record top_cache =
  tc_busy :: "sched_domain option"
  tc_llc :: "sched_domain option"
  tc_llc_size :: nat
  tc_llc_id :: cpu
  tc_numa :: "sched_domain option"
  tc_asym :: "sched_domain option"

definition head_opt :: "'a list \<Rightarrow> 'a option" where
  "head_opt xs = (case xs of [] \<Rightarrow> None | x # _ \<Rightarrow> Some x)"

definition update_top_cache_domain :: "'x env \<Rightarrow> cpu \<Rightarrow> sched_domain list \<Rightarrow> top_cache" where
  "update_top_cache_domain E c sds =
     (let llc = highest_flag_domain SD_SHARE_PKG_RESOURCES sds;
          (busy, cid, sz) =
            (case llc of [] \<Rightarrow> (None, c, 1)
             | sd # up \<Rightarrow> (head_opt up,
                           (case cpus_in E (sd_span sd) of [] \<Rightarrow> nr_cpu_ids E | i # _ \<Rightarrow> i), card (sd_span sd)))
      in \<lparr>tc_busy = busy, tc_llc = head_opt llc, tc_llc_size = sz, tc_llc_id = cid,
          tc_numa = head_opt (lowest_flag_domain SD_NUMA sds),
          tc_asym = head_opt (highest_flag_domain SD_ASYM_PACKING sds)\<rparr>)"

text \<open>\<open>cpu_attach_domain\<close>: the store, the CPU's domains, and its shortcuts.\<close>

definition cpu_attach_domain ::
  "'x env \<Rightarrow> nat \<Rightarrow> 'x class_hook \<Rightarrow> 'x class_hook \<Rightarrow> sched_domain list \<Rightarrow> nat \<Rightarrow> cpu \<Rightarrow> 'x kstate \<Rightarrow>
     (sched_domain list \<times> top_cache) \<times> 'x kstate"
where
  "cpu_attach_domain E nodes up down sds rd c s =
     (let sds = attach_list nodes sds;
          (_, s) = rq_attach_root up down c rd s
      in ((sds, update_top_cache_domain E c sds), s))"

section \<open>Partitions\<close>

text \<open>
  Attributes are their relax level; a null array stands for the initial value, \<open>- 1\<close>,
  everywhere. A read past the end of an array is an access out of bounds.
\<close>

definition attr_at :: "int list option \<Rightarrow> nat \<Rightarrow> int" where
  "attr_at as i = (case as of None \<Rightarrow> - 1 | Some xs \<Rightarrow> xs ! i)"

definition dattrs_equal :: "int list option \<Rightarrow> nat \<Rightarrow> int list option \<Rightarrow> nat \<Rightarrow> bool" where
  "dattrs_equal cur i new j = (if new = None \<and> cur = None then True else attr_at cur i = attr_at new j)"

record partition =
  pt_doms :: "cpu set list"
  pt_attrs :: "int list option"

text \<open>The inner loops: is there a match for the domain at \<open>i\<close> among the first \<open>n\<close> of the other side?\<close>

definition dom_match ::
  "bool \<Rightarrow> nat \<Rightarrow> cpu set list \<Rightarrow> int list option \<Rightarrow> nat \<Rightarrow> cpu set list \<Rightarrow> int list option \<Rightarrow> bool"
where
  "dom_match new_topology n ds das i es eas \<longleftrightarrow>
     \<not> new_topology \<and> list_ex (\<lambda>j. ds ! i = es ! j \<and> dattrs_equal das i eas j) [0..<n]"

text \<open>
  \<open>partition_sched_domains\<close>: the domains torn down, those built (with their attribute), and
  the partition remembered. \<open>spare\<close> is the mask of active CPUs that are not isolated.
\<close>

definition partition_sched_domains ::
  "bool \<Rightarrow> cpu set \<Rightarrow> partition \<Rightarrow> nat \<Rightarrow> cpu set list option \<Rightarrow> int list option \<Rightarrow>
     crash + cpu set list \<times> (cpu set \<times> int) list \<times> partition"
where
  "partition_sched_domains new_topology spare cur ndoms doms dattr =
     (let dc = pt_doms cur; n = (case doms of None \<Rightarrow> 0 | Some _ \<Rightarrow> ndoms);
          old = (case doms of None \<Rightarrow> [] | Some ds \<Rightarrow> ds);
          gone = map (\<lambda>i. dc ! i)
                   (filter (\<lambda>i. \<not> dom_match new_topology n dc (pt_attrs cur) i old dattr) [0..<length dc]);
          n' = (case doms of None \<Rightarrow> 0 | Some _ \<Rightarrow> length dc);
          dn = (case doms of None \<Rightarrow> [spare] | Some ds \<Rightarrow> ds)
      in if length dn < ndoms \<or> (case dattr of None \<Rightarrow> False | Some as \<Rightarrow> length as < ndoms) then Inl OutOfBounds
         else
           let built = map (\<lambda>i. (dn ! i, attr_at dattr i))
                 (filter (\<lambda>i. \<not> dom_match new_topology n' dn dattr i dc (pt_attrs cur)) [0..<ndoms])
           in Inr (gone, built, \<lparr>pt_doms = take ndoms dn, pt_attrs = dattr\<rparr>))"

section \<open>Attaching keeps the books\<close>

text \<open>What the root domains know of the runqueues.\<close>

definition rd_view ::
  "'x kstate \<Rightarrow> (nat \<Rightarrow> cpu set \<times> cpu set \<times> int) \<times> (cpu \<Rightarrow> nat \<times> bool) \<times> cpu set"
where
  "rd_view s =
     ((\<lambda>d. (rd_span (ks_rds s d), rd_online (ks_rds s d), rd_refcount (ks_rds s d))),
      (\<lambda>c. (rq_rd (ks_rqs s c), rq_online (ks_rqs s c))), ks_active s)"

text \<open>The classes' online and offline methods leave it alone.\<close>

definition class_hook_ok :: "'x class_hook \<Rightarrow> bool" where
  "class_hook_ok h \<longleftrightarrow>
     (\<forall>k c s. rd_view (call_opt (map_option (\<lambda>f. f c) (h k)) s) = rd_view s)"

lemma for_each_class_view: "class_hook_ok h \<Longrightarrow> rd_view (for_each_class h c s) = rd_view s"
  by (simp add: for_each_class_def all_classes_def class_hook_ok_def)

lemma rd_view_fields:
  assumes "rd_view s = rd_view t"
  shows "rd_span (ks_rds s d) = rd_span (ks_rds t d)" "rd_online (ks_rds s d) = rd_online (ks_rds t d)"
    "rd_refcount (ks_rds s d) = rd_refcount (ks_rds t d)" "rq_rd (ks_rqs s c) = rq_rd (ks_rqs t c)"
    "rq_online (ks_rqs s c) = rq_online (ks_rqs t c)" "ks_active s = ks_active t"
  using assms by (auto simp: rd_view_def fun_eq_iff)

text \<open>
  The invariant: a CPU is in the span of the root domain of its runqueue and no other, it is
  online there exactly if its runqueue is, and a domain's count is that of its runqueues
  beside the \<open>base\<close> references others hold.
\<close>

definition rd_ok :: "nat \<Rightarrow> (nat \<Rightarrow> int) \<Rightarrow> 'x kstate \<Rightarrow> bool" where
  "rd_ok n base s \<longleftrightarrow>
     (\<forall>c < n. \<forall>d. c \<in> rd_span (ks_rds s d) \<longleftrightarrow> rq_rd (ks_rqs s c) = d) \<and>
     (\<forall>c < n. \<forall>d. c \<in> rd_online (ks_rds s d) \<longleftrightarrow> rq_rd (ks_rqs s c) = d \<and> rq_online (ks_rqs s c)) \<and>
     (\<forall>d. rd_refcount (ks_rds s d) = base d + int (card {c. c < n \<and> rq_rd (ks_rqs s c) = d}))"

text \<open>One CPU moves from a domain to another.\<close>

lemma card_moved:
  assumes "c < (n :: nat)"
  shows "int (card {x. x < n \<and> (if x = c then e else f x) = d}) =
    int (card {x. x < n \<and> f x = d}) - (if f c = d then 1 else 0) + (if e = d then 1 else (0::int))"
proof -
  define M where "M = {x. x < n \<and> x \<noteq> c \<and> f x = d}"
  have "M \<subseteq> {..<n}" by (auto simp: M_def)
  then have fin: "finite M" "c \<notin> M" by (auto simp: M_def dest: finite_subset)
  have "{x. x < n \<and> (if x = c then e else f x) = d} = (if e = d then insert c M else M)"
    "{x. x < n \<and> f x = d} = (if f c = d then insert c M else M)"
    using assms by (auto simp: M_def split: if_splits)
  then show ?thesis using fin by simp
qed

lemma set_rq_offline_view:
  assumes "class_hook_ok down"
  shows "rd_span (ks_rds (set_rq_offline down c s) d) = rd_span (ks_rds s d)"
    "rd_online (ks_rds (set_rq_offline down c s) d) =
      (if rq_online (ks_rqs s c) \<and> d = rq_rd (ks_rqs s c) then rd_online (ks_rds s d) - {c}
       else rd_online (ks_rds s d))"
    "rd_refcount (ks_rds (set_rq_offline down c s) d) = rd_refcount (ks_rds s d)"
    "rq_rd (ks_rqs (set_rq_offline down c s) x) = rq_rd (ks_rqs s x)"
    "rq_online (ks_rqs (set_rq_offline down c s) x) = (rq_online (ks_rqs s x) \<and> x \<noteq> c)"
    "ks_active (set_rq_offline down c s) = ks_active s"
  using rd_view_fields [OF for_each_class_view [OF assms]]
  by (auto simp: set_rq_offline_def upd_rd_def upd_rq_def Let_def)

lemma set_rq_online_view:
  assumes "class_hook_ok up"
  shows "rd_span (ks_rds (set_rq_online up c s) d) = rd_span (ks_rds s d)"
    "rd_online (ks_rds (set_rq_online up c s) d) =
      (if \<not> rq_online (ks_rqs s c) \<and> d = rq_rd (ks_rqs s c) then insert c (rd_online (ks_rds s d))
       else rd_online (ks_rds s d))"
    "rd_refcount (ks_rds (set_rq_online up c s) d) = rd_refcount (ks_rds s d)"
    "rq_rd (ks_rqs (set_rq_online up c s) x) = rq_rd (ks_rqs s x)"
    "rq_online (ks_rqs (set_rq_online up c s) x) = (rq_online (ks_rqs s x) \<or> x = c)"
    "ks_active (set_rq_online up c s) = ks_active s"
  using rd_view_fields [OF for_each_class_view [OF assms]]
  by (auto simp: set_rq_online_def upd_rd_def upd_rq_def Let_def)

lemma rq_attach_root_view:
  fixes rd :: nat
  assumes "class_hook_ok up" "class_hook_ok down" "rd_ok n base s" "c < n"
  defines "t \<equiv> snd (rq_attach_root up down c rd s)" and "old \<equiv> rq_rd (ks_rqs s c)"
  shows "rd_span (ks_rds t d) =
      (if d = rd then insert c (rd_span (ks_rds s d)) else rd_span (ks_rds s d) - {c})"
    "rd_online (ks_rds t d) =
      (if d = rd \<and> c \<in> ks_active s then insert c (rd_online (ks_rds s d))
       else rd_online (ks_rds s d) - {c})"
    "rd_refcount (ks_rds t d) =
      rd_refcount (ks_rds s d) - (if old = d then 1 else 0) + (if rd = d then 1 else 0)"
    "rq_rd (ks_rqs t x) = (if x = c then rd else rq_rd (ks_rqs s x))"
    "rq_online (ks_rqs t x) = (if x = c then c \<in> ks_active s else rq_online (ks_rqs s x))"
  using assms(3,4) unfolding rd_ok_def t_def old_def
  by (auto simp: rq_attach_root_def do_if_def Let_def set_rq_online_view [OF assms(1)]
      set_rq_offline_view [OF assms(2)])

lemma rq_attach_root_freed:
  assumes "class_hook_ok down"
  shows "fst (rq_attach_root up down c rd s) =
    (if rd_refcount (ks_rds s (rq_rd (ks_rqs s c))) = 1 then Some (rq_rd (ks_rqs s c)) else None)"
  by (simp add: rq_attach_root_def do_if_def Let_def set_rq_offline_view [OF assms])

lemma rd_ok_attach:
  assumes "class_hook_ok up" "class_hook_ok down" "rd_ok n base s" "c < n"
  shows "rd_ok n base (snd (rq_attach_root up down c rd s))"
proof -
  note v = rq_attach_root_view [OF assms, of rd]
  have old: "x \<in> rd_span (ks_rds s d) \<longleftrightarrow> rq_rd (ks_rqs s x) = d"
    "x \<in> rd_online (ks_rds s d) \<longleftrightarrow> rq_rd (ks_rqs s x) = d \<and> rq_online (ks_rqs s x)" if "x < n" for x d
    using assms(3) that by (auto simp: rd_ok_def)
  have cnt: "rd_refcount (ks_rds s d) = base d + int (card {x. x < n \<and> rq_rd (ks_rqs s x) = d})" for d
    using assms(3) by (simp add: rd_ok_def)
  show ?thesis
    unfolding rd_ok_def v cnt card_moved [OF assms(4)]
    by (auto simp: old assms(4))
qed

text \<open>C18  Attaching a runqueue to a root domain keeps the books: afterwards the CPU is in the span
  of that domain and of no other, it is online there exactly if it is an active CPU, and every
  domain's reference count is that of the runqueues attached to it beside the references of
  others. A domain is freed exactly if the CPU held its last reference, and, unless it is the
  one attached again, no runqueue is left on it.\<close>

theorem rq_attach_root_books:
  assumes "class_hook_ok up" "class_hook_ok down" "rd_ok n base s" "c < n"
    and "rq_attach_root up down c rd s = (freed, t)"
  shows "rd_ok n base t \<and> rq_rd (ks_rqs t c) = rd \<and> rq_online (ks_rqs t c) = (c \<in> ks_active s) \<and>
    freed = (let old = rq_rd (ks_rqs s c) in if rd_refcount (ks_rds s old) = 1 then Some old else None) \<and>
    (\<forall>d x. freed = Some d \<and> d \<noteq> rd \<and> 0 \<le> base d \<and> x < n \<longrightarrow> rq_rd (ks_rqs t x) \<noteq> d)"
proof -
  have t: "t = snd (rq_attach_root up down c rd s)" and f: "freed = fst (rq_attach_root up down c rd s)"
    using assms(5) by simp_all
  note v = rq_attach_root_view [OF assms(1-4), of rd]
  have ok: "rd_ok n base t" unfolding t by (rule rd_ok_attach [OF assms(1-4)])
  have fr: "freed = (let old = rq_rd (ks_rqs s c) in if rd_refcount (ks_rds s old) = 1 then Some old else None)"
    unfolding f Let_def by (rule rq_attach_root_freed [OF assms(2)])
  have "rq_rd (ks_rqs t x) \<noteq> d" if d: "freed = Some d" "d \<noteq> rd" "0 \<le> base d" "x < n" for d x
  proof -
    have "rd_refcount (ks_rds t d) = 0"
      using d fr by (auto simp: t v Let_def split: if_splits)
    then have "int (card {x. x < n \<and> rq_rd (ks_rqs t x) = d}) = 0"
      using ok d(3) unfolding rd_ok_def by (metis add_nonneg_eq_0_iff of_nat_0_le_iff)
    then show ?thesis using d(4) by auto
  qed
  then show ?thesis using ok fr by (simp add: t v)
qed

definition no_hook :: "'x class_hook" where
  "no_hook = (\<lambda>_. None)"

lemma no_hook_ok: "class_hook_ok no_hook"
  by (simp add: class_hook_ok_def no_hook_def call_opt_def)

text \<open>Both CPUs leave the default root domain, 0, for domain 1: the second frees it.\<close>

definition two_domains :: "demo_ext kstate" where
  "two_domains = demo_state\<lparr>ks_rds := (\<lambda>d. (ks_rds demo_state d)
     \<lparr>rd_span := (if d = 0 then {1} else if d = 1 then {0} else {}), rd_online := {},
      rd_refcount := (if d < 2 then 1 else 0)\<rparr>),
     ks_rqs := (\<lambda>c. (ks_rqs demo_state c)\<lparr>rq_rd := (if c = 0 then 1 else 0), rq_online := False\<rparr>)\<rparr>"

lemma two_domains_ok: "rd_ok 2 (\<lambda>_. 0) two_domains"
proof -
  have "{c. c < (2::nat) \<and> (if c = 0 then 1 else 0) = d} = (if d = 1 then {0} else if d = 0 then {1} else {})"
    for d :: nat by auto
  then show ?thesis
    by (simp add: rd_ok_def two_domains_def)
qed

theorem rq_attach_root_books_witness:
  "\<exists>t. rq_attach_root no_hook no_hook 1 1 two_domains = (Some 0, t) \<and> rd_ok 2 (\<lambda>_. 0) t \<and>
     rq_rd (ks_rqs t 0) \<noteq> 0"
proof -
  obtain f t where r: "rq_attach_root no_hook no_hook 1 1 two_domains = (f, t)" by force
  have h: "(1::cpu) < 2" by simp
  note b = rq_attach_root_books [OF no_hook_ok no_hook_ok two_domains_ok h r]
  have f: "f = Some 0" using b by (simp add: two_domains_def)
  show ?thesis using r b f by simp
qed

section \<open>What the construction of a root domain leaves behind\<close>

text \<open> A root domain is built completely or the error is out of memory; the error path frees
  everything that was allocated except in two cases: if the deadline heap cannot be allocated the
  mask of overloaded real-time CPUs stays behind, and if the priority heap cannot, the deadline
  heap does.\<close>

theorem init_rootdomain_leaks:
  "init_rootdomain ok =
     (if list_all ok [Span_mask, Online_mask, Dlo_mask, Rto_mask, Cpudl, Cpupri]
      then (0, {Span_mask, Online_mask, Dlo_mask, Rto_mask, Cpudl, Cpupri})
      else (- ENOMEM,
            if \<not> list_all ok [Span_mask, Online_mask, Dlo_mask, Rto_mask] then {}
            else if \<not> ok Cpudl then {Rto_mask} else {Cpudl}))"
  by (auto simp: init_rootdomain_def Let_def)

section \<open>The domains of a CPU\<close>

definition prefer_sibling_only :: "sched_domain \<Rightarrow> sched_domain \<Rightarrow> bool" where
  "prefer_sibling_only a b \<longleftrightarrow> b = a \<or> b = a\<lparr>sd_flags := sd_flags a OR SD_PREFER_SIBLING\<rparr>"

lemma drop_parents_head:
  "\<exists>b rest. drop_parents nodes (a # sds) = b # rest \<and> prefer_sibling_only a b"
proof (induction sds arbitrary: a)
  case (Cons p sds)
  let ?a = "if sd_flags p AND SD_PREFER_SIBLING \<noteq> 0
    then a\<lparr>sd_flags := sd_flags a OR SD_PREFER_SIBLING\<rparr> else a"
  obtain b rest where b: "drop_parents nodes (?a # sds) = b # rest" "prefer_sibling_only ?a b"
    using Cons.IH by blast
  have "prefer_sibling_only a b"
    using b(2) by (auto simp: prefer_sibling_only_def or.assoc split: if_splits)
  with b(1) show ?case by (auto simp: prefer_sibling_only_def)
qed (simp add: prefer_sibling_only_def)

text \<open>A flag that a domain inherits from a dropped parent does not make it redundant.\<close>

lemma parent_stays:
  assumes "prefer_sibling_only p p'" "\<not> sd_parent_degenerate nodes a p"
  shows "\<not> sd_parent_degenerate nodes a p'"
proof -
  have bit: "(f OR SD_PREFER_SIBLING) AND group_flags = f AND group_flags"
    "(f OR SD_PREFER_SIBLING) AND SD_WAKE_AFFINE = f AND SD_WAKE_AFFINE"
    "(f OR SD_PREFER_SIBLING) AND NOT (group_flags OR SD_PREFER_SIBLING) = f AND NOT (group_flags OR SD_PREFER_SIBLING)"
    for f :: u32
    by (simp_all add: word_ao_dist)
  have deg: "sd_degenerate p' = sd_degenerate p"
    using assms(1) by (auto simp: prefer_sibling_only_def sd_degenerate_def bit [simplified])
  have mono: "NOT f AND g = 0" if "NOT f AND (g OR 0x1000) = 0" for f g :: u32
    using that by (metis and.right_idem and_zero_eq bit.conj_disj_distrib or_eq_0_iff)
  show ?thesis
  proof (cases "p' = p")
    case False
    then have p': "p' = p\<lparr>sd_flags := sd_flags p OR SD_PREFER_SIBLING\<rparr>"
      using assms(1) by (simp add: prefer_sibling_only_def)
    show ?thesis
      using assms(2) deg unfolding sd_parent_degenerate_def p'
      by (auto simp: Let_def bit [simplified] dest: mono split: if_split_asm)
  qed (use assms in simp)
qed

lemma drop_parents_separated:
  "successively (\<lambda>a b. \<not> sd_parent_degenerate nodes a b) (drop_parents nodes sds)"
proof (induction nodes sds rule: drop_parents.induct)
  case (1 nodes a p rest)
  show ?case
  proof (cases "sd_parent_degenerate nodes a p")
    case True
    with 1 show ?thesis by auto
  next
    case False
    obtain p' ps where d: "drop_parents nodes (p # rest) = p' # ps" "prefer_sibling_only p p'"
      using drop_parents_head by blast
    with 1(2) [OF False] parent_stays [OF d(2) False] False show ?thesis by simp
  qed
qed simp_all

lemma subseq_skip: "subseq xs (a # ys) \<Longrightarrow> subseq xs (a # b # ys)"
  by (rule subseq_order.trans [of xs "a # ys"]) (auto intro: list_emb_Cons)

lemma drop_parents_spans: "subseq (map sd_span (drop_parents nodes sds)) (map sd_span sds)"
proof (induction nodes sds rule: drop_parents.induct)
  case (1 nodes a p rest)
  then show ?case
    by (auto split: if_splits intro: subseq_skip)
qed simp_all

lemma separated_parents:
  "successively (\<lambda>a b. \<not> sd_parent_degenerate nodes a b) (a # sds) \<Longrightarrow> list_all (\<lambda>b. \<not> sd_degenerate b) sds"
  by (induction sds arbitrary: a) (auto simp: sd_parent_degenerate_def split: if_splits)

text \<open> Of the domains built for a CPU the scheduler keeps a subsequence in which none is degenerate and
  no parent is redundant beside its child, whatever flags the children took over from the
  parents that were dropped.\<close>

theorem attach_list_irredundant:
  "list_all (\<lambda>b. \<not> sd_degenerate b) (attach_list nodes sds) \<and>
   successively (\<lambda>a b. \<not> sd_parent_degenerate nodes a b) (attach_list nodes sds) \<and>
   subseq (map sd_span (attach_list nodes sds)) (map sd_span sds)"
proof (cases "drop_parents nodes sds")
  case (Cons a rest)
  have sep: "successively (\<lambda>a b. \<not> sd_parent_degenerate nodes a b) (a # rest)"
    and sub: "subseq (map sd_span (a # rest)) (map sd_span sds)"
    using drop_parents_separated [of nodes sds] drop_parents_spans [of nodes sds] Cons by simp_all
  have rest: "successively (\<lambda>a b. \<not> sd_parent_degenerate nodes a b) rest"
    using sep by (cases rest) simp_all
  from sub have sub': "subseq (map sd_span rest) (map sd_span sds)"
    by (auto dest: subseq_Cons')
  show ?thesis
    using Cons sep rest sub sub' separated_parents [OF sep] by (auto simp: attach_list_def)
qed (simp add: attach_list_def)

section \<open>Changing the partition\<close>

text \<open>
  The domain each CPU is in: \<open>detach_destroy_domains\<close> gives the CPUs of a domain none,
  \<open>build_sched_domains\<close> gives them the new one.
\<close>

type_synonym dom = "cpu set \<times> int"

definition pt_pairs :: "cpu set list \<Rightarrow> int list option \<Rightarrow> nat \<Rightarrow> dom list" where
  "pt_pairs ds as n = map (\<lambda>i. (ds ! i, attr_at as i)) [0..<n]"

definition detach_destroy_domains :: "cpu set \<Rightarrow> (cpu \<rightharpoonup> dom) \<Rightarrow> (cpu \<rightharpoonup> dom)" where
  "detach_destroy_domains m f = (\<lambda>c. if c \<in> m then None else f c)"

definition build_domain :: "dom \<Rightarrow> (cpu \<rightharpoonup> dom) \<Rightarrow> (cpu \<rightharpoonup> dom)" where
  "build_domain d f = (\<lambda>c. if c \<in> fst d then Some d else f c)"

definition dom_of :: "dom list \<Rightarrow> (cpu \<rightharpoonup> dom)" where
  "dom_of ds = (\<lambda>c. find (\<lambda>d. c \<in> fst d) ds)"

definition apart :: "dom list \<Rightarrow> bool" where
  "apart ds \<longleftrightarrow> (\<forall>d \<in> set ds. \<forall>e \<in> set ds. fst d \<inter> fst e \<noteq> {} \<longrightarrow> d = e)"

lemma dom_of_Some: "apart ds \<Longrightarrow> dom_of ds c = Some d \<longleftrightarrow> d \<in> set ds \<and> c \<in> fst d"
  unfolding dom_of_def apart_def by (induction ds) (auto simp: disjoint_iff)

lemma dom_of_None: "dom_of ds c = None \<longleftrightarrow> (\<forall>d \<in> set ds. c \<notin> fst d)"
  by (auto simp: dom_of_def find_None_iff)

lemma fold_detach: "fold detach_destroy_domains ms f c = (if \<exists>m \<in> set ms. c \<in> m then None else f c)"
  by (induction ms arbitrary: f) (auto simp: detach_destroy_domains_def)

lemma fold_build:
  "apart ds \<Longrightarrow> fold build_domain ds f c = (case dom_of ds c of None \<Rightarrow> f c | Some d \<Rightarrow> Some d)"
proof (induction ds arbitrary: f)
  case (Cons d ds)
  from Cons.prems have ap: "apart ds" by (auto simp: apart_def)
  have "dom_of (d # ds) c = (if c \<in> fst d then Some d else dom_of ds c)"
    by (simp add: dom_of_def)
  moreover have "e = d" if "c \<in> fst d" "dom_of ds c = Some e" for e
    using Cons.prems that dom_of_Some [OF ap] unfolding apart_def by auto
  ultimately show ?case
    using Cons.IH [OF ap] by (auto simp: build_domain_def split: option.split)
qed (simp add: dom_of_def)

lemma dom_match_pairs:
  "dom_match b n ds as i es eas \<longleftrightarrow> \<not> b \<and> (ds ! i, attr_at as i) \<in> set (pt_pairs es eas n)"
  by (auto simp: dom_match_def pt_pairs_def dattrs_equal_def list_ex_iff attr_at_def image_iff)

lemma partition_lists:
  assumes "partition_sched_domains nt spare cur n doms das = Inr (gone, built, pt)"
  defines "old \<equiv> pt_pairs (pt_doms cur) (pt_attrs cur) (length (pt_doms cur))"
    and "new \<equiv> pt_pairs (pt_doms pt) (pt_attrs pt) (length (pt_doms pt))"
    and "keep \<equiv> (\<lambda>d. \<not> nt \<and> doms \<noteq> None \<and> d \<in> set (pt_pairs (pt_doms pt) (pt_attrs pt) n))"
  shows "gone = map fst (filter (\<lambda>d. \<not> (\<not> nt \<and> doms \<noteq> None \<and> d \<in> set new)) old)"
    "built = filter (\<lambda>d. \<not> (\<not> nt \<and> doms \<noteq> None \<and> d \<in> set old)) new"
proof -
  let ?dn = "case doms of None \<Rightarrow> [spare] | Some ds \<Rightarrow> ds"
  have n: "n \<le> length ?dn"
    and pt: "pt = \<lparr>pt_doms = take n ?dn, pt_attrs = das\<rparr>"
    and g: "gone = map (\<lambda>i. pt_doms cur ! i)
       (filter (\<lambda>i. \<not> dom_match nt (case doms of None \<Rightarrow> 0 | Some _ \<Rightarrow> n) (pt_doms cur) (pt_attrs cur) i
          (case doms of None \<Rightarrow> [] | Some ds \<Rightarrow> ds) das) [0..<length (pt_doms cur)])"
    and b: "built = map (\<lambda>i. (?dn ! i, attr_at das i))
       (filter (\<lambda>i. \<not> dom_match nt (case doms of None \<Rightarrow> 0 | Some _ \<Rightarrow> length (pt_doms cur)) ?dn das i
          (pt_doms cur) (pt_attrs cur)) [0..<n])"
    using assms(1) by (auto simp: partition_sched_domains_def Let_def split: if_splits)
  have new: "new = pt_pairs ?dn das n"
    using n by (auto simp: new_def pt pt_pairs_def)
  show "gone = map fst (filter (\<lambda>d. \<not> (\<not> nt \<and> doms \<noteq> None \<and> d \<in> set new)) old)"
    unfolding g new old_def
    by (cases doms) (simp_all add: pt_pairs_def [of "pt_doms cur"] filter_map o_def dom_match_pairs,
      simp add: pt_pairs_def)
  show "built = filter (\<lambda>d. \<not> (\<not> nt \<and> doms \<noteq> None \<and> d \<in> set old)) new"
    unfolding b new old_def
    by (cases doms) (simp_all add: pt_pairs_def [of _ das] filter_map o_def dom_match_pairs,
      simp add: pt_pairs_def)
qed



end
