(* ===== verification/Sched_Topology.thy ===== *)
theory Sched_Topology
  imports Sched_Domains
begin

text \<open>
  The construction of the scheduling domains from the topology (\<^verbatim>\<open>core.c\<close>): for every CPU a chain
  of domains, one per level, until one spans the whole map; for every domain the ring of its
  groups, which partition it or, for overlapping domains, cover it; and the storage for all of
  them, with the way it is given back when an allocation fails.

  A domain, group or capacity that comes from the per-CPU storage of a level is named by the
  level and the CPU; a group of an overlapping domain by the domain and the CPU it was made for.
\<close>

section \<open>The objects\<close>

type_synonym level = nat

datatype grp = Sg level cpu | Og level cpu cpu

record topo_domain =
  td_span :: "cpu set"
  td_flags :: u32
  td_level :: int
  td_min_interval :: nat
  td_max_interval :: nat
  td_busy_factor :: nat
  td_imbalance_pct :: nat
  td_cache_nice_tries :: nat
  td_busy_idx :: nat
  td_idle_idx :: nat
  td_smt_gain :: nat
  td_balance_interval :: nat
  td_span_weight :: nat
  td_child :: "(level \<times> cpu) option"
  td_parent :: "(level \<times> cpu) option"
  td_groups :: "grp option"

record topo_group =
  gr_cpus :: "cpu set"
  gr_next :: grp
  gr_ref :: int
  gr_weight :: nat
  gr_sgc :: "level \<times> cpu"

record topo_cap =
  cp_ref :: int
  cp_mask :: "cpu set"           \<comment> \<open>\<open>sched_group_mask\<close>\<close>
  cp_capacity :: nat
  cp_capacity_orig :: nat
  cp_nr_busy :: nat

record topo =
  tp_sd :: "level \<Rightarrow> cpu \<Rightarrow> topo_domain"
  tp_gr :: "grp \<Rightarrow> topo_group"
  tp_cap :: "level \<Rightarrow> cpu \<Rightarrow> topo_cap"
  tp_level_max :: int            \<comment> \<open>\<open>sched_domain_level_max\<close>\<close>
  tp_broken :: bool              \<comment> \<open>the message on a broken topology was printed\<close>

definition upd_sd :: "level \<Rightarrow> cpu \<Rightarrow> (topo_domain \<Rightarrow> topo_domain) \<Rightarrow> topo \<Rightarrow> topo" where
  "upd_sd l c f s = s\<lparr>tp_sd := (tp_sd s)(l := (tp_sd s l)(c := f (tp_sd s l c)))\<rparr>"

definition upd_gr :: "grp \<Rightarrow> (topo_group \<Rightarrow> topo_group) \<Rightarrow> topo \<Rightarrow> topo" where
  "upd_gr g f s = s\<lparr>tp_gr := (tp_gr s)(g := f (tp_gr s g))\<rparr>"

definition upd_cap :: "level \<times> cpu \<Rightarrow> (topo_cap \<Rightarrow> topo_cap) \<Rightarrow> topo \<Rightarrow> topo" where
  "upd_cap lc f s = s\<lparr>tp_cap := (tp_cap s)(fst lc := (tp_cap s (fst lc))(snd lc := f (tp_cap s (fst lc) (snd lc))))\<rparr>"

lemma upd_simps [simp]:
  "tp_sd (upd_sd l c f s) l' c' = (if l' = l \<and> c' = c then f (tp_sd s l c) else tp_sd s l' c')"
  "tp_gr (upd_sd l c f s) = tp_gr s" "tp_cap (upd_sd l c f s) = tp_cap s"
  "tp_gr (upd_gr g h s) g' = (if g' = g then h (tp_gr s g) else tp_gr s g')"
  "tp_sd (upd_gr g h s) = tp_sd s" "tp_cap (upd_gr g h s) = tp_cap s"
  "tp_sd (upd_cap lc k s) = tp_sd s" "tp_gr (upd_cap lc k s) = tp_gr s"
  by (auto simp: upd_sd_def upd_gr_def upd_cap_def)

text \<open>The topology and the boot options; \<open>te_attr\<close> is the relax level of the attributes, if any.\<close>

record topo_env =
  te_levels :: nat
  te_mask :: "level \<Rightarrow> cpu \<Rightarrow> cpu set"
  te_flags :: "level \<Rightarrow> u32"
  te_overlap :: "level \<Rightarrow> bool"      \<comment> \<open>\<open>SDTL_OVERLAP\<close>, or the feature \<open>FORCE_SD_OVERLAP\<close>\<close>
  te_remote :: "level \<Rightarrow> bool"       \<comment> \<open>the distance of the NUMA level is above \<open>RECLAIM_DISTANCE\<close>\<close>
  te_default_relax :: int           \<comment> \<open>\<open>default_relax_domain_level\<close>\<close>
  te_ncpus :: nat
  te_update_capacity :: "level \<Rightarrow> cpu \<Rightarrow> topo \<Rightarrow> topo"   \<comment> \<open>\<open>update_group_capacity\<close>\<close>

definition cpu_list :: "topo_env \<Rightarrow> cpu set \<Rightarrow> cpu list" where
  "cpu_list T m = filter (\<lambda>c. c \<in> m) [0..<te_ncpus T]"

definition cpu_first :: "topo_env \<Rightarrow> cpu set \<Rightarrow> cpu" where     \<comment> \<open>\<open>cpumask_first\<close>\<close>
  "cpu_first T m = (case cpu_list T m of [] \<Rightarrow> te_ncpus T | c # _ \<Rightarrow> c)"

section \<open>One domain\<close>

abbreviation TOPOLOGY_SD_FLAGS :: u32 where
  "TOPOLOGY_SD_FLAGS \<equiv> SD_SHARE_CPUCAPACITY OR SD_SHARE_PKG_RESOURCES OR SD_NUMA OR SD_ASYM_PACKING OR SD_SHARE_POWERDOMAIN"

abbreviation (input) SD_BALANCE_WAKE_FLAG :: u32 where "SD_BALANCE_WAKE_FLAG \<equiv> 0x10"
abbreviation (input) SD_OVERLAP :: u32 where "SD_OVERLAP \<equiv> 0x2000"

text \<open>\<open>sd_init\<close> overwrites the whole domain, but not the span behind it.\<close>

definition sd_init :: "topo_env \<Rightarrow> level \<Rightarrow> cpu \<Rightarrow> topo \<Rightarrow> topo" where
  "sd_init T l c =
     upd_sd l c (\<lambda>old.
       let w = card (te_mask T l c);
           sd_flags = te_flags T l;
           sd_flags = (if sd_flags AND NOT TOPOLOGY_SD_FLAGS \<noteq> 0 then sd_flags AND NOT TOPOLOGY_SD_FLAGS else sd_flags);
           sd = \<lparr>td_span = td_span old,
                 td_flags = SD_LOAD_BALANCE OR SD_BALANCE_NEWIDLE OR SD_EXEC OR SD_FORK OR SD_WAKE_AFFINE OR
                   sd_flags,
                 td_level = 0, td_min_interval = w, td_max_interval = 2 * w, td_busy_factor = 32,
                 td_imbalance_pct = 125, td_cache_nice_tries = 0, td_busy_idx = 0, td_idle_idx = 0,
                 td_smt_gain = 0, td_balance_interval = w, td_span_weight = 0,
                 td_child = None, td_parent = None, td_groups = None\<rparr>
       in if td_flags sd AND SD_SHARE_CPUCAPACITY \<noteq> 0
          then sd\<lparr>td_imbalance_pct := 110, td_smt_gain := 1178\<rparr>
          else if td_flags sd AND SD_SHARE_PKG_RESOURCES \<noteq> 0
          then sd\<lparr>td_imbalance_pct := 117, td_cache_nice_tries := 1, td_busy_idx := 2\<rparr>
          else if td_flags sd AND SD_NUMA \<noteq> 0
          then let sd = sd\<lparr>td_cache_nice_tries := 2, td_busy_idx := 3, td_idle_idx := 2,
                           td_flags := td_flags sd OR SD_SERIALIZE\<rparr>
               in if te_remote T l
                  then sd\<lparr>td_flags := td_flags sd AND NOT (SD_EXEC OR SD_FORK OR SD_WAKE_AFFINE)\<rparr>
                  else sd
          else sd\<lparr>td_flags := td_flags sd OR SD_PREFER_SIBLING, td_cache_nice_tries := 1, td_busy_idx := 2,
                  td_idle_idx := 1\<rparr>)"

definition set_domain_attribute :: "topo_env \<Rightarrow> level \<Rightarrow> cpu \<Rightarrow> int option \<Rightarrow> topo \<Rightarrow> topo" where
  "set_domain_attribute T l c attr s =
     (let request = (case attr of
            None \<Rightarrow> if te_default_relax T < 0 then None else Some (te_default_relax T)
          | Some r \<Rightarrow> if r < 0 then (if te_default_relax T < 0 then None else Some (te_default_relax T)) else Some r)
      in case request of
           None \<Rightarrow> s
         | Some r \<Rightarrow>
             if r < td_level (tp_sd s l c)
             then upd_sd l c (\<lambda>d. d\<lparr>td_flags := td_flags d AND NOT (SD_BALANCE_WAKE_FLAG OR SD_BALANCE_NEWIDLE)\<rparr>) s
             else upd_sd l c (\<lambda>d. d\<lparr>td_flags := td_flags d OR (SD_BALANCE_WAKE_FLAG OR SD_BALANCE_NEWIDLE)\<rparr>) s)"

text \<open>\<open>child\<close> is the domain of the level below for the same CPU.\<close>

definition build_sched_domain ::
  "topo_env \<Rightarrow> level \<Rightarrow> cpu set \<Rightarrow> int option \<Rightarrow> (level \<times> cpu) option \<Rightarrow> cpu \<Rightarrow> topo \<Rightarrow> topo"
where
  "build_sched_domain T l cpu_map attr child c s =
     (let s = sd_init T l c s;
          s = upd_sd l c (\<lambda>d. d\<lparr>td_span := cpu_map \<inter> te_mask T l c\<rparr>) s;
          s = (case child of
                 None \<Rightarrow> s
               | Some (l', c') \<Rightarrow>
                   let s = upd_sd l c (\<lambda>d. d\<lparr>td_level := td_level (tp_sd s l' c') + 1\<rparr>) s;
                       s = s\<lparr>tp_level_max := max (tp_level_max s) (td_level (tp_sd s l c))\<rparr>;
                       s = upd_sd l' c' (\<lambda>d. d\<lparr>td_parent := Some (l, c)\<rparr>) s;
                       s = upd_sd l c (\<lambda>d. d\<lparr>td_child := Some (l', c')\<rparr>) s
                   in if \<not> td_span (tp_sd s l' c') \<subseteq> td_span (tp_sd s l c)
                      then upd_sd l c (\<lambda>d. d\<lparr>td_span := td_span d \<union> td_span (tp_sd s l' c')\<rparr>) (s\<lparr>tp_broken := True\<rparr>)
                      else s)
      in set_domain_attribute T l c attr s)"

text \<open>The loop over the levels for one CPU.\<close>

primrec build_levels ::
  "topo_env \<Rightarrow> cpu set \<Rightarrow> int option \<Rightarrow> cpu \<Rightarrow> level list \<Rightarrow> (level \<times> cpu) option \<Rightarrow> topo \<Rightarrow> topo"
where
  "build_levels T cpu_map attr c [] child s = s"
| "build_levels T cpu_map attr c (l # ls) child s =
     (let s = build_sched_domain T l cpu_map attr child c s;
          s = (if te_overlap T l then upd_sd l c (\<lambda>d. d\<lparr>td_flags := td_flags d OR SD_OVERLAP\<rparr>) s else s)
      in if cpu_map = td_span (tp_sd s l c) then s
         else build_levels T cpu_map attr c ls (Some (l, c)) s)"

section \<open>Groups\<close>

text \<open>\<open>get_group\<close>: the CPU that stands for the group, and the group set up if the caller asks for it.\<close>

definition group_of :: "topo_env \<Rightarrow> level \<Rightarrow> topo \<Rightarrow> cpu \<Rightarrow> cpu" where
  "group_of T l s c =
     (case td_child (tp_sd s l c) of
        None \<Rightarrow> c
      | Some (l', c') \<Rightarrow> cpu_first T (td_span (tp_sd s l' c')))"

definition get_group :: "topo_env \<Rightarrow> level \<Rightarrow> cpu \<Rightarrow> topo \<Rightarrow> cpu \<times> topo" where
  "get_group T l c s =
     (let g = group_of T l s c;
          s = upd_gr (Sg l g) (\<lambda>x. x\<lparr>gr_sgc := (l, g)\<rparr>) s
      in (g, upd_cap (l, g) (\<lambda>x. x\<lparr>cp_ref := 1\<rparr>) s))"

text \<open>Linking a group behind the last one.\<close>

definition link_group :: "grp \<Rightarrow> grp list \<Rightarrow> topo \<Rightarrow> topo" where
  "link_group g done_groups s =
     (case done_groups of [] \<Rightarrow> s | _ \<Rightarrow> upd_gr (last done_groups) (\<lambda>x. x\<lparr>gr_next := g\<rparr>) s)"

definition fill_group :: "topo_env \<Rightarrow> level \<Rightarrow> cpu \<Rightarrow> cpu set \<Rightarrow> cpu set \<times> topo \<Rightarrow> cpu set \<times> topo" where
  "fill_group T l gc span =
     fold (\<lambda>j (covered, s).
         if group_of T l s j \<noteq> gc then (covered, s)
         else (insert j covered, upd_gr (Sg l gc) (\<lambda>x. x\<lparr>gr_cpus := insert j (gr_cpus x)\<rparr>) s))
       (cpu_list T span)"

text \<open>The state of the loop: the CPUs covered, and the groups so far.\<close>

definition groups_step ::
  "topo_env \<Rightarrow> level \<Rightarrow> cpu set \<Rightarrow> cpu \<Rightarrow> cpu set \<times> grp list \<times> topo \<Rightarrow> cpu set \<times> grp list \<times> topo"
where
  "groups_step T l span i = (\<lambda>(covered, gs, s).
     if i \<in> covered then (covered, gs, s)
     else
       let (gc, s) = get_group T l i s;
           s = upd_cap (gr_sgc (tp_gr s (Sg l gc))) (\<lambda>x. x\<lparr>cp_mask := UNIV\<rparr>) s;
           (covered, s) = fill_group T l gc span (covered, s);
           s = link_group (Sg l gc) gs s
       in (covered, gs @ [Sg l gc], s))"

definition build_sched_groups :: "topo_env \<Rightarrow> level \<Rightarrow> cpu \<Rightarrow> topo \<Rightarrow> crash + topo" where
  "build_sched_groups T l c s =
     (let span = td_span (tp_sd s l c);
          (g, s) = get_group T l c s;
          s = upd_sd l c (\<lambda>d. d\<lparr>td_groups := Some (Sg l g)\<rparr>) s;
          s = upd_gr (Sg l g) (\<lambda>x. x\<lparr>gr_ref := gr_ref x + 1\<rparr>) s
      in if c \<noteq> cpu_first T span then Inr s
         else
           let (covered, gs, s) = fold (groups_step T l span) (cpu_list T span) ({}, [], s)
           in case gs of
                [] \<Rightarrow> Inl NullDeref
              | first # _ \<Rightarrow> Inr (upd_gr (last gs) (\<lambda>x. x\<lparr>gr_next := first\<rparr>) s))"

section \<open>The chain of domains of a CPU\<close>

lemma set_domain_attribute_frame [simp]:
  "tp_gr (set_domain_attribute T l c attr s) = tp_gr s" "tp_cap (set_domain_attribute T l c attr s) = tp_cap s"
  "td_span (tp_sd (set_domain_attribute T l c attr s) l' c') = td_span (tp_sd s l' c')"
  "td_level (tp_sd (set_domain_attribute T l c attr s) l' c') = td_level (tp_sd s l' c')"
  "td_child (tp_sd (set_domain_attribute T l c attr s) l' c') = td_child (tp_sd s l' c')"
  "td_parent (tp_sd (set_domain_attribute T l c attr s) l' c') = td_parent (tp_sd s l' c')"
  "td_groups (tp_sd (set_domain_attribute T l c attr s) l' c') = td_groups (tp_sd s l' c')"
  by (auto simp: set_domain_attribute_def Let_def split: option.split)

lemma sd_init_fields:
  "td_level (tp_sd (sd_init T l c s) l c) = 0" "td_child (tp_sd (sd_init T l c s) l c) = None"
  "td_parent (tp_sd (sd_init T l c s) l c) = None" "td_groups (tp_sd (sd_init T l c s) l c) = None"
  "(l', c') \<noteq> (l, c) \<Longrightarrow> tp_sd (sd_init T l c s) l' c' = tp_sd s l' c'"
  "tp_gr (sd_init T l c s) = tp_gr s" "tp_cap (sd_init T l c s) = tp_cap s"
  by (auto simp: sd_init_def Let_def)

text \<open>
  A topology level with a flag that is not one of the topology keeps that flag, while those that
  describe the topology are masked out: with \<open>SD_SHARE_CPUCAPACITY\<close> and a wrong flag the domain is
  set up as one that shares nothing.
\<close>

lemma sd_init_wrong_flags:
  assumes "te_flags T l AND NOT TOPOLOGY_SD_FLAGS \<noteq> 0"
  shows "td_flags (tp_sd (sd_init T l c s) l c) =
      SD_LOAD_BALANCE OR SD_BALANCE_NEWIDLE OR SD_EXEC OR SD_FORK OR SD_WAKE_AFFINE OR
      (te_flags T l AND NOT TOPOLOGY_SD_FLAGS) OR SD_PREFER_SIBLING"
    and "td_imbalance_pct (tp_sd (sd_init T l c s) l c) = 125"
proof -
  have "(te_flags T l AND NOT TOPOLOGY_SD_FLAGS) AND SD_SHARE_CPUCAPACITY = 0"
    "(te_flags T l AND NOT TOPOLOGY_SD_FLAGS) AND SD_SHARE_PKG_RESOURCES = 0"
    "(te_flags T l AND NOT TOPOLOGY_SD_FLAGS) AND SD_NUMA = 0"
    by (simp_all add: and.assoc)
  with assms show "td_flags (tp_sd (sd_init T l c s) l c) =
      SD_LOAD_BALANCE OR SD_BALANCE_NEWIDLE OR SD_EXEC OR SD_FORK OR SD_WAKE_AFFINE OR
      (te_flags T l AND NOT TOPOLOGY_SD_FLAGS) OR SD_PREFER_SIBLING"
    "td_imbalance_pct (tp_sd (sd_init T l c s) l c) = 125"
    by (simp_all add: sd_init_def Let_def word_ao_dist or.assoc)
qed

text \<open>What the chain looks at of a domain.\<close>

definition links where
  "links d = (td_span d, td_level d, td_child d, td_parent d, td_groups d)"

lemma links_iff: "links d = links e \<longleftrightarrow> td_span d = td_span e \<and> td_level d = td_level e \<and> td_child d = td_child e \<and>
    td_parent d = td_parent e \<and> td_groups d = td_groups e"
  by (simp add: links_def)

definition topo_step :: "topo_env \<Rightarrow> level \<Rightarrow> cpu set \<Rightarrow> int option \<Rightarrow> (level \<times> cpu) option \<Rightarrow> cpu \<Rightarrow> topo \<Rightarrow> topo" where
  "topo_step T l m attr child c s =
     (let s = build_sched_domain T l m attr child c s
      in if te_overlap T l then upd_sd l c (\<lambda>d. d\<lparr>td_flags := td_flags d OR SD_OVERLAP\<rparr>) s else s)"

lemma links_flags [simp]: "links (d\<lparr>td_flags := f\<rparr>) = links d"
  by (simp add: links_def)

lemma links_attribute [simp]:
  "links (tp_sd (set_domain_attribute T l c attr s) l' c') = links (tp_sd s l' c')"
  by (simp add: links_def)

lemma topo_step_links:
  "links (tp_sd (topo_step T l m attr child c s) l' c') = links (tp_sd (build_sched_domain T l m attr child c s) l' c')"
  "tp_gr (topo_step T l m attr child c s) = tp_gr (build_sched_domain T l m attr child c s)"
  "tp_cap (topo_step T l m attr child c s) = tp_cap (build_sched_domain T l m attr child c s)"
  by (simp_all add: topo_step_def Let_def)

lemma topo_step_none:
  "links (tp_sd (topo_step T l m attr None c s) l c) = (m \<inter> te_mask T l c, 0, None, None, None)"
  "(l', c') \<noteq> (l, c) \<Longrightarrow> links (tp_sd (topo_step T l m attr None c s) l' c') = links (tp_sd s l' c')"
  "tp_gr (topo_step T l m attr None c s) = tp_gr s" "tp_cap (topo_step T l m attr None c s) = tp_cap s"
  unfolding topo_step_links build_sched_domain_def Let_def links_attribute
  by (auto simp: links_def sd_init_fields)

lemma topo_step_some:
  assumes "l1 \<noteq> l"
  shows "links (tp_sd (topo_step T l m attr (Some (l1, c)) c s) l c) =
      ((m \<inter> te_mask T l c) \<union> td_span (tp_sd s l1 c), td_level (tp_sd s l1 c) + 1, Some (l1, c), None, None)"
    and "(l', c') \<noteq> (l, c) \<Longrightarrow> links (tp_sd (topo_step T l m attr (Some (l1, c)) c s) l' c') =
      links (if (l', c') = (l1, c) then (tp_sd s l' c')\<lparr>td_parent := Some (l, c)\<rparr> else tp_sd s l' c')"
    and "tp_gr (topo_step T l m attr (Some (l1, c)) c s) = tp_gr s"
    and "tp_cap (topo_step T l m attr (Some (l1, c)) c s) = tp_cap s"
  unfolding topo_step_links build_sched_domain_def Let_def links_attribute
  using assms by (simp_all add: links_def sd_init_fields) auto

text \<open>The first \<open>K\<close> levels of CPU \<open>c\<close> are built and linked.\<close>

definition chain_ok :: "topo_env \<Rightarrow> cpu set \<Rightarrow> cpu \<Rightarrow> topo \<Rightarrow> nat \<Rightarrow> bool" where
  "chain_ok T m c s K \<longleftrightarrow> (\<forall>k<K. links (tp_sd s k c) =
     (m \<inter> (\<Union>l\<le>k. te_mask T l c), int k, (if k = 0 then None else Some (k - 1, c)),
      (if Suc k < K then Some (Suc k, c) else None), None))"

lemma chain_step:
  assumes "chain_ok T m c s k"
  shows "chain_ok T m c (topo_step T k m attr (if k = 0 then None else Some (k - 1, c)) c s) (Suc k)"
proof (cases k)
  case 0
  then show ?thesis by (simp add: chain_ok_def topo_step_none)
next
  case (Suc i)
  have old: "links (tp_sd s j c) = (m \<inter> (\<Union>l\<le>j. te_mask T l c), int j, if j = 0 then None else Some (j - 1, c),
      if Suc j < Suc i then Some (Suc j, c) else None, None)" if "j < Suc i" for j
    using assms that Suc by (simp add: chain_ok_def)
  have "links (tp_sd (topo_step T (Suc i) m attr (Some (i, c)) c s) j c) =
      (m \<inter> (\<Union>l\<le>j. te_mask T l c), int j, if j = 0 then None else Some (j - 1, c),
       if Suc j < Suc (Suc i) then Some (Suc j, c) else None, None)" if "j < Suc (Suc i)" for j
  proof (cases "j = Suc i")
    case True
    have "m \<inter> te_mask T (Suc i) c \<union> m \<inter> (\<Union>l\<le>i. te_mask T l c) = m \<inter> (\<Union>l\<le>Suc i. te_mask T l c)"
      by (auto simp: atMost_Suc)
    with True old [of i] show ?thesis
      by (simp add: topo_step_some(1)) (simp add: links_def)
  next
    case False
    then have "j < Suc i" using that by simp
    with False old [OF this] show ?thesis
      by (simp add: topo_step_some(2)) (auto simp: links_def)
  qed
  with Suc show ?thesis by (simp add: chain_ok_def)
qed

lemma build_levels_step:
  "build_levels T m attr c (l # ls) child s =
    (let s = topo_step T l m attr child c s
     in if m = td_span (tp_sd s l c) then s else build_levels T m attr c ls (Some (l, c)) s)"
  by (simp add: topo_step_def Let_def)

lemma build_levels_ok:
  "chain_ok T m c s k \<Longrightarrow> k \<le> L \<Longrightarrow> \<forall>j<k. td_span (tp_sd s j c) \<noteq> m \<Longrightarrow>
   \<exists>K. k \<le> K \<and> K \<le> L \<and>
     chain_ok T m c (build_levels T m attr c [k..<L] (if k = 0 then None else Some (k - 1, c)) s) K \<and>
     (\<forall>j. Suc j < K \<longrightarrow> m \<inter> (\<Union>l\<le>j. te_mask T l c) \<noteq> m) \<and>
     (K = L \<or> 0 < K \<and> m \<inter> (\<Union>l\<le>K - 1. te_mask T l c) = m)"
proof (induction "L - k" arbitrary: k s)
  case 0
  then show ?case by (intro exI [of _ L]) (auto simp: chain_ok_def links_def)
next
  case (Suc n)
  let ?child = "if k = 0 then None else Some (k - 1, c)"
  let ?s = "topo_step T k m attr ?child c s"
  have "k < L" using Suc.hyps(2) by simp
  then have upt: "[k..<L] = k # [Suc k..<L]" by (simp add: upt_rec)
  have ok: "chain_ok T m c ?s (Suc k)" by (rule chain_step [OF Suc.prems(1)])
  have spans: "td_span (tp_sd ?s j c) = m \<inter> (\<Union>l\<le>j. te_mask T l c)" if "j < Suc k" for j
    using ok that by (simp add: chain_ok_def links_def)
  have before: "m \<inter> (\<Union>l\<le>j. te_mask T l c) \<noteq> m" if "j < k" for j
    using Suc.prems(1,3) that by (auto simp: chain_ok_def links_def)
  show ?case
  proof (cases "m = td_span (tp_sd ?s k c)")
    case True
    then show ?thesis
      using ok before spans [of k] \<open>k < L\<close> unfolding upt build_levels_step Let_def
      by (intro exI [of _ "Suc k"]) auto
  next
    case False
    have "\<forall>j<Suc k. td_span (tp_sd ?s j c) \<noteq> m"
      using before spans False by (auto simp: less_Suc_eq)
    then have "\<exists>K\<ge>Suc k. K \<le> L \<and> chain_ok T m c (build_levels T m attr c [Suc k..<L] (Some (k, c)) ?s) K \<and>
        (\<forall>j. Suc j < K \<longrightarrow> m \<inter> (\<Union>l\<le>j. te_mask T l c) \<noteq> m) \<and>
        (K = L \<or> 0 < K \<and> m \<inter> (\<Union>l\<le>K - 1. te_mask T l c) = m)"
      using Suc.hyps(1) [of "Suc k" ?s] Suc.hyps(2) ok \<open>k < L\<close> by simp
    then obtain K where K: "Suc k \<le> K" "K \<le> L" "chain_ok T m c (build_levels T m attr c [Suc k..<L] (Some (k, c)) ?s) K"
      "\<forall>j. Suc j < K \<longrightarrow> m \<inter> (\<Union>l\<le>j. te_mask T l c) \<noteq> m"
      "K = L \<or> 0 < K \<and> m \<inter> (\<Union>l\<le>K - 1. te_mask T l c) = m"
      by blast
    have "build_levels T m attr c [k..<L] ?child s = build_levels T m attr c [Suc k..<L] (Some (k, c)) ?s"
      using False unfolding upt build_levels_step Let_def by simp
    then show ?thesis
      using K by (intro exI [of _ K]) simp
  qed
qed

text \<open>The levels of one CPU leave the domains of the others alone.\<close>

lemma topo_step_frame:
  assumes "c' \<noteq> c"
  shows "links (tp_sd (topo_step T l m attr (if b then None else Some (l1, c)) c s) l' c') = links (tp_sd s l' c')"
proof (cases b)
  case True
  with assms show ?thesis by (simp add: topo_step_none)
next
  case False
  with assms show ?thesis
    unfolding topo_step_links build_sched_domain_def Let_def links_attribute
    by (auto simp: links_def sd_init_fields)
qed

lemma build_levels_frame:
  "c' \<noteq> c \<Longrightarrow> links (tp_sd (build_levels T m attr c ls (if b then None else Some (l1, c)) s) l' c') = links (tp_sd s l' c')"
proof (induction ls arbitrary: b l1 s)
  case (Cons l ls)
  let ?s = "topo_step T l m attr (if b then None else Some (l1, c)) c s"
  have "links (tp_sd (build_levels T m attr c ls (Some (l, c)) ?s) l' c') = links (tp_sd ?s l' c')"
    using Cons.IH [of False l ?s] Cons.prems by simp
  then show ?case
    unfolding build_levels_step Let_def using topo_step_frame [OF Cons.prems] by simp
qed simp

text \<open>C19 The domains of a CPU: the levels of the topology are built from the innermost outwards until one
  spans the whole map or the levels are used up; the domain of a level spans the CPUs of the map
  that its level or one inside it gives the CPU (so the spans grow even on a broken topology),
  is numbered by its level and linked both ways to its neighbours; the domains of the other CPUs keep
  theirs.\<close>

theorem build_levels_chain:
  "\<exists>K \<le> te_levels T. let s' = build_levels T m attr c [0..<te_levels T] None s in
     (\<forall>k < K. links (tp_sd s' k c) =
        (m \<inter> (\<Union>l\<le>k. te_mask T l c), int k, if k = 0 then None else Some (k - 1, c),
         if Suc k < K then Some (Suc k, c) else None, None)) \<and>
     (\<forall>k. Suc k < K \<longrightarrow> m \<inter> (\<Union>l\<le>k. te_mask T l c) \<noteq> m) \<and>
     (K = te_levels T \<or> 0 < K \<and> m \<inter> (\<Union>l\<le>K - 1. te_mask T l c) = m) \<and>
     (\<forall>k c'. c' \<noteq> c \<longrightarrow> links (tp_sd s' k c') = links (tp_sd s k c'))"
proof -
  obtain K where K: "K \<le> te_levels T"
      "chain_ok T m c (build_levels T m attr c [0..<te_levels T] None s) K"
      "\<forall>j. Suc j < K \<longrightarrow> m \<inter> (\<Union>l\<le>j. te_mask T l c) \<noteq> m"
      "K = te_levels T \<or> 0 < K \<and> m \<inter> (\<Union>l\<le>K - 1. te_mask T l c) = m"
    using build_levels_ok [of T m c s 0 "te_levels T" attr] by (auto simp: chain_ok_def)
  have "\<forall>k c'. c' \<noteq> c \<longrightarrow> links (tp_sd (build_levels T m attr c [0..<te_levels T] None s) k c') = links (tp_sd s k c')"
    using build_levels_frame [of _ c T m attr _ True] by simp
  with K show ?thesis
    unfolding Let_def chain_ok_def by blast
qed

text \<open>Four CPUs, two in a core, one package, and a level above that is not needed.\<close>

definition demo_topo_env :: topo_env where
  "demo_topo_env = \<lparr>te_levels = 3,
     te_mask = (\<lambda>l c. if l = 0 then (if c < 2 then {0, 1} else {2, 3}) else {0, 1, 2, 3}),
     te_flags = (\<lambda>l. if l = 0 then SD_SHARE_CPUCAPACITY OR SD_SHARE_PKG_RESOURCES else 0),
     te_overlap = (\<lambda>_. False), te_remote = (\<lambda>_. False), te_default_relax = - 1, te_ncpus = 4,
     te_update_capacity = (\<lambda>_ _ s. s)\<rparr>"

definition blank_domain :: topo_domain where
  "blank_domain = \<lparr>td_span = {}, td_flags = 0, td_level = 0, td_min_interval = 0, td_max_interval = 0,
     td_busy_factor = 0, td_imbalance_pct = 0, td_cache_nice_tries = 0, td_busy_idx = 0, td_idle_idx = 0,
     td_smt_gain = 0, td_balance_interval = 0, td_span_weight = 0, td_child = None, td_parent = None,
     td_groups = None\<rparr>"

definition blank_topo :: topo where
  "blank_topo = \<lparr>tp_sd = (\<lambda>_ _. blank_domain),
     tp_gr = (\<lambda>g. \<lparr>gr_cpus = {}, gr_next = g, gr_ref = 0, gr_weight = 0, gr_sgc = (0, 0)\<rparr>),
     tp_cap = (\<lambda>_ _. \<lparr>cp_ref = 0, cp_mask = {}, cp_capacity = 0, cp_capacity_orig = 0, cp_nr_busy = 0\<rparr>),
     tp_level_max = 0, tp_broken = False\<rparr>"

theorem build_levels_chain_witness:
  "let s' = build_levels demo_topo_env {0, 1, 2, 3} None 2 [0..<3] None blank_topo in
     links (tp_sd s' 0 2) = ({2, 3}, 0, None, Some (1, 2), None) \<and>
     links (tp_sd s' 1 2) = ({0, 1, 2, 3}, 1, Some (0, 2), None, None) \<and>
     links (tp_sd s' 0 3) = ({}, 0, None, None, None)"
proof -
  let ?s = "build_levels demo_topo_env {0, 1, 2, 3} None 2 [0..<3] None blank_topo"
  have span0: "{0, 1, 2, 3} \<inter> (\<Union>l\<le>0. te_mask demo_topo_env l 2) = {2, 3}"
    and span1: "{0, 1, 2, 3} \<inter> (\<Union>l\<le>Suc 0. te_mask demo_topo_env l 2) = {0, 1, 2, 3}"
    by (auto simp: demo_topo_env_def atMost_Suc)
  have small: "{2, 3} \<noteq> {0, 1, 2, 3 :: nat}" by (simp add: set_eq_iff) presburger
  have lv: "te_levels demo_topo_env = 3" by (simp add: demo_topo_env_def)
  from build_levels_chain [of demo_topo_env "{0, 1, 2, 3}" None 2 blank_topo, unfolded lv Let_def]
  obtain K where K: "K \<le> 3"
    "\<forall>k < K. links (tp_sd ?s k 2) = ({0, 1, 2, 3} \<inter> (\<Union>l\<le>k. te_mask demo_topo_env l 2), int k,
        if k = 0 then None else Some (k - 1, 2), if Suc k < K then Some (Suc k, 2) else None, None)"
    "\<forall>k. Suc k < K \<longrightarrow> {0, 1, 2, 3} \<inter> (\<Union>l\<le>k. te_mask demo_topo_env l 2) \<noteq> {0, 1, 2, 3}"
    "K = 3 \<or> 0 < K \<and> {0, 1, 2, 3} \<inter> (\<Union>l\<le>K - 1. te_mask demo_topo_env l 2) = {0, 1, 2, 3}"
    "\<forall>k c'. c' \<noteq> 2 \<longrightarrow> links (tp_sd ?s k c') = links (tp_sd blank_topo k c')"
    by (elim exE conjE) (rule that, assumption+)
  have "K \<noteq> 3"
  proof
    assume "K = 3"
    then have "Suc (Suc 0) < K" by simp
    then have "{0, 1, 2, 3} \<inter> (\<Union>l\<le>Suc 0. te_mask demo_topo_env l 2) \<noteq> {0, 1, 2, 3}"
      by (rule spec [OF K(3), THEN mp])
    then show False using span1 by contradiction
  qed
  moreover have "K \<noteq> 1"
  proof
    assume "K = 1"
    then have "K - 1 = 0" by simp
    with K(4) \<open>K \<noteq> 3\<close> have "{0, 1, 2, 3} \<inter> (\<Union>l\<le>0. te_mask demo_topo_env l 2) = {0, 1, 2, 3}" by metis
    then show False unfolding span0 using small by contradiction
  qed
  ultimately have "K = 2" using K(1,4) by linarith
  have "links (tp_sd ?s 0 2) = ({2, 3}, 0, None, Some (1, 2), None)"
    using spec [OF K(2), of 0] \<open>K = 2\<close> unfolding span0 by simp
  moreover have "links (tp_sd ?s 1 2) = ({0, 1, 2, 3}, 1, Some (0, 2), None, None)"
    using spec [OF K(2), of "Suc 0"] \<open>K = 2\<close> unfolding span1 by simp
  moreover have "links (tp_sd ?s 0 3) = ({}, 0, None, None, None)"
    using K(5) by (simp add: links_def blank_topo_def blank_domain_def)
  ultimately show ?thesis unfolding Let_def by blast
qed

section \<open>Rings of groups\<close>

text \<open>A path through the \<open>next\<close> pointers, and the ring it closes.\<close>

fun path :: "('a \<Rightarrow> 'a) \<Rightarrow> 'a \<Rightarrow> 'a list \<Rightarrow> 'a \<Rightarrow> bool" where
  "path nxt a [] b \<longleftrightarrow> a = b"
| "path nxt a (x # xs) b \<longleftrightarrow> a = x \<and> path nxt (nxt x) xs b"

definition ring :: "('a \<Rightarrow> 'a) \<Rightarrow> 'a list \<Rightarrow> bool" where
  "ring nxt xs \<longleftrightarrow> xs \<noteq> [] \<and> distinct xs \<and> path nxt (hd xs) xs (hd xs)"

lemma path_append: "path nxt a (xs @ ys) b \<longleftrightarrow> (\<exists>c. path nxt a xs c \<and> path nxt c ys b)"
  by (induction xs arbitrary: a) auto

lemma path_upd: "a \<notin> set xs \<Longrightarrow> path (nxt(a := z)) x xs y = path nxt x xs y"
  by (induction xs arbitrary: x) auto

lemma path_cong: "(\<And>x. x \<in> set xs \<Longrightarrow> nxt x = nxt' x) \<Longrightarrow> path nxt a xs b = path nxt' a xs b"
  by (induction xs arbitrary: a) auto

text \<open>Closing a ring: the last element is made to point to the first.\<close>

lemma ring_close:
  assumes "distinct (xs @ [x])" "path nxt (hd (xs @ [x])) xs x"
  shows "ring (nxt(x := hd (xs @ [x]))) (xs @ [x])"
  using assms path_upd [of x xs nxt] by (simp add: ring_def path_append)

lemma ring_from:
  assumes "ring nxt xs" "a \<in> set xs"
  obtains ys where "ring nxt ys" "hd ys = a" "set ys = set xs" "length ys = length xs"
proof -
  obtain us vs where xs: "xs = us @ a # vs" using assms(2) by (auto simp: in_set_conv_decomp)
  have "ring nxt (a # vs @ us)"
    using assms(1) unfolding xs ring_def by (cases us) (auto simp: path_append)
  then show ?thesis by (rule that) (auto simp: xs)
qed

section \<open>The groups of a domain\<close>

abbreviation nxt :: "topo \<Rightarrow> grp \<Rightarrow> grp" where
  "nxt s \<equiv> \<lambda>g. gr_next (tp_gr s g)"

abbreviation cpus_of :: "topo \<Rightarrow> grp \<Rightarrow> cpu set" where
  "cpus_of s \<equiv> \<lambda>g. gr_cpus (tp_gr s g)"

lemma group_of_cong: "tp_sd s = tp_sd s' \<Longrightarrow> group_of T l s = group_of T l s'"
  by (rule ext) (simp only: group_of_def)

lemma get_group_eq:
  "get_group T l c s = (group_of T l s c,
     upd_cap (l, group_of T l s c) (\<lambda>x. x\<lparr>cp_ref := 1\<rparr>)
       (upd_gr (Sg l (group_of T l s c)) (\<lambda>x. x\<lparr>gr_sgc := (l, group_of T l s c)\<rparr>) s))"
  by (simp add: get_group_def Let_def)

lemma fill_groups:
  assumes "tp_sd s = tp_sd s0"
  shows "\<exists>s'. fold (\<lambda>j (covered, s).
         if group_of T l s j \<noteq> gc then (covered, s)
         else (insert j covered, upd_gr (Sg l gc) (\<lambda>x. x\<lparr>gr_cpus := insert j (gr_cpus x)\<rparr>) s)) js (covered, s) =
       (covered \<union> {j \<in> set js. group_of T l s0 j = gc}, s') \<and> tp_sd s' = tp_sd s0 \<and> tp_cap s' = tp_cap s \<and>
       (\<forall>g. tp_gr s' g = (tp_gr s g)\<lparr>gr_cpus := cpus_of s g \<union>
          (if g = Sg l gc then {j \<in> set js. group_of T l s0 j = gc} else {})\<rparr>)"
  using assms
proof (induction js arbitrary: covered s)
  case (Cons j js)
  have g: "group_of T l s = group_of T l s0" using Cons.prems by (rule group_of_cong)
  show ?case
  proof (cases "group_of T l s0 j = gc")
    case False
    then have "{k \<in> set (j # js). group_of T l s0 k = gc} = {k \<in> set js. group_of T l s0 k = gc}" by auto
    with Cons.IH [OF Cons.prems, of covered] g False show ?thesis by (simp only: fold_simps prod.case) simp
  next
    case True
    let ?s = "upd_gr (Sg l gc) (\<lambda>x. x\<lparr>gr_cpus := insert j (gr_cpus x)\<rparr>) s"
    have "tp_sd ?s = tp_sd s0" "tp_cap ?s = tp_cap s" using Cons.prems by simp_all
    then obtain s' where s': "fold (\<lambda>j (covered, s).
         if group_of T l s j \<noteq> gc then (covered, s)
         else (insert j covered, upd_gr (Sg l gc) (\<lambda>x. x\<lparr>gr_cpus := insert j (gr_cpus x)\<rparr>) s)) js (insert j covered, ?s) =
       (insert j covered \<union> {j \<in> set js. group_of T l s0 j = gc}, s')" "tp_sd s' = tp_sd s0" "tp_cap s' = tp_cap s"
       "\<forall>g. tp_gr s' g = (tp_gr ?s g)\<lparr>gr_cpus := cpus_of ?s g \<union>
          (if g = Sg l gc then {j \<in> set js. group_of T l s0 j = gc} else {})\<rparr>"
      using Cons.IH [of ?s "insert j covered"] by auto
    have new: "{k \<in> set (j # js). group_of T l s0 k = gc} = insert j {k \<in> set js. group_of T l s0 k = gc}"
      using True by auto
    show ?thesis
      unfolding new using g True s' by (intro exI [of _ s']) simp
  qed
qed auto

lemma fill_group_result:
  assumes "tp_sd s = tp_sd s0"
  obtains s' where "fill_group T l gc span (covered, s) =
      (covered \<union> {j \<in> set (cpu_list T span). group_of T l s0 j = gc}, s')"
    "tp_sd s' = tp_sd s0" "nxt s' = nxt s" "tp_cap s' = tp_cap s"
    "\<forall>g. g \<noteq> Sg l gc \<longrightarrow> tp_gr s' g = tp_gr s g"
    "\<forall>g. gr_ref (tp_gr s' g) = gr_ref (tp_gr s g)"
    "cpus_of s' (Sg l gc) = cpus_of s (Sg l gc) \<union> {j \<in> set (cpu_list T span). group_of T l s0 j = gc}"
proof -
  let ?new = "{j \<in> set (cpu_list T span). group_of T l s0 j = gc}"
  obtain s' where s': "fill_group T l gc span (covered, s) = (covered \<union> ?new, s')" "tp_sd s' = tp_sd s0"
    "tp_cap s' = tp_cap s"
    "\<forall>g. tp_gr s' g = (tp_gr s g)\<lparr>gr_cpus := cpus_of s g \<union> (if g = Sg l gc then ?new else {})\<rparr>"
    using fill_groups [OF assms, of T l gc "cpu_list T span" covered] unfolding fill_group_def by blast
  show ?thesis
    by (rule that [OF s'(1,2)]) (simp_all add: s'(3,4) fun_eq_iff)
qed

text \<open>What one round of the loop does to a CPU that no group has yet.\<close>

lemma groups_step_new:
  assumes "i \<notin> covered" "tp_sd s = tp_sd s0" "gc = group_of T l s0 i"
  obtains s' where "groups_step T l span i (covered, gs, s) =
      (covered \<union> {j \<in> set (cpu_list T span). group_of T l s0 j = gc}, gs @ [Sg l gc], s')"
    "tp_sd s' = tp_sd s0"
    "nxt s' = (if gs = [] then nxt s else (nxt s)(last gs := Sg l gc))"
    "\<forall>g. g \<noteq> Sg l gc \<longrightarrow> cpus_of s' g = cpus_of s g"
    "\<forall>g. gr_ref (tp_gr s' g) = gr_ref (tp_gr s g)"
    "cpus_of s' (Sg l gc) = cpus_of s (Sg l gc) \<union> {j \<in> set (cpu_list T span). group_of T l s0 j = gc}"
    "\<forall>g. g \<noteq> Sg l gc \<longrightarrow> g \<notin> set gs \<longrightarrow> tp_gr s' g = tp_gr s g"
proof -
  let ?s1 = "upd_cap (l, gc) (\<lambda>x. x\<lparr>cp_mask := UNIV\<rparr>) (upd_cap (l, gc) (\<lambda>x. x\<lparr>cp_ref := 1\<rparr>)
      (upd_gr (Sg l gc) (\<lambda>x. x\<lparr>gr_sgc := (l, gc)\<rparr>) s))"
  have gc: "group_of T l s i = gc" using assms(2,3) group_of_cong [of s s0] by simp
  have sd: "tp_sd ?s1 = tp_sd s0" using assms(2) by simp
  obtain s2 where s2: "fill_group T l gc span (covered, ?s1) =
      (covered \<union> {j \<in> set (cpu_list T span). group_of T l s0 j = gc}, s2)"
    "tp_sd s2 = tp_sd s0" "nxt s2 = nxt ?s1" "tp_cap s2 = tp_cap ?s1"
    "\<forall>g. g \<noteq> Sg l gc \<longrightarrow> tp_gr s2 g = tp_gr ?s1 g"
    "\<forall>g. gr_ref (tp_gr s2 g) = gr_ref (tp_gr ?s1 g)"
    "cpus_of s2 (Sg l gc) = cpus_of ?s1 (Sg l gc) \<union> {j \<in> set (cpu_list T span). group_of T l s0 j = gc}"
    by (rule fill_group_result [OF sd, where T = T and l = l and gc = gc and span = span and covered = covered])
  have step: "groups_step T l span i (covered, gs, s) =
      (covered \<union> {j \<in> set (cpu_list T span). group_of T l s0 j = gc}, gs @ [Sg l gc], link_group (Sg l gc) gs s2)"
    using assms(1) s2(1) by (simp add: groups_step_def get_group_eq gc Let_def)
  have n1: "nxt ?s1 = nxt s" "\<forall>g. gr_ref (tp_gr ?s1 g) = gr_ref (tp_gr s g)" "cpus_of ?s1 = cpus_of s"
    by (auto simp: fun_eq_iff)
  show ?thesis
  proof (rule that [OF step])
    show "tp_sd (link_group (Sg l gc) gs s2) = tp_sd s0"
      using s2(2) by (simp add: link_group_def split: list.split)
    show "nxt (link_group (Sg l gc) gs s2) = (if gs = [] then nxt s else (nxt s)(last gs := Sg l gc))"
      using s2(3) n1(1) by (auto simp: link_group_def fun_eq_iff split: list.split)
    show "\<forall>g. g \<noteq> Sg l gc \<longrightarrow> cpus_of (link_group (Sg l gc) gs s2) g = cpus_of s g"
      using s2(5) by (auto simp: link_group_def split: list.split)
    show "\<forall>g. gr_ref (tp_gr (link_group (Sg l gc) gs s2) g) = gr_ref (tp_gr s g)"
      using s2(6) n1(2) by (auto simp: link_group_def split: list.split)
    show "cpus_of (link_group (Sg l gc) gs s2) (Sg l gc) =
        cpus_of s (Sg l gc) \<union> {j \<in> set (cpu_list T span). group_of T l s0 j = gc}"
      using s2(7) by (auto simp: link_group_def split: list.split)
    show "\<forall>g. g \<noteq> Sg l gc \<longrightarrow> g \<notin> set gs \<longrightarrow> tp_gr (link_group (Sg l gc) gs s2) g = tp_gr s g"
      using s2(5) last_in_set [of gs] by (auto simp: link_group_def split: list.split)
  qed
qed

text \<open>The state of the loop after the CPUs \<open>X\<close>.\<close>

definition groups_inv ::
  "topo_env \<Rightarrow> level \<Rightarrow> cpu set \<Rightarrow> topo \<Rightarrow> cpu set \<Rightarrow> cpu set \<times> grp list \<times> topo \<Rightarrow> bool"
where
  "groups_inv T l span s0 X = (\<lambda>(covered, gs, s). tp_sd s = tp_sd s0 \<and>
     (\<exists>G. gs = map (Sg l) G \<and> distinct G \<and> set G = group_of T l s0 ` X \<and>
        covered = {j \<in> span. group_of T l s0 j \<in> set G} \<and>
        (\<forall>g. cpus_of s (Sg l g) = (if g \<in> set G then {j \<in> span. group_of T l s0 j = g} else {}))) \<and>
     (gs \<noteq> [] \<longrightarrow> path (nxt s) (hd gs) (butlast gs) (last gs)) \<and>
     (\<forall>g. gr_ref (tp_gr s g) = gr_ref (tp_gr s0 g)) \<and>
     (\<forall>g. g \<notin> set gs \<longrightarrow> tp_gr s g = tp_gr s0 g))"

lemma groups_inv_step:
  assumes inv: "groups_inv T l span s0 X st" and span: "set (cpu_list T span) = span" and i: "i \<in> span"
  shows "groups_inv T l span s0 (insert i X) (groups_step T l span i st)"
proof -
  obtain covered gs s where st: "st = (covered, gs, s)" by (cases st)
  obtain G where G: "gs = map (Sg l) G" "distinct G" "set G = group_of T l s0 ` X"
    "covered = {j \<in> span. group_of T l s0 j \<in> set G}"
    "\<forall>g. cpus_of s (Sg l g) = (if g \<in> set G then {j \<in> span. group_of T l s0 j = g} else {})"
    and rest: "tp_sd s = tp_sd s0" "gs \<noteq> [] \<longrightarrow> path (nxt s) (hd gs) (butlast gs) (last gs)"
    "\<forall>g. gr_ref (tp_gr s g) = gr_ref (tp_gr s0 g)" "\<forall>g. g \<notin> set gs \<longrightarrow> tp_gr s g = tp_gr s0 g"
    using inv unfolding st groups_inv_def by auto
  show ?thesis
  proof (cases "i \<in> covered")
    case True
    then have "insert (group_of T l s0 i) (set G) = set G" using G(4) by auto
    with inv True G(3) show ?thesis
      unfolding st groups_inv_def groups_step_def by auto
  next
    case False
    let ?gc = "group_of T l s0 i"
    have new: "?gc \<notin> set G" using False G(4) i by simp
    then have new': "Sg l ?gc \<notin> set gs" using G(1) by auto
    obtain s' where s': "groups_step T l span i (covered, gs, s) =
        (covered \<union> {j \<in> set (cpu_list T span). group_of T l s0 j = ?gc}, gs @ [Sg l ?gc], s')"
      "tp_sd s' = tp_sd s0"
      "nxt s' = (if gs = [] then nxt s else (nxt s)(last gs := Sg l ?gc))"
      "\<forall>g. g \<noteq> Sg l ?gc \<longrightarrow> cpus_of s' g = cpus_of s g"
      "\<forall>g. gr_ref (tp_gr s' g) = gr_ref (tp_gr s g)"
      "cpus_of s' (Sg l ?gc) = cpus_of s (Sg l ?gc) \<union> {j \<in> set (cpu_list T span). group_of T l s0 j = ?gc}"
      "\<forall>g. g \<noteq> Sg l ?gc \<longrightarrow> g \<notin> set gs \<longrightarrow> tp_gr s' g = tp_gr s g"
      by (rule groups_step_new [OF False rest(1) refl])
    have path': "path (nxt s') (hd (gs @ [Sg l ?gc])) gs (Sg l ?gc)"
    proof (cases "gs = []")
      case True
      then show ?thesis by simp
    next
      case gs: False
      have distinct_gs: "distinct gs" using G(1,2) by (simp add: distinct_map inj_on_def)
      have "last gs \<notin> set (butlast gs)"
        using distinct_gs append_butlast_last_id [OF gs] by (metis distinct_append disjoint_iff list.set_intros(1))
      with rest(2) gs s'(3) have "path (nxt s') (hd gs) (butlast gs @ [last gs]) (Sg l ?gc)"
        by (simp add: path_append path_upd del: append_butlast_last_id)
      with gs show ?thesis by simp
    qed
    show ?thesis
      unfolding st groups_inv_def s'(1) prod.case
    proof (intro conjI exI [of _ "G @ [?gc]"])
      show "\<forall>g. cpus_of s' (Sg l g) =
          (if g \<in> set (G @ [?gc]) then {j \<in> span. group_of T l s0 j = g} else {})"
      proof
        fix g
        show "cpus_of s' (Sg l g) = (if g \<in> set (G @ [?gc]) then {j \<in> span. group_of T l s0 j = g} else {})"
          using G(5) s'(4,6) new span by (cases "g = ?gc") simp_all
      qed
      show "gs @ [Sg l ?gc] \<noteq> [] \<longrightarrow> path (nxt s') (hd (gs @ [Sg l ?gc])) (butlast (gs @ [Sg l ?gc])) (last (gs @ [Sg l ?gc]))"
        using path' by simp
      show "\<forall>g. g \<notin> set (gs @ [Sg l ?gc]) \<longrightarrow> tp_gr s' g = tp_gr s0 g"
        using s'(7) rest(4) by auto
    qed (use G new s'(2,5) rest(3) span in auto)
  qed
qed

lemma groups_fold:
  assumes "set (cpu_list T span) = span" "set xs \<subseteq> span" "groups_inv T l span s0 X st"
  shows "groups_inv T l span s0 (set xs \<union> X) (fold (groups_step T l span) xs st)"
  using assms(2,3)
proof (induction xs arbitrary: X st)
  case (Cons x xs)
  from Cons.IH [OF _ groups_inv_step [OF Cons.prems(2) assms(1)]] Cons.prems(1)
  show ?case by simp
qed simp

lemma set_cpu_list: "m \<subseteq> {..<te_ncpus T} \<Longrightarrow> set (cpu_list T m) = m"
  by (auto simp: cpu_list_def)

lemma group_of_groups_upd [simp]:
  "group_of T l (upd_sd l' c' (\<lambda>d. d\<lparr>td_groups := z\<rparr>) s) = group_of T l s"
  by (rule ext) (auto simp: group_of_def split: option.split)

text \<open>What the CPU that builds the groups of a domain leaves behind.\<close>

lemma build_sched_groups_ring:
  assumes "span = td_span (tp_sd s l c)" "span \<subseteq> {..<te_ncpus T}" "span \<noteq> {}" "c = cpu_first T span"
    and fresh: "\<forall>g. cpus_of s (Sg l g) = {}"
  obtains s' gs where "build_sched_groups T l c s = Inr s'" "ring (nxt s') gs"
    "set gs = Sg l ` group_of T l s ` span"
    "\<forall>g \<in> group_of T l s ` span. cpus_of s' (Sg l g) = {j \<in> span. group_of T l s j = g}"
    "td_groups (tp_sd s' l c) = Some (Sg l (group_of T l s c))"
    "\<forall>g. gr_ref (tp_gr s' g) = gr_ref (tp_gr s g) + (if g = Sg l (group_of T l s c) then 1 else 0)"
    "\<forall>l' c'. td_span (tp_sd s' l' c') = td_span (tp_sd s l' c') \<and> td_child (tp_sd s' l' c') = td_child (tp_sd s l' c') \<and>
       td_parent (tp_sd s' l' c') = td_parent (tp_sd s l' c')"
    "\<forall>g. g \<notin> Sg l ` group_of T l s ` span \<longrightarrow> g \<noteq> Sg l (group_of T l s c) \<longrightarrow> tp_gr s' g = tp_gr s g"
proof -
  let ?g = "group_of T l s c"
  define s0 where "s0 = upd_gr (Sg l ?g) (\<lambda>x. x\<lparr>gr_ref := gr_ref x + 1\<rparr>)
    (upd_sd l c (\<lambda>d. d\<lparr>td_groups := Some (Sg l ?g)\<rparr>) (snd (get_group T l c s)))"
  have g0: "group_of T l s0 = group_of T l s"
    unfolding s0_def get_group_eq by (rule ext) (auto simp: group_of_def split: option.split)
  have sp: "set (cpu_list T span) = span" using assms(2) by (rule set_cpu_list)
  have "groups_inv T l span s0 {} ({}, [], s0)"
    using fresh by (simp add: groups_inv_def s0_def get_group_eq)
  from groups_fold [OF sp _ this, of "cpu_list T span"] sp
  have inv: "groups_inv T l span s0 span (fold (groups_step T l span) (cpu_list T span) ({}, [], s0))"
    by simp
  obtain covered gs s1 where f: "fold (groups_step T l span) (cpu_list T span) ({}, [], s0) = (covered, gs, s1)"
    by (cases "fold (groups_step T l span) (cpu_list T span) ({}, [], s0)")
  obtain G where G: "gs = map (Sg l) G" "distinct G" "set G = group_of T l s ` span"
    "\<forall>g. cpus_of s1 (Sg l g) = (if g \<in> set G then {j \<in> span. group_of T l s j = g} else {})"
    and rest: "tp_sd s1 = tp_sd s0" "gs \<noteq> [] \<longrightarrow> path (nxt s1) (hd gs) (butlast gs) (last gs)"
    "\<forall>g. gr_ref (tp_gr s1 g) = gr_ref (tp_gr s0 g)" "\<forall>g. g \<notin> set gs \<longrightarrow> tp_gr s1 g = tp_gr s0 g"
    using inv unfolding f groups_inv_def g0 prod.case by (elim exE conjE) (rule that, assumption+)
  have ne: "gs \<noteq> []" using G(1,3) assms(3) by auto
  define s' where "s' = upd_gr (last gs) (\<lambda>x. x\<lparr>gr_next := hd gs\<rparr>) s1"
  have dist: "distinct (butlast gs @ [last gs])"
    using G(1,2) ne by (simp add: distinct_map inj_on_def)
  have "build_sched_groups T l c s =
      (let (covered, gs, s) = fold (groups_step T l span) (cpu_list T span) ({}, [], s0)
       in case gs of [] \<Rightarrow> Inl NullDeref | g1 # _ \<Rightarrow> Inr (upd_gr (last gs) (\<lambda>x. x\<lparr>gr_next := g1\<rparr>) s))"
    unfolding build_sched_groups_def get_group_eq Let_def prod.case assms(1) [symmetric] assms(4) [symmetric]
    by (simp add: s0_def get_group_eq)
  then have run: "build_sched_groups T l c s = Inr s'"
    using f ne unfolding s'_def by (cases gs) simp_all
  have cpus': "cpus_of s' = cpus_of s1" by (auto simp: s'_def fun_eq_iff)
  have nxt': "nxt s' = (nxt s1)(last gs := hd gs)" by (auto simp: s'_def fun_eq_iff)
  have ring: "ring (nxt s') gs"
    using ring_close [OF dist, of "nxt s1"] rest(2) ne unfolding nxt' by simp
  show ?thesis
  proof (rule that [OF run ring])
    show "set gs = Sg l ` group_of T l s ` span" using G(1,3) by simp
    show "\<forall>g \<in> group_of T l s ` span. cpus_of s' (Sg l g) = {j \<in> span. group_of T l s j = g}"
      using G(3,4) fun_cong [OF cpus'] by simp
    show "td_groups (tp_sd s' l c) = Some (Sg l (group_of T l s c))"
      by (simp add: s'_def rest(1) s0_def)
    show "\<forall>g. gr_ref (tp_gr s' g) = gr_ref (tp_gr s g) + (if g = Sg l ?g then 1 else 0)"
      using rest(3) by (simp add: s'_def s0_def get_group_eq)
    show "\<forall>l' c'. td_span (tp_sd s' l' c') = td_span (tp_sd s l' c') \<and> td_child (tp_sd s' l' c') = td_child (tp_sd s l' c') \<and>
       td_parent (tp_sd s' l' c') = td_parent (tp_sd s l' c')"
      by (simp add: s'_def rest(1) s0_def get_group_eq)
    show "\<forall>g. g \<notin> Sg l ` group_of T l s ` span \<longrightarrow> g \<noteq> Sg l ?g \<longrightarrow> tp_gr s' g = tp_gr s g"
      using rest(4) G(1,3) last_in_set [OF ne] by (auto simp: s'_def s0_def get_group_eq)
  qed
qed

text \<open>C20 The groups of a domain: the first CPU of the span builds them, and it succeeds. The groups form
  one ring; two CPUs of the span are in the same group exactly if the domains below them start
  with the same CPU, so the groups partition the span; and the domain points to the group of
  the CPU it was built for.\<close>

theorem build_sched_groups_partition:
  assumes "span = td_span (tp_sd s l c)" "span \<subseteq> {..<te_ncpus T}" "span \<noteq> {}" "c = cpu_first T span"
    and "\<forall>g. cpus_of s (Sg l g) = {}"
  shows "\<exists>s' gs. build_sched_groups T l c s = Inr s' \<and> ring (nxt s') gs \<and>
     set gs = Sg l ` group_of T l s ` span \<and>
     (\<forall>i \<in> span. cpus_of s' (Sg l (group_of T l s i)) = {j \<in> span. group_of T l s j = group_of T l s i}) \<and>
     (\<Union>g \<in> set gs. cpus_of s' g) = span \<and>
     td_groups (tp_sd s' l c) = Some (Sg l (group_of T l s c)) \<and> c \<in> cpus_of s' (Sg l (group_of T l s c))"
proof -
  obtain s' gs where s': "build_sched_groups T l c s = Inr s'" "ring (nxt s') gs"
    "set gs = Sg l ` group_of T l s ` span"
    "\<forall>g \<in> group_of T l s ` span. cpus_of s' (Sg l g) = {j \<in> span. group_of T l s j = g}"
    "td_groups (tp_sd s' l c) = Some (Sg l (group_of T l s c))"
    by (rule build_sched_groups_ring [OF assms]) (rule that, assumption+)
  have "c \<in> set (cpu_list T span)"
    using assms(2,3,4) set_cpu_list [OF assms(2)] by (auto simp: cpu_first_def split: list.splits)
  then have "c \<in> span" using set_cpu_list [OF assms(2)] by simp
  moreover have "(\<Union>g \<in> set gs. cpus_of s' g) = span" using s'(3,4) by auto
  ultimately show ?thesis using s' by (intro exI [of _ s'] exI [of _ gs]) auto
qed

text \<open>The four CPUs of the package, in two groups of a core each.\<close>

definition demo_package :: topo where
  "demo_package = blank_topo\<lparr>tp_sd := (\<lambda>l c. blank_domain\<lparr>td_span := (if l = 0 then (if c < 2 then {0, 1} else {2, 3}) else {0, 1, 2, 3}),
     td_child := (if l = 0 then None else Some (0, c))\<rparr>)\<rparr>"

theorem build_sched_groups_partition_witness:
  "\<exists>s' gs. build_sched_groups demo_topo_env 1 0 demo_package = Inr s' \<and> ring (nxt s') gs \<and>
     set gs = {Sg 1 0, Sg 1 2} \<and> cpus_of s' (Sg 1 0) = {0, 1} \<and> cpus_of s' (Sg 1 2) = {2, 3}"
proof -
  have u: "[0..<4] = [0, 1, 2, 3 :: nat]" by (simp add: upt_conv_Cons)
  have span: "{0, 1, 2, 3} = td_span (tp_sd demo_package 1 0)" "{0, 1, 2, 3} \<subseteq> {..<te_ncpus demo_topo_env}"
    by (auto simp: demo_package_def demo_topo_env_def)
  have first: "0 = cpu_first demo_topo_env {0, 1, 2, 3}"
    by (simp add: cpu_first_def cpu_list_def demo_topo_env_def u)
  have g: "group_of demo_topo_env 1 demo_package i = (if i < 2 then 0 else 2)" for i
    by (simp add: group_of_def demo_package_def cpu_first_def cpu_list_def demo_topo_env_def u)
  have empty: "\<forall>g. cpus_of demo_package (Sg 1 g) = {}" by (simp add: demo_package_def blank_topo_def)
  from build_sched_groups_partition [OF span _ first empty]
  obtain s' gs where s': "build_sched_groups demo_topo_env 1 0 demo_package = Inr s'" "ring (nxt s') gs"
    "set gs = Sg 1 ` group_of demo_topo_env 1 demo_package ` {0, 1, 2, 3}"
    "\<forall>i \<in> {0, 1, 2, 3}. cpus_of s' (Sg 1 (group_of demo_topo_env 1 demo_package i)) =
       {j \<in> {0, 1, 2, 3}. group_of demo_topo_env 1 demo_package j = group_of demo_topo_env 1 demo_package i}"
    by auto
  have "set gs = {Sg 1 0, Sg 1 2}" using s'(3) by (auto simp: g [simplified])
  moreover have "cpus_of s' (Sg 1 0) = {0, 1}" using s'(4) by (auto simp: g [simplified])
  moreover have "cpus_of s' (Sg 1 2) = {2, 3}" using s'(4) by (auto simp: g [simplified])
  ultimately show ?thesis using s'(1,2) by blast
qed

end
