(* ===== verification/Sched_Build.thy ===== *)
theory Sched_Build
  imports Sched_Topology
begin

text \<open>
  Building the scheduling domains of a map of CPUs, from the allocation of their storage to the
  attachment of the finished domains (\<^verbatim>\<open>core.c\<close>): the storage of the levels and its release
  on every error path, the private groups of overlapping domains, the capacities of the groups, the
  release of a domain whose groups are shared, and \<open>build_sched_domains\<close> as a whole.

  Objects are named within one call of \<open>build_sched_domains\<close>, which starts with none allocated.
\<close>

section \<open>Storage\<close>

datatype obj = Arr_sd level | Arr_sg level | Arr_sgc level
  | Obj_sd level cpu | Obj_group grp | Obj_sgc level cpu | Arr_doms | Rootdom

text \<open>
  \<open>bl_ptr\<close>: the pointers that are not null, each named by the object that it points to: the
  arrays of the levels, their slots for the CPUs, \<open>d->sd\<close> and \<open>d->rd\<close>.
\<close>

record bld =
  bl_topo :: topo
  bl_live :: "obj set"
  bl_ptr :: "obj set"

definition on_topo :: "(topo \<Rightarrow> topo) \<Rightarrow> bld \<Rightarrow> bld" where
  "on_topo f b = b\<lparr>bl_topo := f (bl_topo b)\<rparr>"

lemma on_topo_simps [simp]:
  "bl_topo (on_topo f b) = f (bl_topo b)" "bl_live (on_topo f b) = bl_live b" "bl_ptr (on_topo f b) = bl_ptr b"
  by (simp_all add: on_topo_def)

text \<open>Steps that return an error code: \<open>False\<close> for \<open>- ENOMEM\<close>.\<close>

definition and_then :: "bool \<times> 's \<Rightarrow> ('s \<Rightarrow> bool \<times> 's) \<Rightarrow> bool \<times> 's" where
  "and_then r f = (case r of (True, s) \<Rightarrow> f s | (False, s) \<Rightarrow> (False, s))"

lemma and_then_simps [simp]: "and_then (True, s) f = f s" "and_then (False, s) f = (False, s)"
  by (simp_all add: and_then_def)

primrec each_ok :: "('a \<Rightarrow> 's \<Rightarrow> bool \<times> 's) \<Rightarrow> 'a list \<Rightarrow> 's \<Rightarrow> bool \<times> 's" where
  "each_ok f [] s = (True, s)"
| "each_ok f (x # xs) s = and_then (f x s) (each_ok f xs)"

primrec each_c :: "('a \<Rightarrow> 's \<Rightarrow> crash + 's) \<Rightarrow> 'a list \<Rightarrow> 's \<Rightarrow> crash + 's" where
  "each_c f [] s = Inr s"
| "each_c f (x # xs) s = bindC (f x s) (each_c f xs)"

primrec each_okc :: "('a \<Rightarrow> 's \<Rightarrow> crash + bool \<times> 's) \<Rightarrow> 'a list \<Rightarrow> 's \<Rightarrow> crash + bool \<times> 's" where
  "each_okc f [] s = Inr (True, s)"
| "each_okc f (x # xs) s = bindC (f x s) (\<lambda>(ok, s). if ok then each_okc f xs s else Inr (False, s))"

text \<open>\<open>kzalloc_node\<close> of an object and the store into its slot; \<open>alloc_percpu\<close>, whose slots are null.\<close>

definition try_alloc :: "(obj \<Rightarrow> bool) \<Rightarrow> obj \<Rightarrow> (topo \<Rightarrow> topo) \<Rightarrow> bld \<Rightarrow> bool \<times> bld" where
  "try_alloc ok x zero b =
     (if ok x then (True, on_topo zero (b\<lparr>bl_live := insert x (bl_live b), bl_ptr := insert x (bl_ptr b)\<rparr>))
      else (False, b))"

fun slot_of :: "obj \<Rightarrow> obj \<Rightarrow> bool" where
  "slot_of (Arr_sd l) (Obj_sd l' j) \<longleftrightarrow> l = l'"
| "slot_of (Arr_sg l) (Obj_group (Sg l' j)) \<longleftrightarrow> l = l'"
| "slot_of (Arr_sgc l) (Obj_sgc l' j) \<longleftrightarrow> l = l'"
| "slot_of _ _ \<longleftrightarrow> False"

definition alloc_percpu :: "(obj \<Rightarrow> bool) \<Rightarrow> obj \<Rightarrow> bld \<Rightarrow> bool \<times> bld" where
  "alloc_percpu ok a b =
     (if ok a then (True, b\<lparr>bl_live := insert a (bl_live b), bl_ptr := insert a {x \<in> bl_ptr b. \<not> slot_of a x}\<rparr>)
      else (False, b\<lparr>bl_ptr := bl_ptr b - {a}\<rparr>))"

text \<open>\<open>kfree\<close> through a pointer that is not null, and through one that may be.\<close>

definition kfree_obj :: "obj \<Rightarrow> bld \<Rightarrow> crash + bld" where
  "kfree_obj x b = (if x \<in> bl_live b then Inr (b\<lparr>bl_live := bl_live b - {x}\<rparr>) else Inl UseAfterFree)"

definition kfree_ptr :: "obj \<Rightarrow> bld \<Rightarrow> crash + bld" where
  "kfree_ptr x b = (if x \<in> bl_ptr b then kfree_obj x b else Inr b)"

text \<open>Zeroed objects. The capacity of a new group is set before it is used.\<close>

definition blank_group :: "grp \<Rightarrow> level \<times> cpu \<Rightarrow> topo_group" where
  "blank_group next sgc = \<lparr>gr_cpus = {}, gr_next = next, gr_ref = 0, gr_weight = 0, gr_sgc = sgc\<rparr>"

definition blank_cap :: topo_cap where
  "blank_cap = \<lparr>cp_ref = 0, cp_mask = {}, cp_capacity = 0, cp_capacity_orig = 0, cp_nr_busy = 0\<rparr>"

text \<open>\<open>__sdt_alloc\<close>.\<close>

definition sdt_alloc_cpu :: "(obj \<Rightarrow> bool) \<Rightarrow> level \<Rightarrow> cpu \<Rightarrow> bld \<Rightarrow> bool \<times> bld" where
  "sdt_alloc_cpu ok l j b =
     and_then (try_alloc ok (Obj_sd l j) (upd_sd l j (\<lambda>_. blank_domain)) b) (\<lambda>b.
     and_then (try_alloc ok (Obj_group (Sg l j)) (upd_gr (Sg l j) (\<lambda>_. blank_group (Sg l j) (l, j))) b) (\<lambda>b.
     try_alloc ok (Obj_sgc l j) (upd_cap (l, j) (\<lambda>_. blank_cap)) b))"

definition sdt_alloc_level :: "topo_env \<Rightarrow> (obj \<Rightarrow> bool) \<Rightarrow> cpu set \<Rightarrow> level \<Rightarrow> bld \<Rightarrow> bool \<times> bld" where
  "sdt_alloc_level T ok m l b =
     and_then (alloc_percpu ok (Arr_sd l) b) (\<lambda>b.
     and_then (alloc_percpu ok (Arr_sg l) b) (\<lambda>b.
     and_then (alloc_percpu ok (Arr_sgc l) b)
       (each_ok (sdt_alloc_cpu ok l) (cpu_list T m))))"

definition sdt_alloc :: "topo_env \<Rightarrow> (obj \<Rightarrow> bool) \<Rightarrow> cpu set \<Rightarrow> bld \<Rightarrow> bool \<times> bld" where
  "sdt_alloc T ok m = each_ok (sdt_alloc_level T ok m) [0..<te_levels T]"

section \<open>Freeing groups and domains\<close>

text \<open>\<open>atomic_dec_and_test\<close> of a reference count of a capacity; \<open>kfree\<close> if it drops to 0.\<close>

definition put_sgc :: "level \<times> cpu \<Rightarrow> bld \<Rightarrow> crash + bld" where
  "put_sgc lc b =
     (let b = on_topo (upd_cap lc (\<lambda>x. x\<lparr>cp_ref := cp_ref x - 1\<rparr>)) b
      in if cp_ref (tp_cap (bl_topo b) (fst lc) (snd lc)) = 0 then kfree_obj (Obj_sgc (fst lc) (snd lc)) b
         else Inr b)"

definition free_group :: "bool \<Rightarrow> grp \<Rightarrow> bld \<Rightarrow> crash + bld" where
  "free_group free_sgc g b =
     bindC (if free_sgc then put_sgc (gr_sgc (tp_gr (bl_topo b) g)) b else Inr b) (kfree_obj (Obj_group g))"

partial_function (option) free_ring :: "bool \<Rightarrow> grp \<Rightarrow> grp \<Rightarrow> bld \<Rightarrow> (crash + bld) option" where
  "free_ring free_sgc first sg b =
     (let tmp = gr_next (tp_gr (bl_topo b) sg)
      in case free_group free_sgc sg b of
           Inl e \<Rightarrow> Some (Inl e)
         | Inr b \<Rightarrow> if tmp = first then Some (Inr b) else free_ring free_sgc first tmp b)"

definition ended :: "(crash + 'a) option \<Rightarrow> crash + 'a" where
  "ended r = (case r of None \<Rightarrow> Inl Diverges | Some x \<Rightarrow> x)"

definition free_sched_groups :: "grp option \<Rightarrow> bool \<Rightarrow> bld \<Rightarrow> crash + bld" where
  "free_sched_groups sg free_sgc b =
     (case sg of None \<Rightarrow> Inr b | Some g \<Rightarrow> ended (free_ring free_sgc g g b))"

definition free_sched_domain :: "level \<times> cpu \<Rightarrow> bld \<Rightarrow> crash + bld" where
  "free_sched_domain sd b =
     (let d = tp_sd (bl_topo b) (fst sd) (snd sd)
      in bindC
           (if td_flags d AND SD_OVERLAP \<noteq> 0 then free_sched_groups (td_groups d) True b
            else case td_groups d of
              None \<Rightarrow> Inl NullDeref
            | Some g \<Rightarrow>
                let b = on_topo (upd_gr g (\<lambda>x. x\<lparr>gr_ref := gr_ref x - 1\<rparr>)) b
                in if gr_ref (tp_gr (bl_topo b) g) = 0
                   then bindC (kfree_obj (Obj_sgc (fst (gr_sgc (tp_gr (bl_topo b) g))) (snd (gr_sgc (tp_gr (bl_topo b) g)))) b)
                          (kfree_obj (Obj_group g))
                   else Inr b)
           (kfree_obj (Obj_sd (fst sd) (snd sd))))"

text \<open>\<open>__sdt_free\<close>: the null arrays are passed over, the others cleared.\<close>

definition sdt_free_cpu :: "level \<Rightarrow> cpu \<Rightarrow> bld \<Rightarrow> crash + bld" where
  "sdt_free_cpu l j b =
     bindC
       (if Arr_sd l \<in> bl_ptr b
        then bindC
               (if Obj_sd l j \<in> bl_ptr b \<and> td_flags (tp_sd (bl_topo b) l j) AND SD_OVERLAP \<noteq> 0
                then free_sched_groups (td_groups (tp_sd (bl_topo b) l j)) False b else Inr b)
               (kfree_ptr (Obj_sd l j))
        else Inr b) (\<lambda>b.
     bindC (if Arr_sg l \<in> bl_ptr b then kfree_ptr (Obj_group (Sg l j)) b else Inr b) (\<lambda>b.
     if Arr_sgc l \<in> bl_ptr b then kfree_ptr (Obj_sgc l j) b else Inr b))"

definition free_percpu :: "obj \<Rightarrow> bld \<Rightarrow> crash + bld" where
  "free_percpu a b = bindC (kfree_ptr a b) (\<lambda>b. Inr (b\<lparr>bl_ptr := bl_ptr b - {a}\<rparr>))"

definition sdt_free :: "topo_env \<Rightarrow> cpu set \<Rightarrow> bld \<Rightarrow> crash + bld" where
  "sdt_free T m =
     each_c (\<lambda>l b. bindC (each_c (sdt_free_cpu l) (cpu_list T m) b) (\<lambda>b.
         bindC (free_percpu (Arr_sd l) b) (\<lambda>b. bindC (free_percpu (Arr_sg l) b) (free_percpu (Arr_sgc l)))))
       [0..<te_levels T]"

datatype s_alloc = Sa_rootdomain | Sa_sd | Sa_sd_storage | Sa_none

definition visit_domain_allocation_hell ::
  "topo_env \<Rightarrow> (obj \<Rightarrow> bool) \<Rightarrow> cpu set \<Rightarrow> bld \<Rightarrow> s_alloc \<times> bld"
where
  "visit_domain_allocation_hell T ok m b =
     (let b = b\<lparr>bl_ptr := bl_ptr b - {Arr_doms, Rootdom}\<rparr>;
          (done1, b) = sdt_alloc T ok m b
      in if \<not> done1 then (Sa_sd_storage, b)
         else let (done2, b) = alloc_percpu ok Arr_doms b
         in if \<not> done2 then (Sa_sd_storage, b)
         else let (done3, b) = try_alloc ok Rootdom (\<lambda>t. t) b
         in if \<not> done3 then (Sa_sd, b) else (Sa_rootdomain, b))"

text \<open>\<open>users\<close> is the reference count of the new root domain.\<close>

definition free_domain_allocs :: "topo_env \<Rightarrow> s_alloc \<Rightarrow> int \<Rightarrow> cpu set \<Rightarrow> bld \<Rightarrow> crash + bld" where
  "free_domain_allocs T what users m b =
     bindC (if what = Sa_rootdomain \<and> users = 0 then kfree_obj Rootdom b else Inr b) (\<lambda>b.
     bindC (if what \<in> {Sa_rootdomain, Sa_sd} then kfree_ptr Arr_doms b else Inr b) (\<lambda>b.
     if what \<noteq> Sa_none then sdt_free T m b else Inr b))"

text \<open>
  What a domain uses is taken out of the slots. A slot that is null when its object's count is
  read is a crash.
\<close>

definition claim_allocations :: "level \<Rightarrow> cpu \<Rightarrow> bld \<Rightarrow> crash + bld" where
  "claim_allocations l c b =
     (let b = b\<lparr>bl_ptr := bl_ptr b - {Obj_sd l c}\<rparr>
      in if Obj_group (Sg l c) \<notin> bl_ptr b \<or> Obj_sgc l c \<notin> bl_ptr b then Inl NullDeref
         else
           let b = (if gr_ref (tp_gr (bl_topo b) (Sg l c)) \<noteq> 0
                    then b\<lparr>bl_ptr := bl_ptr b - {Obj_group (Sg l c)}\<rparr> else b)
           in Inr (if cp_ref (tp_cap (bl_topo b) l c) \<noteq> 0 then b\<lparr>bl_ptr := bl_ptr b - {Obj_sgc l c}\<rparr> else b))"

section \<open>Overlapping domains\<close>

definition build_group_mask :: "level \<Rightarrow> cpu list \<Rightarrow> grp \<Rightarrow> topo \<Rightarrow> topo" where
  "build_group_mask l span sg s =
     fold (\<lambda>i s. if i \<notin> td_span (tp_sd s l i) then s
                 else upd_cap (gr_sgc (tp_gr s sg)) (\<lambda>x. x\<lparr>cp_mask := insert i (cp_mask x)\<rparr>) s) span s"

definition group_mask :: "topo \<Rightarrow> grp \<Rightarrow> cpu set" where   \<comment> \<open>\<open>sched_group_mask\<close>\<close>
  "group_mask s g = (let lc = gr_sgc (tp_gr s g) in cp_mask (tp_cap s (fst lc) (snd lc)))"

definition group_balance_cpu :: "topo_env \<Rightarrow> topo \<Rightarrow> grp \<Rightarrow> cpu" where
  "group_balance_cpu T s g = cpu_first T (gr_cpus (tp_gr s g) \<inter> group_mask s g)"

text \<open>One new group: its CPUs, its capacity, its place behind the last group of the ring.\<close>

definition overlap_group ::
  "topo_env \<Rightarrow> level \<Rightarrow> cpu \<Rightarrow> cpu set \<Rightarrow> cpu \<Rightarrow> topo \<Rightarrow> topo"
where
  "overlap_group T l c span i s =
     (let g = Og l c i;
          cpus = (case td_child (tp_sd s l i) of None \<Rightarrow> {i} | Some (l', c') \<Rightarrow> td_span (tp_sd s l' c'));
          s = upd_gr g (\<lambda>_. (blank_group g (l, i))\<lparr>gr_cpus := cpus\<rparr>) s;
          s = upd_cap (l, i) (\<lambda>x. x\<lparr>cp_ref := cp_ref x + 1\<rparr>) s;
          s = (if cp_ref (tp_cap s l i) = 1 then build_group_mask l (cpu_list T span) g s else s)
      in upd_cap (l, i) (\<lambda>x. x\<lparr>cp_capacity := 1024 * card cpus, cp_capacity_orig := 1024 * card cpus\<rparr>) s)"

primrec overlap_loop ::
  "topo_env \<Rightarrow> (obj \<Rightarrow> bool) \<Rightarrow> level \<Rightarrow> cpu \<Rightarrow> cpu set \<Rightarrow> cpu list \<Rightarrow> cpu set \<Rightarrow> grp list \<Rightarrow> grp option \<Rightarrow> bld \<Rightarrow>
     crash + bool \<times> bld"
where
  "overlap_loop T ok l c span [] covered gs groups b =
     Inr (True, on_topo (upd_sd l c (\<lambda>d. d\<lparr>td_groups := groups\<rparr>)) b)"
| "overlap_loop T ok l c span (i # is) covered gs groups b =
     (if i \<in> covered \<or> i \<notin> td_span (tp_sd (bl_topo b) l i) then overlap_loop T ok l c span is covered gs groups b
      else
        let g = Og l c i
        in if \<not> ok (Obj_group g)
           then bindC (free_sched_groups (head_opt gs) False b) (\<lambda>b. Inr (False, b))
           else
             let b = on_topo (overlap_group T l c span i) (b\<lparr>bl_live := insert (Obj_group g) (bl_live b)\<rparr>);
                 covered = covered \<union> gr_cpus (tp_gr (bl_topo b) g);
                 groups = (if groups = None \<and> c \<in> gr_cpus (tp_gr (bl_topo b) g) \<or> group_balance_cpu T (bl_topo b) g = c
                           then Some g else groups);
                 b = on_topo (link_group g gs) b;
                 b = on_topo (upd_gr g (\<lambda>x. x\<lparr>gr_next := hd (gs @ [g])\<rparr>)) b
             in overlap_loop T ok l c span is covered (gs @ [g]) groups b)"

definition build_overlap_sched_groups :: "topo_env \<Rightarrow> (obj \<Rightarrow> bool) \<Rightarrow> level \<Rightarrow> cpu \<Rightarrow> bld \<Rightarrow> crash + bool \<times> bld" where
  "build_overlap_sched_groups T ok l c b =
     (let span = td_span (tp_sd (bl_topo b) l c)
      in overlap_loop T ok l c span (cpu_list T span) {} [] None b)"

section \<open>Capacities\<close>

partial_function (option) weigh_groups :: "grp \<Rightarrow> grp \<Rightarrow> topo \<Rightarrow> topo option" where
  "weigh_groups first sg s =
     (let s = upd_gr sg (\<lambda>x. x\<lparr>gr_weight := card (gr_cpus x)\<rparr>) s;
          sg = gr_next (tp_gr s sg)
      in if sg = first then Some s else weigh_groups first sg s)"

definition init_sched_groups_capacity :: "topo_env \<Rightarrow> level \<times> cpu \<Rightarrow> cpu \<Rightarrow> topo \<Rightarrow> crash + topo" where
  "init_sched_groups_capacity T sd c s =
     (case td_groups (tp_sd s (fst sd) (snd sd)) of
        None \<Rightarrow> Inl NullDeref
      | Some sg \<Rightarrow>
          (case weigh_groups sg sg s of
             None \<Rightarrow> Inl Diverges
           | Some s \<Rightarrow>
               if c \<noteq> group_balance_cpu T s sg then Inr s
               else
                 let s = te_update_capacity T (fst sd) c s
                 in Inr (upd_cap (gr_sgc (tp_gr s sg)) (\<lambda>x. x\<lparr>cp_nr_busy := gr_weight (tp_gr s sg)\<rparr>) s)))"

section \<open>All domains of a map\<close>

text \<open>
  The domains of a CPU from \<open>*per_cpu_ptr(d.sd, i)\<close> upwards. A parent is a level above its
  child, so the number of levels bounds the walk.
\<close>

primrec climb :: "nat \<Rightarrow> topo \<Rightarrow> level \<times> cpu \<Rightarrow> (level \<times> cpu) list" where
  "climb 0 s sd = []"
| "climb (Suc n) s sd =
     sd # (case td_parent (tp_sd s (fst sd) (snd sd)) of None \<Rightarrow> [] | Some p \<Rightarrow> climb n s p)"

definition domains_of :: "topo_env \<Rightarrow> topo \<Rightarrow> cpu \<Rightarrow> (level \<times> cpu) list" where
  "domains_of T s c = climb (te_levels T) s (0, c)"

definition build_groups_of :: "topo_env \<Rightarrow> (obj \<Rightarrow> bool) \<Rightarrow> cpu \<Rightarrow> bld \<Rightarrow> crash + bool \<times> bld" where
  "build_groups_of T ok i b =
     each_okc (\<lambda>(l, c) b.
         let b = on_topo (upd_sd l c (\<lambda>d. d\<lparr>td_span_weight := card (td_span d)\<rparr>)) b
         in if td_flags (tp_sd (bl_topo b) l c) AND SD_OVERLAP \<noteq> 0 then build_overlap_sched_groups T ok l i b
            else bindC (build_sched_groups T l i (bl_topo b)) (\<lambda>s. Inr (True, b\<lparr>bl_topo := s\<rparr>)))
       (domains_of T (bl_topo b) i) b"

definition settle_cpu :: "topo_env \<Rightarrow> cpu \<Rightarrow> bld \<Rightarrow> crash + bld" where
  "settle_cpu T i b =
     each_c (\<lambda>(l, c) b. bindC (claim_allocations l i b) (\<lambda>b.
         bindC (init_sched_groups_capacity T (l, c) i (bl_topo b)) (\<lambda>s. Inr (b\<lparr>bl_topo := s\<rparr>))))
       (domains_of T (bl_topo b) i) b"

text \<open>
  The finished domain as \<open>cpu_attach_domain\<close> sees it; of the ring it asks only whether the
  group is alone in it.
\<close>

definition finished :: "topo \<Rightarrow> level \<times> cpu \<Rightarrow> sched_domain" where
  "finished s sd =
     (let d = tp_sd s (fst sd) (snd sd)
      in \<lparr>sd_span = td_span d, sd_flags = td_flags d,
          sd_groups = (case td_groups d of None \<Rightarrow> 0 | Some g \<Rightarrow> if gr_next (tp_gr s g) = g then 1 else 2)\<rparr>)"

definition build_sched_domains ::
  "topo_env \<Rightarrow> (obj \<Rightarrow> bool) \<Rightarrow> 'x env \<Rightarrow> nat \<Rightarrow> 'x class_hook \<Rightarrow> 'x class_hook \<Rightarrow> nat \<Rightarrow> cpu set \<Rightarrow> int option \<Rightarrow>
     bld \<Rightarrow> (cpu \<Rightarrow> sched_domain list \<times> top_cache) \<Rightarrow> 'x kstate \<Rightarrow>
     crash + errno \<times> bld \<times> (cpu \<Rightarrow> sched_domain list \<times> top_cache) \<times> 'x kstate"
where
  "build_sched_domains T ok E nodes up down rd m attr b doms s =
     (let (alloc_state, b) = visit_domain_allocation_hell T ok m b;
          fail = (\<lambda>b. bindC (free_domain_allocs T alloc_state 0 m b) (\<lambda>b. Inr (- ENOMEM, b, doms, s)))
      in if alloc_state \<noteq> Sa_rootdomain then fail b
         else
           let b = on_topo (fold (\<lambda>i. build_levels T m attr i [0..<te_levels T] None) (cpu_list T m)) b
           in bindC (each_okc (build_groups_of T ok) (cpu_list T m) b) (\<lambda>(built, b).
              if \<not> built then fail b
              else
                bindC (each_c (settle_cpu T) (rev (cpu_list T m)) b) (\<lambda>b.
                let (doms', s) = fold (\<lambda>i (doms, s).
                      let (att, s) = cpu_attach_domain E nodes up down (map (finished (bl_topo b)) (domains_of T (bl_topo b) i)) rd i s
                      in (doms(i := att), s)) (cpu_list T m) (doms, s)
                in bindC (free_domain_allocs T Sa_rootdomain (rd_refcount (ks_rds s rd)) m b) (\<lambda>b.
                   Inr (0, b, doms', s)))))"

section \<open>Walking a ring\<close>

lemma ring_walk:
  assumes "ring n gs" "g \<in> set gs"
  obtains hs where "hs \<noteq> []" "hd hs = g" "path n g hs g" "g \<notin> set (tl hs)" "distinct hs" "set hs = set gs"
proof -
  obtain hs where hs: "ring n hs" "hd hs = g" "set hs = set gs" by (rule ring_from [OF assms])
  show ?thesis
  proof (rule that)
    show "g \<notin> set (tl hs)" using hs(1,2) by (cases hs) (auto simp: ring_def)
  qed (use hs in \<open>auto simp: ring_def\<close>)
qed

text \<open>\<open>weigh_groups\<close> ends and weighs every group of the ring.\<close>

definition weigh :: "grp \<Rightarrow> topo \<Rightarrow> topo" where
  "weigh g = upd_gr g (\<lambda>x. x\<lparr>gr_weight := card (gr_cpus x)\<rparr>)"

lemma weigh_frame [simp]:
  "gr_next (tp_gr (weigh g s) h) = gr_next (tp_gr s h)" "gr_cpus (tp_gr (weigh g s) h) = gr_cpus (tp_gr s h)"
  "gr_sgc (tp_gr (weigh g s) h) = gr_sgc (tp_gr s h)" "gr_ref (tp_gr (weigh g s) h) = gr_ref (tp_gr s h)"
  "tp_sd (weigh g s) = tp_sd s" "tp_cap (weigh g s) = tp_cap s"
  by (simp_all add: weigh_def)

lemma weigh_fold [simp]:
  "gr_next (tp_gr (fold weigh gs s) h) = gr_next (tp_gr s h)" "gr_cpus (tp_gr (fold weigh gs s) h) = gr_cpus (tp_gr s h)"
  "gr_sgc (tp_gr (fold weigh gs s) h) = gr_sgc (tp_gr s h)" "gr_ref (tp_gr (fold weigh gs s) h) = gr_ref (tp_gr s h)"
  "tp_sd (fold weigh gs s) = tp_sd s" "tp_cap (fold weigh gs s) = tp_cap s"
  by (induction gs arbitrary: s) simp_all

lemma weigh_fold_weight:
  "gr_weight (tp_gr (fold weigh gs s) h) = (if h \<in> set gs then card (gr_cpus (tp_gr s h)) else gr_weight (tp_gr s h))"
  by (induction gs arbitrary: s) (auto simp: weigh_def)

lemma weigh_path:
  "gs \<noteq> [] \<Longrightarrow> path (nxt s) g gs first \<Longrightarrow> first \<notin> set (tl gs) \<Longrightarrow>
   weigh_groups first g s = Some (fold weigh gs s)"
proof (induction gs arbitrary: g s)
  case (Cons x gs)
  from Cons.prems have x: "g = x" "path (nxt s) (nxt s x) gs first" by simp_all
  have step: "weigh_groups first g s =
      (if nxt s x = first then Some (weigh x s) else weigh_groups first (nxt s x) (weigh x s))"
    using x(1) by (subst weigh_groups.simps) (simp add: weigh_def)
  show ?case
  proof (cases gs)
    case Nil
    with step x show ?thesis by simp
  next
    case (Cons y ys)
    with Cons.prems(3) x(2) have "nxt s x \<noteq> first" "first \<notin> set (tl gs)" by auto
    with Cons.IH [of "weigh x s" "nxt s x"] step x(2) Cons show ?thesis
      by (simp add: weigh_frame)
  qed
qed simp

lemma weigh_ring:
  assumes "ring (nxt s) gs" "g \<in> set gs"
  obtains hs where "weigh_groups g g s = Some (fold weigh hs s)" "set hs = set gs"
  using ring_walk [OF assms] weigh_path [of _ s g g] by metis

text \<open>C24 The capacities of a domain whose groups form a ring are set up in a walk that ends: every group of the
  ring gets the number of its CPUs as weight, and only on the CPU that balances for the first group is its
  capacity updated and its number of busy CPUs set to its weight.\<close>

theorem init_sched_groups_capacity_weights:
  assumes "td_groups (tp_sd s l d) = Some g" "ring (nxt s) gs" "g \<in> set gs"
    and "\<forall>s'. tp_gr (te_update_capacity T l c s') = tp_gr s'"
  shows "\<exists>s'. init_sched_groups_capacity T (l, d) c s = Inr s' \<and>
     (\<forall>h. gr_weight (tp_gr s' h) = (if h \<in> set gs then card (cpus_of s h) else gr_weight (tp_gr s h))) \<and>
     (let lc = gr_sgc (tp_gr s g)
      in if c = group_balance_cpu T s g
         then cp_nr_busy (tp_cap s' (fst lc) (snd lc)) = card (cpus_of s g)
         else tp_cap s' = tp_cap s)"
proof -
  obtain hs where hs: "weigh_groups g g s = Some (fold weigh hs s)" "set hs = set gs"
    by (rule weigh_ring [OF assms(2,3)])
  let ?s = "fold weigh hs s"
  have bal: "group_balance_cpu T ?s g = group_balance_cpu T s g"
    by (simp add: group_balance_cpu_def group_mask_def)
  have w: "gr_weight (tp_gr ?s h) = (if h \<in> set gs then card (cpus_of s h) else gr_weight (tp_gr s h))" for h
    using hs(2) by (simp add: weigh_fold_weight)
  show ?thesis
  proof (cases "c = group_balance_cpu T s g")
    case False
    then show ?thesis
      using assms(1) hs(1) bal w by (simp add: init_sched_groups_capacity_def)
  next
    case True
    have n: "cp_nr_busy (tp_cap (upd_cap lc (\<lambda>x. x\<lparr>cp_nr_busy := k\<rparr>) t) (fst lc) (snd lc)) = k" for lc k t
      by (simp add: upd_cap_def)
    from True show ?thesis
      using assms(1,3,4) hs(1) bal w by (simp add: init_sched_groups_capacity_def n Let_def)
  qed
qed

theorem init_sched_groups_capacity_weights_witness:
  "\<exists>s'. init_sched_groups_capacity demo_topo_env (0, 0) 0
      (upd_gr (Sg 0 0) (\<lambda>x. x\<lparr>gr_cpus := {0, 1}\<rparr>) (upd_sd 0 0 (\<lambda>d. d\<lparr>td_groups := Some (Sg 0 0)\<rparr>) blank_topo)) = Inr s' \<and>
    gr_weight (tp_gr s' (Sg 0 0)) = 2"
proof -
  let ?s = "upd_gr (Sg 0 0) (\<lambda>x. x\<lparr>gr_cpus := {0, 1}\<rparr>) (upd_sd 0 0 (\<lambda>d. d\<lparr>td_groups := Some (Sg 0 0)\<rparr>) blank_topo)"
  have a: "td_groups (tp_sd ?s 0 0) = Some (Sg 0 0)" by simp
  have b: "ring (nxt ?s) [Sg 0 0]" by (simp add: ring_def blank_topo_def)
  have c: "\<forall>s'. tp_gr (te_update_capacity demo_topo_env 0 0 s') = tp_gr s'" by (simp add: demo_topo_env_def)
  obtain s' where s': "init_sched_groups_capacity demo_topo_env (0, 0) 0 ?s = Inr s'"
    "\<forall>h. gr_weight (tp_gr s' h) = (if h \<in> set [Sg 0 0] then card (cpus_of ?s h) else gr_weight (tp_gr ?s h))"
    using init_sched_groups_capacity_weights [OF a b _ c] by auto
  then have "gr_weight (tp_gr s' (Sg 0 0)) = 2" by simp
  with s'(1) show ?thesis by blast
qed

section \<open>Freeing the storage\<close>

text \<open>The elements a ring has, seen from one of them.\<close>

definition orbit :: "('a \<Rightarrow> 'a) \<Rightarrow> 'a \<Rightarrow> 'a set" where
  "orbit n g = {h. \<exists>k. h = (n ^^ k) g}"

lemma path_in: "path n a xs b \<Longrightarrow> x \<in> set xs \<Longrightarrow> n x \<in> insert b (set xs)"
proof (induction xs arbitrary: a)
  case (Cons y ys)
  then show ?case by (cases ys) auto
qed simp

lemma path_orbit: "path n a xs b \<Longrightarrow> x \<in> set xs \<Longrightarrow> x \<in> orbit n a"
proof (induction xs arbitrary: a)
  case (Cons y ys)
  show ?case
  proof (cases "x = y")
    case True
    with Cons.prems(1) show ?thesis by (auto simp: orbit_def intro: exI [of _ 0])
  next
    case False
    with Cons have "x \<in> orbit n (n y)" by simp
    then obtain k where "x = (n ^^ k) (n y)" by (auto simp: orbit_def)
    then have "x = (n ^^ Suc k) a" using Cons.prems(1) by (simp add: funpow_swap1)
    then show ?thesis unfolding orbit_def by blast
  qed
qed simp

lemma ring_orbit:
  assumes "ring n gs" "g \<in> set gs"
  shows "orbit n g = set gs"
proof -
  obtain hs where hs: "hs \<noteq> []" "hd hs = g" "path n g hs g" "set hs = set gs"
    by (rule ring_walk [OF assms])
  have "g \<in> set hs" using hs(1,2) hd_in_set by metis
  then have "(n ^^ k) g \<in> set hs" for k
    by (induction k) (use path_in [OF hs(3)] in fastforce)+
  then have "orbit n g \<subseteq> set hs" by (auto simp: orbit_def)
  with path_orbit [OF hs(3)] hs(4) show ?thesis by auto
qed

lemma free_ring_path:
  "gs \<noteq> [] \<Longrightarrow> path (nxt (bl_topo b)) g gs first \<Longrightarrow> first \<notin> set (tl gs) \<Longrightarrow> distinct gs \<Longrightarrow>
   Obj_group ` set gs \<subseteq> bl_live b \<Longrightarrow>
   free_ring False first g b = Some (Inr (b\<lparr>bl_live := bl_live b - Obj_group ` set gs\<rparr>))"
proof (induction gs arbitrary: g b)
  case (Cons x gs)
  let ?b = "b\<lparr>bl_live := bl_live b - {Obj_group x}\<rparr>"
  from Cons.prems have x: "g = x" "path (nxt (bl_topo b)) (nxt (bl_topo b) x) gs first" by simp_all
  have step: "free_ring False first g b =
      (if nxt (bl_topo b) x = first then Some (Inr ?b) else free_ring False first (nxt (bl_topo b) x) ?b)"
    using x(1) Cons.prems(5) by (subst free_ring.simps) (simp add: free_group_def kfree_obj_def)
  show ?case
  proof (cases gs)
    case Nil
    with step x show ?thesis by simp
  next
    case (Cons y ys)
    with Cons.prems x(2) have *: "nxt (bl_topo b) x \<noteq> first" "first \<notin> set (tl gs)"
      "Obj_group ` set gs \<subseteq> bl_live ?b" by auto
    have "free_ring False first (nxt (bl_topo b) x) ?b = Some (Inr (?b\<lparr>bl_live := bl_live ?b - Obj_group ` set gs\<rparr>))"
      using Cons.IH [of ?b "nxt (bl_topo b) x"] Cons.prems(4) x(2) * Cons by simp
    with step *(1) show ?thesis by (simp add: Diff_insert2 [symmetric] image_insert)
  qed
qed simp

definition drop_live :: "obj set \<Rightarrow> bld \<Rightarrow> bld" where
  "drop_live X b = b\<lparr>bl_live := bl_live b - X\<rparr>"

lemma drop_live_simps [simp]:
  "bl_topo (drop_live X b) = bl_topo b" "bl_ptr (drop_live X b) = bl_ptr b"
  "bl_live (drop_live X b) = bl_live b - X" "drop_live Y (drop_live X b) = drop_live (X \<union> Y) b"
  "drop_live {} b = b"
  by (simp_all add: drop_live_def Diff_eq Int_assoc)

lemma kfree_obj_live: "x \<in> bl_live b \<Longrightarrow> kfree_obj x b = Inr (drop_live {x} b)"
  by (simp add: kfree_obj_def drop_live_def)

text \<open>A ring of live groups, seen from one of them.\<close>

definition live_ring :: "bld \<Rightarrow> grp \<Rightarrow> bool" where
  "live_ring b g \<longleftrightarrow> (\<exists>gs. ring (nxt (bl_topo b)) gs \<and> g \<in> set gs \<and> Obj_group ` set gs \<subseteq> bl_live b)"

lemma free_sched_groups_ring:
  assumes "live_ring b g"
  shows "free_sched_groups (Some g) False b =
     Inr (drop_live (Obj_group ` orbit (nxt (bl_topo b)) g) b)"
proof -
  obtain gs where gs: "ring (nxt (bl_topo b)) gs" "g \<in> set gs" "Obj_group ` set gs \<subseteq> bl_live b"
    using assms by (auto simp: live_ring_def)
  obtain hs where hs: "hs \<noteq> []" "hd hs = g" "path (nxt (bl_topo b)) g hs g" "g \<notin> set (tl hs)" "distinct hs"
    "set hs = set gs" by (rule ring_walk [OF gs(1,2)])
  from free_ring_path [OF hs(1,3,4,5)] gs(3) hs(6) show ?thesis
    by (simp add: free_sched_groups_def ended_def ring_orbit [OF gs(1,2)] drop_live_def)
qed

text \<open>The groups of its own that a domain has: those of an overlapping domain.\<close>

definition private_groups :: "bld \<Rightarrow> level \<Rightarrow> cpu \<Rightarrow> grp set" where
  "private_groups b l j =
     (if td_flags (tp_sd (bl_topo b) l j) AND SD_OVERLAP = 0 then {}
      else case td_groups (tp_sd (bl_topo b) l j) of None \<Rightarrow> {} | Some g \<Rightarrow> orbit (nxt (bl_topo b)) g)"

text \<open>What the slots of a CPU at a level, and the pointers of a level, hold.\<close>

definition held_cpu :: "bld \<Rightarrow> level \<Rightarrow> cpu \<Rightarrow> obj set" where
  "held_cpu b l j =
     (if Arr_sd l \<in> bl_ptr b \<and> Obj_sd l j \<in> bl_ptr b
      then insert (Obj_sd l j) (Obj_group ` private_groups b l j) else {}) \<union>
     (if Arr_sg l \<in> bl_ptr b \<and> Obj_group (Sg l j) \<in> bl_ptr b then {Obj_group (Sg l j)} else {}) \<union>
     (if Arr_sgc l \<in> bl_ptr b \<and> Obj_sgc l j \<in> bl_ptr b then {Obj_sgc l j} else {})"

definition held_level :: "bld \<Rightarrow> cpu set \<Rightarrow> level \<Rightarrow> obj set" where
  "held_level b m l = (\<Union>j\<in>m. held_cpu b l j) \<union> ({Arr_sd l, Arr_sg l, Arr_sgc l} \<inter> bl_ptr b)"

definition held :: "topo_env \<Rightarrow> cpu set \<Rightarrow> bld \<Rightarrow> obj set" where
  "held T m b = (\<Union>l<te_levels T. held_level b m l)"

text \<open>
  The pointers are sound: what they hold is live, and the private groups of a domain are a
  ring of groups made for it.
\<close>

definition sound_cpu :: "bld \<Rightarrow> level \<Rightarrow> cpu \<Rightarrow> bool" where
  "sound_cpu b l j \<longleftrightarrow> held_cpu b l j \<subseteq> bl_live b \<and>
     (Arr_sd l \<in> bl_ptr b \<and> Obj_sd l j \<in> bl_ptr b \<longrightarrow> private_groups b l j \<subseteq> range (Og l j)) \<and>
     (Arr_sd l \<in> bl_ptr b \<and> Obj_sd l j \<in> bl_ptr b \<and> td_flags (tp_sd (bl_topo b) l j) AND SD_OVERLAP \<noteq> 0 \<longrightarrow>
        (\<forall>g. td_groups (tp_sd (bl_topo b) l j) = Some g \<longrightarrow> live_ring b g))"

lemma private_drop [simp]: "private_groups (drop_live X b) l j = private_groups b l j"
  by (simp only: private_groups_def drop_live_simps)

lemma held_cpu_drop [simp]: "held_cpu (drop_live X b) l j = held_cpu b l j"
  by (simp add: held_cpu_def)

lemma sdt_free_domain:
  assumes "sound_cpu b l j"
  shows "(if Arr_sd l \<in> bl_ptr b
        then bindC
               (if Obj_sd l j \<in> bl_ptr b \<and> td_flags (tp_sd (bl_topo b) l j) AND SD_OVERLAP \<noteq> 0
                then free_sched_groups (td_groups (tp_sd (bl_topo b) l j)) False b else Inr b)
               (kfree_ptr (Obj_sd l j))
        else Inr b) =
     Inr (drop_live (if Arr_sd l \<in> bl_ptr b \<and> Obj_sd l j \<in> bl_ptr b
        then insert (Obj_sd l j) (Obj_group ` private_groups b l j) else {}) b)"
proof (cases "Arr_sd l \<in> bl_ptr b \<and> Obj_sd l j \<in> bl_ptr b")
  case True
  have dom: "Obj_sd l j \<in> bl_live b" using assms True by (simp add: sound_cpu_def held_cpu_def)
  show ?thesis
  proof (cases "td_flags (tp_sd (bl_topo b) l j) AND SD_OVERLAP = 0 \<or> td_groups (tp_sd (bl_topo b) l j) = None")
    case none: True
    then have "private_groups b l j = {}" by (auto simp: private_groups_def)
    with none True dom show ?thesis
      by (auto simp: free_sched_groups_def kfree_ptr_def kfree_obj_live)
  next
    case False
    then obtain g where g: "td_groups (tp_sd (bl_topo b) l j) = Some g" by auto
    have "live_ring b g" using assms True False g by (simp add: sound_cpu_def)
    moreover have "private_groups b l j = orbit (nxt (bl_topo b)) g"
      using False g by (simp add: private_groups_def)
    ultimately show ?thesis
      using True False g dom
      by (simp add: free_sched_groups_ring kfree_ptr_def kfree_obj_live image_iff)
  qed
qed (auto simp: kfree_ptr_def)

lemma sdt_free_cpu_sound:
  assumes "sound_cpu b l j"
  shows "sdt_free_cpu l j b = Inr (drop_live (held_cpu b l j) b)"
proof -
  define A where "A = (if Arr_sd l \<in> bl_ptr b \<and> Obj_sd l j \<in> bl_ptr b
    then insert (Obj_sd l j) (Obj_group ` private_groups b l j) else {})"
  define B where "B = (if Arr_sg l \<in> bl_ptr b \<and> Obj_group (Sg l j) \<in> bl_ptr b then {Obj_group (Sg l j)} else {})"
  define C where "C = (if Arr_sgc l \<in> bl_ptr b \<and> Obj_sgc l j \<in> bl_ptr b then {Obj_sgc l j} else {})"
  have held: "held_cpu b l j = A \<union> B \<union> C" by (simp add: held_cpu_def A_def B_def C_def)
  have live: "A \<subseteq> bl_live b" "B \<subseteq> bl_live b" "C \<subseteq> bl_live b"
    using assms unfolding sound_cpu_def held by auto
  have og: "Obj_group (Sg l j) \<notin> A"
    using assms by (auto simp: A_def sound_cpu_def)
  have sgc: "Obj_sgc l j \<notin> A \<union> B" by (auto simp: A_def B_def)
  have b: "(if Arr_sg l \<in> bl_ptr b then kfree_ptr (Obj_group (Sg l j)) (drop_live A b) else Inr (drop_live A b)) =
      Inr (drop_live B (drop_live A b))"
    using live(2) og by (auto simp: B_def kfree_ptr_def kfree_obj_live)
  have c: "(if Arr_sgc l \<in> bl_ptr b then kfree_ptr (Obj_sgc l j) (drop_live (A \<union> B) b) else Inr (drop_live (A \<union> B) b)) =
      Inr (drop_live C (drop_live (A \<union> B) b))"
    using live(3) sgc by (auto simp: C_def kfree_ptr_def kfree_obj_live)
  show ?thesis
    unfolding sdt_free_cpu_def sdt_free_domain [OF assms] A_def [symmetric] held bindC_simps drop_live_simps
      b [unfolded drop_live_simps] c by simp
qed

lemma held_cpu_apart:
  assumes "sound_cpu b l j" "sound_cpu b l' j'" "(l, j) \<noteq> (l', j')"
  shows "held_cpu b l j \<inter> held_cpu b l' j' = {}"
proof -
  have own: "x = Obj_sd l j \<or> x = Obj_sgc l j \<or> x = Obj_group (Sg l j) \<or> (\<exists>i. x = Obj_group (Og l j i))"
    if "x \<in> held_cpu b l j" "sound_cpu b l j" for x l j
    using that by (auto simp: held_cpu_def sound_cpu_def split: if_splits)
  show ?thesis
    using own [OF _ assms(1)] own [OF _ assms(2)] assms(3) by fastforce
qed

lemma sound_cpu_drop:
  assumes "sound_cpu b l j" "held_cpu b l j \<inter> X = {}"
  shows "sound_cpu (drop_live X b) l j"
proof -
  have "live_ring (drop_live X b) g"
    if g: "Arr_sd l \<in> bl_ptr b" "Obj_sd l j \<in> bl_ptr b" "td_flags (tp_sd (bl_topo b) l j) AND SD_OVERLAP \<noteq> 0"
      "td_groups (tp_sd (bl_topo b) l j) = Some g" for g
  proof -
    have "live_ring b g" using assms(1) g by (simp add: sound_cpu_def)
    then obtain gs where gs: "ring (nxt (bl_topo b)) gs" "g \<in> set gs" "Obj_group ` set gs \<subseteq> bl_live b"
      by (auto simp: live_ring_def)
    have "Obj_group ` set gs \<subseteq> held_cpu b l j"
      using g ring_orbit [OF gs(1,2)] by (auto simp: held_cpu_def private_groups_def)
    then have "Obj_group ` set gs \<subseteq> bl_live b - X" using gs(3) assms(2) by blast
    with gs(1,2) show ?thesis unfolding live_ring_def by auto
  qed
  with assms show ?thesis unfolding sound_cpu_def by auto
qed

lemma sdt_free_cpus:
  "distinct js \<Longrightarrow> (\<And>j. j \<in> set js \<Longrightarrow> sound_cpu b l j) \<Longrightarrow>
   each_c (sdt_free_cpu l) js b = Inr (drop_live (\<Union>j\<in>set js. held_cpu b l j) b)"
proof (induction js arbitrary: b)
  case (Cons j js)
  let ?b = "drop_live (held_cpu b l j) b"
  have "sound_cpu ?b l i" if "i \<in> set js" for i
  proof (rule sound_cpu_drop)
    show "held_cpu b l i \<inter> held_cpu b l j = {}"
      using Cons.prems that by (intro held_cpu_apart) auto
  qed (use Cons.prems(2) that in simp)
  with Cons have "each_c (sdt_free_cpu l) js ?b = Inr (drop_live (\<Union>i\<in>set js. held_cpu ?b l i) ?b)" by simp
  then show ?case
    using Cons.prems(2) by (simp add: sdt_free_cpu_sound)
qed simp

text \<open>A level as a whole, its arrays included.\<close>

definition drop_ptr :: "obj set \<Rightarrow> bld \<Rightarrow> bld" where
  "drop_ptr X b = b\<lparr>bl_ptr := bl_ptr b - X\<rparr>"

lemma drop_ptr_simps [simp]:
  "bl_topo (drop_ptr X b) = bl_topo b" "bl_live (drop_ptr X b) = bl_live b"
  "bl_ptr (drop_ptr X b) = bl_ptr b - X" "drop_ptr Y (drop_ptr X b) = drop_ptr (X \<union> Y) b"
  "drop_live Y (drop_ptr X b) = drop_ptr X (drop_live Y b)"
  by (simp_all add: drop_ptr_def drop_live_def Diff_eq Int_assoc)

abbreviation arrays :: "level \<Rightarrow> obj set" where
  "arrays l \<equiv> {Arr_sd l, Arr_sg l, Arr_sgc l}"

definition sound_level :: "bld \<Rightarrow> cpu set \<Rightarrow> level \<Rightarrow> bool" where
  "sound_level b m l \<longleftrightarrow> (\<forall>j\<in>m. sound_cpu b l j) \<and> arrays l \<inter> bl_ptr b \<subseteq> bl_live b"

lemma free_percpu_sound:
  "(a \<in> bl_ptr b \<Longrightarrow> a \<in> bl_live b) \<Longrightarrow> free_percpu a b = Inr (drop_ptr {a} (drop_live ({a} \<inter> bl_ptr b) b))"
  by (auto simp: free_percpu_def kfree_ptr_def kfree_obj_live drop_ptr_def)

lemma private_drop_ptr [simp]: "private_groups (drop_ptr X b) l j = private_groups b l j"
  by (simp only: private_groups_def drop_ptr_simps)

lemma held_cpu_drop_ptr: "l' \<noteq> l \<Longrightarrow> held_cpu (drop_ptr (arrays l) b) l' j = held_cpu b l' j"
  by (simp add: held_cpu_def)

lemma held_cpu_no_array: "sound_cpu b l j \<Longrightarrow> arrays l' \<inter> held_cpu b l j = {}"
  by (auto simp: held_cpu_def)

lemma sdt_free_level_sound:
  assumes "sound_level b m l" "m \<subseteq> {..<te_ncpus T}"
  shows "bindC (each_c (sdt_free_cpu l) (cpu_list T m) b) (\<lambda>b.
         bindC (free_percpu (Arr_sd l) b) (\<lambda>b. bindC (free_percpu (Arr_sg l) b) (free_percpu (Arr_sgc l)))) =
     Inr (drop_ptr (arrays l) (drop_live (held_level b m l) b))"
proof -
  let ?H = "\<Union>j\<in>m. held_cpu b l j"
  have cpus: "each_c (sdt_free_cpu l) (cpu_list T m) b = Inr (drop_live ?H b)"
    using sdt_free_cpus [of "cpu_list T m" b l] assms set_cpu_list [OF assms(2)]
    by (simp add: sound_level_def cpu_list_def)
  have no: "arrays l \<inter> ?H = {}"
    using assms(1) held_cpu_no_array unfolding sound_level_def by blast
  have live: "a \<in> bl_live b" "a \<notin> ?H" if "a \<in> arrays l" "a \<in> bl_ptr b" for a
    using assms(1) no that by (auto simp: sound_level_def)
  have "drop_live ({Arr_sgc l} \<inter> bl_ptr b) (drop_live ({Arr_sg l} \<inter> bl_ptr b) (drop_live ({Arr_sd l} \<inter> bl_ptr b) (drop_live ?H b))) =
      drop_live (held_level b m l) b"
    unfolding drop_live_simps held_level_def by (rule arg_cong [where f = "\<lambda>X. drop_live X b"]) auto
  moreover
  define b1 where "b1 = drop_ptr {Arr_sd l} (drop_live ({Arr_sd l} \<inter> bl_ptr b) (drop_live ?H b))"
  define b2 where "b2 = drop_ptr {Arr_sg l} (drop_live ({Arr_sg l} \<inter> bl_ptr b) b1)"
  have int: "{a} \<inter> (P - X) = {a} \<inter> P" if "a \<notin> X" for a :: obj and P X using that by auto
  have "free_percpu (Arr_sd l) (drop_live ?H b) = Inr b1"
    using live [of "Arr_sd l"] unfolding b1_def by (subst free_percpu_sound) (simp_all add: int)
  moreover have "free_percpu (Arr_sg l) b1 = Inr b2"
    using live [of "Arr_sg l"] unfolding b2_def b1_def by (subst free_percpu_sound) (simp_all add: int)
  moreover have "free_percpu (Arr_sgc l) b2 = Inr (drop_ptr {Arr_sgc l} (drop_live ({Arr_sgc l} \<inter> bl_ptr b) b2))"
    using live [of "Arr_sgc l"] unfolding b2_def b1_def by (subst free_percpu_sound) (simp_all add: int)
  ultimately show ?thesis
    unfolding cpus bindC_simps
    by (simp add: b1_def b2_def insert_commute)
qed

lemma sound_cpu_drop_ptr:
  assumes "sound_cpu b l' j" "l' \<noteq> l"
  shows "sound_cpu (drop_ptr (arrays l) b) l' j"
  using assms unfolding sound_cpu_def live_ring_def by (simp add: held_cpu_drop_ptr)

lemma held_level_apart:
  assumes "sound_level b m l" "sound_level b m l'" "l \<noteq> l'" "j \<in> m"
  shows "held_cpu b l' j \<inter> held_level b m l = {}"
proof -
  have "held_cpu b l' j \<inter> held_cpu b l i = {}" if "i \<in> m" for i
    using assms that by (intro held_cpu_apart) (auto simp: sound_level_def)
  moreover have "held_cpu b l' j \<inter> arrays l = {}"
    using held_cpu_no_array assms(2,4) unfolding sound_level_def by blast
  ultimately show ?thesis unfolding held_level_def by blast
qed

lemma sound_level_after:
  assumes "sound_level b m l" "sound_level b m l'" "l \<noteq> l'"
  shows "sound_level (drop_ptr (arrays l) (drop_live (held_level b m l) b)) m l'"
    and "held_level (drop_ptr (arrays l) (drop_live (held_level b m l) b)) m l' = held_level b m l'"
proof -
  have "sound_cpu (drop_ptr (arrays l) (drop_live (held_level b m l) b)) l' j" if "j \<in> m" for j
    using assms that held_level_apart [OF assms that]
    by (intro sound_cpu_drop_ptr sound_cpu_drop) (auto simp: sound_level_def)
  moreover have "arrays l' \<inter> held_level b m l = {}"
    using held_cpu_no_array [of b l _ l'] assms(1,3) unfolding held_level_def sound_level_def by fastforce
  ultimately show "sound_level (drop_ptr (arrays l) (drop_live (held_level b m l) b)) m l'"
    using assms(2,3) unfolding sound_level_def by auto
  show "held_level (drop_ptr (arrays l) (drop_live (held_level b m l) b)) m l' = held_level b m l'"
    using assms(3) by (auto simp: held_level_def held_cpu_drop_ptr)
qed

lemma sdt_free_levels:
  "distinct ls \<Longrightarrow> (\<And>l. l \<in> set ls \<Longrightarrow> sound_level b m l) \<Longrightarrow> m \<subseteq> {..<te_ncpus T} \<Longrightarrow>
   each_c (\<lambda>l b. bindC (each_c (sdt_free_cpu l) (cpu_list T m) b) (\<lambda>b.
         bindC (free_percpu (Arr_sd l) b) (\<lambda>b. bindC (free_percpu (Arr_sg l) b) (free_percpu (Arr_sgc l))))) ls b =
     Inr (drop_ptr (\<Union>l\<in>set ls. arrays l) (drop_live (\<Union>l\<in>set ls. held_level b m l) b))"
proof (induction ls arbitrary: b)
  case Nil
  then show ?case by (simp add: drop_ptr_def)
next
  case (Cons l ls)
  let ?b = "drop_ptr (arrays l) (drop_live (held_level b m l) b)"
  have sound: "sound_level b m l" using Cons.prems(2) by simp
  have other: "sound_level ?b m k" "held_level ?b m k = held_level b m k" if "k \<in> set ls" for k
    using sound_level_after [OF sound] Cons.prems(1,2) that by auto
  have "each_c (\<lambda>l b. bindC (each_c (sdt_free_cpu l) (cpu_list T m) b) (\<lambda>b.
         bindC (free_percpu (Arr_sd l) b) (\<lambda>b. bindC (free_percpu (Arr_sg l) b) (free_percpu (Arr_sgc l))))) ls ?b =
     Inr (drop_ptr (\<Union>k\<in>set ls. arrays k) (drop_live (\<Union>k\<in>set ls. held_level ?b m k) ?b))"
    using Cons.IH [of ?b] Cons.prems other by simp
  moreover have "(\<Union>k\<in>set ls. held_level ?b m k) = (\<Union>k\<in>set ls. held_level b m k)"
    using other(2) by simp
  ultimately show ?case
    unfolding each_c.simps sdt_free_level_sound [OF sound Cons.prems(3)] bindC_simps
    by (simp only: drop_ptr_simps drop_live_simps list.set UN_insert)
qed

lemma sdt_free_sound:
  assumes "\<forall>l < te_levels T. sound_level b m l" "m \<subseteq> {..<te_ncpus T}"
  shows "sdt_free T m b = Inr (drop_ptr (\<Union>l<te_levels T. arrays l) (drop_live (held T m b) b))"
  unfolding sdt_free_def held_def
  using sdt_free_levels [of "[0..<te_levels T]" b m T] assms by (simp add: lessThan_atLeast0)

section \<open>A failed allocation leaks nothing\<close>

text \<open>
  While the storage is allocated exactly the objects that are reachable from the pointers are
  live, and no domain is set up.
\<close>

fun pointed :: "obj set \<Rightarrow> obj \<Rightarrow> bool" where
  "pointed P (Obj_sd l j) \<longleftrightarrow> Obj_sd l j \<in> P \<and> Arr_sd l \<in> P"
| "pointed P (Obj_group (Sg l j)) \<longleftrightarrow> Obj_group (Sg l j) \<in> P \<and> Arr_sg l \<in> P"
| "pointed P (Obj_group (Og l c i)) \<longleftrightarrow> False"
| "pointed P (Obj_sgc l j) \<longleftrightarrow> Obj_sgc l j \<in> P \<and> Arr_sgc l \<in> P"
| "pointed P x \<longleftrightarrow> x \<in> P"

fun needed :: "topo_env \<Rightarrow> cpu set \<Rightarrow> obj \<Rightarrow> bool" where
  "needed T m (Obj_sd l j) \<longleftrightarrow> l < te_levels T \<and> j \<in> m"
| "needed T m (Obj_group (Sg l j)) \<longleftrightarrow> l < te_levels T \<and> j \<in> m"
| "needed T m (Obj_group (Og l c i)) \<longleftrightarrow> False"
| "needed T m (Obj_sgc l j) \<longleftrightarrow> l < te_levels T \<and> j \<in> m"
| "needed T m (Arr_sd l) \<longleftrightarrow> l < te_levels T"
| "needed T m (Arr_sg l) \<longleftrightarrow> l < te_levels T"
| "needed T m (Arr_sgc l) \<longleftrightarrow> l < te_levels T"
| "needed T m Arr_doms \<longleftrightarrow> True"
| "needed T m Rootdom \<longleftrightarrow> True"

definition storage :: "topo_env \<Rightarrow> cpu set \<Rightarrow> bld \<Rightarrow> bool" where
  "storage T m b \<longleftrightarrow> (\<forall>x. x \<in> bl_live b \<longleftrightarrow> pointed (bl_ptr b) x) \<and> (\<forall>x. pointed (bl_ptr b) x \<longrightarrow> needed T m x) \<and>
     (\<forall>l j. pointed (bl_ptr b) (Obj_sd l j) \<longrightarrow> td_flags (tp_sd (bl_topo b) l j) AND SD_OVERLAP = 0)"

fun is_array :: "obj \<Rightarrow> bool" where
  "is_array (Arr_sd l) \<longleftrightarrow> True" | "is_array (Arr_sg l) \<longleftrightarrow> True" | "is_array (Arr_sgc l) \<longleftrightarrow> True"
| "is_array _ \<longleftrightarrow> False"

lemma pointed_insert: "\<not> is_array x \<Longrightarrow> y \<noteq> x \<Longrightarrow> pointed (insert x P) y = pointed P y"
  by (cases "(P, y)" rule: pointed.cases) auto

lemma pointed_array:
  "is_array a \<Longrightarrow> a \<notin> P \<Longrightarrow> pointed (insert a {x \<in> P. \<not> slot_of a x}) y \<longleftrightarrow> y = a \<or> pointed P y"
  by (cases "(P, y)" rule: pointed.cases; cases a) auto

lemma try_alloc_storage:
  assumes "storage T m b" "\<not> is_array x" "needed T m x" "pointed (insert x (bl_ptr b)) x"
    and "\<And>l j. td_flags (tp_sd (zero (bl_topo b)) l j) AND SD_OVERLAP = 0 \<or>
      Obj_sd l j \<noteq> x \<and> td_flags (tp_sd (zero (bl_topo b)) l j) = td_flags (tp_sd (bl_topo b) l j)"
  shows "storage T m (snd (try_alloc ok x zero b))"
proof (cases "ok x")
  case True
  have p: "pointed (insert x (bl_ptr b)) y \<longleftrightarrow> y = x \<or> pointed (bl_ptr b) y" for y
    using pointed_insert [OF assms(2), of y] assms(4) by auto
  show ?thesis
    unfolding storage_def
  proof (intro conjI allI impI)
    fix l j
    assume "pointed (bl_ptr (snd (try_alloc ok x zero b))) (Obj_sd l j)"
    then have "Obj_sd l j = x \<or> pointed (bl_ptr b) (Obj_sd l j)"
      using p True by (simp add: try_alloc_def del: pointed.simps)
    then show "td_flags (tp_sd (bl_topo (snd (try_alloc ok x zero b))) l j) AND SD_OVERLAP = 0"
      using assms(1) assms(5) [of l j] True by (auto simp: storage_def try_alloc_def simp del: pointed.simps)
  qed (use assms(1,3) True p in \<open>auto simp: storage_def try_alloc_def simp del: pointed.simps\<close>)
qed (use assms(1) in \<open>simp add: try_alloc_def\<close>)

lemma alloc_percpu_storage:
  assumes "storage T m b" "is_array a \<or> a = Arr_doms" "needed T m a" "a \<notin> bl_ptr b"
  shows "storage T m (snd (alloc_percpu ok a b))"
proof (cases "ok a")
  case True
  have p: "pointed (insert a {x \<in> bl_ptr b. \<not> slot_of a x}) y \<longleftrightarrow> y = a \<or> pointed (bl_ptr b) y" for y
  proof (cases "is_array a")
    case True
    then show ?thesis using assms(4) by (rule pointed_array)
  next
    case False
    then have "a = Arr_doms" using assms(2) by simp
    then show ?thesis by (cases "(bl_ptr b, y)" rule: pointed.cases) auto
  qed
  from assms(1) have "pointed (bl_ptr b) y \<Longrightarrow> needed T m y" for y by (simp add: storage_def)
  with assms(1,2,3) True p show ?thesis
    by (auto simp: storage_def alloc_percpu_def simp del: pointed.simps)
next
  case False
  then have "snd (alloc_percpu ok a b) = b" using assms(4) by (simp add: alloc_percpu_def)
  then show ?thesis using assms(1) by simp
qed

lemma each_ok_keeps:
  "(\<And>x s. x \<in> set xs \<Longrightarrow> I s \<Longrightarrow> I (snd (f x s))) \<Longrightarrow> I s \<Longrightarrow> I (snd (each_ok f xs s))"
proof (induction xs arbitrary: s)
  case (Cons x xs)
  have "I (snd (f x s))" using Cons.prems by simp
  with Cons show ?case by (cases "f x s") (auto simp: and_then_def split: bool.split)
qed simp

lemma each_ok_all: "fst (each_ok f xs s) \<Longrightarrow> x \<in> set xs \<Longrightarrow> \<exists>s. fst (f x s)"
proof (induction xs arbitrary: s)
  case (Cons y ys)
  then show ?case
    by (cases "f y s") (auto simp: and_then_def split: bool.splits intro: exI [of _ s])
qed simp

lemma and_then_keeps:
  "I (snd r) \<Longrightarrow> (\<And>s. r = (True, s) \<Longrightarrow> I (snd (f s))) \<Longrightarrow> I (snd (and_then r f))"
  by (cases r) (auto simp: and_then_def split: bool.split)

definition other_pointers :: "level \<Rightarrow> bld \<Rightarrow> obj set" where
  "other_pointers l b = {x \<in> bl_ptr b. (is_array x \<and> x \<notin> arrays l) \<or> x = Arr_doms \<or> x = Rootdom}"

lemma try_alloc_pointers:
  "\<not> is_array x \<Longrightarrow> x \<noteq> Arr_doms \<Longrightarrow> x \<noteq> Rootdom \<Longrightarrow>
   other_pointers l (snd (try_alloc ok x zero b)) = other_pointers l b"
  "bl_ptr b \<subseteq> bl_ptr (snd (try_alloc ok x zero b))"
  by (auto simp: try_alloc_def other_pointers_def)

lemma alloc_percpu_pointers:
  "a \<in> arrays l \<Longrightarrow> other_pointers l (snd (alloc_percpu ok a b)) = other_pointers l b"
  "a' \<noteq> a \<Longrightarrow> is_array a' \<Longrightarrow> is_array a \<Longrightarrow> a' \<in> bl_ptr (snd (alloc_percpu ok a b)) \<longleftrightarrow> a' \<in> bl_ptr b"
  by (auto simp: alloc_percpu_def other_pointers_def elim: is_array.elims)

lemma alloc_percpu_True: "alloc_percpu ok a b = (True, b') \<Longrightarrow> a \<in> bl_ptr b'"
  by (auto simp: alloc_percpu_def split: if_splits)

lemma sdt_alloc_cpu_storage:
  assumes "storage T m b \<and> arrays l \<subseteq> bl_ptr b \<and> other_pointers l b = P" "l < te_levels T" "j \<in> m"
  shows "storage T m (snd (sdt_alloc_cpu ok l j b)) \<and> arrays l \<subseteq> bl_ptr (snd (sdt_alloc_cpu ok l j b)) \<and>
     other_pointers l (snd (sdt_alloc_cpu ok l j b)) = P"
proof -
  let ?I = "\<lambda>b. storage T m b \<and> arrays l \<subseteq> bl_ptr b \<and> other_pointers l b = P"
  have step: "?I (snd (try_alloc ok x zero b))"
    if "?I b" "x \<in> {Obj_sd l j, Obj_group (Sg l j), Obj_sgc l j}"
      "\<And>k i. td_flags (tp_sd (zero (bl_topo b)) k i) AND SD_OVERLAP = 0 \<or>
      Obj_sd k i \<noteq> x \<and> td_flags (tp_sd (zero (bl_topo b)) k i) = td_flags (tp_sd (bl_topo b) k i)" for x zero b
  proof -
    have "pointed (insert x (bl_ptr b)) x" "\<not> is_array x" "x \<noteq> Arr_doms" "x \<noteq> Rootdom" "needed T m x"
      using that(1,2) assms(2,3) by auto
    with that show ?thesis
      using try_alloc_storage [of T m b x zero ok] try_alloc_pointers(1) [of x l ok zero b] try_alloc_pointers(2) [of b ok x zero] by auto
  qed
  have blank: "td_flags blank_domain = 0" by (simp add: blank_domain_def)
  show ?thesis
    unfolding sdt_alloc_cpu_def
  proof (rule and_then_keeps [where I = ?I])
    show one: "?I (snd (try_alloc ok (Obj_sd l j) (upd_sd l j (\<lambda>_. blank_domain)) b))"
      by (rule step [OF assms(1)]) (auto simp: blank)
    fix b1
    assume "try_alloc ok (Obj_sd l j) (upd_sd l j (\<lambda>_. blank_domain)) b = (True, b1)"
    with one have I1: "?I b1" by simp
    show "?I (snd (and_then (try_alloc ok (Obj_group (Sg l j)) (upd_gr (Sg l j) (\<lambda>_. blank_group (Sg l j) (l, j))) b1)
        (\<lambda>b. try_alloc ok (Obj_sgc l j) (upd_cap (l, j) (\<lambda>_. blank_cap)) b)))"
    proof (rule and_then_keeps [where I = ?I])
      show two: "?I (snd (try_alloc ok (Obj_group (Sg l j)) (upd_gr (Sg l j) (\<lambda>_. blank_group (Sg l j) (l, j))) b1))"
        by (rule step [OF I1]) auto
      fix b2
      assume "try_alloc ok (Obj_group (Sg l j)) (upd_gr (Sg l j) (\<lambda>_. blank_group (Sg l j) (l, j))) b1 = (True, b2)"
      with two have I2: "?I b2" by simp
      show "?I (snd (try_alloc ok (Obj_sgc l j) (upd_cap (l, j) (\<lambda>_. blank_cap)) b2))"
        by (rule step [OF I2]) auto
    qed
  qed
qed

lemma sdt_alloc_level_storage:
  assumes "storage T m b" "other_pointers l b = P" "arrays l \<inter> bl_ptr b = {}" "l < te_levels T"
  shows "storage T m (snd (sdt_alloc_level T ok m l b)) \<and> other_pointers l (snd (sdt_alloc_level T ok m l b)) = P"
proof -
  let ?I = "\<lambda>b. storage T m b \<and> other_pointers l b = P"
  have step: "?I (snd (alloc_percpu ok a b))" if "?I b" "a \<in> arrays l" "a \<notin> bl_ptr b" for a b
  proof -
    have "needed T m a" "is_array a" using that(2) assms(4) by auto
    with that show ?thesis
      using alloc_percpu_storage [of T m b a ok] alloc_percpu_pointers(1) [of a l ok b] by auto
  qed
  show ?thesis
    unfolding sdt_alloc_level_def
  proof (rule and_then_keeps [where I = ?I])
    show one: "?I (snd (alloc_percpu ok (Arr_sd l) b))" by (rule step) (use assms in auto)
    fix b1 assume r1: "alloc_percpu ok (Arr_sd l) b = (True, b1)"
    have I1: "?I b1" "Arr_sd l \<in> bl_ptr b1" "Arr_sg l \<notin> bl_ptr b1" "Arr_sgc l \<notin> bl_ptr b1"
      using one r1 alloc_percpu_True [OF r1] assms(3) alloc_percpu_pointers(2) [of _ "Arr_sd l" ok b] by auto
    show "?I (snd (and_then (alloc_percpu ok (Arr_sg l) b1) (\<lambda>b. and_then (alloc_percpu ok (Arr_sgc l) b)
        (each_ok (sdt_alloc_cpu ok l) (cpu_list T m)))))"
    proof (rule and_then_keeps [where I = ?I])
      show two: "?I (snd (alloc_percpu ok (Arr_sg l) b1))" by (rule step) (use I1 in auto)
      fix b2 assume r2: "alloc_percpu ok (Arr_sg l) b1 = (True, b2)"
      have I2: "?I b2" "Arr_sd l \<in> bl_ptr b2" "Arr_sg l \<in> bl_ptr b2" "Arr_sgc l \<notin> bl_ptr b2"
        using two r2 alloc_percpu_True [OF r2] I1 alloc_percpu_pointers(2) [of _ "Arr_sg l" ok b1] by auto
      show "?I (snd (and_then (alloc_percpu ok (Arr_sgc l) b2) (each_ok (sdt_alloc_cpu ok l) (cpu_list T m))))"
      proof (rule and_then_keeps [where I = ?I])
        show three: "?I (snd (alloc_percpu ok (Arr_sgc l) b2))" by (rule step) (use I2 in auto)
        fix b3 assume r3: "alloc_percpu ok (Arr_sgc l) b2 = (True, b3)"
        have I3: "storage T m b3 \<and> arrays l \<subseteq> bl_ptr b3 \<and> other_pointers l b3 = P"
          using three r3 alloc_percpu_True [OF r3] I2 alloc_percpu_pointers(2) [of _ "Arr_sgc l" ok b2] by auto
        have "storage T m (snd (each_ok (sdt_alloc_cpu ok l) (cpu_list T m) b3)) \<and>
            arrays l \<subseteq> bl_ptr (snd (each_ok (sdt_alloc_cpu ok l) (cpu_list T m) b3)) \<and>
            other_pointers l (snd (each_ok (sdt_alloc_cpu ok l) (cpu_list T m) b3)) = P"
          by (rule each_ok_keeps [where I = "\<lambda>b. storage T m b \<and> arrays l \<subseteq> bl_ptr b \<and> other_pointers l b = P", OF _ I3],
            rule sdt_alloc_cpu_storage) (use assms(4) in \<open>auto simp: cpu_list_def\<close>)
        then show "?I (snd (each_ok (sdt_alloc_cpu ok l) (cpu_list T m) b3))" by simp
      qed
    qed
  qed
qed

lemma other_pointers_arrays:
  assumes "other_pointers l b' = other_pointers l b"
  shows "k \<noteq> l \<Longrightarrow> arrays k \<inter> bl_ptr b' = arrays k \<inter> bl_ptr b"
    and "{Arr_doms, Rootdom} \<inter> bl_ptr b' = {Arr_doms, Rootdom} \<inter> bl_ptr b"
proof -
  have iff: "x \<in> bl_ptr b' \<longleftrightarrow> x \<in> bl_ptr b"
    if "is_array x \<and> x \<notin> arrays l \<or> x = Arr_doms \<or> x = Rootdom" for x
  proof -
    have "x \<in> other_pointers l b' \<longleftrightarrow> x \<in> other_pointers l b" using assms by simp
    with that show ?thesis unfolding other_pointers_def by blast
  qed
  show "arrays k \<inter> bl_ptr b' = arrays k \<inter> bl_ptr b" if "k \<noteq> l"
    using iff [of "Arr_sd k"] iff [of "Arr_sg k"] iff [of "Arr_sgc k"] that by auto
  show "{Arr_doms, Rootdom} \<inter> bl_ptr b' = {Arr_doms, Rootdom} \<inter> bl_ptr b"
    using iff [of Arr_doms] iff [of Rootdom] by auto
qed

lemma sdt_alloc_levels_storage:
  "storage T m b \<Longrightarrow> distinct ls \<Longrightarrow> \<forall>l\<in>set ls. l < te_levels T \<and> arrays l \<inter> bl_ptr b = {} \<Longrightarrow>
   storage T m (snd (each_ok (sdt_alloc_level T ok m) ls b)) \<and>
   {Arr_doms, Rootdom} \<inter> bl_ptr (snd (each_ok (sdt_alloc_level T ok m) ls b)) = {Arr_doms, Rootdom} \<inter> bl_ptr b"
proof (induction ls arbitrary: b)
  case (Cons l ls)
  let ?b = "snd (sdt_alloc_level T ok m l b)"
  have new: "storage T m ?b" "other_pointers l ?b = other_pointers l b"
    using sdt_alloc_level_storage [OF Cons.prems(1) refl, of l ok] Cons.prems(3) by auto
  note same = other_pointers_arrays [OF new(2)]
  have d: "{Arr_doms, Rootdom} \<inter> bl_ptr ?b = {Arr_doms, Rootdom} \<inter> bl_ptr b"
    by (rule same(2))
  have "\<forall>k\<in>set ls. k < te_levels T \<and> arrays k \<inter> bl_ptr ?b = {}"
  proof
    fix k assume k: "k \<in> set ls"
    then have "k \<noteq> l" using Cons.prems(2) by auto
    with same(1) k Cons.prems(3) show "k < te_levels T \<and> arrays k \<inter> bl_ptr ?b = {}" by simp
  qed
  with Cons.IH [of ?b] Cons.prems(2) new(1) d
  show ?case by (cases "sdt_alloc_level T ok m l b") (auto simp: and_then_def split: bool.split)
qed simp

text \<open>Once allocated, the storage is sound, and it is all that is live beside \<open>d->sd\<close> and \<open>d->rd\<close>.\<close>

lemma storage_private:
  "storage T m b \<Longrightarrow> Arr_sd l \<in> bl_ptr b \<Longrightarrow> Obj_sd l j \<in> bl_ptr b \<Longrightarrow> private_groups b l j = {}"
  by (simp add: storage_def private_groups_def)

lemma storage_held_cpu:
  "storage T m b \<Longrightarrow> held_cpu b l j =
     {x. (x = Obj_sd l j \<or> x = Obj_group (Sg l j) \<or> x = Obj_sgc l j) \<and> pointed (bl_ptr b) x}"
  by (auto simp: held_cpu_def storage_private)

lemma storage_sound:
  assumes "storage T m b" "D \<subseteq> {Arr_doms, Rootdom}"
  shows "sound_level (drop_live D b) m l"
proof -
  have live: "x \<in> bl_live b" if "pointed (bl_ptr b) x" for x using assms(1) that by (simp add: storage_def)
  have priv: "private_groups b l j \<subseteq> range (Og l j)" if "Arr_sd l \<in> bl_ptr b" "Obj_sd l j \<in> bl_ptr b" for j
    using storage_private [OF assms(1) that] by simp
  have "held_cpu b l j \<subseteq> bl_live b - D" for j
    using live assms(2) unfolding storage_held_cpu [OF assms(1)] by auto
  moreover have "td_flags (tp_sd (bl_topo b) l j) AND SD_OVERLAP = 0"
    if "Arr_sd l \<in> bl_ptr b" "Obj_sd l j \<in> bl_ptr b" for j
    using assms(1) that by (simp add: storage_def)
  moreover have "arrays l \<inter> bl_ptr b \<subseteq> bl_live b - D"
    using live [of "Arr_sd l"] live [of "Arr_sg l"] live [of "Arr_sgc l"] assms(2) by auto
  ultimately show ?thesis
    unfolding sound_level_def sound_cpu_def using priv by auto
qed

lemma storage_held:
  assumes "storage T m b"
  shows "held T m b = bl_live b - {Arr_doms, Rootdom}"
proof -
  have live: "bl_live b = {x. pointed (bl_ptr b) x}" using assms by (auto simp: storage_def)
  have need: "pointed (bl_ptr b) x \<Longrightarrow> needed T m x" for x using assms by (simp add: storage_def)
  show ?thesis
  proof (intro equalityI subsetI)
    fix x assume "x \<in> held T m b"
    then show "x \<in> bl_live b - {Arr_doms, Rootdom}"
      unfolding live by (auto simp: held_def held_level_def storage_held_cpu [OF assms])
  next
    fix x assume "x \<in> bl_live b - {Arr_doms, Rootdom}"
    then have x: "pointed (bl_ptr b) x" "needed T m x" "x \<noteq> Arr_doms" "x \<noteq> Rootdom"
      using need unfolding live by auto
    have at: "l < te_levels T \<Longrightarrow> y \<in> held_level b m l \<Longrightarrow> y \<in> held T m b" for l y
      by (auto simp: held_def)
    have cpu: "pointed (bl_ptr b) y \<Longrightarrow> j \<in> m \<Longrightarrow> y = Obj_sd l j \<or> y = Obj_group (Sg l j) \<or> y = Obj_sgc l j \<Longrightarrow>
        y \<in> held_level b m l" for l j y
      by (auto simp: held_level_def storage_held_cpu [OF assms])
    have arr: "pointed (bl_ptr b) y \<Longrightarrow> y \<in> arrays l \<Longrightarrow> y \<in> held_level b m l" for l y
      by (auto simp: held_level_def)
    show "x \<in> held T m b"
    proof (cases "\<exists>l. x \<in> arrays l")
      case True
      then obtain l where "x \<in> arrays l" by blast
      then have "l < te_levels T" using x(2) by auto
      with \<open>x \<in> arrays l\<close> show ?thesis using at arr [OF x(1)] by blast
    next
      case False
      then obtain l j where "l < te_levels T" "j \<in> m" "x = Obj_sd l j \<or> x = Obj_group (Sg l j) \<or> x = Obj_sgc l j"
        using x(2,3,4) by (cases "(T, m, x)" rule: needed.cases) auto
      then show ?thesis using at cpu [OF x(1)] by blast
    qed
  qed
qed

lemma sdt_free_storage:
  assumes "storage T m b" "D \<subseteq> {Arr_doms, Rootdom}" "m \<subseteq> {..<te_ncpus T}"
  shows "\<exists>b'. sdt_free T m (drop_live D b) = Inr b' \<and> bl_live b' = ({Arr_doms, Rootdom} - D) \<inter> bl_live b \<and>
     (\<forall>l. arrays l \<inter> bl_ptr b' = {})"
proof -
  have held: "held T m (drop_live D b) = bl_live b - {Arr_doms, Rootdom}"
    using storage_held [OF assms(1)] by (simp add: held_def held_level_def)
  have need: "pointed (bl_ptr b) x \<Longrightarrow> needed T m x" for x using assms(1) by (simp add: storage_def)
  have "x \<notin> bl_ptr b" if "x \<in> arrays l" "\<not> l < te_levels T" for x l
    using need [of x] that by auto
  then have "arrays l \<inter> (bl_ptr b - (\<Union>l<te_levels T. arrays l)) = {}" for l
    by (cases "l < te_levels T") blast+
  with sdt_free_sound [of T "drop_live D b" m] storage_sound [OF assms(1,2)] assms(2,3) held
  show ?thesis by auto
qed

lemma sdt_alloc_storage:
  assumes "bl_live b = {}" "\<forall>l. arrays l \<inter> bl_ptr b = {}" "{Arr_doms, Rootdom} \<inter> bl_ptr b = {}"
  shows "storage T m (snd (sdt_alloc T ok m b))" "{Arr_doms, Rootdom} \<inter> bl_ptr (snd (sdt_alloc T ok m b)) = {}"
proof -
  have none: "\<not> pointed (bl_ptr b) x" for x
    using assms(2,3) by (cases "(bl_ptr b, x)" rule: pointed.cases) auto
  then have "storage T m b"
    using assms(1) by (simp add: storage_def del: pointed.simps)
  with sdt_alloc_levels_storage [of T m b "[0..<te_levels T]" ok] assms(2,3)
  show "storage T m (snd (sdt_alloc T ok m b))" "{Arr_doms, Rootdom} \<inter> bl_ptr (snd (sdt_alloc T ok m b)) = {}"
    by (simp_all add: sdt_alloc_def)
qed

lemma and_then_True: "fst (and_then r f) \<Longrightarrow> fst r \<and> fst (f (snd r))"
  by (cases r) (auto simp: and_then_def split: bool.splits)

lemma sdt_alloc_needs:
  assumes "fst (sdt_alloc T ok m b)" "needed T m x" "m \<subseteq> {..<te_ncpus T}" "x \<notin> {Arr_doms, Rootdom}"
  shows "ok x"
proof -
  have level: "\<exists>b. fst (sdt_alloc_level T ok m l b)" if "l < te_levels T" for l
    using each_ok_all [OF assms(1) [unfolded sdt_alloc_def], of l] that by simp
  have arr: "ok a" if l: "l < te_levels T" and a: "a \<in> arrays l" for l a
  proof -
    have get: "fst (alloc_percpu ok a b) \<Longrightarrow> ok a" for a b by (simp add: alloc_percpu_def split: if_splits)
    obtain b where "fst (sdt_alloc_level T ok m l b)" using level [OF l] ..
    then show ?thesis
      unfolding sdt_alloc_level_def using a by (auto dest!: and_then_True get)
  qed
  have cpu: "ok a" if l: "l < te_levels T" "j \<in> m" and a: "a \<in> {Obj_sd l j, Obj_group (Sg l j), Obj_sgc l j}" for l j a
  proof -
    have get: "fst (try_alloc ok a z b) \<Longrightarrow> ok a" for a z b by (simp add: try_alloc_def split: if_splits)
    obtain b where "fst (sdt_alloc_level T ok m l b)" using level [OF l(1)] ..
    from and_then_True [OF and_then_True [OF and_then_True [OF this [unfolded sdt_alloc_level_def],
          THEN conjunct2], THEN conjunct2], THEN conjunct2]
    obtain b where "fst (sdt_alloc_cpu ok l j b)"
      using each_ok_all [of _ "cpu_list T m" _ j] set_cpu_list [OF assms(3)] l(2) by metis
    then show ?thesis
      unfolding sdt_alloc_cpu_def using a by (auto dest!: and_then_True get)
  qed
  show ?thesis
  proof (cases "\<exists>l. x \<in> arrays l")
    case True
    then obtain l where "x \<in> arrays l" by blast
    then show ?thesis using assms(2) arr by auto
  next
    case False
    then obtain l j where "l < te_levels T" "j \<in> m" "x = Obj_sd l j \<or> x = Obj_group (Sg l j) \<or> x = Obj_sgc l j"
      using assms(2,4) by (cases "(T, m, x)" rule: needed.cases) auto
    then show ?thesis using cpu by blast
  qed
qed



section \<open>Overlapping domains\<close>

lemma ring_insert:
  assumes "ring n gs" "g \<notin> set gs"
  shows "ring ((n(last gs := g))(g := hd gs)) (gs @ [g])"
proof -
  have ne: "gs \<noteq> []" using assms(1) by (simp add: ring_def)
  then obtain ys y where gs: "gs = ys @ [y]" by (metis append_butlast_last_id)
  have "distinct (gs @ [g])" using assms by (simp add: ring_def)
  moreover have "path (n(last gs := g)) (hd gs) gs g"
    using assms(1) unfolding ring_def gs by (auto simp: path_append path_upd)
  ultimately show ?thesis
    using ring_close [of gs g "n(last gs := g)"] ne by simp
qed

lemma build_group_mask_frame [simp]:
  "tp_sd (build_group_mask l is g s) = tp_sd s" "tp_gr (build_group_mask l is g s) = tp_gr s"
proof -
  have "tp_sd (fold (\<lambda>i s. if i \<notin> td_span (tp_sd s l i) then s
      else upd_cap (gr_sgc (tp_gr s g)) (\<lambda>x. x\<lparr>cp_mask := insert i (cp_mask x)\<rparr>) s) is s) = tp_sd s \<and>
    tp_gr (fold (\<lambda>i s. if i \<notin> td_span (tp_sd s l i) then s
      else upd_cap (gr_sgc (tp_gr s g)) (\<lambda>x. x\<lparr>cp_mask := insert i (cp_mask x)\<rparr>) s) is s) = tp_gr s"
    by (induction "is" arbitrary: s) simp_all
  then show "tp_sd (build_group_mask l is g s) = tp_sd s" "tp_gr (build_group_mask l is g s) = tp_gr s"
    by (simp_all add: build_group_mask_def)
qed

text \<open>The CPUs of the group made for CPU \<open>i\<close>.\<close>

definition group_cpus :: "topo \<Rightarrow> level \<Rightarrow> cpu \<Rightarrow> cpu set" where
  "group_cpus s l i = (case td_child (tp_sd s l i) of None \<Rightarrow> {i} | Some (l', c') \<Rightarrow> td_span (tp_sd s l' c'))"

lemma overlap_group_frame:
  "tp_sd (overlap_group T l c span i s) = tp_sd s"
  "tp_gr (overlap_group T l c span i s) =
     (tp_gr s)(Og l c i := (blank_group (Og l c i) (l, i))\<lparr>gr_cpus := group_cpus s l i\<rparr>)"
  by (simp_all add: overlap_group_def Let_def group_cpus_def upd_gr_def upd_cap_def)

text \<open>The state of the loop over the span.\<close>

definition overlap_inv :: "level \<Rightarrow> cpu \<Rightarrow> bld \<Rightarrow> cpu set \<Rightarrow> grp list \<Rightarrow> grp option \<Rightarrow> bld \<Rightarrow> bool" where
  "overlap_inv l c b0 covered gs groups b \<longleftrightarrow>
     tp_sd (bl_topo b) = tp_sd (bl_topo b0) \<and> bl_ptr b = bl_ptr b0 \<and>
     bl_live b = bl_live b0 \<union> Obj_group ` set gs \<and>
     (\<exists>js. gs = map (Og l c) js \<and> distinct js \<and>
        (\<forall>i\<in>set js. gr_cpus (tp_gr (bl_topo b) (Og l c i)) = group_cpus (bl_topo b0) l i) \<and>
        covered = (\<Union>i\<in>set js. group_cpus (bl_topo b0) l i) \<and>
        (\<forall>i. Obj_group (Og l c i) \<in> bl_live b \<longrightarrow> i \<in> set js)) \<and>
     (gs \<noteq> [] \<longrightarrow> ring (nxt (bl_topo b)) gs) \<and>
     (\<forall>g. groups = Some g \<longrightarrow> g \<in> set gs) \<and> (c \<in> covered \<longrightarrow> groups \<noteq> None)"

lemma overlap_add_nxt:
  "nxt (upd_gr g (\<lambda>x. x\<lparr>gr_next := hd (gs @ [g])\<rparr>) (link_group g gs (overlap_group T l c span i s))) =
    (if gs = [] then (nxt s)(g := g) else ((nxt s)(last gs := g))(g := hd gs))"
  if "g = Og l c i" "g \<notin> set gs"
  using that last_in_set [of gs]
  by (auto simp: fun_eq_iff link_group_def overlap_group_frame blank_group_def split: list.split)

lemma overlap_inv_step:
  fixes T :: topo_env and span :: "cpu set"
  assumes inv: "overlap_inv l c b0 covered gs groups b" and i: "i \<notin> covered" "i \<in> group_cpus (bl_topo b0) l i"
  defines "g \<equiv> Og l c i"
  defines "b1 \<equiv> on_topo (overlap_group T l c span i) (b\<lparr>bl_live := insert (Obj_group g) (bl_live b)\<rparr>)"
  assumes groups': "groups' = (if groups = None \<and> c \<in> gr_cpus (tp_gr (bl_topo b1) g) \<or> P then Some g else groups)"
  shows "overlap_inv l c b0 (covered \<union> gr_cpus (tp_gr (bl_topo b1) g)) (gs @ [g]) groups'
      (on_topo (upd_gr g (\<lambda>x. x\<lparr>gr_next := hd (gs @ [g])\<rparr>)) (on_topo (link_group g gs) b1))"
proof -
  let ?b2 = "on_topo (upd_gr g (\<lambda>x. x\<lparr>gr_next := hd (gs @ [g])\<rparr>)) (on_topo (link_group g gs) b1)"
  obtain js where js: "gs = map (Og l c) js" "distinct js"
    "\<forall>j\<in>set js. gr_cpus (tp_gr (bl_topo b) (Og l c j)) = group_cpus (bl_topo b0) l j"
    "covered = (\<Union>j\<in>set js. group_cpus (bl_topo b0) l j)"
    "\<forall>j. Obj_group (Og l c j) \<in> bl_live b \<longrightarrow> j \<in> set js"
    using inv unfolding overlap_inv_def by (elim conjE exE) (rule that, assumption+)
  have same: "tp_sd (bl_topo b) = tp_sd (bl_topo b0)" "bl_ptr b = bl_ptr b0"
    "bl_live b = bl_live b0 \<union> Obj_group ` set gs" "gs \<noteq> [] \<longrightarrow> ring (nxt (bl_topo b)) gs"
    "\<forall>g. groups = Some g \<longrightarrow> g \<in> set gs" "c \<in> covered \<longrightarrow> groups \<noteq> None"
    by (insert inv, unfold overlap_inv_def, elim conjE exE, assumption)+
  have new: "i \<notin> set js" using i js(4) by auto
  then have g_new: "g \<notin> set gs" using js(1) by (auto simp: g_def)
  have own: "group_cpus (bl_topo b) l i = group_cpus (bl_topo b0) l i" by (simp only: group_cpus_def same(1))
  then have cpus: "gr_cpus (tp_gr (bl_topo b1) g) = group_cpus (bl_topo b0) l i"
    by (simp add: b1_def g_def overlap_group_frame)
  have n: "nxt (bl_topo ?b2) = (if gs = [] then (nxt (bl_topo b))(g := g) else ((nxt (bl_topo b))(last gs := g))(g := hd gs))"
    using overlap_add_nxt [OF g_def [THEN meta_eq_to_obj_eq] g_new, of T span "bl_topo b"] by (simp add: b1_def)
  have cpus2: "gr_cpus (tp_gr (bl_topo ?b2) h) = (if h = g then group_cpus (bl_topo b0) l i else gr_cpus (tp_gr (bl_topo b) h))" for h
    using own by (auto simp: b1_def g_def link_group_def overlap_group_frame split: list.split)
  show ?thesis
    unfolding overlap_inv_def
  proof (intro conjI exI [of _ "js @ [i]"])
    show "tp_sd (bl_topo ?b2) = tp_sd (bl_topo b0)"
      using same(1) by (simp add: b1_def link_group_def overlap_group_frame split: list.split)
    show "bl_ptr ?b2 = bl_ptr b0" using same(2) by (simp add: b1_def)
    show "bl_live ?b2 = bl_live b0 \<union> Obj_group ` set (gs @ [g])" using same(3) by (simp add: b1_def)
    show "gs @ [g] = map (Og l c) (js @ [i])" using js(1) by (simp add: g_def)
    show "distinct (js @ [i])" using js(2) new by simp
    show "\<forall>j\<in>set (js @ [i]). gr_cpus (tp_gr (bl_topo ?b2) (Og l c j)) = group_cpus (bl_topo b0) l j"
      unfolding cpus2 using js(3) new by (auto simp: g_def)
    show "covered \<union> gr_cpus (tp_gr (bl_topo b1) g) = (\<Union>j\<in>set (js @ [i]). group_cpus (bl_topo b0) l j)"
      using js(4) cpus by auto
    show "\<forall>j. Obj_group (Og l c j) \<in> bl_live ?b2 \<longrightarrow> j \<in> set (js @ [i])"
      using js(5) by (auto simp: b1_def g_def)
    show "gs @ [g] \<noteq> [] \<longrightarrow> ring (nxt (bl_topo ?b2)) (gs @ [g])"
      using same(4) ring_insert [of _ gs g] g_new unfolding n by (cases "gs = []") (simp_all add: ring_def)
    show "\<forall>h. groups' = Some h \<longrightarrow> h \<in> set (gs @ [g])"
      using same(5) groups' by (auto split: if_splits)
    show "c \<in> covered \<union> gr_cpus (tp_gr (bl_topo b1) g) \<longrightarrow> groups' \<noteq> None"
      using same(6) groups' by (auto split: if_splits)
  qed
qed

lemma overlap_fail:
  assumes "overlap_inv l c b0 covered gs groups b" "\<forall>i. Obj_group (Og l c i) \<notin> bl_live b0"
  shows "\<exists>b'. free_sched_groups (head_opt gs) False b = Inr b' \<and> bl_live b' = bl_live b0 \<and> bl_ptr b' = bl_ptr b0 \<and>
     tp_sd (bl_topo b') = tp_sd (bl_topo b0)"
proof -
  have same: "tp_sd (bl_topo b) = tp_sd (bl_topo b0)" "bl_ptr b = bl_ptr b0"
    "bl_live b = bl_live b0 \<union> Obj_group ` set gs" "gs \<noteq> [] \<longrightarrow> ring (nxt (bl_topo b)) gs"
    by (insert assms(1), unfold overlap_inv_def, elim conjE exE, assumption)+
  obtain js where "gs = map (Og l c) js"
    using assms(1) unfolding overlap_inv_def by (elim conjE exE) (rule that, assumption+)
  then have out: "bl_live b0 \<inter> Obj_group ` set gs = {}" using assms(2) by auto
  show ?thesis
  proof (cases gs)
    case Nil
    then show ?thesis using same by (simp add: free_sched_groups_def head_opt_def)
  next
    case (Cons g hs)
    then have ring: "ring (nxt (bl_topo b)) gs" "g \<in> set gs" using same(4) by auto
    then have "live_ring b g" unfolding live_ring_def using same(3) by blast
    from free_sched_groups_ring [OF this] show ?thesis
      unfolding ring_orbit [OF ring] using same(1,2,3) out Cons by (simp add: head_opt_def Un_Diff) blast
  qed
qed

definition overlap_end :: "level \<Rightarrow> cpu \<Rightarrow> bld \<Rightarrow> cpu set \<Rightarrow> cpu set \<Rightarrow> bool \<Rightarrow> bld \<Rightarrow> bool" where
  "overlap_end l c b0 covered X r b' \<longleftrightarrow>
     (if r then \<exists>covered' gs' groups' b2. overlap_inv l c b0 covered' gs' groups' b2 \<and>
          b' = on_topo (upd_sd l c (\<lambda>d. d\<lparr>td_groups := groups'\<rparr>)) b2 \<and> covered \<subseteq> covered' \<and>
          (\<forall>i\<in>X. i \<in> td_span (tp_sd (bl_topo b0) l i) \<longrightarrow> i \<in> covered')
      else bl_live b' = bl_live b0 \<and> bl_ptr b' = bl_ptr b0 \<and> tp_sd (bl_topo b') = tp_sd (bl_topo b0))"

lemma overlap_end_insert:
  assumes "overlap_end l c b0 cov X r b'" "covered \<subseteq> cov" "i \<in> td_span (tp_sd (bl_topo b0) l i) \<Longrightarrow> i \<in> cov"
  shows "overlap_end l c b0 covered (insert i X) r b'"
proof (cases r)
  case True
  then obtain covered' gs' groups' b2 where e: "overlap_inv l c b0 covered' gs' groups' b2"
    "b' = on_topo (upd_sd l c (\<lambda>d. d\<lparr>td_groups := groups'\<rparr>)) b2" "cov \<subseteq> covered'"
    "\<forall>i\<in>X. i \<in> td_span (tp_sd (bl_topo b0) l i) \<longrightarrow> i \<in> covered'"
    using assms(1) unfolding overlap_end_def by auto
  have "covered \<subseteq> covered'" "\<forall>i\<in>insert i X. i \<in> td_span (tp_sd (bl_topo b0) l i) \<longrightarrow> i \<in> covered'"
    using e(3,4) assms(2,3) by auto
  with e(1,2) True show ?thesis unfolding overlap_end_def by auto
qed (use assms(1) in \<open>simp add: overlap_end_def\<close>)

lemma overlap_loop_result:
  "overlap_inv l c b0 covered gs groups b \<Longrightarrow> \<forall>i. Obj_group (Og l c i) \<notin> bl_live b0 \<Longrightarrow>
   \<forall>i\<in>set xs. i \<in> group_cpus (bl_topo b0) l i \<Longrightarrow>
   \<exists>r b'. overlap_loop T ok l c span xs covered gs groups b = Inr (r, b') \<and>
     overlap_end l c b0 covered (set xs) r b' \<and> ((\<forall>i\<in>set xs. ok (Obj_group (Og l c i))) \<longrightarrow> r)"
proof (induction xs arbitrary: covered gs groups b)
  case Nil
  then show ?case unfolding overlap_loop.simps overlap_end_def by (intro exI [of _ True]) auto
next
  case (Cons i xs)
  have sd: "tp_sd (bl_topo b) = tp_sd (bl_topo b0)" using Cons.prems(1) by (simp add: overlap_inv_def)
  show ?case
  proof (cases "i \<in> covered \<or> i \<notin> td_span (tp_sd (bl_topo b0) l i)")
    case True
    then have step: "overlap_loop T ok l c span (i # xs) covered gs groups b = overlap_loop T ok l c span xs covered gs groups b"
      by (simp add: sd)
    obtain r b' where "overlap_loop T ok l c span xs covered gs groups b = Inr (r, b')"
      "overlap_end l c b0 covered (set xs) r b'" "(\<forall>i\<in>set xs. ok (Obj_group (Og l c i))) \<longrightarrow> r"
      using Cons.IH [OF Cons.prems(1,2)] Cons.prems(3) by auto
    moreover from this(2) have "overlap_end l c b0 covered (set (i # xs)) r b'"
      unfolding list.set by (rule overlap_end_insert) (use True in auto)
    ultimately show ?thesis unfolding step by auto
  next
    case False
    let ?g = "Og l c i"
    show ?thesis
    proof (cases "ok (Obj_group ?g)")
      case no: False
      from overlap_fail [OF Cons.prems(1,2)] obtain b' where
        "free_sched_groups (head_opt gs) False b = Inr b'" "bl_live b' = bl_live b0" "bl_ptr b' = bl_ptr b0"
        "tp_sd (bl_topo b') = tp_sd (bl_topo b0)" by blast
      with no False show ?thesis
        by (intro exI [of _ False] exI [of _ b']) (simp add: sd overlap_end_def)
    next
      case yes: True
      define b1 where "b1 = on_topo (overlap_group T l c span i) (b\<lparr>bl_live := insert (Obj_group ?g) (bl_live b)\<rparr>)"
      define cov where "cov = covered \<union> gr_cpus (tp_gr (bl_topo b1) ?g)"
      define grps where "grps = (if groups = None \<and> c \<in> gr_cpus (tp_gr (bl_topo b1) ?g) \<or> group_balance_cpu T (bl_topo b1) ?g = c
        then Some ?g else groups)"
      define b2 where "b2 = on_topo (upd_gr ?g (\<lambda>x. x\<lparr>gr_next := hd (gs @ [?g])\<rparr>)) (on_topo (link_group ?g gs) b1)"
      have step: "overlap_loop T ok l c span (i # xs) covered gs groups b =
          overlap_loop T ok l c span xs cov (gs @ [?g]) grps b2"
        using False yes unfolding b1_def cov_def grps_def b2_def overlap_loop.simps Let_def by (simp add: sd)
      have own: "i \<in> group_cpus (bl_topo b0) l i" using Cons.prems(3) by simp
      have inv: "overlap_inv l c b0 cov (gs @ [?g]) grps b2"
        unfolding cov_def b2_def b1_def
        by (rule overlap_inv_step [OF Cons.prems(1) _ own]) (use False in \<open>auto simp: grps_def b1_def\<close>)
      have "group_cpus (bl_topo b) l i = group_cpus (bl_topo b0) l i" by (simp only: group_cpus_def sd)
      then have i: "i \<in> cov" using own by (simp add: cov_def b1_def overlap_group_frame)
      obtain r b' where IH: "overlap_loop T ok l c span xs cov (gs @ [?g]) grps b2 = Inr (r, b')"
        "overlap_end l c b0 cov (set xs) r b'" "(\<forall>i\<in>set xs. ok (Obj_group (Og l c i))) \<longrightarrow> r"
        using Cons.IH [OF inv Cons.prems(2)] Cons.prems(3) by auto
      from IH(2) have "overlap_end l c b0 covered (set (i # xs)) r b'"
        unfolding list.set by (rule overlap_end_insert) (use i in \<open>auto simp: cov_def\<close>)
      with IH(1,3) show ?thesis unfolding step by auto
    qed
  qed
qed



section \<open>Groups that domains share\<close>

text \<open>The domains of the CPUs \<open>cs\<close> at a level are all that use their groups; CPU \<open>c\<close> uses the group of \<open>f c\<close>.\<close>

definition shared_ok :: "level \<Rightarrow> (cpu \<Rightarrow> cpu) \<Rightarrow> cpu list \<Rightarrow> bld \<Rightarrow> bool" where
  "shared_ok l f cs b \<longleftrightarrow> distinct cs \<and>
     (\<forall>c\<in>set cs. td_flags (tp_sd (bl_topo b) l c) AND SD_OVERLAP = 0 \<and>
        td_groups (tp_sd (bl_topo b) l c) = Some (Sg l (f c)) \<and> Obj_sd l c \<in> bl_live b) \<and>
     (\<forall>g\<in>f ` set cs. gr_ref (tp_gr (bl_topo b) (Sg l g)) = int (length (filter (\<lambda>c. f c = g) cs)) \<and>
        gr_sgc (tp_gr (bl_topo b) (Sg l g)) = (l, g) \<and> Obj_group (Sg l g) \<in> bl_live b \<and> Obj_sgc l g \<in> bl_live b)"

definition last_user :: "level \<Rightarrow> (cpu \<Rightarrow> cpu) \<Rightarrow> cpu \<Rightarrow> cpu list \<Rightarrow> obj set" where
  "last_user l f c cs = (if f c \<in> f ` set cs then {} else {Obj_group (Sg l (f c)), Obj_sgc l (f c)})"

lemma filter_zero: "length (filter (\<lambda>c. f c = g) cs) = 0 \<longleftrightarrow> g \<notin> f ` set cs"
  by (auto simp: filter_empty_conv)

lemma free_sched_domain_step:
  assumes "shared_ok l f (c # cs) b"
  shows "\<exists>b'. free_sched_domain (l, c) b = Inr b' \<and> shared_ok l f cs b' \<and>
     bl_live b' = bl_live b - insert (Obj_sd l c) (last_user l f c cs)"
proof -
  let ?g = "Sg l (f c)"
  let ?b = "on_topo (upd_gr ?g (\<lambda>x. x\<lparr>gr_ref := gr_ref x - 1\<rparr>)) b"
  have c: "td_flags (tp_sd (bl_topo b) l c) AND SD_OVERLAP = 0" "td_groups (tp_sd (bl_topo b) l c) = Some ?g"
    "Obj_sd l c \<in> bl_live b" "c \<notin> set cs" "distinct cs"
    using assms by (auto simp: shared_ok_def)
  have g: "gr_ref (tp_gr (bl_topo b) ?g) = int (length (filter (\<lambda>i. f i = f c) cs)) + 1"
    "gr_sgc (tp_gr (bl_topo b) ?g) = (l, f c)" "Obj_group ?g \<in> bl_live b" "Obj_sgc l (f c) \<in> bl_live b"
    using assms by (auto simp: shared_ok_def)
  have zero: "gr_ref (tp_gr (bl_topo ?b) ?g) = 0 \<longleftrightarrow> f c \<notin> f ` set cs"
    using g(1) filter_zero [of f "f c" cs] by simp
  have run: "free_sched_domain (l, c) b = Inr (drop_live (insert (Obj_sd l c) (last_user l f c cs)) ?b)"
  proof (cases "f c \<in> f ` set cs")
    case True
    with c g zero show ?thesis
      by (simp add: free_sched_domain_def last_user_def kfree_obj_live)
  next
    case False
    with c g zero show ?thesis
      by (simp add: free_sched_domain_def last_user_def kfree_obj_live insert_commute)
  qed
  have "shared_ok l f cs (drop_live (insert (Obj_sd l c) (last_user l f c cs)) ?b)"
    using assms c(4,5) unfolding shared_ok_def last_user_def by (auto, metis image_eqI)
  with run show ?thesis by auto
qed

lemma free_domains_shared:
  "shared_ok l f (xs @ ys) b \<Longrightarrow>
   \<exists>b'. each_c free_sched_domain (map (Pair l) xs) b = Inr b' \<and> shared_ok l f ys b' \<and>
     bl_live b' = bl_live b - (Obj_sd l ` set xs \<union> (\<Union>g\<in>f ` set xs - f ` set ys. {Obj_group (Sg l g), Obj_sgc l g}))"
proof (induction xs arbitrary: b)
  case (Cons x xs)
  obtain b1 where b1: "free_sched_domain (l, x) b = Inr b1" "shared_ok l f (xs @ ys) b1"
    "bl_live b1 = bl_live b - insert (Obj_sd l x) (last_user l f x (xs @ ys))"
    using free_sched_domain_step [of l f x "xs @ ys" b] Cons.prems by auto
  obtain b2 where b2: "each_c free_sched_domain (map (Pair l) xs) b1 = Inr b2" "shared_ok l f ys b2"
    "bl_live b2 = bl_live b1 - (Obj_sd l ` set xs \<union> (\<Union>g\<in>f ` set xs - f ` set ys. {Obj_group (Sg l g), Obj_sgc l g}))"
    using Cons.IH [OF b1(2)] by blast
  have "last_user l f x (xs @ ys) \<union> (\<Union>g\<in>f ` set xs - f ` set ys. {Obj_group (Sg l g), Obj_sgc l g}) =
      (\<Union>g\<in>f ` set (x # xs) - f ` set ys. {Obj_group (Sg l g), Obj_sgc l g})"
    by (auto simp: last_user_def)
  then have "bl_live b2 = bl_live b - (Obj_sd l ` set (x # xs) \<union>
      (\<Union>g\<in>f ` set (x # xs) - f ` set ys. {Obj_group (Sg l g), Obj_sgc l g}))"
    unfolding b2(3) b1(3) by auto
  with b1(1) b2(1,2) show ?case by auto
qed simp

text \<open>C23 Domains that share groups are freed one after the other without a crash: every domain goes at once,
  but a group and its capacity go exactly with the last domain that uses the group, so what a
  remaining domain points to is never freed and nothing is freed twice.\<close>

theorem free_sched_domain_shared:
  assumes "shared_ok l f (xs @ ys) b"
  shows "\<exists>b'. each_c free_sched_domain (map (Pair l) xs) b = Inr b' \<and>
     (\<forall>c. Obj_sd l c \<in> bl_live b' \<longleftrightarrow> Obj_sd l c \<in> bl_live b \<and> c \<notin> set xs) \<and>
     (\<forall>g\<in>f ` set (xs @ ys). (Obj_group (Sg l g) \<in> bl_live b' \<longleftrightarrow> g \<in> f ` set ys) \<and>
        (Obj_sgc l g \<in> bl_live b' \<longleftrightarrow> g \<in> f ` set ys))"
proof -
  obtain b' where b': "each_c free_sched_domain (map (Pair l) xs) b = Inr b'" "shared_ok l f ys b'"
    "bl_live b' = bl_live b - (Obj_sd l ` set xs \<union> (\<Union>g\<in>f ` set xs - f ` set ys. {Obj_group (Sg l g), Obj_sgc l g}))"
    using free_domains_shared [OF assms] by blast
  have "\<forall>g\<in>f ` set ys. Obj_group (Sg l g) \<in> bl_live b' \<and> Obj_sgc l g \<in> bl_live b'"
    using b'(2) by (simp add: shared_ok_def)
  then have "\<forall>g\<in>f ` set (xs @ ys). (Obj_group (Sg l g) \<in> bl_live b' \<longleftrightarrow> g \<in> f ` set ys) \<and>
        (Obj_sgc l g \<in> bl_live b' \<longleftrightarrow> g \<in> f ` set ys)"
    using b'(3) by auto
  moreover have "\<forall>c. Obj_sd l c \<in> bl_live b' \<longleftrightarrow> Obj_sd l c \<in> bl_live b \<and> c \<notin> set xs"
    using b'(3) by auto
  ultimately show ?thesis using b'(1) by blast
qed

text \<open>Two CPUs that share a group: the first domain goes without it, the second takes it along.\<close>

definition demo_shared :: bld where
  "demo_shared = \<lparr>bl_topo = blank_topo\<lparr>tp_sd := (\<lambda>_ _. blank_domain\<lparr>td_groups := Some (Sg 0 0)\<rparr>),
       tp_gr := (\<lambda>g. \<lparr>gr_cpus = {0, 1}, gr_next = g, gr_ref = 2, gr_weight = 2, gr_sgc = (0, 0)\<rparr>)\<rparr>,
     bl_live = {Obj_sd 0 0, Obj_sd 0 1, Obj_group (Sg 0 0), Obj_sgc 0 0}, bl_ptr = {}\<rparr>"

theorem free_sched_domain_shared_witness:
  "\<exists>b1 b2. free_sched_domain (0, 0) demo_shared = Inr b1 \<and> Obj_group (Sg 0 0) \<in> bl_live b1 \<and>
     each_c free_sched_domain [(0, 0), (0, 1)] demo_shared = Inr b2 \<and> Obj_group (Sg 0 0) \<notin> bl_live b2"
proof -
  have ok: "shared_ok 0 (\<lambda>_. 0) [0, 1] demo_shared"
    by (simp add: shared_ok_def demo_shared_def blank_domain_def)
  have "shared_ok 0 (\<lambda>_. 0) ([0] @ [1]) demo_shared" "shared_ok 0 (\<lambda>_. 0) ([0, 1] @ []) demo_shared"
    using ok by simp_all
  from free_sched_domain_shared [OF this(1)] free_sched_domain_shared [OF this(2)]
  show ?thesis by (auto simp: bindC_Inr_iff)
qed

section \<open>The array of partitions\<close>

text \<open>
  \<open>alloc_sched_domains\<close>: the array (\<open>None\<close>) and a mask for each of its entries; the result is
  success and what is allocated on return.
\<close>

definition free_sched_domains :: "nat \<Rightarrow> nat option set \<Rightarrow> nat option set" where
  "free_sched_domains n live = live - Some ` set [0..<n] - {None}"

primrec alloc_masks :: "(nat option \<Rightarrow> bool) \<Rightarrow> nat list \<Rightarrow> nat option set \<Rightarrow> bool \<times> nat option set" where
  "alloc_masks ok [] live = (True, live)"
| "alloc_masks ok (i # is) live =
     (if \<not> ok (Some i) then (False, free_sched_domains i live) else alloc_masks ok is (insert (Some i) live))"

definition alloc_sched_domains :: "(nat option \<Rightarrow> bool) \<Rightarrow> nat \<Rightarrow> bool \<times> nat option set" where
  "alloc_sched_domains ok n = (if \<not> ok None then (False, {}) else alloc_masks ok [0..<n] {None})"

lemma alloc_masks_result:
  "k \<le> n \<Longrightarrow> alloc_masks ok [k..<n] (insert None (Some ` {..<k})) =
     (if \<forall>i\<in>{k..<n}. ok (Some i) then (True, insert None (Some ` {..<n})) else (False, {}))"
proof (induction "n - k" arbitrary: k)
  case 0
  then show ?case by simp
next
  case (Suc d)
  then have k: "[k..<n] = k # [Suc k..<n]" "{k..<n} = insert k {Suc k..<n}" by (auto simp: upt_rec)
  have "insert (Some k) (insert None (Some ` {..<k})) = insert None (Some ` {..<Suc k})" by auto
  moreover have "alloc_masks ok [Suc k..<n] (insert None (Some ` {..<Suc k})) =
     (if \<forall>i\<in>{Suc k..<n}. ok (Some i) then (True, insert None (Some ` {..<n})) else (False, {}))"
    using Suc by (intro Suc.hyps(1)) auto
  moreover have "free_sched_domains k (insert None (Some ` {..<k})) = {}"
    by (auto simp: free_sched_domains_def lessThan_atLeast0)
  ultimately show ?case unfolding k alloc_masks.simps by simp
qed

lemma alloc_sched_domains_all_or_nothing:
  "alloc_sched_domains ok n =
     (if ok None \<and> (\<forall>i<n. ok (Some i)) then (True, insert None (Some ` {..<n})) else (False, {}))"
proof -
  have "(\<forall>i\<in>{0..<n}. ok (Some i)) \<longleftrightarrow> (\<forall>i<n. ok (Some i))" by auto
  then show ?thesis using alloc_masks_result [of 0 n ok] by (simp add: alloc_sched_domains_def)
qed

text \<open>
  \<open>init_sched_domains\<close>: one partition with all CPUs that are not isolated, in the fallback mask if
  there is no memory for an array.
\<close>

definition init_sched_domains ::
  "topo_env \<Rightarrow> (obj \<Rightarrow> bool) \<Rightarrow> (nat option \<Rightarrow> bool) \<Rightarrow> 'x env \<Rightarrow> nat \<Rightarrow> 'x class_hook \<Rightarrow> 'x class_hook \<Rightarrow> nat \<Rightarrow>
     cpu set \<Rightarrow> cpu set \<Rightarrow> bld \<Rightarrow> (cpu \<Rightarrow> sched_domain list \<times> top_cache) \<Rightarrow> 'x kstate \<Rightarrow>
     bool \<times> partition \<times> (crash + errno \<times> bld \<times> (cpu \<Rightarrow> sched_domain list \<times> top_cache) \<times> 'x kstate)"
where
  "init_sched_domains T ok mask_ok E nodes up down rd cpu_map isolated b doms s =
     (let fallback = \<not> fst (alloc_sched_domains mask_ok 1);
          m = cpu_map - isolated
      in (fallback, \<lparr>pt_doms = [m], pt_attrs = None\<rparr>,
          build_sched_domains T ok E nodes up down rd m None b doms s))"

end
