(* ===== verification/Sched_Features.thy ===== *)
theory Sched_Features
  imports Kernel_Strings
begin

unbundle bit_operations_syntax

text \<open>
  The scheduler's feature bits and the debug file that shows and sets them (\<^verbatim>\<open>core.c\<close>). The names
  come from a header of the kernel: they are a parameter, a list in the order of the bits. Every
  feature also has a static key, a counter that patches the code while it is above 0.
\<close>

section \<open>The file\<close>

record feat_state =
  ft_bits :: u32                 \<comment> \<open>\<open>sysctl_sched_features\<close>\<close>
  ft_keys :: "nat \<Rightarrow> int"        \<comment> \<open>the enable counts of \<open>sched_feat_keys\<close>\<close>

abbreviation newline :: char where "newline \<equiv> CHR 0x0A"

definition feat_word :: "string list \<Rightarrow> feat_state \<Rightarrow> nat \<Rightarrow> string" where
  "feat_word names s i = (if ft_bits s AND push_bit i 1 = 0 then ''NO_'' else []) @ names ! i"

definition sched_feat_show :: "string list \<Rightarrow> feat_state \<Rightarrow> string" where
  "sched_feat_show names s =
     concat (map (\<lambda>i. feat_word names s i @ '' '') [0..<length names]) @ [newline]"

definition sched_feat_disable :: "nat \<Rightarrow> feat_state \<Rightarrow> feat_state" where
  "sched_feat_disable i s =
     (if ft_keys s i > 0 then s\<lparr>ft_keys := (ft_keys s)(i := ft_keys s i - 1)\<rparr> else s)"

definition sched_feat_enable :: "nat \<Rightarrow> feat_state \<Rightarrow> feat_state" where
  "sched_feat_enable i s =
     (if \<not> ft_keys s i > 0 then s\<lparr>ft_keys := (ft_keys s)(i := ft_keys s i + 1)\<rparr> else s)"

text \<open>The loop over the names, with the number of those passed; the index returned is their number if none fits.\<close>

primrec feat_loop :: "bool \<Rightarrow> string \<Rightarrow> string list \<Rightarrow> nat \<Rightarrow> feat_state \<Rightarrow> nat \<times> feat_state" where
  "feat_loop neg cmp [] i s = (i, s)"
| "feat_loop neg cmp (name # names) i s =
     (if cmp = name
      then (i, if neg then sched_feat_disable i (s\<lparr>ft_bits := ft_bits s AND NOT (push_bit i 1)\<rparr>)
               else sched_feat_enable i (s\<lparr>ft_bits := ft_bits s OR push_bit i 1\<rparr>))
      else feat_loop neg cmp names (Suc i) s)"

definition sched_feat_set :: "string list \<Rightarrow> string \<Rightarrow> feat_state \<Rightarrow> nat \<times> feat_state" where
  "sched_feat_set names cmp s =
     (let neg = (take 3 cmp = ''NO_''); cmp = (if neg then drop 3 cmp else cmp)
      in feat_loop neg cmp names 0 s)"

text \<open>\<open>strstrip\<close> of a C string, with the kernel's idea of white space.\<close>

definition isspace :: "char \<Rightarrow> bool" where
  "isspace c \<longleftrightarrow> (let n = of_char c :: nat in (9 \<le> n \<and> n \<le> 13) \<or> n = 32 \<or> n = 160)"

definition strstrip :: "string \<Rightarrow> string" where
  "strstrip cs = dropWhile isspace (rev (dropWhile isspace (rev cs)))"

text \<open>
  \<open>ubuf\<close> is what the user buffer holds, \<open>None\<close> if it cannot be read; the text ends at the first
  zero byte. The result is the value returned.
\<close>

definition sched_feat_write :: "string list \<Rightarrow> string option \<Rightarrow> nat \<Rightarrow> feat_state \<Rightarrow> int \<times> feat_state" where
  "sched_feat_write names ubuf cnt s =
     (let cnt = (if cnt > 63 then 63 else cnt)
      in case ubuf of
           None \<Rightarrow> (- EFAULT, s)
         | Some bytes \<Rightarrow>
             let cmp = strstrip (takeWhile (\<lambda>c. c \<noteq> CHR 0x00) (take cnt bytes));
                 (i, s) = sched_feat_set names cmp s
             in if i = length names then (- EINVAL, s) else (int cnt, s))"

section \<open>Lemmas\<close>

text \<open>What the code relies on of the names.\<close>

definition names_ok :: "string list \<Rightarrow> bool" where
  "names_ok names \<longleftrightarrow> distinct names \<and> length names \<le> 32 \<and>
     list_all (\<lambda>n. n \<noteq> [] \<and> length n < 60 \<and> take 3 n \<noteq> ''NO_'' \<and> list_all (\<lambda>c. \<not> isspace c \<and> c \<noteq> CHR 0x00) n) names"

lemma names_ok_nth:
  assumes "names_ok names" "i < length names"
  shows "names ! i \<noteq> []" "length (names ! i) < 60" "take 3 (names ! i) \<noteq> ''NO_''"
    "\<forall>c\<in>set (names ! i). \<not> isspace c \<and> c \<noteq> CHR 0x00" "i < 32"
proof -
  have all: "\<forall>n\<in>set names. n \<noteq> [] \<and> length n < 60 \<and> take 3 n \<noteq> ''NO_'' \<and> (\<forall>c\<in>set n. \<not> isspace c \<and> c \<noteq> CHR 0x00)"
    "length names \<le> 32"
    using assms(1) unfolding names_ok_def list_all_iff by blast+
  note bspec [OF all(1) nth_mem [OF assms(2)]]
  then show "names ! i \<noteq> []" "length (names ! i) < 60" "take 3 (names ! i) \<noteq> ''NO_''"
    "\<forall>c\<in>set (names ! i). \<not> isspace c \<and> c \<noteq> CHR 0x00" by blast+
  show "i < 32" using all(2) assms(2) by simp
qed

text \<open>The effect of setting one feature.\<close>

definition put_feat :: "nat \<Rightarrow> bool \<Rightarrow> feat_state \<Rightarrow> feat_state" where
  "put_feat i b s =
     (if b then sched_feat_enable i (s\<lparr>ft_bits := ft_bits s OR push_bit i 1\<rparr>)
      else sched_feat_disable i (s\<lparr>ft_bits := ft_bits s AND NOT (push_bit i 1)\<rparr>))"

lemma feat_loop_index:
  "j < length names \<Longrightarrow> distinct names \<Longrightarrow>
   feat_loop neg (names ! j) names i s = (i + j, put_feat (i + j) (\<not> neg) s)"
proof (induction names arbitrary: i j)
  case (Cons n names)
  then show ?case by (cases j) (auto simp: put_feat_def nth_Cons')
qed simp

lemma feat_loop_cases:
  "feat_loop neg cmp names i s = (i + length names, s) \<or>
   (\<exists>j < length names. feat_loop neg cmp names i s = (i + j, put_feat (i + j) (\<not> neg) s))"
proof (induction names arbitrary: i)
  case (Cons n names)
  show ?case
  proof (cases "cmp = n")
    case True
    then show ?thesis by (intro disjI2 exI [of _ 0]) (simp add: put_feat_def)
  next
    case False
    from Cons.IH [of "Suc i"] show ?thesis
    proof
      assume "\<exists>j<length names. feat_loop neg cmp names (Suc i) s = (Suc i + j, put_feat (Suc i + j) (\<not> neg) s)"
      then obtain j where "j < length names" "feat_loop neg cmp names (Suc i) s = (Suc i + j, put_feat (Suc i + j) (\<not> neg) s)"
        by blast
      with False show ?thesis by (intro disjI2 exI [of _ "Suc j"]) simp
    qed (use False in simp)
  qed
qed simp

lemma put_feat_bit:
  "j < 32 \<Longrightarrow> bit (ft_bits (put_feat i b s)) j \<longleftrightarrow> (if j = i then b else bit (ft_bits s) j)"
  by (auto simp: put_feat_def sched_feat_enable_def sched_feat_disable_def bit_or_iff bit_and_iff bit_not_iff
      bit_exp_iff)

text \<open>The static keys follow the bits.\<close>

definition keys_ok :: "string list \<Rightarrow> feat_state \<Rightarrow> bool" where
  "keys_ok names s \<longleftrightarrow> (\<forall>i < length names. ft_keys s i = (if bit (ft_bits s) i then 1 else 0))"

lemma put_feat_keys:
  assumes "keys_ok names s" "i < length names" "length names \<le> 32"
  shows "keys_ok names (put_feat i b s)"
  unfolding keys_ok_def
proof (intro allI impI)
  fix j assume j: "j < length names"
  have "ft_keys (put_feat i b s) j = (if j = i then (if b then 1 else 0) else ft_keys s j)"
    using assms(1,2) by (auto simp: keys_ok_def put_feat_def sched_feat_enable_def sched_feat_disable_def)
  moreover have "bit (ft_bits (put_feat i b s)) j \<longleftrightarrow> (if j = i then b else bit (ft_bits s) j)"
    using j assms(3) by (intro put_feat_bit) simp
  ultimately show "ft_keys (put_feat i b s) j = (if bit (ft_bits (put_feat i b s)) j then 1 else 0)"
    using assms(1) j by (simp add: keys_ok_def)
qed

text \<open>Writing a word as it is shown, with a newline behind it.\<close>

lemma strstrip_line:
  assumes "w \<noteq> []" "\<forall>c\<in>set w. \<not> isspace c"
  shows "strstrip (w @ [newline]) = w"
proof -
  have "isspace newline" by (simp add: isspace_def)
  moreover have "dropWhile isspace w = w" using assms by (cases w) auto
  moreover have "dropWhile isspace (rev w) = rev w" using assms by (cases w rule: rev_cases) auto
  ultimately show ?thesis by (simp add: strstrip_def)
qed

lemma feat_word_chars:
  assumes "names_ok names" "i < length names"
  shows "feat_word names s i \<noteq> []" "\<forall>c\<in>set (feat_word names s i). \<not> isspace c \<and> c \<noteq> CHR 0x00"
    "length (feat_word names s i) < 63"
proof -
  note n = names_ok_nth [OF assms]
  have no: "\<forall>c\<in>set ''NO_''. \<not> isspace c \<and> c \<noteq> CHR 0x00" by code_simp
  show "feat_word names s i \<noteq> []" using n(1) by (simp add: feat_word_def)
  show "\<forall>c\<in>set (feat_word names s i). \<not> isspace c \<and> c \<noteq> CHR 0x00"
    unfolding feat_word_def set_append ball_Un using n(4) no by (cases "ft_bits s AND push_bit i 1 = 0") simp_all
  show "length (feat_word names s i) < 63" using n(2) by (simp add: feat_word_def)
qed

lemma sched_feat_write_word:
  assumes "names_ok names" "i < length names"
  shows "sched_feat_write names (Some (feat_word names s i @ [newline])) (Suc (length (feat_word names s i))) t =
     (int (Suc (length (feat_word names s i))), put_feat i (bit (ft_bits s) i) t)"
proof -
  let ?w = "feat_word names s i"
  note w = feat_word_chars [OF assms, of s]
  have dist: "distinct names" using assms(1) by (simp add: names_ok_def)
  have "takeWhile (\<lambda>c. c \<noteq> CHR 0x00) (?w @ [newline]) = ?w @ [newline]"
    using w(2) by (simp add: takeWhile_append2)
  then have cmp: "strstrip (takeWhile (\<lambda>c. c \<noteq> CHR 0x00) (take (Suc (length ?w)) (?w @ [newline]))) = ?w"
    using strstrip_line [of ?w] w(1,2) by simp
  have "sched_feat_set names ?w t = (i, put_feat i (bit (ft_bits s) i) t)"
  proof (cases "bit (ft_bits s) i")
    case True
    then have "?w = names ! i" by (simp add: feat_word_def bit_iff_and_push_bit_not_eq_0)
    with True names_ok_nth(3) [OF assms] feat_loop_index [OF assms(2) dist, of False 0 t] show ?thesis
      by (simp add: sched_feat_set_def)
  next
    case False
    then have "?w = ''NO_'' @ names ! i" by (simp add: feat_word_def bit_iff_and_push_bit_not_eq_0)
    with False feat_loop_index [OF assms(2) dist, of True 0 t] show ?thesis
      by (simp add: sched_feat_set_def)
  qed
  with cmp w(3) assms(2) show ?thesis by (simp add: sched_feat_write_def)
qed

section \<open>Properties\<close>

text \<open>Reading and writing the file of the feature bits: when the words of the line it shows are written back, one
  after the other and whatever the bits are by then, every write is accepted, every feature is as it was
  when the line was read, and the bits beyond the features stay.\<close>

theorem sched_feat_show_write:
  assumes "names_ok names"
  defines "write \<equiv> \<lambda>w t. snd (sched_feat_write names (Some (w @ [newline])) (Suc (length w)) t)"
  shows "\<exists>words. sched_feat_show names s = concat (map (\<lambda>w. w @ '' '') words) @ [newline] \<and>
     (\<forall>w\<in>set words. \<forall>t. fst (sched_feat_write names (Some (w @ [newline])) (Suc (length w)) t) = int (Suc (length w))) \<and>
     (\<forall>i < 32. bit (ft_bits (fold write words t)) i \<longleftrightarrow>
        (if i < length names then bit (ft_bits s) i else bit (ft_bits t) i))"
proof -
  let ?words = "map (feat_word names s) [0..<length names]"
  have bits: "k \<le> length names \<Longrightarrow> i < 32 \<Longrightarrow> bit (ft_bits (fold write (map (feat_word names s) [0..<k]) t)) i \<longleftrightarrow>
      (if i < k then bit (ft_bits s) i else bit (ft_bits t) i)" for k i
  proof (induction k)
    case (Suc k)
    have "write (feat_word names s k) u = put_feat k (bit (ft_bits s) k) u" for u
      using sched_feat_write_word [OF assms(1), of k s u] Suc.prems(1) by (simp add: write_def)
    with Suc show ?case by (auto simp: put_feat_bit less_Suc_eq)
  qed simp
  show ?thesis
  proof (intro exI [of _ ?words] conjI)
    show "sched_feat_show names s = concat (map (\<lambda>w. w @ '' '') ?words) @ [newline]"
      by (simp add: sched_feat_show_def o_def)
    show "\<forall>w\<in>set ?words. \<forall>t. fst (sched_feat_write names (Some (w @ [newline])) (Suc (length w)) t) = int (Suc (length w))"
      using sched_feat_write_word [OF assms(1)] by auto
    show "\<forall>i<32. bit (ft_bits (fold write ?words t)) i =
        (if i < length names then bit (ft_bits s) i else bit (ft_bits t) i)"
      using bits [of "length names"] by simp
  qed
qed

theorem sched_feat_show_write_witness:
  "sched_feat_show [''GENTLE_FAIR_SLEEPERS'', ''HRTICK''] \<lparr>ft_bits = 1, ft_keys = (\<lambda>_. 0)\<rparr> =
     ''GENTLE_FAIR_SLEEPERS NO_HRTICK '' @ [newline] \<and>
   (\<exists>words. concat (map (\<lambda>w. w @ '' '') words) = ''GENTLE_FAIR_SLEEPERS NO_HRTICK '' \<and>
     bit (ft_bits (fold (\<lambda>w t. snd (sched_feat_write [''GENTLE_FAIR_SLEEPERS'', ''HRTICK''] (Some (w @ [newline])) (Suc (length w)) t))
       words \<lparr>ft_bits = 6, ft_keys = (\<lambda>_. 0)\<rparr>)) 0 \<and>
     \<not> bit (ft_bits (fold (\<lambda>w t. snd (sched_feat_write [''GENTLE_FAIR_SLEEPERS'', ''HRTICK''] (Some (w @ [newline])) (Suc (length w)) t))
       words \<lparr>ft_bits = 6, ft_keys = (\<lambda>_. 0)\<rparr>)) 1)"
proof -
  let ?n = "[''GENTLE_FAIR_SLEEPERS'', ''HRTICK'']" and ?s = "\<lparr>ft_bits = 1, ft_keys = (\<lambda>_. 0)\<rparr>"
  have ok: "names_ok ?n" by code_simp
  have shown: "sched_feat_show ?n ?s = ''GENTLE_FAIR_SLEEPERS NO_HRTICK '' @ [newline]" by code_simp
  from sched_feat_show_write [OF ok, of ?s "\<lparr>ft_bits = 6, ft_keys = (\<lambda>_. 0)\<rparr>"]
  obtain words where "sched_feat_show ?n ?s = concat (map (\<lambda>w. w @ '' '') words) @ [newline]"
    "\<forall>i < 32. bit (ft_bits (fold (\<lambda>w t. snd (sched_feat_write ?n (Some (w @ [newline])) (Suc (length w)) t))
       words \<lparr>ft_bits = 6, ft_keys = (\<lambda>_. 0)\<rparr>)) i \<longleftrightarrow>
        (if i < length ?n then bit (ft_bits ?s) i else bit (ft_bits \<lparr>ft_bits = 6, ft_keys = (\<lambda>_. 0)\<rparr>) i)"
    by blast
  then show ?thesis
    using shown by (intro conjI exI [of _ words]) (simp_all add: bit_1_iff)
qed

text \<open>Whatever is written, the static keys agree with the bits, and an unknown word changes nothing.\<close>

lemma sched_feat_write_keys:
  assumes "keys_ok names s" "length names \<le> 32"
  shows "keys_ok names (snd (sched_feat_write names ubuf cnt s))"
    and "fst (sched_feat_write names ubuf cnt s) < 0 \<Longrightarrow> snd (sched_feat_write names ubuf cnt s) = s"
proof -
  have set: "sched_feat_set names cmp s = (length names, s) \<or>
      (\<exists>i<length names. \<exists>b. sched_feat_set names cmp s = (i, put_feat i b s))" for cmp
    using feat_loop_cases [of _ _ names 0 s] unfolding sched_feat_set_def Let_def by fastforce
  show "keys_ok names (snd (sched_feat_write names ubuf cnt s))"
    and "fst (sched_feat_write names ubuf cnt s) < 0 \<Longrightarrow> snd (sched_feat_write names ubuf cnt s) = s"
    using set [of "strstrip (takeWhile (\<lambda>c. c \<noteq> CHR 0x00) (take (if cnt > 63 then 63 else cnt) (the ubuf)))"]
      assms put_feat_keys
    by (auto simp: sched_feat_write_def Let_def split: option.split prod.split if_split_asm)
qed

section \<open>The switch for NUMA balancing\<close>

definition set_numabalancing_state :: "string list \<Rightarrow> bool \<Rightarrow> feat_state \<Rightarrow> feat_state" where
  "set_numabalancing_state names enabled s =
     (if enabled then snd (sched_feat_set names ''NUMA'' s) else snd (sched_feat_set names ''NO_NUMA'' s))"

text \<open>
  \<open>numa\<close> is the number of the feature, whose key is what \<open>numabalancing_enabled\<close> reads; \<open>dointvec\<close> is
  \<open>proc_dointvec_minmax\<close> on the value: its result and the value after it.
\<close>

definition sysctl_numa_balancing ::
  "string list \<Rightarrow> nat \<Rightarrow> bool \<Rightarrow> bool \<Rightarrow> (int \<Rightarrow> int \<times> int) \<Rightarrow> feat_state \<Rightarrow> int \<times> feat_state"
where
  "sysctl_numa_balancing names numa write capable dointvec s =
     (let state = (if ft_keys s numa > 0 then 1 else 0)
      in if write \<and> \<not> capable then (- EPERM, s)
         else let (err, state) = dointvec state
              in if err < 0 then (err, s)
                 else (err, if write then set_numabalancing_state names (state \<noteq> 0) s else s))"

lemma set_numabalancing_state_feat:
  assumes "names_ok names" "numa < length names" "names ! numa = ''NUMA''"
  shows "set_numabalancing_state names b s = put_feat numa b s"
proof -
  have "distinct names" using assms(1) by (simp add: names_ok_def)
  from feat_loop_index [OF assms(2) this, of "\<not> b" 0 s] show ?thesis
    by (cases b) (simp_all add: set_numabalancing_state_def sched_feat_set_def assms(3))
qed

text \<open>What a privileged write sets, a later read finds: the handler then starts from the value written.\<close>

lemma numa_balancing_readback:
  assumes "names_ok names" "numa < length names" "names ! numa = ''NUMA''" "keys_ok names s"
    and "\<And>x. put x = (0, v)" "v = 0 \<or> v = 1" "fst (get v) = 0"
  shows "let (r, t) = sysctl_numa_balancing names numa True True put s
    in r = 0 \<and> keys_ok names t \<and> (\<forall>i < 32. i \<noteq> numa \<longrightarrow> bit (ft_bits t) i = bit (ft_bits s) i) \<and>
       sysctl_numa_balancing names numa False cap get t = (0, t) \<and> (if ft_keys t numa > 0 then 1 else 0) = v"
proof -
  have len: "length names \<le> 32" using assms(1) by (simp add: names_ok_def)
  let ?t = "put_feat numa (v \<noteq> 0) s"
  have run: "sysctl_numa_balancing names numa True True put s = (0, ?t)"
    using assms(5) set_numabalancing_state_feat [OF assms(1-3)]
    by (simp add: sysctl_numa_balancing_def Let_def)
  have key: "(if ft_keys ?t numa > 0 then 1 else 0) = v"
    using assms(2,4,6) put_feat_keys [OF assms(4,2) len, of "v \<noteq> 0"] put_feat_bit [of numa numa "v \<noteq> 0" s] len
    by (auto simp: keys_ok_def)
  have "sysctl_numa_balancing names numa False cap get ?t = (0, ?t)"
    using assms(7) by (cases "get v") (simp add: sysctl_numa_balancing_def Let_def key)
  with run key put_feat_keys [OF assms(4,2) len, of "v \<noteq> 0"] show ?thesis
    by (auto simp: put_feat_bit)
qed

lemma numa_balancing_unprivileged: "sysctl_numa_balancing names numa True False put s = (- EPERM, s)"
  by (simp add: sysctl_numa_balancing_def Let_def)

end
