(* ===== verification/Sched_Hrtick.thy ===== *)
theory Sched_Hrtick
  imports Sched_Clock
begin

text \<open>
  The high-resolution tick of a runqueue and the timers of the bandwidth groups (\<^verbatim>\<open>core.c\<close>). A CPU
  arms its own tick at once, that of another CPU through a cross call. Of the kernel's
  \<open>hrtimer\<close> the code uses the expiry stored in the timer and whether the timer is queued; a queued
  timer sits in a tree ordered by the expiry it had when it was queued, which is kept beside it.
  Times are 64-bit numbers read as signed.
\<close>

section \<open>Timers\<close>

record hr_timer =
  tm_expires :: u64                \<comment> \<open>the expiry, soft and hard\<close>
  tm_queued :: "u64 option"        \<comment> \<open>the key it is queued under\<close>

record hr_state =
  hr_timers :: "cpu \<Rightarrow> hr_timer"   \<comment> \<open>\<open>rq->hrtick_timer\<close>\<close>
  hr_pending :: "cpu \<Rightarrow> bool"      \<comment> \<open>\<open>rq->hrtick_csd_pending\<close>\<close>
  hr_csds :: "cpu list"            \<comment> \<open>the cross calls on their way\<close>

definition upd_timer :: "cpu \<Rightarrow> (hr_timer \<Rightarrow> hr_timer) \<Rightarrow> hr_state \<Rightarrow> hr_state" where
  "upd_timer c f s = s\<lparr>hr_timers := (hr_timers s)(c := f (hr_timers s c))\<rparr>"

lemma upd_timer_simps [simp]:
  "hr_timers (upd_timer c f s) = (hr_timers s)(c := f (hr_timers s c))"
  "hr_pending (upd_timer c f s) = hr_pending s" "hr_csds (upd_timer c f s) = hr_csds s"
  by (simp_all add: upd_timer_def)

text \<open>\<open>hrtick_clear\<close>: \<open>hrtimer_cancel\<close> takes the timer out of the queue.\<close>

definition hrtick_cancel :: "cpu \<Rightarrow> hr_state \<Rightarrow> hr_state" where
  "hrtick_cancel c s =
     (if tm_queued (hr_timers s c) \<noteq> None then upd_timer c (\<lambda>t. t\<lparr>tm_queued := None\<rparr>) s else s)"

text \<open>\<open>__hrtick_restart\<close>: queued, or queued anew, under the expiry it has.\<close>

definition hrtick_restart :: "cpu \<Rightarrow> hr_state \<Rightarrow> hr_state" where
  "hrtick_restart c s =
     (let time = tm_expires (hr_timers s c)
      in upd_timer c (\<lambda>t. t\<lparr>tm_expires := time, tm_queued := Some time\<rparr>) s)"

text \<open>\<open>__hrtick_start\<close>, run by the cross call.\<close>

definition hrtick_csd :: "cpu \<Rightarrow> hr_state \<Rightarrow> hr_state" where
  "hrtick_csd c s = (let s = hrtick_restart c s in s\<lparr>hr_pending := (hr_pending s)(c := False)\<rparr>)"

text \<open>\<open>now\<close> is the time of the timer's base, \<open>this\<close> the CPU that asks; \<open>delay\<close> is read as a signed number.\<close>

definition hrtick_delta :: "u64 \<Rightarrow> u64" where
  "hrtick_delta delay = (if 10000 <s delay then delay else 10000)"

definition hrtick_start :: "u64 \<Rightarrow> cpu \<Rightarrow> cpu \<Rightarrow> u64 \<Rightarrow> hr_state \<Rightarrow> hr_state" where
  "hrtick_start now this c delay s =
     (let time = now + hrtick_delta delay;
          s = upd_timer c (\<lambda>t. t\<lparr>tm_expires := time\<rparr>) s
      in if c = this then hrtick_restart c s
         else if \<not> hr_pending s c
         then s\<lparr>hr_csds := hr_csds s @ [c], hr_pending := (hr_pending s)(c := True)\<rparr>
         else s)"

text \<open>
  The timer's function; \<open>tick\<close> is the \<open>task_tick\<close> method of a class with its last argument 1. The
  timer is not started again.
\<close>

definition hrtick ::
  "'x env \<Rightarrow> (sched_class \<Rightarrow> cpu \<Rightarrow> tid \<Rightarrow> 'x kstate \<Rightarrow> 'x kstate) \<Rightarrow> cpu \<Rightarrow> 'x kstate \<Rightarrow> bool \<times> 'x kstate"
where
  "hrtick E tick c s =
     (let s = warn (c \<noteq> ks_cpu s) ''cpu_of(rq) != smp_processor_id()'' s;
          s = update_rq_clock E c s;
          p = rq_curr (ks_rqs s c)
      in (False, tick (p_class (ks_tasks s p)) c p s))"

datatype hotplug_action = CPU_UP_CANCELED | CPU_UP_CANCELED_FROZEN | CPU_DOWN_PREPARE | CPU_DOWN_PREPARE_FROZEN
  | CPU_DEAD | CPU_DEAD_FROZEN | Other_action

definition hotplug_hrtick :: "hotplug_action \<Rightarrow> cpu \<Rightarrow> hr_state \<Rightarrow> bool \<times> hr_state" where
  "hotplug_hrtick action c s =
     (case action of Other_action \<Rightarrow> (False, s) | _ \<Rightarrow> (True, hrtick_cancel c s))"

definition init_rq_hrtick :: "cpu \<Rightarrow> hr_state \<Rightarrow> hr_state" where
  "init_rq_hrtick c s =
     upd_timer c (\<lambda>_. \<lparr>tm_expires = 0, tm_queued = None\<rparr>) (s\<lparr>hr_pending := (hr_pending s)(c := False)\<rparr>)"

section \<open>The bandwidth timer\<close>

text \<open>
  \<open>hrtimer_forward\<close> moves an expiry that has passed by whole periods behind \<open>now\<close>. Between two
  rounds of the loop other CPUs may act on the timer: \<open>others k\<close>, after round \<open>k\<close>; \<open>now k\<close> is the
  time of round \<open>k\<close>.
\<close>

record bw_timer =
  bt_expires :: int
  bt_active :: bool

definition hrtimer_forward :: "int \<Rightarrow> int \<Rightarrow> bw_timer \<Rightarrow> bw_timer" where
  "hrtimer_forward now period t =
     (if now < bt_expires t then t
      else t\<lparr>bt_expires := bt_expires t + period * ((now - bt_expires t) div period + 1)\<rparr>)"

partial_function (option) start_bandwidth_timer ::
  "(nat \<Rightarrow> int) \<Rightarrow> (nat \<Rightarrow> bw_timer \<Rightarrow> bw_timer) \<Rightarrow> int \<Rightarrow> nat \<Rightarrow> bw_timer \<Rightarrow> bw_timer option"
where
  "start_bandwidth_timer now others period k t =
     (if bt_active t then Some t
      else start_bandwidth_timer now others period (Suc k)
             (others k ((hrtimer_forward (now k) period t)\<lparr>bt_active := True\<rparr>)))"

section \<open>Runs\<close>

text \<open>A request, the arrival of a cross call, the expiry of a queued timer, a hotplug notification.\<close>

inductive hr_step :: "hr_state \<Rightarrow> hr_state \<Rightarrow> bool" where
  request: "hr_step s (hrtick_start now this c delay s)"
| arrival: "c \<in> set (hr_csds s) \<Longrightarrow> hr_step s (hrtick_csd c (s\<lparr>hr_csds := remove1 c (hr_csds s)\<rparr>))"
| expiry: "tm_queued (hr_timers s c) = Some t \<Longrightarrow> hr_step s (upd_timer c (\<lambda>t. t\<lparr>tm_queued := None\<rparr>) s)"
| hotplug: "hr_step s (snd (hotplug_hrtick action c s))"

definition hr_init :: hr_state where
  "hr_init = \<lparr>hr_timers = (\<lambda>_. \<lparr>tm_expires = 0, tm_queued = None\<rparr>), hr_pending = (\<lambda>_. False), hr_csds = []\<rparr>"

definition hr_ok :: "hr_state \<Rightarrow> bool" where
  "hr_ok s \<longleftrightarrow> (\<forall>c. count_list (hr_csds s) c = (if hr_pending s c then 1 else 0)) \<and>
     (\<forall>c. tm_queued (hr_timers s c) \<noteq> None \<longrightarrow> \<not> hr_pending s c \<longrightarrow>
        tm_queued (hr_timers s c) = Some (tm_expires (hr_timers s c)))"

lemma count_list_remove1: "count_list (remove1 a xs) b = count_list xs b - (if a = b then 1 else 0)"
  by (induction xs) (auto simp: count_list_0_iff)

lemma hr_ok_start: "hr_ok s \<Longrightarrow> hr_ok (hrtick_start now this c delay s)"
  by (auto simp: hr_ok_def hrtick_start_def hrtick_restart_def Let_def)

lemma hr_ok_csd: "hr_ok s \<Longrightarrow> hr_ok (hrtick_csd c (s\<lparr>hr_csds := remove1 c (hr_csds s)\<rparr>))"
  by (auto simp: hr_ok_def hrtick_csd_def hrtick_restart_def Let_def count_list_remove1)

lemma hr_ok_cancel: "hr_ok s \<Longrightarrow> hr_ok (upd_timer c (\<lambda>t. t\<lparr>tm_queued := None\<rparr>) s)"
  by (auto simp: hr_ok_def)

lemma hr_ok_step: "hr_step s t \<Longrightarrow> hr_ok s \<Longrightarrow> hr_ok t"
proof (induction rule: hr_step.induct)
  case (hotplug s action c)
  then show ?case
    by (cases action) (simp_all add: hotplug_hrtick_def hrtick_cancel_def hr_ok_cancel)
qed (simp_all add: hr_ok_start hr_ok_csd hr_ok_cancel)

text \<open>In every run of the ticks a CPU has at most one cross call on its way, exactly while its pending mark is
  set, so the one call record of a runqueue is never used twice at once; and a queued timer sits where its expiry
  belongs, unless a cross call for its CPU is on its way.\<close>

theorem hrtick_one_cross_call:
  assumes "hr_step\<^sup>*\<^sup>* hr_init s"
  shows "count_list (hr_csds s) c = (if hr_pending s c then 1 else 0) \<and>
    (tm_queued (hr_timers s c) = Some k \<and> c \<notin> set (hr_csds s) \<longrightarrow> k = tm_expires (hr_timers s c))"
proof -
  have "hr_ok s"
    using assms
  proof (induction rule: rtranclp_induct)
    case base
    then show ?case by (simp add: hr_ok_def hr_init_def)
  next
    case (step t u)
    then show ?case by (blast intro: hr_ok_step)
  qed
  then have count: "count_list (hr_csds s) c = (if hr_pending s c then 1 else 0)"
    and key: "tm_queued (hr_timers s c) \<noteq> None \<longrightarrow> \<not> hr_pending s c \<longrightarrow>
        tm_queued (hr_timers s c) = Some (tm_expires (hr_timers s c))"
    by (simp_all add: hr_ok_def)
  have "\<not> hr_pending s c" if "c \<notin> set (hr_csds s)"
    using count that by (auto simp: count_list_0_iff [symmetric] split: if_splits)
  with count key show ?thesis by auto
qed

text \<open>Two requests for CPU 1 from CPU 0: one cross call.\<close>

theorem hrtick_one_cross_call_witness:
  "count_list (hr_csds (hrtick_start 70 0 1 20000 (hrtick_start 50 0 1 20000 hr_init))) 1 = 1"
proof -
  let ?s = "hrtick_start 70 0 1 20000 (hrtick_start 50 0 1 20000 hr_init)"
  have "hr_step\<^sup>*\<^sup>* hr_init ?s"
    by (rule rtranclp.rtrancl_into_rtrancl [OF rtranclp.rtrancl_into_rtrancl [OF rtranclp.rtrancl_refl]])
      (rule hr_step.request)+
  from hrtick_one_cross_call [OF this, of 1 0]
  show ?thesis by (simp add: hrtick_start_def hr_init_def Let_def)
qed

text \<open>
  While the cross call is on its way the timer of a CPU whose tick is queued already has another
  expiry than the one it is queued under: the tree it sits in is out of order.
\<close>

lemma hrtick_key_stale:
  "\<exists>s. hr_step\<^sup>*\<^sup>* hr_init s \<and> tm_queued (hr_timers s 1) = Some 10050 \<and> tm_expires (hr_timers s 1) = 20070"
proof (intro exI conjI)
  let ?s = "hrtick_start 70 0 1 20000 (hrtick_start 50 1 1 0 hr_init)"
  show "hr_step\<^sup>*\<^sup>* hr_init ?s"
    by (rule rtranclp.rtrancl_into_rtrancl [OF rtranclp.rtrancl_into_rtrancl [OF rtranclp.rtrancl_refl]])
      (rule hr_step.request)+
  show "tm_queued (hr_timers ?s 1) = Some 10050" "tm_expires (hr_timers ?s 1) = 20070"
    by (simp_all add: hrtick_start_def hrtick_restart_def hrtick_delta_def hr_init_def Let_def word_sless_alt)
qed

text \<open>A slice is at least 10 microseconds, whatever is asked for, also when the delay does not fit a signed number.\<close>

lemma hrtick_delta_bounds:
  "10000 \<le> sint (hrtick_delta delay)" "sint delay < 0 \<Longrightarrow> hrtick_delta delay = 10000"
  by (auto simp: hrtick_delta_def word_sless_alt)

lemma hrtimer_forward_next:
  assumes "0 < period" "bt_expires t \<le> now"
  shows "now < bt_expires (hrtimer_forward now period t) \<and> bt_expires (hrtimer_forward now period t) \<le> now + period"
proof -
  let ?d = "now - bt_expires t"
  have "period * (?d div period) + ?d mod period = ?d" "0 \<le> ?d mod period" "?d mod period < period"
    using assms(1) by simp_all
  moreover have "bt_expires (hrtimer_forward now period t) = bt_expires t + period * (?d div period) + period"
    using assms(2) by (simp add: hrtimer_forward_def distrib_left)
  ultimately show ?thesis by linarith
qed

text \<open>When nobody stops the timer meanwhile, one round starts it at the next multiple of the period.\<close>

lemma start_bandwidth_timer_ends:
  assumes "\<not> bt_active t" "0 < period" "bt_expires t \<le> now k" "\<And>u. others k u = u"
  shows "\<exists>u. start_bandwidth_timer now others period k t = Some u \<and> bt_active u \<and>
    now k < bt_expires u \<and> bt_expires u \<le> now k + period"
  using assms hrtimer_forward_next [OF assms(2,3)]
  by (subst start_bandwidth_timer.simps, subst start_bandwidth_timer.simps) simp

end
