(* ===== verification/Sched_Normalize.thy ===== *)
theory Sched_Normalize
  imports Sched_Policy
begin

text \<open>
  Taking all real-time privileges back (\<^verbatim>\<open>core.c\<close>): the magic-sysrq handler \<open>normalize_rt_tasks\<close> goes
  through all threads and makes the user tasks among them ordinary tasks; and \<open>sched_setnuma\<close>,
  which requeues a task around a change of its preferred node.
\<close>

section \<open>Definitions\<close>

abbreviation (input) PF_KTHREAD :: u32 where "PF_KTHREAD \<equiv> 0x200000"

definition normal_attr :: sched_attr where
  "normal_attr = \<lparr>sa_size = 0, sa_policy = SCHED_NORMAL, sa_flags = 0, sa_nice = 0, sa_priority = 0,
     sa_runtime = 0, sa_deadline = 0, sa_period = 0\<rparr>"

definition normalize_task :: "'x env \<Rightarrow> cpu \<Rightarrow> tid \<Rightarrow> 'x kstate \<Rightarrow> 'x kstate" where
  "normalize_task E c p s =
     (let prev_class = p_class (ks_tasks s p);
          old_prio = p_prio (ks_tasks s p);
          queued = task_on_rq_queued s p;
          s = do_if queued (dequeue_task E c p 0) s;
          s = setscheduler E p normal_attr s;
          s = do_if queued (\<lambda>s. resched_curr c (enqueue_task E c p 0 s)) s
      in check_class_changed E c p prev_class old_prio s)"

text \<open>One round of the loop. The class's own time stamps are not part of the store.\<close>

definition normalize_thread :: "'x env \<Rightarrow> tid \<Rightarrow> 'x kstate \<Rightarrow> 'x kstate" where
  "normalize_thread E p s =
     (if p_flags (ks_tasks s p) AND PF_KTHREAD \<noteq> 0 then s
      else if \<not> dl_prio (p_prio (ks_tasks s p)) \<and> \<not> rt_prio (p_prio (ks_tasks s p))
      then (if task_nice s p < 0 then set_user_nice E p 0 s else s)
      else normalize_task E (task_cpu s p) p s)"

definition normalize_rt_tasks :: "'x env \<Rightarrow> tid list \<Rightarrow> 'x kstate \<Rightarrow> 'x kstate" where
  "normalize_rt_tasks E threads s = fold (normalize_thread E) threads s"

text \<open>\<open>nid\<close> is the table of preferred nodes.\<close>

definition sched_setnuma ::
  "'x env \<Rightarrow> tid \<Rightarrow> int \<Rightarrow> (tid \<Rightarrow> int) \<times> 'x kstate \<Rightarrow> (tid \<Rightarrow> int) \<times> 'x kstate"
where
  "sched_setnuma E p nid = (\<lambda>(nids, s).
     let c = task_cpu s p;
         queued = task_on_rq_queued s p;
         running = task_current s c p;
         s = do_if queued (dequeue_task E c p 0) s;
         s = do_if running (\<lambda>s. co_put_prev (class_of E s p) c p s) s;
         nids = nids(p := nid);
         s = do_if running (\<lambda>s. co_set_curr (class_of E s p) c s) s;
         s = do_if queued (enqueue_task E c p 0) s
     in (nids, s))"

section \<open>One task\<close>

lemma normalize_task_update:
  assumes "env_ok E"
  shows "task_update p (\<lambda>t. class_task (params_task E normal_attr t)) s (normalize_task E c p s)"
proof -
  define s1 where "s1 = do_if (task_on_rq_queued s p) (dequeue_task E c p 0) s"
  have s1: "same_core s s1"
    using assms(1) by (simp add: s1_def frame core_frame)
  have "same_core (upd_task p (\<lambda>t. class_task (params_task E normal_attr t)) s) (setscheduler E p normal_attr s1)"
    unfolding setscheduler_task
    by (rule same_core_upd_cong [OF s1]) (intro class_task_cong params_task_cong)
  moreover have "same_core (setscheduler E p normal_attr s1) (normalize_task E c p s)"
    using assms(1) by (simp add: normalize_task_def Let_def s1_def [symmetric] frame core_frame)
  ultimately show ?thesis by (simp add: task_update_def same_core_trans)
qed

text \<open>What a round makes of the task it looks at.\<close>

definition thread_task :: "'x env \<Rightarrow> task_struct \<Rightarrow> task_struct" where
  "thread_task E t =
     (if p_flags t AND PF_KTHREAD \<noteq> 0 then t
      else if \<not> rt_prio (p_prio t) then (if PRIO_TO_NICE (p_static_prio t) < 0 then renice E 0 t else t)
      else class_task (params_task E normal_attr t))"

text \<open>A task whose policy is a real-time or the deadline policy has a priority to match.\<close>

definition policy_matches :: "task_struct \<Rightarrow> bool" where
  "policy_matches t \<longleftrightarrow> (rt_policy (p_policy t) \<or> dl_policy (p_policy t) \<longrightarrow> rt_prio (p_prio t))"

lemma normalize_thread_update:
  assumes "env_ok E" "policy_matches (ks_tasks s p)"
  shows "task_update p (thread_task E) s (normalize_thread E p s)"
proof -
  let ?t = "ks_tasks s p"
  consider "p_flags ?t AND PF_KTHREAD \<noteq> 0" | "p_flags ?t AND PF_KTHREAD = 0" "rt_prio (p_prio ?t)"
    | "p_flags ?t AND PF_KTHREAD = 0" "\<not> rt_prio (p_prio ?t)" "\<not> task_nice s p < 0"
    | "p_flags ?t AND PF_KTHREAD = 0" "\<not> rt_prio (p_prio ?t)" "task_nice s p < 0" by blast
  then show ?thesis
  proof cases
    case 1
    then show ?thesis by (simp add: normalize_thread_def thread_task_def task_update_def upd_task_def)
  next
    case 2
    then show ?thesis
      using normalize_task_update [OF assms(1), of p s "task_cpu s p"]
      by (simp add: normalize_thread_def thread_task_def task_update_def upd_task_def)
  next
    case 3
    then show ?thesis by (simp add: normalize_thread_def thread_task_def task_update_def upd_task_def)
  next
    case 4
    then have "\<not> rt_policy (p_policy ?t)" "\<not> dl_policy (p_policy ?t)"
      using assms(2) by (auto simp: policy_matches_def)
    with 4 show ?thesis
      using set_user_nice_update [OF assms(1), of s p 0]
      by (simp add: normalize_thread_def thread_task_def task_update_def upd_task_def)
  qed
qed

text \<open>An ordinary task.\<close>

definition ordinary :: "task_struct \<Rightarrow> bool" where
  "ordinary t \<longleftrightarrow> \<not> rt_prio (p_prio t) \<and> \<not> rt_policy (p_policy t) \<and> \<not> dl_policy (p_policy t) \<and>
     0 \<le> PRIO_TO_NICE (p_static_prio t)"

lemma thread_task_ordinary:
  assumes "policy_matches t" "p_flags t AND PF_KTHREAD = 0"
  shows "ordinary (thread_task E t)"
  using assms by (auto simp: thread_task_def ordinary_def policy_matches_def renice_def class_task_def params_task_def
      normal_attr_def load_task_def normal_prio_def normal_prio0_def policy_defs Let_def)

lemma thread_task_keeps:
  assumes "policy_matches t"
  shows "policy_matches (thread_task E t)" "p_flags (thread_task E t) = p_flags t"
    "ordinary t \<Longrightarrow> ordinary (thread_task E t)"
  using assms by (auto simp: thread_task_def ordinary_def policy_matches_def renice_def class_task_def params_task_def
      normal_attr_def load_task_def normal_prio_def normal_prio0_def policy_defs Let_def)

lemma core_views:
  assumes "core_task t = core_task u"
  shows "policy_matches t = policy_matches u" "ordinary t = ordinary u" "p_flags t = p_flags u"
  using assms by (simp_all add: core_task_def policy_matches_def ordinary_def)

section \<open>All threads\<close>

lemma normalize_fold:
  assumes "env_ok E"
  shows "(\<forall>p\<in>set ps. policy_matches (ks_tasks s p)) \<Longrightarrow>
    (\<forall>p. p \<notin> set ps \<or> p_flags (ks_tasks s p) AND PF_KTHREAD \<noteq> 0 \<longrightarrow>
       core_task (ks_tasks (normalize_rt_tasks E ps s) p) = core_task (ks_tasks s p)) \<and>
    (\<forall>p. (p \<in> set ps \<and> p_flags (ks_tasks s p) AND PF_KTHREAD = 0) \<or> p \<in> set ps \<and> ordinary (ks_tasks s p) \<longrightarrow>
       ordinary (ks_tasks (normalize_rt_tasks E ps s) p))"
proof (induction ps rule: rev_induct)
  case Nil
  then show ?case by (simp add: normalize_rt_tasks_def)
next
  case (snoc q ps)
  let ?s = "normalize_rt_tasks E ps s" and ?t = "normalize_rt_tasks E (ps @ [q]) s"
  have t: "?t = normalize_thread E q ?s" by (simp add: normalize_rt_tasks_def)
  from snoc have IH: "\<forall>p. p \<notin> set ps \<or> p_flags (ks_tasks s p) AND PF_KTHREAD \<noteq> 0 \<longrightarrow>
       core_task (ks_tasks ?s p) = core_task (ks_tasks s p)"
    "\<forall>p. (p \<in> set ps \<and> p_flags (ks_tasks s p) AND PF_KTHREAD = 0) \<or> p \<in> set ps \<and> ordinary (ks_tasks s p) \<longrightarrow>
       ordinary (ks_tasks ?s p)"
    by simp_all
  have q: "policy_matches (ks_tasks s q)" using snoc.prems by simp
  have qs: "policy_matches (ks_tasks ?s q)"
  proof (cases "q \<notin> set ps \<or> p_flags (ks_tasks s q) AND PF_KTHREAD \<noteq> 0")
    case True
    with IH(1) q core_views(1) show ?thesis by blast
  next
    case False
    with IH(2) have "ordinary (ks_tasks ?s q)" by blast
    then show ?thesis by (simp add: ordinary_def policy_matches_def)
  qed
  note up = normalize_thread_update [OF assms qs, folded t]
  have self: "core_task (ks_tasks ?t q) = core_task (thread_task E (ks_tasks ?s q))" by (rule task_update_self [OF up])
  have other: "core_task (ks_tasks ?t p) = core_task (ks_tasks ?s p)" if "p \<noteq> q" for p
    by (rule task_update_other [OF up that])
  show ?case
  proof (intro conjI allI impI)
    fix p assume p: "p \<notin> set (ps @ [q]) \<or> p_flags (ks_tasks s p) AND PF_KTHREAD \<noteq> 0"
    then have s: "core_task (ks_tasks ?s p) = core_task (ks_tasks s p)" using IH(1) by auto
    show "core_task (ks_tasks ?t p) = core_task (ks_tasks s p)"
    proof (cases "p = q")
      case True
      with p have "p_flags (ks_tasks ?s q) AND PF_KTHREAD \<noteq> 0" using core_views(3) [OF s] by simp
      then show ?thesis using self s True by (simp add: thread_task_def)
    qed (simp add: other s)
  next
    fix p assume p: "(p \<in> set (ps @ [q]) \<and> p_flags (ks_tasks s p) AND PF_KTHREAD = 0) \<or>
        p \<in> set (ps @ [q]) \<and> ordinary (ks_tasks s p)"
    show "ordinary (ks_tasks ?t p)"
    proof (cases "p = q")
      case False
      with p IH(2) have "ordinary (ks_tasks ?s p)" by auto
      with other [OF False] core_views(2) show ?thesis by blast
    next
      case True
      have "ordinary (thread_task E (ks_tasks ?s q))"
      proof (cases "q \<in> set ps")
        case True
        with p \<open>p = q\<close> IH(2) have "ordinary (ks_tasks ?s q)" by blast
        then show ?thesis by (rule thread_task_keeps(3) [OF qs])
      next
        case False
        then have s: "core_task (ks_tasks ?s q) = core_task (ks_tasks s q)" using IH(1) by blast
        from p \<open>p = q\<close> have "p_flags (ks_tasks ?s q) AND PF_KTHREAD = 0 \<or> ordinary (ks_tasks ?s q)"
          using core_views(2,3) [OF s] by auto
        then show ?thesis using thread_task_ordinary [OF qs] thread_task_keeps(3) [OF qs] by blast
      qed
      with self core_views(2) True show ?thesis by blast
    qed
  qed
qed

text \<open>C31 After \<open>normalize_rt_tasks\<close> no user task among the threads has a real-time or deadline priority or policy
  or a negative nice level, boosted ones included; kernel threads, and tasks that are not in the
  list, are as they were.\<close>

theorem normalize_rt_tasks_result:
  assumes "env_ok E" "\<forall>p\<in>set threads. policy_matches (ks_tasks s p)"
  shows "(\<forall>p\<in>set threads. p_flags (ks_tasks s p) AND PF_KTHREAD = 0 \<longrightarrow>
       (let t = ks_tasks (normalize_rt_tasks E threads s) p
        in MAX_RT_PRIO \<le> p_prio t \<and> \<not> rt_policy (p_policy t) \<and> \<not> dl_policy (p_policy t) \<and>
           0 \<le> task_nice (normalize_rt_tasks E threads s) p)) \<and>
    (\<forall>p. p \<notin> set threads \<or> p_flags (ks_tasks s p) AND PF_KTHREAD \<noteq> 0 \<longrightarrow>
       core_task (ks_tasks (normalize_rt_tasks E threads s) p) = core_task (ks_tasks s p))"
  using normalize_fold [OF assms(1), of threads s] assms(2)
  by (auto simp: ordinary_def Let_def not_less)

text \<open>A real-time task, a task of nice level -5 and a real-time kernel thread.\<close>

definition demo_threads :: "demo_ext kstate" where
  "demo_threads = demo_state\<lparr>ks_tasks := (\<lambda>p.
     if p = 1 then (demo_tsk 1)\<lparr>p_policy := 1, p_rt_priority := 50, p_prio := 49, p_normal_prio := 49, p_class := Rt_class\<rparr>
     else if p = 2 then (demo_tsk 2)\<lparr>p_static_prio := 115, p_normal_prio := 115, p_prio := 115\<rparr>
     else (demo_tsk 3)\<lparr>p_flags := 0x200000, p_policy := 1, p_rt_priority := 50, p_prio := 49\<rparr>)\<rparr>"

theorem normalize_rt_tasks_result_witness:
  "let t = ks_tasks (normalize_rt_tasks demo_env [1, 2, 3] demo_threads)
   in 100 \<le> p_prio (t 1) \<and> \<not> rt_policy (p_policy (t 1)) \<and> 0 \<le> p_static_prio (t 2) - 120 \<and>
      core_task (t 3) = core_task (ks_tasks demo_threads 3)"
proof -
  have ok: "\<forall>p\<in>set [1, 2, 3]. policy_matches (ks_tasks demo_threads p)"
    by (simp add: policy_matches_def demo_threads_def demo_tsk_def policy_defs)
  show ?thesis
    using normalize_rt_tasks_result [OF demo_env_ok ok]
    by (simp add: demo_threads_def demo_tsk_def Let_def)
qed

lemma sched_setnuma_result:
  assumes "env_ok E"
  shows "fst (sched_setnuma E p nid (nids, s)) = nids(p := nid)"
    and "same_core s (snd (sched_setnuma E p nid (nids, s)))"
  using assms by (simp_all add: sched_setnuma_def Let_def frame core_frame)

section \<open>The stop task of a CPU\<close>

text \<open>The result of \<open>sched_setscheduler_nocheck\<close> is ignored.\<close>

definition sched_set_stop_task ::
  "'x env \<Rightarrow> ('x kstate \<Rightarrow> 'x kstate) list \<Rightarrow> bool \<Rightarrow> cpu \<Rightarrow> tid option \<Rightarrow> 'x kstate \<Rightarrow> (crash + 'x kstate) option"
where
  "sched_set_stop_task E others irq c stop s =
     (let old_stop = rq_stop (ks_rqs s c);
          finish = (\<lambda>s. let s = upd_rq c (\<lambda>r. r\<lparr>rq_stop := stop\<rparr>) s
                        in case old_stop of None \<Rightarrow> s | Some p \<Rightarrow> upd_task p (\<lambda>t. t\<lparr>p_class := Rt_class\<rparr>) s)
      in case stop of
           None \<Rightarrow> Some (Inr (finish s))
         | Some p \<Rightarrow>
             map_option (\<lambda>r. bindC r (\<lambda>(_, s). Inr (finish (upd_task p (\<lambda>t. t\<lparr>p_class := Stop_class\<rparr>) s))))
               (sched_setscheduler_nocheck E others irq p SCHED_FIFO 99 s))"

text \<open>
  The new stop task is in the stop class and the old one in the real-time class; but a task that is set again as the stop
  task it already is ends in the real-time class, below the stop class's priority.
\<close>

lemma sched_set_stop_task_classes:
  assumes "sched_set_stop_task E others irq c stop s = Some (Inr t)"
  shows "rq_stop (ks_rqs t c) = stop"
    and "stop = Some p \<Longrightarrow> p_class (ks_tasks t p) = (if rq_stop (ks_rqs s c) = Some p then Rt_class else Stop_class)"
    and "rq_stop (ks_rqs s c) = Some q \<Longrightarrow> p_class (ks_tasks t q) = Rt_class"
  using assms
  by (cases "rq_stop (ks_rqs s c)"; cases stop;
      auto simp: sched_set_stop_task_def Let_def bindC_Inr_iff split: if_splits)+

end
