(* ===== verification/Sched_Debug.thy ===== *)
theory Sched_Debug
  imports Sched_Topology
begin

text \<open>
  The check of the scheduling domains that \<^verbatim>\<open>sched_debug\<close> asks for (\<^verbatim>\<open>core.c\<close>): \<open>sched_domain_debug\<close>
  prints the domains of a CPU with their groups, and an error where they are inconsistent. It is
  modelled on domains and groups of any kind that point to each other, null pointers
  included, so that it can be asked what it does on domains that are wrong.
\<close>

section \<open>Definitions\<close>

record ('d, 'g) dbg_domain =
  dd_span :: "cpu set"
  dd_flags :: u32
  dd_name :: string
  dd_parent :: "'d option"
  dd_groups :: "'g option"

record 'g dbg_group =
  dg_cpus :: "cpu set"
  dg_capacity :: nat
  dg_capacity_orig :: nat
  dg_next :: "'g option"

text \<open>\<open>cpulist\<close> is the text of a mask, \<open>cpulist_scnprintf\<close>.\<close>

record ('d, 'g) dbg_heap =
  dh_domain :: "'d \<Rightarrow> ('d, 'g) dbg_domain"
  dh_group :: "'g \<Rightarrow> 'g dbg_group"
  dh_cpulist :: "cpu set \<Rightarrow> string"

text \<open>
  The loop over the groups: \<open>first\<close> is \<open>sd->groups\<close>, \<open>m\<close> is \<open>groupmask\<close>. A \<open>break\<close> ends it as the
  condition does. \<open>None\<close>: it runs forever.
\<close>

definition group_error :: "bool \<Rightarrow> 'g dbg_group option \<Rightarrow> cpu set \<Rightarrow> kmsg option" where
  "group_error overlap gp m =
     (case gp of
        None \<Rightarrow> Some (Printk ''ERROR: group is NULL'' [])
      | Some g \<Rightarrow>
          if dg_capacity_orig g = 0 then Some (Printk ''ERROR: domain->cpu_capacity not set'' [])
          else if dg_cpus g = {} then Some (Printk ''ERROR: empty group'' [])
          else if \<not> overlap \<and> m \<inter> dg_cpus g \<noteq> {} then Some (Printk ''ERROR: repeated CPUs'' [])
          else None)"

definition group_text :: "('d, 'g) dbg_heap \<Rightarrow> 'g dbg_group \<Rightarrow> kmsg list" where
  "group_text H g =
     Printk '' %s'' [KStr (dh_cpulist H (dg_cpus g))] #
     (if dg_capacity g \<noteq> 1024 then [Printk '' (cpu_capacity = %d)'' [KInt (int (dg_capacity g))]] else [])"

partial_function (option) debug_groups ::
  "('d, 'g) dbg_heap \<Rightarrow> bool \<Rightarrow> 'g option \<Rightarrow> 'g option \<Rightarrow> cpu set \<Rightarrow> kmsg list \<Rightarrow> (cpu set \<times> kmsg list) option"
where
  "debug_groups H overlap first gp m out =
     (case group_error overlap (map_option (dh_group H) gp) m of
        Some e \<Rightarrow> Some (m, out @ [Printk '''' [], e])
      | None \<Rightarrow>
          let g = dh_group H (the gp);
              m = m \<union> dg_cpus g;
              out = out @ group_text H g
          in if dg_next g = first then Some (m, out) else debug_groups H overlap first (dg_next g) m out)"

definition sched_domain_debug_one ::
  "('d, 'g) dbg_heap \<Rightarrow> ('d, 'g) dbg_domain \<Rightarrow> cpu \<Rightarrow> nat \<Rightarrow> (crash + int \<times> kmsg list) option"
where
  "sched_domain_debug_one H sd c level =
     (let out = [Printk ''%*s domain %d: '' [KInt (int level), KStr '''', KInt (int level)]]
      in if dd_flags sd AND SD_LOAD_BALANCE = 0
         then Some (Inr (- 1, out @ [Printk ''does not load-balance'' []] @
                (if dd_parent sd \<noteq> None then [Printk ''ERROR: !SD_LOAD_BALANCE domain has parent'' []] else [])))
         else
           let out = out @ [Printk ''span %s level %s'' [KStr (dh_cpulist H (dd_span sd)), KStr (dd_name sd)]] @
                 (if c \<notin> dd_span sd then [Printk ''ERROR: domain->span does not contain CPU%d'' [KInt (int c)]] else [])
           in case dd_groups sd of
                None \<Rightarrow> Some (Inl NullDeref)
              | Some g \<Rightarrow>
                  let out = out @
                        (if c \<notin> dg_cpus (dh_group H g)
                         then [Printk ''ERROR: domain->groups does not contain CPU%d'' [KInt (int c)]] else []) @
                        [Printk ''%*s groups:'' [KInt (int (level + 1)), KStr '''']]
                  in case debug_groups H (dd_flags sd AND SD_OVERLAP \<noteq> 0) (dd_groups sd) (dd_groups sd) {} out of
                       None \<Rightarrow> None
                     | Some (m, out) \<Rightarrow>
                         Some (Inr (0, out @ [Printk '''' []] @
                           (if dd_span sd \<noteq> m then [Printk ''ERROR: groups don't span domain->span'' []] else []) @
                           (case dd_parent sd of
                              None \<Rightarrow> []
                            | Some p \<Rightarrow>
                                if \<not> m \<subseteq> dd_span (dh_domain H p)
                                then [Printk ''ERROR: parent span is not a superset of domain->span'' []] else []))))"

partial_function (option) debug_domains ::
  "('d, 'g) dbg_heap \<Rightarrow> cpu \<Rightarrow> nat \<Rightarrow> 'd \<Rightarrow> kmsg list \<Rightarrow> (crash + kmsg list) option"
where
  "debug_domains H c level sd out =
     (case sched_domain_debug_one H (dh_domain H sd) c level of
        None \<Rightarrow> None
      | Some (Inl e) \<Rightarrow> Some (Inl e)
      | Some (Inr (r, text)) \<Rightarrow>
          if r \<noteq> 0 then Some (Inr (out @ text))
          else case dd_parent (dh_domain H sd) of
                 None \<Rightarrow> Some (Inr (out @ text))
               | Some p \<Rightarrow> debug_domains H c (level + 1) p (out @ text))"

definition sched_domain_debug :: "bool \<Rightarrow> ('d, 'g) dbg_heap \<Rightarrow> 'd option \<Rightarrow> cpu \<Rightarrow> (crash + kmsg list) option" where
  "sched_domain_debug enabled H sd c =
     (if \<not> enabled then Some (Inr [])
      else case sd of
        None \<Rightarrow> Some (Inr [Printk ''CPU%d attaching NULL sched-domain.'' [KInt (int c)]])
      | Some d \<Rightarrow> debug_domains H c 0 d [Printk ''CPU%d attaching sched-domain:'' [KInt (int c)]])"

section \<open>Groups that are in order\<close>

definition is_error :: "kmsg \<Rightarrow> bool" where
  "is_error m \<longleftrightarrow> (case m of Printk f _ \<Rightarrow> take 5 f = ''ERROR'')"

definition next_group :: "('d, 'g) dbg_heap \<Rightarrow> 'g option \<Rightarrow> 'g option" where
  "next_group H p = (case p of None \<Rightarrow> None | Some g \<Rightarrow> dg_next (dh_group H g))"

abbreviation grp_cpus :: "('d, 'g) dbg_heap \<Rightarrow> 'g \<Rightarrow> cpu set" where
  "grp_cpus H \<equiv> \<lambda>g. dg_cpus (dh_group H g)"

lemma next_group_simps [simp]: "next_group H None = None" "next_group H (Some g) = dg_next (dh_group H g)"
  by (simp_all add: next_group_def)

text \<open>The groups the loop passes without an error.\<close>

primrec good_groups :: "('d, 'g) dbg_heap \<Rightarrow> bool \<Rightarrow> cpu set \<Rightarrow> 'g list \<Rightarrow> bool" where
  "good_groups H overlap m [] \<longleftrightarrow> True"
| "good_groups H overlap m (g # gs) \<longleftrightarrow>
     dg_capacity_orig (dh_group H g) \<noteq> 0 \<and> grp_cpus H g \<noteq> {} \<and> (overlap \<or> m \<inter> grp_cpus H g = {}) \<and>
     good_groups H overlap (m \<union> grp_cpus H g) gs"

lemma good_groups_overlap:
  "good_groups H True m gs \<longleftrightarrow> (\<forall>g\<in>set gs. dg_capacity_orig (dh_group H g) \<noteq> 0 \<and> grp_cpus H g \<noteq> {})"
  by (induction gs arbitrary: m) auto

abbreviation apart_groups :: "('d, 'g) dbg_heap \<Rightarrow> 'g list \<Rightarrow> bool" where
  "apart_groups H \<equiv> sorted_wrt (\<lambda>g h. grp_cpus H g \<inter> grp_cpus H h = {})"

lemma good_groups_apart:
  "good_groups H False m gs \<longleftrightarrow>
     (\<forall>g\<in>set gs. dg_capacity_orig (dh_group H g) \<noteq> 0 \<and> grp_cpus H g \<noteq> {} \<and> m \<inter> grp_cpus H g = {}) \<and>
     apart_groups H gs"
proof (induction gs arbitrary: m)
  case (Cons g gs)
  show ?case
    unfolding good_groups.simps Cons.IH Int_Un_distrib2 Un_empty ball_conj_distrib sorted_wrt.simps list.set ball_simps
    by iprover
qed simp

lemma apart_groups_distinct:
  "apart_groups H gs \<Longrightarrow> \<forall>g\<in>set gs. grp_cpus H g \<noteq> {} \<Longrightarrow> distinct gs"
  by (induction gs) auto

text \<open>A consistent domain of CPU \<open>c\<close>.\<close>

definition sane :: "('d, 'g) dbg_heap \<Rightarrow> cpu \<Rightarrow> ('d, 'g) dbg_domain \<Rightarrow> bool" where
  "sane H c sd \<longleftrightarrow> c \<in> dd_span sd \<and>
     (\<exists>gs. ring (next_group H) (map Some gs) \<and> Some (hd gs) = dd_groups sd \<and> c \<in> grp_cpus H (hd gs) \<and>
        (\<forall>g\<in>set gs. dg_capacity_orig (dh_group H g) \<noteq> 0 \<and> grp_cpus H g \<noteq> {}) \<and>
        apart_groups H gs \<and>
        (\<Union>g\<in>set gs. grp_cpus H g) = dd_span sd) \<and>
     (case dd_parent sd of None \<Rightarrow> True | Some p \<Rightarrow> dd_span sd \<subseteq> dd_span (dh_domain H p))"

text \<open>What the loop does on groups in order, until it is back at the first.\<close>

lemma debug_groups_good:
  "gs \<noteq> [] \<Longrightarrow> path (next_group H) p (map Some gs) first \<Longrightarrow> first \<notin> set (tl (map Some gs)) \<Longrightarrow>
   good_groups H overlap m gs \<Longrightarrow>
   debug_groups H overlap first p m out =
     Some (m \<union> (\<Union>g\<in>set gs. grp_cpus H g), out @ concat (map (\<lambda>g. group_text H (dh_group H g)) gs))"
proof (induction gs arbitrary: p m out)
  case (Cons g gs)
  let ?m = "m \<union> grp_cpus H g" and ?out = "out @ group_text H (dh_group H g)"
  from Cons.prems have p: "p = Some g" "path (next_group H) (next_group H (Some g)) (map Some gs) first"
    "group_error overlap (Some (dh_group H g)) m = None" "good_groups H overlap ?m gs"
    by (auto simp: group_error_def)
  have step: "debug_groups H overlap first p m out =
      (if next_group H (Some g) = first then Some (?m, ?out)
       else debug_groups H overlap first (next_group H (Some g)) ?m ?out)"
    using p(1,3) by (subst debug_groups.simps) (simp add: Let_def)
  show ?case
  proof (cases gs)
    case Nil
    with step p(2) show ?thesis by simp
  next
    case (Cons h hs)
    with Cons.prems(3) p(2) have "next_group H (Some g) \<noteq> first" "first \<notin> set (tl (map Some gs))" by auto
    with Cons.IH [of "next_group H (Some g)" ?m ?out] step p(2,4) Cons show ?thesis by (simp add: Un_assoc)
  qed
qed simp

lemma texts_no_error: "x \<in> set (group_text H g) \<Longrightarrow> \<not> is_error x"
  by (auto simp: group_text_def is_error_def split: if_splits)

text \<open>
  Without \<open>SD_OVERLAP\<close> the loop ends whatever the groups point to, because each round adds new CPUs.
\<close>

lemma debug_groups_ends:
  assumes bound: "\<forall>g. grp_cpus H g \<subseteq> {..<n}"
  shows "m \<subseteq> {..<n} \<Longrightarrow>
    (\<exists>gs. gs \<noteq> [] \<and> path (next_group H) p (map Some gs) first \<and> first \<notin> set (tl (map Some gs)) \<and>
       good_groups H False m gs) \<or>
    (\<exists>m' out'. debug_groups H False first p m out = Some (m', out') \<and> (\<exists>x\<in>set out'. is_error x))"
proof (induction "card ({..<n} - m)" arbitrary: m p out rule: less_induct)
  case less
  show ?case
  proof (cases "group_error False (map_option (dh_group H) p) m")
    case (Some e)
    then have "is_error e" by (auto simp: group_error_def is_error_def split: option.splits if_splits)
    with Some show ?thesis by (subst debug_groups.simps) auto
  next
    case None
    then obtain g where g: "p = Some g" "dg_capacity_orig (dh_group H g) \<noteq> 0" "grp_cpus H g \<noteq> {}"
      "m \<inter> grp_cpus H g = {}"
      by (auto simp: group_error_def split: option.splits if_splits)
    let ?m = "m \<union> grp_cpus H g" and ?out = "out @ group_text H (dh_group H g)" and ?q = "next_group H (Some g)"
    have step: "debug_groups H False first p m out =
        (if ?q = first then Some (?m, ?out) else debug_groups H False first ?q ?m ?out)"
      using None g(1) by (subst debug_groups.simps) (simp add: Let_def)
    have m: "?m \<subseteq> {..<n}" using less.prems bound by auto
    show ?thesis
    proof (cases "?q = first")
      case True
      with g show ?thesis by (intro disjI1 exI [of _ "[g]"]) simp
    next
      case False
      have "{..<n} - ?m \<subset> {..<n} - m" using g(3,4) bound by blast
      then have "card ({..<n} - ?m) < card ({..<n} - m)" by (intro psubset_card_mono) simp_all
      from less.hyps [OF this m, of ?q ?out] show ?thesis
      proof
        assume "\<exists>gs. gs \<noteq> [] \<and> path (next_group H) ?q (map Some gs) first \<and> first \<notin> set (tl (map Some gs)) \<and>
          good_groups H False ?m gs"
        then obtain gs where gs: "gs \<noteq> []" "path (next_group H) ?q (map Some gs) first"
          "first \<notin> set (tl (map Some gs))" "good_groups H False ?m gs" by blast
        from gs(1,2) False have "first \<notin> set (map Some gs)"
          using gs(3) by (cases gs) auto
        with gs g show ?thesis by (intro disjI1 exI [of _ "g # gs"]) simp
      qed (use step False in simp)
    qed
  qed
qed

text \<open>The groups of a consistent domain, as the loop sees them.\<close>

lemma sane_groups:
  assumes "dd_groups sd = Some g"
  shows "(\<exists>gs. gs \<noteq> [] \<and> path (next_group H) (Some g) (map Some gs) (Some g) \<and> Some g \<notin> set (tl (map Some gs)) \<and>
       good_groups H False {} gs \<and> (\<Union>g\<in>set gs. grp_cpus H g) = dd_span sd) \<longleftrightarrow>
    (\<exists>gs. ring (next_group H) (map Some gs) \<and> Some (hd gs) = dd_groups sd \<and>
        (\<forall>g\<in>set gs. dg_capacity_orig (dh_group H g) \<noteq> 0 \<and> grp_cpus H g \<noteq> {}) \<and>
        apart_groups H gs \<and>
        (\<Union>g\<in>set gs. grp_cpus H g) = dd_span sd)"
    (is "?l \<longleftrightarrow> ?r")
proof
  assume ?l
  then obtain gs where gs: "gs \<noteq> []" "path (next_group H) (Some g) (map Some gs) (Some g)"
    "good_groups H False {} gs" "(\<Union>g\<in>set gs. grp_cpus H g) = dd_span sd" by blast
  have "hd gs = g" using gs(1,2) by (cases gs) auto
  moreover have "distinct gs" using gs(3) unfolding good_groups_apart by (blast intro: apart_groups_distinct)
  ultimately show ?r
    using gs assms unfolding good_groups_apart ring_def by (intro exI [of _ gs]) (simp add: distinct_map hd_map)
next
  assume ?r
  then obtain gs where gs: "ring (next_group H) (map Some gs)" "Some (hd gs) = dd_groups sd"
    "\<forall>g\<in>set gs. dg_capacity_orig (dh_group H g) \<noteq> 0 \<and> grp_cpus H g \<noteq> {}"
    "apart_groups H gs"
    "(\<Union>g\<in>set gs. grp_cpus H g) = dd_span sd" by blast
  have ne: "gs \<noteq> []" using gs(1) by (auto simp: ring_def)
  with gs(2) assms have hd: "hd gs = g" by simp
  then have "Some g \<notin> set (tl (map Some gs))" using gs(1) ne by (cases gs) (auto simp: ring_def)
  with gs ne hd show ?l
    unfolding good_groups_apart ring_def by (intro exI [of _ gs]) (simp add: hd_map)
qed

section \<open>The check finds every inconsistency\<close>

abbreviation parent_covers :: "('d, 'g) dbg_heap \<Rightarrow> ('d, 'g) dbg_domain \<Rightarrow> cpu set \<Rightarrow> bool" where
  "parent_covers H sd m \<equiv> (case dd_parent sd of None \<Rightarrow> True | Some p \<Rightarrow> m \<subseteq> dd_span (dh_domain H p))"

lemma debug_one_split:
  assumes "dd_flags sd AND SD_LOAD_BALANCE \<noteq> 0" "dd_flags sd AND SD_OVERLAP = 0" "dd_groups sd = Some g"
  obtains pre post where
    "sched_domain_debug_one H sd c level = map_option (\<lambda>(m, out). Inr (0, out @ post m)) (debug_groups H False (Some g) (Some g) {} pre)"
    "(\<exists>x\<in>set pre. is_error x) \<longleftrightarrow> c \<notin> dd_span sd \<or> c \<notin> grp_cpus H g"
    "\<forall>m. (\<exists>x\<in>set (post m). is_error x) \<longleftrightarrow> dd_span sd \<noteq> m \<or> \<not> parent_covers H sd m"
proof -
  let ?pre = "[Printk ''%*s domain %d: '' [KInt (int level), KStr '''', KInt (int level)],
      Printk ''span %s level %s'' [KStr (dh_cpulist H (dd_span sd)), KStr (dd_name sd)]] @
      (if c \<notin> dd_span sd then [Printk ''ERROR: domain->span does not contain CPU%d'' [KInt (int c)]] else []) @
      (if c \<notin> grp_cpus H g then [Printk ''ERROR: domain->groups does not contain CPU%d'' [KInt (int c)]] else []) @
      [Printk ''%*s groups:'' [KInt (int (level + 1)), KStr '''']]"
  let ?post = "\<lambda>m. [Printk '''' []] @
      (if dd_span sd \<noteq> m then [Printk ''ERROR: groups don't span domain->span'' []] else []) @
      (case dd_parent sd of None \<Rightarrow> [] | Some p \<Rightarrow>
         if \<not> m \<subseteq> dd_span (dh_domain H p) then [Printk ''ERROR: parent span is not a superset of domain->span'' []] else [])"
  show ?thesis
  proof (rule that [of ?post ?pre])
    show "sched_domain_debug_one H sd c level =
        map_option (\<lambda>(m, out). Inr (0, out @ ?post m)) (debug_groups H False (Some g) (Some g) {} ?pre)"
      using assms by (simp add: sched_domain_debug_one_def Let_def split: option.split)
    show "(\<exists>x\<in>set ?pre. is_error x) \<longleftrightarrow> c \<notin> dd_span sd \<or> c \<notin> grp_cpus H g"
      by (cases "c \<in> dd_span sd"; cases "c \<in> grp_cpus H g") (simp_all add: is_error_def)
    show "\<forall>m. (\<exists>x\<in>set (?post m). is_error x) \<longleftrightarrow> dd_span sd \<noteq> m \<or> \<not> parent_covers H sd m"
      by (intro allI, case_tac "dd_span sd = m"; cases "dd_parent sd") (auto simp: is_error_def)
  qed
qed

lemma debug_one_result:
  assumes "dd_flags sd AND SD_LOAD_BALANCE \<noteq> 0" "dd_flags sd AND SD_OVERLAP = 0" "dd_groups sd = Some g"
    and bound: "\<forall>g. grp_cpus H g \<subseteq> {..<n}"
  obtains out where "sched_domain_debug_one H sd c level = Some (Inr (0, out))"
    "(\<exists>x\<in>set out. is_error x) \<longleftrightarrow> \<not> sane H c sd"
proof -
  obtain pre post where split:
    "sched_domain_debug_one H sd c level = map_option (\<lambda>(m, out). Inr (0, out @ post m)) (debug_groups H False (Some g) (Some g) {} pre)"
    "(\<exists>x\<in>set pre. is_error x) \<longleftrightarrow> c \<notin> dd_span sd \<or> c \<notin> grp_cpus H g"
    "\<forall>m. (\<exists>x\<in>set (post m). is_error x) \<longleftrightarrow> dd_span sd \<noteq> m \<or> \<not> parent_covers H sd m"
    by (rule debug_one_split [OF assms(1,2,3)])
  let ?loop = "debug_groups H False (Some g) (Some g) {} pre"
  let ?good = "\<lambda>gs. gs \<noteq> [] \<and> path (next_group H) (Some g) (map Some gs) (Some g) \<and> Some g \<notin> set (tl (map Some gs)) \<and>
       good_groups H False {} gs"
  let ?union = "\<lambda>gs. \<Union>g\<in>set gs. grp_cpus H g"
  have run: "?loop = Some (?union gs, pre @ concat (map (\<lambda>g. group_text H (dh_group H g)) gs))" if "?good gs" for gs
    using debug_groups_good [of gs H "Some g" "Some g" False "{}" pre] that by simp
  have sane: "sane H c sd \<longleftrightarrow> c \<in> dd_span sd \<and> c \<in> grp_cpus H g \<and> (\<exists>gs. ?good gs \<and> ?union gs = dd_span sd) \<and>
      parent_covers H sd (dd_span sd)"
  proof -
    let ?rest = "\<lambda>gs. (\<forall>g\<in>set gs. dg_capacity_orig (dh_group H g) \<noteq> 0 \<and> grp_cpus H g \<noteq> {}) \<and>
        apart_groups H gs \<and> ?union gs = dd_span sd"
    have "(\<exists>gs. ring (next_group H) (map Some gs) \<and> Some (hd gs) = dd_groups sd \<and> c \<in> grp_cpus H (hd gs) \<and> ?rest gs) \<longleftrightarrow>
        c \<in> grp_cpus H g \<and> (\<exists>gs. ring (next_group H) (map Some gs) \<and> Some (hd gs) = dd_groups sd \<and> ?rest gs)"
      unfolding assms(3) option.inject by blast
    then show ?thesis
      unfolding sane_def sane_groups [OF assms(3), symmetric] by (simp only: conj_assoc)
  qed
  have texts: "\<not> (\<exists>x\<in>set (concat (map (\<lambda>g. group_text H (dh_group H g)) gs)). is_error x)" for gs
    using texts_no_error by auto
  from debug_groups_ends [OF bound, of "{}" "Some g" "Some g" pre]
  consider gs where "?good gs" | m' out' where "?loop = Some (m', out')" "\<exists>x\<in>set out'. is_error x" by blast
  then show ?thesis
  proof cases
    case 1
    let ?out = "(pre @ concat (map (\<lambda>g. group_text H (dh_group H g)) gs)) @ post (?union gs)"
    have one: "sched_domain_debug_one H sd c level = Some (Inr (0, ?out))"
      using split(1) run [OF 1] by simp
    have union: "(\<exists>gs'. ?good gs' \<and> ?union gs' = dd_span sd) \<longleftrightarrow> ?union gs = dd_span sd"
      using run 1 by (metis option.inject prod.inject)
    have "sane H c sd \<longleftrightarrow> c \<in> dd_span sd \<and> c \<in> grp_cpus H g \<and> ?union gs = dd_span sd \<and> parent_covers H sd (?union gs)"
      unfolding sane union by (cases "dd_parent sd") auto
    moreover have "(\<exists>x\<in>set ?out. is_error x) \<longleftrightarrow> (\<exists>x\<in>set pre. is_error x) \<or> (\<exists>x\<in>set (post (?union gs)). is_error x)"
      using texts [of gs] unfolding set_append bex_Un by blast
    ultimately have "(\<exists>x\<in>set ?out. is_error x) \<longleftrightarrow> \<not> sane H c sd"
      using split(2) spec [OF split(3), of "?union gs"] by blast
    with one show ?thesis by (rule that)
  next
    case 2
    have one: "sched_domain_debug_one H sd c level = Some (Inr (0, out' @ post m'))"
      using split(1) 2(1) by simp
    have "\<not> sane H c sd"
    proof
      assume s: "sane H c sd"
      then obtain gs where gs: "?good gs" unfolding sane by blast
      have "\<not> (\<exists>x\<in>set pre. is_error x)" using s split(2) unfolding sane by blast
      with texts [of gs] have "\<not> (\<exists>x\<in>set (pre @ concat (map (\<lambda>g. group_text H (dh_group H g)) gs)). is_error x)"
        unfolding set_append bex_Un by blast
      moreover have "out' = pre @ concat (map (\<lambda>g. group_text H (dh_group H g)) gs)"
        using run [OF gs] 2(1) by simp
      ultimately show False using 2(2) by blast
    qed
    moreover have "\<exists>x\<in>set (out' @ post m'). is_error x" using 2(2) by auto
    ultimately show ?thesis by (intro that [OF one]) simp
  qed
qed

text \<open>The chain of domains from \<open>d\<close> upwards.\<close>

definition next_domain :: "('d, 'g) dbg_heap \<Rightarrow> 'd option \<Rightarrow> 'd option" where
  "next_domain H p = (case p of None \<Rightarrow> None | Some d \<Rightarrow> dd_parent (dh_domain H d))"

lemma next_domain_simps [simp]: "next_domain H None = None" "next_domain H (Some d) = dd_parent (dh_domain H d)"
  by (simp_all add: next_domain_def)

lemma debug_domains_result:
  assumes bound: "\<forall>g. grp_cpus H g \<subseteq> {..<n}"
  shows "ds \<noteq> [] \<Longrightarrow> path (next_domain H) (Some d) (map Some ds) None \<Longrightarrow>
    \<forall>e\<in>set ds. dd_flags (dh_domain H e) AND SD_LOAD_BALANCE \<noteq> 0 \<and> dd_flags (dh_domain H e) AND SD_OVERLAP = 0 \<and>
       dd_groups (dh_domain H e) \<noteq> None \<Longrightarrow>
    \<exists>out'. debug_domains H c level d out = Some (Inr out') \<and>
      ((\<exists>x\<in>set out'. is_error x) \<longleftrightarrow> (\<exists>x\<in>set out. is_error x) \<or> \<not> (\<forall>e\<in>set ds. sane H c (dh_domain H e)))"
proof (induction ds arbitrary: d level out)
  case (Cons e ds)
  then have d: "d = e" by simp
  have p: "path (next_domain H) (dd_parent (dh_domain H e)) (map Some ds) None"
    using Cons.prems(2) by simp
  obtain g where g: "dd_groups (dh_domain H e) = Some g" using Cons.prems(3) by auto
  obtain ms where ms: "sched_domain_debug_one H (dh_domain H e) c level = Some (Inr (0, ms))"
    "(\<exists>x\<in>set ms. is_error x) \<longleftrightarrow> \<not> sane H c (dh_domain H e)"
    by (rule debug_one_result [OF _ _ g bound, of c level]) (use Cons.prems(3) in simp_all)
  show ?case
  proof (cases ds)
    case Nil
    then have "dd_parent (dh_domain H e) = None" using p by simp
    then have "debug_domains H c level d out = Some (Inr (out @ ms))"
      using ms(1) d by (subst debug_domains.simps) simp
    with ms(2) Nil show ?thesis by auto
  next
    case ds: (Cons e' es)
    then have "dd_parent (dh_domain H e) = Some e'" using p by simp
    then have step: "debug_domains H c level d out = debug_domains H c (level + 1) e' (out @ ms)"
      using ms(1) d by (subst debug_domains.simps) simp
    have "path (next_domain H) (Some e') (map Some ds) None" using p ds by simp
    with Cons.IH [of e' "level + 1" "out @ ms"] Cons.prems(3) ds
    obtain out' where "debug_domains H c (level + 1) e' (out @ ms) = Some (Inr out')"
      "(\<exists>x\<in>set out'. is_error x) \<longleftrightarrow> (\<exists>x\<in>set (out @ ms). is_error x) \<or> \<not> (\<forall>e\<in>set ds. sane H c (dh_domain H e))"
      by auto
    with step ms(2) show ?thesis by auto
  qed
qed simp


text \<open>Two CPUs in one domain of two groups, in order, and the same with the second group's \<open>next\<close> astray.\<close>

definition demo_debug :: "nat \<Rightarrow> (unit, nat) dbg_heap" where
  "demo_debug back =
     \<lparr>dh_domain = (\<lambda>_. \<lparr>dd_span = {0, 1}, dd_flags = 1, dd_name = ''MC'', dd_parent = None, dd_groups = Some 0\<rparr>),
      dh_group = (\<lambda>g. \<lparr>dg_cpus = (if g = 0 then {0} else if g = 1 then {1} else {}), dg_capacity = 1024,
                         dg_capacity_orig = 1024, dg_next = Some (if g = 0 then 1 else back)\<rparr>),
      dh_cpulist = (\<lambda>_. ''0'')\<rparr>"

lemma demo_debug_sane: "sane (demo_debug 0) 0 (dh_domain (demo_debug 0) ())"
  unfolding sane_def
  by (intro conjI exI [of _ "[0, 1]"]) (auto simp: demo_debug_def ring_def)


text \<open>
  The loop has a test for a null group, but \<open>sd->groups\<close> is followed before: a load-balancing
  domain without groups is not reported, it crashes the check.
\<close>

lemma debug_null_groups:
  assumes "dd_flags sd AND SD_LOAD_BALANCE \<noteq> 0" "dd_groups sd = None"
  shows "sched_domain_debug_one H sd c level = Some (Inl NullDeref)"
  using assms by (simp add: sched_domain_debug_one_def)

text \<open>
  An overlapping domain is not checked for repeated CPUs. If a group points to itself and is not
  the first, the loop never ends.
\<close>

lemma debug_overlap_astray:
  assumes "dg_next (dh_group H g) = Some g" "Some g \<noteq> first" "dg_capacity_orig (dh_group H g) \<noteq> 0" "grp_cpus H g \<noteq> {}"
  shows "debug_groups H True first (Some g) m out = None"
proof -
  let ?stuck = "\<lambda>H overlap first gp. overlap \<and> gp = Some g \<and> Some g \<noteq> first \<and> dg_next (dh_group H g) = Some g \<and>
      dg_capacity_orig (dh_group H g) \<noteq> 0 \<and> grp_cpus H g \<noteq> {}"
  have "\<not> ?stuck H True first (Some g)" if "debug_groups H True first (Some g) m out = Some r" for r
  proof (rule debug_groups.raw_induct [of "\<lambda>H overlap first gp m out r. \<not> ?stuck H overlap first gp", OF _ that])
    fix loop :: "('b, 'a) dbg_heap \<Rightarrow> bool \<Rightarrow> 'a option \<Rightarrow> 'a option \<Rightarrow> nat set \<Rightarrow> kmsg list \<Rightarrow> (nat set \<times> kmsg list) option"
      and H overlap first gp m out r
    assume IH: "\<And>H overlap first gp m out r. loop H overlap first gp m out = Some r \<Longrightarrow> \<not> ?stuck H overlap first gp"
      and step: "(case group_error overlap (map_option (dh_group H) gp) m of
        Some e \<Rightarrow> Some (m, out @ [Printk '''' [], e])
      | None \<Rightarrow>
          let g = dh_group H (the gp);
              m = m \<union> dg_cpus g;
              out = out @ group_text H g
          in if dg_next g = first then Some (m, out) else loop H overlap first (dg_next g) m out) = Some r"
    show "\<not> ?stuck H overlap first gp"
    proof
      assume stuck: "?stuck H overlap first gp"
      then have "loop H overlap first gp (m \<union> grp_cpus H g) (out @ group_text H (dh_group H g)) = Some r"
        using step by (simp add: group_error_def Let_def)
      with IH stuck show False by blast
    qed
  qed
  with assms show ?thesis by (cases "debug_groups H True first (Some g) m out") auto
qed

section \<open>The domains that the construction leaves\<close>

definition topo_domain_view :: "(level \<Rightarrow> string) \<Rightarrow> topo_domain \<Rightarrow> (level \<times> cpu, grp) dbg_domain" where
  "topo_domain_view names d =
     \<lparr>dd_span = td_span d, dd_flags = td_flags d, dd_name = names (nat (td_level d)), dd_parent = td_parent d,
      dd_groups = td_groups d\<rparr>"

definition topo_heap :: "(level \<Rightarrow> string) \<Rightarrow> (cpu set \<Rightarrow> string) \<Rightarrow> topo \<Rightarrow> (level \<times> cpu, grp) dbg_heap" where
  "topo_heap names cpulist s =
     \<lparr>dh_domain = (\<lambda>(l, c). topo_domain_view names (tp_sd s l c)),
      dh_group = (\<lambda>g. let lc = gr_sgc (tp_gr s g); cap = tp_cap s (fst lc) (snd lc)
         in \<lparr>dg_cpus = gr_cpus (tp_gr s g), dg_capacity = cp_capacity cap, dg_capacity_orig = cp_capacity_orig cap,
             dg_next = Some (gr_next (tp_gr s g))\<rparr>),
      dh_cpulist = cpulist\<rparr>"

lemma path_map_Some: "(\<And>x. n (Some x) = Some (m x)) \<Longrightarrow> path n (Some a) (map Some xs) (Some b) = path m a xs b"
  by (induction xs arbitrary: a) auto

lemma topo_heap_ring: "ring (next_group (topo_heap names cpulist s)) (map Some gs) = ring (nxt s) gs"
  by (cases "gs = []")
    (simp_all add: ring_def distinct_map hd_map path_map_Some [where m = "nxt s"] topo_heap_def Let_def)

lemma topo_heap_simps [simp]:
  "dd_span (dh_domain (topo_heap names cpulist s) (l, c)) = td_span (tp_sd s l c)"
  "dd_parent (dh_domain (topo_heap names cpulist s) (l, c)) = td_parent (tp_sd s l c)"
  "dd_groups (dh_domain (topo_heap names cpulist s) (l, c)) = td_groups (tp_sd s l c)"
  "dg_cpus (dh_group (topo_heap names cpulist s) g) = gr_cpus (tp_gr s g)"
  by (simp_all add: topo_heap_def topo_domain_view_def Let_def)

text \<open>
  The domains that \<open>build_sched_groups\<close> sets up pass the check, once the capacities of their groups are
  set: \<open>t\<close> is a later state with the same spans, links and groups.
\<close>

theorem built_domain_sane:
  assumes "span = td_span (tp_sd s l c)" "span \<subseteq> {..<te_ncpus T}" "span \<noteq> {}" "c = cpu_first T span"
    and "\<forall>g. cpus_of s (Sg l g) = {}" "build_sched_groups T l c s = Inr s'"
    and t: "nxt t = nxt s'" "cpus_of t = cpus_of s'" "td_span (tp_sd t l c) = span"
    "td_groups (tp_sd t l c) = td_groups (tp_sd s' l c)"
    and cap: "\<forall>g. dg_capacity_orig (dh_group (topo_heap names cpulist t) g) \<noteq> 0"
    and parent: "\<forall>l' c'. td_parent (tp_sd t l c) = Some (l', c') \<longrightarrow> span \<subseteq> td_span (tp_sd t l' c')"
  shows "sane (topo_heap names cpulist t) c (dh_domain (topo_heap names cpulist t) (l, c))"
proof -
  let ?H = "topo_heap names cpulist t" and ?g = "Sg l (group_of T l s c)"
  obtain s1 gs where s1: "build_sched_groups T l c s = Inr s1" "ring (nxt s1) gs"
    "set gs = Sg l ` group_of T l s ` span"
    "\<forall>g \<in> group_of T l s ` span. cpus_of s1 (Sg l g) = {j \<in> span. group_of T l s j = g}"
    "td_groups (tp_sd s1 l c) = Some ?g"
    by (rule build_sched_groups_ring [OF assms(1-5)]) (rule that, assumption+)
  have "s1 = s'" using s1(1) assms(6) by simp
  then have t2: "cpus_of t g = cpus_of s1 g" for g using fun_cong [OF t(2), of g] by simp
  have "c \<in> set (cpu_list T span)"
    using assms(2,3,4) set_cpu_list [OF assms(2)] by (auto simp: cpu_first_def split: list.splits)
  then have c: "c \<in> span" using set_cpu_list [OF assms(2)] by simp
  obtain hs where hs: "ring (nxt s1) hs" "hd hs = ?g" "set hs = set gs"
    by (rule ring_from [OF s1(2), of ?g]) (use c s1(3) in auto)
  have cpus: "cpus_of t g = {j \<in> span. Sg l (group_of T l s j) = g} \<and> cpus_of t g \<noteq> {}" if "g \<in> set hs" for g
    using that s1(4) unfolding t2 hs(3) s1(3) by auto
  have d: "distinct hs" using hs(1) by (simp add: ring_def)
  have apart: "apart_groups ?H hs"
    using cpus d unfolding topo_heap_simps by (induction hs) auto
  have "(\<Union>g\<in>set hs. cpus_of t g) = (\<Union>g\<in>set hs. {j \<in> span. Sg l (group_of T l s j) = g})"
    using cpus by (intro SUP_cong) auto
  also have "\<dots> = span" unfolding hs(3) s1(3) by auto
  finally have union: "(\<Union>g\<in>set hs. cpus_of t g) = span" .
  have ne: "\<forall>g\<in>set hs. cpus_of t g \<noteq> {}" using cpus by blast
  have "?g \<in> set hs" unfolding hs(3) s1(3) using c by auto
  then have first: "c \<in> cpus_of t (hd hs)" using cpus [of ?g] c hs(2) by simp
  have groups: "Some (hd hs) = td_groups (tp_sd t l c)"
    using hs(2) t(4) s1(5) \<open>s1 = s'\<close> by simp
  have ring: "ring (next_group ?H) (map Some hs)"
    using hs(1) t(1) \<open>s1 = s'\<close> by (simp add: topo_heap_ring)
  have par: "case td_parent (tp_sd t l c) of None \<Rightarrow> True | Some p \<Rightarrow> span \<subseteq> dd_span (dh_domain ?H p)"
    using parent by (cases "td_parent (tp_sd t l c)") auto
  show ?thesis
    unfolding sane_def topo_heap_simps t(3)
    using c ring groups first apart [unfolded topo_heap_simps] union par cap ne by blast
qed

theorem built_domain_sane_witness:
  "\<exists>t. sane (topo_heap (\<lambda>_. ''MC'') (\<lambda>_. ''0'') t) 0 (dh_domain (topo_heap (\<lambda>_. ''MC'') (\<lambda>_. ''0'') t) (1, 0)) \<and>
     td_span (tp_sd t 1 0) = {0, 1, 2, 3} \<and> cpus_of t (Sg 1 2) = {2, 3}"
proof -
  have u: "[0..<4] = [0, 1, 2, 3 :: nat]" by (simp add: upt_conv_Cons)
  have span: "{0, 1, 2, 3} = td_span (tp_sd demo_package 1 0)" "{0, 1, 2, 3} \<subseteq> {..<te_ncpus demo_topo_env}"
    by (auto simp: demo_package_def demo_topo_env_def)
  have first: "0 = cpu_first demo_topo_env {0, 1, 2, 3}"
    by (simp add: cpu_first_def cpu_list_def demo_topo_env_def u)
  have g: "group_of demo_topo_env 1 demo_package i = (if i < 2 then 0 else 2)" for i
    by (simp add: group_of_def demo_package_def cpu_first_def cpu_list_def demo_topo_env_def u)
  have empty: "\<forall>g. cpus_of demo_package (Sg 1 g) = {}" by (simp add: demo_package_def blank_topo_def)
  obtain s' where s': "build_sched_groups demo_topo_env 1 0 demo_package = Inr s'"
    "\<forall>g \<in> group_of demo_topo_env 1 demo_package ` {0, 1, 2, 3}.
       cpus_of s' (Sg 1 g) = {j \<in> {0, 1, 2, 3}. group_of demo_topo_env 1 demo_package j = g}"
    "\<forall>l' c'. td_span (tp_sd s' l' c') = td_span (tp_sd demo_package l' c') \<and>
       td_child (tp_sd s' l' c') = td_child (tp_sd demo_package l' c') \<and>
       td_parent (tp_sd s' l' c') = td_parent (tp_sd demo_package l' c')"
    by (rule build_sched_groups_ring [OF span _ first empty]) (simp, rule that, assumption+)
  define t where "t = s'\<lparr>tp_cap := (\<lambda>_ _. \<lparr>cp_ref = 1, cp_mask = UNIV, cp_capacity = 1024, cp_capacity_orig = 1024,
      cp_nr_busy = 0\<rparr>)\<rparr>"
  have span': "td_span (tp_sd t 1 0) = {0, 1, 2, 3}" using s'(3) span(1) by (simp add: t_def)
  have top: "td_parent (tp_sd t 1 0) = None" using s'(3) by (simp add: t_def demo_package_def blank_domain_def)
  have "sane (topo_heap (\<lambda>_. ''MC'') (\<lambda>_. ''0'') t) 0 (dh_domain (topo_heap (\<lambda>_. ''MC'') (\<lambda>_. ''0'') t) (1, 0))"
    by (rule built_domain_sane [OF span _ first empty s'(1)])
      (use span' top in \<open>simp_all add: t_def topo_heap_def Let_def\<close>)
  moreover have "cpus_of t (Sg 1 2) = {2, 3}"
    using s'(2) by (auto simp: t_def g [simplified])
  ultimately show ?thesis using span' by blast
qed

end
