(* ===== verification/Sched_Boot.thy ===== *)
theory Sched_Boot
  imports Sched_Build Sched_Numa
begin

text \<open>
  The start of the scheduler and what suspending does to its domains (\<^verbatim>\<open>core.c\<close>): \<open>sched_init\<close>, which
  sets up the runqueues and makes the boot CPU's task its idle task, \<open>migration_init\<close>,
  \<open>sched_init_smp\<close>, which builds the first domains, and the notifiers \<open>cpuset_cpu_active\<close> and
  \<open>cpuset_cpu_inactive\<close>.
\<close>

section \<open>Memory for the root task group\<close>

text \<open>
  One allocation is cut into the arrays of pointers and, with \<^verbatim>\<open>CONFIG_CPUMASK_OFFSTACK\<close>, a mask per
  CPU: \<open>ids\<close> is \<open>nr_cpu_ids\<close>, \<open>possible\<close> the CPUs, \<open>msz\<close> is \<open>cpumask_size()\<close>.
\<close>

definition boot_alloc_size :: "bool \<Rightarrow> bool \<Rightarrow> bool \<Rightarrow> nat \<Rightarrow> cpu list \<Rightarrow> nat \<Rightarrow> u64" where
  "boot_alloc_size fair rt offstack ids possible msz =
     (let sz = 0;
          sz = (if fair then sz + of_nat (2 * ids * 8) else sz);
          sz = (if rt then sz + of_nat (2 * ids * 8) else sz)
      in if offstack then sz + of_nat (length possible * msz) else sz)"

datatype boot_area = Root_se | Root_cfs_rq | Root_rt_se | Root_rt_rq | Balance_mask cpu

type_synonym carved = "(boot_area \<times> u64) list \<times> u64"

definition carve :: "boot_area \<Rightarrow> nat \<Rightarrow> carved \<Rightarrow> carved" where
  "carve a n = (\<lambda>(areas, ptr). (areas @ [(a, ptr)], ptr + of_nat n))"

definition boot_carve :: "bool \<Rightarrow> bool \<Rightarrow> bool \<Rightarrow> nat \<Rightarrow> cpu list \<Rightarrow> nat \<Rightarrow> u64 \<Rightarrow> carved" where
  "boot_carve fair rt offstack ids possible msz ptr =
     (let st = ([], ptr);
          st = (if fair then carve Root_cfs_rq (ids * 8) (carve Root_se (ids * 8) st) else st);
          st = (if rt then carve Root_rt_rq (ids * 8) (carve Root_rt_se (ids * 8) st) else st)
      in if offstack then fold (\<lambda>i. carve (Balance_mask i) msz) possible st else st)"

section \<open>Runqueues and root domains at boot\<close>

text \<open>
  \<open>init_defrootdomain\<close> does not look at the error; whether the masks are there is the first result.
  \<open>fresh\<close> is what memory a new mask is in holds (the masks are not cleared), \<open>dl\<close> what \<open>init_dl_bw\<close> sets.
\<close>

definition init_defrootdomain ::
  "(rd_part \<Rightarrow> bool) \<Rightarrow> cpu set \<times> cpu set \<Rightarrow> dl_bw \<Rightarrow> nat \<Rightarrow> 'x kstate \<Rightarrow> bool \<times> 'x kstate"
where
  "init_defrootdomain ok fresh dl rd s =
     (let (err, live) = init_rootdomain ok;
          s = upd_rd rd (\<lambda>_. \<lparr>rd_span = fst fresh, rd_online = snd fresh, rd_dl_bw = dl, rd_refcount = 0\<rparr>) s
      in (err = 0, upd_rd rd (\<lambda>d. d\<lparr>rd_refcount := 1\<rparr>) s))"

text \<open>\<open>rq_attach_root\<close> on a runqueue whose root domain is null.\<close>

definition rq_attach_first :: "'x class_hook \<Rightarrow> cpu \<Rightarrow> nat \<Rightarrow> 'x kstate \<Rightarrow> 'x kstate" where
  "rq_attach_first up c rd s =
     (let s = upd_rd rd (\<lambda>d. d\<lparr>rd_refcount := rd_refcount d + 1\<rparr>) s;
          s = upd_rq c (\<lambda>r. r\<lparr>rq_rd := rd\<rparr>) s;
          s = upd_rd rd (\<lambda>d. d\<lparr>rd_span := insert c (rd_span d)\<rparr>) s
      in do_if (c \<in> ks_active s) (set_rq_online up c) s)"

text \<open>
  The loop over the possible CPUs, for the fields the store keeps; \<open>init_class\<close> stands for the
  queues of the classes, \<open>cost\<close> is \<open>sysctl_sched_migration_cost\<close>.
\<close>

definition init_rq ::
  "(cpu \<Rightarrow> 'x kstate \<Rightarrow> 'x kstate) \<Rightarrow> 'x class_hook \<Rightarrow> u64 \<Rightarrow> nat \<Rightarrow> cpu \<Rightarrow> 'x kstate \<Rightarrow> 'x kstate"
where
  "init_rq init_class up cost rd i s =
     (let s = upd_rq i (\<lambda>r. r\<lparr>rq_nr_running := 0\<rparr>) s;
          s = init_class i s;
          s = upd_rq i (\<lambda>r. r\<lparr>rq_cpu_load0 := 0\<rparr>) s;
          s = upd_rq i (\<lambda>r. r\<lparr>rq_post_schedule := False, rq_online := False, rq_idle_stamp := 0, rq_avg_idle := 2 * cost,
                              rq_max_idle_cost := cost\<rparr>) s;
          s = rq_attach_first up i rd s
      in upd_rq i (\<lambda>r. r\<lparr>rq_nr_iowait := 0\<rparr>) s)"

text \<open>
  \<open>init_task\<close> is the task that runs at boot, on CPU \<open>ks_cpu\<close>, \<open>init_mm\<close> its memory. The memory of
  the groups, the ticks and the bandwidths are set up apart from this store.
\<close>

definition sched_init ::
  "'x env \<Rightarrow> (rd_part \<Rightarrow> bool) \<Rightarrow> cpu set \<times> cpu set \<Rightarrow> dl_bw \<Rightarrow> (cpu \<Rightarrow> 'x kstate \<Rightarrow> 'x kstate) \<Rightarrow> 'x class_hook \<Rightarrow>
     u64 \<Rightarrow> nat \<Rightarrow> tid \<Rightarrow> nat \<Rightarrow> cpu list \<Rightarrow> 'x kstate \<Rightarrow> crash + 'x kstate"
where
  "sched_init E ok fresh dl init_class up cost rd init_task init_mm possible s =
     (let (usable, s) = init_defrootdomain ok fresh dl rd s
      in if \<not> usable \<and> possible \<noteq> [] then Inl BadPointer
         else
           let s = fold (init_rq init_class up cost rd) possible s;
               s = set_load_weight E init_task s;
               s = s\<lparr>ks_mm_count := (ks_mm_count s)(init_mm := ks_mm_count s init_mm + 1)\<rparr>;
               s = init_idle E init_task (ks_cpu s) s;
               s = upd_task init_task (\<lambda>t. t\<lparr>p_class := Fair_class\<rparr>) s
           in Inr (upd_rq (ks_cpu s) (\<lambda>r. r\<lparr>rq_age_stamp := sched_clock_cpu E (ks_cpu s) (ks_ext s)\<rparr>) s))"

definition migration_init ::
  "'x env \<Rightarrow> 'x class_hook \<Rightarrow> 'x class_hook \<Rightarrow> (cpu \<Rightarrow> 'x kstate \<Rightarrow> 'x kstate) \<Rightarrow> tid \<Rightarrow> 'x kstate \<Rightarrow> (crash + 'x kstate) option"
where
  "migration_init E up down calc fake s =
     (case migration_call E up down calc fake Up_prepare (ks_cpu s) s of
        None \<Rightarrow> None
      | Some (Inl e) \<Rightarrow> Some (Inl e)
      | Some (Inr t) \<Rightarrow> migration_call E up down calc fake Online (ks_cpu s) t)"

text \<open>
  \<open>sched_init_smp\<close>: \<open>T\<close> is the topology after \<open>sched_init_numa\<close>, \<open>classes\<close> stands for
  \<open>sched_init_granularity\<close> and the class initialisations at the end. The result of
  \<open>init_sched_domains\<close> is not looked at.
\<close>

definition sched_init_smp ::
  "(numa_state \<Rightarrow> crash + numa_state) \<Rightarrow> (numa_state \<Rightarrow> topo_env) \<Rightarrow> (obj \<Rightarrow> bool) \<Rightarrow> (nat option \<Rightarrow> bool) \<Rightarrow> 'x env \<Rightarrow>
     nat \<Rightarrow> 'x class_hook \<Rightarrow> 'x class_hook \<Rightarrow> nat \<Rightarrow> 'x stopper \<Rightarrow> ('x kstate \<Rightarrow> 'x kstate) \<Rightarrow> cpu set \<Rightarrow> numa_state \<Rightarrow> bld \<Rightarrow>
     (cpu \<Rightarrow> sched_domain list \<times> top_cache) \<Rightarrow> 'x kstate \<Rightarrow>
     crash + numa_state \<times> partition \<times> bld \<times> (cpu \<Rightarrow> sched_domain list \<times> top_cache) \<times> 'x kstate"
where
  "sched_init_smp init_numa T ok mask_ok E nodes up down rd stop_one classes isolated numa b doms s =
     bindC (init_numa numa) (\<lambda>numa.
       let (fallback, part, built) = init_sched_domains (T numa) ok mask_ok E nodes up down rd (ks_active s) isolated b doms s
       in bindC built (\<lambda>(err, b, doms, s).
            let non_isolated = ks_possible s - isolated;
                non_isolated = (if non_isolated = {} then insert (ks_cpu s) non_isolated else non_isolated)
            in bindC (set_cpus_allowed_ptr E stop_one (current_task s) non_isolated s) (\<lambda>(err, s).
                 if err < 0 then Inl Bug else Inr (numa, part, b, doms, classes s))))"

section \<open>Suspend and resume\<close>

text \<open>
  \<open>num_cpus_frozen\<close> and the partition in force. \<open>update\<close> is \<open>cpuset_update_active_cpus\<close>, which puts
  the partition of the cpusets in force, \<open>spare\<close> the active CPUs that are not isolated, \<open>arch\<close> the
  answer of \<open>arch_update_cpu_topology\<close>. The first result: the notifier is concerned.
\<close>

record cpuset_state =
  cs_frozen :: s32
  cs_part :: partition

definition single_domain :: "bool \<Rightarrow> cpu set \<Rightarrow> cpuset_state \<Rightarrow> crash + cpuset_state" where
  "single_domain arch spare s =     \<comment> \<open>\<open>partition_sched_domains(1, NULL, NULL)\<close>\<close>
     bindC (partition_sched_domains arch spare (cs_part s) 1 None None) (\<lambda>(gone, built, p). Inr (s\<lparr>cs_part := p\<rparr>))"

definition cpuset_cpu_active ::
  "(bool \<Rightarrow> partition \<Rightarrow> partition) \<Rightarrow> bool \<Rightarrow> Sched_Affinity.cpu_action \<Rightarrow> bool \<Rightarrow> cpu set \<Rightarrow> cpuset_state \<Rightarrow> crash + bool \<times> cpuset_state"
where
  "cpuset_cpu_active update arch action frozen spare s =
     (if action = Online \<or> action = Down_failed
      then let s = (if frozen then s\<lparr>cs_frozen := cs_frozen s - 1\<rparr> else s)
           in if frozen \<and> cs_frozen s \<noteq> 0 then bindC (single_domain arch spare s) (\<lambda>s. Inr (True, s))
              else Inr (True, s\<lparr>cs_part := update True (cs_part s)\<rparr>)
      else Inr (False, s))"

definition cpuset_cpu_inactive ::
  "(bool \<Rightarrow> partition \<Rightarrow> partition) \<Rightarrow> bool \<Rightarrow> Sched_Affinity.cpu_action \<Rightarrow> bool \<Rightarrow> cpu set \<Rightarrow> cpuset_state \<Rightarrow> crash + bool \<times> cpuset_state"
where
  "cpuset_cpu_inactive update arch action frozen spare s =
     (if action = Down_prepare
      then if \<not> frozen then Inr (True, s\<lparr>cs_part := update False (cs_part s)\<rparr>)
           else bindC (single_domain arch spare (s\<lparr>cs_frozen := cs_frozen s + 1\<rparr>)) (\<lambda>s. Inr (True, s))
      else Inr (False, s))"

section \<open>The books after boot\<close>

lemma rq_attach_first_view:
  fixes rd :: nat
  assumes "class_hook_ok up" "\<not> rq_online (ks_rqs s c)"
  defines "t \<equiv> rq_attach_first up c rd s"
  shows "rd_span (ks_rds t d) = (if d = rd then insert c (rd_span (ks_rds s d)) else rd_span (ks_rds s d))"
    "rd_online (ks_rds t d) =
      (if d = rd \<and> c \<in> ks_active s then insert c (rd_online (ks_rds s d)) else rd_online (ks_rds s d))"
    "rd_refcount (ks_rds t d) = rd_refcount (ks_rds s d) + (if d = rd then 1 else 0)"
    "rq_rd (ks_rqs t x) = (if x = c then rd else rq_rd (ks_rqs s x))"
    "rq_online (ks_rqs t x) = (if x = c then c \<in> ks_active s else rq_online (ks_rqs s x))"
    "ks_active t = ks_active s"
  using assms(2) unfolding t_def
  by (auto simp: rq_attach_first_def do_if_def Let_def set_rq_online_view [OF assms(1)])

text \<open>The methods that set up a class's queues leave the root domains alone, and no method moves to another CPU.\<close>

definition init_class_ok :: "(cpu \<Rightarrow> 'x kstate \<Rightarrow> 'x kstate) \<Rightarrow> bool" where
  "init_class_ok f \<longleftrightarrow> (\<forall>c s. rd_view (f c s) = rd_view s \<and> ks_cpu (f c s) = ks_cpu s)"

definition keeps_cpu :: "'x class_hook \<Rightarrow> bool" where
  "keeps_cpu h \<longleftrightarrow> (\<forall>k c s. ks_cpu (call_opt (map_option (\<lambda>f. f c) (h k)) s) = ks_cpu s)"

definition set_allowed_ok :: "'x env \<Rightarrow> bool" where
  "set_allowed_ok E \<longleftrightarrow> (\<forall>k p m s. rd_view (call_opt (map_option (\<lambda>f. f p m) (co_set_allowed (cls E k))) s) = rd_view s \<and>
     ks_cpu (call_opt (map_option (\<lambda>f. f p m) (co_set_allowed (cls E k))) s) = ks_cpu s)"

lemma init_rq_view:
  fixes rd :: nat and cost :: u64 and c :: cpu and s :: "'x kstate"
  assumes "class_hook_ok up" "init_class_ok f"
  defines "t \<equiv> init_rq f up cost rd c s"
  shows "rd_span (ks_rds t d) = (if d = rd then insert c (rd_span (ks_rds s d)) else rd_span (ks_rds s d))"
    "rd_online (ks_rds t d) =
      (if d = rd \<and> c \<in> ks_active s then insert c (rd_online (ks_rds s d)) else rd_online (ks_rds s d))"
    "rd_refcount (ks_rds t d) = rd_refcount (ks_rds s d) + (if d = rd then 1 else 0)"
    "rq_rd (ks_rqs t x) = (if x = c then rd else rq_rd (ks_rqs s x))"
    "rq_online (ks_rqs t x) = (if x = c then c \<in> ks_active s else rq_online (ks_rqs s x))"
    "ks_active t = ks_active s"
proof -
  let ?s = "f c (upd_rq c (\<lambda>r. r\<lparr>rq_nr_running := 0\<rparr>) s)"
  have v: "rd_view ?s = rd_view (upd_rq c (\<lambda>r. r\<lparr>rq_nr_running := 0\<rparr>) s)"
    using assms(2) by (simp add: init_class_ok_def)
  note w = rd_view_fields [OF v]
  show "rd_span (ks_rds t d) = (if d = rd then insert c (rd_span (ks_rds s d)) else rd_span (ks_rds s d))"
    "rd_online (ks_rds t d) =
      (if d = rd \<and> c \<in> ks_active s then insert c (rd_online (ks_rds s d)) else rd_online (ks_rds s d))"
    "rd_refcount (ks_rds t d) = rd_refcount (ks_rds s d) + (if d = rd then 1 else 0)"
    "rq_rd (ks_rqs t x) = (if x = c then rd else rq_rd (ks_rqs s x))"
    "rq_online (ks_rqs t x) = (if x = c then c \<in> ks_active s else rq_online (ks_rqs s x))"
    "ks_active t = ks_active s"
    unfolding t_def init_rq_def Let_def by (auto simp: rq_attach_first_view [OF assms(1)] w)
qed

text \<open>The root domains when the runqueues \<open>P\<close> are set up.\<close>

definition boot_inv :: "nat \<Rightarrow> nat \<Rightarrow> (nat \<Rightarrow> int) \<Rightarrow> cpu set \<Rightarrow> 'x kstate \<Rightarrow> bool" where
  "boot_inv n rd base P s \<longleftrightarrow>
     (\<forall>c<n. \<forall>d. c \<in> rd_span (ks_rds s d) \<longleftrightarrow> d = rd \<and> c \<in> P) \<and>
     (\<forall>c<n. \<forall>d. c \<in> rd_online (ks_rds s d) \<longleftrightarrow> d = rd \<and> c \<in> P \<and> c \<in> ks_active s) \<and>
     (\<forall>d. rd_refcount (ks_rds s d) = base d + (if d = rd then int (card P) else 0)) \<and>
     (\<forall>c\<in>P. rq_rd (ks_rqs s c) = rd \<and> rq_online (ks_rqs s c) = (c \<in> ks_active s))"

lemma boot_inv_init_rq:
  assumes "class_hook_ok up" "init_class_ok f" "boot_inv n rd base P s" "c \<notin> P" "finite P"
  shows "boot_inv n rd base (insert c P) (init_rq f up cost rd c s)"
  using assms(3-5) unfolding boot_inv_def by (auto simp: init_rq_view [OF assms(1,2)])

lemma boot_inv_loop:
  assumes "class_hook_ok up" "init_class_ok f"
  shows "boot_inv n rd base P s \<Longrightarrow> finite P \<Longrightarrow> distinct cs \<Longrightarrow> set cs \<inter> P = {} \<Longrightarrow>
    boot_inv n rd base (set cs \<union> P) (fold (init_rq f up cost rd) cs s)"
proof (induction cs arbitrary: P s)
  case (Cons c cs)
  from Cons.prems have "boot_inv n rd base (insert c P) (init_rq f up cost rd c s)"
    by (intro boot_inv_init_rq [OF assms]) auto
  from Cons.IH [OF this] Cons.prems show ?case by auto
qed simp

lemma boot_inv_rd_ok:
  assumes "boot_inv n rd base {..<n} s"
  shows "rd_ok n base s"
proof -
  have "{c. c < n \<and> rq_rd (ks_rqs s c) = d} = (if d = rd then {..<n} else {})" for d
    using assms by (auto simp: boot_inv_def)
  with assms show ?thesis by (auto simp: boot_inv_def rd_ok_def)
qed

lemma rd_ok_view: "rd_view s = rd_view t \<Longrightarrow> rd_ok n base s = rd_ok n base t"
  unfolding rd_ok_def using rd_view_fields [of s t] by simp

lemma init_idle_view:
  assumes "set_allowed_ok E"
  shows "rd_view (init_idle E p c s) = rd_view s"
proof -
  have "rd_view (do_set_cpus_allowed E p m t) = rd_view t" for m t
    using assms by (simp add: do_set_cpus_allowed_def set_allowed_ok_def rd_view_def)
  then show ?thesis by (simp add: init_idle_def Let_def rd_view_def basic_fork_def assign_task_cpu_def fun_eq_iff)
qed


text \<open>Two CPUs, both active, whose root domains are blank.\<close>

definition boot_state :: "demo_ext kstate" where
  "boot_state = demo_state\<lparr>ks_rds := (\<lambda>_. \<lparr>rd_span = {}, rd_online = {}, rd_dl_bw = \<lparr>db_bw = 0, db_total_bw = 0\<rparr>,
     rd_refcount = 0\<rparr>)\<rparr>"


section \<open>The memory of the root task group\<close>

text \<open>Consecutive areas from \<open>p\<close> to \<open>q\<close>.\<close>

fun tiles :: "(boot_area \<Rightarrow> nat) \<Rightarrow> u64 \<Rightarrow> (boot_area \<times> u64) list \<Rightarrow> u64 \<Rightarrow> bool" where
  "tiles sz p [] q \<longleftrightarrow> p = q"
| "tiles sz p ((a, b) # xs) q \<longleftrightarrow> b = p \<and> tiles sz (p + of_nat (sz a)) xs q"

lemma tiles_append: "tiles sz p (xs @ ys) q \<longleftrightarrow> (\<exists>r. tiles sz p xs r \<and> tiles sz r ys q)"
  by (induction sz p xs q rule: tiles.induct) auto

primrec area_size :: "nat \<Rightarrow> nat \<Rightarrow> boot_area \<Rightarrow> nat" where
  "area_size ids msz Root_se = ids * 8"
| "area_size ids msz Root_cfs_rq = ids * 8"
| "area_size ids msz Root_rt_se = ids * 8"
| "area_size ids msz Root_rt_rq = ids * 8"
| "area_size ids msz (Balance_mask c) = msz"

lemma tiles_masks:
  "tiles (area_size ids msz) p (fst st) (snd st) \<Longrightarrow>
   (let st' = fold (\<lambda>i. carve (Balance_mask i) msz) cs st
    in tiles (area_size ids msz) p (fst st') (snd st') \<and> snd st' = snd st + of_nat (length cs * msz))"
proof (induction cs arbitrary: st)
  case (Cons c cs)
  have "tiles (area_size ids msz) p (fst (carve (Balance_mask c) msz st)) (snd (carve (Balance_mask c) msz st))"
    using Cons.prems by (cases st) (simp add: carve_def tiles_append)
  note IH = Cons.IH [OF this, unfolded Let_def]
  have "snd (carve (Balance_mask c) msz st) = snd st + of_nat msz" by (cases st) (simp add: carve_def)
  with IH [THEN conjunct1] IH [THEN conjunct2] show ?case by (simp add: Let_def algebra_simps)
qed simp

text \<open>The areas lie side by side and use up the allocation exactly, in every configuration.\<close>

lemma boot_carve_tiles:
  "tiles (area_size ids msz) ptr (fst (boot_carve fair rt offstack ids possible msz ptr))
     (ptr + boot_alloc_size fair rt offstack ids possible msz)"
  "snd (boot_carve fair rt offstack ids possible msz ptr) = ptr + boot_alloc_size fair rt offstack ids possible msz"
proof -
  define st where "st = (let st = ([], ptr);
          st = (if fair then carve Root_cfs_rq (ids * 8) (carve Root_se (ids * 8) st) else st)
      in if rt then carve Root_rt_rq (ids * 8) (carve Root_rt_se (ids * 8) st) else st)"
  have st: "tiles (area_size ids msz) ptr (fst st) (snd st)" "snd st = ptr + boot_alloc_size fair rt False ids possible msz"
    by (cases fair; cases rt; simp add: st_def carve_def boot_alloc_size_def algebra_simps)+
  have c: "boot_carve fair rt offstack ids possible msz ptr =
      (if offstack then fold (\<lambda>i. carve (Balance_mask i) msz) possible st else st)"
    by (simp add: boot_carve_def st_def Let_def)
  have sz: "boot_alloc_size fair rt offstack ids possible msz =
      boot_alloc_size fair rt False ids possible msz + (if offstack then of_nat (length possible * msz) else 0)"
    by (simp add: boot_alloc_size_def Let_def)
  have all: "tiles (area_size ids msz) ptr (fst (boot_carve fair rt offstack ids possible msz ptr))
      (snd (boot_carve fair rt offstack ids possible msz ptr)) \<and>
      snd (boot_carve fair rt offstack ids possible msz ptr) = ptr + boot_alloc_size fair rt offstack ids possible msz"
  proof (cases offstack)
    case True
    note m = tiles_masks [OF st(1), of possible, unfolded Let_def]
    from m [THEN conjunct1] m [THEN conjunct2] True show ?thesis
      unfolding c sz st(2) by (simp add: add.assoc)
  qed (use c sz st in simp)
  from all [THEN conjunct2] show "snd (boot_carve fair rt offstack ids possible msz ptr) =
      ptr + boot_alloc_size fair rt offstack ids possible msz" .
  from all [THEN conjunct1, unfolded this]
  show "tiles (area_size ids msz) ptr (fst (boot_carve fair rt offstack ids possible msz ptr))
     (ptr + boot_alloc_size fair rt offstack ids possible msz)" .
qed

text \<open>
  \<open>sched_init_smp\<close> only guards against a mask that is empty: when some CPUs are not isolated but none of
  them is active yet, moving the boot task fails and the kernel stops.
\<close>

lemma sched_init_smp_bug:
  assumes "init_numa numa = Inr numa'"
    and "init_sched_domains (T numa') ok mask_ok E nodes up down rd (ks_active s) isolated b doms s =
      (fb, part, Inr (err, b', doms', t))"
    and "ks_possible t - isolated \<noteq> {}" "(ks_possible t - isolated) \<inter> ks_active t = {}"
    and "p_cpus_allowed (ks_tasks t (current_task t)) \<noteq> ks_possible t - isolated"
  shows "sched_init_smp init_numa T ok mask_ok E nodes up down rd stop_one classes isolated numa b doms s = Inl Bug"
  using assms by (simp add: sched_init_smp_def set_cpus_allowed_ptr_def Let_def)

section \<open>Suspending and resuming\<close>

datatype suspend_event = Freeze "cpu set" | Thaw bool "cpu set"

text \<open>A CPU goes down in a suspend; it comes back, or did not go down after all.\<close>

definition suspend_step ::
  "(bool \<Rightarrow> partition \<Rightarrow> partition) \<Rightarrow> bool \<Rightarrow> suspend_event \<Rightarrow> cpuset_state \<Rightarrow> crash + cpuset_state"
where
  "suspend_step update arch e s =
     map_sum id snd (case e of
        Freeze spare \<Rightarrow> cpuset_cpu_inactive update arch Down_prepare True spare s
      | Thaw failed spare \<Rightarrow> cpuset_cpu_active update arch (if failed then Down_failed else Online) True spare s)"

primrec suspend_run ::
  "(bool \<Rightarrow> partition \<Rightarrow> partition) \<Rightarrow> bool \<Rightarrow> suspend_event list \<Rightarrow> cpuset_state \<Rightarrow> crash + cpuset_state"
where
  "suspend_run update arch [] s = Inr s"
| "suspend_run update arch (e # es) s = bindC (suspend_step update arch e s) (suspend_run update arch es)"

lemma suspend_run_append:
  "suspend_run update arch (es @ es') s = bindC (suspend_run update arch es s) (suspend_run update arch es')"
proof (induction es arbitrary: s)
  case (Cons e es)
  then show ?case by (cases "suspend_step update arch e s") simp_all
qed simp

primrec change :: "suspend_event \<Rightarrow> int" where
  "change (Freeze m) = 1"
| "change (Thaw b m) = - 1"

primrec event_mask :: "suspend_event \<Rightarrow> cpu set" where
  "event_mask (Freeze m) = m"
| "event_mask (Thaw b m) = m"

abbreviation frozen_cpus :: "suspend_event list \<Rightarrow> int" where
  "frozen_cpus es \<equiv> sum_list (map change es)"

lemma single_domain_result:
  "\<exists>t. single_domain arch spare s = Inr t \<and> cs_frozen t = cs_frozen s \<and> pt_doms (cs_part t) = [spare]"
  by (simp add: single_domain_def partition_sched_domains_def Let_def)

lemma frozen_zero:
  assumes "0 \<le> k" "k < 2 ^ 31"
  shows "(of_int k :: s32) = 0 \<longleftrightarrow> k = 0"
  using assms zdvd_imp_le [of "2 ^ 32" k] by (auto simp: word_of_int_eq_0_iff)

text \<open>C30 Suspending and resuming: as long as CPUs are frozen there is one domain with the CPUs that are active and
  not isolated, and the cpusets are left alone; when the last one is back, and not before, the partition
  of the cpusets is put in force. The count of frozen CPUs is exact, also for CPUs that refuse to go down.\<close>

theorem suspend_resume_domains:
  assumes "\<forall>k \<le> length es. 0 \<le> frozen_cpus (take k es) \<and> frozen_cpus (take k es) < 2 ^ 31" "cs_frozen s = 0" "es \<noteq> []"
  shows "\<exists>t. suspend_run update arch es s = Inr t \<and> cs_frozen t = of_int (frozen_cpus es) \<and>
    (if frozen_cpus es = 0 then \<exists>p. cs_part t = update True p else pt_doms (cs_part t) = [event_mask (last es)])"
proof -
  have "\<exists>t. suspend_run update arch es s = Inr t \<and> cs_frozen t = of_int (frozen_cpus es) \<and>
    (es \<noteq> [] \<longrightarrow> (if frozen_cpus es = 0 then \<exists>p. cs_part t = update True p else pt_doms (cs_part t) = [event_mask (last es)]))"
    using assms(1)
  proof (induction es rule: rev_induct)
    case Nil
    then show ?case using assms(2) by simp
  next
    case (snoc e es)
    have pre: "0 \<le> frozen_cpus es" and post: "0 \<le> frozen_cpus es + change e" "frozen_cpus es + change e < 2 ^ 31"
      using spec [OF snoc.prems, of "length es"] spec [OF snoc.prems, of "Suc (length es)"] by simp_all
    have "\<forall>k\<le>length es. 0 \<le> frozen_cpus (take k es) \<and> frozen_cpus (take k es) < 2 ^ 31"
    proof (intro allI impI)
      fix k assume "k \<le> length es"
      with spec [OF snoc.prems, of k] show "0 \<le> frozen_cpus (take k es) \<and> frozen_cpus (take k es) < 2 ^ 31" by simp
    qed
    from snoc.IH [OF this] obtain t where t: "suspend_run update arch es s = Inr t" "cs_frozen t = of_int (frozen_cpus es)"
      by blast
    have run: "suspend_run update arch (es @ [e]) s = suspend_step update arch e t"
      by (cases "suspend_step update arch e t") (simp_all add: suspend_run_append t(1))
    note zero = frozen_zero [OF post]
    show ?case
    proof (cases e)
      case (Freeze m)
      obtain u where u: "single_domain arch m (t\<lparr>cs_frozen := cs_frozen t + 1\<rparr>) = Inr u" "cs_frozen u = cs_frozen t + 1"
        "pt_doms (cs_part u) = [m]"
        using single_domain_result [of arch m "t\<lparr>cs_frozen := cs_frozen t + 1\<rparr>"] by auto
      have "suspend_run update arch (es @ [e]) s = Inr u"
        unfolding run using u(1) by (simp add: Freeze suspend_step_def cpuset_cpu_inactive_def)
      moreover have "frozen_cpus (es @ [e]) \<noteq> 0" using pre Freeze by simp
      ultimately show ?thesis using u t(2) Freeze by simp
    next
      case (Thaw b m)
      let ?t = "t\<lparr>cs_frozen := cs_frozen t - 1\<rparr>"
      have f: "cs_frozen ?t = of_int (frozen_cpus (es @ [e]))" using t(2) Thaw by simp
      show ?thesis
      proof (cases "frozen_cpus (es @ [e]) = 0")
        case True
        then have "cs_frozen ?t = 0" using f by simp
        then have "suspend_run update arch (es @ [e]) s = Inr (?t\<lparr>cs_part := update True (cs_part t)\<rparr>)"
          unfolding run by (simp add: Thaw suspend_step_def cpuset_cpu_active_def)
        with True f show ?thesis by auto
      next
        case False
        obtain u where u: "single_domain arch m ?t = Inr u" "cs_frozen u = cs_frozen ?t" "pt_doms (cs_part u) = [m]"
          using single_domain_result [of arch m ?t] by auto
        have "cs_frozen ?t \<noteq> 0" unfolding f using zero False by simp
        then have "suspend_run update arch (es @ [e]) s = Inr u"
          unfolding run using u(1) by (simp add: Thaw suspend_step_def cpuset_cpu_active_def)
        with False f u Thaw show ?thesis by simp
      qed
    qed
  qed
  with assms(3) show ?thesis by simp
qed

theorem suspend_resume_domains_witness:
  "\<exists>t. suspend_run (\<lambda>_ p. p\<lparr>pt_doms := [{0, 1}, {2}]\<rparr>) False [Freeze {0, 1}, Freeze {0}, Thaw True {0, 1}, Thaw False {0, 1, 2}]
     \<lparr>cs_frozen = 0, cs_part = \<lparr>pt_doms = [{0, 1}, {2}], pt_attrs = None\<rparr>\<rparr> = Inr t \<and> cs_frozen t = 0 \<and>
     pt_doms (cs_part t) = [{0, 1}, {2}]"
proof -
  let ?es = "[Freeze {0, 1}, Freeze {0}, Thaw True {0, 1}, Thaw False {0, 1, 2}]"
  have "\<forall>k\<in>set [0..<5]. 0 \<le> frozen_cpus (take k ?es) \<and> frozen_cpus (take k ?es) < 2 ^ 31" by code_simp
  then have "\<forall>k\<le>length ?es. 0 \<le> frozen_cpus (take k ?es) \<and> frozen_cpus (take k ?es) < 2 ^ 31" by auto
  from suspend_resume_domains [OF this, of "\<lparr>cs_frozen = 0, cs_part = \<lparr>pt_doms = [{0, 1}, {2}], pt_attrs = None\<rparr>\<rparr>"
      "\<lambda>_ p. p\<lparr>pt_doms := [{0, 1}, {2}]\<rparr>" False]
  show ?thesis by auto
qed

end
