(* ===== verification/Sched_Sleep.thy ===== *)
theory Sched_Sleep
  imports Sched_Affinity
begin

text \<open>
  Sleeping and its bounds in \<^verbatim>\<open>core.c\<close>: waiting for I/O, the voluntary preemption points inside
  locks and softirqs, the warning about sleeping in atomic context, the idle task of a CPU that
  goes offline, and the deferment of the tick. A task that calls \<open>schedule\<close> is away until it is
  picked again, so what it does after the call is a definition of its own (\<open>\<dots>_back\<close>).
\<close>

section \<open>Waiting for I/O\<close>

text \<open>\<open>io_rq\<close>: the local \<open>rq\<close> on the stack of a task that is in \<open>io_schedule\<close>.\<close>

record 'x io_state =
  io_k :: "'x kstate"
  io_flag :: "tid \<Rightarrow> bool"          \<comment> \<open>\<open>in_iowait\<close>\<close>
  io_rq :: "tid \<Rightarrow> cpu option"

text \<open>Up to the call of \<open>schedule\<close>; \<open>plug\<close> is \<open>blk_flush_plug\<close>.\<close>

definition io_enter :: "(tid \<Rightarrow> 'x kstate \<Rightarrow> 'x kstate) \<Rightarrow> 'x io_state \<Rightarrow> 'x io_state" where
  "io_enter plug s =
     (let k = io_k s; c = ks_cpu k; p = current_task k;
          k = upd_rq c (\<lambda>r. r\<lparr>rq_nr_iowait := rq_nr_iowait r + 1\<rparr>) k;
          k = plug p k
      in s\<lparr>io_k := k, io_flag := (io_flag s)(p := True), io_rq := (io_rq s)(p := Some c)\<rparr>)"

definition io_schedule ::
  "'x env \<Rightarrow> 'x hooks \<Rightarrow> 'x switch_ops \<Rightarrow> (tid \<Rightarrow> 'x kstate \<Rightarrow> 'x kstate) option \<Rightarrow> (tid \<Rightarrow> bool) \<Rightarrow>
     (tid \<Rightarrow> 'x kstate \<Rightarrow> 'x kstate) \<Rightarrow> 'x io_state \<Rightarrow> (crash + 'x io_state) option"
where
  "io_schedule E H A flush pi plug s =
     (let s = io_enter plug s
      in map_option (map_sum id (\<lambda>k. s\<lparr>io_k := k\<rparr>)) (schedule E H A flush pi (io_k s)))"

text \<open>When the task runs again, on whatever CPU: the count goes down where it went up.\<close>

definition io_schedule_back :: "'x io_state \<Rightarrow> 'x io_state" where
  "io_schedule_back s =
     (let p = current_task (io_k s)
      in case io_rq s p of
           None \<Rightarrow> s
         | Some c \<Rightarrow>
             s\<lparr>io_k := upd_rq c (\<lambda>r. r\<lparr>rq_nr_iowait := rq_nr_iowait r - 1\<rparr>) (io_k s),
               io_flag := (io_flag s)(p := False), io_rq := (io_rq s)(p := None)\<rparr>)"

text \<open>\<open>io_schedule_timeout\<close>: \<open>sleep\<close> is \<open>schedule_timeout\<close>, whose result is returned.\<close>

definition io_schedule_timeout ::
  "(u64 \<Rightarrow> 'x kstate \<Rightarrow> (crash + 'x kstate) option) \<Rightarrow> (tid \<Rightarrow> 'x kstate \<Rightarrow> 'x kstate) \<Rightarrow> u64 \<Rightarrow> 'x io_state \<Rightarrow>
     (crash + 'x io_state) option"
where
  "io_schedule_timeout sleep plug timeout s =
     (let s = io_enter plug s in map_option (map_sum id (\<lambda>k. s\<lparr>io_k := k\<rparr>)) (sleep timeout (io_k s)))"

definition io_schedule_timeout_back :: "u64 \<Rightarrow> 'x io_state \<Rightarrow> u64 \<times> 'x io_state" where
  "io_schedule_timeout_back ret s = (ret, io_schedule_back s)"

section \<open>Preemption points\<close>

text \<open>
  \<open>cond_resched_lock\<close>: the result says whether the lock was dropped; the caller takes it again when it
  is back. \<open>contended\<close> is \<open>spin_needbreak\<close>.
\<close>

definition cond_resched_lock ::
  "'x env \<Rightarrow> 'x hooks \<Rightarrow> 'x switch_ops \<Rightarrow> ('x kstate \<Rightarrow> 'x kstate) \<Rightarrow> ('x kstate \<Rightarrow> 'x kstate) \<Rightarrow> bool \<Rightarrow> 'x kstate \<Rightarrow>
     (crash + bool \<times> 'x kstate) option"
where
  "cond_resched_lock E H A unlock relax contended s =
     (let resched = should_resched s
      in if contended \<or> resched
         then let s = unlock s
              in if resched then map_option (map_sum id (Pair True)) (run_schedule E H A (preempt_count_inc PREEMPT_ACTIVE s))
                 else Some (Inr (True, relax s))
         else Some (Inr (False, s)))"

abbreviation (input) SOFTIRQ_MASK :: s32 where "SOFTIRQ_MASK \<equiv> 0xff00"

text \<open>\<open>enable\<close> is \<open>local_bh_enable\<close>; the caller disables the softirqs again when it is back.\<close>

definition cond_resched_softirq ::
  "'x env \<Rightarrow> 'x hooks \<Rightarrow> 'x switch_ops \<Rightarrow> ('x kstate \<Rightarrow> 'x kstate) \<Rightarrow> 'x kstate \<Rightarrow> (crash + bool \<times> 'x kstate) option"
where
  "cond_resched_softirq E H A enable s =
     (if ks_preempt_count s AND SOFTIRQ_MASK = 0 then Some (Inl Bug)
      else if should_resched s
      then map_option (map_sum id (Pair True)) (run_schedule E H A (preempt_count_inc PREEMPT_ACTIVE (enable s)))
      else Some (Inr (False, s)))"

section \<open>Sleeping in atomic context\<close>

text \<open>\<open>rcu\<close> is \<open>rcu_preempt_depth()\<close>.\<close>

definition preempt_count_equals :: "s32 \<Rightarrow> s32 \<Rightarrow> s32 \<Rightarrow> bool" where
  "preempt_count_equals count rcu offset \<longleftrightarrow> (count AND NOT PREEMPT_ACTIVE) + rcu = offset"

definition time_before :: "u64 \<Rightarrow> u64 \<Rightarrow> bool" where
  "time_before a b \<longleftrightarrow> a - b <s 0"

text \<open>
  \<open>__might_sleep\<close>: whether it prints, and the time kept in \<open>prev_jiffy\<close>. \<open>exempt\<close>: the system is not up yet, or
  a crash is being reported.
\<close>

definition might_sleep ::
  "u64 \<Rightarrow> u64 \<Rightarrow> s32 \<Rightarrow> s32 \<Rightarrow> s32 \<Rightarrow> bool \<Rightarrow> bool \<Rightarrow> bool \<Rightarrow> u64 \<Rightarrow> bool \<times> u64"
where
  "might_sleep hz jiffies count rcu offset irqs_off idle exempt prev =
     (if (preempt_count_equals count rcu offset \<and> \<not> irqs_off \<and> \<not> idle) \<or> exempt then (False, prev)
      else if time_before jiffies (prev + hz) \<and> prev \<noteq> 0 then (False, prev)
      else (True, jiffies))"

section \<open>The idle task of a CPU that is gone\<close>

text \<open>
  The first result is the memory whose page tables \<open>switch_mm\<close> loads, if it is called: that is not
  recorded in the task.
\<close>

definition idle_task_exit :: "nat \<Rightarrow> 'x kstate \<Rightarrow> crash + nat option \<times> 'x kstate" where
  "idle_task_exit init_mm s =
     (if ks_cpu s \<in> ks_online s then Inl Bug
      else case p_active_mm (ks_tasks s (current_task s)) of
        None \<Rightarrow> Inl NullDeref
      | Some mm \<Rightarrow>
          Inr (if mm \<noteq> init_mm then Some init_mm else None,
               s\<lparr>ks_mm_count := (ks_mm_count s)(mm := ks_mm_count s mm - 1)\<rparr>))"

section \<open>The tick deferred\<close>

text \<open>\<open>last_tick\<close> is \<open>rq->last_sched_tick\<close>; \<open>to_ns\<close> is \<open>jiffies_to_nsecs\<close>.\<close>

definition scheduler_tick_max_deferment :: "u64 \<Rightarrow> (u64 \<Rightarrow> u64) \<Rightarrow> u64 \<Rightarrow> u64 \<Rightarrow> u64" where
  "scheduler_tick_max_deferment hz to_ns last_tick jiffies =
     (let due = last_tick + hz
      in if 0 \<le>s jiffies - due then 0 else to_ns (due - jiffies))"

section \<open>The count of tasks that wait for I/O\<close>

text \<open>
  What a task that is not in \<open>io_schedule\<close> may start, the return of one that is, and anything else the
  kernel does meanwhile: tasks are switched and moved, but the counts are not touched.
\<close>

inductive io_step :: "(tid \<Rightarrow> 'x kstate \<Rightarrow> 'x kstate) \<Rightarrow> 'x io_state \<Rightarrow> 'x io_state \<Rightarrow> bool" for plug where
  enter: "io_rq s (current_task (io_k s)) = None \<Longrightarrow> io_step plug s (io_enter plug s)"
| resume: "io_step plug s (io_schedule_back s)"
| other: "(\<forall>c. rq_nr_iowait (ks_rqs k c) = rq_nr_iowait (ks_rqs (io_k s) c)) \<Longrightarrow> io_step plug s (s\<lparr>io_k := k\<rparr>)"

definition plug_ok :: "(tid \<Rightarrow> 'x kstate \<Rightarrow> 'x kstate) \<Rightarrow> bool" where
  "plug_ok plug \<longleftrightarrow> (\<forall>p k c. rq_nr_iowait (ks_rqs (plug p k) c) = rq_nr_iowait (ks_rqs k c))"

definition io_inv :: "'x io_state \<Rightarrow> bool" where
  "io_inv s \<longleftrightarrow> finite {p. io_rq s p \<noteq> None} \<and> (\<forall>p. io_flag s p \<longleftrightarrow> io_rq s p \<noteq> None) \<and>
     (\<forall>c. rq_nr_iowait (ks_rqs (io_k s) c) = of_nat (card {p. io_rq s p = Some c}))"

text \<open>The tasks that wait with the runqueue of one CPU.\<close>

definition io_waiters :: "'x io_state \<Rightarrow> cpu \<Rightarrow> tid set" where
  "io_waiters s c = {p. io_rq s p = Some c}"

lemma io_waiters_finite: "io_inv s \<Longrightarrow> finite (io_waiters s c)"
  by (rule rev_finite_subset [of "{p. io_rq s p \<noteq> None}"]) (auto simp: io_inv_def io_waiters_def)

lemma io_inv_count: "io_inv s \<Longrightarrow> rq_nr_iowait (ks_rqs (io_k s) c) = of_nat (card (io_waiters s c))"
  by (simp add: io_inv_def io_waiters_def)

text \<open>The invariant after a change of the state of one task and of one count.\<close>

lemma io_inv_upd:
  assumes s: "io_inv s"
    and flag: "io_flag t = (io_flag s)(p := x \<noteq> None)" and rq: "io_rq t = (io_rq s)(p := x)"
    and count: "\<And>c. rq_nr_iowait (ks_rqs (io_k t) c) = of_nat (card (io_waiters t c))"
  shows "io_inv t"
proof -
  have "{q. io_rq t q \<noteq> None} \<subseteq> insert p {q. io_rq s q \<noteq> None}" by (auto simp: rq)
  with s have "finite {q. io_rq t q \<noteq> None}" by (auto simp: io_inv_def elim: finite_subset)
  moreover have "io_flag t q \<longleftrightarrow> io_rq t q \<noteq> None" for q using s by (simp add: flag rq io_inv_def)
  ultimately show ?thesis using count by (simp add: io_inv_def io_waiters_def)
qed

lemma io_enter_inv:
  assumes s: "io_inv s" and fresh: "io_rq s (current_task (io_k s)) = None" and plug: "plug_ok plug"
  shows "io_inv (io_enter plug s)"
proof (rule io_inv_upd [OF s])
  let ?p = "current_task (io_k s)" and ?c = "ks_cpu (io_k s)"
  show "io_flag (io_enter plug s) = (io_flag s)(?p := Some ?c \<noteq> None)"
    and "io_rq (io_enter plug s) = (io_rq s)(?p := Some ?c)"
    by (simp_all add: io_enter_def Let_def)
  fix d
  have "io_waiters (io_enter plug s) d = (if d = ?c then insert ?p (io_waiters s d) else io_waiters s d)"
    using fresh by (auto simp: io_waiters_def io_enter_def Let_def)
  moreover have "?p \<notin> io_waiters s d" using fresh by (simp add: io_waiters_def)
  ultimately have "card (io_waiters (io_enter plug s) d) =
      (if d = ?c then Suc (card (io_waiters s d)) else card (io_waiters s d))"
    using io_waiters_finite [OF s, of d] by (cases "d = ?c") simp_all
  then show "rq_nr_iowait (ks_rqs (io_k (io_enter plug s)) d) = of_nat (card (io_waiters (io_enter plug s) d))"
    using io_inv_count [OF s, of d] plug
    by (cases "d = ?c") (simp_all add: io_enter_def Let_def plug_ok_def)
qed

lemma io_schedule_back_inv:
  assumes s: "io_inv s"
  shows "io_inv (io_schedule_back s)"
proof (cases "io_rq s (current_task (io_k s))")
  case None
  with s show ?thesis by (simp add: io_schedule_back_def Let_def)
next
  case (Some c)
  let ?p = "current_task (io_k s)"
  show ?thesis
  proof (rule io_inv_upd [OF s])
    show "io_flag (io_schedule_back s) = (io_flag s)(?p := (None :: cpu option) \<noteq> None)"
      and "io_rq (io_schedule_back s) = (io_rq s)(?p := None)"
      using Some by (simp_all add: io_schedule_back_def Let_def)
    fix d
    have w: "io_waiters (io_schedule_back s) d = io_waiters s d - {?p}"
      using Some by (auto simp: io_waiters_def io_schedule_back_def Let_def)
    have "?p \<in> io_waiters s d \<longleftrightarrow> d = c" using Some by (auto simp: io_waiters_def)
    then have "card (io_waiters s d) = card (io_waiters s d - {?p}) + (if d = c then 1 else 0)"
      using card.remove [OF io_waiters_finite [OF s, of d], of ?p] by simp
    moreover have "rq_nr_iowait (ks_rqs (io_k (io_schedule_back s)) d) =
        rq_nr_iowait (ks_rqs (io_k s) d) - (if d = c then 1 else 0)"
      using Some by (simp add: io_schedule_back_def Let_def)
    ultimately show "rq_nr_iowait (ks_rqs (io_k (io_schedule_back s)) d) = of_nat (card (io_waiters (io_schedule_back s) d))"
      using io_inv_count [OF s, of d] by (simp add: w)
  qed
qed

lemma io_inv_step:
  assumes "io_step plug s t" "plug_ok plug" "io_inv s"
  shows "io_inv t"
  using assms(1)
proof (cases rule: io_step.cases)
  case (other k)
  then show ?thesis using assms(3) by (simp add: io_inv_def)
qed (use assms in \<open>auto intro: io_enter_inv io_schedule_back_inv\<close>)

inductive io_run :: "(tid \<Rightarrow> 'x kstate \<Rightarrow> 'x kstate) \<Rightarrow> 'x io_state \<Rightarrow> bool" for plug where
  boot: "(\<forall>p. \<not> io_flag s p \<and> io_rq s p = None) \<Longrightarrow> (\<forall>c. rq_nr_iowait (ks_rqs (io_k s) c) = 0) \<Longrightarrow> io_run plug s"
| step: "io_run plug s \<Longrightarrow> io_step plug s t \<Longrightarrow> io_run plug t"

lemma io_run_inv:
  assumes "io_run plug s" "plug_ok plug"
  shows "io_inv s"
  using assms
proof (induction rule: io_run.induct)
  case (boot s)
  then show ?case by (simp add: io_inv_def)
next
  case (step s t)
  then show ?case by (blast intro: io_inv_step)
qed

text \<open>In every run of the kernel in which tasks enter \<open>io_schedule\<close>, are switched and moved between CPUs, and
  return from it, \<open>nr_iowait\<close> of each runqueue is the number of the tasks that are waiting and entered
  there, whatever CPU they are on now, and a task is marked \<open>in_iowait\<close> exactly while it waits.
\<close>

theorem nr_iowait_counts_waiters:
  assumes "io_run plug s" "plug_ok plug"
  shows "rq_nr_iowait (ks_rqs (io_k s) c) = of_nat (card (io_waiters s c)) \<and>
    {p. io_flag s p} = (\<Union>d. io_waiters s d)"
  using io_run_inv [OF assms] by (auto simp: io_inv_def io_waiters_def)

text \<open>Task 1 enters on CPU 0 and is then switched out and moved to CPU 1; another enters on CPU 0.\<close>

definition demo_waiting :: "demo_ext io_state" where
  "demo_waiting =
     (let s = io_enter (\<lambda>_ k. k) \<lparr>io_k = upd_rq 0 (\<lambda>r. r\<lparr>rq_curr := 1\<rparr>) demo_state, io_flag = (\<lambda>_. False), io_rq = (\<lambda>_. None)\<rparr>;
          s = s\<lparr>io_k := upd_task 1 (\<lambda>t. t\<lparr>p_cpu := 1\<rparr>) (upd_rq 0 (\<lambda>r. r\<lparr>rq_curr := 2\<rparr>) (io_k s))\<rparr>
      in io_enter (\<lambda>_ k. k) s)"

theorem nr_iowait_counts_waiters_witness:
  "rq_nr_iowait (ks_rqs (io_k demo_waiting) 0) = 2 \<and> io_waiters demo_waiting 0 = {1, 2} \<and> io_waiters demo_waiting 1 = {}"
proof -
  let ?plug = "\<lambda>(_ :: tid) (k :: demo_ext kstate). k"
  have ok: "plug_ok ?plug" by (simp add: plug_ok_def)
  let ?s = "\<lparr>io_k = upd_rq 0 (\<lambda>r. r\<lparr>rq_curr := 1\<rparr>) demo_state, io_flag = (\<lambda>_. False), io_rq = (\<lambda>_. None)\<rparr>"
  have "io_run ?plug ?s" by (rule io_run.boot) (simp_all add: demo_state_def demo_rq_def)
  then have "io_run ?plug (io_enter ?plug ?s)" by (rule io_run.step) (rule io_step.enter, simp)
  then have "io_run ?plug ((io_enter ?plug ?s)\<lparr>io_k :=
      upd_task 1 (\<lambda>t. t\<lparr>p_cpu := 1\<rparr>) (upd_rq 0 (\<lambda>r. r\<lparr>rq_curr := 2\<rparr>) (io_k (io_enter ?plug ?s)))\<rparr>)"
    by (rule io_run.step) (rule io_step.other, simp)
  then have run: "io_run ?plug demo_waiting"
    unfolding demo_waiting_def Let_def
    by (rule io_run.step) (rule io_step.enter, simp add: io_enter_def demo_state_def)
  have w: "io_waiters demo_waiting 0 = {1, 2}" "io_waiters demo_waiting 1 = {}"
    by (auto simp: io_waiters_def demo_waiting_def io_enter_def demo_state_def Let_def)
  show ?thesis using nr_iowait_counts_waiters [OF run ok, of 0] w by simp
qed

section \<open>Facts of the rest\<close>

text \<open>
  \<open>should_resched\<close> answers no while the preemption count is not zero. In a softirq it is never zero, so
  \<open>__cond_resched_softirq\<close> never reschedules; on a kernel in which spin locks are counted the same holds
  of \<open>__cond_resched_lock\<close>, which only gives way when the lock is contended.
\<close>

lemma cond_resched_softirq_useless:
  assumes "ks_preempt_count s AND SOFTIRQ_MASK \<noteq> 0"
  shows "cond_resched_softirq E H A enable s = Some (Inr (False, s))"
proof -
  have "ks_preempt_count s \<noteq> 0" using assms by auto
  then show ?thesis using assms by (simp add: cond_resched_softirq_def should_resched_def)
qed

lemma cond_resched_lock_counted:
  assumes "ks_preempt_count s \<noteq> 0"
  shows "cond_resched_lock E H A unlock relax contended s =
    Some (Inr (if contended then (True, relax (unlock s)) else (False, s)))"
  using assms by (simp add: cond_resched_lock_def should_resched_def Let_def)

text \<open>The warning is given at most once in \<open>HZ\<close> ticks.\<close>

lemma might_sleep_rate:
  assumes "might_sleep hz jiffies count rcu offset off idle exempt prev = (True, t)" "prev \<noteq> 0"
  shows "t = jiffies \<and> \<not> time_before jiffies (prev + hz)"
  using assms by (auto simp: might_sleep_def split: if_splits)

text \<open>
  The idle task of a CPU that goes away gives its reference to the borrowed memory back and loads
  \<open>init_mm\<close>, but \<open>active_mm\<close> still names the memory, which may be freed now.
\<close>

lemma idle_task_exit_stale:
  assumes "ks_cpu s \<notin> ks_online s" "p_active_mm (ks_tasks s (current_task s)) = Some mm" "mm \<noteq> init_mm"
  shows "\<exists>t. idle_task_exit init_mm s = Inr (Some init_mm, t) \<and> ks_mm_count t mm = ks_mm_count s mm - 1 \<and>
    p_active_mm (ks_tasks t (current_task t)) = Some mm"
  using assms by (simp add: idle_task_exit_def)

lemma not_sle_minus:
  fixes x :: u64
  assumes "0 < unat x" "unat x < 2 ^ 63"
  shows "\<not> 0 \<le>s - x"
proof -
  have x: "sint x = int (unat x)"
    using assms(2) by (simp add: sint_uint signed_take_bit_int_eq_self uint_nat del: unat_of_nat of_nat_unat)
  have "sint (- x) = signed_take_bit 63 (- sint x)" by (simp add: sint_word_ariths)
  also have "\<dots> = - sint x" by (rule signed_take_bit_int_eq_self) (use assms in \<open>simp_all add: x del: of_nat_unat\<close>)
  finally show ?thesis using assms(1) by (simp add: word_sle_eq x del: of_nat_unat)
qed

text \<open>The tick is never put off by more than a second from the last one.\<close>

lemma scheduler_tick_max_deferment_bound:
  assumes "mono to_ns" and now: "now = last_tick + d" and "unat d < unat hz" "unat hz < 2 ^ 63"
  shows "scheduler_tick_max_deferment hz to_ns last_tick now = to_ns (hz - d) \<and> to_ns (hz - d) \<le> to_ns hz"
proof -
  have lt: "d < hz" using assms(3) by (simp add: word_less_nat_alt)
  have le: "hz - d \<le> hz" using lt by (simp add: word_sub_le)
  have "unat (hz - d) = unat hz - unat d" using lt by (simp add: unat_sub order.strict_implies_order)
  then have "0 < unat (hz - d)" "unat (hz - d) < 2 ^ 63" using assms(3,4) by auto
  then have "\<not> 0 \<le>s - (hz - d)" by (rule not_sle_minus)
  then show ?thesis using le now assms(1) by (simp add: scheduler_tick_max_deferment_def monoD)
qed

section \<open>Other ways into the scheduler\<close>

text \<open>
  \<open>schedule_preempt_disabled\<close>, up to \<open>schedule\<close> and when the task is back; \<open>schedule_user\<close> and
  \<open>preempt_schedule_context\<close> leave the user context first (\<open>enter\<close> is \<open>exception_enter\<close>).
\<close>

definition schedule_preempt_disabled ::
  "'x env \<Rightarrow> 'x hooks \<Rightarrow> 'x switch_ops \<Rightarrow> (tid \<Rightarrow> 'x kstate \<Rightarrow> 'x kstate) option \<Rightarrow> (tid \<Rightarrow> bool) \<Rightarrow> 'x kstate \<Rightarrow>
     (crash + 'x kstate) option"
where
  "schedule_preempt_disabled E H A flush pi s = schedule E H A flush pi (preempt_count_inc (- 1) s)"

definition schedule_preempt_disabled_back :: "'x kstate \<Rightarrow> 'x kstate" where
  "schedule_preempt_disabled_back s = preempt_count_inc 1 s"

definition schedule_user ::
  "'x env \<Rightarrow> 'x hooks \<Rightarrow> 'x switch_ops \<Rightarrow> (tid \<Rightarrow> 'x kstate \<Rightarrow> 'x kstate) option \<Rightarrow> (tid \<Rightarrow> bool) \<Rightarrow>
     ('x kstate \<Rightarrow> 'x kstate) \<Rightarrow> 'x kstate \<Rightarrow> (crash + 'x kstate) option"
where
  "schedule_user E H A flush pi enter s = schedule E H A flush pi (enter s)"

definition preempt_schedule_context ::
  "'x env \<Rightarrow> 'x hooks \<Rightarrow> 'x switch_ops \<Rightarrow> bool \<Rightarrow> ('x kstate \<Rightarrow> 'x kstate) \<Rightarrow> 'x kstate \<Rightarrow> (crash + 'x kstate) option"
where
  "preempt_schedule_context E H A irqs_off enter s =
     (if \<not> (ks_preempt_count s = 0 \<and> \<not> irqs_off) then Some (Inr s)
      else run_schedule E H A (enter (preempt_count_inc PREEMPT_ACTIVE s)))"

section \<open>Reports on tasks\<close>

text \<open>
  \<open>stat_nam\<close> is the list of state letters of the headers, \<open>pc\<close> the saved program counter, \<open>free\<close> the unused stack,
  \<open>ppid\<close> the parent's number, \<open>tflags\<close> the flags of the thread. The state is the number of the lowest bit set,
  counted from 1.
\<close>

definition state_index :: "u64 \<Rightarrow> nat" where
  "state_index st = (if st \<noteq> 0 then Suc (length (takeWhile (\<lambda>i. \<not> bit st i) [0..<64])) else 0)"

definition sched_show_task ::
  "string \<Rightarrow> (tid \<Rightarrow> u64) \<Rightarrow> (tid \<Rightarrow> u64) \<Rightarrow> (tid \<Rightarrow> int) \<Rightarrow> (tid \<Rightarrow> u64) \<Rightarrow> 'x kstate \<Rightarrow> tid \<Rightarrow> kmsg list"
where
  "sched_show_task stat_nam pc free ppid tflags s p =
     (let t = ks_tasks s p; st = state_index (p_state t)
      in [Printk ''%-15.15s %c'' [KStr (take 15 (p_comm t)), KStr [if st < length stat_nam then stat_nam ! st else CHR ''?'']],
          (if st = 0 then Printk ''  running task    '' [] else Printk '' %016lx '' [KAddr (pc p)]),
          Printk ''%5lu %5d %6d 0x%08lx'' [KAddr (free p), KInt (p_pid t), KInt (ppid p), KAddr (tflags p)]])"

definition show_state_filter ::
  "(tid \<Rightarrow> kmsg list) \<Rightarrow> tid list \<Rightarrow> u64 \<Rightarrow> 'x kstate \<Rightarrow> kmsg list"
where
  "show_state_filter show_task threads state_filter s =
     Printk ''  task                        PC stack   pid father'' [] #
     concat (map (\<lambda>p. if state_filter = 0 \<or> p_state (ks_tasks s p) AND state_filter \<noteq> 0 then show_task p else []) threads)"

definition dump_cpu_task :: "(tid \<Rightarrow> kmsg list) \<Rightarrow> cpu \<Rightarrow> 'x kstate \<Rightarrow> kmsg list" where
  "dump_cpu_task show_task c s = Printk ''Task dump for CPU %d:'' [KInt (int c)] # show_task (rq_curr (ks_rqs s c))"

text \<open>The letter of a state stands for the lowest bit that is set.\<close>

lemma state_index_lowest:
  assumes "bit st n" "\<forall>i < n. \<not> bit st i"
  shows "state_index st = Suc n"
proof -
  have n: "n < 64" using bit_imp_le_length [OF assms(1)] by simp
  then have "[0..<n + (64 - n)] = [0..<n] @ n # [Suc n..<64]"
    using upt_add_eq_append [of 0 n "64 - n"] upt_conv_Cons [OF n] by simp
  then have "[0..<64] = [0..<n] @ n # [Suc n..<64]" using n by simp
  then have "takeWhile (\<lambda>i. \<not> bit st i) [0..<64] = [0..<n]" 
    using assms takeWhile_append2 [of "[0..<n]" "\<lambda>i. \<not> bit st i" "n # [Suc n..<64]"] by simp
  moreover have "st \<noteq> 0" using assms(1) by auto
  ultimately show ?thesis by (simp add: state_index_def)
qed

lemma show_state_filter_blocked:
  "show_state_filter f threads 2 s = show_state_filter f (filter (\<lambda>p. p_state (ks_tasks s p) AND 2 \<noteq> 0) threads) 2 s"
  by (induction threads) (auto simp: show_state_filter_def)

end
