(* ===== verification/Sched_Locks.thy ===== *)
theory Sched_Locks
  imports Sched_Types
begin

text \<open>
  The locks of a task: \<open>task_rq_lock\<close> and \<open>__task_rq_lock\<close> take the lock of the runqueue a task is on while other
  CPUs move it. Each thread is at a point of the code; a step executes one access or lock operation of one
  thread. One task is followed: its CPU, its \<open>on_rq\<close>, its \<open>pi_lock\<close> and the locks of all runqueues.
\<close>

section \<open>Points of the code\<close>

datatype point =
    Idle                    \<comment> \<open>holds no lock\<close>
  | TL_start                \<comment> \<open>\<open>task_rq_lock\<close>: top of the loop\<close>
  | TL_pi                   \<comment> \<open>\<open>pi_lock\<close> taken\<close>
  | TL_read cpu             \<comment> \<open>\<open>rq = task_rq(p)\<close>\<close>
  | TL_rq cpu               \<comment> \<open>\<open>rq->lock\<close> taken\<close>
  | TL_retry                \<comment> \<open>the test failed, \<open>rq->lock\<close> dropped\<close>
  | TL_spin                 \<comment> \<open>\<open>pi_lock\<close> dropped, before \<open>while (task_on_rq_migrating(p))\<close>\<close>
  | TL_held cpu             \<comment> \<open>returned\<close>
  | TL_unlock               \<comment> \<open>\<open>task_rq_unlock\<close>: \<open>rq->lock\<close> dropped\<close>
  | Pi                      \<comment> \<open>a caller that has taken \<open>pi_lock\<close>\<close>
  | RL_read cpu             \<comment> \<open>\<open>__task_rq_lock\<close>: \<open>rq = task_rq(p)\<close>\<close>
  | RL_rq cpu
  | RL_spin
  | RL_held cpu
  | Wake_cpu cpu            \<comment> \<open>\<open>try_to_wake_up\<close>: \<open>set_task_cpu\<close> of a task that is on no runqueue\<close>
  | Wake_rq cpu
  | Wake_on cpu             \<comment> \<open>\<open>on_rq\<close> set\<close>
  | Rq cpu                  \<comment> \<open>\<open>this_rq_lock\<close>, or a balancer that has the lock of a runqueue\<close>
  | Mv_mark bool cpu        \<comment> \<open>\<open>move_queued_task\<close>: \<open>TASK_ON_RQ_MIGRATING\<close> set; the flag: with \<open>pi_lock\<close>\<close>
  | Mv_cpu bool cpu cpu     \<comment> \<open>\<open>set_task_cpu\<close> done, the old lock still held\<close>
  | Mv_gap bool cpu         \<comment> \<open>the old lock dropped\<close>
  | Mv_new bool cpu         \<comment> \<open>the new lock taken\<close>
  | Crashed                 \<comment> \<open>\<open>BUG_ON(task_cpu(p) != new_cpu)\<close>\<close>

record shared_task =
  lk_cpu :: cpu
  lk_on_rq :: int
  lk_pi :: "nat option"             \<comment> \<open>the thread that has the lock\<close>
  lk_rq :: "cpu \<Rightarrow> nat option"

definition take_rq :: "cpu \<Rightarrow> nat \<Rightarrow> shared_task \<Rightarrow> shared_task" where
  "take_rq c i x = x\<lparr>lk_rq := (lk_rq x)(c := Some i)\<rparr>"

definition drop_rq :: "cpu \<Rightarrow> shared_task \<Rightarrow> shared_task" where
  "drop_rq c x = x\<lparr>lk_rq := (lk_rq x)(c := None)\<rparr>"

section \<open>The steps of a thread\<close>

inductive thread_step :: "nat \<Rightarrow> point \<Rightarrow> shared_task \<Rightarrow> point \<Rightarrow> shared_task \<Rightarrow> bool" for i :: nat where
  \<comment> \<open>\<open>task_rq_lock\<close> and \<open>task_rq_unlock\<close>\<close>
  call: "thread_step i Idle x TL_start x"
| pi: "lk_pi x = None \<Longrightarrow> thread_step i TL_start x TL_pi (x\<lparr>lk_pi := Some i\<rparr>)"
| read: "thread_step i TL_pi x (TL_read (lk_cpu x)) x"
| rq: "lk_rq x c = None \<Longrightarrow> thread_step i (TL_read c) x (TL_rq c) (take_rq c i x)"
| test: "c = lk_cpu x \<and> lk_on_rq x \<noteq> TASK_ON_RQ_MIGRATING \<Longrightarrow> thread_step i (TL_rq c) x (TL_held c) x"
| fails: "\<not> (c = lk_cpu x \<and> lk_on_rq x \<noteq> TASK_ON_RQ_MIGRATING) \<Longrightarrow> thread_step i (TL_rq c) x TL_retry (drop_rq c x)"
| drop_pi: "thread_step i TL_retry x TL_spin (x\<lparr>lk_pi := None\<rparr>)"
| again: "lk_on_rq x \<noteq> TASK_ON_RQ_MIGRATING \<Longrightarrow> thread_step i TL_spin x TL_start x"
| unlock_rq: "thread_step i (TL_held c) x TL_unlock (drop_rq c x)"
| unlock_pi: "thread_step i TL_unlock x Idle (x\<lparr>lk_pi := None\<rparr>)"
  \<comment> \<open>a caller takes \<open>pi_lock\<close>; \<open>__task_rq_lock\<close> and \<open>__task_rq_unlock\<close>\<close>
| take_pi: "lk_pi x = None \<Longrightarrow> thread_step i Idle x Pi (x\<lparr>lk_pi := Some i\<rparr>)"
| leave_pi: "thread_step i Pi x Idle (x\<lparr>lk_pi := None\<rparr>)"
| r_read: "thread_step i Pi x (RL_read (lk_cpu x)) x"
| r_rq: "lk_rq x c = None \<Longrightarrow> thread_step i (RL_read c) x (RL_rq c) (take_rq c i x)"
| r_test: "c = lk_cpu x \<and> lk_on_rq x \<noteq> TASK_ON_RQ_MIGRATING \<Longrightarrow> thread_step i (RL_rq c) x (RL_held c) x"
| r_fails: "\<not> (c = lk_cpu x \<and> lk_on_rq x \<noteq> TASK_ON_RQ_MIGRATING) \<Longrightarrow> thread_step i (RL_rq c) x RL_spin (drop_rq c x)"
| r_again: "lk_on_rq x \<noteq> TASK_ON_RQ_MIGRATING \<Longrightarrow> thread_step i RL_spin x (RL_read (lk_cpu x)) x"
| r_unlock: "thread_step i (RL_held c) x Pi (drop_rq c x)"
  \<comment> \<open>\<open>try_to_wake_up\<close> of a task that is on no runqueue\<close>
| wake: "lk_on_rq x = 0 \<Longrightarrow> thread_step i Pi x (Wake_cpu d) (x\<lparr>lk_cpu := d\<rparr>)"
| wake_rq: "lk_rq x d = None \<Longrightarrow> thread_step i (Wake_cpu d) x (Wake_rq d) (take_rq d i x)"
| activate: "thread_step i (Wake_rq d) x (Wake_on d) (x\<lparr>lk_on_rq := TASK_ON_RQ_QUEUED\<rparr>)"
| wake_unlock: "thread_step i (Wake_on d) x Pi (drop_rq d x)"
  \<comment> \<open>\<open>this_rq_lock\<close>: the task may be put to sleep, or moved by a balancer\<close>
| this_rq: "lk_rq x c = None \<Longrightarrow> thread_step i Idle x (Rq c) (take_rq c i x)"
| deactivate: "lk_cpu x = c \<Longrightarrow> lk_on_rq x = TASK_ON_RQ_QUEUED \<Longrightarrow> thread_step i (Rq c) x (Rq c) (x\<lparr>lk_on_rq := 0\<rparr>)"
| leave_rq: "thread_step i (Rq c) x Idle (drop_rq c x)"
  \<comment> \<open>\<open>move_queued_task\<close>\<close>
| balance: "lk_cpu x = c \<Longrightarrow> lk_on_rq x = TASK_ON_RQ_QUEUED \<Longrightarrow>
    thread_step i (Rq c) x (Mv_mark False c) (x\<lparr>lk_on_rq := TASK_ON_RQ_MIGRATING\<rparr>)"
| move: "lk_on_rq x = TASK_ON_RQ_QUEUED \<Longrightarrow>
    thread_step i (TL_held c) x (Mv_mark True c) (x\<lparr>lk_on_rq := TASK_ON_RQ_MIGRATING\<rparr>)"
| set_cpu: "thread_step i (Mv_mark b c) x (Mv_cpu b c d) (x\<lparr>lk_cpu := d\<rparr>)"
| drop_old: "thread_step i (Mv_cpu b c d) x (Mv_gap b d) (drop_rq c x)"
| take_new: "lk_rq x d = None \<Longrightarrow> thread_step i (Mv_gap b d) x (Mv_new b d) (take_rq d i x)"
| bug: "lk_cpu x \<noteq> d \<Longrightarrow> thread_step i (Mv_new b d) x Crashed x"
| moved: "lk_cpu x = d \<Longrightarrow>
    thread_step i (Mv_new b d) x (if b then TL_held d else Rq d) (x\<lparr>lk_on_rq := TASK_ON_RQ_QUEUED\<rparr>)"

record lock_state =
  ls_shared :: shared_task
  ls_at :: "nat \<Rightarrow> point"

inductive lock_step :: "nat \<Rightarrow> lock_state \<Rightarrow> lock_state \<Rightarrow> bool" for i where
  "thread_step i (ls_at s i) (ls_shared s) p x \<Longrightarrow> lock_step i s (s\<lparr>ls_shared := x, ls_at := (ls_at s)(i := p)\<rparr>)"

inductive lock_reach :: "lock_state \<Rightarrow> bool" where
  start: "lk_pi x = None \<Longrightarrow> lk_rq x = (\<lambda>_. None) \<Longrightarrow> lk_on_rq x \<noteq> TASK_ON_RQ_MIGRATING \<Longrightarrow>
    lock_reach \<lparr>ls_shared = x, ls_at = (\<lambda>_. Idle)\<rparr>"
| step: "lock_reach s \<Longrightarrow> lock_step i s t \<Longrightarrow> lock_reach t"

section \<open>The invariant\<close>

fun has_pi :: "point \<Rightarrow> bool" where
  "has_pi (Mv_mark b _) = b" | "has_pi (Mv_cpu b _ _) = b" | "has_pi (Mv_gap b _) = b" | "has_pi (Mv_new b _) = b"
| "has_pi p = (case p of Idle \<Rightarrow> False | TL_start \<Rightarrow> False | TL_spin \<Rightarrow> False | Rq _ \<Rightarrow> False | Crashed \<Rightarrow> False | _ \<Rightarrow> True)"

fun has_rq :: "point \<Rightarrow> cpu option" where
  "has_rq (TL_rq c) = Some c" | "has_rq (TL_held c) = Some c" | "has_rq (RL_rq c) = Some c" | "has_rq (RL_held c) = Some c"
| "has_rq (Wake_rq c) = Some c" | "has_rq (Wake_on c) = Some c" | "has_rq (Rq c) = Some c" | "has_rq (Mv_mark _ c) = Some c"
| "has_rq (Mv_cpu _ c _) = Some c" | "has_rq (Mv_new _ d) = Some d" | "has_rq _ = None"

fun migrates :: "point \<Rightarrow> bool" where
  "migrates (Mv_mark _ _) = True" | "migrates (Mv_cpu _ _ _) = True" | "migrates (Mv_gap _ _) = True"
| "migrates (Mv_new _ _) = True" | "migrates _ = False"

text \<open>What a thread knows of the task at its point.\<close>

fun knows :: "shared_task \<Rightarrow> point \<Rightarrow> bool" where
  "knows x (TL_held c) = (lk_cpu x = c \<and> lk_on_rq x \<noteq> TASK_ON_RQ_MIGRATING)"
| "knows x (RL_held c) = (lk_cpu x = c \<and> lk_on_rq x \<noteq> TASK_ON_RQ_MIGRATING)"
| "knows x (Wake_cpu d) = (lk_cpu x = d \<and> lk_on_rq x = 0)"
| "knows x (Wake_rq d) = (lk_cpu x = d \<and> lk_on_rq x = 0)"
| "knows x (Wake_on d) = (lk_cpu x = d \<and> lk_on_rq x \<noteq> TASK_ON_RQ_MIGRATING)"
| "knows x (Mv_mark _ c) = (lk_cpu x = c \<and> lk_on_rq x = TASK_ON_RQ_MIGRATING)"
| "knows x (Mv_cpu _ _ d) = (lk_cpu x = d \<and> lk_on_rq x = TASK_ON_RQ_MIGRATING)"
| "knows x (Mv_gap _ d) = (lk_cpu x = d \<and> lk_on_rq x = TASK_ON_RQ_MIGRATING)"
| "knows x (Mv_new _ d) = (lk_cpu x = d \<and> lk_on_rq x = TASK_ON_RQ_MIGRATING)"
| "knows x Crashed = False"
| "knows x _ = True"

text \<open>A point is left only with what is known there, and the locks are those of one thread.\<close>

definition pi_books :: "shared_task \<Rightarrow> (nat \<Rightarrow> point) \<Rightarrow> bool" where
  "pi_books x at \<longleftrightarrow> (\<forall>j. lk_pi x = Some j \<longleftrightarrow> has_pi (at j))"

definition rq_books :: "shared_task \<Rightarrow> (nat \<Rightarrow> point) \<Rightarrow> bool" where
  "rq_books x at \<longleftrightarrow> (\<forall>c j. lk_rq x c = Some j \<longleftrightarrow> has_rq (at j) = Some c)"

lemma pi_one: "pi_books x at \<Longrightarrow> has_pi (at i) \<Longrightarrow> has_pi (at j) \<longleftrightarrow> j = i"
  unfolding pi_books_def by (metis option.inject)

lemma rq_one: "rq_books x at \<Longrightarrow> has_rq (at i) = Some c \<Longrightarrow> has_rq (at j) = Some c \<longleftrightarrow> j = i"
  unfolding rq_books_def by (metis option.inject)

lemma step_pi:
  assumes "thread_step i (at i) x q y" "pi_books x at" "knows x (at i)"
  shows "pi_books y (at(i := q))"
  unfolding pi_books_def
proof
  fix j
  have one: "has_pi (at i) \<Longrightarrow> has_pi (at j) \<longleftrightarrow> j = i" using assms(2) by (rule pi_one)
  have "lk_pi x = Some j \<longleftrightarrow> has_pi (at j)" using assms(2) by (simp add: pi_books_def)
  with assms(1,3) one show "lk_pi y = Some j \<longleftrightarrow> has_pi ((at(i := q)) j)"
    by (cases rule: thread_step.cases) (auto simp: take_rq_def drop_rq_def split: if_splits)
qed

lemma step_rq:
  assumes "thread_step i (at i) x q y" "rq_books x at" "knows x (at i)"
  shows "rq_books y (at(i := q))"
  unfolding rq_books_def
proof (intro allI)
  fix c j
  have one: "has_rq (at i) = Some c \<Longrightarrow> has_rq (at j) = Some c \<longleftrightarrow> j = i" using assms(2) by (rule rq_one)
  have "lk_rq x c = Some j \<longleftrightarrow> has_rq (at j) = Some c" using assms(2) by (simp add: rq_books_def)
  with assms(1,3) one show "lk_rq y c = Some j \<longleftrightarrow> has_rq ((at(i := q)) j) = Some c"
    by (cases rule: thread_step.cases) (auto simp: take_rq_def drop_rq_def split: if_splits)
qed

text \<open>What the thread that makes the step knows after it, and who migrates the task.\<close>

lemma step_knows_self: "thread_step i p x q y \<Longrightarrow> knows x p \<Longrightarrow> knows y q"
  by (erule thread_step.cases) (auto simp: take_rq_def drop_rq_def)

lemma step_migrates:
  assumes "thread_step i p x q y" "knows x p" "migrates p \<longrightarrow> lk_on_rq x = TASK_ON_RQ_MIGRATING"
  shows "migrates q \<longleftrightarrow> (if migrates p then lk_on_rq y = TASK_ON_RQ_MIGRATING else lk_on_rq x \<noteq> lk_on_rq y \<and> lk_on_rq y = TASK_ON_RQ_MIGRATING)"
    and "\<not> migrates p \<Longrightarrow> lk_on_rq x = TASK_ON_RQ_MIGRATING \<Longrightarrow> lk_on_rq y = TASK_ON_RQ_MIGRATING"
  using assms by (cases rule: thread_step.cases; auto simp: take_rq_def drop_rq_def)+

text \<open>
  A thread that knows something of the task holds a lock that keeps the others from changing it: who holds a
  runqueue's lock keeps a task that is there, who holds \<open>pi_lock\<close> keeps a task that is on no runqueue.
\<close>

lemma step_knows_other:
  assumes "thread_step i (at i) x q y" "pi_books x at" "rq_books x at" "knows x (at i)" "knows x (at j)" "i \<noteq> j"
    and "\<not> (migrates (at i) \<and> migrates (at j))"
  shows "knows y (at j)"
proof -
  have pi: "has_pi (at i) \<Longrightarrow> \<not> has_pi (at j)" using pi_one [OF assms(2), of i j] assms(6) by auto
  have rq: "has_rq (at i) = Some c \<Longrightarrow> has_rq (at j) \<noteq> Some c" for c using rq_one [OF assms(3), of i c j] assms(6) by auto
  show ?thesis
    using assms(1,4,5,7) pi rq
    by (cases rule: thread_step.cases; cases "at j") (auto simp: take_rq_def drop_rq_def split: if_splits)
qed

text \<open>There is at most one mover, and one exactly while the task is marked.\<close>

definition mover_books :: "shared_task \<Rightarrow> (nat \<Rightarrow> point) \<Rightarrow> bool" where
  "mover_books x at \<longleftrightarrow> (lk_on_rq x = TASK_ON_RQ_MIGRATING \<longleftrightarrow> (\<exists>i. migrates (at i))) \<and>
     (\<forall>i j. migrates (at i) \<longrightarrow> migrates (at j) \<longrightarrow> i = j)"

lemma step_mover:
  assumes "thread_step i (at i) x q y" "mover_books x at" "knows x (at i)"
  shows "mover_books y (at(i := q))"
proof -
  have mark: "migrates (at j) \<Longrightarrow> lk_on_rq x = TASK_ON_RQ_MIGRATING" for j using assms(2) by (auto simp: mover_books_def)
  note q = step_migrates [OF assms(1,3)]
  show ?thesis
  proof (cases "migrates (at i)")
    case True
    then have "\<not> migrates (at j)" if "j \<noteq> i" for j using assms(2) that by (auto simp: mover_books_def)
    with q(1) mark True show ?thesis by (auto simp: mover_books_def)
  next
    case False
    show ?thesis
    proof (cases "lk_on_rq x = TASK_ON_RQ_MIGRATING")
      case True
      then obtain j where "migrates (at j)" using assms(2) by (auto simp: mover_books_def)
      moreover from this have "j \<noteq> i" using False by auto
      moreover have "\<not> migrates q" using q(1) mark True False by auto
      ultimately show ?thesis using q(2) mark True False assms(2) by (auto simp: mover_books_def)
    next
      case no: False
      then have "\<not> migrates (at j)" for j using mark by auto
      with q(1) mark no False show ?thesis by (auto simp: mover_books_def)
    qed
  qed
qed

definition lock_inv :: "lock_state \<Rightarrow> bool" where
  "lock_inv s \<longleftrightarrow> pi_books (ls_shared s) (ls_at s) \<and> rq_books (ls_shared s) (ls_at s) \<and>
     (\<forall>i. knows (ls_shared s) (ls_at s i)) \<and> mover_books (ls_shared s) (ls_at s)"

lemma lock_inv_step:
  assumes "lock_step i s t" "lock_inv s"
  shows "lock_inv t"
proof -
  let ?x = "ls_shared s" and ?at = "ls_at s"
  obtain q y where st: "thread_step i (?at i) ?x q y" and t: "t = s\<lparr>ls_shared := y, ls_at := ?at(i := q)\<rparr>"
    using assms(1) by (cases rule: lock_step.cases) auto
  have inv: "pi_books ?x ?at" "rq_books ?x ?at" "knows ?x (?at j)" "mover_books ?x ?at" for j
    using assms(2) by (simp_all add: lock_inv_def)
  have "knows y ((?at(i := q)) j)" for j
  proof (cases "j = i")
    case True
    then show ?thesis using step_knows_self [OF st inv(3)] by simp
  next
    case False
    then have "\<not> (migrates (?at i) \<and> migrates (?at j))" using inv(4) by (auto simp: mover_books_def)
    with False show ?thesis using step_knows_other [OF st inv(1,2,3,3), of j] by simp
  qed
  then show ?thesis
    using step_pi [OF st inv(1,3)] step_rq [OF st inv(2,3)] step_mover [OF st inv(4,3)] by (simp add: lock_inv_def t)
qed

lemma lock_reach_inv: "lock_reach s \<Longrightarrow> lock_inv s"
proof (induction rule: lock_reach.induct)
  case (start x)
  then show ?case by (simp add: lock_inv_def pi_books_def rq_books_def mover_books_def)
next
  case (step s i t)
  then show ?case by (blast intro: lock_inv_step)
qed

section \<open>What the locks give\<close>

text \<open>C3 When \<open>task_rq_lock\<close> or \<open>__task_rq_lock\<close> has returned, in every interleaving with wakeups, balancers, other
  lockers and affinity changes, the runqueue whose lock is held is the one the task is on, the task is
  not in the middle of a move, and no step of another thread changes its CPU or its \<open>on_rq\<close>. No thread
  ever runs into the \<open>BUG_ON\<close> of \<open>move_queued_task\<close>.
\<close>

theorem task_rq_lock_holds:
  assumes "lock_reach s"
  shows "ls_at s j \<noteq> Crashed \<and>
    (ls_at s j = TL_held c \<or> ls_at s j = RL_held c \<longrightarrow>
       lk_cpu (ls_shared s) = c \<and> lk_on_rq (ls_shared s) \<noteq> TASK_ON_RQ_MIGRATING \<and>
       lk_rq (ls_shared s) c = Some j \<and> lk_pi (ls_shared s) = Some j \<and>
       (\<forall>i t. i \<noteq> j \<longrightarrow> lock_step i s t \<longrightarrow>
          lk_cpu (ls_shared t) = c \<and> lk_on_rq (ls_shared t) = lk_on_rq (ls_shared s)))"
proof -
  have inv: "lock_inv s" using assms by (rule lock_reach_inv)
  let ?x = "ls_shared s" and ?at = "ls_at s"
  have kn: "knows ?x (?at i)" for i using inv by (simp add: lock_inv_def)
  have "?at j \<noteq> Crashed" using kn [of j] by auto
  moreover have "lk_cpu (ls_shared t) = c \<and> lk_on_rq (ls_shared t) = lk_on_rq ?x"
    if held: "?at j = TL_held c \<or> ?at j = RL_held c" and other: "i \<noteq> j" and st: "lock_step i s t" for i t
  proof -
    have own: "has_pi (?at j)" "has_rq (?at j) = Some c" using held by auto
    have books: "pi_books ?x ?at" "rq_books ?x ?at" using inv by (simp_all add: lock_inv_def)
    have not: "\<not> has_pi (?at i)" "has_rq (?at i) \<noteq> Some c"
      using pi_one [OF books(1) own(1), of i] rq_one [OF books(2) own(2), of i] other by auto
    have c: "lk_cpu ?x = c" "lk_on_rq ?x \<noteq> TASK_ON_RQ_MIGRATING" using kn [of j] held by auto
    obtain q y where q: "thread_step i (?at i) ?x q y" "ls_shared t = y"
      using st by (cases rule: lock_step.cases) auto
    show ?thesis
      using q(1) not c kn [of i] unfolding q(2)
      by (cases rule: thread_step.cases) (auto simp: take_rq_def drop_rq_def)
  qed
  moreover have "lk_cpu ?x = c \<and> lk_on_rq ?x \<noteq> TASK_ON_RQ_MIGRATING \<and> lk_rq ?x c = Some j \<and> lk_pi ?x = Some j"
    if "?at j = TL_held c \<or> ?at j = RL_held c"
  proof -
    have "lk_cpu ?x = c \<and> lk_on_rq ?x \<noteq> TASK_ON_RQ_MIGRATING" using kn [of j] that by auto
    with inv that show ?thesis by (auto simp: lock_inv_def pi_books_def rq_books_def)
  qed
  ultimately show ?thesis by blast
qed

text \<open>Where a thread can go on: always under a runqueue's lock, and elsewhere if what it waits for is there.\<close>

lemma goes_on_rq:
  assumes "has_rq p = Some c" "knows x p"
  shows "\<exists>q y. thread_step i p x q y"
proof -
  have tl: "\<exists>q y. thread_step i (TL_rq c) x q y" for c
    by (cases "c = lk_cpu x \<and> lk_on_rq x \<noteq> TASK_ON_RQ_MIGRATING") (blast intro: test fails)+
  have rl: "\<exists>q y. thread_step i (RL_rq c) x q y" for c
    by (cases "c = lk_cpu x \<and> lk_on_rq x \<noteq> TASK_ON_RQ_MIGRATING") (blast intro: r_test r_fails)+
  have new: "lk_cpu x = d \<Longrightarrow> \<exists>q y. thread_step i (Mv_new b d) x q y" for b d
    by (blast intro: moved)
  show ?thesis
    using assms tl rl new by (cases p) (auto intro: thread_step.intros)
qed

lemma goes_on_free:
  assumes "has_rq p = None" "p \<noteq> Idle" "knows x p" "\<forall>c. lk_rq x c = None"
    and "p = TL_start \<Longrightarrow> lk_pi x = None" "p = TL_spin \<or> p = RL_spin \<Longrightarrow> lk_on_rq x \<noteq> TASK_ON_RQ_MIGRATING"
  shows "\<exists>q y. thread_step i p x q y"
  using assms by (cases p) (auto intro: thread_step.intros)

text \<open>C28 There is no deadlock: as long as some thread is in the middle of its code, one of those threads can go on, whatever
  the others hold.
\<close>

theorem task_locks_no_deadlock:
  assumes "lock_reach s" "ls_at s j \<noteq> Idle"
  shows "\<exists>i t. ls_at s i \<noteq> Idle \<and> lock_step i s t"
proof -
  have inv: "lock_inv s" using assms(1) by (rule lock_reach_inv)
  let ?x = "ls_shared s" and ?at = "ls_at s"
  have kn: "knows ?x (?at i)" for i using inv by (simp add: lock_inv_def)
  have go: "\<exists>t. lock_step i s t" if "\<exists>q y. thread_step i (?at i) ?x q y" for i
    using that by (blast intro: lock_step.intros)
  show ?thesis
  proof (cases "\<exists>i c. has_rq (?at i) = Some c")
    case True
    then obtain i c where i: "has_rq (?at i) = Some c" by blast
    then have "?at i \<noteq> Idle" by auto
    with go [OF goes_on_rq [OF i kn]] show ?thesis by blast
  next
    case False
    then have no: "has_rq (?at i) = None" for i by auto
    have free: "\<forall>c. lk_rq ?x c = None"
    proof
      fix c
      show "lk_rq ?x c = None" using inv False by (cases "lk_rq ?x c") (auto simp: lock_inv_def rq_books_def)
    qed
    obtain i where i: "?at i \<noteq> Idle" "?at i = TL_start \<longrightarrow> lk_pi ?x = None"
        "?at i = TL_spin \<or> ?at i = RL_spin \<longrightarrow> lk_on_rq ?x \<noteq> TASK_ON_RQ_MIGRATING"
    proof (cases "lk_on_rq ?x = TASK_ON_RQ_MIGRATING")
      case True
      then obtain i where "migrates (?at i)" using inv by (auto simp: lock_inv_def mover_books_def)
      then show ?thesis using that [of i] by (cases "?at i") auto
    next
      case still: False
      show ?thesis
      proof (cases "lk_pi ?x")
        case None
        with assms(2) still that [of j] show ?thesis by simp
      next
        case (Some i)
        then have "has_pi (?at i)" using inv unfolding lock_inv_def pi_books_def by blast
        then have "?at i \<noteq> Idle" "?at i \<noteq> TL_start" by auto
        with still that [of i] show ?thesis by simp
      qed
    qed
    then show ?thesis using go [OF goes_on_free [OF no i(1) kn free]] by blast
  qed
qed

text \<open>
  Thread 2 has read CPU 0 in \<open>task_rq_lock\<close> when thread 1, a balancer, moves the task to CPU 1; in the middle of
  the move, with no runqueue locked, thread 2 finds that it has the wrong lock, waits and tries again.
\<close>

definition demo_locks :: "cpu \<Rightarrow> int \<Rightarrow> nat option \<Rightarrow> nat option \<Rightarrow> nat option \<Rightarrow> point \<Rightarrow> point \<Rightarrow> lock_state" where
  "demo_locks c q p r0 r1 a b =
     \<lparr>ls_shared = \<lparr>lk_cpu = c, lk_on_rq = q, lk_pi = p, lk_rq = (\<lambda>_. None)(0 := r0, 1 := r1)\<rparr>,
      ls_at = (\<lambda>_. Idle)(1 := a, 2 := b)\<rparr>"

lemma lock_reach_go:
  assumes "lock_reach s" "thread_step i (ls_at s i) (ls_shared s) (ls_at t i) (ls_shared t)"
    and "ls_at t = (ls_at s)(i := ls_at t i)"
  shows "lock_reach t"
proof -
  have "t = s\<lparr>ls_shared := ls_shared t, ls_at := (ls_at s)(i := ls_at t i)\<rparr>" using assms(3) by simp
  then show ?thesis using lock_reach.step [OF assms(1)] lock_step.intros [OF assms(2)] by metis
qed

lemma demo_locks_reach:
  "lock_reach (demo_locks 1 2 None None None (Mv_gap False 1) TL_spin)" "lock_reach (demo_locks 1 1 (Some 2) None (Some 2) Idle (TL_held 1))"
proof -
  note go = lock_reach_go
  have start: "lock_reach (demo_locks 0 1 None None None Idle Idle)"
    unfolding demo_locks_def using lock_reach.start [of "\<lparr>lk_cpu = 0, lk_on_rq = 1, lk_pi = None, lk_rq = \<lambda>_. None\<rparr>"]
    by (simp add: fun_upd_def)
  from start have "lock_reach (demo_locks 0 1 None None None Idle TL_start)" by (rule go [where i = 2]) (auto simp: demo_locks_def thread_step.simps take_rq_def drop_rq_def fun_eq_iff)
  then have "lock_reach (demo_locks 0 1 (Some 2) None None Idle TL_pi)" by (rule go [where i = 2]) (auto simp: demo_locks_def thread_step.simps take_rq_def drop_rq_def fun_eq_iff)
  then have "lock_reach (demo_locks 0 1 (Some 2) None None Idle (TL_read 0))" by (rule go [where i = 2]) (auto simp: demo_locks_def thread_step.simps take_rq_def drop_rq_def fun_eq_iff)
  then have "lock_reach (demo_locks 0 1 (Some 2) (Some 1) None (Rq 0) (TL_read 0))" by (rule go [where i = 1]) (auto simp: demo_locks_def thread_step.simps take_rq_def drop_rq_def fun_eq_iff)
  then have "lock_reach (demo_locks 0 2 (Some 2) (Some 1) None (Mv_mark False 0) (TL_read 0))" by (rule go [where i = 1]) (auto simp: demo_locks_def thread_step.simps take_rq_def drop_rq_def fun_eq_iff)
  then have "lock_reach (demo_locks 1 2 (Some 2) (Some 1) None (Mv_cpu False 0 1) (TL_read 0))" by (rule go [where i = 1]) (auto simp: demo_locks_def thread_step.simps take_rq_def drop_rq_def fun_eq_iff)
  then have "lock_reach (demo_locks 1 2 (Some 2) None None (Mv_gap False 1) (TL_read 0))" by (rule go [where i = 1]) (auto simp: demo_locks_def thread_step.simps take_rq_def drop_rq_def fun_eq_iff)
  then have "lock_reach (demo_locks 1 2 (Some 2) (Some 2) None (Mv_gap False 1) (TL_rq 0))" by (rule go [where i = 2]) (auto simp: demo_locks_def thread_step.simps take_rq_def drop_rq_def fun_eq_iff)
  then have "lock_reach (demo_locks 1 2 (Some 2) None None (Mv_gap False 1) TL_retry)" by (rule go [where i = 2]) (auto simp: demo_locks_def thread_step.simps take_rq_def drop_rq_def fun_eq_iff)
  then have "lock_reach (demo_locks 1 2 None None None (Mv_gap False 1) TL_spin)" by (rule go [where i = 2]) (auto simp: demo_locks_def thread_step.simps take_rq_def drop_rq_def fun_eq_iff)
  note mid = this
  from mid have "lock_reach (demo_locks 1 2 None None (Some 1) (Mv_new False 1) TL_spin)" by (rule go [where i = 1]) (auto simp: demo_locks_def thread_step.simps take_rq_def drop_rq_def fun_eq_iff)
  then have "lock_reach (demo_locks 1 1 None None (Some 1) (Rq 1) TL_spin)" by (rule go [where i = 1]) (auto simp: demo_locks_def thread_step.simps take_rq_def drop_rq_def fun_eq_iff)
  then have "lock_reach (demo_locks 1 1 None None None Idle TL_spin)" by (rule go [where i = 1]) (auto simp: demo_locks_def thread_step.simps take_rq_def drop_rq_def fun_eq_iff)
  then have "lock_reach (demo_locks 1 1 None None None Idle TL_start)" by (rule go [where i = 2]) (auto simp: demo_locks_def thread_step.simps take_rq_def drop_rq_def fun_eq_iff)
  then have "lock_reach (demo_locks 1 1 (Some 2) None None Idle TL_pi)" by (rule go [where i = 2]) (auto simp: demo_locks_def thread_step.simps take_rq_def drop_rq_def fun_eq_iff)
  then have "lock_reach (demo_locks 1 1 (Some 2) None None Idle (TL_read 1))" by (rule go [where i = 2]) (auto simp: demo_locks_def thread_step.simps take_rq_def drop_rq_def fun_eq_iff)
  then have "lock_reach (demo_locks 1 1 (Some 2) None (Some 2) Idle (TL_rq 1))" by (rule go [where i = 2]) (auto simp: demo_locks_def thread_step.simps take_rq_def drop_rq_def fun_eq_iff)
  then have "lock_reach (demo_locks 1 1 (Some 2) None (Some 2) Idle (TL_held 1))" by (rule go [where i = 2]) (auto simp: demo_locks_def thread_step.simps take_rq_def drop_rq_def fun_eq_iff)
  then show "lock_reach (demo_locks 1 1 (Some 2) None (Some 2) Idle (TL_held 1))" .
  show "lock_reach (demo_locks 1 2 None None None (Mv_gap False 1) TL_spin)" by (rule mid)
qed

theorem task_rq_lock_holds_witness:
  "let s = demo_locks 1 1 (Some 2) None (Some 2) Idle (TL_held 1)
   in lk_cpu (ls_shared s) = 1 \<and> (\<forall>t. lock_step 1 s t \<longrightarrow> lk_cpu (ls_shared t) = 1 \<and> lk_on_rq (ls_shared t) = 1)"
proof -
  let ?s = "demo_locks 1 1 (Some 2) None (Some 2) Idle (TL_held 1)"
  have "ls_at ?s 2 = TL_held 1" "lk_on_rq (ls_shared ?s) = 1" "(1 :: nat) \<noteq> 2" by (simp_all add: demo_locks_def)
  with task_rq_lock_holds [OF demo_locks_reach(2), of 2 1] show ?thesis unfolding Let_def by metis
qed

theorem task_locks_no_deadlock_witness:
  "\<exists>i t. ls_at (demo_locks 1 2 None None None (Mv_gap False 1) TL_spin) i \<noteq> Idle \<and>
     lock_step i (demo_locks 1 2 None None None (Mv_gap False 1) TL_spin) t"
  by (rule task_locks_no_deadlock [OF demo_locks_reach(1), of 2]) (simp add: demo_locks_def)

end
