(* ===== verification/Sched_Sysctl.thy ===== *)
theory Sched_Sysctl
  imports Kernel_Strings
begin

text \<open>
  The tables of the scheduling domains under \<^verbatim>\<open>/proc/sys/kernel/sched_domain\<close>: three levels of
  arrays of \<open>ctl_table\<close>, the names of the upper two on the heap, and their release. Every allocation can
  fail. Tables and strings are at addresses that are not used again, so an access after the release
  is seen. \<open>'d\<close> stands for the domains.
\<close>

section \<open>Entries and the heap\<close>

datatype ctl_name = Static string | Heap nat

datatype ctl_handler = Doulongvec_minmax | Dointvec_minmax | Dostring

record 'd ctl_table =
  ct_procname :: "ctl_name option"
  ct_data :: "('d \<times> string) option"     \<comment> \<open>a field of a domain\<close>
  ct_maxlen :: nat
  ct_mode :: nat
  ct_child :: "nat option"
  ct_handler :: "ctl_handler option"
  ct_load_idx :: bool                    \<comment> \<open>\<open>extra1\<close> and \<open>extra2\<close> are the bounds of a load index\<close>

definition blank_ctl :: "'d ctl_table" where
  "blank_ctl = \<lparr>ct_procname = None, ct_data = None, ct_maxlen = 0, ct_mode = 0, ct_child = None, ct_handler = None,
     ct_load_idx = False\<rparr>"

text \<open>\<open>sc_brk\<close> numbers the allocations; \<open>sc_dir\<close> is \<open>sd_ctl_dir[0].child\<close>, \<open>sc_header\<close> is \<open>sd_sysctl_header\<close>.\<close>

record 'd sysctl =
  sc_tables :: "nat \<rightharpoonup> 'd ctl_table list"
  sc_strings :: "nat \<rightharpoonup> string"
  sc_brk :: nat
  sc_dir :: "nat option"
  sc_header :: "nat option"
  sc_warnings :: "string list"

definition sd_alloc_ctl_entry :: "(nat \<Rightarrow> bool) \<Rightarrow> nat \<Rightarrow> 'd sysctl \<Rightarrow> nat option \<times> 'd sysctl" where
  "sd_alloc_ctl_entry ok n s =
     (let a = sc_brk s; s = s\<lparr>sc_brk := a + 1\<rparr>
      in if ok a then (Some a, s\<lparr>sc_tables := (sc_tables s)(a \<mapsto> replicate n blank_ctl)\<rparr>) else (None, s))"

definition kstrdup :: "(nat \<Rightarrow> bool) \<Rightarrow> string \<Rightarrow> 'd sysctl \<Rightarrow> nat option \<times> 'd sysctl" where
  "kstrdup ok str s =
     (let a = sc_brk s; s = s\<lparr>sc_brk := a + 1\<rparr>
      in if ok a then (Some a, s\<lparr>sc_strings := (sc_strings s)(a \<mapsto> str)\<rparr>) else (None, s))"

text \<open>A load and a store of \<open>table[i]\<close>.\<close>

definition ctl_at :: "nat \<Rightarrow> nat \<Rightarrow> 'd sysctl \<Rightarrow> crash + 'd ctl_table" where
  "ctl_at a i s =
     (case sc_tables s a of None \<Rightarrow> Inl UseAfterFree
      | Some es \<Rightarrow> if i < length es then Inr (es ! i) else Inl OutOfBounds)"

definition ctl_put :: "nat \<Rightarrow> nat \<Rightarrow> ('d ctl_table \<Rightarrow> 'd ctl_table) \<Rightarrow> 'd sysctl \<Rightarrow> crash + 'd sysctl" where
  "ctl_put a i f s =
     (case sc_tables s a of None \<Rightarrow> Inl UseAfterFree
      | Some es \<Rightarrow> if i < length es then Inr (s\<lparr>sc_tables := (sc_tables s)(a \<mapsto> es[i := f (es ! i)])\<rparr>)
                   else Inl OutOfBounds)"

text \<open>\<open>kfree\<close> of a table and of a name.\<close>

definition free_table :: "nat \<Rightarrow> 'd sysctl \<Rightarrow> crash + 'd sysctl" where
  "free_table a s =
     (if sc_tables s a = None then Inl UseAfterFree else Inr (s\<lparr>sc_tables := (sc_tables s)(a := None)\<rparr>))"

definition free_name :: "ctl_name option \<Rightarrow> 'd sysctl \<Rightarrow> crash + 'd sysctl" where
  "free_name n s =
     (case n of None \<Rightarrow> Inr s | Some (Static _) \<Rightarrow> Inl BadPointer
      | Some (Heap x) \<Rightarrow>
          if sc_strings s x = None then Inl UseAfterFree else Inr (s\<lparr>sc_strings := (sc_strings s)(x := None)\<rparr>))"

section \<open>Building the tables\<close>

definition set_table_entry ::
  "nat \<Rightarrow> nat \<Rightarrow> string \<Rightarrow> 'd \<times> string \<Rightarrow> nat \<Rightarrow> nat \<Rightarrow> ctl_handler \<Rightarrow> bool \<Rightarrow> 'd sysctl \<Rightarrow> crash + 'd sysctl"
where
  "set_table_entry a i procname field maxlen mode handler load_idx =
     ctl_put a i (\<lambda>e. let e = e\<lparr>ct_procname := Some (Static procname), ct_data := Some field, ct_maxlen := maxlen,
                                 ct_mode := mode, ct_handler := Some handler\<rparr>
                      in if load_idx then e\<lparr>ct_load_idx := True\<rparr> else e)"

text \<open>The files of a domain: name, size, mode, handler, and whether the value is a load index.\<close>

definition domain_files :: "(string \<times> nat \<times> nat \<times> ctl_handler \<times> bool) list" where
  "domain_files =
     [(''min_interval'', 8, 420, Doulongvec_minmax, False), (''max_interval'', 8, 420, Doulongvec_minmax, False),
      (''busy_idx'', 4, 420, Dointvec_minmax, True), (''idle_idx'', 4, 420, Dointvec_minmax, True),
      (''newidle_idx'', 4, 420, Dointvec_minmax, True), (''wake_idx'', 4, 420, Dointvec_minmax, True),
      (''forkexec_idx'', 4, 420, Dointvec_minmax, True), (''busy_factor'', 4, 420, Dointvec_minmax, False),
      (''imbalance_pct'', 4, 420, Dointvec_minmax, False), (''cache_nice_tries'', 4, 420, Dointvec_minmax, False),
      (''flags'', 4, 420, Dointvec_minmax, False), (''max_newidle_lb_cost'', 8, 420, Doulongvec_minmax, False),
      (''name'', 128, 292, Dostring, False)]"

primrec set_entries ::
  "nat \<Rightarrow> 'd \<Rightarrow> nat \<Rightarrow> (string \<times> nat \<times> nat \<times> ctl_handler \<times> bool) list \<Rightarrow> 'd sysctl \<Rightarrow> crash + 'd sysctl"
where
  "set_entries a d i [] s = Inr s"
| "set_entries a d i (f # fs) s =
     (case f of (n, len, mode, h, idx) \<Rightarrow>
        bindC (set_table_entry a i n (d, n) len mode h idx s) (set_entries a d (i + 1) fs))"

definition sd_alloc_ctl_domain_table :: "(nat \<Rightarrow> bool) \<Rightarrow> 'd \<Rightarrow> 'd sysctl \<Rightarrow> crash + nat option \<times> 'd sysctl" where
  "sd_alloc_ctl_domain_table ok d s =
     (case sd_alloc_ctl_entry ok 14 s of
        (None, s) \<Rightarrow> Inr (None, s)
      | (Some a, s) \<Rightarrow> bindC (set_entries a d 0 domain_files s) (\<lambda>s. Inr (Some a, s)))"

text \<open>
  The body of the two loops that fill a directory: \<open>procname\<close>, \<open>mode\<close> and \<open>child\<close> of entry \<open>i\<close>. The name is
  printed into a buffer of 32 bytes.
\<close>

definition dir_entry ::
  "(nat \<Rightarrow> bool) \<Rightarrow> ('d sysctl \<Rightarrow> crash + nat option \<times> 'd sysctl) \<Rightarrow> nat \<Rightarrow> nat \<Rightarrow> string \<Rightarrow> 'd sysctl \<Rightarrow> crash + 'd sysctl"
where
  "dir_entry ok child a i str s =
     (let (n, s) = kstrdup ok (take 31 str) s
      in bindC (ctl_put a i (\<lambda>e. e\<lparr>ct_procname := map_option Heap n\<rparr>) s) (\<lambda>s.
         bindC (ctl_put a i (\<lambda>e. e\<lparr>ct_mode := 365\<rparr>) s) (\<lambda>s.
         bindC (child s) (\<lambda>(c, s). ctl_put a i (\<lambda>e. e\<lparr>ct_child := c\<rparr>) s))))"

primrec domain_entries :: "(nat \<Rightarrow> bool) \<Rightarrow> nat \<Rightarrow> nat \<Rightarrow> 'd list \<Rightarrow> 'd sysctl \<Rightarrow> crash + 'd sysctl" where
  "domain_entries ok a i [] s = Inr s"
| "domain_entries ok a i (d # ds) s =
     bindC (dir_entry ok (sd_alloc_ctl_domain_table ok d) a i (''domain'' @ nat_str i) s) (domain_entries ok a (i + 1) ds)"

text \<open>\<open>doms\<close>: the domains of each CPU, from the lowest one.\<close>

definition sd_alloc_ctl_cpu_table ::
  "(nat \<Rightarrow> bool) \<Rightarrow> (nat \<Rightarrow> 'd list) \<Rightarrow> nat \<Rightarrow> 'd sysctl \<Rightarrow> crash + nat option \<times> 'd sysctl"
where
  "sd_alloc_ctl_cpu_table ok doms c s =
     (case sd_alloc_ctl_entry ok (length (doms c) + 1) s of
        (None, s) \<Rightarrow> Inr (None, s)
      | (Some a, s) \<Rightarrow> bindC (domain_entries ok a 0 (doms c) s) (\<lambda>s. Inr (Some a, s)))"

primrec cpu_entries ::
  "(nat \<Rightarrow> bool) \<Rightarrow> (nat \<Rightarrow> 'd list) \<Rightarrow> nat \<Rightarrow> nat \<Rightarrow> nat list \<Rightarrow> 'd sysctl \<Rightarrow> crash + 'd sysctl"
where
  "cpu_entries ok doms a i [] s = Inr s"
| "cpu_entries ok doms a i (c # cs) s =
     bindC (dir_entry ok (sd_alloc_ctl_cpu_table ok doms c) a i (''cpu'' @ nat_str c) s) (cpu_entries ok doms a (i + 1) cs)"

definition warn_if :: "bool \<Rightarrow> string \<Rightarrow> 'd sysctl \<Rightarrow> 'd sysctl" where
  "warn_if b w s = (if b then s\<lparr>sc_warnings := w # sc_warnings s\<rparr> else s)"

text \<open>\<open>header\<close> is the result of \<open>register_sysctl_table\<close>, which may fail.\<close>

definition register_sched_domain_sysctl ::
  "(nat \<Rightarrow> bool) \<Rightarrow> (nat \<Rightarrow> 'd list) \<Rightarrow> nat list \<Rightarrow> nat option \<Rightarrow> 'd sysctl \<Rightarrow> crash + 'd sysctl"
where
  "register_sched_domain_sysctl ok doms possible header s =
     (let (entry, s) = sd_alloc_ctl_entry ok (length possible + 1) s;
          s = warn_if (sc_dir s \<noteq> None) ''sd_ctl_dir[0].child'' s;
          s = s\<lparr>sc_dir := entry\<rparr>
      in case entry of
           None \<Rightarrow> Inr s
         | Some a \<Rightarrow> bindC (cpu_entries ok doms a 0 possible s) (\<lambda>s.
             let s = warn_if (sc_header s \<noteq> None) ''sd_sysctl_header'' s
             in Inr (s\<lparr>sc_header := header\<rparr>)))"

section \<open>Releasing them\<close>

text \<open>\<open>sd_free_ctl_entry\<close>: the loop over the entries from the \<open>i\<close>-th one on, and the release of the table.\<close>

partial_function (option) sd_free_ctl_entry :: "nat \<Rightarrow> nat \<Rightarrow> 'd sysctl \<Rightarrow> (crash + 'd sysctl) option" where
  "sd_free_ctl_entry a i s =
     (case ctl_at a i s of
        Inl e \<Rightarrow> Some (Inl e)
      | Inr e \<Rightarrow>
          if ct_mode e = 0 then Some (free_table a s)
          else Option.bind
            (case ct_child e of
               None \<Rightarrow> Some (Inr s)
             | Some b \<Rightarrow> Option.bind (sd_free_ctl_entry b 0 s) (\<lambda>r. Some (bindC r (ctl_put a i (\<lambda>e. e\<lparr>ct_child := None\<rparr>)))))
            (\<lambda>r. case bindC r (\<lambda>s. if ct_handler e = None then free_name (ct_procname e) s else Inr s) of
                   Inl e \<Rightarrow> Some (Inl e)
                 | Inr s \<Rightarrow> sd_free_ctl_entry a (i + 1) s))"

definition unregister_sched_domain_sysctl :: "'d sysctl \<Rightarrow> (crash + 'd sysctl) option" where
  "unregister_sched_domain_sysctl s =
     (let s = s\<lparr>sc_header := None\<rparr>
      in case sc_dir s of
           None \<Rightarrow> Some (Inr s)
         | Some a \<Rightarrow> map_option (map_sum id (\<lambda>s. s\<lparr>sc_dir := None\<rparr>)) (sd_free_ctl_entry a 0 s))"

section \<open>Who owns what\<close>

text \<open>
  \<open>drop_objs T S\<close> takes tables and strings away; \<open>agree T S\<close>: two states have the same there. A table
  \<open>releases\<close> its objects if the release of the table takes away exactly them, in every state that has them.
\<close>

definition drop_objs :: "nat set \<Rightarrow> nat set \<Rightarrow> 'd sysctl \<Rightarrow> 'd sysctl" where
  "drop_objs T S s = s\<lparr>sc_tables := sc_tables s |` (- T), sc_strings := sc_strings s |` (- S)\<rparr>"

definition agree :: "nat set \<Rightarrow> nat set \<Rightarrow> 'd sysctl \<Rightarrow> 'd sysctl \<Rightarrow> bool" where
  "agree T S s t \<longleftrightarrow> (\<forall>x\<in>T. sc_tables t x = sc_tables s x) \<and> (\<forall>x\<in>S. sc_strings t x = sc_strings s x)"

definition releases :: "'d sysctl \<Rightarrow> nat \<Rightarrow> nat set \<Rightarrow> nat set \<Rightarrow> bool" where
  "releases s a T S \<longleftrightarrow> (\<forall>t. agree T S s t \<longrightarrow> sd_free_ctl_entry a 0 t = Some (Inr (drop_objs T S t)))"

lemma drop_objs_simps [simp]:
  "sc_tables (drop_objs T S s) = sc_tables s |` (- T)" "sc_strings (drop_objs T S s) = sc_strings s |` (- S)"
  "sc_brk (drop_objs T S s) = sc_brk s" "sc_dir (drop_objs T S s) = sc_dir s"
  "sc_header (drop_objs T S s) = sc_header s" "sc_warnings (drop_objs T S s) = sc_warnings s"
  by (simp_all add: drop_objs_def)

lemma releases_agree: "releases s a T S \<Longrightarrow> agree T S s t \<Longrightarrow> releases t a T S"
  by (simp add: releases_def agree_def)

lemma releasesD: "releases s a T S \<Longrightarrow> sd_free_ctl_entry a 0 s = Some (Inr (drop_objs T S s))"
  by (simp add: releases_def agree_def)

text \<open>An entry of a directory: its name, the table it leads to, and the objects of that table.\<close>

record dir_own =
  do_name :: "nat option"
  do_child :: "nat option"
  do_tables :: "nat set"
  do_strings :: "nat set"

definition dir_ctl :: "dir_own \<Rightarrow> 'd ctl_table" where
  "dir_ctl x = blank_ctl\<lparr>ct_procname := map_option Heap (do_name x), ct_mode := 365, ct_child := do_child x\<rparr>"

definition all_strings :: "dir_own \<Rightarrow> nat set" where
  "all_strings x = set_option (do_name x) \<union> do_strings x"

definition owned :: "'d sysctl \<Rightarrow> dir_own \<Rightarrow> bool" where
  "owned s x \<longleftrightarrow> (\<forall>n. do_name x = Some n \<longrightarrow> sc_strings s n \<noteq> None \<and> n \<notin> do_strings x) \<and>
     (case do_child x of None \<Rightarrow> do_tables x = {} \<and> do_strings x = {}
      | Some b \<Rightarrow> releases s b (do_tables x) (do_strings x))"

definition apart :: "dir_own \<Rightarrow> dir_own \<Rightarrow> bool" where
  "apart x y \<longleftrightarrow> do_tables x \<inter> do_tables y = {} \<and> all_strings x \<inter> all_strings y = {}"

lemma owned_agree: "owned s x \<Longrightarrow> agree (do_tables x) (all_strings x) s t \<Longrightarrow> owned t x"
  by (auto simp: owned_def agree_def all_strings_def releases_def split: option.splits)

section \<open>The release of a table\<close>

lemma free_loop_leaf:
  assumes "sc_tables s a = Some (es @ [blank_ctl])" "i \<le> length es"
    and "\<forall>e\<in>set es. ct_mode e \<noteq> 0 \<and> ct_child e = None \<and> ct_handler e \<noteq> None"
  shows "sd_free_ctl_entry a i s = Some (Inr (drop_objs {a} {} s))"
  using assms(2)
proof (induction "length es - i" arbitrary: i)
  case 0
  then have "ctl_at a i s = Inr blank_ctl" using assms(1) by (simp add: ctl_at_def nth_append)
  then show ?case
    using assms(1)
    by (subst sd_free_ctl_entry.simps)
       (simp add: blank_ctl_def free_table_def drop_objs_def restrict_map_def fun_eq_iff fun_upd_def)
next
  case (Suc n)
  then have lt: "i < length es" by simp
  then have "ctl_at a i s = Inr (es ! i)" using assms(1) by (simp add: ctl_at_def nth_append)
  moreover have "ct_mode (es ! i) \<noteq> 0" "ct_child (es ! i) = None" "ct_handler (es ! i) \<noteq> None"
    using assms(3) lt by auto
  moreover have "sd_free_ctl_entry a (i + 1) s = Some (Inr (drop_objs {a} {} s))"
    using Suc lt by simp
  ultimately show ?case by (subst sd_free_ctl_entry.simps) auto
qed

lemma free_loop_dir:
  assumes "sc_tables s a = Some (es @ map dir_ctl xs @ [blank_ctl])" "length es = i"
    and "sorted_wrt apart xs" "\<forall>x\<in>set xs. owned s x \<and> a \<notin> do_tables x"
  shows "sd_free_ctl_entry a i s =
    Some (Inr (drop_objs (insert a (\<Union>x\<in>set xs. do_tables x)) (\<Union>x\<in>set xs. all_strings x) s))"
  using assms
proof (induction xs arbitrary: es i s)
  case Nil
  then have "ctl_at a i s = Inr blank_ctl" by (simp add: ctl_at_def nth_append)
  with Nil show ?case
    by (subst sd_free_ctl_entry.simps)
       (simp add: blank_ctl_def free_table_def drop_objs_def restrict_map_def fun_eq_iff fun_upd_def)
next
  case (Cons x xs)
  let ?T = "do_tables x" and ?S = "do_strings x" and ?e = "dir_ctl x"
  have e: "ctl_at a i s = Inr ?e" using Cons(2,3) by (simp add: ctl_at_def nth_append)
  have mode: "ct_mode ?e \<noteq> 0" "ct_handler ?e = None" "ct_child ?e = do_child x" "ct_procname ?e = map_option Heap (do_name x)"
    by (simp_all add: dir_ctl_def blank_ctl_def)
  let ?es = "es @ [?e\<lparr>ct_child := None\<rparr>]"
  define s1 where "s1 = (drop_objs ?T ?S s)\<lparr>sc_tables := (sc_tables s |` (- ?T))(a \<mapsto> ?es @ map dir_ctl xs @ [blank_ctl])\<rparr>"
  have anot: "a \<notin> ?T" and own: "owned s x" using Cons(5) by simp_all
  have child: "(case ct_child ?e of None \<Rightarrow> Some (Inr s)
     | Some b \<Rightarrow> Option.bind (sd_free_ctl_entry b 0 s) (\<lambda>r. Some (bindC r (ctl_put a i (\<lambda>e. e\<lparr>ct_child := None\<rparr>))))) =
     Some (Inr s1)"
  proof (cases "do_child x")
    case None
    then have "?e\<lparr>ct_child := None\<rparr> = ?e" by (simp add: dir_ctl_def)
    then have "s1 = s"
      using None own Cons(2)
      by (intro sysctl.equality) (auto simp: s1_def owned_def restrict_map_def fun_eq_iff)
    then show ?thesis by (simp add: mode None)
  next
    case (Some b)
    then have "sd_free_ctl_entry b 0 s = Some (Inr (drop_objs ?T ?S s))"
      using own by (auto simp: owned_def intro: releasesD)
    then show ?thesis
      using Cons(2,3) anot by (simp add: mode Some ctl_put_def restrict_map_def s1_def nth_append list_update_append)
  qed
  define s2 where "s2 = s1\<lparr>sc_strings := sc_strings s |` (- all_strings x)\<rparr>"
  have name: "free_name (ct_procname ?e) s1 = Inr s2"
  proof (cases "do_name x")
    case None
    then show ?thesis by (simp add: free_name_def mode s2_def s1_def all_strings_def drop_objs_def)
  next
    case (Some n)
    then have "sc_strings s1 n \<noteq> None" using own by (simp add: owned_def s1_def)
    moreover have "(sc_strings s1)(n := None) = sc_strings s |` (- all_strings x)"
      using Some by (auto simp: s1_def all_strings_def restrict_map_def fun_eq_iff)
    ultimately show ?thesis by (simp add: free_name_def mode Some s2_def)
  qed
  have "owned s2 y \<and> a \<notin> do_tables y" if "y \<in> set xs" for y
  proof
    show "a \<notin> do_tables y" using Cons(5) that by simp
    have "apart x y" using Cons(4) that by simp
    then have "agree (do_tables y) (all_strings y) s s2"
      using \<open>a \<notin> do_tables y\<close> by (auto simp: agree_def apart_def s2_def s1_def restrict_map_def)
    moreover have "owned s y" using Cons(5) that by simp
    ultimately show "owned s2 y" by (rule owned_agree [rotated])
  qed
  then have IH: "sd_free_ctl_entry a (i + 1) s2 =
      Some (Inr (drop_objs (insert a (\<Union>x\<in>set xs. do_tables x)) (\<Union>x\<in>set xs. all_strings x) s2))"
    using Cons(3,4) by (intro Cons.IH [where es = ?es]) (simp_all add: s2_def s1_def)
  have "drop_objs (insert a (\<Union>x\<in>set xs. do_tables x)) (\<Union>x\<in>set xs. all_strings x) s2 =
      drop_objs (insert a (\<Union>x\<in>set (x # xs). do_tables x)) (\<Union>x\<in>set (x # xs). all_strings x) s"
    by (auto simp: drop_objs_def s2_def s1_def restrict_map_def fun_eq_iff)
  with IH show ?case
    by (subst sd_free_ctl_entry.simps)
       (simp only: e sum.case mode(1,2) if_False if_True child bind.bind_lunit bindC_simps name simp_thms)
qed

section \<open>The objects of a table that was built\<close>

definition below :: "'d sysctl \<Rightarrow> bool" where
  "below s \<longleftrightarrow> dom (sc_tables s) \<subseteq> {..<sc_brk s} \<and> dom (sc_strings s) \<subseteq> {..<sc_brk s}"

definition rest_same :: "'d sysctl \<Rightarrow> 'd sysctl \<Rightarrow> bool" where
  "rest_same s t \<longleftrightarrow> sc_dir t = sc_dir s \<and> sc_header t = sc_header s \<and> sc_warnings t = sc_warnings s"

text \<open>From \<open>s\<close> to \<open>t\<close> the objects \<open>T\<close> and \<open>S\<close> are new, and nothing else changed.\<close>

definition grown :: "'d sysctl \<Rightarrow> 'd sysctl \<Rightarrow> nat set \<Rightarrow> nat set \<Rightarrow> bool" where
  "grown s t T S \<longleftrightarrow> sc_brk s \<le> sc_brk t \<and> T \<subseteq> {sc_brk s..<sc_brk t} \<and> S \<subseteq> {sc_brk s..<sc_brk t} \<and>
     sc_tables t |` (- T) = sc_tables s \<and> sc_strings t |` (- S) = sc_strings s \<and> rest_same s t"

definition built :: "'d sysctl \<Rightarrow> 'd sysctl \<Rightarrow> nat option \<Rightarrow> nat set \<Rightarrow> nat set \<Rightarrow> bool" where
  "built s t r T S \<longleftrightarrow> grown s t T S \<and> (case r of None \<Rightarrow> T = {} \<and> S = {} | Some b \<Rightarrow> b \<in> T \<and> releases t b T S)"

lemma restrict_UNIV [simp]: "m |` UNIV = m"
  by (simp add: restrict_map_def)

lemma restrict_eqD: "m |` (- A) = m' \<Longrightarrow> x \<notin> A \<Longrightarrow> m x = m' x"
  by (drule fun_cong [of _ _ x]) simp

lemma restrict_eq_if: "m |` (- A) = m' \<Longrightarrow> m' x = (if x \<in> A then None else m x)"
  by (drule fun_cong [of _ _ x]) (auto simp: restrict_map_def)

lemma grown_below: "grown s t T S \<Longrightarrow> below s \<Longrightarrow> below t"
proof -
  assume g: "grown s t T S" and s: "below s"
  have "dom (sc_tables t) \<subseteq> T \<union> dom (sc_tables s)" "dom (sc_strings t) \<subseteq> S \<union> dom (sc_strings s)"
    using g by (auto simp: grown_def restrict_map_def fun_eq_iff dom_def split: if_splits)
  with g s show ?thesis by (fastforce simp: grown_def below_def)
qed

text \<open>What makes a table, or fails, for an entry of a directory: the two constructors below meet it.\<close>

locale table_maker =
  fixes make :: "'d sysctl \<Rightarrow> crash + nat option \<times> 'd sysctl"
  assumes make_built: "below s \<Longrightarrow> \<exists>r t T S. make s = Inr (r, t) \<and> built s t r T S"

text \<open>
  A directory at \<open>a\<close> while it is filled: the first entries have their objects, \<open>m\<close> entries are still blank.
\<close>

definition filling :: "'d sysctl \<Rightarrow> nat \<Rightarrow> dir_own list \<Rightarrow> nat \<Rightarrow> 'd sysctl \<Rightarrow> bool" where
  "filling s0 a xs m s \<longleftrightarrow> below s0 \<and> sc_brk s0 = a \<and>
     grown s0 s (insert a (\<Union>x\<in>set xs. do_tables x)) (\<Union>x\<in>set xs. all_strings x) \<and>
     sc_tables s a = Some (map dir_ctl xs @ replicate m blank_ctl) \<and> sorted_wrt apart xs \<and>
     (\<forall>x\<in>set xs. owned s x \<and> a \<notin> do_tables x)"

text \<open>Stores into the entry that is being filled.\<close>

lemma ctl_put_filling:
  assumes "sc_tables s a = Some (es @ e # fs)" "length es = i"
  shows "ctl_put a i f s = Inr (s\<lparr>sc_tables := (sc_tables s)(a \<mapsto> es @ f e # fs)\<rparr>)"
  using assms by (auto simp: ctl_put_def list_update_append nth_append)

context table_maker begin

lemma dir_entry_filling:
  assumes f: "filling s0 a xs (Suc m) s"
  shows "\<exists>x t. dir_entry ok make a (length xs) str s = Inr t \<and> filling s0 a (xs @ [x]) m t"
proof -
  let ?T = "insert a (\<Union>x\<in>set xs. do_tables x)" and ?S = "\<Union>x\<in>set xs. all_strings x" and ?i = "length xs"
  have g: "grown s0 s ?T ?S" and tab: "sc_tables s a = Some (map dir_ctl xs @ blank_ctl # replicate m blank_ctl)"
    and s0: "below s0" and a: "a = sc_brk s0" using f by (auto simp: filling_def)
  have b: "below s" using grown_below [OF g s0] .
  have lt: "a < sc_brk s" using g by (simp add: grown_def)
  have free: "sc_strings s (sc_brk s) = None" using b by (force simp: below_def)
  obtain n s1 where dup: "kstrdup ok (take 31 str) s = (n, s1)" by (cases "kstrdup ok (take 31 str) s")
  have s1: "sc_tables s1 = sc_tables s" "sc_brk s1 = sc_brk s + 1" "rest_same s s1" "set_option n \<subseteq> {sc_brk s}"
      "sc_strings s1 |` (- set_option n) = sc_strings s" "\<forall>y. n = Some y \<longrightarrow> sc_strings s1 y \<noteq> None"
    using dup free by (auto simp: kstrdup_def Let_def rest_same_def restrict_map_def fun_eq_iff split: if_splits)
  let ?e = "blank_ctl\<lparr>ct_procname := map_option Heap n, ct_mode := 365\<rparr>"
  let ?tabs = "\<lambda>e. map dir_ctl xs @ e # replicate m blank_ctl"
  define s3 where "s3 = s1\<lparr>sc_tables := (sc_tables s)(a \<mapsto> ?tabs ?e)\<rparr>"
  have put: "ctl_put a ?i (\<lambda>e. e\<lparr>ct_procname := map_option Heap n\<rparr>) s1 =
      Inr (s1\<lparr>sc_tables := (sc_tables s)(a \<mapsto> ?tabs (blank_ctl\<lparr>ct_procname := map_option Heap n\<rparr>))\<rparr>)"
    using tab s1(1) by (simp add: ctl_put_filling [of s1 a "map dir_ctl xs" blank_ctl "replicate m blank_ctl"])
  have put2: "ctl_put a ?i (\<lambda>e. e\<lparr>ct_mode := 365\<rparr>)
      (s1\<lparr>sc_tables := (sc_tables s)(a \<mapsto> ?tabs (blank_ctl\<lparr>ct_procname := map_option Heap n\<rparr>))\<rparr>) = Inr s3"
    by (simp add: ctl_put_filling [of _ a "map dir_ctl xs" "blank_ctl\<lparr>ct_procname := map_option Heap n\<rparr>" "replicate m blank_ctl"]
          s3_def)
  have b3: "below s3"
  proof -
    have "y < sc_brk s1" if "sc_strings s1 y \<noteq> None" for y
    proof (cases "y \<in> set_option n")
      case False
      then have "sc_strings s y \<noteq> None" using restrict_eqD [OF s1(5), of y] that by simp
      then show ?thesis using b s1(2) by (force simp: below_def)
    qed (use s1 in auto)
    moreover have "y < sc_brk s1" if "sc_tables s3 y \<noteq> None" for y
      using that b lt s1(2) by (cases "y = a") (force simp: below_def s3_def)+
    ultimately show ?thesis by (auto simp: below_def s3_def)
  qed
  obtain c s4 T S where mk: "make s3 = Inr (c, s4)" "built s3 s4 c T S" using make_built [OF b3] by blast
  have g4: "grown s3 s4 T S" using mk(2) by (simp add: built_def)
  define x where "x = \<lparr>do_name = n, do_child = c, do_tables = T, do_strings = S\<rparr>"
  define s5 where "s5 = s4\<lparr>sc_tables := (sc_tables s4)(a \<mapsto> ?tabs (dir_ctl x))\<rparr>"
  have new: "T \<subseteq> {sc_brk s + 1..<sc_brk s4}" "S \<subseteq> {sc_brk s + 1..<sc_brk s4}" "sc_brk s < sc_brk s4"
    using g4 s1(2) by (auto simp: grown_def s3_def)
  have anew: "a \<notin> T" using new lt by auto
  have tab4: "sc_tables s4 a = Some (?tabs ?e)"
    using restrict_eqD [of "sc_tables s4" T "sc_tables s3" a] g4 anew by (simp add: grown_def s3_def)
  have put3: "ctl_put a ?i (\<lambda>e. e\<lparr>ct_child := c\<rparr>) s4 = Inr s5"
    using tab4 by (simp add: ctl_put_filling [of s4 a "map dir_ctl xs" ?e] s5_def x_def dir_ctl_def)
  have run: "dir_entry ok make a ?i str s = Inr s5"
    unfolding dir_entry_def dup Let_def prod.case put bindC_simps put2 mk(1) put3 ..
  have str5: "sc_strings s5 y = (if y \<in> S then sc_strings s4 y else sc_strings s1 y)" for y
    using g4 restrict_eqD [of "sc_strings s4" S "sc_strings s3" y] by (auto simp: grown_def s5_def s3_def)
  have tab5: "sc_tables s5 y = (if y = a then Some (?tabs (dir_ctl x)) else if y \<in> T then sc_tables s4 y else sc_tables s y)" for y
    using g4 restrict_eqD [of "sc_tables s4" T "sc_tables s3" y] anew by (auto simp: grown_def s5_def s3_def)
  have old: "?T \<subseteq> {..<sc_brk s}" "?S \<subseteq> {..<sc_brk s}" using g lt by (auto simp: grown_def)
  have own_x: "owned s5 x"
  proof -
    have "releases s5 b T S" if "c = Some b" for b
    proof (rule releases_agree)
      show "releases s4 b T S" using mk(2) that by (simp add: built_def)
      show "agree T S s4 s5" using anew by (auto simp: agree_def s5_def)
    qed
    moreover have "sc_strings s5 y \<noteq> None \<and> y \<notin> S" if "n = Some y" for y
    proof -
      have "y = sc_brk s" using s1(4) that by simp
      then have "y \<notin> S" using new by auto
      with s1(6) that show ?thesis by (simp add: str5)
    qed
    ultimately show ?thesis using mk(2) by (auto simp: owned_def x_def built_def split: option.splits)
  qed
  have own_old: "owned s5 y" if "y \<in> set xs" for y
  proof (rule owned_agree)
    show "owned s y" using f that by (auto simp: filling_def)
    have "a \<notin> do_tables y" using f that by (auto simp: filling_def)
    moreover have "do_tables y \<subseteq> {..<sc_brk s}" "all_strings y \<subseteq> {..<sc_brk s}" using old that by auto
    moreover have "sc_strings s1 z = sc_strings s z" if "z < sc_brk s" for z
      using restrict_eqD [OF s1(5), of z] s1(4) that by auto
    moreover have "z \<notin> T \<and> z \<notin> S" if "z < sc_brk s" for z using new that by auto
    ultimately show "agree (do_tables y) (all_strings y) s s5"
      by (auto simp: agree_def tab5 str5)
  qed
  have strs: "all_strings x \<subseteq> {sc_brk s..<sc_brk s4}" using new s1(4) by (auto simp: all_strings_def x_def)
  have "apart y x" if "y \<in> set xs" for y
    using old that strs new by (fastforce simp: apart_def x_def)
  moreover have "grown s0 s5 (insert a (\<Union>x\<in>set (xs @ [x]). do_tables x)) (\<Union>x\<in>set (xs @ [x]). all_strings x)"
  proof -
    have "sc_tables s0 y = (if y \<in> ?T then None else sc_tables s y)" for y
      using g by (intro restrict_eq_if) (simp add: grown_def)
    moreover have "sc_tables s y = None" if "y \<in> T" for y using b new that by (force simp: below_def)
    ultimately have "sc_tables s5 |` (- insert a (\<Union>x\<in>set (xs @ [x]). do_tables x)) = sc_tables s0"
      by (auto simp: restrict_map_def fun_eq_iff tab5 x_def)
    moreover have "sc_strings s0 y = (if y \<in> ?S then None else sc_strings s y)" for y
      using g by (intro restrict_eq_if) (simp add: grown_def)
    moreover have "sc_strings s y = None" if "y \<in> all_strings x" for y using b strs that by (force simp: below_def)
    moreover have "sc_strings s1 y = sc_strings s y" if "y \<notin> all_strings x" for y
      using restrict_eqD [OF s1(5), of y] that by (simp add: all_strings_def x_def)
    moreover have "S \<subseteq> all_strings x" by (simp add: all_strings_def x_def)
    ultimately have "sc_strings s5 |` (- (\<Union>x\<in>set (xs @ [x]). all_strings x)) = sc_strings s0"
      by (auto simp: restrict_map_def fun_eq_iff str5)
    moreover have "rest_same s0 s5"
      using g g4 s1(3) by (simp add: grown_def rest_same_def s5_def s3_def)
    moreover have "sc_brk s5 = sc_brk s4" by (simp add: s5_def)
    ultimately show ?thesis
      using \<open>sc_tables s5 |` _ = _\<close> g new strs by (auto simp: grown_def x_def)
  qed
  ultimately have "filling s0 a (xs @ [x]) m s5"
    using f own_x own_old anew by (auto simp: filling_def sorted_wrt_append tab5 x_def)
  with run show ?thesis by blast
qed

end

section \<open>Whole directories\<close>

text \<open>Both loops are one loop over the names and the makers of the entries.\<close>

primrec dir_entries ::
  "(nat \<Rightarrow> bool) \<Rightarrow> nat \<Rightarrow> nat \<Rightarrow> (string \<times> ('d sysctl \<Rightarrow> crash + nat option \<times> 'd sysctl)) list \<Rightarrow> 'd sysctl \<Rightarrow>
     crash + 'd sysctl"
where
  "dir_entries ok a i [] s = Inr s"
| "dir_entries ok a i (y # ys) s = bindC (dir_entry ok (snd y) a i (fst y) s) (dir_entries ok a (i + 1) ys)"

lemma domain_entries_dir:
  "domain_entries ok a i ds s =
     dir_entries ok a i (map2 (\<lambda>j d. (''domain'' @ nat_str j, sd_alloc_ctl_domain_table ok d)) [i..<i + length ds] ds) s"
proof (induction ds arbitrary: i s)
  case (Cons d ds)
  then have "domain_entries ok a (i + 1) ds = dir_entries ok a (i + 1)
      (map2 (\<lambda>j d. (''domain'' @ nat_str j, sd_alloc_ctl_domain_table ok d)) [Suc i..<Suc i + length ds] ds)"
    by (auto simp: fun_eq_iff)
  then show ?case by (simp add: upt_conv_Cons del: upt_Suc)
qed simp

lemma cpu_entries_dir:
  "cpu_entries ok doms a i cs s = dir_entries ok a i (map (\<lambda>c. (''cpu'' @ nat_str c, sd_alloc_ctl_cpu_table ok doms c)) cs) s"
proof (induction cs arbitrary: i s)
  case (Cons c cs)
  then have "cpu_entries ok doms a (i + 1) cs =
      dir_entries ok a (i + 1) (map (\<lambda>c. (''cpu'' @ nat_str c, sd_alloc_ctl_cpu_table ok doms c)) cs)"
    by (auto simp: fun_eq_iff)
  then show ?case by simp
qed simp

lemma dir_entries_filling:
  assumes "\<forall>y\<in>set ys. table_maker (snd y)" "filling s0 a xs (length ys + m) s"
  shows "\<exists>zs t. dir_entries ok a (length xs) ys s = Inr t \<and> filling s0 a (xs @ zs) m t"
  using assms
proof (induction ys arbitrary: xs s)
  case Nil
  then show ?case by (intro exI [of _ "[]"]) simp
next
  case (Cons y ys)
  have "table_maker (snd y)" "filling s0 a xs (Suc (length ys + m)) s" using Cons(2,3) by simp_all
  then obtain x s1 where x: "dir_entry ok (snd y) a (length xs) (fst y) s = Inr s1"
      "filling s0 a (xs @ [x]) (length ys + m) s1"
    using table_maker.dir_entry_filling by blast
  with Cons obtain zs t where "dir_entries ok a (length xs + 1) ys s1 = Inr t" "filling s0 a ((xs @ [x]) @ zs) m t"
    using Cons.IH [of "xs @ [x]" s1] by auto
  with x show ?case by (intro exI [of _ "x # zs"] exI [of _ t]) simp
qed

lemma alloc_filling:
  assumes "below s" "sd_alloc_ctl_entry ok n s = (Some a, t)"
  shows "filling s a [] n t"
proof -
  have "sc_tables s (sc_brk s) = None" using assms(1) by (force simp: below_def)
  moreover have t: "a = sc_brk s" "t = s\<lparr>sc_brk := sc_brk s + 1, sc_tables := (sc_tables s)(a \<mapsto> replicate n blank_ctl)\<rparr>"
    using assms(2) by (auto simp: sd_alloc_ctl_entry_def Let_def split: if_splits)
  ultimately have "sc_tables t |` (- {a}) = sc_tables s" by (auto simp: restrict_map_def fun_eq_iff)
  moreover have "sc_strings t |` (- {}) = sc_strings s" by (simp add: t restrict_map_def)
  ultimately show ?thesis using assms(1) by (simp add: filling_def grown_def rest_same_def t)
qed

lemma alloc_failed:
  assumes "sd_alloc_ctl_entry ok n s = (None, t)"
  shows "built s t None {} {}"
  using assms by (auto simp: sd_alloc_ctl_entry_def Let_def built_def grown_def rest_same_def split: if_splits)

lemma filled_built:
  assumes "filling s a xs 1 t"
  shows "built s t (Some a) (insert a (\<Union>x\<in>set xs. do_tables x)) (\<Union>x\<in>set xs. all_strings x)"
proof -
  let ?T = "insert a (\<Union>x\<in>set xs. do_tables x)" and ?S = "\<Union>x\<in>set xs. all_strings x"
  have "releases t a ?T ?S"
    unfolding releases_def
  proof (intro allI impI)
    fix u
    assume u: "agree ?T ?S t u"
    have "sc_tables u a = sc_tables t a" using u by (simp add: agree_def)
    also have "\<dots> = Some ([] @ map dir_ctl xs @ [blank_ctl])" using assms by (simp add: filling_def)
    finally have tab: "sc_tables u a = Some ([] @ map dir_ctl xs @ [blank_ctl])" .
    have "owned u x \<and> a \<notin> do_tables x" if "x \<in> set xs" for x
    proof
      show "a \<notin> do_tables x" using assms that by (auto simp: filling_def)
      have "owned t x" using assms that by (auto simp: filling_def)
      moreover have "agree (do_tables x) (all_strings x) t u" using u that by (auto simp: agree_def)
      ultimately show "owned u x" by (rule owned_agree)
    qed
    then show "sd_free_ctl_entry a 0 u = Some (Inr (drop_objs ?T ?S u))"
      using assms by (intro free_loop_dir [OF tab]) (auto simp: filling_def)
  qed
  then show ?thesis using assms by (simp add: built_def filling_def)
qed

lemma directory_built:
  assumes "below s" "\<forall>y\<in>set ys. table_maker (snd y)" "sd_alloc_ctl_entry ok (length ys + 1) s = (Some a, s1)"
  shows "\<exists>t T S. dir_entries ok a 0 ys s1 = Inr t \<and> built s t (Some a) T S"
  using dir_entries_filling [OF assms(2) alloc_filling [OF assms(1,3)], of ok] filled_built by fastforce

text \<open>The table of a domain.\<close>

lemma set_entries_at:
  assumes "sc_tables s a = Some (es @ replicate (length fs) blank_ctl @ [blank_ctl])" "length es = i"
    and "\<forall>(n, len, mode, h, idx)\<in>set fs. mode \<noteq> 0"
  shows "\<exists>gs. set_entries a d i fs s = Inr (s\<lparr>sc_tables := (sc_tables s)(a \<mapsto> es @ gs @ [blank_ctl])\<rparr>) \<and> length gs = length fs \<and>
    (\<forall>e\<in>set gs. ct_mode e \<noteq> 0 \<and> ct_child e = None \<and> ct_handler e \<noteq> None)"
  using assms
proof (induction fs arbitrary: es i s)
  case Nil
  then have "(sc_tables s)(a \<mapsto> es @ [] @ [blank_ctl]) = sc_tables s" by (intro fun_upd_idem) simp
  then show ?case by (intro exI [of _ "[]"]) (simp del: fun_upd_apply)
next
  case (Cons f fs)
  obtain n len mode h idx where f: "f = (n, len, mode, h, idx)" by (cases f)
  define e :: "'a ctl_table" where "e = (let e = blank_ctl\<lparr>ct_procname := Some (Static n), ct_data := Some (d, n), ct_maxlen := len,
      ct_mode := mode, ct_handler := Some h\<rparr> in if idx then e\<lparr>ct_load_idx := True\<rparr> else e)"
  define s1 where "s1 = s\<lparr>sc_tables := (sc_tables s)(a \<mapsto> (es @ [e]) @ replicate (length fs) blank_ctl @ [blank_ctl])\<rparr>"
  have set1: "set_table_entry a i n (d, n) len mode h idx s = Inr s1"
    using Cons(2,3)
    by (simp add: set_table_entry_def s1_def e_def ctl_put_filling [of s a es blank_ctl "replicate (length fs) blank_ctl @ [blank_ctl]"])
  have "\<exists>gs. set_entries a d (i + 1) fs s1 = Inr (s1\<lparr>sc_tables := (sc_tables s1)(a \<mapsto> (es @ [e]) @ gs @ [blank_ctl])\<rparr>) \<and>
      length gs = length fs \<and> (\<forall>e\<in>set gs. ct_mode e \<noteq> 0 \<and> ct_child e = None \<and> ct_handler e \<noteq> None)"
    using Cons(3,4) by (intro Cons.IH) (auto simp: s1_def)
  then obtain gs where gs: "set_entries a d (i + 1) fs s1 = Inr (s1\<lparr>sc_tables := (sc_tables s1)(a \<mapsto> (es @ [e]) @ gs @ [blank_ctl])\<rparr>)"
      "length gs = length fs" "\<forall>e\<in>set gs. ct_mode e \<noteq> 0 \<and> ct_child e = None \<and> ct_handler e \<noteq> None" by blast
  have "ct_mode e \<noteq> 0 \<and> ct_child e = None \<and> ct_handler e \<noteq> None"
    using Cons(4) by (simp add: f e_def Let_def blank_ctl_def)
  with set1 gs show ?case by (intro exI [of _ "e # gs"]) (simp add: f s1_def del: fun_upd_apply)
qed

lemma domain_files_ok: "length domain_files = 13" "\<forall>(n, len, mode, h, idx)\<in>set domain_files. mode \<noteq> 0"
  by (simp_all add: domain_files_def)

interpretation domain_table: table_maker "sd_alloc_ctl_domain_table ok d" for ok d
proof
  fix s :: "'a sysctl"
  assume s: "below s"
  show "\<exists>r t T S. sd_alloc_ctl_domain_table ok d s = Inr (r, t) \<and> built s t r T S"
  proof (cases "sd_alloc_ctl_entry ok 14 s")
    case (Pair r s1)
    show ?thesis
    proof (cases r)
      case None
      with Pair alloc_failed [of ok 14 s s1] show ?thesis by (auto simp: sd_alloc_ctl_domain_table_def)
    next
      case (Some a)
      have fl: "filling s a [] 14 s1" using alloc_filling [OF s] Pair Some by simp
      have "replicate 14 blank_ctl = replicate (length domain_files) blank_ctl @ [blank_ctl :: 'a ctl_table]"
        by (simp add: domain_files_ok replicate_append_same eval_nat_numeral)
      then have "sc_tables s1 a = Some ([] @ replicate (length domain_files) blank_ctl @ [blank_ctl])"
        using fl by (simp add: filling_def)
      from set_entries_at [OF this _ domain_files_ok(2), of 0 d] obtain gs where
        run: "set_entries a d 0 domain_files s1 = Inr (s1\<lparr>sc_tables := (sc_tables s1)(a \<mapsto> gs @ [blank_ctl])\<rparr>)"
        and gs: "\<forall>e\<in>set gs. ct_mode e \<noteq> 0 \<and> ct_child e = None \<and> ct_handler e \<noteq> None" by auto
      let ?t = "s1\<lparr>sc_tables := (sc_tables s1)(a \<mapsto> gs @ [blank_ctl])\<rparr>"
      have "releases ?t a {a} {}"
        unfolding releases_def agree_def
        by (intro allI impI, rule free_loop_leaf [where es = gs]) (use gs in auto)
      moreover have "grown s ?t {a} {}"
        using fl by (simp add: filling_def grown_def rest_same_def)
      ultimately have "built s ?t (Some a) {a} {}" by (simp add: built_def)
      with run Pair Some show ?thesis by (auto simp: sd_alloc_ctl_domain_table_def)
    qed
  qed
qed

interpretation cpu_table: table_maker "sd_alloc_ctl_cpu_table ok doms c" for ok doms c
proof
  fix s :: "'a sysctl"
  assume s: "below s"
  let ?ys = "map2 (\<lambda>j d. (''domain'' @ nat_str j, sd_alloc_ctl_domain_table ok d)) [0..<0 + length (doms c)] (doms c)"
  have mk: "\<forall>y\<in>set ?ys. table_maker (snd y)" by (auto intro: domain_table.table_maker_axioms)
  show "\<exists>r t T S. sd_alloc_ctl_cpu_table ok doms c s = Inr (r, t) \<and> built s t r T S"
  proof (cases "sd_alloc_ctl_entry ok (length (doms c) + 1) s")
    case (Pair r s1)
    show ?thesis
    proof (cases r)
      case None
      with Pair alloc_failed show ?thesis by (fastforce simp: sd_alloc_ctl_cpu_table_def)
    next
      case (Some a)
      have "sd_alloc_ctl_entry ok (length ?ys + 1) s = (Some a, s1)" using Pair Some by simp
      from directory_built [OF s mk this] obtain t T S where
        "dir_entries ok a 0 ?ys s1 = Inr t" "built s t (Some a) T S" by blast
      then show ?thesis
        using Pair Some
        by (intro exI [of _ "Some a"] exI [of _ t] exI [of _ T] exI [of _ S])
           (simp add: sd_alloc_ctl_cpu_table_def domain_entries_dir)
    qed
  qed
qed

section \<open>Registration and its undoing\<close>

text \<open>C27 Whatever allocations fail, registering the tables of the domains and unregistering them ends without a crash
  and without a warning and leaves the heap as it was: every table and every name is freed, each once.
  Unregistering again changes nothing.
\<close>

theorem sysctl_register_unregister:
  assumes "below s" "sc_dir s = None" "sc_header s = None"
  shows "\<exists>t u. register_sched_domain_sysctl ok doms possible header s = Inr t \<and>
    unregister_sched_domain_sysctl t = Some (Inr u) \<and>
    sc_tables u = sc_tables s \<and> sc_strings u = sc_strings s \<and> sc_warnings u = sc_warnings s \<and>
    sc_dir u = None \<and> sc_header u = None \<and> below u \<and> unregister_sched_domain_sysctl u = Some (Inr u)"
proof -
  let ?ys = "map (\<lambda>c. (''cpu'' @ nat_str c, sd_alloc_ctl_cpu_table ok doms c)) possible"
  have again: "unregister_sched_domain_sysctl u = Some (Inr u)" if "sc_dir u = None" "sc_header u = None" for u :: "'a sysctl"
    using that by (simp add: unregister_sched_domain_sysctl_def Let_def)
  show ?thesis
  proof (cases "sd_alloc_ctl_entry ok (length possible + 1) s")
    case (Pair r s1)
    show ?thesis
    proof (cases r)
      case None
      have b: "built s s1 None {} {}" using Pair None by (simp add: alloc_failed)
      then have "grown s s1 {} {}" by (simp add: built_def)
      moreover from this have "below s1" using assms(1) by (rule grown_below)
      ultimately show ?thesis
        using Pair None assms(2,3)
        by (intro exI [of _ s1])
           (simp add: register_sched_domain_sysctl_def Let_def warn_if_def unregister_sched_domain_sysctl_def
             grown_def rest_same_def)
    next
      case (Some a)
      let ?s = "s\<lparr>sc_dir := Some a\<rparr>" and ?s1 = "s1\<lparr>sc_dir := Some a\<rparr>"
      have mk: "\<forall>y\<in>set ?ys. table_maker (snd y)" by (auto intro: cpu_table.table_maker_axioms)
      have s: "below ?s" using assms(1) by (simp add: below_def)
      have al: "sd_alloc_ctl_entry ok (length ?ys + 1) ?s = (Some a, ?s1)"
        using Pair Some by (auto simp: sd_alloc_ctl_entry_def Let_def split: if_splits)
      from directory_built [OF s mk al] obtain t T S where
        run: "dir_entries ok a 0 ?ys ?s1 = Inr t" and b: "built ?s t (Some a) T S" by blast
      have t: "sc_dir t = Some a" "sc_header t = None" "sc_warnings t = sc_warnings s" "releases t a T S"
          "sc_tables t |` (- T) = sc_tables s" "sc_strings t |` (- S) = sc_strings s"
        using b assms(3) by (simp_all add: built_def grown_def rest_same_def)
      have "below t" using b s by (auto simp: built_def intro: grown_below)
      have "sc_dir s1 = None" using Pair assms(2) by (auto simp: sd_alloc_ctl_entry_def Let_def split: if_splits)
      then have reg: "register_sched_domain_sysctl ok doms possible header s = Inr (t\<lparr>sc_header := header\<rparr>)"
        using Pair Some run t(2) by (simp add: register_sched_domain_sysctl_def Let_def warn_if_def cpu_entries_dir)
      let ?u = "(drop_objs T S (t\<lparr>sc_header := None\<rparr>))\<lparr>sc_dir := None\<rparr>"
      have "agree T S t (t\<lparr>sc_header := None\<rparr>)" by (simp add: agree_def)
      then have "sd_free_ctl_entry a 0 (t\<lparr>sc_header := None\<rparr>) = Some (Inr (drop_objs T S (t\<lparr>sc_header := None\<rparr>)))"
        using t(4) by (simp add: releases_def)
      then have "unregister_sched_domain_sysctl (t\<lparr>sc_header := header\<rparr>) = Some (Inr ?u)"
        using t(1) by (simp add: unregister_sched_domain_sysctl_def Let_def)
      moreover have "below ?u" using \<open>below t\<close> by (auto simp: below_def)
      ultimately show ?thesis
        using reg t(3,5,6) by (intro exI [of _ "t\<lparr>sc_header := header\<rparr>"] exI [of _ ?u]) (simp add: again)
    qed
  qed
qed

text \<open>Two CPUs with a domain each; the name of the second CPU's directory cannot be allocated.\<close>

theorem sysctl_register_unregister_witness:
  "let s = \<lparr>sc_tables = Map.empty, sc_strings = Map.empty, sc_brk = 0, sc_dir = None, sc_header = None, sc_warnings = []\<rparr>
   in \<exists>t u. register_sched_domain_sysctl (\<lambda>n. n \<noteq> 5) (\<lambda>_. [()]) [0, 1] (Some 1) s = Inr t \<and>
     unregister_sched_domain_sysctl t = Some (Inr u) \<and> sc_tables u = Map.empty \<and> sc_strings u = Map.empty"
proof -
  let ?s = "\<lparr>sc_tables = Map.empty, sc_strings = Map.empty, sc_brk = 0, sc_dir = None, sc_header = None,
    sc_warnings = []\<rparr> :: unit sysctl"
  have "below ?s" by (simp add: below_def)
  from sysctl_register_unregister [OF this, of "\<lambda>n. n \<noteq> 5" "\<lambda>_. [()]" "[0, 1]" "Some 1"]
  show ?thesis by (simp add: Let_def) blast
qed

end
