(* ===== verification/Sched_Groups.thy ===== *)
theory Sched_Groups
  imports Sched_Deadline
begin

text \<open>
  Task groups (\<^verbatim>\<open>core.c\<close>): the tree they form, the walk through it that calls a visitor on the
  way down and another on the way up, without recursion and with no other memory than the
  pointers of the groups, and the operations that put a group into the tree and take it out.
  The specification of the walk is the recursion over the tree.
\<close>

section \<open>Groups\<close>

type_synonym gid = nat

record cfs_rq_bw =
  cr_runtime_enabled :: bool
  cr_runtime_remaining :: u64
  cr_throttled :: bool

record task_group =
  tg_parent :: "gid option"
  tg_children :: "gid list"
  tg_rt_period :: u64
  tg_rt_runtime :: u64
  tg_rt_rq_runtime :: "cpu \<Rightarrow> u64"      \<comment> \<open>\<open>rt_rq[i]->rt_runtime\<close>\<close>
  tg_cfs_period :: u64
  tg_cfs_quota :: u64
  tg_hierarchical_quota :: u64          \<comment> \<open>an \<open>s64\<close>, read with \<open>sint\<close>\<close>
  tg_timer_active :: bool
  tg_cfs_rq :: "cpu \<Rightarrow> cfs_rq_bw"
  tg_shares :: u64

text \<open>\<open>root_task_group\<close> is group 0; what the fair and the real-time class keep is \<open>gs_ext\<close>.\<close>

record 'g group_state =
  gs_groups :: "gid \<Rightarrow> task_group"
  gs_list :: "gid list"                 \<comment> \<open>\<open>task_groups\<close>\<close>
  gs_live :: "gid set"                  \<comment> \<open>allocated and not freed\<close>
  gs_rcu :: "gid list"                  \<comment> \<open>groups whose freeing \<open>call_rcu\<close> has deferred\<close>
  gs_task_group :: "tid \<Rightarrow> gid"         \<comment> \<open>\<open>sched_task_group\<close> of a task\<close>
  gs_rt_period :: s32                   \<comment> \<open>\<open>sysctl_sched_rt_period\<close>\<close>
  gs_rt_runtime :: s32                  \<comment> \<open>\<open>sysctl_sched_rt_runtime\<close>\<close>
  gs_rr_timeslice :: s32                \<comment> \<open>\<open>sched_rr_timeslice\<close>, in jiffies\<close>
  gs_bandwidth_used :: int              \<comment> \<open>the count behind \<open>cfs_bandwidth_used\<close>\<close>
  gs_def_rt :: "u64 \<times> u64"              \<comment> \<open>\<open>def_rt_bandwidth\<close>: period and runtime\<close>
  gs_def_dl :: "u64 \<times> u64"              \<comment> \<open>\<open>def_dl_bandwidth\<close>\<close>
  gs_ext :: 'g

definition upd_group :: "gid \<Rightarrow> (task_group \<Rightarrow> task_group) \<Rightarrow> 'g group_state \<Rightarrow> 'g group_state" where
  "upd_group g f s = s\<lparr>gs_groups := (gs_groups s)(g := f (gs_groups s g))\<rparr>"

lemma upd_group_simps [simp]:
  "gs_groups (upd_group g f s) = (gs_groups s)(g := f (gs_groups s g))"
  "gs_list (upd_group g f s) = gs_list s" "gs_live (upd_group g f s) = gs_live s"
  "gs_rcu (upd_group g f s) = gs_rcu s" "gs_task_group (upd_group g f s) = gs_task_group s"
  "gs_rr_timeslice (upd_group g f s) = gs_rr_timeslice s" "gs_def_rt (upd_group g f s) = gs_def_rt s"
  "gs_def_dl (upd_group g f s) = gs_def_dl s" "gs_rt_period (upd_group g f s) = gs_rt_period s"
  "gs_rt_runtime (upd_group g f s) = gs_rt_runtime s" "gs_bandwidth_used (upd_group g f s) = gs_bandwidth_used s"
  "gs_ext (upd_group g f s) = gs_ext s"
  by (simp_all add: upd_group_def)

abbreviation children :: "'g group_state \<Rightarrow> gid \<Rightarrow> gid list" where
  "children s g \<equiv> tg_children (gs_groups s g)"

abbreviation parent :: "'g group_state \<Rightarrow> gid \<Rightarrow> gid option" where
  "parent s g \<equiv> tg_parent (gs_groups s g)"

section \<open>The walk\<close>

type_synonym 'g visitor = "gid \<Rightarrow> 'g group_state \<Rightarrow> errno \<times> 'g group_state"

text \<open>
  Where the code is: at the label \<open>down\<close> with a group to enter, or in the loop over the
  children of \<open>parent\<close>, with those not yet visited. Coming back \<open>up\<close> from \<open>child\<close> the loop
  goes on behind it in the list of its parent.
\<close>

datatype tg_pos = Enter gid | At gid "gid list"

definition after :: "gid \<Rightarrow> gid list \<Rightarrow> gid list" where
  "after child cs = tl (dropWhile (\<lambda>c. c \<noteq> child) cs)"

partial_function (option) tg_walk ::
  "'g visitor \<Rightarrow> 'g visitor \<Rightarrow> gid \<Rightarrow> tg_pos \<Rightarrow> 'g group_state \<Rightarrow> (errno \<times> 'g group_state) option"
where
  "tg_walk down up from pos s =
     (case pos of
        Enter p \<Rightarrow>
          (case down p s of (ret, s) \<Rightarrow>
             if ret \<noteq> 0 then Some (ret, s) else tg_walk down up from (At p (children s p)) s)
      | At p (c # _) \<Rightarrow> tg_walk down up from (Enter c) s
      | At p [] \<Rightarrow>
          (case up p s of (ret, s) \<Rightarrow>
             if ret \<noteq> 0 \<or> p = from then Some (ret, s)
             else (case parent s p of
                     None \<Rightarrow> Some (ret, s)
                   | Some q \<Rightarrow> tg_walk down up from (At q (after p (children s q))) s)))"

definition walk_tg_tree_from ::
  "gid \<Rightarrow> 'g visitor \<Rightarrow> 'g visitor \<Rightarrow> 'g group_state \<Rightarrow> (errno \<times> 'g group_state) option"
where
  "walk_tg_tree_from from down up s = tg_walk down up from (Enter from) s"

definition root_task_group :: gid where "root_task_group = 0"

definition walk_tg_tree :: "'g visitor \<Rightarrow> 'g visitor \<Rightarrow> 'g group_state \<Rightarrow> (errno \<times> 'g group_state) option" where
  "walk_tg_tree = walk_tg_tree_from root_task_group"

definition tg_nop :: "'g visitor" where
  "tg_nop tg s = (0, s)"

section \<open>Its specification\<close>

datatype gtree = GNode (gt_root: gid) (gt_subs: "gtree list")

primrec nodes :: "gtree \<Rightarrow> gid list" where
  "nodes (GNode g ts) = g # concat (map nodes ts)"

text \<open>The state's pointers form the tree.\<close>

primrec tree_at :: "'g group_state \<Rightarrow> gtree \<Rightarrow> bool" where
  "tree_at s (GNode g ts) \<longleftrightarrow> children s g = map gt_root ts \<and>
     list_all (\<lambda>t. parent s (gt_root t) = Some g) ts \<and> list_all (\<lambda>b. b) (map (tree_at s) ts)"

text \<open>Visit in sequence, up to the first error.\<close>

fun visit_all :: "('a \<Rightarrow> 's \<Rightarrow> errno \<times> 's) \<Rightarrow> 'a list \<Rightarrow> 's \<Rightarrow> errno \<times> 's" where
  "visit_all f [] s = (0, s)"
| "visit_all f (x # xs) s = (case f x s of (r, s) \<Rightarrow> if r \<noteq> 0 then (r, s) else visit_all f xs s)"

lemma visit_all_cong [fundef_cong]:
  "xs = ys \<Longrightarrow> (\<And>x s. x \<in> set ys \<Longrightarrow> f x s = g x s) \<Longrightarrow> s = t \<Longrightarrow> visit_all f xs s = visit_all g ys t"
proof (induction xs arbitrary: ys s t)
  case (Cons x xs)
  then show ?case by (auto split: prod.split)
qed simp

fun visit :: "'g visitor \<Rightarrow> 'g visitor \<Rightarrow> gtree \<Rightarrow> 'g group_state \<Rightarrow> errno \<times> 'g group_state" where
  "visit down up (GNode g ts) s =
     (case down g s of (r, s) \<Rightarrow>
        if r \<noteq> 0 then (r, s)
        else (case visit_all (visit down up) ts s of (r, s) \<Rightarrow> if r \<noteq> 0 then (r, s) else up g s))"

text \<open>A visitor that leaves the tree alone.\<close>

definition same_tree :: "'g group_state \<Rightarrow> 'g group_state \<Rightarrow> bool" where
  "same_tree s t \<longleftrightarrow> (\<forall>g. children t g = children s g \<and> parent t g = parent s g)"

definition keeps_tree :: "'g visitor \<Rightarrow> bool" where
  "keeps_tree f \<longleftrightarrow> (\<forall>g s. same_tree s (snd (f g s)))"

lemma same_tree_refl [simp, intro!]: "same_tree s s"
  by (simp add: same_tree_def)

lemma same_tree_trans [trans]: "same_tree s t \<Longrightarrow> same_tree t u \<Longrightarrow> same_tree s u"
  by (simp add: same_tree_def)

lemma keeps_treeD: "keeps_tree f \<Longrightarrow> f g s = (r, s') \<Longrightarrow> same_tree s s'"
  unfolding keeps_tree_def by (metis snd_conv)

lemma tree_at_same: "same_tree s s' \<Longrightarrow> tree_at s' t = tree_at s t"
  by (induction t) (auto simp: same_tree_def list_all_iff)

lemma visit_all_keeps:
  assumes "\<And>x s. x \<in> set xs \<Longrightarrow> same_tree s (snd (f x s))"
  shows "same_tree s (snd (visit_all f xs s))"
  using assms
proof (induction xs arbitrary: s)
  case (Cons x xs)
  obtain r s1 where f: "f x s = (r, s1)" by (cases "f x s")
  have "same_tree s s1" using Cons.prems [of x s] f by simp
  then show ?case
    using Cons.IH [of s1] Cons.prems f by (auto intro: same_tree_trans)
qed simp

lemma visit_keeps:
  assumes "keeps_tree down" "keeps_tree up"
  shows "same_tree s (snd (visit down up t s))"
proof (induction t arbitrary: s)
  case (GNode g ts)
  obtain r s1 where d: "down g s = (r, s1)" by (cases "down g s")
  obtain r2 s2 where v: "visit_all (visit down up) ts s1 = (r2, s2)" by (cases "visit_all (visit down up) ts s1")
  have "same_tree s1 s2" using visit_all_keeps [of ts "visit down up" s1] GNode v by simp
  moreover have "same_tree s s1" by (rule keeps_treeD [OF assms(1) d])
  moreover have "same_tree s2 (snd (up g s2))" using assms(2) by (simp add: keeps_tree_def)
  ultimately show ?case using d v by (auto intro: same_tree_trans split: prod.split)
qed

lemma after_split: "c \<notin> set xs \<Longrightarrow> after c (xs @ c # ys) = ys"
  by (induction xs) (auto simp: after_def)

lemma root_in_nodes: "gt_root t \<in> set (nodes t)"
  by (cases t) simp

lemma distinct_roots: "distinct (concat (map nodes ts)) \<Longrightarrow> distinct (map gt_root ts)"
proof (induction ts)
  case (Cons t ts)
  have "gt_root t \<noteq> gt_root u" if "u \<in> set ts" for u
    using Cons.prems that root_in_nodes [of t] root_in_nodes [of u] by fastforce
  then show ?case using Cons by auto
qed simp

text \<open>
  The loop over the children of a group, when entering each of them has the effect of
  visiting it: it visits them in their order, up to the first error.
\<close>

lemma tg_walk_children:
  assumes keeps: "keeps_tree down" "keeps_tree up"
    and sub: "\<And>u s. u \<in> set ts \<Longrightarrow> tree_at s u \<Longrightarrow> distinct (nodes u) \<Longrightarrow> from \<notin> set (nodes u) \<Longrightarrow>
      parent s (gt_root u) = Some g \<Longrightarrow>
      tg_walk down up from (Enter (gt_root u)) s =
        (case visit down up u s of (r, s') \<Rightarrow>
           if r \<noteq> 0 then Some (r, s')
           else tg_walk down up from (At g (after (gt_root u) (children s' g))) s')"
    and tree: "tree_at s (GNode g ts)" "distinct (nodes (GNode g ts))"
      "\<And>u. u \<in> set ts \<Longrightarrow> from \<notin> set (nodes u)"
  shows "ts = pre @ rest \<Longrightarrow> same_tree s s1 \<Longrightarrow>
    tg_walk down up from (At g (map gt_root rest)) s1 =
      (case visit_all (visit down up) rest s1 of (r, s') \<Rightarrow>
         if r \<noteq> 0 then Some (r, s') else tg_walk down up from (At g []) s')"
proof (induction rest arbitrary: pre s1)
  case (Cons u rest)
  have u: "u \<in> set ts" using Cons.prems(1) by simp
  have here: "tree_at s1 u" "parent s1 (gt_root u) = Some g" "children s1 g = map gt_root ts"
    using tree(1) u Cons.prems(2) tree_at_same [OF Cons.prems(2)]
    by (auto simp: list_all_iff same_tree_def)
  have dist: "distinct (nodes u)" "gt_root u \<notin> gt_root ` set pre"
    using tree(2) u Cons.prems(1) distinct_roots [of ts] by (auto simp: distinct_concat_iff)
  obtain r s2 where v: "visit down up u s1 = (r, s2)" by (cases "visit down up u s1")
  have s2: "same_tree s1 s2" using visit_keeps [OF keeps, of s1 u] v by simp
  have "children s2 g = map gt_root pre @ gt_root u # map gt_root rest"
    using s2 here(3) Cons.prems(1) by (simp add: same_tree_def)
  then have "after (gt_root u) (children s2 g) = map gt_root rest"
    using dist(2) by (simp add: after_split)
  then have "tg_walk down up from (At g (map gt_root (u # rest))) s1 =
      (if r \<noteq> 0 then Some (r, s2) else tg_walk down up from (At g (map gt_root rest)) s2)"
    using sub [OF u here(1) dist(1) tree(3) [OF u] here(2)] v
    by (simp add: tg_walk.simps [of down up "from" "At g (x # xs)" for x xs])
  then show ?case
    using v Cons.IH [of "pre @ [u]" s2] Cons.prems s2 by (auto intro: same_tree_trans)
qed simp

text \<open>
  The walk below the group it started from: entering a subtree has the effect of visiting it,
  after which the walk is back in the loop of its parent, behind it.
\<close>

lemma tg_walk_subtree:
  assumes keeps: "keeps_tree down" "keeps_tree up"
    and "tree_at s t" "distinct (nodes t)" "from \<notin> set (nodes t)" "parent s (gt_root t) = Some q"
  shows "tg_walk down up from (Enter (gt_root t)) s =
    (case visit down up t s of (r, s') \<Rightarrow>
       if r \<noteq> 0 then Some (r, s')
       else tg_walk down up from (At q (after (gt_root t) (children s' q))) s')"
  using assms(3-6)
proof (induction t arbitrary: s q)
  case (GNode g ts)
  obtain r s1 where d: "down g s = (r, s1)" by (cases "down g s")
  have s1: "same_tree s s1" by (rule keeps_treeD [OF keeps(1) d])
  obtain r2 s2 where v: "visit_all (visit down up) ts s1 = (r2, s2)" by (cases "visit_all (visit down up) ts s1")
  have s2: "same_tree s1 s2" using visit_all_keeps [of ts "visit down up" s1] visit_keeps [OF keeps] v by simp
  obtain r3 s3 where u: "up g s2 = (r3, s3)" by (cases "up g s2")
  have s3: "same_tree s2 s3" by (rule keeps_treeD [OF keeps(2) u])
  have par: "parent s3 g = Some q" using GNode.prems(4) s1 s2 s3 by (simp add: same_tree_def)
  have "tg_walk down up from (At g (map gt_root ts)) s1 =
      (case visit_all (visit down up) ts s1 of (r, s') \<Rightarrow>
         if r \<noteq> 0 then Some (r, s') else tg_walk down up from (At g []) s')"
    by (rule tg_walk_children [OF keeps GNode.IH GNode.prems(1,2), where pre = "[]"])
      (use GNode.prems(3) s1 in auto)
  then have kids: "tg_walk down up from (At g (map gt_root ts)) s1 =
      (if r2 \<noteq> 0 then Some (r2, s2) else tg_walk down up from (At g []) s2)"
    using v by simp
  have enter: "tg_walk down up from (Enter g) s =
      (if r \<noteq> 0 then Some (r, s1) else tg_walk down up from (At g (map gt_root ts)) s1)"
    using d GNode.prems(1) s1 by (simp add: tg_walk.simps [of down up "from" "Enter g"] same_tree_def)
  have leave: "tg_walk down up from (At g []) s2 =
      (if r3 \<noteq> 0 then Some (r3, s3) else tg_walk down up from (At q (after g (children s3 q))) s3)"
    using u par GNode.prems(3) by (simp add: tg_walk.simps [of down up "from" "At g []"])
  show ?case
    using enter leave kids d v u by simp
qed

lemma walk_tg_tree_from_tree:
  assumes "tree_at s t" "distinct (nodes t)" "keeps_tree down" "keeps_tree up"
  shows "walk_tg_tree_from (gt_root t) down up s = Some (visit down up t s)"
proof -
  obtain g ts where t: "t = GNode g ts" by (cases t)
  obtain r s1 where d: "down g s = (r, s1)" by (cases "down g s")
  have s1: "same_tree s s1" by (rule keeps_treeD [OF assms(3) d])
  obtain r2 s2 where v: "visit_all (visit down up) ts s1 = (r2, s2)" by (cases "visit_all (visit down up) ts s1")
  have "tg_walk down up g (At g (map gt_root ts)) s1 =
      (case visit_all (visit down up) ts s1 of (r, s') \<Rightarrow>
         if r \<noteq> 0 then Some (r, s') else tg_walk down up g (At g []) s')"
    by (rule tg_walk_children [OF assms(3,4) tg_walk_subtree [OF assms(3,4)], where pre = "[]" and s = s])
      (use assms(1,2) t s1 in auto)
  then have kids: "tg_walk down up g (At g (map gt_root ts)) s1 =
      (if r2 \<noteq> 0 then Some (r2, s2) else tg_walk down up g (At g []) s2)"
    using v by simp
  have "tg_walk down up g (Enter g) s =
      (if r \<noteq> 0 then Some (r, s1) else tg_walk down up g (At g (map gt_root ts)) s1)"
    using d assms(1) s1 t by (simp add: tg_walk.simps [of down up g "Enter g"] same_tree_def)
  moreover have "tg_walk down up g (At g []) s2 = Some (up g s2)"
    by (simp add: tg_walk.simps [of down up g "At g []"] split: prod.split)
  ultimately show ?thesis
    using kids d v t by (simp add: walk_tg_tree_from_def)
qed

text \<open>C6 \<^verbatim>\<open>walk_tg_tree_from\<close> walks by gotos, with no stack: it finds its way back up through the
  parent pointers and resumes each loop behind the child it came from. On a tree of groups it
  ends, and does what the recursion over the tree does: enter a group, visit the subtrees of
  its children in their order, leave the group, and stop at the first visitor that fails with
  its error.\<close>

theorem walk_tg_tree_visits:
  assumes "tree_at s t" "distinct (nodes t)" "keeps_tree down" "keeps_tree up"
  shows "walk_tg_tree_from (gt_root t) down up s = Some (visit down up t s)"
  by (rule walk_tg_tree_from_tree [OF assms])

text \<open>A tree of four groups whose second visitor on the way down fails at group 3.\<close>

definition demo_group :: task_group where
  "demo_group = \<lparr>tg_parent = None, tg_children = [], tg_rt_period = 1000000000, tg_rt_runtime = 0,
     tg_rt_rq_runtime = \<lambda>_. 0, tg_cfs_period = 100000000, tg_cfs_quota = RUNTIME_INF,
     tg_hierarchical_quota = RUNTIME_INF, tg_timer_active = False,
     tg_cfs_rq = \<lambda>_. \<lparr>cr_runtime_enabled = False, cr_runtime_remaining = 0, cr_throttled = False\<rparr>,
     tg_shares = 1024\<rparr>"

definition demo_groups :: "gid list group_state" where
  "demo_groups = \<lparr>gs_groups = (\<lambda>_. demo_group)
       (0 := demo_group\<lparr>tg_children := [2, 1], tg_rt_runtime := 950000000\<rparr>,
        1 := demo_group\<lparr>tg_parent := Some 0\<rparr>,
        2 := demo_group\<lparr>tg_parent := Some 0, tg_children := [3]\<rparr>,
        3 := demo_group\<lparr>tg_parent := Some 2\<rparr>),
     gs_list = [3, 2, 1, 0], gs_live = {0, 1, 2, 3}, gs_rcu = [], gs_task_group = (\<lambda>_. 0),
     gs_rt_period = 1000000, gs_rt_runtime = 950000, gs_rr_timeslice = 10, gs_bandwidth_used = 0,
     gs_def_rt = (1000000000, 950000000), gs_def_dl = (1000000000, 950000000), gs_ext = []\<rparr>"

definition demo_log :: "gid \<Rightarrow> gid list group_state \<Rightarrow> errno \<times> gid list group_state" where
  "demo_log g s = (if g = 3 \<and> gs_ext s = [0, 2] then - 22 else 0, s\<lparr>gs_ext := gs_ext s @ [g]\<rparr>)"

lemma demo_log_keeps: "keeps_tree demo_log" "keeps_tree tg_nop"
  by (simp_all add: keeps_tree_def demo_log_def tg_nop_def same_tree_def)

lemma walk_tg_tree_visits_witness:
  "map_option (\<lambda>(r, s). (r, gs_ext s)) (walk_tg_tree_from 0 demo_log tg_nop demo_groups) = Some (- 22, [0, 2, 3])"
proof -
  let ?t = "GNode 0 [GNode 2 [GNode 3 []], GNode 1 []]"
  have "tree_at demo_groups ?t" by (simp add: demo_groups_def demo_group_def)
  then have "walk_tg_tree_from (gt_root ?t) demo_log tg_nop demo_groups = Some (visit demo_log tg_nop ?t demo_groups)"
    by (rule walk_tg_tree_visits) (simp_all add: demo_log_keeps)
  moreover have "gs_ext demo_groups = []" by (simp add: demo_groups_def)
  ultimately show ?thesis by (simp add: demo_log_def tg_nop_def)
qed

section \<open>The life of a group\<close>

text \<open>
  What the functions below take from the rest of the kernel: the allocator, what the two
  classes keep per group, autogroups, the membership the cgroup core records, and the inlines
  of \<^verbatim>\<open>sched.h\<close> about the real-time bandwidth.
\<close>

record 'g group_env =
  ge_kzalloc :: "'g group_state \<Rightarrow> gid option"
  ge_zeroed :: task_group                   \<comment> \<open>a group whose bytes are all zero\<close>
  ge_alloc_fair :: "gid \<Rightarrow> gid \<Rightarrow> 'g group_state \<Rightarrow> bool \<times> 'g group_state"
  ge_alloc_rt :: "gid \<Rightarrow> gid \<Rightarrow> 'g group_state \<Rightarrow> bool \<times> 'g group_state"
  ge_free_fair :: "gid \<Rightarrow> 'g group_state \<Rightarrow> 'g group_state"
  ge_free_rt :: "gid \<Rightarrow> 'g group_state \<Rightarrow> 'g group_state"
  ge_autogroup_free :: "gid \<Rightarrow> 'g group_state \<Rightarrow> 'g group_state"
  ge_unregister_fair :: "gid \<Rightarrow> cpu \<Rightarrow> 'g group_state \<Rightarrow> 'g group_state"
  ge_autogroup_task_group :: "tid \<Rightarrow> gid \<Rightarrow> gid"
  ge_possible :: "cpu list"
  ge_global_rt_period :: "s32 \<Rightarrow> u64"      \<comment> \<open>of \<open>sysctl_sched_rt_period\<close>\<close>
  ge_global_rt_runtime :: "s32 \<Rightarrow> u64"     \<comment> \<open>of \<open>sysctl_sched_rt_runtime\<close>\<close>
  ge_rt_bandwidth_enabled :: "s32 \<Rightarrow> bool"
  ge_RR_TIMESLICE :: s32
  ge_msecs_to_jiffies :: "s32 \<Rightarrow> s32"

definition free_sched_group :: "'g group_env \<Rightarrow> gid \<Rightarrow> 'g group_state \<Rightarrow> 'g group_state" where
  "free_sched_group G tg s =
     (let s = ge_free_fair G tg s; s = ge_free_rt G tg s; s = ge_autogroup_free G tg s
      in s\<lparr>gs_live := gs_live s - {tg}\<rparr>)"

definition sched_create_group :: "'g group_env \<Rightarrow> gid \<Rightarrow> 'g group_state \<Rightarrow> (errno + gid) \<times> 'g group_state" where
  "sched_create_group G p s =
     (case ge_kzalloc G s of
        None \<Rightarrow> (Inl (- 12), s)
      | Some tg \<Rightarrow>
          let s = upd_group tg (\<lambda>_. ge_zeroed G) (s\<lparr>gs_live := insert tg (gs_live s)\<rparr>);
              (ok, s) = ge_alloc_fair G tg p s
          in if \<not> ok then (Inl (- 12), free_sched_group G tg s)
             else let (ok, s) = ge_alloc_rt G tg p s
                  in if \<not> ok then (Inl (- 12), free_sched_group G tg s)
                     else (Inr tg, s))"

text \<open>
  The warning on a missing parent does not stop the function, which then follows the null
  pointer.
\<close>

definition sched_online_group :: "gid \<Rightarrow> gid option \<Rightarrow> 'g group_state \<Rightarrow> 'g group_state option" where
  "sched_online_group tg p s =
     (let s = s\<lparr>gs_list := tg # gs_list s\<rparr>;
          s = upd_group tg (\<lambda>g. g\<lparr>tg_parent := p, tg_children := []\<rparr>) s
      in case p of
           None \<Rightarrow> None
         | Some q \<Rightarrow> Some (upd_group q (\<lambda>g. g\<lparr>tg_children := tg # tg_children g\<rparr>) s))"

definition sched_offline_group :: "'g group_env \<Rightarrow> gid \<Rightarrow> 'g group_state \<Rightarrow> 'g group_state" where
  "sched_offline_group G tg s =
     (let s = fold (ge_unregister_fair G tg) (ge_possible G) s;
          s = s\<lparr>gs_list := remove1 tg (gs_list s)\<rparr>
      in case parent s tg of
           None \<Rightarrow> s
         | Some q \<Rightarrow> upd_group q (\<lambda>g. g\<lparr>tg_children := remove1 tg (tg_children g)\<rparr>) s)"

text \<open>Freeing waits for a grace period, at whose end the callback runs.\<close>

definition sched_destroy_group :: "gid \<Rightarrow> 'g group_state \<Rightarrow> 'g group_state" where
  "sched_destroy_group tg s = s\<lparr>gs_rcu := gs_rcu s @ [tg]\<rparr>"

definition free_sched_group_rcu :: "'g group_env \<Rightarrow> gid \<Rightarrow> 'g group_state \<Rightarrow> 'g group_state" where
  "free_sched_group_rcu G tg s = free_sched_group G tg s"

section \<open>The tree as groups come and go\<close>

primrec grow :: "gid \<Rightarrow> gid \<Rightarrow> gtree \<Rightarrow> gtree" where
  "grow tg q (GNode g ts) =
     GNode g ((if g = q then [GNode tg []] else []) @ map (grow tg q) ts)"

fun prune :: "gid \<Rightarrow> gtree \<Rightarrow> gtree" where
  "prune tg (GNode g ts) = GNode g (map (prune tg) (filter (\<lambda>t. gt_root t \<noteq> tg) ts))"

lemma gt_root_grow [simp]: "gt_root (grow tg q t) = gt_root t"
  by (cases t) simp

lemma gt_root_prune [simp]: "gt_root (prune tg t) = gt_root t"
  by (cases t) simp

lemma grow_outside: "q \<notin> set (nodes t) \<Longrightarrow> grow tg q t = t"
  by (induction t) (auto intro: map_idI)

lemma prune_outside: "tg \<notin> set (nodes t) \<Longrightarrow> prune tg t = t"
proof (induction t)
  case (GNode g ts)
  have "gt_root t \<noteq> tg" if "t \<in> set ts" for t
    using GNode.prems root_in_nodes [of t] that by auto
  then have "filter (\<lambda>t. gt_root t \<noteq> tg) ts = ts" by (simp add: filter_id_conv)
  with GNode show ?case by (auto intro!: map_idI)
qed

lemma prune_grow: "tg \<notin> set (nodes t) \<Longrightarrow> prune tg (grow tg q t) = t"
proof (induction t)
  case (GNode g ts)
  have "gt_root t \<noteq> tg" if "t \<in> set ts" for t
    using GNode.prems root_in_nodes [of t] that by auto
  then have "filter (\<lambda>t. gt_root t \<noteq> tg) (map (grow tg q) ts) = map (grow tg q) ts"
    by (auto simp: filter_id_conv)
  with GNode show ?case by (auto intro!: map_idI)
qed

lemma set_nodes_grow: "set (nodes (grow tg q t)) = set (nodes t) \<union> (if q \<in> set (nodes t) then {tg} else {})"
  by (induction t) (auto split: if_splits)

lemma distinct_grow_list:
  assumes "\<And>t. t \<in> set ts \<Longrightarrow> distinct (nodes (grow tg q t))"
    and "distinct (concat (map nodes ts))" "tg \<notin> set (concat (map nodes ts))"
  shows "distinct (concat (map nodes (map (grow tg q) ts)))"
  using assms
proof (induction ts)
  case (Cons t ts)
  then show ?case by (auto simp: set_nodes_grow split: if_splits)
qed simp

lemma distinct_grow:
  "distinct (nodes t) \<Longrightarrow> tg \<notin> set (nodes t) \<Longrightarrow> distinct (nodes (grow tg q t))"
proof (induction t)
  case (GNode g ts)
  have "distinct (nodes (grow tg q t))" if "t \<in> set ts" for t
    using GNode.IH [OF that] GNode.prems that by (auto simp: distinct_concat_iff)
  moreover have "g \<notin> set (nodes (grow tg q t))" if "t \<in> set ts" for t
    using GNode.prems that by (auto simp: set_nodes_grow split: if_splits)
  moreover have "tg \<notin> set (nodes (grow tg q t))" if "t \<in> set ts" "g = q" for t
    using GNode.prems that by (auto simp: set_nodes_grow split: if_splits)
  ultimately show ?case
    using distinct_grow_list [of ts tg q] GNode.prems by auto
qed

lemma tree_at_local:
  "(\<And>g. g \<in> set (nodes t) \<Longrightarrow> children s' g = children s g) \<Longrightarrow>
   (\<And>g. g \<in> set (nodes t) \<Longrightarrow> g \<noteq> gt_root t \<Longrightarrow> parent s' g = parent s g) \<Longrightarrow>
   distinct (nodes t) \<Longrightarrow> tree_at s' t = tree_at s t"
proof (induction t)
  case (GNode g ts)
  have "gt_root t \<noteq> g \<and> parent s' (gt_root t) = parent s (gt_root t)" if "t \<in> set ts" for t
  proof -
    have "gt_root t \<in> set (nodes t)" by (rule root_in_nodes)
    then have "gt_root t \<in> set (nodes (GNode g ts))" "gt_root t \<noteq> g" using that GNode.prems(3) by auto
    with GNode.prems(2) show ?thesis by auto
  qed
  moreover have "tree_at s' t = tree_at s t" if "t \<in> set ts" for t
    using that GNode.prems by (intro GNode.IH) (auto simp: distinct_concat_iff)
  ultimately show ?case using GNode.prems(1) [of g] by (auto simp: list_all_iff)
qed

lemma tree_at_online:
  assumes "\<And>g. children s' g = (if g = q then tg # children s q else if g = tg then [] else children s g)"
    and "\<And>g. parent s' g = (if g = tg then Some q else parent s g)" "q \<noteq> tg"
  shows "tree_at s t \<Longrightarrow> tg \<notin> set (nodes t) \<Longrightarrow> tree_at s' (grow tg q t)"
proof (induction t)
  case (GNode g ts)
  have sub: "gt_root t \<noteq> tg \<and> tree_at s' (grow tg q t) \<and> parent s (gt_root t) = Some g" if "t \<in> set ts" for t
    using GNode that root_in_nodes [of t] by (auto simp: list_all_iff)
  have leaf: "tree_at s' (GNode tg [])" using assms(1,3) by simp
  have "children s' g = (if g = q then [tg] else []) @ map gt_root ts"
    using assms(1,3) GNode.prems by auto
  moreover have "parent s' tg = Some q" using assms(2) by simp
  moreover have "parent s' (gt_root t) = Some g" if "t \<in> set ts" for t
    using sub [OF that] assms(2) by simp
  ultimately show ?case using sub leaf by (auto simp: list_all_iff comp_def)
qed

lemma sched_online_group_tree:
  assumes "tree_at s t" "distinct (nodes t)" "tg \<notin> set (nodes t)" "q \<in> set (nodes t)"
    and "sched_online_group tg (Some q) s = Some s'"
  shows "tree_at s' (grow tg q t) \<and> distinct (nodes (grow tg q t)) \<and>
    set (nodes (grow tg q t)) = insert tg (set (nodes t)) \<and> parent s' tg = Some q \<and>
    children s' q = tg # children s q \<and> gs_list s' = tg # gs_list s"
proof -
  have "q \<noteq> tg" using assms(3,4) by auto
  then have eqs: "\<And>g. children s' g = (if g = q then tg # children s q else if g = tg then [] else children s g)"
    "\<And>g. parent s' g = (if g = tg then Some q else parent s g)" "gs_list s' = tg # gs_list s"
    using assms(5) by (auto simp: sched_online_group_def Let_def)
  then show ?thesis
    using tree_at_online [OF eqs(1,2) \<open>q \<noteq> tg\<close> assms(1,3)] distinct_grow [OF assms(2,3)] assms(4)
    by (simp add: set_nodes_grow)
qed

lemma fold_keeps:
  "(\<And>c s. c \<in> set cs \<Longrightarrow> same_tree s (f c s)) \<Longrightarrow> same_tree s (fold f cs s)"
proof (induction cs arbitrary: s)
  case (Cons c cs)
  have "same_tree s (f c s)" by (rule Cons.prems) simp
  also have "same_tree (f c s) (fold f cs (f c s))" using Cons by auto
  finally show ?case by simp
qed simp

lemma kids_filter: "filter ((\<noteq>) tg) (map gt_root ts) = map gt_root (filter (\<lambda>t. gt_root t \<noteq> tg) ts)"
  by (induction ts) auto

lemma tree_at_offline:
  assumes "\<And>g. children s' g = (if g = q then remove1 tg (children s q) else children s g)"
    and "\<And>g. parent s' g = parent s g"
    and "parent s tg = Some q"
  shows "tree_at s t \<Longrightarrow> distinct (nodes t) \<Longrightarrow> tree_at s' (prune tg t)"
proof (induction t)
  case (GNode g ts)
  have dist: "distinct (map gt_root ts)" using GNode.prems(2) by (simp add: distinct_roots)
  have sub: "tree_at s' (prune tg t)" "parent s (gt_root t) = Some g" if "t \<in> set ts" for t
    using GNode that by (auto simp: list_all_iff distinct_concat_iff)
  have kids: "children s' g = map gt_root (filter (\<lambda>t. gt_root t \<noteq> tg) ts)"
  proof (cases "g = q")
    case True
    then show ?thesis
      using assms(1) [of g] GNode.prems(1) dist
      by (simp add: distinct_remove1_removeAll removeAll_filter_not_eq kids_filter)
  next
    case False
    then have "gt_root t \<noteq> tg" if "t \<in> set ts" for t using sub(2) [OF that] assms(3) by auto
    then have "filter (\<lambda>t. gt_root t \<noteq> tg) ts = ts" by (simp add: filter_id_conv)
    with False show ?thesis using assms(1) GNode.prems(1) by simp
  qed
  then show ?case using sub assms(2) by (auto simp: list_all_iff comp_def)
qed

lemma sched_offline_group_tree:
  assumes "tree_at s t" "distinct (nodes t)" "parent s tg = Some q"
    and "\<And>c s. same_tree s (ge_unregister_fair G tg c s)"
  shows "tree_at (sched_offline_group G tg s) (prune tg t)"
proof -
  define s1 where "s1 = fold (ge_unregister_fair G tg) (ge_possible G) s"
  have same: "same_tree s s1" unfolding s1_def by (rule fold_keeps) (rule assms(4))
  then have "parent s1 tg = Some q" using assms(3) by (simp add: same_tree_def)
  moreover have "tree_at s1 t" using tree_at_same [OF same] assms(1) by simp
  moreover have "sched_offline_group G tg s =
      upd_group q (\<lambda>g. g\<lparr>tg_children := remove1 tg (tg_children g)\<rparr>) (s1\<lparr>gs_list := remove1 tg (gs_list s1)\<rparr>)"
    using \<open>parent s1 tg = Some q\<close> by (simp add: sched_offline_group_def s1_def Let_def)
  ultimately show ?thesis
    using assms(2) by (intro tree_at_offline [where s = s1 and q = q]) auto
qed

text \<open>A group that goes online becomes the first child of its parent: the groups form the
  same tree with that leaf added, which is again a tree with no group twice, so the walk still
  ends; going offline takes the leaf out and gives the tree there was before.\<close>

theorem group_online_offline:
  assumes "tree_at s t" "distinct (nodes t)" "tg \<notin> set (nodes t)" "q \<in> set (nodes t)"
    and "sched_online_group tg (Some q) s = Some s'"
    and "\<And>c s. same_tree s (ge_unregister_fair G tg c s)"
  shows "tree_at s' (grow tg q t) \<and> distinct (nodes (grow tg q t)) \<and>
    set (nodes (grow tg q t)) = insert tg (set (nodes t)) \<and>
    tree_at (sched_offline_group G tg s') t"
  using sched_online_group_tree [OF assms(1-5)] sched_offline_group_tree [OF _ _ _ assms(6)]
    prune_grow [OF assms(3), of q] by metis

definition demo_group_env :: "gid list group_env" where
  "demo_group_env = \<lparr>ge_kzalloc = (\<lambda>_. Some 4), ge_zeroed = demo_group,
     ge_alloc_fair = (\<lambda>_ _ s. (True, s)), ge_alloc_rt = (\<lambda>_ _ s. (True, s)),
     ge_free_fair = (\<lambda>_ s. s), ge_free_rt = (\<lambda>_ s. s), ge_autogroup_free = (\<lambda>_ s. s),
     ge_unregister_fair = (\<lambda>_ _ s. s), ge_autogroup_task_group = (\<lambda>_ g. g), ge_possible = [0, 1],
     ge_global_rt_period = (\<lambda>p. signed p * 1000),
     ge_global_rt_runtime = (\<lambda>r. if r <s 0 then RUNTIME_INF else signed r * 1000),
     ge_rt_bandwidth_enabled = (\<lambda>r. 0 \<le>s r), ge_RR_TIMESLICE = 25, ge_msecs_to_jiffies = (\<lambda>m. (m + 3) div 4)\<rparr>"

lemma group_online_offline_witness:
  "map_option (\<lambda>s. nodes (prune 4 (GNode 0 [GNode 2 [GNode 3 []], GNode 1 []])) = [0, 2, 3, 1] \<and>
     tree_at s (GNode 0 [GNode 2 [GNode 4 [], GNode 3 []], GNode 1 []]))
   (sched_online_group 4 (Some 2) demo_groups) = Some True"
proof -
  obtain s' where s': "sched_online_group 4 (Some 2) demo_groups = Some s'"
    by (simp add: sched_online_group_def)
  have "tree_at s' (grow 4 2 (GNode 0 [GNode 2 [GNode 3 []], GNode 1 []]))"
    using group_online_offline [OF _ _ _ _ s', of "GNode 0 [GNode 2 [GNode 3 []], GNode 1 []]" demo_group_env]
    by (simp add: demo_groups_def demo_group_def demo_group_env_def)
  with s' show ?thesis by simp
qed

section \<open>Creation\<close>

text \<open>Creating a group hands out a group only when every allocation went through. When one of
  them fails the answer is \<open>-ENOMEM\<close>, what was allocated for the group is given back, and the
  tree is as it was.\<close>

theorem sched_create_group_result:
  assumes alloc: "\<And>tg. ge_kzalloc G s = Some tg \<Longrightarrow> tg \<notin> gs_live s"
    and keeps: "\<And>tg p s. gs_live (snd (ge_alloc_fair G tg p s)) = gs_live s \<and> gs_live (snd (ge_alloc_rt G tg p s)) = gs_live s"
      "\<And>tg s. gs_live (ge_free_fair G tg s) = gs_live s \<and> gs_live (ge_free_rt G tg s) = gs_live s \<and>
         gs_live (ge_autogroup_free G tg s) = gs_live s"
    and "sched_create_group G p s = (r, s')"
  shows "case r of Inl e \<Rightarrow> e = - 12 \<and> gs_live s' = gs_live s
    | Inr tg \<Rightarrow> tg \<notin> gs_live s \<and> gs_live s' = insert tg (gs_live s)"
proof (cases "ge_kzalloc G s")
  case None
  with assms(4) show ?thesis by (auto simp: sched_create_group_def)
next
  case (Some tg)
  define s1 where "s1 = upd_group tg (\<lambda>_. ge_zeroed G) (s\<lparr>gs_live := insert tg (gs_live s)\<rparr>)"
  obtain ok s2 where f: "ge_alloc_fair G tg p s1 = (ok, s2)" by (cases "ge_alloc_fair G tg p s1")
  obtain ok' s3 where t: "ge_alloc_rt G tg p s2 = (ok', s3)" by (cases "ge_alloc_rt G tg p s2")
  have free: "gs_live (free_sched_group G tg s) = gs_live s - {tg}" for s
    using keeps(2) by (simp add: free_sched_group_def Let_def)
  have live: "gs_live s2 = insert tg (gs_live s)" "gs_live s3 = gs_live s2"
    using keeps(1) [of tg p s1] keeps(1) [of tg p s2] f t by (simp_all add: s1_def)
  show ?thesis
    using assms(4) Some f t free live alloc [OF Some]
    by (auto simp: sched_create_group_def s1_def [symmetric] Let_def split: if_splits)
qed

lemma sched_create_group_result_witness:
  "gs_live (snd (sched_create_group demo_group_env 2 demo_groups)) = {0, 1, 2, 3, 4}"
proof -
  obtain s' where s': "sched_create_group demo_group_env 2 demo_groups = (Inr 4, s')"
    by (simp add: sched_create_group_def demo_group_env_def)
  have "gs_live s' = insert 4 (gs_live demo_groups)"
    using sched_create_group_result [OF _ _ _ s'] by (simp add: demo_group_env_def demo_groups_def)
  with s' show ?thesis by (auto simp: demo_groups_def)
qed

end
