(* ===== verification/Sched_Rt_Bandwidth.thy ===== *)
theory Sched_Rt_Bandwidth
  imports Sched_Groups
begin

text \<open>
  The real-time bandwidth of task groups (\<^verbatim>\<open>core.c\<close>): the check that a configuration can be
  scheduled, which walks the whole tree with the new values of one group put in, the setters
  and getters behind the group files, the attachment of tasks, and the handler of the two
  sysctl values for the whole machine, which undoes what it wrote when a constraint fails.
\<close>

section \<open>Is a configuration schedulable?\<close>

record rt_schedulable_data =
  rsd_tg :: "gid option"
  rsd_period :: u64
  rsd_runtime :: u64

text \<open>\<open>threads\<close> are the tasks \<open>for_each_process_thread\<close> goes through.\<close>

definition tg_has_rt_tasks :: "'x kstate \<Rightarrow> tid list \<Rightarrow> gid \<Rightarrow> 'g group_state \<Rightarrow> bool" where
  "tg_has_rt_tasks k threads tg s \<longleftrightarrow>
     list_ex (\<lambda>p. rt_prio (p_prio (ks_tasks k p)) \<and> gs_task_group s p = tg) threads"

abbreviation global_ratio :: "'g group_env \<Rightarrow> 'g group_state \<Rightarrow> u64" where
  "global_ratio G s \<equiv>
     to_ratio (ge_global_rt_period G (gs_rt_period s)) (ge_global_rt_runtime G (gs_rt_runtime s))"

definition tg_rt_schedulable ::
  "'g group_env \<Rightarrow> 'x kstate \<Rightarrow> tid list \<Rightarrow> rt_schedulable_data \<Rightarrow> 'g visitor"
where
  "tg_rt_schedulable G k threads d tg s =
     (let period = tg_rt_period (gs_groups s tg); runtime = tg_rt_runtime (gs_groups s tg);
          (period, runtime) = (if rsd_tg d = Some tg then (rsd_period d, rsd_runtime d) else (period, runtime))
      in if period < runtime \<and> runtime \<noteq> RUNTIME_INF then (- 22, s)
         else if ge_rt_bandwidth_enabled G (gs_rt_runtime s) \<and> runtime = 0 \<and> tg_has_rt_tasks k threads tg s
         then (- 16, s)
         else
           let total = to_ratio period runtime in
           if global_ratio G s < total then (- 22, s)
           else
             let sum = sum_list (map (\<lambda>child.
                   let period = tg_rt_period (gs_groups s child); runtime = tg_rt_runtime (gs_groups s child);
                       (period, runtime) =
                         (if rsd_tg d = Some child then (rsd_period d, rsd_runtime d) else (period, runtime))
                   in to_ratio period runtime) (children s tg))
             in if total < sum then (- 22, s) else (0, s))"

definition rt_schedulable ::      \<comment> \<open>\<open>__rt_schedulable\<close>\<close>
  "'g group_env \<Rightarrow> 'x kstate \<Rightarrow> tid list \<Rightarrow> gid option \<Rightarrow> u64 \<Rightarrow> u64 \<Rightarrow> 'g group_state \<Rightarrow>
    (errno \<times> 'g group_state) option"
where
  "rt_schedulable G k threads tg period runtime s =
     walk_tg_tree
       (tg_rt_schedulable G k threads \<lparr>rsd_tg = tg, rsd_period = period, rsd_runtime = runtime\<rparr>) tg_nop s"

section \<open>Setting and reading\<close>

definition set_rt_params :: "'g group_env \<Rightarrow> gid \<Rightarrow> u64 \<Rightarrow> u64 \<Rightarrow> 'g group_state \<Rightarrow> 'g group_state" where
  "set_rt_params G tg rt_period rt_runtime s =
     (let s = upd_group tg (\<lambda>g. g\<lparr>tg_rt_period := rt_period, tg_rt_runtime := rt_runtime\<rparr>) s
      in fold (\<lambda>i. upd_group tg (\<lambda>g. g\<lparr>tg_rt_rq_runtime := (tg_rt_rq_runtime g)(i := rt_runtime)\<rparr>))
           (ge_possible G) s)"

definition tg_set_rt_bandwidth ::
  "'g group_env \<Rightarrow> 'x kstate \<Rightarrow> tid list \<Rightarrow> gid \<Rightarrow> u64 \<Rightarrow> u64 \<Rightarrow> 'g group_state \<Rightarrow>
    (errno \<times> 'g group_state) option"
where
  "tg_set_rt_bandwidth G k threads tg rt_period rt_runtime s =
     (case rt_schedulable G k threads (Some tg) rt_period rt_runtime s of
        None \<Rightarrow> None
      | Some (err, s) \<Rightarrow>
          if err \<noteq> 0 then Some (err, s) else Some (0, set_rt_params G tg rt_period rt_runtime s))"

abbreviation NSEC_PER_USEC :: u64 where "NSEC_PER_USEC \<equiv> 1000"

text \<open>The values from user space are \<open>long\<close>, read with \<open>sint\<close>.\<close>

definition sched_group_set_rt_runtime ::
  "'g group_env \<Rightarrow> 'x kstate \<Rightarrow> tid list \<Rightarrow> gid \<Rightarrow> u64 \<Rightarrow> 'g group_state \<Rightarrow> (errno \<times> 'g group_state) option"
where
  "sched_group_set_rt_runtime G k threads tg rt_runtime_us s =
     (let rt_period = tg_rt_period (gs_groups s tg);
          rt_runtime = (if rt_runtime_us <s 0 then RUNTIME_INF else rt_runtime_us * NSEC_PER_USEC)
      in tg_set_rt_bandwidth G k threads tg rt_period rt_runtime s)"

definition sched_group_rt_runtime :: "gid \<Rightarrow> 'g group_state \<Rightarrow> u64" where
  "sched_group_rt_runtime tg s =
     (if tg_rt_runtime (gs_groups s tg) = RUNTIME_INF then - 1
      else tg_rt_runtime (gs_groups s tg) div NSEC_PER_USEC)"

definition sched_group_set_rt_period ::
  "'g group_env \<Rightarrow> 'x kstate \<Rightarrow> tid list \<Rightarrow> gid \<Rightarrow> u64 \<Rightarrow> 'g group_state \<Rightarrow> (errno \<times> 'g group_state) option"
where
  "sched_group_set_rt_period G k threads tg rt_period_us s =
     (let rt_period = rt_period_us * NSEC_PER_USEC; rt_runtime = tg_rt_runtime (gs_groups s tg)
      in if rt_period = 0 then Some (- 22, s)
         else tg_set_rt_bandwidth G k threads tg rt_period rt_runtime s)"

definition sched_group_rt_period :: "gid \<Rightarrow> 'g group_state \<Rightarrow> u64" where
  "sched_group_rt_period tg s = tg_rt_period (gs_groups s tg) div NSEC_PER_USEC"

definition sched_rt_can_attach :: "'x kstate \<Rightarrow> gid \<Rightarrow> tid \<Rightarrow> 'g group_state \<Rightarrow> bool" where
  "sched_rt_can_attach k tg p s =
     (if rt_prio (p_prio (ks_tasks k p)) \<and> tg_rt_runtime (gs_groups s tg) = 0 then False else True)"

section \<open>The values for the whole machine\<close>

definition sched_rt_global_constraints ::
  "'g group_env \<Rightarrow> 'x kstate \<Rightarrow> tid list \<Rightarrow> 'g group_state \<Rightarrow> (errno \<times> 'g group_state) option"
where
  "sched_rt_global_constraints G k threads s = rt_schedulable G k threads None 0 0 s"

definition sched_dl_global_constraints :: "'g group_env \<Rightarrow> 'x kstate \<Rightarrow> 'g group_state \<Rightarrow> errno" where
  "sched_dl_global_constraints G k s =
     (let new_bw = global_ratio G s
      in if list_ex (\<lambda>c. new_bw < db_total_bw (dl_bw_of k c)) (ge_possible G) then - 16 else 0)"

definition sched_dl_do_global ::
  "'g group_env \<Rightarrow> 'x kstate \<times> 'g group_state \<Rightarrow> 'x kstate \<times> 'g group_state"
where
  "sched_dl_do_global G = (\<lambda>(k, s).
     let period = ge_global_rt_period G (gs_rt_period s); runtime = ge_global_rt_runtime G (gs_rt_runtime s);
         s = s\<lparr>gs_def_dl := (period, runtime)\<rparr>;
         new_bw = (if runtime \<noteq> RUNTIME_INF then to_ratio period runtime else - 1)
     in (fold (\<lambda>c. upd_dl_bw c (\<lambda>b. b\<lparr>db_bw := new_bw\<rparr>)) (ge_possible G) k, s))"

text \<open>
  The comparison with \<open>RUNTIME_INF\<close> extends the signed sysctl to 64 bits; the other two
  compare \<open>int\<close>s.
\<close>

definition sched_rt_global_validate :: "'g group_state \<Rightarrow> errno" where
  "sched_rt_global_validate s =
     (if gs_rt_period s \<le>s 0 then - 22
      else if (signed (gs_rt_runtime s) :: u64) \<noteq> RUNTIME_INF \<and> gs_rt_period s <s gs_rt_runtime s then - 22
      else 0)"

definition sched_rt_do_global :: "'g group_env \<Rightarrow> 'g group_state \<Rightarrow> 'g group_state" where
  "sched_rt_do_global G s =
     s\<lparr>gs_def_rt := (ge_global_rt_period G (gs_rt_period s), ge_global_rt_runtime G (gs_rt_runtime s))\<rparr>"

text \<open>
  \<open>dointvec\<close> is \<open>proc_dointvec\<close> on the table entry, which reads or writes the sysctl value.
\<close>

definition undo_rt :: "s32 \<Rightarrow> s32 \<Rightarrow> 'g group_state \<Rightarrow> 'g group_state" where
  "undo_rt old_period old_runtime s = s\<lparr>gs_rt_period := old_period, gs_rt_runtime := old_runtime\<rparr>"

definition sched_rt_handler ::
  "'g group_env \<Rightarrow> tid list \<Rightarrow> ('g group_state \<Rightarrow> errno \<times> 'g group_state) \<Rightarrow> bool \<Rightarrow>
    'x kstate \<times> 'g group_state \<Rightarrow> (errno \<times> 'x kstate \<times> 'g group_state) option"
where
  "sched_rt_handler G threads dointvec wr = (\<lambda>(k, s).
     let old_period = gs_rt_period s; old_runtime = gs_rt_runtime s; (ret, s) = dointvec s
     in if ret = 0 \<and> wr then
          let ret = sched_rt_global_validate s in
          if ret \<noteq> 0 then Some (ret, k, undo_rt old_period old_runtime s)
          else case sched_rt_global_constraints G k threads s of
                 None \<Rightarrow> None
               | Some (ret, s) \<Rightarrow>
                   if ret \<noteq> 0 then Some (ret, k, undo_rt old_period old_runtime s)
                   else let ret = sched_dl_global_constraints G k s in
                        if ret \<noteq> 0 then Some (ret, k, undo_rt old_period old_runtime s)
                        else Some (0, sched_dl_do_global G (k, sched_rt_do_global G s))
        else Some (ret, k, s))"

definition sched_rr_handler ::
  "'g group_env \<Rightarrow> ('g group_state \<Rightarrow> errno \<times> 'g group_state) \<Rightarrow> bool \<Rightarrow> 'g group_state \<Rightarrow> errno \<times> 'g group_state"
where
  "sched_rr_handler G dointvec wr s =
     (let (ret, s) = dointvec s
      in (ret, if ret = 0 \<and> wr
               then s\<lparr>gs_rr_timeslice := (if gs_rr_timeslice s \<le>s 0 then ge_RR_TIMESLICE G
                        else ge_msecs_to_jiffies G (gs_rr_timeslice s))\<rparr>
               else s))"

section \<open>Visitors that only look\<close>

definition first_error :: "errno list \<Rightarrow> errno" where
  "first_error rs = (case dropWhile (\<lambda>r. r = 0) rs of [] \<Rightarrow> 0 | r # _ \<Rightarrow> r)"

lemma first_error_simps [simp]:
  "first_error [] = 0" "first_error (r # rs) = (if r = 0 then first_error rs else r)"
  by (simp_all add: first_error_def)

lemma first_error_append: "first_error (xs @ ys) = (if first_error xs = 0 then first_error ys else first_error xs)"
  by (induction xs) auto

lemma first_error_0: "first_error rs = 0 \<longleftrightarrow> (\<forall>r\<in>set rs. r = 0)"
  by (induction rs) auto

lemma first_error_in: "first_error rs \<noteq> 0 \<Longrightarrow> first_error rs \<in> set rs"
  by (induction rs) (auto split: if_splits)

lemma visit_all_pure:
  assumes "\<And>x. x \<in> set xs \<Longrightarrow> f x s = (g x, s)"
  shows "visit_all f xs s = (first_error (map g xs), s)"
  using assms by (induction xs) auto

lemma first_error_concat: "first_error (concat xss) = first_error (map first_error xss)"
  by (induction xss) (auto simp: first_error_append)

lemma visit_pure:
  assumes "\<And>g. down g s = (err g, s)"
  shows "visit down tg_nop t s = (first_error (map err (nodes t)), s)"
proof (induction t)
  case (GNode g ts)
  then have "visit_all (visit down tg_nop) ts s = (first_error (map (\<lambda>t. first_error (map err (nodes t))) ts), s)"
    by (rule visit_all_pure)
  moreover have "tg_nop g s = (0, s)" by (simp add: tg_nop_def)
  ultimately show ?case
    using assms [of g] by (auto simp: map_concat first_error_concat comp_def)
qed

section \<open>The configurations that can be scheduled\<close>

text \<open>
  The condition on a configuration, without overrides: no group has more runtime than its
  period unless it has no limit, a group with real-time tasks has some runtime, no group has
  a larger share than the machine, and the shares of its children fit into its own.
\<close>

abbreviation rt_share :: "'g group_state \<Rightarrow> gid \<Rightarrow> u64" where
  "rt_share s g \<equiv> to_ratio (tg_rt_period (gs_groups s g)) (tg_rt_runtime (gs_groups s g))"

definition rt_group_ok :: "'g group_env \<Rightarrow> 'x kstate \<Rightarrow> tid list \<Rightarrow> 'g group_state \<Rightarrow> gid \<Rightarrow> bool" where
  "rt_group_ok G k threads s g \<longleftrightarrow>
     (tg_rt_runtime (gs_groups s g) \<le> tg_rt_period (gs_groups s g) \<or> tg_rt_runtime (gs_groups s g) = RUNTIME_INF) \<and>
     \<not> (ge_rt_bandwidth_enabled G (gs_rt_runtime s) \<and> tg_rt_runtime (gs_groups s g) = 0 \<and>
        tg_has_rt_tasks k threads g s) \<and>
     rt_share s g \<le> global_ratio G s \<and>
     sum_list (map (rt_share s) (children s g)) \<le> rt_share s g"

definition rt_feasible :: "'g group_env \<Rightarrow> 'x kstate \<Rightarrow> tid list \<Rightarrow> gtree \<Rightarrow> 'g group_state \<Rightarrow> bool" where
  "rt_feasible G k threads t s \<longleftrightarrow> list_all (rt_group_ok G k threads s) (nodes t)"

lemma fold_rq_runtime:
  "gs_groups (fold (\<lambda>i. upd_group tg (\<lambda>g. g\<lparr>tg_rt_rq_runtime := (tg_rt_rq_runtime g)(i := r)\<rparr>)) cs s) =
     (gs_groups s)(tg := gs_groups s tg\<lparr>tg_rt_rq_runtime :=
        \<lambda>i. if i \<in> set cs then r else tg_rt_rq_runtime (gs_groups s tg) i\<rparr>)"
  by (induction cs arbitrary: s) (auto simp: fun_eq_iff intro!: arg_cong [where f = "\<lambda>f. g\<lparr>tg_rt_rq_runtime := f\<rparr>" for g])

lemma fold_upd_group_other:
  "gs_rt_period (fold (\<lambda>i. upd_group tg (f i)) cs s) = gs_rt_period s"
  "gs_rt_runtime (fold (\<lambda>i. upd_group tg (f i)) cs s) = gs_rt_runtime s"
  "gs_task_group (fold (\<lambda>i. upd_group tg (f i)) cs s) = gs_task_group s"
  by (induction cs arbitrary: s) simp_all

lemma set_rt_params_simps:
  "gs_groups (set_rt_params G tg p r s) =
     (gs_groups s)(tg := gs_groups s tg\<lparr>tg_rt_period := p, tg_rt_runtime := r, tg_rt_rq_runtime :=
        \<lambda>i. if i \<in> set (ge_possible G) then r else tg_rt_rq_runtime (gs_groups s tg) i\<rparr>)"
  "gs_rt_period (set_rt_params G tg p r s) = gs_rt_period s"
  "gs_rt_runtime (set_rt_params G tg p r s) = gs_rt_runtime s"
  "gs_task_group (set_rt_params G tg p r s) = gs_task_group s"
  by (simp_all add: set_rt_params_def Let_def fold_rq_runtime fold_upd_group_other cong: if_cong)

lemma set_rt_params_tree: "same_tree s (set_rt_params G tg p r s)"
  by (simp add: same_tree_def set_rt_params_simps)

definition rt_error ::
  "'g group_env \<Rightarrow> 'x kstate \<Rightarrow> tid list \<Rightarrow> rt_schedulable_data \<Rightarrow> 'g group_state \<Rightarrow> gid \<Rightarrow> errno"
where
  "rt_error G k threads d s g = fst (tg_rt_schedulable G k threads d g s)"

lemma tg_rt_schedulable_pure: "tg_rt_schedulable G k threads d g s = (rt_error G k threads d s g, s)"
  by (simp add: tg_rt_schedulable_def rt_error_def Let_def split_def)

lemma rt_error_range: "rt_error G k threads d s g \<in> {0, - 22, - 16}"
  by (simp add: tg_rt_schedulable_def rt_error_def Let_def split_def)

definition rt_period_in :: "rt_schedulable_data \<Rightarrow> 'g group_state \<Rightarrow> gid \<Rightarrow> u64" where
  "rt_period_in d s g = (if rsd_tg d = Some g then rsd_period d else tg_rt_period (gs_groups s g))"

definition rt_runtime_in :: "rt_schedulable_data \<Rightarrow> 'g group_state \<Rightarrow> gid \<Rightarrow> u64" where
  "rt_runtime_in d s g = (if rsd_tg d = Some g then rsd_runtime d else tg_rt_runtime (gs_groups s g))"

lemma rt_error_iff:
  "rt_error G k threads d s g = 0 \<longleftrightarrow>
     (rt_runtime_in d s g \<le> rt_period_in d s g \<or> rt_runtime_in d s g = RUNTIME_INF) \<and>
     \<not> (ge_rt_bandwidth_enabled G (gs_rt_runtime s) \<and> rt_runtime_in d s g = 0 \<and> tg_has_rt_tasks k threads g s) \<and>
     to_ratio (rt_period_in d s g) (rt_runtime_in d s g) \<le> global_ratio G s \<and>
     sum_list (map (\<lambda>c. to_ratio (rt_period_in d s c) (rt_runtime_in d s c)) (children s g))
       \<le> to_ratio (rt_period_in d s g) (rt_runtime_in d s g)"
proof -
  have pair: "(if rsd_tg d = Some c then (rsd_period d, rsd_runtime d)
      else (tg_rt_period (gs_groups s c), tg_rt_runtime (gs_groups s c))) = (rt_period_in d s c, rt_runtime_in d s c)" for c
    by (simp add: rt_period_in_def rt_runtime_in_def)
  show ?thesis
    unfolding rt_error_def tg_rt_schedulable_def Let_def pair by (auto simp: not_less)
qed

lemma rt_error_set:
  "rt_error G k threads \<lparr>rsd_tg = Some tg, rsd_period = p, rsd_runtime = r\<rparr> s g = 0 \<longleftrightarrow>
   rt_group_ok G k threads (set_rt_params G tg p r s) g"
proof -
  let ?d = "\<lparr>rsd_tg = Some tg, rsd_period = p, rsd_runtime = r\<rparr>" and ?s = "set_rt_params G tg p r s"
  have "rt_period_in ?d s c = tg_rt_period (gs_groups ?s c)" "rt_runtime_in ?d s c = tg_rt_runtime (gs_groups ?s c)" for c
    by (simp_all add: rt_period_in_def rt_runtime_in_def set_rt_params_simps)
  moreover have "children ?s g = children s g" "tg_has_rt_tasks k threads g ?s = tg_has_rt_tasks k threads g s"
    by (simp_all add: set_rt_params_simps tg_has_rt_tasks_def)
  ultimately show ?thesis
    by (simp only: rt_group_ok_def rt_error_iff set_rt_params_simps(2,3))
qed

lemma rt_error_none:
  "rt_error G k threads \<lparr>rsd_tg = None, rsd_period = p, rsd_runtime = r\<rparr> s g = 0 \<longleftrightarrow> rt_group_ok G k threads s g"
  by (simp add: rt_error_iff rt_group_ok_def rt_period_in_def rt_runtime_in_def)

lemma rt_schedulable_walk:
  assumes "tree_at s t" "gt_root t = root_task_group" "distinct (nodes t)"
  shows "\<exists>r. rt_schedulable G k threads tg p q s = Some (r, s) \<and> r \<in> {0, - 22, - 16} \<and>
    (r = 0 \<longleftrightarrow> (\<forall>g\<in>set (nodes t). rt_error G k threads \<lparr>rsd_tg = tg, rsd_period = p, rsd_runtime = q\<rparr> s g = 0))"
proof -
  let ?d = "\<lparr>rsd_tg = tg, rsd_period = p, rsd_runtime = q\<rparr>"
  let ?r = "first_error (map (rt_error G k threads ?d s) (nodes t))"
  have "keeps_tree (tg_rt_schedulable G k threads ?d)" "keeps_tree tg_nop"
    by (simp_all add: keeps_tree_def tg_rt_schedulable_pure tg_nop_def)
  then have "rt_schedulable G k threads tg p q s = Some (visit (tg_rt_schedulable G k threads ?d) tg_nop t s)"
    using walk_tg_tree_from_tree [of s t] assms by (simp add: rt_schedulable_def walk_tg_tree_def)
  also have "visit (tg_rt_schedulable G k threads ?d) tg_nop t s = (?r, s)"
    by (rule visit_pure) (rule tg_rt_schedulable_pure)
  finally have "rt_schedulable G k threads tg p q s = Some (?r, s)" .
  moreover have "?r \<in> {0, - 22, - 16}"
  proof (cases "?r = 0")
    case False
    from first_error_in [OF False] obtain g where "?r = rt_error G k threads ?d s g" by auto
    then show ?thesis using rt_error_range [of G k threads ?d s g] by simp
  qed simp
  ultimately show ?thesis by (auto simp: first_error_0)
qed

lemma tg_set_rt_bandwidth_tree:
  assumes "tree_at s t" "gt_root t = root_task_group" "distinct (nodes t)"
  shows "\<exists>r s'. tg_set_rt_bandwidth G k threads tg p q s = Some (r, s') \<and>
    (r = 0 \<longleftrightarrow> rt_feasible G k threads t (set_rt_params G tg p q s)) \<and>
    (r = 0 \<longrightarrow> s' = set_rt_params G tg p q s \<and> (\<forall>i\<in>set (ge_possible G). tg_rt_rq_runtime (gs_groups s' tg) i = q)) \<and>
    (r \<noteq> 0 \<longrightarrow> s' = s \<and> r \<in> {- 22, - 16}) \<and>
    (rt_feasible G k threads t s \<longrightarrow> rt_feasible G k threads t s') \<and> tree_at s' t"
proof -
  obtain r where r: "rt_schedulable G k threads (Some tg) p q s = Some (r, s)" "r \<in> {0, - 22, - 16}"
    "r = 0 \<longleftrightarrow> rt_feasible G k threads t (set_rt_params G tg p q s)"
    using rt_schedulable_walk [OF assms, of G k threads "Some tg" p q] 
    by (auto simp: rt_error_set rt_feasible_def list_all_iff)
  show ?thesis
    using r assms(1) tree_at_same [OF set_rt_params_tree [of s G tg p q], of t]
    by (auto simp: tg_set_rt_bandwidth_def set_rt_params_simps)
qed

text \<open>C7 \<^verbatim>\<open>tg_set_rt_bandwidth\<close> decides on the whole configuration: it takes the new period and
  runtime of a group exactly when, with them, every group of the tree satisfies the conditions
  above, and then every possible CPU of the group has the new runtime; otherwise it answers
  \<open>-EINVAL\<close> or \<open>-EBUSY\<close> and nothing has changed. So a configuration that could be scheduled stays
  one, whatever is written.\<close>

theorem tg_set_rt_bandwidth_result:
  assumes "tree_at s t" "gt_root t = root_task_group" "distinct (nodes t)"
  shows "\<exists>r s'. tg_set_rt_bandwidth G k threads tg p q s = Some (r, s') \<and>
    (r = 0 \<longleftrightarrow> rt_feasible G k threads t (set_rt_params G tg p q s)) \<and>
    (r = 0 \<longrightarrow> s' = set_rt_params G tg p q s \<and> (\<forall>i\<in>set (ge_possible G). tg_rt_rq_runtime (gs_groups s' tg) i = q)) \<and>
    (r \<noteq> 0 \<longrightarrow> s' = s \<and> r \<in> {- 22, - 16}) \<and>
    (rt_feasible G k threads t s \<longrightarrow> rt_feasible G k threads t s') \<and> tree_at s' t"
  by (rule tg_set_rt_bandwidth_tree [OF assms])

lemma demo_tree: "tree_at demo_groups (GNode 0 [GNode 2 [GNode 3 []], GNode 1 []])"
  by (simp add: demo_groups_def demo_group_def)

lemma tg_set_rt_bandwidth_result_witness:
  "map_option fst (tg_set_rt_bandwidth demo_group_env demo_state [2, 3] 2 1000000000 400000000 demo_groups) = Some 0 \<and>
   map_option fst (tg_set_rt_bandwidth demo_group_env demo_state [2, 3] 2 1000000000 960000000 demo_groups) \<noteq> Some 0"
proof -
  note set = tg_set_rt_bandwidth_result [OF demo_tree, of demo_group_env demo_state "[2, 3]" 2 1000000000]
  have feasible: "rt_feasible demo_group_env demo_state [2, 3] (GNode 0 [GNode 2 [GNode 3 []], GNode 1 []])
      (set_rt_params demo_group_env 2 1000000000 r demo_groups) \<longleftrightarrow> r = 400000000" if "r \<in> {400000000, 960000000}" for r
    using that by (auto simp: rt_feasible_def rt_group_ok_def set_rt_params_simps tg_has_rt_tasks_def to_ratio_def
        demo_groups_def demo_group_def demo_group_env_def demo_state_def demo_tsk_def word_sle_eq word_sless_alt)
  show ?thesis
    using set [of 400000000] set [of 960000000] feasible by (auto simp: root_task_group_def)
qed

section \<open>What a feasible configuration guarantees\<close>

text \<open>
  A share is at most one CPU, so that sums of fewer than \<open>2^44\<close> shares do not wrap and the
  test of the code is a test on numbers.
\<close>

lemma to_ratio_le_one:
  assumes "r \<le> p \<or> r = RUNTIME_INF"
  shows "unat (to_ratio p r) \<le> 2 ^ 20"
proof (cases "r = RUNTIME_INF \<or> p = 0")
  case True
  then show ?thesis by (auto simp: to_ratio_def)
next
  case False
  have "unat (push_bit 20 r) \<le> unat r * 2 ^ 20"
    by (simp add: push_bit_eq_mult unat_word_ariths)
  also have "\<dots> \<le> unat p * 2 ^ 20" using assms False by (simp add: word_le_nat_alt)
  finally have "unat (push_bit 20 r) div unat p \<le> unat p * 2 ^ 20 div unat p" by (rule div_le_mono)
  with False show ?thesis by (simp add: to_ratio_def unat_div unat_eq_0)
qed

lemma unat_sum_list:
  assumes "\<And>x. x \<in> set xs \<Longrightarrow> unat (f x :: u64) \<le> 2 ^ 20" "length xs < 2 ^ 44"
  shows "unat (sum_list (map f xs)) = sum_list (map (\<lambda>x. unat (f x)) xs) \<and> sum_list (map (\<lambda>x. unat (f x)) xs) \<le> length xs * 2 ^ 20"
  using assms
proof (induction xs)
  case (Cons x xs)
  then have "unat (f x) + sum_list (map (\<lambda>x. unat (f x)) xs) \<le> length (x # xs) * 2 ^ 20" by fastforce
  moreover have "length (x # xs) * 2 ^ 20 < 2 ^ 64" using Cons.prems(2) by simp
  ultimately have "unat (f x) + sum_list (map (\<lambda>x. unat (f x)) xs) < 2 ^ 64" by (rule le_less_trans)
  moreover have "unat (sum_list (map f xs)) = sum_list (map (\<lambda>x. unat (f x)) xs)" using Cons by simp
  ultimately show ?case
    using \<open>unat (f x) + _ \<le> _\<close> by (simp add: unat_word_ariths)
qed simp

primrec leaves :: "gtree \<Rightarrow> gid list" where
  "leaves (GNode g ts) = (if ts = [] then [g] else concat (map leaves ts))"

abbreviation rt_use :: "'g group_state \<Rightarrow> gid list \<Rightarrow> nat" where
  "rt_use s gs \<equiv> sum_list (map (\<lambda>g. unat (rt_share s g)) gs)"

lemma rt_use_concat: "rt_use s (concat xss) = sum_list (map (rt_use s) xss)"
  by (induction xss) simp_all

lemma rt_children_fit:
  assumes "rt_feasible G k threads t s" "g \<in> set (nodes t)" "set (children s g) \<subseteq> set (nodes t)"
    and "length (children s g) < 2 ^ 44"
  shows "rt_use s (children s g) \<le> unat (rt_share s g)"
proof -
  have ok: "rt_group_ok G k threads s c" if "c \<in> set (nodes t)" for c
    using assms(1) that by (simp add: rt_feasible_def list_all_iff)
  have "unat (rt_share s c) \<le> 2 ^ 20" if "c \<in> set (children s g)" for c
    using ok [of c] assms(3) that by (intro to_ratio_le_one) (auto simp: rt_group_ok_def)
  then have "unat (sum_list (map (rt_share s) (children s g))) = rt_use s (children s g)"
    using unat_sum_list [of "children s g" "rt_share s"] assms(4) by (simp add: comp_def)
  moreover have "sum_list (map (rt_share s) (children s g)) \<le> rt_share s g"
    using ok [OF assms(2)] by (simp add: rt_group_ok_def)
  ultimately show ?thesis by (simp add: word_le_nat_alt)
qed

lemma rt_leaves_share:
  "tree_at s t \<Longrightarrow> set (nodes t) \<subseteq> set (nodes u) \<Longrightarrow> rt_feasible G k threads u s \<Longrightarrow>
   (\<And>g. g \<in> set (nodes u) \<Longrightarrow> length (children s g) < 2 ^ 44) \<Longrightarrow>
   rt_use s (leaves t) \<le> unat (rt_share s (gt_root t))"
proof (induction t)
  case (GNode g ts)
  have kids: "children s g = map gt_root ts" using GNode.prems(1) by simp
  have "rt_use s (leaves t) \<le> unat (rt_share s (gt_root t))" if "t \<in> set ts" for t
    using that GNode.prems by (intro GNode.IH) (auto simp: list_all_iff)
  then have "sum_list (map (\<lambda>t. rt_use s (leaves t)) ts) \<le> sum_list (map (\<lambda>t. unat (rt_share s (gt_root t))) ts)"
    by (rule sum_list_mono)
  also have "\<dots> = rt_use s (children s g)" by (simp add: kids comp_def)
  also have "\<dots> \<le> unat (rt_share s g)"
  proof (rule rt_children_fit [OF GNode.prems(3)])
    show "g \<in> set (nodes u)" "length (children s g) < 2 ^ 44" using GNode.prems(2,4) by auto
    show "set (children s g) \<subseteq> set (nodes u)"
      using GNode.prems(2) root_in_nodes unfolding kids by fastforce
  qed
  finally show ?case by (simp add: rt_use_concat comp_def)
qed



section \<open>Reading back\<close>

lemma unat_RUNTIME_INF: "unat RUNTIME_INF = 18446744073709551615"
  by (simp add: unsigned_minus_1_eq_mask mask_eq_exp_minus_1)

lemma usec_roundtrip:
  assumes "unat v * 1000 < 2 ^ 64"
  shows "v * NSEC_PER_USEC \<noteq> RUNTIME_INF" "v * NSEC_PER_USEC div NSEC_PER_USEC = v"
proof -
  have u: "unat (v * NSEC_PER_USEC) = unat v * 1000" using assms by (simp add: unat_word_ariths)
  show "v * NSEC_PER_USEC \<noteq> RUNTIME_INF"
  proof
    assume "v * NSEC_PER_USEC = RUNTIME_INF"
    with u have "unat v * 1000 = unat RUNTIME_INF" by (simp only:)
    also have "\<dots> = 18446744073709551615" by (rule unat_RUNTIME_INF)
    finally have "(unat v * 1000) mod 1000 = (18446744073709551615 :: nat) mod 1000" by (simp only:)
    then show False by simp
  qed
  show "v * NSEC_PER_USEC div NSEC_PER_USEC = v"
    unfolding word_unat_eq_iff unat_div u by simp
qed

text \<open>What was written can be read: after a successful write of a runtime the group answers that
  runtime in microseconds, and \<open>-1\<close> after a negative one, as long as the nanoseconds fit into
  64 bits.\<close>

theorem rt_runtime_readback:
  assumes "sched_group_set_rt_runtime G k threads tg v s = Some (0, s')"
    and "tree_at s t" "gt_root t = root_task_group" "distinct (nodes t)"
    and "v <s 0 \<or> unat v * 1000 < 2 ^ 64"
  shows "sched_group_rt_runtime tg s' = (if v <s 0 then - 1 else v)"
proof -
  let ?r = "if v <s 0 then RUNTIME_INF else v * NSEC_PER_USEC"
  have "s' = set_rt_params G tg (tg_rt_period (gs_groups s tg)) ?r s"
    using tg_set_rt_bandwidth_tree [OF assms(2-4), of G k threads tg "tg_rt_period (gs_groups s tg)" ?r] assms(1)
    by (auto simp: sched_group_set_rt_runtime_def Let_def)
  then have r: "tg_rt_runtime (gs_groups s' tg) = ?r" by (simp add: set_rt_params_simps)
  then show ?thesis
    using usec_roundtrip [of v] assms(5) by (cases "v <s 0") (simp_all add: sched_group_rt_runtime_def del: One_nat_def)
qed

lemma demo_set_runtime:
  assumes "r \<in> {384, 400000000}"
  shows "tg_set_rt_bandwidth demo_group_env demo_state [2, 3] 2 1000000000 r demo_groups =
    Some (0, set_rt_params demo_group_env 2 1000000000 r demo_groups)"
proof -
  have "rt_feasible demo_group_env demo_state [2, 3] (GNode 0 [GNode 2 [GNode 3 []], GNode 1 []])
      (set_rt_params demo_group_env 2 1000000000 r demo_groups)"
    using assms by (auto simp: rt_feasible_def rt_group_ok_def set_rt_params_simps tg_has_rt_tasks_def to_ratio_def
        demo_groups_def demo_group_def demo_group_env_def demo_state_def demo_tsk_def word_sle_eq word_sless_alt)
  with tg_set_rt_bandwidth_tree [OF demo_tree, of demo_group_env demo_state "[2, 3]" 2 1000000000 r] show ?thesis
    by (auto simp: root_task_group_def)
qed

lemma demo_period: "tg_rt_period (gs_groups demo_groups 2) = 1000000000"
  by (simp add: demo_groups_def demo_group_def)

lemma rt_runtime_readback_witness:
  "map_option (sched_group_rt_runtime 2 \<circ> snd)
     (sched_group_set_rt_runtime demo_group_env demo_state [2, 3] 2 400000 demo_groups) = Some 400000"
proof -
  have set: "sched_group_set_rt_runtime demo_group_env demo_state [2, 3] 2 400000 demo_groups =
      Some (0, set_rt_params demo_group_env 2 1000000000 400000000 demo_groups)"
    by (simp add: sched_group_set_rt_runtime_def demo_period word_sless_alt demo_set_runtime)
  from rt_runtime_readback [OF this demo_tree] show ?thesis
    unfolding set by (simp add: root_task_group_def word_sless_alt)
qed

text \<open>The product with 1000 is not checked: a runtime of 18446744073709552 microseconds, some 584
  years, is taken as 384 nanoseconds, with success, and reads back as 0.\<close>

theorem rt_runtime_wraps:
  "\<exists>s'. sched_group_set_rt_runtime demo_group_env demo_state [2, 3] 2 18446744073709552 demo_groups = Some (0, s') \<and>
     tg_rt_runtime (gs_groups s' 2) = 384 \<and> sched_group_rt_runtime 2 s' = 0"
proof -
  have wraps: "18446744073709552 * NSEC_PER_USEC = 384" by simp
  have "\<not> (18446744073709552 :: u64) <s 0" by (simp add: word_sless_alt)
  then have "sched_group_set_rt_runtime demo_group_env demo_state [2, 3] 2 18446744073709552 demo_groups =
      Some (0, set_rt_params demo_group_env 2 1000000000 384 demo_groups)"
    unfolding sched_group_set_rt_runtime_def demo_period Let_def wraps using demo_set_runtime [of 384] by simp
  then show ?thesis
    by (simp add: set_rt_params_simps sched_group_rt_runtime_def)
qed

section \<open>The handler of the global values\<close>

lemma rq_rd_upd_dl_bw [simp]: "rq_rd (ks_rqs (upd_dl_bw c f k) d) = rq_rd (ks_rqs k d)"
  by (simp add: upd_dl_bw_def)

lemma dl_bw_of_upd: "dl_bw_of (upd_dl_bw c f k) d =
    (if rq_rd (ks_rqs k c) = rq_rd (ks_rqs k d) then f (dl_bw_of k d) else dl_bw_of k d)"
  by (simp add: dl_bw_of_def upd_dl_bw_def)

lemma fold_db_bw:
  "dl_bw_of (fold (\<lambda>c. upd_dl_bw c (\<lambda>b. b\<lparr>db_bw := v\<rparr>)) cs k) d =
     (if rq_rd (ks_rqs k d) \<in> (\<lambda>c. rq_rd (ks_rqs k c)) ` set cs then (dl_bw_of k d)\<lparr>db_bw := v\<rparr> else dl_bw_of k d)"
  by (induction cs arbitrary: k) (auto simp: dl_bw_of_upd)

definition rt_values_ok ::
  "'g group_env \<Rightarrow> 'x kstate \<Rightarrow> tid list \<Rightarrow> gtree \<Rightarrow> 'g group_state \<Rightarrow> bool"
where
  "rt_values_ok G k threads t s \<longleftrightarrow>
     0 <s gs_rt_period s \<and> (gs_rt_runtime s = - 1 \<or> gs_rt_runtime s \<le>s gs_rt_period s) \<and>
     rt_feasible G k threads t s \<and>
     list_all (\<lambda>c. db_total_bw (dl_bw_of k c) \<le> global_ratio G s) (ge_possible G)"

lemma signed_s32_minus_one: "(signed (r :: s32) :: u64) = - 1 \<longleftrightarrow> r = - 1"
proof -
  have r: "- (2 ^ 31) \<le> sint r" "sint r < 2 ^ 31" using sint_ge [of r] sint_lt [of r] by simp_all
  have "sint (signed r :: u64) = sint (word_of_int (sint r) :: u64)" by (simp only: scast_eq)
  also have "\<dots> = signed_take_bit 63 (sint r)" by (simp only: signed_of_int) simp
  also have "\<dots> = sint r"
    using r by (intro signed_take_bit_int_eq_self) simp_all
  finally have "sint (signed r :: u64) = sint r" .
  then show ?thesis by (metis signed_minus_1 signed_word_eqI)
qed

lemma sched_rt_global_validate_0:
  "sched_rt_global_validate s = 0 \<longleftrightarrow>
     0 <s gs_rt_period s \<and> (gs_rt_runtime s = - 1 \<or> gs_rt_runtime s \<le>s gs_rt_period s)"
  by (auto simp: sched_rt_global_validate_def signed_s32_minus_one word_sle_eq word_sless_alt not_le not_less)

lemma sched_rt_handler_tree:
  assumes "tree_at s t" "gt_root t = root_task_group" "distinct (nodes t)"
    and dointvec: "dointvec s = (0, s1)" "s1 = s\<lparr>gs_rt_period := p, gs_rt_runtime := r\<rparr>"
  shows "\<exists>ret k' s'. sched_rt_handler G threads dointvec True (k, s) = Some (ret, k', s') \<and>
    (ret = 0 \<longleftrightarrow> rt_values_ok G k threads t s1) \<and>
    (ret \<noteq> 0 \<longrightarrow> k' = k \<and> s' = s) \<and>
    (ret = 0 \<longrightarrow> gs_rt_period s' = p \<and> gs_rt_runtime s' = r \<and>
       gs_def_rt s' = (ge_global_rt_period G p, ge_global_rt_runtime G r) \<and> gs_def_dl s' = gs_def_rt s' \<and>
       list_all (\<lambda>c. db_bw (dl_bw_of k' c) = (if ge_global_rt_runtime G r = RUNTIME_INF then - 1 else global_ratio G s1) \<and>
         db_total_bw (dl_bw_of k' c) \<le> global_ratio G s1) (ge_possible G))"
proof -
  have "same_tree s s1" using dointvec(2) by (simp add: same_tree_def)
  then have tree: "tree_at s1 t" using tree_at_same assms(1) by blast
  obtain e where e: "sched_rt_global_constraints G k threads s1 = Some (e, s1)"
    "e = 0 \<longleftrightarrow> rt_feasible G k threads t s1"
    using rt_schedulable_walk [OF tree assms(2,3), of G k threads None 0 0]
    by (auto simp: sched_rt_global_constraints_def rt_error_none rt_feasible_def list_all_iff)
  have dl: "sched_dl_global_constraints G k s1 = 0 \<longleftrightarrow>
      list_all (\<lambda>c. db_total_bw (dl_bw_of k c) \<le> global_ratio G s1) (ge_possible G)"
    by (auto simp: sched_dl_global_constraints_def list_all_iff list_ex_iff not_less not_le Let_def)
  have undo: "undo_rt (gs_rt_period s) (gs_rt_runtime s) s1 = s" using dointvec(2) by (simp add: undo_rt_def)
  have handler: "sched_rt_handler G threads dointvec True (k, s) =
      (if sched_rt_global_validate s1 \<noteq> 0 then Some (sched_rt_global_validate s1, k, s)
       else if e \<noteq> 0 then Some (e, k, s)
       else if sched_dl_global_constraints G k s1 \<noteq> 0 then Some (sched_dl_global_constraints G k s1, k, s)
       else Some (0, sched_dl_do_global G (k, sched_rt_do_global G s1)))"
    using dointvec(1) e(1) undo by (simp add: sched_rt_handler_def Let_def)
  have ok: "rt_values_ok G k threads t s1 \<longleftrightarrow>
      sched_rt_global_validate s1 = 0 \<and> e = 0 \<and> sched_dl_global_constraints G k s1 = 0"
    unfolding rt_values_ok_def sched_rt_global_validate_0 e(2) dl by blast
  show ?thesis
  proof (cases "rt_values_ok G k threads t s1")
    case True
    then show ?thesis
      using ok handler dl dointvec(2)
      by (auto simp: sched_dl_do_global_def sched_rt_do_global_def Let_def list_all_iff fold_db_bw)
  next
    case False
    then show ?thesis using ok unfolding handler by auto
  qed
qed


lemma demo_feasible: "rt_feasible demo_group_env k [] (GNode 0 [GNode 2 [GNode 3 []], GNode 1 []]) demo_groups"
  by (auto simp: rt_feasible_def rt_group_ok_def tg_has_rt_tasks_def to_ratio_def
      demo_groups_def demo_group_def demo_group_env_def word_sle_eq word_sless_alt)

lemma demo_ratio: "global_ratio demo_group_env demo_groups = 996147"
  by (simp add: demo_groups_def demo_group_env_def to_ratio_def word_sless_alt)

lemma demo_values_ok:
  "rt_values_ok demo_group_env k [] (GNode 0 [GNode 2 [GNode 3 []], GNode 1 []]) demo_groups \<longleftrightarrow>
   db_total_bw (dl_bw_of k 0) \<le> 996147 \<and> db_total_bw (dl_bw_of k 1) \<le> 996147"
proof -
  have "0 <s gs_rt_period demo_groups" "gs_rt_runtime demo_groups \<le>s gs_rt_period demo_groups"
    "ge_possible demo_group_env = [0, 1]"
    by (simp_all add: demo_groups_def demo_group_env_def word_sle_eq word_sless_alt)
  then show ?thesis
    using demo_feasible [of k] unfolding rt_values_ok_def demo_ratio by simp
qed

lemma demo_same: "demo_groups = demo_groups\<lparr>gs_rt_period := 1000000, gs_rt_runtime := 950000\<rparr>"
  by (simp add: demo_groups_def)


text \<open>C0 The comment promises a check against a value "smaller than the currently allocated
  bandwidth in any of the root_domains", but the total of a domain is compared with the ratio of
  one CPU, where admission allows the ratio times the number of CPUs. With 1.2 CPUs handed out
  on two CPUs, which admission allows, even writing the old value again fails with \<open>-EBUSY\<close>.\<close>

definition busy_state :: "demo_ext kstate" where
  "busy_state = upd_rd 0 (\<lambda>d. d\<lparr>rd_dl_bw := \<lparr>db_bw = 996147, db_total_bw = 1258291\<rparr>\<rparr>) demo_state"

theorem dl_global_check_counts_one_cpu:
  "\<not> dl_bw_exceeded (dl_bw_of busy_state 0) (dl_bw_cpus demo_env busy_state 0) 0 0 \<and>
   map_option fst (sched_rt_handler demo_group_env [] (\<lambda>s. (0, s)) True (busy_state, demo_groups)) = Some (- 16)"
proof -
  have "\<not> dl_bw_exceeded (dl_bw_of busy_state 0) (dl_bw_cpus demo_env busy_state 0) 0 0"
    by (simp add: dl_bw_exceeded_def dl_bw_of_def dl_bw_cpus_def busy_state_def demo_state_def demo_rq_def
        demo_env_def cpus_in_def upt_rec)
  moreover have "sched_rt_global_constraints demo_group_env busy_state [] demo_groups = Some (0, demo_groups)"
    using rt_schedulable_walk [OF demo_tree, of demo_group_env busy_state "[]" None 0 0] demo_feasible [of busy_state]
    by (auto simp: sched_rt_global_constraints_def rt_error_none rt_feasible_def list_all_iff root_task_group_def)
  moreover have "sched_rt_global_validate demo_groups = 0"
    by (simp add: sched_rt_global_validate_0 demo_groups_def word_sle_eq word_sless_alt)
  moreover have "sched_dl_global_constraints demo_group_env busy_state demo_groups = - 16"
    by (simp add: sched_dl_global_constraints_def demo_ratio)
      (simp add: demo_group_env_def dl_bw_of_def busy_state_def demo_state_def demo_rq_def)
  ultimately show ?thesis
    by (simp add: sched_rt_handler_def)
qed

end
