(* ===== verification/Sched_Cfs_Bandwidth.thy ===== *)
theory Sched_Cfs_Bandwidth
  imports Sched_Rt_Bandwidth
begin

text \<open>
  The bandwidth of the fair class per task group (\<^verbatim>\<open>core.c\<close>): the quota and period of a group,
  the walk that computes the quota in force in every group from the top of the tree and refuses
  a child more than its parent has, and the count of the groups with a quota, which switches the
  accounting on and off.
\<close>

section \<open>Definitions\<close>

text \<open>What \<^verbatim>\<open>fair.c\<close> provides.\<close>

record 'g cfs_env =
  ce_refill :: "gid \<Rightarrow> 'g group_state \<Rightarrow> 'g group_state"      \<comment> \<open>\<open>__refill_cfs_bandwidth_runtime\<close>\<close>
  ce_start :: "gid \<Rightarrow> 'g group_state \<Rightarrow> 'g group_state"       \<comment> \<open>\<open>__start_cfs_bandwidth(\<dots>, true)\<close>\<close>
  ce_unthrottle :: "gid \<Rightarrow> cpu \<Rightarrow> 'g group_state \<Rightarrow> 'g group_state"
  ce_usage_inc :: "'g group_state \<Rightarrow> 'g group_state"
  ce_usage_dec :: "'g group_state \<Rightarrow> 'g group_state"
  ce_online :: "cpu list"

definition max_cfs_quota_period :: u64 where "max_cfs_quota_period = 1 * 1000000000"
definition min_cfs_quota_period :: u64 where "min_cfs_quota_period = 1 * 1000000"

definition tg_get_cfs_quota :: "gid \<Rightarrow> 'g group_state \<Rightarrow> u64" where
  "tg_get_cfs_quota tg s =
     (if tg_cfs_quota (gs_groups s tg) = RUNTIME_INF then - 1
      else tg_cfs_quota (gs_groups s tg) div NSEC_PER_USEC)"

definition tg_get_cfs_period :: "gid \<Rightarrow> 'g group_state \<Rightarrow> u64" where
  "tg_get_cfs_period tg s = tg_cfs_period (gs_groups s tg) div NSEC_PER_USEC"

record cfs_schedulable_data =
  csd_tg :: gid
  csd_period :: u64
  csd_quota :: u64

definition normalize_cfs_quota :: "gid \<Rightarrow> cfs_schedulable_data \<Rightarrow> 'g group_state \<Rightarrow> u64" where
  "normalize_cfs_quota tg d s =
     (let (period, quota) =
            (if tg = csd_tg d then (csd_period d, csd_quota d)
             else (tg_get_cfs_period tg s, tg_get_cfs_quota tg s))
      in if quota = RUNTIME_INF \<or> quota = - 1 then RUNTIME_INF
         else to_ratio period quota)"

definition set_hierarchical :: "gid \<Rightarrow> u64 \<Rightarrow> 'g group_state \<Rightarrow> 'g group_state" where
  "set_hierarchical tg q = upd_group tg (\<lambda>g. g\<lparr>tg_hierarchical_quota := q\<rparr>)"

definition tg_cfs_schedulable_down :: "cfs_schedulable_data \<Rightarrow> 'g visitor" where
  "tg_cfs_schedulable_down d tg s =
     (case parent s tg of
        None \<Rightarrow> (0, set_hierarchical tg RUNTIME_INF s)
      | Some p \<Rightarrow>
          let quota = normalize_cfs_quota tg d s;
              parent_quota = tg_hierarchical_quota (gs_groups s p)
          in if quota = RUNTIME_INF then (0, set_hierarchical tg parent_quota s)
             else if parent_quota \<noteq> RUNTIME_INF \<and> parent_quota <s quota then (- 22, s)
             else (0, set_hierarchical tg quota s))"

definition cfs_schedulable ::      \<comment> \<open>\<open>__cfs_schedulable\<close>\<close>
  "gid \<Rightarrow> u64 \<Rightarrow> u64 \<Rightarrow> 'g group_state \<Rightarrow> (errno \<times> 'g group_state) option"
where
  "cfs_schedulable tg period quota s =
     (let d = (if quota \<noteq> RUNTIME_INF
               then \<lparr>csd_tg = tg, csd_period = period div NSEC_PER_USEC, csd_quota = quota div NSEC_PER_USEC\<rparr>
               else \<lparr>csd_tg = tg, csd_period = period, csd_quota = quota\<rparr>)
      in walk_tg_tree (tg_cfs_schedulable_down d) tg_nop s)"

definition reset_cfs_rq :: "'g cfs_env \<Rightarrow> gid \<Rightarrow> bool \<Rightarrow> cpu \<Rightarrow> 'g group_state \<Rightarrow> 'g group_state" where
  "reset_cfs_rq C tg enabled i s =
     (let s = upd_group tg (\<lambda>g. g\<lparr>tg_cfs_rq := (tg_cfs_rq g)(i :=
                (tg_cfs_rq g i)\<lparr>cr_runtime_enabled := enabled, cr_runtime_remaining := 0\<rparr>)\<rparr>) s
      in if cr_throttled (tg_cfs_rq (gs_groups s tg) i) then ce_unthrottle C tg i s else s)"

definition tg_set_cfs_bandwidth ::
  "'g cfs_env \<Rightarrow> gid \<Rightarrow> u64 \<Rightarrow> u64 \<Rightarrow> 'g group_state \<Rightarrow> (errno \<times> 'g group_state) option"
where
  "tg_set_cfs_bandwidth C tg period quota s =
     (if tg = root_task_group then Some (- 22, s)
      else if quota < min_cfs_quota_period \<or> period < min_cfs_quota_period then Some (- 22, s)
      else if max_cfs_quota_period < period then Some (- 22, s)
      else
        case cfs_schedulable tg period quota s of
          None \<Rightarrow> None
        | Some (ret, s) \<Rightarrow>
            if ret \<noteq> 0 then Some (ret, s)
            else
              let runtime_enabled = (quota \<noteq> RUNTIME_INF);
                  runtime_was_enabled = (tg_cfs_quota (gs_groups s tg) \<noteq> RUNTIME_INF);
                  s = (if runtime_enabled \<and> \<not> runtime_was_enabled then ce_usage_inc C s else s);
                  s = upd_group tg (\<lambda>g. g\<lparr>tg_cfs_period := period, tg_cfs_quota := quota\<rparr>) s;
                  s = ce_refill C tg s;
                  s = (if runtime_enabled \<and> tg_timer_active (gs_groups s tg) then ce_start C tg s else s);
                  s = fold (reset_cfs_rq C tg runtime_enabled) (ce_online C) s
              in Some (0, if runtime_was_enabled \<and> \<not> runtime_enabled then ce_usage_dec C s else s))"

definition tg_set_cfs_quota ::
  "'g cfs_env \<Rightarrow> gid \<Rightarrow> u64 \<Rightarrow> 'g group_state \<Rightarrow> (errno \<times> 'g group_state) option"
where
  "tg_set_cfs_quota C tg cfs_quota_us s =
     (let period = tg_cfs_period (gs_groups s tg);
          quota = (if cfs_quota_us <s 0 then RUNTIME_INF else cfs_quota_us * NSEC_PER_USEC)
      in tg_set_cfs_bandwidth C tg period quota s)"

definition tg_set_cfs_period ::
  "'g cfs_env \<Rightarrow> gid \<Rightarrow> u64 \<Rightarrow> 'g group_state \<Rightarrow> (errno \<times> 'g group_state) option"
where
  "tg_set_cfs_period C tg cfs_period_us s =
     (let period = cfs_period_us * NSEC_PER_USEC; quota = tg_cfs_quota (gs_groups s tg)
      in tg_set_cfs_bandwidth C tg period quota s)"

section \<open>The quotas in force\<close>

text \<open>
  The specification, over the tree. \<open>norm\<close> is the quota a group asks for: a group without one
  inherits what is in force above it; one with a quota must not ask for more than that.
\<close>

primrec cfs_limits :: "(gid \<Rightarrow> u64) \<Rightarrow> u64 \<Rightarrow> gtree \<Rightarrow> bool" where
  "cfs_limits norm lim (GNode g ts) \<longleftrightarrow>
     (norm g = RUNTIME_INF \<or> lim = RUNTIME_INF \<or> norm g \<le>s lim) \<and>
     list_all (\<lambda>b. b) (map (cfs_limits norm (if norm g = RUNTIME_INF then lim else norm g)) ts)"

primrec effective :: "(gid \<Rightarrow> u64) \<Rightarrow> u64 \<Rightarrow> gtree \<Rightarrow> (gid \<times> u64) list" where
  "effective norm lim (GNode g ts) =
     (let q = (if norm g = RUNTIME_INF then lim else norm g)
      in (g, q) # concat (map (effective norm q) ts))"

text \<open>The walk changes nothing but the quotas in force, so it works on these alone.\<close>

definition with_hier :: "(gid \<Rightarrow> u64) \<Rightarrow> 'g group_state \<Rightarrow> 'g group_state" where
  "with_hier h s = s\<lparr>gs_groups := \<lambda>g. gs_groups s g\<lparr>tg_hierarchical_quota := h g\<rparr>\<rparr>"

abbreviation hier :: "'g group_state \<Rightarrow> gid \<Rightarrow> u64" where
  "hier s g \<equiv> tg_hierarchical_quota (gs_groups s g)"

lemma with_hier_id: "with_hier (hier s) s = s"
  by (simp add: with_hier_def)

lemma with_hier_simps [simp]:
  "gs_groups (with_hier h s) g = gs_groups s g\<lparr>tg_hierarchical_quota := h g\<rparr>"
  "gs_bandwidth_used (with_hier h s) = gs_bandwidth_used s"
  by (simp_all add: with_hier_def)

lemma set_hierarchical_with: "set_hierarchical g q (with_hier h s) = with_hier (h(g := q)) s"
  by (simp add: set_hierarchical_def upd_group_def with_hier_def fun_eq_iff)

lemma with_hier_tree [simp]: "same_tree s (with_hier h s)"
  by (simp add: same_tree_def)

lemma normalize_with_hier [simp]: "normalize_cfs_quota g d (with_hier h s) = normalize_cfs_quota g d s"
  by (simp add: normalize_cfs_quota_def tg_get_cfs_quota_def tg_get_cfs_period_def)

lemma tg_cfs_schedulable_down_with:
  assumes "parent s g = Some p" "h p = lim"
  shows "tg_cfs_schedulable_down d g (with_hier h s) =
    (let n = normalize_cfs_quota g d s
     in if n = RUNTIME_INF then (0, with_hier (h(g := lim)) s)
        else if lim \<noteq> RUNTIME_INF \<and> lim <s n then (- 22, with_hier h s)
        else (0, with_hier (h(g := n)) s))"
  using assms by (simp add: tg_cfs_schedulable_down_def set_hierarchical_with Let_def)

text \<open>What a step of the walk does to the quotas in force below a group \<open>p\<close>.\<close>

definition hier_outcome ::
  "(gid \<Rightarrow> u64) \<Rightarrow> u64 \<Rightarrow> gtree list \<Rightarrow> (gid \<Rightarrow> u64) \<Rightarrow> errno \<Rightarrow> (gid \<Rightarrow> u64) \<Rightarrow> bool"
where
  "hier_outcome norm lim ts h r h' \<longleftrightarrow>
     r \<in> {0, - 22} \<and> (r = 0 \<longleftrightarrow> (\<forall>t\<in>set ts. cfs_limits norm lim t)) \<and>
     (\<forall>g. g \<notin> \<Union> (set ` nodes ` set ts) \<longrightarrow> h' g = h g) \<and>
     (r = 0 \<longrightarrow> (\<forall>t\<in>set ts. \<forall>(g, q)\<in>set (effective norm lim t). h' g = q))"

lemma effective_nodes: "(g, q) \<in> set (effective norm lim t) \<Longrightarrow> g \<in> set (nodes t)"
  by (induction t arbitrary: lim) (auto simp: Let_def)

lemma visit_all_hier:
  assumes "\<And>t h. t \<in> set ts \<Longrightarrow> h p = lim \<Longrightarrow>
      \<exists>r h'. visit f tg_nop t (with_hier h s) = (r, with_hier h' s) \<and> hier_outcome norm lim [t] h r h'"
    and "distinct (concat (map nodes ts))" "p \<notin> set (concat (map nodes ts))"
  shows "h p = lim \<Longrightarrow>
    \<exists>r h'. visit_all (visit f tg_nop) ts (with_hier h s) = (r, with_hier h' s) \<and> hier_outcome norm lim ts h r h'"
  using assms
proof (induction ts arbitrary: h)
  case (Cons t ts)
  obtain r h1 where v: "visit f tg_nop t (with_hier h s) = (r, with_hier h1 s)"
    and o1: "hier_outcome norm lim [t] h r h1"
    using Cons.prems(2) [of t h] Cons.prems(1) by auto
  show ?case
  proof (cases "r = 0")
    case False
    have "hier_outcome norm lim (t # ts) h r h1"
      using o1 False by (auto simp: hier_outcome_def)
    with v False show ?thesis by auto
  next
    case True
    have "h1 p = lim" using o1 Cons.prems(1,4) by (simp add: hier_outcome_def)
    then obtain r' h2 where w: "visit_all (visit f tg_nop) ts (with_hier h1 s) = (r', with_hier h2 s)"
      and o2: "hier_outcome norm lim ts h1 r' h2"
      using Cons.IH [of h1] Cons.prems by auto
    have "h2 g = h1 g" if "g \<in> set (nodes t)" for g
    proof -
      have "g \<notin> \<Union> (set ` nodes ` set ts)" using that Cons.prems(3) by auto
      with o2 show ?thesis by (simp add: hier_outcome_def)
    qed
    then have "h2 g = q" if "r' = 0" "(g, q) \<in> set (effective norm lim t)" for g q
      using that o1 True effective_nodes [OF that(2)] by (auto simp: hier_outcome_def)
    then have "hier_outcome norm lim (t # ts) h r' h2"
      using o1 o2 True by (auto simp: hier_outcome_def)
    with v w True show ?thesis by auto
  qed
qed (auto simp: hier_outcome_def)

lemma visit_hier:
  assumes "\<And>g. normalize_cfs_quota g d s = norm g"
  shows "tree_at s t \<Longrightarrow> distinct (nodes t) \<Longrightarrow> parent s (gt_root t) = Some p \<Longrightarrow> p \<notin> set (nodes t) \<Longrightarrow>
    h p = lim \<Longrightarrow>
    \<exists>r h'. visit (tg_cfs_schedulable_down d) tg_nop t (with_hier h s) = (r, with_hier h' s) \<and>
      hier_outcome norm lim [t] h r h'"
proof (induction t arbitrary: h p lim)
  case (GNode g ts)
  let ?q = "if norm g = RUNTIME_INF then lim else norm g"
  have par: "parent s g = Some p" using GNode.prems(3) by simp
  show ?case
  proof (cases "norm g \<noteq> RUNTIME_INF \<and> lim \<noteq> RUNTIME_INF \<and> lim <s norm g")
    case True
    then have "tg_cfs_schedulable_down d g (with_hier h s) = (- 22, with_hier h s)"
      using tg_cfs_schedulable_down_with [OF par, of h lim d] GNode.prems(5) assms by simp
    moreover have "hier_outcome norm lim [GNode g ts] h (- 22) h"
      using True by (auto simp: hier_outcome_def word_sle_eq word_sless_alt)
    ultimately show ?thesis by auto
  next
    case False
    then have down: "tg_cfs_schedulable_down d g (with_hier h s) = (0, with_hier (h(g := ?q)) s)"
      using tg_cfs_schedulable_down_with [OF par, of h lim d] GNode.prems(5) assms by auto
    have "\<exists>r h'. visit_all (visit (tg_cfs_schedulable_down d) tg_nop) ts (with_hier (h(g := ?q)) s) =
        (r, with_hier h' s) \<and> hier_outcome norm ?q ts (h(g := ?q)) r h'"
    proof (rule visit_all_hier)
      fix t and h' :: "gid \<Rightarrow> u64"
      assume "t \<in> set ts" "h' g = ?q"
      then show "\<exists>r h''. visit (tg_cfs_schedulable_down d) tg_nop t (with_hier h' s) = (r, with_hier h'' s) \<and>
          hier_outcome norm ?q [t] h' r h''"
        using GNode.prems by (intro GNode.IH) (auto simp: list_all_iff distinct_concat_iff)
    qed (use GNode.prems in auto)
    then obtain r h' where v: "visit_all (visit (tg_cfs_schedulable_down d) tg_nop) ts (with_hier (h(g := ?q)) s) =
        (r, with_hier h' s)" and out: "hier_outcome norm ?q ts (h(g := ?q)) r h'"
      by blast
    have "h' g = ?q" using out GNode.prems(2) by (auto simp: hier_outcome_def)
    then have "hier_outcome norm lim [GNode g ts] h r h'"
      using out False by (auto simp: hier_outcome_def Let_def list_all_iff word_sle_eq word_sless_alt)
    moreover have "tg_nop g (with_hier h' s) = (0, with_hier h' s)" by (simp add: tg_nop_def)
    ultimately show ?thesis using down v by auto
  qed
qed

section \<open>The check over the whole tree\<close>

text \<open>The quota a group asks for, as a ratio to its period.\<close>

definition cfs_ratio :: "'g group_state \<Rightarrow> gid \<Rightarrow> u64" where
  "cfs_ratio s g =
     (if tg_cfs_quota (gs_groups s g) = RUNTIME_INF then RUNTIME_INF
      else to_ratio (tg_cfs_period (gs_groups s g) div NSEC_PER_USEC) (tg_cfs_quota (gs_groups s g) div NSEC_PER_USEC))"

definition cfs_feasible :: "gtree \<Rightarrow> 'g group_state \<Rightarrow> bool" where
  "cfs_feasible t s \<longleftrightarrow> list_all (cfs_limits (cfs_ratio s) RUNTIME_INF) (gt_subs t)"

text \<open>The quotas in force are those of the specification.\<close>

definition cfs_in_force :: "gtree \<Rightarrow> 'g group_state \<Rightarrow> bool" where
  "cfs_in_force t s \<longleftrightarrow> hier s (gt_root t) = RUNTIME_INF \<and>
     list_all (\<lambda>u. list_all (\<lambda>(g, q). hier s g = q) (effective (cfs_ratio s) RUNTIME_INF u)) (gt_subs t)"

definition set_cfs_params :: "gid \<Rightarrow> u64 \<Rightarrow> u64 \<Rightarrow> 'g group_state \<Rightarrow> 'g group_state" where
  "set_cfs_params tg period quota = upd_group tg (\<lambda>g. g\<lparr>tg_cfs_period := period, tg_cfs_quota := quota\<rparr>)"

lemma div_usec_not_INF: "(x :: u64) div NSEC_PER_USEC \<noteq> RUNTIME_INF"
proof
  assume "x div NSEC_PER_USEC = RUNTIME_INF"
  then have "unat x div unat NSEC_PER_USEC = unat RUNTIME_INF" by (simp only: unat_div [symmetric])
  then have "unat x div 1000 = unat RUNTIME_INF" by simp
  moreover have "unat x div 1000 \<le> unat x" by simp
  moreover have "unat x < 2 ^ 64" using unsigned_less [of x] by simp
  ultimately show False unfolding unat_RUNTIME_INF by simp
qed

lemma normalize_set:
  "normalize_cfs_quota g (if q \<noteq> RUNTIME_INF
       then \<lparr>csd_tg = tg, csd_period = p div NSEC_PER_USEC, csd_quota = q div NSEC_PER_USEC\<rparr>
       else \<lparr>csd_tg = tg, csd_period = p, csd_quota = q\<rparr>) s = cfs_ratio (set_cfs_params tg p q s) g"
  by (simp add: normalize_cfs_quota_def cfs_ratio_def set_cfs_params_def div_usec_not_INF
      tg_get_cfs_quota_def tg_get_cfs_period_def)

lemma cfs_schedulable_tree:
  assumes "tree_at s t" "gt_root t = root_task_group" "distinct (nodes t)" "parent s root_task_group = None"
  shows "\<exists>r h. cfs_schedulable tg p q s = Some (r, with_hier h s) \<and> r \<in> {0, - 22} \<and>
    (r = 0 \<longleftrightarrow> cfs_feasible t (set_cfs_params tg p q s)) \<and>
    (r = 0 \<longrightarrow> cfs_in_force t (with_hier h (set_cfs_params tg p q s)))"
proof -
  let ?d = "if q \<noteq> RUNTIME_INF
       then \<lparr>csd_tg = tg, csd_period = p div NSEC_PER_USEC, csd_quota = q div NSEC_PER_USEC\<rparr>
       else \<lparr>csd_tg = tg, csd_period = p, csd_quota = q\<rparr>"
  let ?down = "tg_cfs_schedulable_down ?d :: 'a visitor" and ?norm = "cfs_ratio (set_cfs_params tg p q s)"
  let ?h = "(hier s)(root_task_group := RUNTIME_INF)"
  obtain ts where t: "t = GNode root_task_group ts" using assms(2) by (cases t) simp
  have keeps: "keeps_tree ?down" "keeps_tree tg_nop"
    by (auto simp: keeps_tree_def tg_cfs_schedulable_down_def set_hierarchical_def same_tree_def tg_nop_def Let_def
        split: option.split)
  have "?down root_task_group (with_hier (hier s) s) = (0, with_hier ?h s)"
    using assms(4) unfolding tg_cfs_schedulable_down_def set_hierarchical_with by simp
  then have down: "?down root_task_group s = (0, with_hier ?h s)" by (simp only: with_hier_id)
  have "\<exists>r h'. visit_all (visit ?down tg_nop) ts (with_hier ?h s) = (r, with_hier h' s) \<and>
      hier_outcome ?norm RUNTIME_INF ts ?h r h'"
  proof (rule visit_all_hier [where p = root_task_group])
    fix u and h :: "gid \<Rightarrow> u64"
    assume "u \<in> set ts" "h root_task_group = RUNTIME_INF"
    then show "\<exists>r h'. visit ?down tg_nop u (with_hier h s) = (r, with_hier h' s) \<and>
        hier_outcome ?norm RUNTIME_INF [u] h r h'"
      using assms(1,3) t
      by (intro visit_hier [OF normalize_set, where p = root_task_group]) (auto simp: list_all_iff distinct_concat_iff)
  qed (use assms(3) t in auto)
  then obtain r h where v: "visit_all (visit ?down tg_nop) ts (with_hier ?h s) = (r, with_hier h s)"
    and out: "hier_outcome ?norm RUNTIME_INF ts ?h r h"
    by blast
  have "h root_task_group = RUNTIME_INF" using out assms(3) t by (auto simp: hier_outcome_def)
  moreover have "cfs_ratio (with_hier h (set_cfs_params tg p q s)) = ?norm"
    by (simp add: cfs_ratio_def fun_eq_iff)
  moreover have "cfs_schedulable tg p q s = Some (r, with_hier h s)"
    using walk_tg_tree_from_tree [OF assms(1,3) keeps] down v t
    by (simp add: cfs_schedulable_def walk_tg_tree_def tg_nop_def Let_def)
  ultimately show ?thesis
    using out t
    by (intro exI [of _ r] exI [of _ h]) (auto simp: hier_outcome_def cfs_feasible_def cfs_in_force_def list_all_iff)
qed

section \<open>Setting the bandwidth of a group\<close>

text \<open>
  What is relied on of \<^verbatim>\<open>fair.c\<close>: refilling, restarting the timer and unthrottling a queue leave
  the tree, the quotas and the switches of the queues alone, and the usage count counts.
\<close>

definition cfs_frame :: "'g group_state \<Rightarrow> 'g group_state \<Rightarrow> bool" where
  "cfs_frame s s' \<longleftrightarrow> same_tree s s' \<and> gs_bandwidth_used s' = gs_bandwidth_used s \<and>
     (\<forall>g. tg_cfs_period (gs_groups s' g) = tg_cfs_period (gs_groups s g) \<and>
          tg_cfs_quota (gs_groups s' g) = tg_cfs_quota (gs_groups s g) \<and> hier s' g = hier s g \<and>
          (\<forall>i. cr_runtime_enabled (tg_cfs_rq (gs_groups s' g) i) = cr_runtime_enabled (tg_cfs_rq (gs_groups s g) i)))"

definition cfs_env_ok :: "'g cfs_env \<Rightarrow> bool" where
  "cfs_env_ok C \<longleftrightarrow>
     (\<forall>g s. cfs_frame s (ce_refill C g s) \<and> cfs_frame s (ce_start C g s)) \<and>
     (\<forall>g i s. cfs_frame s (ce_unthrottle C g i s)) \<and>
     (\<forall>s. ce_usage_inc C s = s\<lparr>gs_bandwidth_used := gs_bandwidth_used s + 1\<rparr>) \<and>
     (\<forall>s. ce_usage_dec C s = s\<lparr>gs_bandwidth_used := gs_bandwidth_used s - 1\<rparr>)"

lemma cfs_frame_refl [simp]: "cfs_frame s s"
  by (simp add: cfs_frame_def)

lemma cfs_frame_trans [trans]: "cfs_frame s t \<Longrightarrow> cfs_frame t u \<Longrightarrow> cfs_frame s u"
  unfolding cfs_frame_def by (metis same_tree_trans)

definition has_quota :: "'g group_state \<Rightarrow> gid \<Rightarrow> bool" where
  "has_quota s g \<longleftrightarrow> tg_cfs_quota (gs_groups s g) \<noteq> RUNTIME_INF"

text \<open>The part of the state the theorems speak of.\<close>

definition cfs_same :: "'g group_state \<Rightarrow> 'g group_state \<Rightarrow> bool" where
  "cfs_same s s' \<longleftrightarrow> same_tree s s' \<and>
     (\<forall>g. tg_cfs_period (gs_groups s' g) = tg_cfs_period (gs_groups s g) \<and>
          tg_cfs_quota (gs_groups s' g) = tg_cfs_quota (gs_groups s g) \<and> hier s' g = hier s g)"

lemma cfs_same_trans [trans]: "cfs_same s t \<Longrightarrow> cfs_same t u \<Longrightarrow> cfs_same s u"
  unfolding cfs_same_def by (metis same_tree_trans)

lemma cfs_frame_same: "cfs_frame s s' \<Longrightarrow> cfs_same s s'"
  by (simp add: cfs_frame_def cfs_same_def)

lemma reset_cfs_rq_frame:
  assumes "cfs_env_ok C"
  shows "cfs_same s (reset_cfs_rq C tg b i s) \<and>
    gs_bandwidth_used (reset_cfs_rq C tg b i s) = gs_bandwidth_used s \<and>
    cr_runtime_enabled (tg_cfs_rq (gs_groups (reset_cfs_rq C tg b i s) tg) j) =
      (if j = i then b else cr_runtime_enabled (tg_cfs_rq (gs_groups s tg) j))"
proof -
  let ?s = "upd_group tg (\<lambda>g. g\<lparr>tg_cfs_rq := (tg_cfs_rq g)(i :=
      (tg_cfs_rq g i)\<lparr>cr_runtime_enabled := b, cr_runtime_remaining := 0\<rparr>)\<rparr>) s"
  have "cfs_frame ?s (ce_unthrottle C tg i ?s)" using assms by (simp add: cfs_env_ok_def)
  moreover have "cfs_same s ?s" by (simp add: cfs_same_def same_tree_def)
  ultimately have "cfs_same s (ce_unthrottle C tg i ?s)" by (rule cfs_same_trans [rotated, OF cfs_frame_same])
  with \<open>cfs_same s ?s\<close> \<open>cfs_frame ?s (ce_unthrottle C tg i ?s)\<close> show ?thesis
    unfolding reset_cfs_rq_def Let_def by (auto simp: cfs_frame_def)
qed

lemma fold_reset_frame:
  assumes "cfs_env_ok C"
  shows "cfs_same s (fold (reset_cfs_rq C tg b) cs s) \<and>
    gs_bandwidth_used (fold (reset_cfs_rq C tg b) cs s) = gs_bandwidth_used s \<and>
    cr_runtime_enabled (tg_cfs_rq (gs_groups (fold (reset_cfs_rq C tg b) cs s) tg) j) =
      (if j \<in> set cs then b else cr_runtime_enabled (tg_cfs_rq (gs_groups s tg) j))"
proof (induction cs arbitrary: s)
  case Nil
  show ?case by (simp add: cfs_same_def)
next
  case (Cons i cs)
  have "cfs_same s (reset_cfs_rq C tg b i s)" using reset_cfs_rq_frame [OF assms] by blast
  also have "cfs_same \<dots> (fold (reset_cfs_rq C tg b) (i # cs) s)" using Cons.IH by simp
  finally show ?case
    using Cons.IH [of "reset_cfs_rq C tg b i s"] reset_cfs_rq_frame [OF assms, of s tg b i] by auto
qed

definition quota_args_ok :: "gid \<Rightarrow> u64 \<Rightarrow> u64 \<Rightarrow> bool" where
  "quota_args_ok tg p q \<longleftrightarrow> tg \<noteq> root_task_group \<and> min_cfs_quota_period \<le> q \<and> min_cfs_quota_period \<le> p \<and>
     p \<le> max_cfs_quota_period"

lemma cfs_same_set: "cfs_same s s' \<Longrightarrow> cfs_ratio s' = cfs_ratio s \<and> has_quota s' = has_quota s"
  by (simp add: cfs_same_def cfs_ratio_def has_quota_def fun_eq_iff)

lemma cfs_same_in_force: "cfs_same s s' \<Longrightarrow> cfs_in_force t s' = cfs_in_force t s"
  using cfs_same_set [of s s'] by (simp add: cfs_in_force_def cfs_same_def)

lemma tg_set_cfs_bandwidth_tree:
  assumes tree: "tree_at s t" "gt_root t = root_task_group" "distinct (nodes t)" "parent s root_task_group = None"
    and env: "cfs_env_ok C"
  shows "\<exists>r s'. tg_set_cfs_bandwidth C tg p q s = Some (r, s') \<and>
    (r = 0 \<longleftrightarrow> quota_args_ok tg p q \<and> cfs_feasible t (set_cfs_params tg p q s)) \<and>
    (r \<noteq> 0 \<longrightarrow> r = - 22 \<and> (\<exists>h. s' = with_hier h s)) \<and>
    (r = 0 \<longrightarrow> cfs_in_force t s' \<and> (\<exists>h. cfs_same (with_hier h (set_cfs_params tg p q s)) s') \<and>
       (\<forall>i\<in>set (ce_online C). cr_runtime_enabled (tg_cfs_rq (gs_groups s' tg) i) \<longleftrightarrow> q \<noteq> RUNTIME_INF) \<and>
       gs_bandwidth_used s' = gs_bandwidth_used s + of_bool (q \<noteq> RUNTIME_INF) - of_bool (has_quota s tg))"
proof (cases "quota_args_ok tg p q")
  case False
  then have "tg_set_cfs_bandwidth C tg p q s = Some (- 22, s)"
    by (auto simp: tg_set_cfs_bandwidth_def quota_args_ok_def not_le not_less)
  with False show ?thesis by (auto intro: exI [of _ "hier s"] simp: with_hier_id)
next
  case args: True
  obtain r h where sched: "cfs_schedulable tg p q s = Some (r, with_hier h s)" "r \<in> {0, - 22}"
    "r = 0 \<longleftrightarrow> cfs_feasible t (set_cfs_params tg p q s)"
    "r = 0 \<longrightarrow> cfs_in_force t (with_hier h (set_cfs_params tg p q s))"
    using cfs_schedulable_tree [OF tree, of tg p q] by blast
  show ?thesis
  proof (cases "r = 0")
    case False
    then have "tg_set_cfs_bandwidth C tg p q s = Some (r, with_hier h s)"
      using args sched(1) by (auto simp: tg_set_cfs_bandwidth_def quota_args_ok_def not_le not_less)
    with False sched(2,3) show ?thesis by auto
  next
    case True
    let ?en = "q \<noteq> RUNTIME_INF" and ?was = "has_quota s tg"
    define s1 where "s1 = (if ?en \<and> \<not> ?was then ce_usage_inc C (with_hier h s) else with_hier h s)"
    define s2 where "s2 = set_cfs_params tg p q s1"
    define s3 where "s3 = ce_refill C tg s2"
    define s4 where "s4 = (if ?en \<and> tg_timer_active (gs_groups s3 tg) then ce_start C tg s3 else s3)"
    define s5 where "s5 = fold (reset_cfs_rq C tg ?en) (ce_online C) s4"
    define s6 where "s6 = (if ?was \<and> \<not> ?en then ce_usage_dec C s5 else s5)"
    have run: "tg_set_cfs_bandwidth C tg p q s = Some (0, s6)"
      using args sched(1) True
      by (simp add: tg_set_cfs_bandwidth_def quota_args_ok_def not_less has_quota_def Let_def
          s1_def s2_def s3_def s4_def s5_def s6_def set_cfs_params_def)
    have "cfs_same (with_hier h (set_cfs_params tg p q s)) s2"
      using env by (auto simp: cfs_same_def same_tree_def s2_def s1_def set_cfs_params_def cfs_env_ok_def)
    also have "cfs_same s2 s4"
      using env cfs_frame_trans [of s2 s3 s4] by (auto simp: s3_def s4_def cfs_env_ok_def intro: cfs_frame_same)
    also have "cfs_same s4 s5" using fold_reset_frame [OF env] by (simp add: s5_def)
    also have "cfs_same s5 s6" using env by (auto simp: s6_def cfs_same_def same_tree_def cfs_env_ok_def)
    finally have same: "cfs_same (with_hier h (set_cfs_params tg p q s)) s6" .
    have "gs_bandwidth_used s5 = gs_bandwidth_used s1"
      using env fold_reset_frame [OF env, of s4 tg ?en "ce_online C"]
      by (auto simp: s5_def s4_def s3_def s2_def set_cfs_params_def cfs_env_ok_def cfs_frame_def)
    then have used: "gs_bandwidth_used s6 = gs_bandwidth_used s + of_bool ?en - of_bool ?was"
      using env by (auto simp: s6_def s1_def cfs_env_ok_def)
    have "cr_runtime_enabled (tg_cfs_rq (gs_groups s6 tg) i) \<longleftrightarrow> ?en" if "i \<in> set (ce_online C)" for i
      using that env fold_reset_frame [OF env, of s4 tg ?en "ce_online C" i]
      by (auto simp: s6_def s5_def cfs_env_ok_def)
    with run same used args True sched(3,4) cfs_same_in_force [OF same] show ?thesis
      by auto
  qed
qed

text \<open>C9 \<^verbatim>\<open>tg_set_cfs_bandwidth\<close> takes a period and a quota exactly when the group is not the root,
  the quota and the period are at least 1 ms, the period is at most 1 s, and with them no group
  of the tree asks for more than is in force above it. Then the quotas in force are the
  specified ones in the whole tree, every online queue of the group is switched to having a
  limit or not, and the usage count moves by what the group gained or lost. Otherwise it answers
  \<open>-EINVAL\<close> and at most the scratch values of the quotas in force have changed.\<close>

theorem tg_set_cfs_bandwidth_result:
  assumes "tree_at s t" "gt_root t = root_task_group" "distinct (nodes t)" "parent s root_task_group = None"
    and "cfs_env_ok C"
  shows "\<exists>r s'. tg_set_cfs_bandwidth C tg p q s = Some (r, s') \<and>
    (r = 0 \<longleftrightarrow> quota_args_ok tg p q \<and> cfs_feasible t (set_cfs_params tg p q s)) \<and>
    (r \<noteq> 0 \<longrightarrow> r = - 22 \<and> (\<exists>h. s' = with_hier h s)) \<and>
    (r = 0 \<longrightarrow> cfs_in_force t s' \<and> (\<exists>h. cfs_same (with_hier h (set_cfs_params tg p q s)) s') \<and>
       (\<forall>i\<in>set (ce_online C). cr_runtime_enabled (tg_cfs_rq (gs_groups s' tg) i) \<longleftrightarrow> q \<noteq> RUNTIME_INF) \<and>
       gs_bandwidth_used s' = gs_bandwidth_used s + of_bool (q \<noteq> RUNTIME_INF) - of_bool (has_quota s tg))"
  by (rule tg_set_cfs_bandwidth_tree [OF assms])

definition demo_cfs_env :: "gid list cfs_env" where
  "demo_cfs_env = \<lparr>ce_refill = (\<lambda>_ s. s), ce_start = (\<lambda>_ s. s),
     ce_unthrottle = (\<lambda>g i. upd_group g (\<lambda>x. x\<lparr>tg_cfs_rq := (tg_cfs_rq x)(i := (tg_cfs_rq x i)\<lparr>cr_throttled := False\<rparr>)\<rparr>)),
     ce_usage_inc = (\<lambda>s. s\<lparr>gs_bandwidth_used := gs_bandwidth_used s + 1\<rparr>),
     ce_usage_dec = (\<lambda>s. s\<lparr>gs_bandwidth_used := gs_bandwidth_used s - 1\<rparr>), ce_online = [0, 1]\<rparr>"

lemma demo_cfs_env_ok: "cfs_env_ok demo_cfs_env"
  by (auto simp: cfs_env_ok_def demo_cfs_env_def cfs_frame_def same_tree_def)

lemma demo_root: "parent demo_groups root_task_group = None"
  by (simp add: demo_groups_def demo_group_def root_task_group_def)

lemma demo_quota_feasible:
  "cfs_feasible (GNode 0 [GNode 2 [GNode 3 []], GNode 1 []]) (set_cfs_params 2 100000000 q demo_groups)"
  by (auto simp: cfs_feasible_def cfs_ratio_def set_cfs_params_def demo_groups_def demo_group_def)

lemma tg_set_cfs_bandwidth_result_witness:
  "map_option (\<lambda>(r, s). (r, gs_bandwidth_used s)) (tg_set_cfs_bandwidth demo_cfs_env 2 100000000 50000000 demo_groups) = Some (0, 1)"
proof -
  have "quota_args_ok 2 100000000 50000000"
    by (simp add: quota_args_ok_def root_task_group_def min_cfs_quota_period_def max_cfs_quota_period_def)
  moreover have "\<not> has_quota demo_groups 2" "gs_bandwidth_used demo_groups = 0"
    by (simp_all add: has_quota_def demo_groups_def demo_group_def)
  ultimately show ?thesis
    using tg_set_cfs_bandwidth_result [OF demo_tree _ _ demo_root demo_cfs_env_ok, of 2 100000000 50000000]
      demo_quota_feasible [of 50000000]
    by (fastforce simp: root_task_group_def)
qed

text \<open>The usage count is the number of groups of the tree that have a quota, whatever quotas are
  set or removed: the accounting is on exactly while some group needs it.\<close>

theorem cfs_usage_counts:
  assumes tree: "tree_at s t" "gt_root t = root_task_group" "distinct (nodes t)" "parent s root_task_group = None"
    and env: "cfs_env_ok C"
    and "tg_set_cfs_bandwidth C tg p q s = Some (r, s')" "tg \<in> set (nodes t)"
    and "gs_bandwidth_used s = int (length (filter (has_quota s) (nodes t)))"
  shows "gs_bandwidth_used s' = int (length (filter (has_quota s') (nodes t))) \<and> tree_at s' t"
proof (cases "r = 0")
  case False
  then obtain h where "s' = with_hier h s"
    using tg_set_cfs_bandwidth_tree [OF tree env, of tg p q] assms(6) by auto
  moreover have "has_quota (with_hier h s) = has_quota s" by (simp add: has_quota_def fun_eq_iff)
  ultimately show ?thesis
    using assms(8) tree_at_same [OF with_hier_tree] tree(1) by auto
next
  case True
  obtain h where same: "cfs_same (with_hier h (set_cfs_params tg p q s)) s'"
    and used: "gs_bandwidth_used s' = gs_bandwidth_used s + of_bool (q \<noteq> RUNTIME_INF) - of_bool (has_quota s tg)"
    using tg_set_cfs_bandwidth_tree [OF tree env, of tg p q] assms(6) True by auto
  have has: "has_quota s' g = (if g = tg then q \<noteq> RUNTIME_INF else has_quota s g)" for g
    using cfs_same_set [OF same] by (simp add: has_quota_def set_cfs_params_def)
  obtain as bs where ab: "nodes t = as @ tg # bs" using assms(7) by (auto dest: split_list)
  then have "filter (has_quota s') as = filter (has_quota s) as" "filter (has_quota s') bs = filter (has_quota s) bs"
    using tree(3) by (auto intro!: filter_cong simp: has split: if_splits)
  with ab used assms(8) has [of tg] have "gs_bandwidth_used s' = int (length (filter (has_quota s') (nodes t)))"
    by simp
  moreover have "same_tree s s'"
    using same by (auto simp: cfs_same_def same_tree_def set_cfs_params_def)
  ultimately show ?thesis using tree_at_same tree(1) by blast
qed

lemma cfs_usage_counts_witness:
  "\<exists>s'. tg_set_cfs_bandwidth demo_cfs_env 2 100000000 50000000 demo_groups = Some (0, s') \<and>
     gs_bandwidth_used s' = int (length (filter (has_quota s') [0, 2, 3, 1]))"
proof -
  let ?t = "GNode 0 [GNode 2 [GNode 3 []], GNode 1 []]"
  have args: "quota_args_ok 2 100000000 50000000"
    by (simp add: quota_args_ok_def root_task_group_def min_cfs_quota_period_def max_cfs_quota_period_def)
  obtain s' where s': "tg_set_cfs_bandwidth demo_cfs_env 2 100000000 50000000 demo_groups = Some (0, s')"
    using tg_set_cfs_bandwidth_tree [OF demo_tree _ _ demo_root demo_cfs_env_ok, of 2 100000000 50000000]
      demo_quota_feasible [of 50000000] args by (fastforce simp: root_task_group_def)
  have "gs_bandwidth_used demo_groups = int (length (filter (has_quota demo_groups) (nodes ?t)))"
    by (simp add: has_quota_def demo_groups_def demo_group_def)
  then have "gs_bandwidth_used s' = int (length (filter (has_quota s') (nodes ?t)))"
    using cfs_usage_counts [OF demo_tree _ _ demo_root demo_cfs_env_ok s'] by (simp add: root_task_group_def)
  with s' show ?thesis by simp
qed

section \<open>What the quotas in force guarantee\<close>

lemma effective_root: "(gt_root t, if norm (gt_root t) = RUNTIME_INF then lim else norm (gt_root t)) \<in> set (effective norm lim t)"
  by (cases t) (simp add: Let_def)

lemma nested_in_force:
  assumes "\<And>g q. (g, q) \<in> set (effective norm lim t) \<Longrightarrow> h g = q" "cfs_limits norm lim t" "tree_at s t"
    and "g \<in> set (nodes t)" "c \<in> set (children s g)" "distinct (nodes t)"
  shows "h g = RUNTIME_INF \<or> h c \<noteq> RUNTIME_INF \<and> h c \<le>s h g"
  using assms
proof (induction t arbitrary: lim)
  case (GNode r ts)
  let ?q = "if norm r = RUNTIME_INF then lim else norm r"
  have root: "h r = ?q" using GNode.prems(1) by (auto simp: Let_def)
  show ?case
  proof (cases "g = r")
    case True
    then obtain u where u: "u \<in> set ts" "c = gt_root u" using GNode.prems(3,5) by auto
    have "h c = (if norm c = RUNTIME_INF then ?q else norm c)"
      unfolding u(2) by (rule GNode.prems(1)) (use u effective_root [of u norm ?q] in \<open>auto simp: Let_def\<close>)
    moreover have "norm c = RUNTIME_INF \<or> ?q = RUNTIME_INF \<or> norm c \<le>s ?q"
      using GNode.prems(2) u by (cases u) (auto simp: list_all_iff)
    ultimately show ?thesis using root True by (auto simp: word_sle_eq split: if_splits)
  next
    case False
    then obtain u where u: "u \<in> set ts" "g \<in> set (nodes u)" using GNode.prems(4) by auto
    show ?thesis
    proof (rule GNode.IH [OF u(1), where lim = ?q])
      show "h g' = q" if "(g', q) \<in> set (effective norm ?q u)" for g' q
        using that u(1) by (intro GNode.prems(1)) (auto simp: Let_def)
    qed (use GNode.prems u in \<open>auto simp: list_all_iff distinct_concat_iff\<close>)
  qed
qed

text \<open>After quotas have been set the limits are nested: a group below one with a quota in force
  has one in force too, and it is no larger.\<close>

theorem cfs_quotas_nested:
  assumes "tree_at s t" "distinct (nodes t)" "cfs_feasible t s" "cfs_in_force t s"
    and "g \<in> set (nodes t)" "c \<in> set (children s g)"
  shows "hier s g = RUNTIME_INF \<or> hier s c \<noteq> RUNTIME_INF \<and> hier s c \<le>s hier s g"
proof (cases "g = gt_root t")
  case True
  then show ?thesis using assms(4) by (simp add: cfs_in_force_def)
next
  case False
  then obtain u where u: "u \<in> set (gt_subs t)" "g \<in> set (nodes u)"
    using assms(5) by (cases t) auto
  show ?thesis
    using u assms
    by (intro nested_in_force [of "cfs_ratio s" RUNTIME_INF u "hier s" s])
      (cases t, auto simp: cfs_in_force_def cfs_feasible_def list_all_iff distinct_concat_iff)+
qed

text \<open>A group with half a CPU over one with a quarter.\<close>

definition nested_groups :: "gid list group_state" where
  "nested_groups = (let s = upd_group 2 (\<lambda>g. g\<lparr>tg_cfs_quota := 50000000, tg_hierarchical_quota := 524288\<rparr>) demo_groups
     in upd_group 3 (\<lambda>g. g\<lparr>tg_cfs_quota := 25000000, tg_hierarchical_quota := 262144\<rparr>) s)"

lemma cfs_quotas_nested_witness: "hier nested_groups 3 \<le>s hier nested_groups 2"
proof -
  let ?t = "GNode 0 [GNode 2 [GNode 3 []], GNode 1 []]"
  note eval = nested_groups_def demo_groups_def demo_group_def cfs_ratio_def to_ratio_def Let_def
  have "tree_at nested_groups ?t" "2 \<in> set (nodes ?t)" "3 \<in> set (children nested_groups 2)" by (simp_all add: eval)
  moreover have "cfs_feasible ?t nested_groups" "cfs_in_force ?t nested_groups"
    by (simp_all add: cfs_feasible_def cfs_in_force_def eval word_sle_eq)
  moreover have "hier nested_groups 2 \<noteq> RUNTIME_INF" by (simp add: eval)
  ultimately show ?thesis
    using cfs_quotas_nested [of nested_groups ?t 2 3] by simp
qed

text \<open>The quota is not bounded above, and the 20-bit shift of the ratio wraps. A group given
  \<open>2^44\<close> microseconds per period, far more than its children could ever use, gets the ratio 0 in
  force, with success, and then refuses every child a quota of its own, even 1 ms.\<close>

theorem cfs_quota_wraps:
  "\<exists>s'. tg_set_cfs_quota demo_cfs_env 2 17592186044416 demo_groups = Some (0, s') \<and> hier s' 2 = 0 \<and>
     map_option fst (tg_set_cfs_quota demo_cfs_env 3 1000 s') = Some (- 22)"
proof -
  let ?t = "GNode 0 [GNode 2 [GNode 3 []], GNode 1 []]" and ?q = "17592186044416000 :: u64"
  have root: "gt_root ?t = root_task_group" and dist: "distinct (nodes ?t)" by (simp_all add: root_task_group_def)
  note set = tg_set_cfs_bandwidth_tree [OF _ root dist _ demo_cfs_env_ok]
  have args: "quota_args_ok 2 100000000 ?q"
    by (simp add: quota_args_ok_def root_task_group_def min_cfs_quota_period_def max_cfs_quota_period_def)
  obtain s' h where s': "tg_set_cfs_bandwidth demo_cfs_env 2 100000000 ?q demo_groups = Some (0, s')"
    and same: "cfs_same (with_hier h (set_cfs_params 2 100000000 ?q demo_groups)) s'" and force: "cfs_in_force ?t s'"
    using set [OF demo_tree demo_root, of 2 100000000 ?q] args demo_quota_feasible [of ?q] by fastforce
  have run: "tg_set_cfs_quota demo_cfs_env 2 17592186044416 demo_groups = Some (0, s')"
    using s' by (simp add: tg_set_cfs_quota_def demo_groups_def demo_group_def word_sless_alt)
  have fields: "tg_cfs_period (gs_groups s' g) = 100000000"
      "tg_cfs_quota (gs_groups s' g) = (if g = 2 then ?q else RUNTIME_INF)" if "g \<in> {1, 2, 3}" for g
    using same that by (auto simp: cfs_same_def set_cfs_params_def demo_groups_def demo_group_def)
  have ratio2: "cfs_ratio s' 2 = 0" using fields [of 2] by (simp add: cfs_ratio_def to_ratio_def)
  have "hier s' 2 = 0" using force ratio2 by (simp add: cfs_in_force_def)
  moreover have "map_option fst (tg_set_cfs_quota demo_cfs_env 3 1000 s') = Some (- 22)"
  proof -
    have "same_tree demo_groups s'" using same by (simp add: cfs_same_def same_tree_def set_cfs_params_def)
    then have tree: "tree_at s' ?t" "parent s' root_task_group = None"
      using tree_at_same demo_tree demo_root by (blast, simp add: same_tree_def)
    let ?s = "set_cfs_params 3 100000000 1000000 s'"
    have "cfs_ratio ?s 2 = 0" "cfs_ratio ?s 3 = 10485"
      using fields [of 2] by (simp_all add: cfs_ratio_def set_cfs_params_def to_ratio_def)
    then have "\<not> cfs_feasible ?t ?s" by (simp add: cfs_feasible_def word_sle_eq)
    with set [OF tree, of 3 100000000 1000000] fields [of 3] show ?thesis
      by (auto simp: tg_set_cfs_quota_def word_sless_alt)
  qed
  ultimately show ?thesis using run by blast
qed

end
