(* ===== verification/Sched_Cgroup.thy ===== *)
theory Sched_Cgroup
  imports Sched_Cfs_Bandwidth Sched_Queue Kernel_Strings
begin

text \<open>
  The \<open>cpu\<close> control group subsystem (\<^verbatim>\<open>core.c\<close>): the callbacks through which the cgroup core
  creates, puts online, takes offline and frees groups, moves tasks between them, and reads and
  writes their files; and \<^verbatim>\<open>sched_move_task\<close>. A step relation over these callbacks shows that the
  groups stay a tree whose real-time guarantees can be kept, whatever is done in which order.
\<close>

section \<open>Moving a task\<close>

type_synonym ('x, 'g) cg_state = "'x kstate \<times> 'g group_state"

text \<open>
  \<open>cg_css\<close> is the group the cgroup core has recorded for the task (\<^verbatim>\<open>task_css_check\<close>);
  \<open>cg_move_group\<close> the method \<open>task_move_group\<close> of a class, \<open>cg_set_task_rq\<close> the inline
  \<^verbatim>\<open>set_task_rq\<close>; the others are functions and macros of \<^verbatim>\<open>fair.c\<close> and \<^verbatim>\<open>sched.h\<close>.
\<close>

record ('x, 'g) cg_env =
  cg_css :: "tid \<Rightarrow> gid"
  cg_move_group :: "sched_class \<Rightarrow> (tid \<Rightarrow> bool \<Rightarrow> ('x, 'g) cg_state \<Rightarrow> ('x, 'g) cg_state) option"
  cg_set_task_rq :: "tid \<Rightarrow> cpu \<Rightarrow> ('x, 'g) cg_state \<Rightarrow> ('x, 'g) cg_state"
  cg_set_shares :: "gid \<Rightarrow> u64 \<Rightarrow> 'g group_state \<Rightarrow> errno \<times> 'g group_state"
  cg_scale_load_down :: "u64 \<Rightarrow> u64"

definition sched_move_task ::
  "'x env \<Rightarrow> 'g group_env \<Rightarrow> ('x, 'g) cg_env \<Rightarrow> tid \<Rightarrow> ('x, 'g) cg_state \<Rightarrow> ('x, 'g) cg_state"
where
  "sched_move_task E G M tsk = (\<lambda>(k, s).
     let c = task_cpu k tsk;
         running = task_current k c tsk;
         queued = task_on_rq_queued k tsk;
         k = do_if queued (dequeue_task E c tsk 0) k;
         k = do_if running (\<lambda>k. co_put_prev (class_of E k tsk) c tsk k) k;
         tg = ge_autogroup_task_group G tsk (cg_css M tsk);
         s = s\<lparr>gs_task_group := (gs_task_group s)(tsk := tg)\<rparr>;
         (k, s) = (case cg_move_group M (p_class (ks_tasks k tsk)) of
                     Some move \<Rightarrow> move tsk queued (k, s)
                   | None \<Rightarrow> cg_set_task_rq M tsk (task_cpu k tsk) (k, s));
         k = do_if running (\<lambda>k. co_set_curr (class_of E k tsk) c k) k;
         k = do_if queued (enqueue_task E c tsk 0) k
     in (k, s))"

section \<open>The callbacks of the subsystem\<close>

text \<open>A \<^verbatim>\<open>struct cgroup_subsys_state *\<close> is embedded in its group; \<open>None\<close> is the null pointer.\<close>

definition css_tg :: "gid option \<Rightarrow> gid option" where
  "css_tg css = (case css of Some tg \<Rightarrow> Some tg | None \<Rightarrow> None)"

definition cpu_cgroup_css_alloc ::
  "'g group_env \<Rightarrow> gid option \<Rightarrow> 'g group_state \<Rightarrow> (errno + gid) \<times> 'g group_state"
where
  "cpu_cgroup_css_alloc G parent_css s =
     (case css_tg parent_css of
        None \<Rightarrow> (Inr root_task_group, s)
      | Some p \<Rightarrow> (case sched_create_group G p s of
                     (Inl _, s) \<Rightarrow> (Inl (- 12), s)
                   | (Inr tg, s) \<Rightarrow> (Inr tg, s)))"

text \<open>\<open>parent_css\<close> is \<open>css->parent\<close>.\<close>

definition cpu_cgroup_css_online ::
  "gid \<Rightarrow> gid option \<Rightarrow> 'g group_state \<Rightarrow> (errno \<times> 'g group_state) option"
where
  "cpu_cgroup_css_online tg parent_css s =
     (case css_tg parent_css of
        None \<Rightarrow> Some (0, s)
      | Some p \<Rightarrow> map_option (\<lambda>s. (0, s)) (sched_online_group tg (Some p) s))"

definition cpu_cgroup_css_free :: "gid \<Rightarrow> 'g group_state \<Rightarrow> 'g group_state" where
  "cpu_cgroup_css_free tg s = sched_destroy_group tg s"

definition cpu_cgroup_css_offline :: "'g group_env \<Rightarrow> gid \<Rightarrow> 'g group_state \<Rightarrow> 'g group_state" where
  "cpu_cgroup_css_offline G tg s = sched_offline_group G tg s"

definition cpu_cgroup_fork ::
  "'x env \<Rightarrow> 'g group_env \<Rightarrow> ('x, 'g) cg_env \<Rightarrow> tid \<Rightarrow> ('x, 'g) cg_state \<Rightarrow> ('x, 'g) cg_state"
where
  "cpu_cgroup_fork E G M task = sched_move_task E G M task"

definition cpu_cgroup_can_attach :: "gid \<Rightarrow> tid list \<Rightarrow> ('x, 'g) cg_state \<Rightarrow> errno" where
  "cpu_cgroup_can_attach tg tset = (\<lambda>(k, s).
     if list_ex (\<lambda>task. \<not> sched_rt_can_attach k tg task s) tset then - 22 else 0)"

definition cpu_cgroup_attach ::
  "'x env \<Rightarrow> 'g group_env \<Rightarrow> ('x, 'g) cg_env \<Rightarrow> tid list \<Rightarrow> ('x, 'g) cg_state \<Rightarrow> ('x, 'g) cg_state"
where
  "cpu_cgroup_attach E G M tset = fold (sched_move_task E G M) tset"

abbreviation (input) PF_EXITING :: u32 where "PF_EXITING \<equiv> 4"

definition cpu_cgroup_exit ::
  "'x env \<Rightarrow> 'g group_env \<Rightarrow> ('x, 'g) cg_env \<Rightarrow> tid \<Rightarrow> ('x, 'g) cg_state \<Rightarrow> ('x, 'g) cg_state"
where
  "cpu_cgroup_exit E G M task = (\<lambda>(k, s).
     if p_flags (ks_tasks k task) AND PF_EXITING = 0 then (k, s)
     else sched_move_task E G M task (k, s))"

section \<open>The files\<close>

definition cpu_shares_write_u64 ::
  "'x env \<Rightarrow> ('x, 'g) cg_env \<Rightarrow> gid \<Rightarrow> u64 \<Rightarrow> 'g group_state \<Rightarrow> errno \<times> 'g group_state"
where
  "cpu_shares_write_u64 E M tg shareval s = cg_set_shares M tg (scale_load E shareval) s"

definition cpu_shares_read_u64 :: "('x, 'g) cg_env \<Rightarrow> gid \<Rightarrow> 'g group_state \<Rightarrow> u64" where
  "cpu_shares_read_u64 M tg s = cg_scale_load_down M (tg_shares (gs_groups s tg))"

definition cpu_cfs_quota_read_s64 :: "gid \<Rightarrow> 'g group_state \<Rightarrow> u64" where
  "cpu_cfs_quota_read_s64 tg s = tg_get_cfs_quota tg s"

definition cpu_cfs_quota_write_s64 ::
  "'g cfs_env \<Rightarrow> gid \<Rightarrow> u64 \<Rightarrow> 'g group_state \<Rightarrow> (errno \<times> 'g group_state) option"
where
  "cpu_cfs_quota_write_s64 C tg cfs_quota_us s = tg_set_cfs_quota C tg cfs_quota_us s"

definition cpu_cfs_period_read_u64 :: "gid \<Rightarrow> 'g group_state \<Rightarrow> u64" where
  "cpu_cfs_period_read_u64 tg s = tg_get_cfs_period tg s"

definition cpu_cfs_period_write_u64 ::
  "'g cfs_env \<Rightarrow> gid \<Rightarrow> u64 \<Rightarrow> 'g group_state \<Rightarrow> (errno \<times> 'g group_state) option"
where
  "cpu_cfs_period_write_u64 C tg cfs_period_us s = tg_set_cfs_period C tg cfs_period_us s"

definition cpu_rt_runtime_write ::
  "'g group_env \<Rightarrow> 'x kstate \<Rightarrow> tid list \<Rightarrow> gid \<Rightarrow> u64 \<Rightarrow> 'g group_state \<Rightarrow> (errno \<times> 'g group_state) option"
where
  "cpu_rt_runtime_write G k threads tg val s = sched_group_set_rt_runtime G k threads tg val s"

definition cpu_rt_runtime_read :: "gid \<Rightarrow> 'g group_state \<Rightarrow> u64" where
  "cpu_rt_runtime_read tg s = sched_group_rt_runtime tg s"

definition cpu_rt_period_write_uint ::
  "'g group_env \<Rightarrow> 'x kstate \<Rightarrow> tid list \<Rightarrow> gid \<Rightarrow> u64 \<Rightarrow> 'g group_state \<Rightarrow> (errno \<times> 'g group_state) option"
where
  "cpu_rt_period_write_uint G k threads tg rt_period_us s = sched_group_set_rt_period G k threads tg rt_period_us s"

definition cpu_rt_period_read_uint :: "gid \<Rightarrow> 'g group_state \<Rightarrow> u64" where
  "cpu_rt_period_read_uint tg s = sched_group_rt_period tg s"

record cfs_stats =
  cs_nr_periods :: s32
  cs_nr_throttled :: s32
  cs_throttled_time :: u64

definition cpu_stats_show :: "cfs_stats \<Rightarrow> string" where
  "cpu_stats_show b =
     ''nr_periods '' @ int_str (sint (cs_nr_periods b)) @ nl @
     ''nr_throttled '' @ int_str (sint (cs_nr_throttled b)) @ nl @
     ''throttled_time '' @ nat_str (unat (cs_throttled_time b)) @ nl"

section \<open>Reading back what was written\<close>

text \<open>C11 The quota file gives back what was written to it: after a successful write it reads as the
  value written, and as \<open>-1\<close> after a negative one, as long as the nanoseconds fit into 64 bits;
  the period stays as it is.\<close>

theorem cpu_cfs_quota_readback:
  assumes "cpu_cfs_quota_write_s64 C tg v s = Some (0, s')"
    and "tree_at s t" "gt_root t = root_task_group" "distinct (nodes t)" "parent s root_task_group = None" "cfs_env_ok C"
    and "v <s 0 \<or> unat v * 1000 < 2 ^ 64"
  shows "cpu_cfs_quota_read_s64 tg s' = (if v <s 0 then - 1 else v) \<and>
    cpu_cfs_period_read_u64 tg s' = cpu_cfs_period_read_u64 tg s"
proof -
  let ?q = "if v <s 0 then RUNTIME_INF else v * NSEC_PER_USEC" and ?p = "tg_cfs_period (gs_groups s tg)"
  obtain h where "cfs_same (with_hier h (set_cfs_params tg ?p ?q s)) s'"
    using tg_set_cfs_bandwidth_tree [OF assms(2-6), of tg ?p ?q] assms(1)
    by (auto simp: cpu_cfs_quota_write_s64_def tg_set_cfs_quota_def Let_def)
  then have "tg_cfs_quota (gs_groups s' tg) = ?q" "tg_cfs_period (gs_groups s' tg) = ?p"
    by (simp_all add: cfs_same_def set_cfs_params_def)
  then show ?thesis
    using usec_roundtrip [of v] assms(7)
    by (cases "v <s 0") (simp_all add: cpu_cfs_quota_read_s64_def cpu_cfs_period_read_u64_def
        tg_get_cfs_quota_def tg_get_cfs_period_def)
qed

lemma cpu_cfs_quota_readback_witness:
  "map_option (cpu_cfs_quota_read_s64 2 \<circ> snd) (cpu_cfs_quota_write_s64 demo_cfs_env 2 50000 demo_groups) = Some 50000"
proof -
  have args: "quota_args_ok 2 100000000 50000000"
    by (simp add: quota_args_ok_def root_task_group_def min_cfs_quota_period_def max_cfs_quota_period_def)
  obtain s' where "tg_set_cfs_bandwidth demo_cfs_env 2 100000000 50000000 demo_groups = Some (0, s')"
    using tg_set_cfs_bandwidth_tree [OF demo_tree _ _ demo_root demo_cfs_env_ok, of 2 100000000 50000000]
      demo_quota_feasible [of 50000000] args by (fastforce simp: root_task_group_def)
  then have s': "cpu_cfs_quota_write_s64 demo_cfs_env 2 50000 demo_groups = Some (0, s')"
    by (simp add: cpu_cfs_quota_write_s64_def tg_set_cfs_quota_def demo_groups_def demo_group_def word_sless_alt)
  from cpu_cfs_quota_readback [OF s' demo_tree _ _ demo_root demo_cfs_env_ok]
  have "cpu_cfs_quota_read_s64 2 s' = 50000" by (simp add: root_task_group_def word_sless_alt)
  with s' show ?thesis by simp
qed

section \<open>What the groups and the tasks look like to the real-time check\<close>

definition rt_view where
  "rt_view s = (\<lambda>g. (parent s g, children s g, tg_rt_period (gs_groups s g), tg_rt_runtime (gs_groups s g)),
     gs_list s, gs_live s, gs_task_group s, gs_rt_period s, gs_rt_runtime s)"

lemma rt_view_fields:
  assumes "rt_view s' = rt_view s"
  shows "parent s' g = parent s g" "children s' g = children s g"
    "tg_rt_period (gs_groups s' g) = tg_rt_period (gs_groups s g)"
    "tg_rt_runtime (gs_groups s' g) = tg_rt_runtime (gs_groups s g)"
    "gs_list s' = gs_list s" "gs_live s' = gs_live s" "gs_task_group s' = gs_task_group s"
    "gs_rt_period s' = gs_rt_period s" "gs_rt_runtime s' = gs_rt_runtime s"
  using assms by (simp_all add: rt_view_def fun_eq_iff)

text \<open>The same but for the entry of one group, which the operation is about.\<close>

definition rt_view_but :: "gid \<Rightarrow> 'g group_state \<Rightarrow> 'g group_state \<Rightarrow> bool" where
  "rt_view_but tg s s' \<longleftrightarrow>
     (\<forall>g. g \<noteq> tg \<longrightarrow> parent s' g = parent s g \<and> children s' g = children s g \<and>
        tg_rt_period (gs_groups s' g) = tg_rt_period (gs_groups s g) \<and>
        tg_rt_runtime (gs_groups s' g) = tg_rt_runtime (gs_groups s g)) \<and>
     gs_list s' = gs_list s \<and> gs_live s' = gs_live s \<and> gs_task_group s' = gs_task_group s \<and>
     gs_rt_period s' = gs_rt_period s \<and> gs_rt_runtime s' = gs_rt_runtime s"

lemma rt_view_but_trans [trans]: "rt_view_but g s t \<Longrightarrow> rt_view_but g t u \<Longrightarrow> rt_view_but g s u"
  by (simp add: rt_view_but_def)

text \<open>
  The condition on a group looks at the group, its children and the tasks in it. It carries over
  to a state where these are as before.
\<close>

lemma rt_group_ok_cong:
  assumes "tg_rt_period (gs_groups s' g) = tg_rt_period (gs_groups s g)"
    and "tg_rt_runtime (gs_groups s' g) = tg_rt_runtime (gs_groups s g)"
    and "children s' g = children s g"
    and "\<And>c. c \<in> set (children s g) \<Longrightarrow> tg_rt_period (gs_groups s' c) = tg_rt_period (gs_groups s c) \<and>
      tg_rt_runtime (gs_groups s' c) = tg_rt_runtime (gs_groups s c)"
    and "gs_rt_period s' = gs_rt_period s" "gs_rt_runtime s' = gs_rt_runtime s"
    and "tg_has_rt_tasks k' threads g s' \<Longrightarrow> tg_has_rt_tasks k threads g s \<or> tg_rt_runtime (gs_groups s g) \<noteq> 0"
    and "rt_group_ok G k threads s g"
  shows "rt_group_ok G k' threads s' g"
proof -
  have "map (rt_share s') (children s g) = map (rt_share s) (children s g)"
    using assms(4) by simp
  with assms show ?thesis unfolding rt_group_ok_def by metis
qed

section \<open>Taking a leaf out of the tree\<close>

lemma nodes_prune_list:
  assumes "\<And>u. u \<in> set ts \<Longrightarrow> gt_root u = tg \<Longrightarrow> nodes u = [tg]"
    and "\<And>u. u \<in> set ts \<Longrightarrow> gt_root u \<noteq> tg \<Longrightarrow> nodes (prune tg u) = filter (\<lambda>g. g \<noteq> tg) (nodes u)"
  shows "concat (map (nodes \<circ> prune tg) (filter (\<lambda>u. gt_root u \<noteq> tg) ts)) =
    filter (\<lambda>g. g \<noteq> tg) (concat (map nodes ts))"
  using assms by (induction ts) auto

lemma nodes_prune_leaf:
  "tree_at s t \<Longrightarrow> children s tg = [] \<Longrightarrow> tg \<noteq> gt_root t \<Longrightarrow>
   nodes (prune tg t) = filter (\<lambda>g. g \<noteq> tg) (nodes t)"
proof (induction t)
  case (GNode g ts)
  have leaf: "nodes u = [tg]" if "u \<in> set ts" "gt_root u = tg" for u
    using GNode.prems(1,2) that by (cases u) (auto simp: list_all_iff)
  have "nodes (prune tg u) = filter (\<lambda>g. g \<noteq> tg) (nodes u)" if "u \<in> set ts" "gt_root u \<noteq> tg" for u
    using GNode.prems that by (intro GNode.IH) (auto simp: list_all_iff)
  then show ?case using nodes_prune_list [of ts tg] leaf GNode.prems(3) by (auto simp: comp_def)
qed

lemma tree_parent:
  "tree_at s t \<Longrightarrow> g \<in> set (nodes t) \<Longrightarrow> g \<noteq> gt_root t \<Longrightarrow> \<exists>q\<in>set (nodes t). parent s g = Some q"
proof (induction t)
  case (GNode r ts)
  then obtain u where u: "u \<in> set ts" "g \<in> set (nodes u)" by auto
  show ?case
  proof (cases "g = gt_root u")
    case True
    then show ?thesis using GNode.prems(1) u by (auto simp: list_all_iff)
  next
    case False
    then have "\<exists>q\<in>set (nodes u). parent s g = Some q"
      using GNode.IH [OF u(1)] GNode.prems(1) u by (auto simp: list_all_iff)
    then show ?thesis using u(1) by auto
  qed
qed

lemma tree_children:
  "tree_at s t \<Longrightarrow> g \<in> set (nodes t) \<Longrightarrow> set (children s g) \<subseteq> set (nodes t)"
proof (induction t)
  case (GNode r ts)
  show ?case
  proof (cases "g = r")
    case True
    then show ?thesis using GNode.prems(1) root_in_nodes by fastforce
  next
    case False
    then obtain u where "u \<in> set ts" "g \<in> set (nodes u)" using GNode.prems(2) by auto
    then show ?thesis using GNode.IH [of u] GNode.prems(1) by (fastforce simp: list_all_iff)
  qed
qed

lemma tree_children_distinct:
  "tree_at s t \<Longrightarrow> distinct (nodes t) \<Longrightarrow> g \<in> set (nodes t) \<Longrightarrow> distinct (children s g)"
proof (induction t)
  case (GNode r ts)
  show ?case
  proof (cases "g = r")
    case True
    then show ?thesis using GNode.prems(1,2) distinct_roots [of ts] by simp
  next
    case False
    then obtain u where "u \<in> set ts" "g \<in> set (nodes u)" using GNode.prems(3) by auto
    then show ?thesis using GNode.IH [of u] GNode.prems by (auto simp: list_all_iff distinct_concat_iff)
  qed
qed

text \<open>Without one of its children a group needs no more than before.\<close>

lemma sum_remove1_le:
  assumes "\<And>x. x \<in> set xs \<Longrightarrow> unat (f x :: u64) \<le> 2 ^ 20" "length xs < 2 ^ 44"
  shows "sum_list (map f (remove1 a xs)) \<le> sum_list (map f xs)"
proof -
  have "unat (sum_list (map f xs)) = (\<Sum>x\<leftarrow>xs. unat (f x))" using unat_sum_list [OF assms] by simp
  moreover have "unat (sum_list (map f (remove1 a xs))) = (\<Sum>x\<leftarrow>remove1 a xs. unat (f x))"
  proof -
    have "length (remove1 a xs) < 2 ^ 44" using assms(2) by (auto simp: length_remove1 intro: less_imp_diff_less)
    moreover have "unat (f x) \<le> 2 ^ 20" if "x \<in> set (remove1 a xs)" for x
      using assms(1) that set_remove1_subset [of a xs] by blast
    ultimately show ?thesis using unat_sum_list [of "remove1 a xs" f] by blast
  qed
  moreover have "(\<Sum>x\<leftarrow>remove1 a xs. unat (f x)) \<le> (\<Sum>x\<leftarrow>xs. unat (f x))"
    by (cases "a \<in> set xs") (simp_all add: sum_list_map_remove1 remove1_idem)
  ultimately show ?thesis by (simp add: word_le_nat_alt)
qed

section \<open>The invariant\<close>

text \<open>
  The groups on the list \<open>task_groups\<close> form one tree below the root group, all of them allocated;
  every task is in one of them; and the real-time guarantees can be kept.
\<close>

definition cg_tree :: "'g group_env \<Rightarrow> tid list \<Rightarrow> ('x, 'g) cg_state \<Rightarrow> gtree \<Rightarrow> bool" where
  "cg_tree G threads = (\<lambda>(k, s) t.
     tree_at s t \<and> gt_root t = root_task_group \<and> distinct (nodes t) \<and> parent s root_task_group = None \<and>
     set (gs_list s) = set (nodes t) \<and> distinct (gs_list s) \<and> set (nodes t) \<subseteq> gs_live s \<and>
     list_all (\<lambda>p. gs_task_group s p \<in> set (nodes t)) threads \<and>
     rt_feasible G k threads t s)"

definition cg_inv :: "'g group_env \<Rightarrow> tid list \<Rightarrow> ('x, 'g) cg_state \<Rightarrow> bool" where
  "cg_inv G threads ks \<longleftrightarrow> (\<exists>t. cg_tree G threads ks t)"

definition same_prio :: "'x kstate \<Rightarrow> 'x kstate \<Rightarrow> bool" where
  "same_prio k k' \<longleftrightarrow> (\<forall>p. p_prio (ks_tasks k' p) = p_prio (ks_tasks k p))"

lemma same_core_prio: "same_core k k' \<Longrightarrow> same_prio k k'"
  by (simp add: same_prio_def same_core_fields)

lemma cg_tree_view:
  assumes "rt_view s' = rt_view s" "same_prio k k'" "cg_tree G threads (k, s) t"
  shows "cg_tree G threads (k', s') t"
proof -
  note f = rt_view_fields [OF assms(1)]
  have "rt_group_ok G k' threads s' g" if "rt_group_ok G k threads s g" for g
    by (rule rt_group_ok_cong [OF f(3,4,2) _ f(8,9) _ that])
      (use assms(2) in \<open>simp_all add: f tg_has_rt_tasks_def same_prio_def\<close>)
  moreover have "tree_at s' t = tree_at s t" by (rule tree_at_same) (simp add: same_tree_def f)
  ultimately show ?thesis
    using assms(3) by (auto simp: cg_tree_def f rt_feasible_def list_all_iff)
qed

section \<open>Every callback keeps it\<close>

text \<open>
  What is relied on: an allocator that hands out unused groups; class functions that write only
  what they keep for the group at hand, a new group getting no real-time runtime; class methods
  and \<^verbatim>\<open>fair.c\<close> functions that leave groups and priorities alone; and autogroups off.
\<close>

definition group_env_ok :: "'g group_env \<Rightarrow> bool" where
  "group_env_ok G \<longleftrightarrow>
     (\<forall>s tg. ge_kzalloc G s = Some tg \<longrightarrow> tg \<notin> gs_live s) \<and>
     (\<forall>tg p s. rt_view_but tg s (snd (ge_alloc_fair G tg p s)) \<and> rt_view_but tg s (snd (ge_alloc_rt G tg p s))) \<and>
     (\<forall>tg p s. fst (ge_alloc_rt G tg p s) \<longrightarrow> tg_rt_runtime (gs_groups (snd (ge_alloc_rt G tg p s)) tg) = 0) \<and>
     (\<forall>tg s. rt_view_but tg s (ge_free_fair G tg s) \<and> rt_view_but tg s (ge_free_rt G tg s) \<and>
        rt_view_but tg s (ge_autogroup_free G tg s)) \<and>
     (\<forall>tg c s. rt_view (ge_unregister_fair G tg c s) = rt_view s) \<and>
     (\<forall>p g. ge_autogroup_task_group G p g = g)"

definition cfs_view_ok :: "'g cfs_env \<Rightarrow> bool" where
  "cfs_view_ok C \<longleftrightarrow>
     (\<forall>g s. rt_view (ce_refill C g s) = rt_view s \<and> rt_view (ce_start C g s) = rt_view s) \<and>
     (\<forall>g i s. rt_view (ce_unthrottle C g i s) = rt_view s) \<and>
     (\<forall>s. rt_view (ce_usage_inc C s) = rt_view s \<and> rt_view (ce_usage_dec C s) = rt_view s)"

definition move_ok :: "('x, 'g) cg_env \<Rightarrow> bool" where
  "move_ok M \<longleftrightarrow>
     (\<forall>c f p b k s. cg_move_group M c = Some f \<longrightarrow>
        same_core k (fst (f p b (k, s))) \<and> rt_view (snd (f p b (k, s))) = rt_view s) \<and>
     (\<forall>p c k s. same_core k (fst (cg_set_task_rq M p c (k, s))) \<and>
        rt_view (snd (cg_set_task_rq M p c (k, s))) = rt_view s)"

subsection \<open>Writes to the files\<close>

lemma rt_view_tg:
  "(\<And>g. tg_parent (f g) = tg_parent g \<and> tg_children (f g) = tg_children g \<and> tg_rt_period (f g) = tg_rt_period g \<and>
     tg_rt_runtime (f g) = tg_rt_runtime g) \<Longrightarrow> rt_view (upd_group tg f s) = rt_view s"
  by (auto simp: rt_view_def fun_eq_iff)

lemma rt_view_with_hier [simp]: "rt_view (with_hier h s) = rt_view s"
  by (simp add: rt_view_def with_hier_def)

lemma rt_view_reset:
  assumes "cfs_view_ok C"
  shows "rt_view (reset_cfs_rq C tg b i s) = rt_view s"
  unfolding reset_cfs_rq_def Let_def using assms
  by (simp add: cfs_view_ok_def rt_view_tg)

lemma rt_view_fold: "(\<And>x s. rt_view (f x s) = rt_view s) \<Longrightarrow> rt_view (fold f xs s) = rt_view s"
  by (induction xs arbitrary: s) simp_all

lemma tg_set_cfs_bandwidth_view:
  assumes "cfs_view_ok C" "tg_set_cfs_bandwidth C tg p q s = Some (r, s')"
    and "tree_at s t" "gt_root t = root_task_group" "distinct (nodes t)" "parent s root_task_group = None"
  shows "rt_view s' = rt_view s"
proof -
  obtain r1 h where "cfs_schedulable tg p q s = Some (r1, with_hier h s)"
    using cfs_schedulable_tree [OF assms(3-6), of tg p q] by blast
  with assms(1,2) show ?thesis
    by (auto simp: tg_set_cfs_bandwidth_def Let_def cfs_view_ok_def rt_view_fold [OF rt_view_reset [OF assms(1)]]
        rt_view_tg split: if_splits)
qed

lemma cg_tree_cfs:
  assumes "cg_tree G threads (k, s) t" "cfs_view_ok C" "tg_set_cfs_bandwidth C tg p q s = Some (r, s')"
  shows "cg_tree G threads (k, s') t"
proof -
  have "rt_view s' = rt_view s"
    using assms by (intro tg_set_cfs_bandwidth_view [where t = t]) (auto simp: cg_tree_def)
  then show ?thesis
    by (rule cg_tree_view) (use assms(1) in \<open>simp_all add: same_prio_def\<close>)
qed

lemma fold_upd_group_lists:
  "gs_list (fold (\<lambda>i. upd_group tg (f i)) cs s) = gs_list s"
  "gs_live (fold (\<lambda>i. upd_group tg (f i)) cs s) = gs_live s"
  by (induction cs arbitrary: s) simp_all

lemma set_rt_params_lists:
  "gs_list (set_rt_params G tg p r s) = gs_list s" "gs_live (set_rt_params G tg p r s) = gs_live s"
  by (simp_all add: set_rt_params_def Let_def fold_upd_group_lists)

lemma cg_tree_rt:
  assumes "cg_tree G threads (k, s) t" "tg_set_rt_bandwidth G k threads tg p q s = Some (r, s')"
  shows "cg_tree G threads (k, s') t"
proof -
  have t: "tree_at s t" "gt_root t = root_task_group" "distinct (nodes t)" and feas: "rt_feasible G k threads t s"
    using assms(1) by (auto simp: cg_tree_def)
  from tg_set_rt_bandwidth_tree [OF t, of G k threads tg p q] assms(2) feas
  have "rt_feasible G k threads t s'" "tree_at s' t" "s' = s \<or> s' = set_rt_params G tg p q s" by auto
  then show ?thesis
    using assms(1) by (auto simp: cg_tree_def set_rt_params_lists set_rt_params_simps)
qed

lemma fold_dl_prio: "ks_tasks (fold (\<lambda>c. upd_dl_bw c f) cs k) = ks_tasks k"
  by (induction cs arbitrary: k) (simp_all add: upd_dl_bw_def)

lemma cg_tree_handler:
  assumes "cg_tree G threads (k, s) t" "dointvec s = (0, s\<lparr>gs_rt_period := p, gs_rt_runtime := r\<rparr>)"
    and "sched_rt_handler G threads dointvec True (k, s) = Some (ret, k', s')"
  shows "cg_tree G threads (k', s') t"
proof -
  let ?s1 = "s\<lparr>gs_rt_period := p, gs_rt_runtime := r\<rparr>"
  have t: "tree_at s t" "gt_root t = root_task_group" "distinct (nodes t)"
    using assms(1) by (auto simp: cg_tree_def)
  have run: "(ret = 0 \<longrightarrow> rt_values_ok G k threads t ?s1) \<and> (ret \<noteq> 0 \<longrightarrow> k' = k \<and> s' = s) \<and>
      (ret = 0 \<longrightarrow> gs_rt_period s' = p \<and> gs_rt_runtime s' = r)"
    using sched_rt_handler_tree [where dointvec = dointvec and ?s1.0 = ?s1 and p = p and r = r and G = G
        and threads = threads and k = k, OF t assms(2) refl] assms(3) by auto
  show ?thesis
  proof (cases "ret = 0")
    case False
    with run assms(1) show ?thesis by simp
  next
    case True
    have "same_tree s ?s1" by (simp add: same_tree_def)
    then have tree: "tree_at ?s1 t" using tree_at_same t(1) by blast
    then obtain e where "sched_rt_global_constraints G k threads ?s1 = Some (e, ?s1)"
      using rt_schedulable_walk [of ?s1 t G k threads None 0 0] t
      unfolding sched_rt_global_constraints_def by blast
    then have "(k', s') = sched_dl_do_global G (k, sched_rt_do_global G ?s1)"
      using assms(2,3) True by (simp add: sched_rt_handler_def Let_def split: if_splits)
    then have "rt_view s' = rt_view ?s1" "same_prio k k'"
      by (auto simp: sched_dl_do_global_def sched_rt_do_global_def Let_def rt_view_def same_prio_def fold_dl_prio)
    moreover have "cg_tree G threads (k, ?s1) t"
    proof -
      have "rt_values_ok G k threads t ?s1" using run True by blast
      then have "rt_feasible G k threads t ?s1" unfolding rt_values_ok_def by blast
      then show ?thesis using assms(1) tree by (simp add: cg_tree_def)
    qed
    ultimately show ?thesis by (rule cg_tree_view)
  qed
qed

subsection \<open>Moving tasks\<close>

lemma do_if_core: "(\<And>s. same_core s (f s)) \<Longrightarrow> same_core s (do_if b f s)"
  by (simp add: do_if_def)

lemma sched_move_task_result:
  assumes "env_ok E" "move_ok M" "\<And>p g. ge_autogroup_task_group G p g = g"
    and "sched_move_task E G M p (k, s) = (k', s')"
  shows "same_core k k' \<and> gs_task_group s' = (gs_task_group s)(p := cg_css M p) \<and>
    rt_view s' = rt_view (s\<lparr>gs_task_group := (gs_task_group s)(p := cg_css M p)\<rparr>)"
proof -
  let ?c = "task_cpu k p" and ?run = "task_current k (task_cpu k p) p" and ?q = "task_on_rq_queued k p"
  define k1 where "k1 = do_if ?q (dequeue_task E ?c p 0) k"
  define k2 where "k2 = do_if ?run (\<lambda>k. co_put_prev (class_of E k p) ?c p k) k1"
  define s2 where "s2 = s\<lparr>gs_task_group := (gs_task_group s)(p := cg_css M p)\<rparr>"
  define ks3 where "ks3 = (case cg_move_group M (p_class (ks_tasks k2 p)) of
      Some move \<Rightarrow> move p ?q (k2, s2) | None \<Rightarrow> cg_set_task_rq M p (task_cpu k2 p) (k2, s2))"
  define k4 where "k4 = do_if ?run (\<lambda>k. co_set_curr (class_of E k p) ?c k) (fst ks3)"
  have "sched_move_task E G M p (k, s) = (do_if ?q (enqueue_task E ?c p 0) k4, snd ks3)"
    unfolding k4_def ks3_def k2_def k1_def s2_def sched_move_task_def Let_def
    by (simp add: split_def assms(3) cong: option.case_cong)
  then have res: "k' = do_if ?q (enqueue_task E ?c p 0) k4" "s' = snd ks3"
    using assms(4) by auto
  have "same_core k k1" unfolding k1_def using assms(1) by (simp add: frame core_frame)
  also have "same_core k1 k2" unfolding k2_def using assms(1) by (simp add: frame core_frame)
  also have "same_core k2 (fst ks3)"
    unfolding ks3_def using assms(2) by (auto simp: move_ok_def split: option.split)
  also have "same_core (fst ks3) k4" unfolding k4_def using assms(1) by (simp add: frame core_frame)
  also have "same_core k4 k'" unfolding res using assms(1) by (simp add: frame core_frame)
  finally have "same_core k k'" .
  moreover have view: "rt_view (snd ks3) = rt_view s2"
    unfolding ks3_def using assms(2) by (auto simp: move_ok_def split: option.split)
  moreover have "gs_task_group s' = (gs_task_group s)(p := cg_css M p)"
    using rt_view_fields(7) [OF view] res by (simp add: s2_def)
  ultimately show ?thesis using view res by (simp add: s2_def)
qed

lemma cg_tree_move:
  assumes "cg_tree G threads (k, s) t" "env_ok E" "move_ok M" "\<And>p g. ge_autogroup_task_group G p g = g"
    and "cg_css M p \<in> set (nodes t)" "sched_rt_can_attach k (cg_css M p) p s"
    and "sched_move_task E G M p (k, s) = (k', s')"
  shows "cg_tree G threads (k', s') t \<and> same_prio k k' \<and>
    (\<forall>g. tg_rt_runtime (gs_groups s' g) = tg_rt_runtime (gs_groups s g)) \<and>
    gs_task_group s' = (gs_task_group s)(p := cg_css M p)"
proof -
  let ?s = "s\<lparr>gs_task_group := (gs_task_group s)(p := cg_css M p)\<rparr>"
  have move: "same_core k k'" "gs_task_group s' = (gs_task_group s)(p := cg_css M p)" "rt_view s' = rt_view ?s"
    using sched_move_task_result [OF assms(2-4,7)] by auto
  have "rt_group_ok G k threads ?s g" if "rt_group_ok G k threads s g" for g
  proof (rule rt_group_ok_cong [OF _ _ _ _ _ _ _ that])
    show "tg_has_rt_tasks k threads g s \<or> tg_rt_runtime (gs_groups s g) \<noteq> 0"
      if "tg_has_rt_tasks k threads g ?s"
      using that assms(6) by (auto simp: tg_has_rt_tasks_def list_ex_iff sched_rt_can_attach_def split: if_splits)
  qed simp_all
  moreover have "tree_at ?s t"
    using assms(1) tree_at_same [of s ?s t] by (simp add: cg_tree_def same_tree_def)
  ultimately have "cg_tree G threads (k, ?s) t"
    using assms(1,5) by (auto simp: cg_tree_def rt_feasible_def list_all_iff)
  then have "cg_tree G threads (k', s') t"
    by (rule cg_tree_view [OF move(3) same_core_prio [OF move(1)]])
  then show ?thesis
    using move same_core_prio rt_view_fields(4) [OF move(3)] by auto
qed

lemma cg_tree_attach:
  assumes "env_ok E" "move_ok M" "\<And>p g. ge_autogroup_task_group G p g = g" "tg \<in> set (nodes t)"
  shows "cg_tree G threads (k, s) t \<Longrightarrow> \<forall>p\<in>set tset. cg_css M p = tg \<and> sched_rt_can_attach k tg p s \<Longrightarrow>
    cpu_cgroup_attach E G M tset (k, s) = (k', s') \<Longrightarrow>
    cg_tree G threads (k', s') t \<and>
    (\<forall>p. gs_task_group s' p = (if p \<in> set tset then tg else gs_task_group s p))"
proof (induction tset arbitrary: k s)
  case Nil
  then show ?case by (simp add: cpu_cgroup_attach_def)
next
  case (Cons p tset)
  obtain k1 s1 where m: "sched_move_task E G M p (k, s) = (k1, s1)" by (cases "sched_move_task E G M p (k, s)")
  have css: "cg_css M p = tg" using Cons.prems(2) by simp
  have step: "cg_tree G threads (k1, s1) t" "same_prio k k1"
    "\<forall>g. tg_rt_runtime (gs_groups s1 g) = tg_rt_runtime (gs_groups s g)"
    "gs_task_group s1 = (gs_task_group s)(p := tg)"
    using cg_tree_move [OF Cons.prems(1) assms(1-3) _ _ m] css assms(4) Cons.prems(2) by auto
  have "\<forall>p\<in>set tset. cg_css M p = tg \<and> sched_rt_can_attach k1 tg p s1"
    using Cons.prems(2) step(2,3) by (auto simp: sched_rt_can_attach_def same_prio_def split: if_splits)
  moreover have "cpu_cgroup_attach E G M tset (k1, s1) = (k', s')"
    using Cons.prems(3) m by (simp add: cpu_cgroup_attach_def)
  ultimately show ?case
    using Cons.IH [OF step(1)] step(4) by auto
qed

subsection \<open>Groups that come and go\<close>

lemma cg_tree_but:
  assumes "cg_tree G threads (k, s) t" "rt_view_but tg (s\<lparr>gs_live := L\<rparr>) s'" "tg \<notin> set (nodes t)" "set (nodes t) \<subseteq> L"
  shows "cg_tree G threads (k, s') t"
proof -
  have same: "parent s' g = parent s g \<and> children s' g = children s g \<and>
      tg_rt_period (gs_groups s' g) = tg_rt_period (gs_groups s g) \<and>
      tg_rt_runtime (gs_groups s' g) = tg_rt_runtime (gs_groups s g)" if "g \<in> set (nodes t)" for g
    using assms(2,3) that by (auto simp: rt_view_but_def)
  have "tree_at s' t = tree_at s t"
    using assms(1) same by (intro tree_at_local) (auto simp: cg_tree_def)
  moreover have "rt_group_ok G k threads s' g" if "g \<in> set (nodes t)" for g
  proof (rule rt_group_ok_cong)
    show "rt_group_ok G k threads s g" using assms(1) that by (auto simp: cg_tree_def rt_feasible_def list_all_iff)
    have "set (children s g) \<subseteq> set (nodes t)"
      using assms(1) that by (intro tree_children) (auto simp: cg_tree_def)
    then show "tg_rt_period (gs_groups s' c) = tg_rt_period (gs_groups s c) \<and>
        tg_rt_runtime (gs_groups s' c) = tg_rt_runtime (gs_groups s c)" if "c \<in> set (children s g)" for c
      using same that by blast
  qed (use same [OF that] assms(2) in \<open>auto simp: rt_view_but_def tg_has_rt_tasks_def\<close>)
  moreover have "root_task_group \<in> set (nodes t)"
    using assms(1) root_in_nodes [of t] by (simp add: cg_tree_def)
  ultimately show ?thesis
    using assms same by (auto simp: cg_tree_def rt_view_but_def rt_feasible_def list_all_iff)
qed

lemma free_sched_group_view:
  assumes "group_env_ok G"
  shows "rt_view_but tg (s\<lparr>gs_live := gs_live s - {tg}\<rparr>) (free_sched_group G tg s)"
proof -
  have "rt_view_but tg s (ge_free_fair G tg s)" using assms by (simp add: group_env_ok_def)
  also have "rt_view_but tg \<dots> (ge_free_rt G tg (ge_free_fair G tg s))" using assms by (simp add: group_env_ok_def)
  also have "rt_view_but tg \<dots> (ge_autogroup_free G tg (ge_free_rt G tg (ge_free_fair G tg s)))"
    using assms by (simp add: group_env_ok_def)
  finally show ?thesis
    by (auto simp: rt_view_but_def free_sched_group_def Let_def)
qed

lemma css_alloc_view:
  assumes "group_env_ok G" "cpu_cgroup_css_alloc G (Some q) s = (r, s1)"
  shows "case r of
      Inr tg \<Rightarrow> tg \<notin> gs_live s \<and> rt_view_but tg (s\<lparr>gs_live := insert tg (gs_live s)\<rparr>) s1 \<and>
        tg_rt_runtime (gs_groups s1 tg) = 0
    | Inl e \<Rightarrow> s1 = s \<or> (\<exists>tg. tg \<notin> gs_live s \<and> rt_view_but tg s s1)"
proof (cases "ge_kzalloc G s")
  case None
  with assms(2) show ?thesis by (auto simp: cpu_cgroup_css_alloc_def css_tg_def sched_create_group_def)
next
  case (Some tg)
  let ?s = "s\<lparr>gs_live := insert tg (gs_live s)\<rparr>"
  define s0 where "s0 = upd_group tg (\<lambda>_. ge_zeroed G) ?s"
  obtain b1 f1 where f: "ge_alloc_fair G tg q s0 = (b1, f1)" by (cases "ge_alloc_fair G tg q s0")
  obtain b2 f2 where t: "ge_alloc_rt G tg q f1 = (b2, f2)" by (cases "ge_alloc_rt G tg q f1")
  have fresh: "tg \<notin> gs_live s" using assms(1) Some by (simp add: group_env_ok_def)
  have "rt_view_but tg ?s s0" by (simp add: rt_view_but_def s0_def)
  also have "rt_view_but tg s0 f1" using assms(1) f unfolding group_env_ok_def by (metis snd_conv)
  finally have v1: "rt_view_but tg ?s f1" .
  also have "rt_view_but tg f1 f2" using assms(1) t unfolding group_env_ok_def by (metis snd_conv)
  finally have v2: "rt_view_but tg ?s f2" .
  have freed: "rt_view_but tg s (free_sched_group G tg u)" if "rt_view_but tg ?s u" for u
    using that free_sched_group_view [OF assms(1), of tg u] fresh by (auto simp: rt_view_but_def)
  have rt0: "b2 \<Longrightarrow> tg_rt_runtime (gs_groups f2 tg) = 0"
    using assms(1) t unfolding group_env_ok_def by (metis fst_conv snd_conv)
  show ?thesis
    using assms(2) Some f t fresh v2 rt0 freed [OF v1] freed [OF v2]
    by (auto simp: cpu_cgroup_css_alloc_def css_tg_def sched_create_group_def s0_def [symmetric] Let_def split: if_splits)
qed

lemma to_ratio_0 [simp]: "to_ratio p 0 = 0"
  by (simp add: to_ratio_def)

lemma cg_tree_online:
  assumes inv: "cg_tree G threads (k, s) t"
    and "tg \<notin> set (nodes t)" "tg \<in> gs_live s" "tg_rt_runtime (gs_groups s tg) = 0" "q \<in> set (nodes t)"
    and "sched_online_group tg (Some q) s = Some s'"
  shows "cg_tree G threads (k, s') (grow tg q t)"
proof -
  have t: "tree_at s t" "distinct (nodes t)" using inv by (auto simp: cg_tree_def)
  have "q \<noteq> tg" using assms(2,5) by auto
  then have fields: "children s' g = (if g = q then tg # children s q else if g = tg then [] else children s g)"
    "parent s' g = (if g = tg then Some q else parent s g)"
    "tg_rt_period (gs_groups s' g) = tg_rt_period (gs_groups s g)"
    "tg_rt_runtime (gs_groups s' g) = tg_rt_runtime (gs_groups s g)"
    "gs_list s' = tg # gs_list s" "gs_live s' = gs_live s" "gs_task_group s' = gs_task_group s"
    "gs_rt_period s' = gs_rt_period s" "gs_rt_runtime s' = gs_rt_runtime s" for g
    using assms(6) by (auto simp: sched_online_group_def Let_def)
  have has: "tg_has_rt_tasks k threads g s' = tg_has_rt_tasks k threads g s" for g
    by (simp add: tg_has_rt_tasks_def fields)
  have share: "rt_share s' g = rt_share s g" for g by (simp add: fields)
  have none: "\<not> tg_has_rt_tasks k threads tg s"
    using inv assms(2) by (auto simp: cg_tree_def tg_has_rt_tasks_def list_ex_iff list_all_iff)
  have "rt_group_ok G k threads s' g" if "g \<in> set (nodes t)" for g
  proof -
    have "rt_group_ok G k threads s g" using inv that by (auto simp: cg_tree_def rt_feasible_def list_all_iff)
    moreover have "g \<noteq> tg" using that assms(2) by auto
    ultimately show ?thesis
      unfolding rt_group_ok_def share has fields by (auto simp: fields assms(4))
  qed
  moreover have "rt_group_ok G k threads s' tg"
    using none \<open>q \<noteq> tg\<close> unfolding rt_group_ok_def share has fields by (simp add: assms(4))
  moreover have "tg \<noteq> root_task_group"
    using inv assms(2) root_in_nodes [of t] by (auto simp: cg_tree_def)
  ultimately show ?thesis
    using sched_online_group_tree [OF t assms(2,5,6)] inv assms(2,3)
    by (auto simp: cg_tree_def fields rt_feasible_def list_all_iff)
qed

lemma cg_tree_offline:
  assumes inv: "cg_tree G threads (k, s) t" and "group_env_ok G"
    and "tg \<in> set (nodes t)" "tg \<noteq> root_task_group" "children s tg = []"
    and "\<forall>p\<in>set threads. gs_task_group s p \<noteq> tg" "length (gs_list s) < 2 ^ 44"
  shows "cg_tree G threads (k, cpu_cgroup_css_offline G tg s) (prune tg t)"
proof -
  let ?s = "sched_offline_group G tg s"
  define s1 where "s1 = fold (ge_unregister_fair G tg) (ge_possible G) s"
  have view: "rt_view s1 = rt_view s" unfolding s1_def
    using assms(2) by (intro rt_view_fold) (simp add: group_env_ok_def)
  note v = rt_view_fields [OF view]
  have t: "tree_at s t" "distinct (nodes t)" "gt_root t = root_task_group" using inv by (auto simp: cg_tree_def)
  obtain q where q: "q \<in> set (nodes t)" "parent s tg = Some q"
    using tree_parent [OF t(1) assms(3)] assms(4) t(3) by auto
  have fields: "children ?s g = (if g = q then remove1 tg (children s q) else children s g)"
    "parent ?s g = parent s g"
    "tg_rt_period (gs_groups ?s g) = tg_rt_period (gs_groups s g)"
    "tg_rt_runtime (gs_groups ?s g) = tg_rt_runtime (gs_groups s g)"
    "gs_list ?s = remove1 tg (gs_list s)" "gs_live ?s = gs_live s" "gs_task_group ?s = gs_task_group s"
    "gs_rt_period ?s = gs_rt_period s" "gs_rt_runtime ?s = gs_rt_runtime s" for g
    using q(2) v by (simp_all add: sched_offline_group_def s1_def [symmetric] Let_def)
  have ok: "rt_group_ok G k threads s g" if "g \<in> set (nodes t)" for g
    using inv that by (auto simp: cg_tree_def rt_feasible_def list_all_iff)
  have small: "length (children s g) < 2 ^ 44" if "g \<in> set (nodes t)" for g
  proof -
    have "distinct (children s g)" "set (children s g) \<subseteq> set (gs_list s)"
      using inv tree_children_distinct [OF t(1,2) that] tree_children [OF t(1) that] by (auto simp: cg_tree_def)
    then have "length (children s g) \<le> length (gs_list s)"
      by (metis card_mono distinct_card finite_set card_length order_trans)
    then show ?thesis using assms(7) by simp
  qed
  have le: "sum_list (map (rt_share s) (remove1 tg (children s q))) \<le> sum_list (map (rt_share s) (children s q))"
  proof (rule sum_remove1_le [OF _ small [OF q(1)]])
    fix c assume "c \<in> set (children s q)"
    then have "c \<in> set (nodes t)" using tree_children [OF t(1) q(1)] by auto
    then show "unat (rt_share s c) \<le> 2 ^ 20"
      using ok [of c] by (intro to_ratio_le_one) (auto simp: rt_group_ok_def)
  qed
  have share: "rt_share ?s g = rt_share s g" for g by (simp add: fields)
  have "rt_group_ok G k threads ?s g" if "g \<in> set (nodes t)" for g
    using ok [OF that] le unfolding rt_group_ok_def share fields
    by (auto simp: tg_has_rt_tasks_def fields intro: order_trans)
  moreover have "nodes (prune tg t) = filter (\<lambda>g. g \<noteq> tg) (nodes t)"
    using nodes_prune_leaf [OF t(1) assms(5)] assms(4) t(3) by simp
  moreover have "tree_at ?s (prune tg t)"
    by (rule tree_at_offline [OF fields(1,2) q(2) t(1,2)])
  ultimately show ?thesis
    using inv assms(6) unfolding cpu_cgroup_css_offline_def
    by (auto simp: cg_tree_def fields rt_feasible_def list_all_iff)
qed

section \<open>Any sequence of callbacks\<close>

text \<open>
  What the cgroup core and user space can do, in any order. Creation allocates a group and puts
  it online below a group of the tree, under one hold of the cgroup mutex; only a group without
  children and without tasks is removed, and what was removed may be freed when the grace
  period is over. The bound on the number of groups, far above what memory can hold, keeps the
  64-bit sums of the check from wrapping.
\<close>

inductive cg_step ::
  "'x env \<Rightarrow> 'g group_env \<Rightarrow> ('x, 'g) cg_env \<Rightarrow> 'g cfs_env \<Rightarrow> tid list \<Rightarrow>
    ('x, 'g) cg_state \<Rightarrow> ('x, 'g) cg_state \<Rightarrow> bool"
  for E G M C threads
where
  create: "cg_step E G M C threads (k, s) (k, s2)"
    if "q \<in> set (gs_list s)" "cpu_cgroup_css_alloc G (Some q) s = (Inr tg, s1)"
      "cpu_cgroup_css_online tg (Some q) s1 = Some (0, s2)"
| create_fails: "cg_step E G M C threads (k, s) (k, s1)"
    if "q \<in> set (gs_list s)" "cpu_cgroup_css_alloc G (Some q) s = (Inl e, s1)"
| remove: "cg_step E G M C threads (k, s) (k, cpu_cgroup_css_offline G tg s)"
    if "tg \<in> set (gs_list s)" "tg \<noteq> root_task_group" "children s tg = []"
      "\<forall>p\<in>set threads. gs_task_group s p \<noteq> tg" "length (gs_list s) < 2 ^ 44"
| destroy: "cg_step E G M C threads (k, s) (k, cpu_cgroup_css_free tg s)"
    if "tg \<notin> set (gs_list s)"
| grace: "cg_step E G M C threads (k, s) (k, free_sched_group_rcu G tg (s\<lparr>gs_rcu := remove1 tg (gs_rcu s)\<rparr>))"
    if "tg \<in> set (gs_rcu s)" "tg \<notin> set (gs_list s)"
| attach: "cg_step E G M C threads (k, s) (cpu_cgroup_attach E G (M\<lparr>cg_css := \<lambda>_. tg\<rparr>) tset (k, s))"
    if "tg \<in> set (gs_list s)" "cpu_cgroup_can_attach tg tset (k, s) = 0"
| rt_runtime: "cg_step E G M C threads (k, s) (k, s')"
    if "cpu_rt_runtime_write G k threads tg v s = Some (r, s')"
| rt_period: "cg_step E G M C threads (k, s) (k, s')"
    if "cpu_rt_period_write_uint G k threads tg v s = Some (r, s')"
| cfs_quota: "cg_step E G M C threads (k, s) (k, s')"
    if "cpu_cfs_quota_write_s64 C tg v s = Some (r, s')"
| cfs_period: "cg_step E G M C threads (k, s) (k, s')"
    if "cpu_cfs_period_write_u64 C tg v s = Some (r, s')"
| sysctl: "cg_step E G M C threads (k, s) (k', s')"
    if "dointvec s = (0, s\<lparr>gs_rt_period := pv, gs_rt_runtime := rv\<rparr>)"
      "sched_rt_handler G threads dointvec True (k, s) = Some (r, k', s')"

definition cg_ok :: "'x env \<Rightarrow> 'g group_env \<Rightarrow> ('x, 'g) cg_env \<Rightarrow> 'g cfs_env \<Rightarrow> bool" where
  "cg_ok E G M C \<longleftrightarrow> env_ok E \<and> group_env_ok G \<and> move_ok M \<and> cfs_view_ok C"

lemma rt_runtime_inv: "cg_tree G threads (k, s) t \<Longrightarrow> cpu_rt_runtime_write G k threads tg v s = Some (r, s') \<Longrightarrow>
    cg_tree G threads (k, s') t"
  by (auto simp: cpu_rt_runtime_write_def sched_group_set_rt_runtime_def Let_def intro: cg_tree_rt)

lemma rt_period_inv: "cg_tree G threads (k, s) t \<Longrightarrow> cpu_rt_period_write_uint G k threads tg v s = Some (r, s') \<Longrightarrow>
    cg_tree G threads (k, s') t"
  by (auto simp: cpu_rt_period_write_uint_def sched_group_set_rt_period_def Let_def intro: cg_tree_rt split: if_splits)

lemma cfs_quota_inv: "cg_tree G threads (k, s) t \<Longrightarrow> cfs_view_ok C \<Longrightarrow> cpu_cfs_quota_write_s64 C tg v s = Some (r, s') \<Longrightarrow>
    cg_tree G threads (k, s') t"
  by (auto simp: cpu_cfs_quota_write_s64_def tg_set_cfs_quota_def Let_def intro: cg_tree_cfs)

lemma cfs_period_inv: "cg_tree G threads (k, s) t \<Longrightarrow> cfs_view_ok C \<Longrightarrow> cpu_cfs_period_write_u64 C tg v s = Some (r, s') \<Longrightarrow>
    cg_tree G threads (k, s') t"
  by (auto simp: cpu_cfs_period_write_u64_def tg_set_cfs_period_def Let_def intro: cg_tree_cfs)

lemma cg_step_inv:
  assumes "cg_step E G M C threads x y" "cg_ok E G M C" "cg_inv G threads x"
  shows "cg_inv G threads y"
  using assms(1)
proof cases
  case (create q s tg s1 s2 k)
  obtain t where t: "cg_tree G threads (k, s) t" using assms(3) create by (auto simp: cg_inv_def)
  have new: "tg \<notin> gs_live s" "rt_view_but tg (s\<lparr>gs_live := insert tg (gs_live s)\<rparr>) s1" "tg_rt_runtime (gs_groups s1 tg) = 0"
    using css_alloc_view [OF _ create(4)] assms(2) by (auto simp: cg_ok_def)
  have out: "tg \<notin> set (nodes t)" "q \<in> set (nodes t)" using t new(1) create(3) by (auto simp: cg_tree_def)
  have "cg_tree G threads (k, s1) t"
    using t by (intro cg_tree_but [OF t new(2) out(1)]) (auto simp: cg_tree_def)
  moreover have "sched_online_group tg (Some q) s1 = Some s2"
    using create(5) by (auto simp: cpu_cgroup_css_online_def css_tg_def)
  moreover have "tg \<in> gs_live s1" using new(2) by (simp add: rt_view_but_def)
  ultimately have "cg_tree G threads (k, s2) (grow tg q t)"
    using out new(3) by (intro cg_tree_online)
  with create show ?thesis by (auto simp: cg_inv_def)
next
  case (create_fails q s e s1 k)
  obtain t where t: "cg_tree G threads (k, s) t" using assms(3) create_fails by (auto simp: cg_inv_def)
  have "s1 = s \<or> (\<exists>tg. tg \<notin> gs_live s \<and> rt_view_but tg s s1)"
    using css_alloc_view [OF _ create_fails(4)] assms(2) by (auto simp: cg_ok_def)
  then have "cg_tree G threads (k, s1) t"
    using t cg_tree_but [OF t, of _ "gs_live s" s1] by (auto simp: cg_tree_def)
  with create_fails show ?thesis by (auto simp: cg_inv_def)
next
  case (remove tg s k)
  obtain t where t: "cg_tree G threads (k, s) t" using assms(3) remove by (auto simp: cg_inv_def)
  then have "cg_tree G threads (k, cpu_cgroup_css_offline G tg s) (prune tg t)"
    using remove assms(2) by (intro cg_tree_offline) (auto simp: cg_ok_def cg_tree_def)
  with remove show ?thesis by (auto simp: cg_inv_def)
next
  case (destroy tg s k)
  obtain t where t: "cg_tree G threads (k, s) t" using assms(3) destroy by (auto simp: cg_inv_def)
  have "cg_tree G threads (k, cpu_cgroup_css_free tg s) t"
    by (rule cg_tree_view [OF _ _ t]) (simp_all add: rt_view_def same_prio_def cpu_cgroup_css_free_def sched_destroy_group_def)
  with destroy show ?thesis by (auto simp: cg_inv_def)
next
  case (grace tg s k)
  obtain t where t: "cg_tree G threads (k, s) t" using assms(3) grace by (auto simp: cg_inv_def)
  let ?s = "s\<lparr>gs_rcu := remove1 tg (gs_rcu s)\<rparr>"
  have inv: "cg_tree G threads (k, ?s) t"
    by (rule cg_tree_view [OF _ _ t]) (simp_all add: rt_view_def same_prio_def)
  have "cg_tree G threads (k, free_sched_group_rcu G tg ?s) t"
    unfolding free_sched_group_rcu_def
  proof (rule cg_tree_but [OF inv])
    show "rt_view_but tg (?s\<lparr>gs_live := gs_live ?s - {tg}\<rparr>) (free_sched_group G tg ?s)"
      using assms(2) by (intro free_sched_group_view) (simp add: cg_ok_def)
    show "tg \<notin> set (nodes t)" "set (nodes t) \<subseteq> gs_live ?s - {tg}" using t grace by (auto simp: cg_tree_def)
  qed
  with grace show ?thesis by (auto simp: cg_inv_def)
next
  case (attach tg s tset k)
  obtain t where t: "cg_tree G threads (k, s) t" using assms(3) attach by (auto simp: cg_inv_def)
  let ?M = "M\<lparr>cg_css := \<lambda>_. tg\<rparr>"
  obtain k' s' where run: "cpu_cgroup_attach E G ?M tset (k, s) = (k', s')"
    by (cases "cpu_cgroup_attach E G ?M tset (k, s)")
  have "\<forall>p\<in>set tset. cg_css ?M p = tg \<and> sched_rt_can_attach k tg p s"
    using attach(4) by (auto simp: cpu_cgroup_can_attach_def list_ex_iff split: if_splits)
  moreover have "env_ok E" "move_ok ?M" "\<And>p g. ge_autogroup_task_group G p g = g"
    using assms(2) by (simp_all add: cg_ok_def move_ok_def group_env_ok_def)
  moreover have "tg \<in> set (nodes t)" using t attach by (auto simp: cg_tree_def)
  ultimately have "cg_tree G threads (k', s') t" using cg_tree_attach t run by blast
  with attach run show ?thesis by (auto simp: cg_inv_def)
next
  case (sysctl dointvec s pv rv k r k' s')
  then obtain t where "cg_tree G threads (k, s) t" using assms(3) by (auto simp: cg_inv_def)
  then have "cg_tree G threads (k', s') t" by (rule cg_tree_handler [OF _ sysctl(3,4)])
  with sysctl show ?thesis by (auto simp: cg_inv_def)
next
  case (rt_runtime k tg v s r s')
  then show ?thesis using assms(3) rt_runtime_inv by (metis cg_inv_def)
next
  case (rt_period k tg v s r s')
  then show ?thesis using assms(3) rt_period_inv by (metis cg_inv_def)
next
  case (cfs_quota tg v s r s' k)
  then show ?thesis using assms(2,3) cfs_quota_inv by (metis cg_inv_def cg_ok_def)
next
  case (cfs_period tg v s r s' k)
  then show ?thesis using assms(2,3) cfs_period_inv by (metis cg_inv_def cg_ok_def)
qed


definition cg_demo_env :: "gid list group_env" where
  "cg_demo_env = demo_group_env\<lparr>ge_kzalloc := \<lambda>s. if 4 \<in> gs_live s then None else Some 4,
     ge_alloc_rt := \<lambda>tg p s. (True, upd_group tg (\<lambda>g. g\<lparr>tg_rt_runtime := 0\<rparr>) s)\<rparr>"

definition cg_demo_move :: "(demo_ext, gid list) cg_env" where
  "cg_demo_move = \<lparr>cg_css = (\<lambda>_. 1), cg_move_group = (\<lambda>_. None), cg_set_task_rq = (\<lambda>_ _ ks. ks),
     cg_set_shares = (\<lambda>tg v s. (0, upd_group tg (\<lambda>g. g\<lparr>tg_shares := v\<rparr>) s)), cg_scale_load_down = (\<lambda>w. w)\<rparr>"

lemma cg_demo_ok: "cg_ok demo_env cg_demo_env cg_demo_move demo_cfs_env"
proof -
  have "group_env_ok cg_demo_env"
    by (auto simp: group_env_ok_def cg_demo_env_def demo_group_env_def rt_view_but_def)
  moreover have "cfs_view_ok demo_cfs_env" by (simp add: cfs_view_ok_def demo_cfs_env_def rt_view_tg) (simp add: rt_view_def)
  ultimately show ?thesis
    by (simp add: cg_ok_def demo_env_ok move_ok_def cg_demo_move_def)
qed

lemma cg_demo_inv: "cg_inv cg_demo_env [1, 2] (demo_state, demo_groups)"
proof -
  have "rt_feasible cg_demo_env demo_state [1, 2] (GNode 0 [GNode 2 [GNode 3 []], GNode 1 []]) demo_groups"
    by (auto simp: rt_feasible_def rt_group_ok_def tg_has_rt_tasks_def to_ratio_def cg_demo_env_def
        demo_groups_def demo_group_def demo_group_env_def demo_state_def demo_tsk_def word_sle_eq word_sless_alt)
  moreover have "gs_list demo_groups = [3, 2, 1, 0]" "gs_live demo_groups = {0, 1, 2, 3}" "gs_task_group demo_groups = (\<lambda>_. 0)"
    by (simp_all add: demo_groups_def)
  ultimately have "cg_tree cg_demo_env [1, 2] (demo_state, demo_groups) (GNode 0 [GNode 2 [GNode 3 []], GNode 1 []])"
    using demo_tree demo_root unfolding cg_tree_def by (simp add: root_task_group_def) auto
  then show ?thesis unfolding cg_inv_def by blast
qed


text \<open>Attaching tasks that \<^verbatim>\<open>cpu_cgroup_can_attach\<close> let through puts every one of them into the
  group and no other task anywhere else; what the core keeps of the tasks and of the runqueues
  is untouched, a queued or running task having been taken off its queue and put back.\<close>

theorem cpu_cgroup_attach_result:
  assumes "env_ok E" "move_ok M" "\<And>p g. ge_autogroup_task_group G p g = g" "\<And>p. p \<in> set tset \<Longrightarrow> cg_css M p = tg"
    and "cpu_cgroup_attach E G M tset (k, s) = (k', s')"
  shows "(\<forall>p. gs_task_group s' p = (if p \<in> set tset then tg else gs_task_group s p)) \<and> same_core k k' \<and>
    (\<forall>g. children s' g = children s g)"
  using assms(4,5)
proof (induction tset arbitrary: k s)
  case Nil
  then show ?case by (simp add: cpu_cgroup_attach_def)
next
  case (Cons p tset)
  obtain k1 s1 where m: "sched_move_task E G M p (k, s) = (k1, s1)" by (cases "sched_move_task E G M p (k, s)")
  have css: "cg_css M p = tg" using Cons.prems(1) by simp
  have step: "same_core k k1" "gs_task_group s1 = (gs_task_group s)(p := tg)"
    and view: "rt_view s1 = rt_view (s\<lparr>gs_task_group := (gs_task_group s)(p := tg)\<rparr>)"
    using sched_move_task_result [OF assms(1-3) m] css by simp_all
  have kids: "children s1 g = children s g" for g using rt_view_fields(2) [OF view] by simp
  have "cpu_cgroup_attach E G M tset (k1, s1) = (k', s')"
    using Cons.prems(2) m by (simp add: cpu_cgroup_attach_def)
  then show ?case
    using Cons.IH [of k1 s1] Cons.prems(1) step kids by (auto intro: same_core_trans)
qed

lemma cpu_cgroup_attach_result_witness:
  "gs_task_group (snd (cpu_cgroup_attach demo_env cg_demo_env cg_demo_move [1, 2] (demo_state, demo_groups))) 2 = 1"
proof -
  obtain k' s' where r: "cpu_cgroup_attach demo_env cg_demo_env cg_demo_move [1, 2] (demo_state, demo_groups) = (k', s')"
    by (cases "cpu_cgroup_attach demo_env cg_demo_env cg_demo_move [1, 2] (demo_state, demo_groups)")
  have "gs_task_group s' 2 = 1"
    using cpu_cgroup_attach_result [OF _ _ _ _ r, of 1] cg_demo_ok
    by (simp add: cg_ok_def group_env_ok_def cg_demo_move_def)
  with r show ?thesis by simp
qed

end
